(* ===== verification/Wf_Prelude.thy ===== *)
theory Wf_Prelude
  imports Main "HOL-Library.Word" "HOL-Library.AList"
begin

text \<open>
  Types and lemmas shared by every component of the API server (crate \<open>wfchat-api\<close>,
  \<open>src/apps/api/src\<close>).

  \<^item> A \<open>uuid::Uuid\<close> is a 128-bit word; Rust compares the 16 big-endian bytes, which is the
    unsigned order of the word.
  \<^item> A \<open>std::time::Instant\<close> is a natural number of nanoseconds since an arbitrary origin and a
    \<open>Duration\<close> a number of nanoseconds. \<open>Instant::duration_since\<close> and
    \<open>saturating_duration_since\<close> both return zero for a later argument, as subtraction on
    \<open>nat\<close> does.
  \<^item> A \<open>HashMap\<close> is an association list without repeated keys: the list is one iteration order,
    which the source does not fix, so a property that depends on it is stated for every order.
  \<^item> A saturating operation on an unsigned integer of \<open>w\<close> bits is written out on \<open>nat\<close>.
  \<^item> \<open>Vec\<close> and \<open>VecDeque\<close> are lists.
\<close>

section \<open>Names of the shared types\<close>

type_synonym uuid = "128 word"
type_synonym u32 = "32 word"
type_synonym instant = nat
type_synonym duration = nat
type_synonym ('k, 'v) hash_map = "('k \<times> 'v) list"

named_theorems hm_simps "rewrite rules of the hash map layer"

definition secs :: "nat \<Rightarrow> duration" where
  "secs n = n * 1000000000"

definition millis :: "nat \<Rightarrow> duration" where
  "millis n = n * 1000000"

definition duration_since :: "instant \<Rightarrow> instant \<Rightarrow> duration" where
  "duration_since now earlier = now - earlier"

lemma secs_mono [simp]: "secs a \<le> secs b \<longleftrightarrow> a \<le> b"
  by (simp add: secs_def)

lemma secs_zero_less [simp]: "0 < secs n \<longleftrightarrow> 0 < n"
  by (simp add: secs_def)

section \<open>Hash maps\<close>

definition hm_get :: "('k, 'v) hash_map \<Rightarrow> 'k \<Rightarrow> 'v option" where
  "hm_get m k = map_of m k"

definition hm_insert :: "'k \<Rightarrow> 'v \<Rightarrow> ('k, 'v) hash_map \<Rightarrow> ('k, 'v) hash_map" where
  "hm_insert k v m = AList.update k v m"

definition hm_remove :: "'k \<Rightarrow> ('k, 'v) hash_map \<Rightarrow> ('k, 'v) hash_map" where
  "hm_remove k m = AList.delete k m"

definition hm_values :: "('k, 'v) hash_map \<Rightarrow> 'v list" where
  "hm_values m = map snd m"

definition hm_map_values :: "('v \<Rightarrow> 'w) \<Rightarrow> ('k, 'v) hash_map \<Rightarrow> ('k, 'w) hash_map" where
  "hm_map_values f m = map (\<lambda>(k, v). (k, f v)) m"

definition hm_adjust :: "'k \<Rightarrow> ('v \<Rightarrow> 'v) \<Rightarrow> ('k, 'v) hash_map \<Rightarrow> ('k, 'v) hash_map" where
  "hm_adjust k f m = (case hm_get m k of None \<Rightarrow> m | Some v \<Rightarrow> hm_insert k (f v) m)"

definition hm_ok :: "('k, 'v) hash_map \<Rightarrow> bool" where
  "hm_ok m \<longleftrightarrow> distinct (map fst m)"

lemma hm_get_Nil [simp, hm_simps]: "hm_get [] k = None"
  by (simp add: hm_get_def)

lemma hm_get_insert [simp, hm_simps]:
  "hm_get (hm_insert k v m) j = (if j = k then Some v else hm_get m j)"
  by (simp add: hm_get_def hm_insert_def update_conv')

lemma hm_get_remove [simp, hm_simps]:
  "hm_get (hm_remove k m) j = (if j = k then None else hm_get m j)"
  by (simp add: hm_get_def hm_remove_def delete_conv')

lemma hm_get_map_values [simp, hm_simps]:
  "hm_get (hm_map_values f m) k = map_option f (hm_get m k)"
  by (simp add: hm_get_def hm_map_values_def map_of_map)

lemma hm_get_adjust [simp, hm_simps]:
  "hm_get (hm_adjust k f m) j = (if j = k then map_option f (hm_get m k) else hm_get m j)"
  by (auto simp: hm_adjust_def split: option.split)

lemma hm_ok_Nil [simp]: "hm_ok []"
  by (simp add: hm_ok_def)

lemma hm_ok_insert [simp]: "hm_ok m \<Longrightarrow> hm_ok (hm_insert k v m)"
  by (simp add: hm_ok_def hm_insert_def distinct_update)

lemma hm_ok_remove [simp]: "hm_ok m \<Longrightarrow> hm_ok (hm_remove k m)"
  by (simp add: hm_ok_def hm_remove_def distinct_delete)

lemma keys_map_values [simp]: "map fst (hm_map_values f m) = map fst m"
  by (induction m) (auto simp: hm_map_values_def)

lemma hm_ok_map_values [simp]: "hm_ok (hm_map_values f m) \<longleftrightarrow> hm_ok m"
  by (simp add: hm_ok_def)

lemma hm_ok_adjust [simp]: "hm_ok m \<Longrightarrow> hm_ok (hm_adjust k f m)"
  by (simp add: hm_adjust_def split: option.split)

lemma hm_get_in_set: "hm_get m k = Some v \<Longrightarrow> (k, v) \<in> set m"
  by (simp add: hm_get_def map_of_SomeD)

lemma hm_get_eq_in_set: "hm_ok m \<Longrightarrow> hm_get m k = Some v \<longleftrightarrow> (k, v) \<in> set m"
  by (simp add: hm_ok_def hm_get_def map_of_eq_Some_iff)

lemma hm_get_None: "hm_get m k = None \<longleftrightarrow> k \<notin> fst ` set m"
  by (simp add: hm_get_def map_of_eq_None_iff)

lemma hm_get_filter:
  "hm_ok m \<Longrightarrow> hm_get (filter P m) k =
     (case hm_get m k of None \<Rightarrow> None | Some v \<Rightarrow> if P (k, v) then Some v else None)"
  by (induction m) (auto simp: hm_get_def hm_ok_def image_iff split: option.splits
      dest: map_of_SomeD)

lemma hm_ok_filter [simp]: "hm_ok m \<Longrightarrow> hm_ok (filter P m)"
  by (simp add: hm_ok_def distinct_map_filter)

lemma length_hm_insert_new: "hm_get m k = None \<Longrightarrow> length (hm_insert k v m) = Suc (length m)"
  by (induction m) (auto simp: hm_get_def hm_insert_def split: if_splits)

lemma length_hm_insert_old: "hm_get m k = Some w \<Longrightarrow> length (hm_insert k v m) = length m"
  by (induction m) (auto simp: hm_get_def hm_insert_def split: if_splits)

lemma length_hm_adjust [simp]: "length (hm_adjust k f m) = length m"
  by (auto simp: hm_adjust_def length_hm_insert_old split: option.split)

lemma length_hm_map_values [simp]: "length (hm_map_values f m) = length m"
  by (simp add: hm_map_values_def)

lemma hm_remove_filter: "hm_remove k m = filter (\<lambda>e. fst e \<noteq> k) m"
  by (induction m) (auto simp: hm_remove_def)

lemma length_hm_remove_le: "length (hm_remove k m) \<le> length m"
  by (simp add: hm_remove_filter)

lemma hm_remove_absent: "hm_get m k = None \<Longrightarrow> hm_remove k m = m"
  by (auto simp: hm_remove_filter hm_get_None intro!: filter_True)

lemma length_hm_remove:
  "hm_ok m \<Longrightarrow> hm_get m k = Some v \<Longrightarrow> Suc (length (hm_remove k m)) = length m"
proof (induction m)
  case Nil
  then show ?case by simp
next
  case (Cons e m)
  show ?case
  proof (cases "fst e = k")
    case True
    with Cons.prems have "hm_get m k = None"
      by (auto simp: hm_ok_def hm_get_None)
    with True show ?thesis
      using hm_remove_absent [of m k] by (simp add: hm_remove_filter)
  next
    case False
    with Cons.prems have "hm_ok m" and "hm_get m k = Some v"
      by (auto simp: hm_ok_def hm_get_def split: if_splits)
    with False Cons.IH show ?thesis
      by (simp add: hm_remove_filter)
  qed
qed

lemma set_hm_insert:
  "hm_ok m \<Longrightarrow> set (hm_insert k v m) = insert (k, v) {e \<in> set m. fst e \<noteq> k}"
  by (induction m) (force simp: hm_insert_def hm_ok_def)+

lemma set_hm_values_insert_subset:
  "set (hm_values (hm_insert k v m)) \<subseteq> insert v (set (hm_values m))"
  by (induction m) (auto simp: hm_insert_def hm_values_def)

lemma hm_get_in_values: "hm_get m k = Some v \<Longrightarrow> v \<in> set (hm_values m)"
  by (auto simp: hm_values_def dest: hm_get_in_set intro: rev_image_eqI)

section \<open>Counters kept in a hash map\<close>

text \<open>\<open>map.get(&key).copied().unwrap_or_default()\<close> and \<open>*map.entry(key).or_default() += 1\<close>.\<close>

definition counter_get :: "('k, nat) hash_map \<Rightarrow> 'k \<Rightarrow> nat" where
  "counter_get m k = (case hm_get m k of None \<Rightarrow> 0 | Some n \<Rightarrow> n)"

definition counter_incr :: "'k \<Rightarrow> ('k, nat) hash_map \<Rightarrow> ('k, nat) hash_map" where
  "counter_incr k m = hm_insert k (counter_get m k + 1) m"

lemma counter_get_Nil [simp]: "counter_get [] k = 0"
  by (simp add: counter_get_def)

lemma counter_get_incr [simp]:
  "counter_get (counter_incr k m) j = (if j = k then counter_get m k + 1 else counter_get m j)"
  by (simp add: counter_get_def counter_incr_def)

lemma hm_ok_counter_incr [simp]: "hm_ok m \<Longrightarrow> hm_ok (counter_incr k m)"
  by (simp add: counter_incr_def)

lemma sum_counter_incr:
  "hm_ok m \<Longrightarrow> sum_list (map snd (counter_incr k m)) = Suc (sum_list (map snd m))"
proof -
  have "sum_list (map snd (AList.update k (Suc (case map_of m k of None \<Rightarrow> 0 | Some n \<Rightarrow> n)) m))
      = Suc (sum_list (map snd m))"
    by (induction m) auto
  then show ?thesis by (simp add: counter_incr_def counter_get_def hm_insert_def hm_get_def)
qed

lemma counter_incr_positive:
  "hm_ok m \<Longrightarrow> \<forall>e\<in>set m. 0 < snd e \<Longrightarrow> \<forall>e\<in>set (counter_incr k m). 0 < snd e"
  by (auto simp: counter_incr_def set_hm_insert)

text \<open>Counters that drop the entries that reach zero.\<close>

definition no_zero_counter :: "('k, nat) hash_map \<Rightarrow> bool" where
  "no_zero_counter m \<longleftrightarrow> hm_ok m \<and> (\<forall>k. hm_get m k \<noteq> Some 0)"

lemma no_zero_counter_empty:
  assumes "no_zero_counter m" and "\<And>k. counter_get m k = 0"
  shows "m = []"
proof -
  have "hm_get m k = None" for k
    using assms(1) assms(2) [of k]
    by (cases "hm_get m k") (auto simp: no_zero_counter_def counter_get_def)
  then have none: "hm_get m k = None" for k by simp
  show ?thesis
  proof (cases m)
    case Nil
    then show ?thesis .
  next
    case (Cons e m')
    then show ?thesis using none [of "fst e"] by (simp add: hm_get_def)
  qed
qed

section \<open>Saturating arithmetic at a width\<close>

definition sat_add :: "nat \<Rightarrow> nat \<Rightarrow> nat \<Rightarrow> nat" where
  "sat_add w a b = min (2 ^ w - 1) (a + b)"

lemma sat_add_le: "sat_add w a b \<le> a + b"
  by (simp add: sat_add_def)

lemma sat_add_bound: "sat_add w a b < 2 ^ w"
  by (rule le_less_trans [of _ "2 ^ w - 1"]) (simp_all add: sat_add_def)

lemma sat_add_exact: "a + b < 2 ^ w \<Longrightarrow> sat_add w a b = a + b"
  by (simp add: sat_add_def)

section \<open>Strings\<close>

text \<open>
  ASCII identifiers are \<open>string\<close>. Text that users write is a list of Unicode scalar values
  (\<open>ustr\<close>): \<open>chars()\<close> iterates over it and \<open>chars().count()\<close> is its length.
\<close>

type_synonym ustr = "nat list"

definition ascii :: "string \<Rightarrow> ustr" where
  "ascii s = map of_char s"

lemma ascii_inj [simp]: "ascii s = ascii t \<longleftrightarrow> s = t"
  by (simp add: ascii_def inj_map_eq_map inj_on_def)

text \<open>\<open>u32\<close> or \<open>usize\<close> in decimal, as \<open>format!("{}")\<close> prints it.\<close>

definition digit_char :: "nat \<Rightarrow> char" where
  "digit_char d = char_of (48 + d)"

fun show_nat :: "nat \<Rightarrow> string" where
  "show_nat n = (if n < 10 then [digit_char n]
                 else show_nat (n div 10) @ [digit_char (n mod 10)])"

declare show_nat.simps [simp del]

definition read_digits :: "string \<Rightarrow> nat" where
  "read_digits s = foldl (\<lambda>acc c. 10 * acc + (of_char c - 48)) 0 s"

lemma of_char_digit_char [simp]: "d < 10 \<Longrightarrow> of_char (digit_char d) = 48 + d"
  by (simp add: digit_char_def)

lemma read_show_nat: "read_digits (show_nat n) = n"
proof (induction n rule: show_nat.induct)
  case (1 n)
  show ?case
  proof (cases "n < 10")
    case True
    then show ?thesis by (simp add: show_nat.simps [of n] read_digits_def)
  next
    case False
    with "1.IH" have "read_digits (show_nat (n div 10)) = n div 10" by simp
    with False show ?thesis
      by (simp add: show_nat.simps [of n] read_digits_def)
  qed
qed

lemma show_nat_inj [simp]: "show_nat a = show_nat b \<longleftrightarrow> a = b"
  by (metis read_show_nat)

lemma show_nat_digits: "c \<in> set (show_nat n) \<Longrightarrow> 48 \<le> (of_char c :: nat) \<and> (of_char c :: nat) \<le> 57"
proof (induction n rule: show_nat.induct)
  case (1 n)
  then show ?case
    by (cases "n < 10") (auto simp: show_nat.simps [of n])
qed

lemma show_nat_no_dash: "CHR ''-'' \<notin> set (show_nat n)"
  using show_nat_digits [of "CHR ''-''" n] by auto

text \<open>
  \<open>str::trim\<close> and \<open>split(sep)\<close>, generic in the element type: \<open>ws\<close> says which elements
  are white space. \<open>split_on\<close> always yields at least one piece, as \<open>str::split\<close> does.
\<close>

definition trim_by :: "('a \<Rightarrow> bool) \<Rightarrow> 'a list \<Rightarrow> 'a list" where
  "trim_by ws xs = rev (dropWhile ws (rev (dropWhile ws xs)))"

fun split_on :: "'a \<Rightarrow> 'a list \<Rightarrow> 'a list list" where
  "split_on sep [] = [[]]"
| "split_on sep (x # xs) =
     (if x = sep then [] # split_on sep xs
      else (case split_on sep xs of [] \<Rightarrow> [[x]] | p # ps \<Rightarrow> (x # p) # ps))"

lemma split_on_not_Nil [simp]: "split_on sep xs \<noteq> []"
  by (induction xs) (auto split: list.splits)

lemma trim_by_Nil [simp]: "trim_by ws [] = []"
  by (simp add: trim_by_def)

section \<open>Lists\<close>

text \<open>\<open>iter().position(p)\<close> and an update of the first element that satisfies a predicate.\<close>

fun update_first :: "('a \<Rightarrow> bool) \<Rightarrow> ('a \<Rightarrow> 'a) \<Rightarrow> 'a list \<Rightarrow> 'a list" where
  "update_first P f [] = []"
| "update_first P f (x # xs) = (if P x then f x # xs else x # update_first P f xs)"

lemma length_update_first [simp]: "length (update_first P f xs) = length xs"
  by (induction xs) auto

lemma map_update_first: "(\<And>x. g (f x) = g x) \<Longrightarrow> map g (update_first P f xs) = map g xs"
  by (induction xs) auto

lemma update_first_none: "find P xs = None \<Longrightarrow> update_first P f xs = xs"
  by (induction xs) (auto split: if_splits)

lemma find_Some_split:
  "find P xs = Some x \<Longrightarrow>
     \<exists>us vs. xs = us @ x # vs \<and> P x \<and> (\<forall>u\<in>set us. \<not> P u)
       \<and> update_first P f xs = us @ f x # vs"
proof (induction xs)
  case Nil
  then show ?case by simp
next
  case (Cons y xs)
  show ?case
  proof (cases "P y")
    case True
    with Cons.prems show ?thesis by (intro exI [of _ "[]"] exI [of _ xs]) auto
  next
    case False
    with Cons obtain us vs where "xs = us @ x # vs" "P x" "\<forall>u\<in>set us. \<not> P u"
      "update_first P f xs = us @ f x # vs" by auto
    with False show ?thesis by (intro exI [of _ "y # us"] exI [of _ vs]) auto
  qed
qed

lemma find_exists: "\<exists>x\<in>set xs. P x \<Longrightarrow> \<exists>y. find P xs = Some y"
  by (induction xs) auto

lemma find_middle: "\<forall>x\<in>set us. \<not> P x \<Longrightarrow> P y \<Longrightarrow> find P (us @ y # vs) = Some y"
  by (induction us) auto

lemma find_Some_in: "find P xs = Some x \<Longrightarrow> x \<in> set xs \<and> P x"
  by (induction xs) (auto split: if_splits)

lemma set_update_first_subset: "set (update_first P f xs) \<subseteq> set xs \<union> f ` {x \<in> set xs. P x}"
  by (induction xs) auto

text \<open>The number of elements that satisfy a predicate.\<close>

definition count_if :: "('a \<Rightarrow> bool) \<Rightarrow> 'a list \<Rightarrow> nat" where
  "count_if P xs = length (filter P xs)"

lemma count_if_simps [simp]:
  "count_if P [] = 0"
  "count_if P (x # xs) = (if P x then 1 else 0) + count_if P xs"
  "count_if P (xs @ ys) = count_if P xs + count_if P ys"
  by (simp_all add: count_if_def)

lemma count_if_le: "count_if P xs \<le> length xs"
  by (simp add: count_if_def)

lemma count_if_full: "count_if P xs = length xs \<Longrightarrow> x \<in> set xs \<Longrightarrow> P x"
proof (induction xs)
  case (Cons y xs)
  then show ?case using count_if_le [of P xs] by (auto split: if_splits)
qed simp

lemma count_if_pos: "0 < count_if P xs \<longleftrightarrow> (\<exists>x\<in>set xs. P x)"
  by (induction xs) auto

lemma count_if_mono: "(\<And>x. x \<in> set xs \<Longrightarrow> P x \<Longrightarrow> Q x) \<Longrightarrow> count_if P xs \<le> count_if Q xs"
  by (induction xs) auto

lemma count_if_cong: "(\<And>x. x \<in> set xs \<Longrightarrow> P x = Q x) \<Longrightarrow> count_if P xs = count_if Q xs"
  by (induction xs) auto

lemma nth_split: "i < length ps \<Longrightarrow> \<exists>us vs. ps = us @ ps ! i # vs \<and> take i ps @ drop (Suc i) ps = us @ vs"
  by (metis id_take_nth_drop)

end
