(* ===== verification/App_Error.thy ===== *)
theory App_Error
  imports Wf_Prelude
begin

text \<open>
  The error values of the API, \<open>error.rs\<close>: \<open>AppError\<close>, the machine-readable \<open>ErrorReason\<close>, and
  the HTTP response an error becomes. A status code is its number, a message an ASCII string, and
  \<open>retry_after_seconds\<close> a natural number of seconds.
\<close>

datatype error_reason =
    ChatRequestRate | GenerationProcessCapacity | GenerationSessionCapacity
  | ChatGenerationActive | DailyQuotaLimit | GlobalDailyGenerationLimit
  | OwnerChatLimit | ChatStorageLimit | MessageSizeLimit | RequestSizeLimit
  | AssistantOutputSizeLimit | ImageSizeLimit | ImageCountLimit | ImageUploadRate
  | ImageProcessingCapacity | ImageStorageLimit | CafeSocketCapacity | CafeRoomCreationRate

datatype app_error =
    NotFound
  | Forbidden
  | BadRequest string
  | PayloadTooLarge
  | Conflict string
  | Ai string
  | Database
  | RateLimited
  | ClientDisconnected
  | Reasoned (reasoned_status: nat) (reasoned_message: string) (reasoned_reason: error_reason)
      (reasoned_retry: "nat option")

definition limit_retry_after_seconds :: nat where
  "limit_retry_after_seconds = 60"

fun error_reason_of :: "app_error \<Rightarrow> error_reason option" where
  "error_reason_of (Reasoned st msg reason retry) = Some reason"
| "error_reason_of _ = None"

fun retry_after_seconds :: "app_error \<Rightarrow> nat option" where
  "retry_after_seconds RateLimited = Some limit_retry_after_seconds"
| "retry_after_seconds (Reasoned st msg reason retry) = retry"
| "retry_after_seconds _ = None"

fun body_retry_after_seconds :: "app_error \<Rightarrow> nat option" where
  "body_retry_after_seconds (Reasoned st msg reason retry) = retry"
| "body_retry_after_seconds _ = None"

text \<open>The \<open>#[error(...)]\<close> texts of the \<open>thiserror\<close> derive.\<close>

fun error_text :: "app_error \<Rightarrow> string" where
  "error_text NotFound = ''not found''"
| "error_text Forbidden = ''forbidden''"
| "error_text (BadRequest m) = ''bad request: '' @ m"
| "error_text PayloadTooLarge = ''payload too large''"
| "error_text (Conflict m) = ''conflict: '' @ m"
| "error_text (Ai m) = ''upstream ai error: '' @ m"
| "error_text Database = ''database error''"
| "error_text RateLimited = ''too many requests''"
| "error_text ClientDisconnected = ''client disconnected''"
| "error_text (Reasoned st msg reason retry) = msg"

fun error_status :: "app_error \<Rightarrow> nat" where
  "error_status NotFound = 404"
| "error_status Forbidden = 403"
| "error_status (BadRequest m) = 400"
| "error_status PayloadTooLarge = 413"
| "error_status (Conflict m) = 409"
| "error_status (Ai m) = 502"
| "error_status Database = 500"
| "error_status RateLimited = 429"
| "error_status ClientDisconnected = 408"
| "error_status (Reasoned st msg reason retry) = st"

record error_response =
  resp_status :: nat
  resp_error :: string
  resp_reason :: "error_reason option"
  resp_body_retry :: "nat option"
  resp_retry_after :: "string option"

definition into_response :: "app_error \<Rightarrow> error_response" where
  "into_response e =
     \<lparr>resp_status = error_status e,
      resp_error = (case e of
          Ai m \<Rightarrow> ''assistant response failed''
        | ClientDisconnected \<Rightarrow> ''request canceled''
        | _ \<Rightarrow> error_text e),
      resp_reason = error_reason_of e,
      resp_body_retry = body_retry_after_seconds e,
      resp_retry_after = map_option show_nat (retry_after_seconds e)\<rparr>"

text \<open>The text of an upstream provider never reaches the client.\<close>

lemma into_response_hides_provider_text: "into_response (Ai a) = into_response (Ai b)"
  by (simp add: into_response_def)

section \<open>Errors of the store\<close>

text \<open>
  The errors of \<open>sqlx\<close> that the modelled transactions can meet. \<open>From<sqlx::Error>\<close> turns each into
  \<open>AppError::Database\<close>.
\<close>

datatype store_error =
    Protocol string
  | UniqueViolation
  | ForeignKeyViolation
  | NumericOverflow
  | RowNotFound
  | TimestampOutOfRange
  | CheckViolation

definition from_store_error :: "store_error \<Rightarrow> app_error" where
  "from_store_error e = Database"

end
