(* ===== verification/Wf_Interfaces.thy ===== *)
theory Wf_Interfaces
  imports Wf_Prelude
begin

text \<open>
  The contracts the components of the server share, each a locale whose lemmas are proved once and
  interpreted on the definitions that model the code:
  \<^item> \<open>invariant_machine\<close> and its extension \<open>capped_machine\<close>: a component whose every operation
    keeps an invariant (and whose invariant bounds a resource);
  \<^item> \<open>counter_map\<close>: a map of counters that are incremented on admission and decremented on release
    (the socket counters of the Cafe hub, the per-session counters of the generation limiter);
  \<^item> \<open>window_gate\<close>: a sliding window of instants that admits a bounded number of events
    (the two message limits of a Cafe socket, the room-creation buckets of the Cafe hub).
\<close>

section \<open>Components with an invariant\<close>

locale invariant_machine =
  fixes step :: "'s \<Rightarrow> 'e \<Rightarrow> 's"
    and inv :: "'s \<Rightarrow> bool"
  assumes step_inv: "inv s \<Longrightarrow> inv (step s e)"
begin

lemma run_inv: "inv s \<Longrightarrow> inv (foldl step s es)"
  by (induction es arbitrary: s) (auto intro: step_inv)

lemma prefix_inv: "inv s \<Longrightarrow> inv (foldl step s (take n es))"
  by (rule run_inv)

end

locale capped_machine = invariant_machine +
  fixes load :: "'s \<Rightarrow> 'k \<Rightarrow> nat"
    and cap :: "'k \<Rightarrow> nat"
  assumes inv_cap: "inv s \<Longrightarrow> load s k \<le> cap k"
begin

lemma run_cap: "inv s \<Longrightarrow> load (foldl step s es) k \<le> cap k"
  by (rule inv_cap) (rule run_inv)

end

section \<open>Maps of counters\<close>

locale counter_map =
  fixes count :: "'m \<Rightarrow> 'k \<Rightarrow> nat"
    and incr :: "'k \<Rightarrow> 'm \<Rightarrow> 'm"
    and decr :: "'k \<Rightarrow> 'm \<Rightarrow> 'm"
  assumes count_incr: "count (incr k m) j = (if j = k then Suc (count m k) else count m j)"
    and count_decr: "count (decr k m) j = (if j = k then count m k - 1 else count m j)"
begin

lemma decr_incr: "count (decr k (incr k m)) j = count m j"
  by (simp add: count_incr count_decr)

lemma incr_foldl: "count (foldl (\<lambda>m k. incr k m) m ks) j = count m j + count_list ks j"
  by (induction ks arbitrary: m) (auto simp: count_incr)

lemma decr_foldl: "count (foldl (\<lambda>m k. decr k m) m ks) j = count m j - count_list ks j"
  by (induction ks arbitrary: m) (auto simp: count_decr)

text \<open>A release for every admission, in any order, restores every counter.\<close>

lemma balanced:
  assumes "\<And>j. count_list rs j = count_list as j"
  shows "count (foldl (\<lambda>m k. decr k m) (foldl (\<lambda>m k. incr k m) m as) rs) j = count m j"
  using assms by (simp add: incr_foldl decr_foldl)

end

section \<open>Sliding windows\<close>

text \<open>The events that are admitted in a run of a gate.\<close>

fun admitted_run :: "('s \<Rightarrow> 'e \<Rightarrow> bool \<times> 's) \<Rightarrow> ('e \<Rightarrow> bool) \<Rightarrow> 's \<Rightarrow> 'e list \<Rightarrow> 'e list" where
  "admitted_run step hit s [] = []"
| "admitted_run step hit s (e # es) =
     (let (ok, s') = step s e
      in (if ok \<and> hit e then [e] else []) @ admitted_run step hit s' es)"

text \<open>
  No window that ends at an admitted event holds more than \<open>limit\<close> admitted events:
  \<open>stale n t\<close> says that an event of time \<open>t\<close> has left the window that ends at \<open>n\<close>.
\<close>

definition windows_bounded :: "(instant \<Rightarrow> instant \<Rightarrow> bool) \<Rightarrow> nat \<Rightarrow> instant list \<Rightarrow> bool" where
  "windows_bounded stale limit ts \<longleftrightarrow>
     (\<forall>i < length ts. length (filter (\<lambda>t. \<not> stale (ts ! i) t) (take (Suc i) ts)) \<le> limit)"

locale window_gate =
  fixes step :: "'s \<Rightarrow> 'e \<Rightarrow> bool \<times> 's"
    and bucket :: "'s \<Rightarrow> instant list"
    and at :: "'e \<Rightarrow> instant"
    and hit :: "'e \<Rightarrow> bool"
    and stale :: "instant \<Rightarrow> instant \<Rightarrow> bool"
    and limit :: nat
  assumes bucket_step: "step s e = (ok, s') \<Longrightarrow>
      bucket s' = dropWhile (stale (at e)) (bucket s) @ (if ok \<and> hit e then [at e] else [])"
    and step_room: "step s e = (True, s') \<Longrightarrow> hit e \<Longrightarrow>
      length (dropWhile (stale (at e)) (bucket s)) < limit"
    and stale_mono: "stale n t \<Longrightarrow> n \<le> n' \<Longrightarrow> stale n' t"
begin

lemma filter_fresh_le:
  assumes "\<forall>d\<in>set ds. stale n d"
  shows "length (filter (\<lambda>t. \<not> stale n t) (ds @ q)) \<le> length (dropWhile (stale n) q)"
proof -
  have "filter (\<lambda>t. \<not> stale n t) (ds @ q) = filter (\<lambda>t. \<not> stale n t) q"
    using assms by simp
  also have "\<dots> = filter (\<lambda>t. \<not> stale n t) (takeWhile (stale n) q @ dropWhile (stale n) q)"
    by simp
  also have "\<dots> = filter (\<lambda>t. \<not> stale n t) (dropWhile (stale n) q)"
    unfolding filter_append by (auto simp: filter_empty_conv dest: set_takeWhileD)
  finally show ?thesis by (simp add: length_filter_le)
qed

lemma admitted_windows:
  assumes "sorted (map at es)" and "\<forall>d\<in>set ds. \<forall>e\<in>set es. stale (at e) d"
    and "admitted_run step hit s es = us @ a # vs"
  shows "length (filter (\<lambda>t. \<not> stale (at a) t) (ds @ bucket s @ map at us @ [at a])) \<le> limit"
  using assms
proof (induction es arbitrary: s ds us)
  case Nil
  then show ?case by simp
next
  case (Cons e es)
  obtain ok s' where step: "step s e = (ok, s')" by fastforce
  let ?q = "bucket s" and ?n = "at e"
  let ?ds = "ds @ takeWhile (stale ?n) ?q"
  have later: "\<forall>e'\<in>set es. ?n \<le> at e'" using Cons.prems(1) by simp
  have ds': "\<forall>d\<in>set ?ds. \<forall>e'\<in>set es. stale (at e') d"
    using Cons.prems(2) later by (auto dest!: set_takeWhileD intro: stale_mono)
  note b = bucket_step [OF step]
  have split: "?ds @ bucket s' = ds @ ?q @ (if ok \<and> hit e then [?n] else [])"
    by (simp add: b)
  show ?case
  proof (cases "ok \<and> hit e \<and> us = []")
    case True
    then have a: "a = e" using Cons.prems(3) step by simp
    have "length (filter (\<lambda>t. \<not> stale ?n t) (ds @ ?q)) \<le> length (dropWhile (stale ?n) ?q)"
      using Cons.prems(2) by (intro filter_fresh_le) simp
    also have "\<dots> < limit" using step_room step True by auto
    finally show ?thesis using True a by simp
  next
    case False
    then obtain us' where rest: "admitted_run step hit s' es = us' @ a # vs"
      and us: "us = (if ok \<and> hit e then [e] else []) @ us'"
      using Cons.prems(3) step by (cases us) (auto split: if_splits)
    have "length (filter (\<lambda>t. \<not> stale (at a) t) (?ds @ bucket s' @ map at us' @ [at a])) \<le> limit"
      using Cons.prems(1) ds' rest by (intro Cons.IH) auto
    moreover have "?ds @ bucket s' @ map at us' @ [at a] = ds @ ?q @ map at us @ [at a]"
      using split us by (cases "ok \<and> hit e") simp_all
    ultimately show ?thesis by (simp only:)
  qed
qed

lemma run_windows_bounded:
  assumes "sorted (map at es)" and "bucket s = []"
  shows "windows_bounded stale limit (map at (admitted_run step hit s es))"
  unfolding windows_bounded_def
proof (intro allI impI)
  let ?as = "admitted_run step hit s es"
  fix i assume "i < length (map at ?as)"
  then have i: "i < length ?as" by simp
  have "?as = take i ?as @ ?as ! i # drop (Suc i) ?as" using i by (rule id_take_nth_drop)
  then have "length (filter (\<lambda>t. \<not> stale (at (?as ! i)) t)
      ([] @ bucket s @ map at (take i ?as) @ [at (?as ! i)])) \<le> limit"
    using assms(1) by (intro admitted_windows) auto
  then show "length (filter (\<lambda>t. \<not> stale (map at ?as ! i) t) (take (Suc i) (map at ?as))) \<le> limit"
    using i assms(2) by (simp add: take_Suc_conv_app_nth take_map)
qed

end

end
