(* ===== verification/Rate_Limit.thy ===== *)
theory Rate_Limit
  imports App_Error Wf_Interfaces
begin

text \<open>
  The fixed-window request limiter and the client address resolution of \<open>rate_limit.rs\<close>.

  \<^item> \<open>check_many\<close> is \<open>RateLimiter::check_many\<close>: one call under one lock, so one step on the map of
    buckets. The lock is only poisoned by a panic while it is held, which no step here does.
  \<^item> \<open>client_ip_from_request\<close> takes as parameters the crates it calls: \<open>to_str\<close> of a header value
    (\<open>http\<close>), \<open>parse_ip\<close> (\<open>str::parse::<IpAddr>\<close>) and \<open>contains\<close> of a network (\<open>ipnet\<close>).
\<close>

section \<open>Policies and keys\<close>

datatype rate_limit_family =
  GuestSessions | ChatMessages | AssistantSpeech | UserTranscription | ImageUpload

datatype rate_limit_identity = SessionId uuid | IpId string | GlobalId

record rate_limit_key =
  key_family :: rate_limit_family
  key_identity :: rate_limit_identity

record rate_limit_policy =
  max_requests :: u32
  policy_window :: duration

record rate_limit_policies =
  guest_sessions :: rate_limit_policy
  guest_global :: rate_limit_policy
  chat_messages :: rate_limit_policy
  assistant_speech :: rate_limit_policy
  user_transcription :: rate_limit_policy
  image_upload :: rate_limit_policy
  chat_global :: rate_limit_policy

record rate_limit_bucket =
  window_started_at :: instant
  bucket_count :: u32

type_synonym rate_buckets = "(rate_limit_key, rate_limit_bucket) hash_map"

definition default_window :: duration where
  "default_window = secs 60"

definition per_minute :: "u32 \<Rightarrow> rate_limit_policy" where
  "per_minute n = \<lparr>max_requests = n, policy_window = default_window\<rparr>"

definition default_policies :: rate_limit_policies where
  "default_policies =
     \<lparr>guest_sessions = per_minute 10, guest_global = per_minute 60,
      chat_messages = per_minute 20, assistant_speech = per_minute 10,
      user_transcription = per_minute 6, image_upload = per_minute 12,
      chat_global = per_minute 120\<rparr>"

text \<open>\<open>from_config\<close> reads the four configured limits and keeps the defaults for the rest.\<close>

definition policies_from_config :: "u32 \<Rightarrow> u32 \<Rightarrow> u32 \<Rightarrow> u32 \<Rightarrow> rate_limit_policies" where
  "policies_from_config guest guest_all chat chat_all =
     default_policies\<lparr>guest_sessions := per_minute guest, guest_global := per_minute guest_all,
       chat_messages := per_minute chat, chat_global := per_minute chat_all\<rparr>"

fun with_family_limit ::
  "rate_limit_policies \<Rightarrow> rate_limit_family \<Rightarrow> rate_limit_policy \<Rightarrow> rate_limit_policies" where
  "with_family_limit ps GuestSessions p = ps\<lparr>guest_sessions := p\<rparr>"
| "with_family_limit ps ChatMessages p = ps\<lparr>chat_messages := p\<rparr>"
| "with_family_limit ps AssistantSpeech p = ps\<lparr>assistant_speech := p\<rparr>"
| "with_family_limit ps UserTranscription p = ps\<lparr>user_transcription := p\<rparr>"
| "with_family_limit ps ImageUpload p = ps\<lparr>image_upload := p\<rparr>"

definition policy_for :: "rate_limit_policies \<Rightarrow> rate_limit_key \<Rightarrow> rate_limit_policy" where
  "policy_for ps key =
     (if key_identity key = GlobalId then
        (case key_family key of
           GuestSessions \<Rightarrow> guest_global ps
         | ChatMessages \<Rightarrow> chat_global ps
         | AssistantSpeech \<Rightarrow> assistant_speech ps
         | UserTranscription \<Rightarrow> user_transcription ps
         | ImageUpload \<Rightarrow> image_upload ps)
      else
        (case key_family key of
           GuestSessions \<Rightarrow> guest_sessions ps
         | ChatMessages \<Rightarrow> chat_messages ps
         | AssistantSpeech \<Rightarrow> assistant_speech ps
         | UserTranscription \<Rightarrow> user_transcription ps
         | ImageUpload \<Rightarrow> image_upload ps))"

section \<open>One check\<close>

definition retain_active :: "instant \<Rightarrow> rate_buckets \<Rightarrow> rate_buckets" where
  "retain_active now bs =
     filter (\<lambda>(_, b). duration_since now (window_started_at b) < default_window) bs"

fun check_keys ::
  "rate_limit_policies \<Rightarrow> instant \<Rightarrow> rate_limit_key list \<Rightarrow> rate_buckets
     \<Rightarrow> (app_error + unit) \<times> rate_buckets" where
  "check_keys ps now [] bs = (Inr (), bs)"
| "check_keys ps now (key # keys) bs =
     (let policy = policy_for ps key;
          entry = (case hm_get bs key of
              Some b \<Rightarrow> b
            | None \<Rightarrow> \<lparr>window_started_at = now, bucket_count = 0\<rparr>);
          bucket = (if policy_window policy \<le> duration_since now (window_started_at entry)
                    then \<lparr>window_started_at = now, bucket_count = 0\<rparr> else entry);
          bs' = hm_insert key bucket bs
      in if max_requests policy \<le> bucket_count bucket then (Inl RateLimited, bs')
         else check_keys ps now keys bs')"

definition charge_key :: "rate_limit_key \<Rightarrow> rate_buckets \<Rightarrow> rate_buckets" where
  "charge_key key bs = hm_adjust key (\<lambda>b. b\<lparr>bucket_count := bucket_count b + 1\<rparr>) bs"

definition keys_of :: "rate_limit_family \<Rightarrow> rate_limit_identity list \<Rightarrow> rate_limit_key list" where
  "keys_of family ids = map (\<lambda>i. \<lparr>key_family = family, key_identity = i\<rparr>) ids"

definition check_many ::
  "rate_limit_policies \<Rightarrow> rate_limit_family \<Rightarrow> rate_limit_identity list \<Rightarrow> instant \<Rightarrow> rate_buckets
     \<Rightarrow> (app_error + unit) \<times> rate_buckets" where
  "check_many ps family ids now bs =
     (let keys = keys_of family ids;
          (r, bs') = check_keys ps now keys (retain_active now bs)
      in case r of
           Inl e \<Rightarrow> (Inl e, bs')
         | Inr _ \<Rightarrow> (Inr (), foldl (\<lambda>b k. charge_key k b) bs' keys))"

definition check_one ::
  "rate_limit_policies \<Rightarrow> rate_limit_family \<Rightarrow> rate_limit_identity \<Rightarrow> instant \<Rightarrow> rate_buckets
     \<Rightarrow> (app_error + unit) \<times> rate_buckets" where
  "check_one ps family i now bs = check_many ps family [i] now bs"

section \<open>What a bucket says about a key\<close>

text \<open>Every policy of the program has the default window: \<open>per_minute\<close> is the only constructor.\<close>

definition policies_ok :: "rate_limit_policies \<Rightarrow> bool" where
  "policies_ok ps \<longleftrightarrow> (\<forall>key. policy_window (policy_for ps key) = default_window)"

lemma policies_ok_from_config [simp]: "policies_ok (policies_from_config a b c d)"
  by (auto simp: policies_ok_def policy_for_def policies_from_config_def default_policies_def
      per_minute_def split: rate_limit_family.split)

lemma policies_ok_default [simp]: "policies_ok default_policies"
  by (auto simp: policies_ok_def policy_for_def default_policies_def
      per_minute_def split: rate_limit_family.split)

lemma policies_ok_with_family_limit:
  "policies_ok ps \<Longrightarrow> policies_ok (with_family_limit ps family (per_minute n))"
  by (cases family)
    (auto simp: policies_ok_def policy_for_def per_minute_def split: rate_limit_family.splits)

definition is_live :: "instant \<Rightarrow> rate_limit_bucket \<Rightarrow> bool" where
  "is_live now b \<longleftrightarrow> duration_since now (window_started_at b) < default_window"

definition fresh_bucket :: "instant \<Rightarrow> rate_limit_bucket" where
  "fresh_bucket now = \<lparr>window_started_at = now, bucket_count = 0\<rparr>"

definition current_bucket :: "instant \<Rightarrow> rate_buckets \<Rightarrow> rate_limit_key \<Rightarrow> rate_limit_bucket" where
  "current_bucket now bs key =
     (case hm_get bs key of
        Some b \<Rightarrow> if is_live now b then b else fresh_bucket now
      | None \<Rightarrow> fresh_bucket now)"

text \<open>The number of requests charged to a key in its current window.\<close>

definition usage :: "instant \<Rightarrow> rate_buckets \<Rightarrow> rate_limit_key \<Rightarrow> nat" where
  "usage now bs key = unat (bucket_count (current_bucket now bs key))"

definition key_limit :: "rate_limit_policies \<Rightarrow> rate_limit_key \<Rightarrow> nat" where
  "key_limit ps key = unat (max_requests (policy_for ps key))"

definition buckets_ok :: "rate_limit_policies \<Rightarrow> rate_buckets \<Rightarrow> bool" where
  "buckets_ok ps bs \<longleftrightarrow>
     hm_ok bs \<and> (\<forall>key b. hm_get bs key = Some b \<longrightarrow> bucket_count b \<le> max_requests (policy_for ps key))"

lemma default_window_pos [simp]: "0 < default_window"
  by (simp add: default_window_def)

lemma is_live_fresh [simp]: "is_live now (fresh_bucket now)"
  by (simp add: is_live_def fresh_bucket_def duration_since_def)

lemma is_live_current [simp]: "is_live now (current_bucket now bs key)"
  by (simp add: current_bucket_def split: option.split)

lemma hm_get_retain:
  "hm_ok bs \<Longrightarrow> hm_get (retain_active now bs) key =
     (case hm_get bs key of None \<Rightarrow> None | Some b \<Rightarrow> if is_live now b then Some b else None)"
  by (simp add: retain_active_def hm_get_filter is_live_def split: option.split)

lemma hm_ok_retain [simp]: "hm_ok bs \<Longrightarrow> hm_ok (retain_active now bs)"
  by (simp add: retain_active_def)

lemma current_retain [simp]:
  "hm_ok bs \<Longrightarrow> current_bucket now (retain_active now bs) key = current_bucket now bs key"
  by (simp add: current_bucket_def hm_get_retain split: option.split)

definition all_live :: "instant \<Rightarrow> rate_buckets \<Rightarrow> bool" where
  "all_live now bs \<longleftrightarrow> (\<forall>key b. hm_get bs key = Some b \<longrightarrow> is_live now b)"

lemma all_live_retain: "hm_ok bs \<Longrightarrow> all_live now (retain_active now bs)"
  by (simp add: all_live_def hm_get_retain split: option.splits if_splits)

text \<open>The first loop replaces a bucket only by the one that is current already.\<close>

lemma check_keys_step:
  assumes "policies_ok ps" and "all_live now bs"
  shows "check_keys ps now (key # keys) bs =
    (let bs' = hm_insert key (current_bucket now bs key) bs
     in if max_requests (policy_for ps key) \<le> bucket_count (current_bucket now bs key)
        then (Inl RateLimited, bs') else check_keys ps now keys bs')"
proof -
  have win: "policy_window (policy_for ps key) = default_window"
    using assms(1) by (simp add: policies_ok_def)
  show ?thesis
  proof (cases "hm_get bs key")
    case None
    then show ?thesis
      by (simp add: win current_bucket_def fresh_bucket_def duration_since_def Let_def
          leD)
  next
    case (Some b)
    then have "is_live now b" using assms(2) by (auto simp: all_live_def)
    with Some show ?thesis
      by (simp add: win current_bucket_def is_live_def Let_def)
  qed
qed

lemma all_live_insert_current:
  "all_live now bs \<Longrightarrow> all_live now (hm_insert key (current_bucket now bs key) bs)"
  by (auto simp: all_live_def)

lemma current_insert_current [simp]:
  "current_bucket now (hm_insert key (current_bucket now bs key) bs) k = current_bucket now bs k"
proof (cases "k = key")
  case True
  have "is_live now (current_bucket now bs key)" by simp
  with True show ?thesis
    by (simp add: current_bucket_def [of now "hm_insert key (current_bucket now bs key) bs"])
next
  case False
  then show ?thesis by (simp add: current_bucket_def)
qed

lemma check_keys_spec:
  assumes "policies_ok ps" and "all_live now bs" and "hm_ok bs"
    and "check_keys ps now keys bs = (r, bs')"
  shows "hm_ok bs' \<and> all_live now bs' \<and> (\<forall>k. current_bucket now bs' k = current_bucket now bs k)
    \<and> (\<forall>k. hm_get bs' k = hm_get bs k \<or> hm_get bs' k = Some (current_bucket now bs k))
    \<and> (r = Inr () \<longrightarrow> (\<forall>k\<in>set keys. hm_get bs' k = Some (current_bucket now bs k)))
    \<and> r = (if \<exists>k\<in>set keys. key_limit ps k \<le> usage now bs k then Inl RateLimited else Inr ())"
  using assms
proof (induction keys arbitrary: bs)
  case Nil
  then show ?case by simp
next
  case (Cons key keys)
  let ?bs = "hm_insert key (current_bucket now bs key) bs"
  note step = check_keys_step [OF Cons.prems(1,2), of key keys]
  show ?case
  proof (cases "max_requests (policy_for ps key) \<le> bucket_count (current_bucket now bs key)")
    case True
    then have "key_limit ps key \<le> usage now bs key"
      by (simp add: key_limit_def usage_def word_le_nat_alt)
    with True step Cons.prems show ?thesis
      by (auto simp: all_live_insert_current)
  next
    case False
    then have room: "\<not> key_limit ps key \<le> usage now bs key"
      by (simp add: key_limit_def usage_def word_le_nat_alt)
    have rest: "check_keys ps now keys ?bs = (r, bs')"
      using False step Cons.prems(4) by simp
    have us: "usage now ?bs k = usage now bs k" for k by (simp add: usage_def)
    note IH = Cons.IH [OF Cons.prems(1) all_live_insert_current [OF Cons.prems(2)] _ rest]
    have "hm_get bs' key = Some (current_bucket now bs key)"
      using IH Cons.prems(3) by (metis current_insert_current hm_get_insert hm_ok_insert)
    then show ?thesis using IH Cons.prems(3) room us
      by (auto split: if_splits) metis+
  qed
qed

lemma current_charge:
  assumes "hm_get bs key = Some (current_bucket now bs key)"
  shows "current_bucket now (charge_key key bs) k =
    (if k = key then (current_bucket now bs key)
        \<lparr>bucket_count := bucket_count (current_bucket now bs key) + 1\<rparr>
     else current_bucket now bs k)"
proof (cases "k = key")
  case True
  have "is_live now (current_bucket now bs key)" by simp
  then have "is_live now ((current_bucket now bs key)
      \<lparr>bucket_count := bucket_count (current_bucket now bs key) + 1\<rparr>)"
    by (simp add: is_live_def)
  moreover have "hm_get (charge_key key bs) key = Some ((current_bucket now bs key)
      \<lparr>bucket_count := bucket_count (current_bucket now bs key) + 1\<rparr>)"
    using assms by (simp add: charge_key_def)
  ultimately show ?thesis
    using True by (simp add: current_bucket_def [of now "charge_key key bs"])
next
  case False
  then show ?thesis by (simp add: current_bucket_def charge_key_def)
qed

lemma foldl_charge:
  assumes "\<forall>k\<in>set keys. hm_get bs k = Some (current_bucket now bs k)" and "distinct keys"
  shows "hm_get (foldl (\<lambda>b k. charge_key k b) bs keys) k =
    (if k \<in> set keys then Some ((current_bucket now bs k)
        \<lparr>bucket_count := bucket_count (current_bucket now bs k) + 1\<rparr>)
     else hm_get bs k)"
  using assms
proof (induction keys arbitrary: bs)
  case Nil
  then show ?case by simp
next
  case (Cons key keys)
  have "\<forall>k\<in>set keys. hm_get (charge_key key bs) k = Some (current_bucket now (charge_key key bs) k)"
    using Cons.prems current_charge [of bs key now] by (auto simp: charge_key_def)
  then have IH: "hm_get (foldl (\<lambda>b k. charge_key k b) (charge_key key bs) keys) k =
    (if k \<in> set keys then Some ((current_bucket now (charge_key key bs) k)
        \<lparr>bucket_count := bucket_count (current_bucket now (charge_key key bs) k) + 1\<rparr>)
     else hm_get (charge_key key bs) k)"
    using Cons.prems by (intro Cons.IH) auto
  show ?case
    using IH Cons.prems current_charge [of bs key now]
    by (auto simp: charge_key_def)
qed

lemma hm_ok_foldl_charge: "hm_ok bs \<Longrightarrow> hm_ok (foldl (\<lambda>b k. charge_key k b) bs keys)"
  by (induction keys arbitrary: bs) (simp_all add: charge_key_def)

lemma unat_Suc_less: "(c :: u32) < m \<Longrightarrow> unat (c + 1) = Suc (unat c)"
  by unat_arith

text \<open>One check, as a verdict and the bucket each key has afterwards.\<close>

lemma check_many_verdict:
  assumes "policies_ok ps" and "hm_ok bs"
  shows "fst (check_many ps family ids now bs) =
    (if \<exists>k\<in>set (keys_of family ids). key_limit ps k \<le> usage now bs k
     then Inl RateLimited else Inr ())"
proof -
  let ?a = "retain_active now bs" and ?keys = "keys_of family ids"
  obtain r bs' where run: "check_keys ps now ?keys ?a = (r, bs')" by fastforce
  have us: "usage now ?a k = usage now bs k" for k using assms(2) by (simp add: usage_def)
  have r: "r = (if \<exists>k\<in>set ?keys. key_limit ps k \<le> usage now ?a k then Inl RateLimited else Inr ())"
    using check_keys_spec [OF assms(1) all_live_retain [OF assms(2)] hm_ok_retain [OF assms(2)] run]
    by blast
  have "fst (check_many ps family ids now bs) = r"
    by (cases r) (simp_all add: check_many_def run)
  then show ?thesis by (simp only: r us)
qed

lemma check_many_buckets:
  assumes "policies_ok ps" and "hm_ok bs" and "distinct ids"
    and "check_many ps family ids now bs = (r, bs')"
  shows "hm_ok bs' \<and>
    (if r = Inr () \<and> k \<in> set (keys_of family ids)
     then hm_get bs' k = Some ((current_bucket now bs k)
            \<lparr>bucket_count := bucket_count (current_bucket now bs k) + 1\<rparr>)
     else hm_get bs' k = hm_get (retain_active now bs) k \<or>
          hm_get bs' k = Some (current_bucket now bs k))"
proof -
  let ?a = "retain_active now bs" and ?keys = "keys_of family ids"
  obtain r1 bs1 where run: "check_keys ps now ?keys ?a = (r1, bs1)" by fastforce
  have eq: "(r, bs') = (case r1 of Inl e \<Rightarrow> (Inl e, bs1)
      | Inr _ \<Rightarrow> (Inr (), foldl (\<lambda>b k. charge_key k b) bs1 ?keys))"
    using assms(4) by (simp add: check_many_def run)
  have dist: "distinct ?keys"
    using assms(3) by (auto simp: keys_of_def distinct_map inj_on_def)
  have cur: "current_bucket now ?a k = current_bucket now bs k" for k using assms(2) by simp
  from check_keys_spec [OF assms(1) all_live_retain [OF assms(2)] hm_ok_retain [OF assms(2)] run]
  have sp: "hm_ok bs1" "\<And>k. current_bucket now bs1 k = current_bucket now bs k"
    "hm_get bs1 k = hm_get ?a k \<or> hm_get bs1 k = Some (current_bucket now bs k)"
    "r1 = Inr () \<Longrightarrow> \<forall>k\<in>set ?keys. hm_get bs1 k = Some (current_bucket now bs k)"
    using cur by simp_all
  show ?thesis
  proof (cases r1)
    case (Inl e)
    then have "r = Inl e" "bs' = bs1" using eq by auto
    with sp show ?thesis by simp
  next
    case (Inr u)
    then have eq': "r = Inr ()" "bs' = foldl (\<lambda>b k. charge_key k b) bs1 ?keys"
      using eq by auto
    have "\<forall>k\<in>set ?keys. hm_get bs1 k = Some (current_bucket now bs1 k)"
      using sp Inr by simp
    then have "hm_get bs' k = (if k \<in> set ?keys then Some ((current_bucket now bs1 k)
        \<lparr>bucket_count := bucket_count (current_bucket now bs1 k) + 1\<rparr>) else hm_get bs1 k)"
      unfolding eq'(2) using dist by (rule foldl_charge)
    with sp eq' show ?thesis
      by (auto simp: hm_ok_foldl_charge)
  qed
qed

lemma keys_room:
  assumes "policies_ok ps" and "hm_ok bs" and "fst (check_many ps family ids now bs) = Inr ()"
    and "k \<in> set (keys_of family ids)"
  shows "bucket_count (current_bucket now bs k) < max_requests (policy_for ps k)"
  using check_many_verdict [OF assms(1,2), of family ids now] assms(3,4)
  by (auto simp: key_limit_def usage_def word_less_nat_alt split: if_splits)

section \<open>Identities of a request\<close>

datatype ip_addr = V4 u32 | V6 "128 word"

text \<open>\<open>to_ipv4_mapped\<close>: the addresses \<open>::ffff:a.b.c.d\<close>.\<close>

fun normalize_ip :: "ip_addr \<Rightarrow> ip_addr" where
  "normalize_ip (V6 w) = (if drop_bit 32 w = 0xffff then V4 (ucast w) else V6 w)"
| "normalize_ip (V4 w) = V4 w"

definition is_trusted_ip :: "('net \<Rightarrow> ip_addr \<Rightarrow> bool) \<Rightarrow> ip_addr \<Rightarrow> 'net list \<Rightarrow> bool" where
  "is_trusted_ip contains a cidrs \<longleftrightarrow> (\<exists>n\<in>set cidrs. contains n a)"

definition header_ws :: "char \<Rightarrow> bool" where
  "header_ws c \<longleftrightarrow> c = CHR '' '' \<or> c = CHR 0x09"

text \<open>The \<open>for entry in value.split(',')\<close> loop: one entry that is no address rejects the header.\<close>

fun parse_entries :: "(string \<Rightarrow> ip_addr option) \<Rightarrow> string list \<Rightarrow> ip_addr list option" where
  "parse_entries parse_ip [] = Some []"
| "parse_entries parse_ip (e # es) =
     (case parse_ip (trim_by header_ws e) of
        None \<Rightarrow> None
      | Some a \<Rightarrow> map_option (\<lambda>rest. normalize_ip a # rest) (parse_entries parse_ip es))"

definition client_ip_from_request ::
  "('hv \<Rightarrow> string option) \<Rightarrow> (string \<Rightarrow> ip_addr option) \<Rightarrow> ('net \<Rightarrow> ip_addr \<Rightarrow> bool)
     \<Rightarrow> 'hv list \<Rightarrow> ip_addr \<Rightarrow> bool \<Rightarrow> 'net list \<Rightarrow> ip_addr" where
  "client_ip_from_request to_str parse_ip contains forwarded_for peer trust cidrs =
     (let peer_ip = normalize_ip peer
      in if \<not> trust \<or> \<not> is_trusted_ip contains peer_ip cidrs then peer_ip
         else case forwarded_for of
           [hv] \<Rightarrow>
             (case to_str hv of
                None \<Rightarrow> peer_ip
              | Some value \<Rightarrow>
                  if trim_by header_ws value = [] then peer_ip
                  else case parse_entries parse_ip (split_on (CHR '','') value) of
                      None \<Rightarrow> peer_ip
                    | Some forwarded \<Rightarrow>
                        (case find (\<lambda>a. \<not> is_trusted_ip contains a cidrs) (rev forwarded) of
                           None \<Rightarrow> peer_ip
                         | Some a \<Rightarrow> a))
         | _ \<Rightarrow> peer_ip)"

text \<open>
  \<open>for_resolved_ip\<close> and \<open>for_validated_session\<close>, given the printed address that
  \<open>client_ip_from_request\<close> resolved.
\<close>

definition for_resolved_ip :: "string \<Rightarrow> bool \<Rightarrow> rate_limit_identity list" where
  "for_resolved_ip ip include_global = IpId ip # (if include_global then [GlobalId] else [])"

definition for_validated_session :: "uuid \<Rightarrow> string \<Rightarrow> bool \<Rightarrow> rate_limit_identity list" where
  "for_validated_session session ip include_global =
     SessionId session # for_resolved_ip ip include_global"

lemma distinct_identities [simp]:
  "distinct (for_resolved_ip ip g)" "distinct (for_validated_session s ip g)"
  by (auto simp: for_resolved_ip_def for_validated_session_def)

section \<open>Runs of the limiter\<close>

text \<open>The two shapes of call the handlers make, each at an instant.\<close>

datatype rate_call =
    SessionCall (call_family: rate_limit_family) uuid string bool (call_at: instant)
  | IpCall (call_family: rate_limit_family) string bool (call_at: instant)

fun call_identities :: "rate_call \<Rightarrow> rate_limit_identity list" where
  "call_identities (SessionCall f s ip g t) = for_validated_session s ip g"
| "call_identities (IpCall f ip g t) = for_resolved_ip ip g"

definition call_keys :: "rate_call \<Rightarrow> rate_limit_key list" where
  "call_keys c = keys_of (call_family c) (call_identities c)"

definition rate_step :: "rate_limit_policies \<Rightarrow> rate_buckets \<Rightarrow> rate_call \<Rightarrow> bool \<times> rate_buckets" where
  "rate_step ps bs c =
     (let (r, bs') = check_many ps (call_family c) (call_identities c) (call_at c) bs
      in (r = Inr (), bs'))"

lemma distinct_call_identities [simp]: "distinct (call_identities c)"
  by (cases c) simp_all

text \<open>What a step does to the bucket of one key: the case analysis every property below uses.\<close>

lemma rate_step_bucket:
  assumes "policies_ok ps" and "hm_ok bs" and "rate_step ps bs c = (ok, bs')"
  shows "hm_ok bs'"
    and "ok \<Longrightarrow> k \<in> set (call_keys c) \<Longrightarrow>
      bucket_count (current_bucket (call_at c) bs k) < max_requests (policy_for ps k) \<and>
      hm_get bs' k = Some ((current_bucket (call_at c) bs k)
        \<lparr>bucket_count := bucket_count (current_bucket (call_at c) bs k) + 1\<rparr>)"
    and "\<not> (ok \<and> k \<in> set (call_keys c)) \<Longrightarrow>
      hm_get bs' k = hm_get (retain_active (call_at c) bs) k \<or>
      hm_get bs' k = Some (current_bucket (call_at c) bs k)"
proof -
  obtain r where run: "check_many ps (call_family c) (call_identities c) (call_at c) bs = (r, bs')"
    and ok: "ok \<longleftrightarrow> r = Inr ()"
    using assms(3) by (auto simp: rate_step_def split: prod.splits)
  note b = check_many_buckets [OF assms(1,2) distinct_call_identities run, of k]
  show "hm_ok bs'" using b by simp
  show "bucket_count (current_bucket (call_at c) bs k) < max_requests (policy_for ps k) \<and>
      hm_get bs' k = Some ((current_bucket (call_at c) bs k)
        \<lparr>bucket_count := bucket_count (current_bucket (call_at c) bs k) + 1\<rparr>)"
    if "ok" and "k \<in> set (call_keys c)"
    using b that ok keys_room [OF assms(1,2), of "call_family c" "call_identities c" "call_at c" k] run
    by (simp add: call_keys_def)
  show "hm_get bs' k = hm_get (retain_active (call_at c) bs) k \<or>
      hm_get bs' k = Some (current_bucket (call_at c) bs k)"
    if "\<not> (ok \<and> k \<in> set (call_keys c))"
    using b that ok by (auto simp: call_keys_def)
qed

lemma current_le_max:
  "buckets_ok ps bs \<Longrightarrow> bucket_count (current_bucket now bs k) \<le> max_requests (policy_for ps k)"
  by (auto simp: buckets_ok_def current_bucket_def fresh_bucket_def split: option.split)

lemma inc_le_max: "(c :: u32) < m \<Longrightarrow> c + 1 \<le> m"
  by unat_arith

lemma rate_step_ok:
  assumes "policies_ok ps" and "buckets_ok ps bs"
  shows "buckets_ok ps (snd (rate_step ps bs c))"
proof -
  obtain ok bs' where run: "rate_step ps bs c = (ok, bs')" by fastforce
  have ok: "hm_ok bs" using assms(2) by (simp add: buckets_ok_def)
  note step = rate_step_bucket [OF assms(1) ok run]
  have "bucket_count b \<le> max_requests (policy_for ps k)" if "hm_get bs' k = Some b" for k b
  proof (cases "ok \<and> k \<in> set (call_keys c)")
    case True
    then show ?thesis using step(2) [of k] that by (auto intro: inc_le_max)
  next
    case False
    then show ?thesis
      using step(3) [of k] that assms(2) current_le_max [OF assms(2), of "call_at c" k]
      by (auto simp: hm_get_retain [OF ok] buckets_ok_def split: option.splits if_splits)
  qed
  then show ?thesis using step(1) run by (simp add: buckets_ok_def)
qed

lemma buckets_ok_Nil [simp]: "buckets_ok ps []"
  by (simp add: buckets_ok_def)

text \<open>The admissions a key has left before \<open>t0 + default_window\<close>.\<close>

definition budget :: "rate_limit_policies \<Rightarrow> instant \<Rightarrow> rate_buckets \<Rightarrow> rate_limit_key \<Rightarrow> nat" where
  "budget ps t0 bs k =
     (case hm_get bs k of
        None \<Rightarrow> key_limit ps k
      | Some b \<Rightarrow> (if t0 \<le> window_started_at b then 0 else key_limit ps k)
                 + (key_limit ps k - unat (bucket_count b)))"

lemma budget_step:
  assumes "policies_ok ps" and "hm_ok bs" and "rate_step ps bs c = (ok, bs')"
    and "t0 \<le> call_at c" and "call_at c < t0 + default_window"
  shows "(if ok \<and> k \<in> set (call_keys c) then 1 else 0) + budget ps t0 bs' k \<le> budget ps t0 bs k"
proof -
  let ?now = "call_at c" and ?cur = "current_bucket (call_at c) bs k"
  note step = rate_step_bucket(2,3) [OF assms(1,2,3), of k]
  have live: "is_live ?now b" if "t0 \<le> window_started_at b" for b
    using that assms(4,5) by (auto simp: is_live_def duration_since_def)
  show ?thesis
  proof (cases "ok \<and> k \<in> set (call_keys c)")
    case True
    then have lt: "bucket_count ?cur < max_requests (policy_for ps k)"
      and new: "hm_get bs' k = Some (?cur\<lparr>bucket_count := bucket_count ?cur + 1\<rparr>)"
      using step(1) by auto
    have "unat (bucket_count ?cur + 1) = Suc (unat (bucket_count ?cur))"
      using lt by (rule unat_Suc_less)
    moreover have "unat (bucket_count ?cur) < key_limit ps k"
      using lt by (simp add: key_limit_def word_less_nat_alt)
    ultimately show ?thesis
      using True new assms(4) live
      by (auto simp: budget_def current_bucket_def fresh_bucket_def
          split: option.splits if_splits)
  next
    case False
    then show ?thesis
      using step(2) assms(4) live
      by (auto simp: budget_def hm_get_retain [OF assms(2)] current_bucket_def fresh_bucket_def
          split: option.splits if_splits)
  qed
qed

lemma budget_run:
  assumes "policies_ok ps" and "hm_ok bs"
    and "\<forall>c\<in>set cs. t0 \<le> call_at c \<and> call_at c < t0 + default_window"
  shows "length (admitted_run (rate_step ps) (\<lambda>c. k \<in> set (call_keys c)) bs cs) \<le> budget ps t0 bs k"
  using assms(2,3)
proof (induction cs arbitrary: bs)
  case Nil
  then show ?case by simp
next
  case (Cons c cs)
  obtain ok bs' where run: "rate_step ps bs c = (ok, bs')" by fastforce
  have "length (admitted_run (rate_step ps) (\<lambda>c. k \<in> set (call_keys c)) bs' cs) \<le> budget ps t0 bs' k"
    using Cons rate_step_bucket(1) [OF assms(1) Cons.prems(1) run] by simp
  moreover have "(if ok \<and> k \<in> set (call_keys c) then 1 else 0) + budget ps t0 bs' k \<le> budget ps t0 bs k"
    using Cons.prems by (intro budget_step [OF assms(1) _ run]) simp_all
  ultimately show ?case using run by (auto split: if_splits)
qed

lemma budget_le: "budget ps t0 bs k \<le> 2 * key_limit ps k"
proof (cases "hm_get bs k")
  case None
  then show ?thesis by (simp add: budget_def)
next
  case (Some b)
  then show ?thesis
    using diff_le_self [of "key_limit ps k" "unat (bucket_count b)"]
    by (auto simp: budget_def)
qed

lemma budget_Nil [simp]: "budget ps t0 [] k = key_limit ps k"
  by (simp add: budget_def)

section \<open>Client addresses\<close>

lemma normalize_ip_idem [simp]: "normalize_ip (normalize_ip a) = normalize_ip a"
  by (cases a) auto

lemma parse_entries_normal:
  "parse_entries parse_ip es = Some addrs \<Longrightarrow> a \<in> set addrs \<Longrightarrow> normalize_ip a = a"
  by (induction es arbitrary: addrs) (auto split: option.splits)

lemma find_rev_split:
  assumes "find P (rev xs) = Some a"
  shows "\<exists>us vs. xs = us @ a # vs \<and> P a \<and> (\<forall>v\<in>set vs. \<not> P v)"
proof -
  from find_Some_split [OF assms, of id] obtain us vs where
    "rev xs = us @ a # vs" "P a" "\<forall>u\<in>set us. \<not> P u" by blast
  then have "xs = rev vs @ a # rev us \<and> P a \<and> (\<forall>v\<in>set (rev us). \<not> P v)"
    by (metis append.assoc append_Cons append_Nil rev.simps(2) rev_append rev_rev_ident set_rev)
  then show ?thesis by blast
qed

lemma client_ip_cases:
  fixes to_str parse_ip contains hvs peer trust cidrs
  defines "r \<equiv> client_ip_from_request to_str parse_ip contains hvs peer trust cidrs"
  shows "r = normalize_ip peer \<or>
    (trust \<and> is_trusted_ip contains (normalize_ip peer) cidrs \<and>
     (\<exists>hv value addrs us vs. hvs = [hv] \<and> to_str hv = Some value \<and>
        parse_entries parse_ip (split_on (CHR '','') value) = Some addrs \<and> addrs = us @ r # vs \<and>
        \<not> is_trusted_ip contains r cidrs \<and> (\<forall>v\<in>set vs. is_trusted_ip contains v cidrs)))"
proof (cases "r = normalize_ip peer")
  case True
  then show ?thesis by simp
next
  case False
  then have gate: "trust" "is_trusted_ip contains (normalize_ip peer) cidrs"
    by (auto simp: r_def client_ip_from_request_def Let_def split: if_splits)
  from False gate obtain hv where hv: "hvs = [hv]"
    by (auto simp: r_def client_ip_from_request_def Let_def split: list.splits)
  from False gate hv obtain hval addrs a where v: "to_str hv = Some hval"
    and es: "parse_entries parse_ip (split_on (CHR '','') hval) = Some addrs"
    and a: "find (\<lambda>a. \<not> is_trusted_ip contains a cidrs) (rev addrs) = Some a" and "r = a"
    by (auto simp: r_def client_ip_from_request_def Let_def split: option.splits if_splits)
  with find_rev_split [OF a] gate hv show ?thesis by blast
qed

section \<open>The limiter as a capped machine\<close>

interpretation limiter: capped_machine
  "\<lambda>bs c. snd (rate_step (policies_from_config g gg ch chg) bs c)"
  "buckets_ok (policies_from_config g gg ch chg)"
  "\<lambda>bs k. case hm_get bs k of None \<Rightarrow> 0 | Some b \<Rightarrow> unat (bucket_count b)"
  "key_limit (policies_from_config g gg ch chg)" for g gg ch chg
proof (unfold_locales, goal_cases)
  case (1 bs c)
  then show ?case by (simp add: rate_step_ok)
next
  case (2 bs k)
  then show ?case
    by (auto simp: buckets_ok_def key_limit_def word_le_nat_alt split: option.split)
qed

section \<open>Properties\<close>

text \<open>
  C25: a check admits a request exactly when every identity it names is below its limit in its
  current window, and otherwise answers \<open>RateLimited\<close>.
\<close>

theorem check_many_admits_iff:
  assumes "policies_ok ps" and "hm_ok bs"
  shows "fst (check_many ps family ids now bs) =
    (if \<forall>k\<in>set (keys_of family ids). usage now bs k < key_limit ps k
     then Inr () else Inl RateLimited)"
  using check_many_verdict [OF assms, of family ids now] by (auto simp: not_le [symmetric])

theorem check_many_admits_iff_witness:
  "fst (check_many default_policies ImageUpload [IpId ''10.0.0.1''] 7 []) =
    (if \<forall>k\<in>set (keys_of ImageUpload [IpId ''10.0.0.1'']). usage 7 [] k < key_limit default_policies k
     then Inr () else Inl RateLimited)"
  by (rule check_many_admits_iff) simp_all

text \<open>
  All identities of a call are checked before any is charged: a rejected call changes the
  usage of no key, and an admitted call adds one to the usage of each of its keys (without
  wrapping the \<open>u32\<close> counter) and nothing to any other.
\<close>

theorem rate_step_usage:
  assumes "policies_ok ps" and "hm_ok bs" and "rate_step ps bs c = (ok, bs')"
  shows "usage (call_at c) bs' k =
    usage (call_at c) bs k + (if ok \<and> k \<in> set (call_keys c) then 1 else 0)"
proof (cases "ok \<and> k \<in> set (call_keys c)")
  case True
  let ?b = "current_bucket (call_at c) bs k"
  have "is_live (call_at c) ?b" by simp
  then have "is_live (call_at c) (?b\<lparr>bucket_count := bucket_count ?b + 1\<rparr>)" by (simp add: is_live_def)
  moreover have "hm_get bs' k = Some (?b\<lparr>bucket_count := bucket_count ?b + 1\<rparr>)"
    and "bucket_count ?b < max_requests (policy_for ps k)"
    using rate_step_bucket(2) [OF assms, of k] True by auto
  moreover from this(2) have "unat (bucket_count ?b + 1) = Suc (unat (bucket_count ?b))"
    by (rule unat_Suc_less)
  ultimately show ?thesis
    using True by (simp add: usage_def current_bucket_def [of "call_at c" bs'])
next
  case False
  have "current_bucket (call_at c) bs' k = current_bucket (call_at c) bs k"
    using rate_step_bucket(3) [OF assms False]
    by (auto simp: current_bucket_def hm_get_retain [OF assms(2)] split: option.splits if_splits)
  with False show ?thesis by (auto simp: usage_def)
qed

theorem rate_step_usage_witness:
  "usage 5 (snd (rate_step default_policies [] (IpCall ImageUpload ''10.0.0.1'' False 5)))
      \<lparr>key_family = ImageUpload, key_identity = IpId ''10.0.0.1''\<rparr> = 1"
proof -
  let ?c = "IpCall ImageUpload ''10.0.0.1'' False 5"
    and ?k = "\<lparr>key_family = ImageUpload, key_identity = IpId ''10.0.0.1''\<rparr>"
  obtain ok bs' where run: "rate_step default_policies [] ?c = (ok, bs')" by fastforce
  then have "ok"
    by (auto simp: rate_step_def check_many_def keys_of_def for_resolved_ip_def retain_active_def
        policy_for_def default_policies_def per_minute_def default_window_def secs_def
        duration_since_def Let_def)
  then show ?thesis
    using rate_step_usage [OF policies_ok_default hm_ok_Nil run, of ?k] run
    by (simp add: call_keys_def keys_of_def for_resolved_ip_def usage_def current_bucket_def
        fresh_bucket_def)
qed

text \<open>
  C32: within any sixty seconds a key is admitted at most twice its limit, whatever the calls
  before them were (the fixed window may restart once), and at most its limit when the limiter
  starts empty.
\<close>

theorem rate_window_bound:
  assumes "policies_ok ps" and "buckets_ok ps bs"
    and "\<forall>c\<in>set cs. t0 \<le> call_at c \<and> call_at c < t0 + default_window"
  shows "length (admitted_run (rate_step ps) (\<lambda>c. k \<in> set (call_keys c)) bs cs)
    \<le> (if bs = [] then key_limit ps k else 2 * key_limit ps k)"
  using budget_run [OF assms(1) _ assms(3), of bs k] budget_le [of ps t0 bs k] assms(2)
  by (auto simp: buckets_ok_def)

theorem rate_window_bound_witness:
  "length (admitted_run (rate_step default_policies)
      (\<lambda>c. \<lparr>key_family = ImageUpload, key_identity = GlobalId\<rparr> \<in> set (call_keys c)) []
      [IpCall ImageUpload ''a'' True 3, IpCall ImageUpload ''b'' True 9]) \<le> 12"
proof -
  let ?cs = "[IpCall ImageUpload ''a'' True 3, IpCall ImageUpload ''b'' True 9]"
    and ?k = "\<lparr>key_family = ImageUpload, key_identity = GlobalId\<rparr>"
  have times: "\<forall>c\<in>set ?cs. 0 \<le> call_at c \<and> call_at c < 0 + default_window"
    by (simp add: default_window_def secs_def)
  have limit: "key_limit default_policies ?k = 12"
    by (simp add: key_limit_def policy_for_def default_policies_def per_minute_def)
  show ?thesis
    using rate_window_bound [OF policies_ok_default buckets_ok_Nil times, of ?k]
    unfolding limit by (simp only: simp_thms if_True)
qed

text \<open>
  Along every run of calls from an empty limiter with configured policies, no bucket ever
  counts more requests than the limit of its key.
\<close>

theorem limiter_buckets_capped:
  "(case hm_get (foldl (\<lambda>bs c. snd (rate_step (policies_from_config g gg ch chg) bs c)) [] cs) k of
      None \<Rightarrow> 0 | Some b \<Rightarrow> unat (bucket_count b)) \<le> key_limit (policies_from_config g gg ch chg) k"
  by (rule limiter.run_cap) simp

text \<open>
  The client address is the socket peer unless the peer is a trusted proxy and there is exactly
  one readable \<open>X-Forwarded-For\<close> header, and then it is the rightmost untrusted address of that
  header: everything to its right is a trusted proxy. So an untrusted peer cannot choose its
  address.
\<close>

theorem client_ip_not_spoofable:
  "client_ip_from_request to_str parse_ip contains hvs peer trust cidrs = normalize_ip peer \<or>
    (trust \<and> is_trusted_ip contains (normalize_ip peer) cidrs \<and>
     (\<exists>hv value us vs. hvs = [hv] \<and> to_str hv = Some value \<and>
        parse_entries parse_ip (split_on (CHR '','') value) =
          Some (us @ client_ip_from_request to_str parse_ip contains hvs peer trust cidrs # vs) \<and>
        \<not> is_trusted_ip contains
            (client_ip_from_request to_str parse_ip contains hvs peer trust cidrs) cidrs \<and>
        list_all (\<lambda>v. is_trusted_ip contains v cidrs) vs))"
  using client_ip_cases [of to_str parse_ip contains hvs peer trust cidrs]
  by (simp add: list_all_iff) blast

end
