(* ===== verification/Generation_Limit.thy ===== *)
theory Generation_Limit
  imports App_Error Wf_Interfaces
begin

text \<open>
  The generation limiter of \<open>rate_limit.rs\<close>: at most one generation per chat, a bounded number per
  session and a bounded number per process. The process bound is a \<open>tokio::sync::Semaphore\<close>,
  which is a parameter of the model: \<open>sem_try\<close> is \<open>try_acquire_owned\<close> (\<open>None\<close> for its error),
  \<open>sem_release\<close> the drop of a permit, and \<open>semaphore_laws\<close> states what tokio documents of them.
  A permit is dropped exactly once; the permits alive are the second component of a system state.
\<close>

section \<open>The semaphore\<close>

definition semaphore_laws ::
  "('sem \<Rightarrow> 'sem option) \<Rightarrow> ('sem \<Rightarrow> 'sem) \<Rightarrow> ('sem \<Rightarrow> nat) \<Rightarrow> bool" where
  "semaphore_laws sem_try sem_release available \<longleftrightarrow>
     (\<forall>s. sem_try s = None \<longleftrightarrow> available s = 0) \<and>
     (\<forall>s s'. sem_try s = Some s' \<longrightarrow> Suc (available s') = available s) \<and>
     (\<forall>s. available (sem_release s) = Suc (available s))"

section \<open>State and operations\<close>

record 'sem generation_limiter =
  global_sem :: 'sem
  active_chats :: "uuid set"
  active_sessions :: "(uuid, nat) hash_map"
  max_per_session :: nat

record generation_permit =
  permit_session :: "uuid option"
  permit_chat :: uuid
  permit_global :: bool

definition generation_limit_error :: "error_reason \<Rightarrow> app_error" where
  "generation_limit_error reason =
     Reasoned 429 ''too many requests'' reason (Some limit_retry_after_seconds)"

definition new_limiter :: "'sem \<Rightarrow> nat \<Rightarrow> 'sem generation_limiter" where
  "new_limiter sem per_session =
     \<lparr>global_sem = sem, active_chats = {}, active_sessions = [], max_per_session = per_session\<rparr>"

definition try_acquire ::
  "('sem \<Rightarrow> 'sem option) \<Rightarrow> uuid \<Rightarrow> uuid \<Rightarrow> 'sem generation_limiter
     \<Rightarrow> (app_error + generation_permit) \<times> 'sem generation_limiter" where
  "try_acquire sem_try session chat l =
     (if chat \<in> active_chats l then (Inl (generation_limit_error ChatGenerationActive), l)
      else if max_per_session l \<le> counter_get (active_sessions l) session
        then (Inl (generation_limit_error GenerationSessionCapacity), l)
      else case sem_try (global_sem l) of
          None \<Rightarrow> (Inl (generation_limit_error GenerationProcessCapacity), l)
        | Some sem' \<Rightarrow>
            (Inr \<lparr>permit_session = Some session, permit_chat = chat, permit_global = True\<rparr>,
             l\<lparr>global_sem := sem', active_chats := insert chat (active_chats l),
               active_sessions := counter_incr session (active_sessions l)\<rparr>))"

definition try_acquire_clear ::
  "uuid \<Rightarrow> 'sem generation_limiter \<Rightarrow> (app_error + generation_permit) \<times> 'sem generation_limiter" where
  "try_acquire_clear chat l =
     (if chat \<in> active_chats l then (Inl (Conflict ''chat generation in progress''), l)
      else (Inr \<lparr>permit_session = None, permit_chat = chat, permit_global = False\<rparr>,
            l\<lparr>active_chats := insert chat (active_chats l)\<rparr>))"

definition release_session :: "uuid \<Rightarrow> (uuid, nat) hash_map \<Rightarrow> (uuid, nat) hash_map" where
  "release_session session m =
     (case hm_get m session of
        None \<Rightarrow> m
      | Some count \<Rightarrow>
          let count' = count - 1
          in if count' = 0 then hm_remove session m else hm_insert session count' m)"

text \<open>\<open>Drop for GenerationPermit\<close>, then the drop of its field \<open>_global\<close>.\<close>

definition drop_permit ::
  "('sem \<Rightarrow> 'sem) \<Rightarrow> generation_permit \<Rightarrow> 'sem generation_limiter \<Rightarrow> 'sem generation_limiter" where
  "drop_permit sem_release p l =
     l\<lparr>active_chats := active_chats l - {permit_chat p},
       active_sessions := (case permit_session p of
           None \<Rightarrow> active_sessions l
         | Some session \<Rightarrow> release_session session (active_sessions l)),
       global_sem := (if permit_global p then sem_release (global_sem l) else global_sem l)\<rparr>"

section \<open>The limiter together with the permits alive\<close>

datatype generation_event =
    Acquire uuid uuid
  | AcquireClear uuid
  | DropPermit nat

type_synonym 'sem generation_system = "'sem generation_limiter \<times> generation_permit list"

fun generation_step ::
  "('sem \<Rightarrow> 'sem option) \<Rightarrow> ('sem \<Rightarrow> 'sem) \<Rightarrow> 'sem generation_system \<Rightarrow> generation_event
     \<Rightarrow> 'sem generation_system" where
  "generation_step sem_try sem_release (l, ps) (Acquire session chat) =
     (case try_acquire sem_try session chat l of
        (Inl e, l') \<Rightarrow> (l', ps)
      | (Inr p, l') \<Rightarrow> (l', p # ps))"
| "generation_step sem_try sem_release (l, ps) (AcquireClear chat) =
     (case try_acquire_clear chat l of
        (Inl e, l') \<Rightarrow> (l', ps)
      | (Inr p, l') \<Rightarrow> (l', p # ps))"
| "generation_step sem_try sem_release (l, ps) (DropPermit i) =
     (if i < length ps
      then (drop_permit sem_release (ps ! i) l, take i ps @ drop (Suc i) ps)
      else (l, ps))"

definition generation_run ::
  "('sem \<Rightarrow> 'sem option) \<Rightarrow> ('sem \<Rightarrow> 'sem) \<Rightarrow> 'sem generation_system \<Rightarrow> generation_event list
     \<Rightarrow> 'sem generation_system" where
  "generation_run sem_try sem_release = foldl (generation_step sem_try sem_release)"

section \<open>The session counters\<close>

lemma counter_get_release [simp]:
  "counter_get (release_session s m) j = (if j = s then counter_get m s - 1 else counter_get m j)"
  by (auto simp: release_session_def counter_get_def Let_def split: option.split)

interpretation session_counters: counter_map counter_get counter_incr release_session
  by unfold_locales simp_all

lemma no_zero_counter_steps:
  "no_zero_counter m \<Longrightarrow> no_zero_counter (counter_incr k m)"
  "no_zero_counter m \<Longrightarrow> no_zero_counter (release_session s m')" if "m = m'" for m' :: "(uuid, nat) hash_map"
  using that by (auto simp: no_zero_counter_def counter_incr_def release_session_def Let_def
      split: option.split)

section \<open>Invariant\<close>

definition session_permits :: "uuid \<Rightarrow> generation_permit list \<Rightarrow> nat" where
  "session_permits s ps = count_if (\<lambda>p. permit_session p = Some s) ps"

definition generation_inv ::
  "('sem \<Rightarrow> nat) \<Rightarrow> nat \<Rightarrow> nat \<Rightarrow> 'sem generation_system \<Rightarrow> bool" where
  "generation_inv available max_global per_session sys \<longleftrightarrow>
     (case sys of (l, ps) \<Rightarrow>
        max_per_session l = per_session \<and>
        distinct (map permit_chat ps) \<and> active_chats l = permit_chat ` set ps \<and>
        no_zero_counter (active_sessions l) \<and>
        (\<forall>s. counter_get (active_sessions l) s = session_permits s ps) \<and>
        (\<forall>s. session_permits s ps \<le> per_session) \<and>
        available (global_sem l) + count_if permit_global ps = max_global)"

lemma generation_inv_new:
  "generation_inv available (available sem) per_session (new_limiter sem per_session, [])"
  by (simp add: generation_inv_def new_limiter_def session_permits_def no_zero_counter_def)

lemma generation_inv_acquire:
  assumes "semaphore_laws sem_try sem_release available"
    and "generation_inv available n m (l, ps)"
  shows "generation_inv available n m (generation_step sem_try sem_release (l, ps) (Acquire session chat))"
  using assms
  by (auto simp: generation_inv_def try_acquire_def session_permits_def semaphore_laws_def
      no_zero_counter_steps split: option.split)

lemma generation_inv_clear:
  assumes "generation_inv available n m (l, ps)"
  shows "generation_inv available n m (generation_step sem_try sem_release (l, ps) (AcquireClear chat))"
  using assms
  by (auto simp: generation_inv_def try_acquire_clear_def session_permits_def)

lemma generation_inv_drop:
  assumes "semaphore_laws sem_try sem_release available"
    and "generation_inv available n m (l, ps)"
  shows "generation_inv available n m (generation_step sem_try sem_release (l, ps) (DropPermit i))"
proof (cases "i < length ps")
  case False
  with assms(2) show ?thesis by simp
next
  case True
  then obtain us vs where ps: "ps = us @ ps ! i # vs"
    and rest: "take i ps @ drop (Suc i) ps = us @ vs"
    using nth_split by blast
  let ?p = "ps ! i" and ?l = "drop_permit sem_release (ps ! i) l"
  have inv: "generation_inv available n m (l, us @ ?p # vs)"
    using assms(2) ps by simp
  have "active_chats ?l = permit_chat ` set (us @ vs)"
    using inv by (auto simp: generation_inv_def drop_permit_def) (metis image_eqI)+
  moreover have "counter_get (active_sessions ?l) s = session_permits s (us @ vs)" for s
    using inv by (auto simp: generation_inv_def drop_permit_def session_permits_def split: option.split)
  moreover have "session_permits s (us @ vs) \<le> m" for s
  proof -
    have "session_permits s (us @ vs) \<le> session_permits s (us @ ?p # vs)"
      by (simp add: session_permits_def)
    also have "\<dots> \<le> m" using inv by (simp add: generation_inv_def)
    finally show ?thesis .
  qed
  moreover have "no_zero_counter (active_sessions ?l)"
    using inv by (auto simp: generation_inv_def drop_permit_def no_zero_counter_steps split: option.split)
  moreover have "available (global_sem ?l) + count_if permit_global (us @ vs) = n"
    using inv assms(1) by (auto simp: generation_inv_def drop_permit_def semaphore_laws_def)
  moreover have "max_per_session ?l = m" "distinct (map permit_chat (us @ vs))"
    using inv by (auto simp: generation_inv_def drop_permit_def)
  ultimately show ?thesis
    using True by (simp add: generation_inv_def rest)
qed

lemma generation_inv_step:
  assumes "semaphore_laws sem_try sem_release available" and "generation_inv available n m sys"
  shows "generation_inv available n m (generation_step sem_try sem_release sys e)"
  using assms
  by (cases sys; cases e)
    (simp_all only: generation_inv_acquire generation_inv_clear generation_inv_drop)

lemma generation_inv_run:
  assumes "semaphore_laws sem_try sem_release available" and "generation_inv available n m sys"
  shows "generation_inv available n m (generation_run sem_try sem_release sys es)"
  using assms(2) generation_inv_step [OF assms(1)]
  by (induction es arbitrary: sys) (simp_all add: generation_run_def)

section \<open>Properties\<close>

text \<open>A counting semaphore satisfies the laws: it is the instance of the witnesses.\<close>

definition count_try :: "nat \<Rightarrow> nat option" where
  "count_try n = (if n = 0 then None else Some (n - 1))"

lemma count_semaphore_laws: "semaphore_laws count_try Suc id"
  by (auto simp: semaphore_laws_def count_try_def)

text \<open>
  C26: whatever sequence of acquisitions and drops runs from a new limiter, no chat has two
  generations alive, no session more than its limit, and the process no more than the permits the
  semaphore started with.
\<close>

theorem generation_capacity:
  assumes "semaphore_laws sem_try sem_release available"
    and "generation_run sem_try sem_release (new_limiter sem per_session, []) es = (l, ps)"
  shows "distinct (map permit_chat ps) \<and> (\<forall>s. session_permits s ps \<le> per_session)
    \<and> count_if permit_global ps \<le> available sem"
proof -
  have "generation_inv available (available sem) per_session (l, ps)"
    using generation_inv_run [OF assms(1) generation_inv_new] assms(2) by metis
  then show ?thesis by (auto simp: generation_inv_def)
qed

theorem generation_capacity_witness:
  "\<exists>l ps. generation_run count_try Suc (new_limiter 1 2, []) [Acquire 7 1, Acquire 7 2, Acquire 7 1] = (l, ps)
    \<and> length ps = 1 \<and> count_if permit_global ps \<le> 1"
proof -
  obtain l ps where run:
    "generation_run count_try Suc (new_limiter 1 2, []) [Acquire 7 1, Acquire 7 2, Acquire 7 1] = (l, ps)"
    by fastforce
  then have "length ps = 1"
    by (auto simp: generation_run_def new_limiter_def try_acquire_def count_try_def)
  with run generation_capacity [OF count_semaphore_laws run] show ?thesis by auto
qed

text \<open>
  No permit leaks: when every permit of a run has been dropped, the limiter is as new, with no
  chat and no session entry left and every semaphore permit back.
\<close>

theorem generation_no_leak:
  assumes "semaphore_laws sem_try sem_release available"
    and "generation_run sem_try sem_release (new_limiter sem per_session, []) es = (l, [])"
  shows "active_chats l = {} \<and> active_sessions l = [] \<and> available (global_sem l) = available sem"
proof -
  have "generation_inv available (available sem) per_session (l, [])"
    using generation_inv_run [OF assms(1) generation_inv_new] assms(2) by metis
  then show ?thesis
    by (auto simp: generation_inv_def session_permits_def intro: no_zero_counter_empty)
qed

theorem generation_no_leak_witness:
  "\<exists>l. generation_run count_try Suc (new_limiter 3 2, [])
      [Acquire 7 1, AcquireClear 2, DropPermit 1, DropPermit 0] = (l, []) \<and> global_sem l = 3"
proof -
  obtain l ps where run: "generation_run count_try Suc (new_limiter 3 2, [])
      [Acquire 7 1, AcquireClear 2, DropPermit 1, DropPermit 0] = (l, ps)"
    by fastforce
  then have ps: "ps = []"
    by (auto simp: generation_run_def new_limiter_def try_acquire_def try_acquire_clear_def
        count_try_def drop_permit_def)
  show ?thesis
    using generation_no_leak [OF count_semaphore_laws run [unfolded ps]] run ps by auto
qed

text \<open>
  In a state reached from a new limiter, an acquisition is refused exactly when the chat has a
  generation alive, or else the session is at its limit, or else the process is, with the reason
  that names which; otherwise it succeeds.
\<close>

theorem try_acquire_outcome:
  assumes "semaphore_laws sem_try sem_release available"
    and "generation_run sem_try sem_release (new_limiter sem per_session, []) es = (l, ps)"
  shows "fst (try_acquire sem_try session chat l) =
    (if chat \<in> permit_chat ` set ps then Inl (generation_limit_error ChatGenerationActive)
     else if session_permits session ps = per_session
       then Inl (generation_limit_error GenerationSessionCapacity)
     else if count_if permit_global ps = available sem
       then Inl (generation_limit_error GenerationProcessCapacity)
     else Inr \<lparr>permit_session = Some session, permit_chat = chat, permit_global = True\<rparr>)"
proof -
  have inv: "generation_inv available (available sem) per_session (l, ps)"
    using generation_inv_run [OF assms(1) generation_inv_new] assms(2) by metis
  then have "sem_try (global_sem l) = None \<longleftrightarrow> count_if permit_global ps = available sem"
    using assms(1) by (auto simp: generation_inv_def semaphore_laws_def)
  moreover have "per_session \<le> counter_get (active_sessions l) session
      \<longleftrightarrow> session_permits session ps = per_session"
  proof -
    have "counter_get (active_sessions l) session = session_permits session ps"
      and "session_permits session ps \<le> per_session"
      using inv by (simp_all add: generation_inv_def)
    then show ?thesis by auto
  qed
  ultimately show ?thesis
    using inv by (auto simp: generation_inv_def try_acquire_def split: option.split)
qed

theorem try_acquire_outcome_witness:
  "\<exists>l ps. generation_run count_try Suc (new_limiter 1 2, []) [Acquire 7 1] = (l, ps) \<and>
    fst (try_acquire count_try 8 2 l) = Inl (generation_limit_error GenerationProcessCapacity)"
proof -
  obtain l ps where run: "generation_run count_try Suc (new_limiter 1 2, []) [Acquire 7 1] = (l, ps)"
    by fastforce
  then have "ps = [\<lparr>permit_session = Some 7, permit_chat = 1, permit_global = True\<rparr>]"
    by (auto simp: generation_run_def new_limiter_def try_acquire_def count_try_def)
  with run try_acquire_outcome [OF count_semaphore_laws run, of 8 2] show ?thesis
    by (simp add: session_permits_def)
qed

end
