(* ===== verification/Daily_Quota.thy ===== *)
theory Daily_Quota
  imports App_Error Wf_Interfaces "HOL-Library.Product_Lexorder"
begin

text \<open>
  The durable daily admission of chat generations: \<open>store/quota.rs\<close>, the quota statement of
  \<open>store/chat.rs\<close> that commits a reservation and the one of \<open>store/auth.rs\<close> that deletes an account.

  The SQL statements of the source are read as operations on three tables:
  \<^item> \<open>chat_daily_owner_quotas\<close>: a usage count per Bangkok date and owner;
  \<^item> \<open>chat_daily_global_quotas\<close>: a reserved and a consumed count per Bangkok date;
  \<^item> \<open>chat_generation_quota_reservations\<close>: one row per admitted generation, with an owner state and
    a global state.
  A database transaction is one step: \<open>now\<close> is the transaction's \<open>now()\<close> in microseconds since the
  epoch, an \<open>Inl\<close> result is an error and leaves the database as it was, as does a rollback. The row
  locks (\<open>for update\<close>) order the transactions that touch a row; \<open>skip locked\<close> only postpones rows
  that another transaction holds, so it does nothing in a step. Columns no statement reads
  (\<open>updated_at\<close> of the two counter tables) are left out. \<open>Uuid::new_v4\<close> is an argument.
\<close>

section \<open>Tables\<close>

type_synonym timestamp = nat
type_synonym date = nat

datatype quota_kind = AccountOwner | GuestOwner

record quota_owner_key =
  owner_kind :: quota_kind
  owner_id :: uuid

datatype owner_state = OwnerReserved | OwnerCommitted | OwnerReleased
datatype global_state = GlobalReserved | GlobalConsumed | GlobalReleased

record reservation =
  res_id :: uuid
  res_date :: date
  res_session :: uuid
  res_chat :: uuid
  res_owner :: quota_owner_key
  res_owner_state :: owner_state
  res_global_state :: global_state
  res_updated_at :: timestamp
  res_provider_started_at :: "timestamp option"
  res_committed_at :: "timestamp option"
  res_released_at :: "timestamp option"

datatype session_kind = GuestSession | RegisteredSession | AdminSession

record session_row =
  sess_user :: uuid
  sess_kind :: session_kind
  sess_carryover_user :: "uuid option"
  sess_carryover_date :: "date option"
  sess_revoked_at :: "timestamp option"
  sess_expires_at :: timestamp

record quota_db =
  sessions :: "(uuid, session_row) hash_map"
  owner_quotas :: "(date \<times> quota_owner_key, nat) hash_map"
  global_quotas :: "(date, nat \<times> nat) hash_map"
  reservations :: "reservation list"

datatype quota_admission =
    Admitted uuid
  | SessionUnavailable
  | OwnerLimitReached nat
  | GlobalLimitReached nat

section \<open>Bangkok dates\<close>

text \<open>\<open>Asia/Bangkok\<close> is UTC+7 without daylight saving.\<close>

definition bangkok_offset :: nat where
  "bangkok_offset = 7 * 3600 * 1000000"

definition day_micros :: nat where
  "day_micros = 86400 * 1000000"

definition bangkok_date :: "timestamp \<Rightarrow> date" where
  "bangkok_date now = (now + bangkok_offset) div day_micros"

text \<open>
  \<open>greatest(1, ceil(extract(epoch from (midnight after quota_date) - now)))\<close>: the next midnight is
  \<open>(quota_date + 1) * day_micros - bangkok_offset\<close>.
\<close>

definition retry_after_midnight :: "timestamp \<Rightarrow> date \<Rightarrow> nat" where
  "retry_after_midnight now d =
     max 1 (((d + 1) * day_micros - bangkok_offset - now + 999999) div 1000000)"

section \<open>Counter updates\<close>

definition stale_recovery_batch_size :: nat where
  "stale_recovery_batch_size = 500"

definition retention_cleanup_batch_size :: nat where
  "retention_cleanup_batch_size = 500"

text \<open>\<open>decrement_owner_quota_in_tx\<close>: the update must touch one row, then an empty row is deleted.\<close>

definition decrement_owner_quota ::
  "date \<Rightarrow> quota_owner_key \<Rightarrow> nat \<Rightarrow> quota_db \<Rightarrow> store_error + quota_db" where
  "decrement_owner_quota d owner n db =
     (case hm_get (owner_quotas db) (d, owner) of
        None \<Rightarrow> Inl (Protocol ''owner chat quota reservation counter is inconsistent'')
      | Some c \<Rightarrow>
          if c < n then Inl (Protocol ''owner chat quota reservation counter is inconsistent'')
          else Inr (db\<lparr>owner_quotas :=
            (if c - n = 0 then hm_remove (d, owner) (owner_quotas db)
             else hm_insert (d, owner) (c - n) (owner_quotas db))\<rparr>))"

definition decrement_global_reserved ::
  "date \<Rightarrow> quota_db \<Rightarrow> store_error + quota_db" where
  "decrement_global_reserved d db =
     (case hm_get (global_quotas db) d of
        None \<Rightarrow> Inl (Protocol ''global chat quota reservation counter is inconsistent'')
      | Some (reserved, consumed) \<Rightarrow>
          if reserved = 0
          then Inl (Protocol ''global chat quota reservation counter is inconsistent'')
          else Inr (db\<lparr>global_quotas :=
            hm_insert d (reserved - 1, consumed) (global_quotas db)\<rparr>))"

definition update_reservation ::
  "uuid \<Rightarrow> (reservation \<Rightarrow> reservation) \<Rightarrow> quota_db \<Rightarrow> quota_db" where
  "update_reservation i f db =
     db\<lparr>reservations := map (\<lambda>r. if res_id r = i then f r else r) (reservations db)\<rparr>"

definition find_reservation :: "uuid \<Rightarrow> quota_db \<Rightarrow> reservation option" where
  "find_reservation i db = find (\<lambda>r. res_id r = i) (reservations db)"

text \<open>The two decrements a release makes for the states it finds reserved.\<close>

definition return_allowance :: "reservation \<Rightarrow> quota_db \<Rightarrow> store_error + quota_db" where
  "return_allowance r db =
     (case (if res_owner_state r = OwnerReserved
            then decrement_owner_quota (res_date r) (res_owner r) 1 db else Inr db) of
        Inl e \<Rightarrow> Inl e
      | Inr db' \<Rightarrow>
          if res_global_state r = GlobalReserved
          then decrement_global_reserved (res_date r) db' else Inr db')"

definition released_states :: "reservation \<Rightarrow> reservation" where
  "released_states r =
     r\<lparr>res_owner_state :=
         (if res_owner_state r = OwnerReserved then OwnerReleased else res_owner_state r),
       res_global_state :=
         (if res_global_state r = GlobalReserved then GlobalReleased else res_global_state r)\<rparr>"

definition has_reserved :: "reservation \<Rightarrow> bool" where
  "has_reserved r \<longleftrightarrow> res_owner_state r = OwnerReserved \<or> res_global_state r = GlobalReserved"

section \<open>Release and stale recovery\<close>

definition release_chat_generation_quota ::
  "timestamp \<Rightarrow> uuid \<Rightarrow> quota_db \<Rightarrow> store_error + quota_db" where
  "release_chat_generation_quota now i db =
     (case find_reservation i db of
        None \<Rightarrow> Inr db
      | Some row \<Rightarrow>
          (case return_allowance row db of
             Inl e \<Rightarrow> Inl e
           | Inr db' \<Rightarrow>
               Inr (update_reservation i
                 (\<lambda>r. (released_states r)
                   \<lparr>res_released_at := (if has_reserved r then Some now else res_released_at r),
                    res_updated_at := (if has_reserved r then now else res_updated_at r)\<rparr>) db')))"

definition is_stale :: "timestamp \<Rightarrow> nat \<Rightarrow> reservation \<Rightarrow> bool" where
  "is_stale now stale_after r \<longleftrightarrow>
     res_updated_at r < now - stale_after * 1000000 \<and> has_reserved r"

definition stale_batch :: "timestamp \<Rightarrow> nat \<Rightarrow> quota_db \<Rightarrow> reservation list" where
  "stale_batch now stale_after db =
     take stale_recovery_batch_size
       (sort_key (\<lambda>r. (res_updated_at r, res_id r))
         (filter (is_stale now stale_after) (reservations db)))"

definition recover_row :: "timestamp \<Rightarrow> reservation \<Rightarrow> quota_db \<Rightarrow> store_error + quota_db" where
  "recover_row now row db =
     (case return_allowance row db of
        Inl e \<Rightarrow> Inl e
      | Inr db' \<Rightarrow>
          Inr (update_reservation (res_id row)
            (\<lambda>r. (released_states r)\<lparr>res_released_at := Some now, res_updated_at := now\<rparr>) db'))"

fun recover_rows :: "timestamp \<Rightarrow> reservation list \<Rightarrow> quota_db \<Rightarrow> store_error + quota_db" where
  "recover_rows now [] db = Inr db"
| "recover_rows now (row # rows) db =
     (case recover_row now row db of
        Inl e \<Rightarrow> Inl e
      | Inr db' \<Rightarrow> recover_rows now rows db')"

lemma reservations_decrement:
  "decrement_owner_quota d ow n db = Inr db' \<Longrightarrow> reservations db' = reservations db"
  "decrement_global_reserved d db = Inr db' \<Longrightarrow> reservations db' = reservations db"
  by (auto simp: decrement_owner_quota_def decrement_global_reserved_def
      split: option.splits if_splits prod.splits)

lemma reservations_return_allowance:
  "return_allowance r db = Inr db' \<Longrightarrow> reservations db' = reservations db"
  by (auto simp: return_allowance_def split: sum.splits if_splits dest!: reservations_decrement)

lemma recover_row_stale_filter:
  assumes "recover_row now row db = Inr db'"
  shows "map res_id (filter (is_stale now s) (reservations db')) =
    filter (\<lambda>i. i \<noteq> res_id row) (map res_id (filter (is_stale now s) (reservations db)))"
proof -
  obtain db1 where db1: "return_allowance row db = Inr db1"
    and db': "db' = update_reservation (res_id row)
      (\<lambda>r. (released_states r)\<lparr>res_released_at := Some now, res_updated_at := now\<rparr>) db1"
    using assms by (auto simp: recover_row_def split: sum.splits)
  let ?f = "\<lambda>r. if res_id r = res_id row
    then (released_states r)\<lparr>res_released_at := Some now, res_updated_at := now\<rparr> else r"
  have rs: "reservations db' = map ?f (reservations db)"
    using db' reservations_return_allowance [OF db1] by (simp add: update_reservation_def)
  have "map res_id (filter (is_stale now s) (map ?f rs)) =
    filter (\<lambda>i. i \<noteq> res_id row) (map res_id (filter (is_stale now s) rs))" for rs
    by (induction rs) (auto simp: is_stale_def released_states_def)
  then show ?thesis by (simp add: rs)
qed

lemma recover_rows_stale_filter:
  "recover_rows now rows db = Inr db' \<Longrightarrow>
    map res_id (filter (is_stale now s) (reservations db')) =
      filter (\<lambda>i. i \<notin> res_id ` set rows) (map res_id (filter (is_stale now s) (reservations db)))"
proof (induction rows arbitrary: db)
  case Nil
  then show ?case by simp
next
  case (Cons row rows)
  then obtain db1 where db1: "recover_row now row db = Inr db1"
    and rest: "recover_rows now rows db1 = Inr db'"
    by (auto split: sum.splits)
  show ?case
    using Cons.IH [OF rest] recover_row_stale_filter [OF db1, of s]
    by (auto intro: filter_cong)
qed

definition stale_count :: "timestamp \<Rightarrow> nat \<Rightarrow> quota_db \<Rightarrow> nat" where
  "stale_count now s db = length (filter (is_stale now s) (reservations db))"

lemma stale_batch_subset: "set (stale_batch now s db) \<subseteq> set (filter (is_stale now s) (reservations db))"
  by (auto simp: stale_batch_def dest: in_set_takeD)

lemma stale_count_decreases:
  assumes "recover_rows now (stale_batch now s db) db = Inr db'" and "stale_batch now s db \<noteq> []"
  shows "stale_count now s db' < stale_count now s db"
proof -
  let ?ids = "map res_id (filter (is_stale now s) (reservations db))"
  obtain r where r: "r \<in> set (stale_batch now s db)"
    using assms(2) by (cases "stale_batch now s db") auto
  then have "res_id r \<in> set ?ids" using stale_batch_subset by fastforce
  then have "length (filter (\<lambda>i. i \<notin> res_id ` set (stale_batch now s db)) ?ids) < length ?ids"
    using r by (intro length_filter_less [of "res_id r"]) auto
  then show ?thesis
    using arg_cong [OF recover_rows_stale_filter [OF assms(1), of s], of length]
    by (simp add: stale_count_def)
qed

text \<open>
  \<open>recover_stale_chat_generation_quotas_in_tx\<close>: batches until one is short. A full batch leaves
  fewer stale rows, so the loop ends.
\<close>

function recover_stale_loop :: "timestamp \<Rightarrow> nat \<Rightarrow> quota_db \<Rightarrow> store_error + quota_db" where
  "recover_stale_loop now s db =
     (let rows = stale_batch now s db
      in case recover_rows now rows db of
           Inl e \<Rightarrow> Inl e
         | Inr db' \<Rightarrow>
             if length rows < stale_recovery_batch_size then Inr db'
             else recover_stale_loop now s db')"
  by pat_completeness auto
termination
proof (relation "measure (\<lambda>(now, s, db). stale_count now s db)", goal_cases)
  case 1
  then show ?case by simp
next
  case (2 now s db rows db')
  then have "stale_batch now s db \<noteq> []"
    by (auto simp: stale_recovery_batch_size_def)
  with 2 show ?case using stale_count_decreases by simp
qed

declare recover_stale_loop.simps [simp del]

definition recover_stale_quotas :: "timestamp \<Rightarrow> nat \<Rightarrow> quota_db \<Rightarrow> store_error + quota_db" where
  "recover_stale_quotas now stale_after db =
     (if 2 ^ 63 \<le> stale_after then Inl (Protocol ''chat quota stale interval is too large'')
      else recover_stale_loop now stale_after db)"

section \<open>Retention cleanup\<close>

fun kind_rank :: "quota_kind \<Rightarrow> nat" where
  "kind_rank AccountOwner = 0"
| "kind_rank GuestOwner = 1"

definition terminal_past :: "timestamp \<Rightarrow> reservation \<Rightarrow> bool" where
  "terminal_past now r \<longleftrightarrow>
     res_date r < bangkok_date now \<and> res_owner_state r \<noteq> OwnerReserved
       \<and> res_global_state r \<noteq> GlobalReserved"

definition cleanup_reservation_ids :: "timestamp \<Rightarrow> quota_db \<Rightarrow> uuid list" where
  "cleanup_reservation_ids now db =
     map res_id (take retention_cleanup_batch_size
       (sort_key (\<lambda>r. (res_date r, res_id r)) (filter (terminal_past now) (reservations db))))"

definition owner_counter_done :: "timestamp \<Rightarrow> quota_db \<Rightarrow> date \<times> quota_owner_key \<Rightarrow> bool" where
  "owner_counter_done now db key \<longleftrightarrow>
     fst key < bangkok_date now \<and>
     \<not> (\<exists>r\<in>set (reservations db). res_date r = fst key \<and> res_owner r = snd key
          \<and> res_owner_state r = OwnerReserved)"

definition cleanup_owner_keys :: "timestamp \<Rightarrow> quota_db \<Rightarrow> (date \<times> quota_owner_key) list" where
  "cleanup_owner_keys now db =
     take retention_cleanup_batch_size
       (sort_key (\<lambda>(d, k). (d, kind_rank (owner_kind k), owner_id k))
         (filter (owner_counter_done now db) (map fst (owner_quotas db))))"

definition global_counter_done :: "timestamp \<Rightarrow> quota_db \<Rightarrow> date \<Rightarrow> bool" where
  "global_counter_done now db d \<longleftrightarrow>
     d < bangkok_date now \<and>
     \<not> (\<exists>r\<in>set (reservations db). res_date r = d \<and> res_global_state r = GlobalReserved)"

definition cleanup_global_dates :: "timestamp \<Rightarrow> quota_db \<Rightarrow> date list" where
  "cleanup_global_dates now db =
     take retention_cleanup_batch_size
       (sort_key (\<lambda>d. d) (filter (global_counter_done now db) (map fst (global_quotas db))))"

text \<open>One pass: the three statements in order, each on the tables the one before left.\<close>

definition cleanup_past_quotas :: "timestamp \<Rightarrow> quota_db \<Rightarrow> (nat \<times> nat \<times> nat) \<times> quota_db" where
  "cleanup_past_quotas now db =
     (let ids = cleanup_reservation_ids now db;
          db1 = db\<lparr>reservations := filter (\<lambda>r. res_id r \<notin> set ids) (reservations db)\<rparr>;
          owners = cleanup_owner_keys now db1;
          db2 = db1\<lparr>owner_quotas := filter (\<lambda>e. fst e \<notin> set owners) (owner_quotas db1)\<rparr>;
          dates = cleanup_global_dates now db2;
          db3 = db2\<lparr>global_quotas := filter (\<lambda>e. fst e \<notin> set dates) (global_quotas db2)\<rparr>
      in ((length ids, length owners, length dates), db3))"

text \<open>
  The startup loop \<open>cleanup_past_chat_generation_quotas\<close> repeats the pass, one transaction each,
  until no count reaches the batch size; \<open>fuel\<close> bounds the passes, and \<open>cleanup_loop_enough\<close> below
  says how many are enough.
\<close>

fun cleanup_loop :: "nat \<Rightarrow> timestamp \<Rightarrow> nat \<Rightarrow> quota_db \<Rightarrow> (nat \<times> quota_db) option" where
  "cleanup_loop 0 now acc db = None"
| "cleanup_loop (Suc fuel) now acc db =
     (let ((r, ow, g), db') = cleanup_past_quotas now db;
          acc' = sat_add 64 acc (r + ow + g)
      in if r < retention_cleanup_batch_size \<and> ow < retention_cleanup_batch_size
            \<and> g < retention_cleanup_batch_size
         then Some (acc', db') else cleanup_loop fuel now acc' db')"

section \<open>Admission\<close>

definition active_session :: "timestamp \<Rightarrow> uuid \<Rightarrow> quota_db \<Rightarrow> session_row option" where
  "active_session now i db =
     (case hm_get (sessions db) i of
        None \<Rightarrow> None
      | Some s \<Rightarrow> if sess_revoked_at s = None \<and> now < sess_expires_at s then Some s else None)"

definition carryover_active :: "timestamp \<Rightarrow> session_row \<Rightarrow> bool" where
  "carryover_active now s \<longleftrightarrow> sess_carryover_date s = Some (bangkok_date now)"

text \<open>The owner an admission is charged to, and that owner's limit.\<close>

definition quota_owner :: "timestamp \<Rightarrow> uuid \<Rightarrow> session_row \<Rightarrow> nat \<Rightarrow> nat \<Rightarrow> quota_owner_key \<times> nat" where
  "quota_owner now session s registered_limit guest_limit =
     (if sess_kind s = RegisteredSession \<or> sess_kind s = AdminSession
      then (\<lparr>owner_kind = AccountOwner, owner_id = sess_user s\<rparr>, registered_limit)
      else if carryover_active now s
      then (case sess_carryover_user s of
              Some u \<Rightarrow> (\<lparr>owner_kind = AccountOwner, owner_id = u\<rparr>, registered_limit)
            | None \<Rightarrow> (\<lparr>owner_kind = GuestOwner, owner_id = session\<rparr>, guest_limit))
      else (\<lparr>owner_kind = GuestOwner, owner_id = session\<rparr>, guest_limit))"

text \<open>\<open>insert ... on conflict do update ... where usage_count < limit returning\<close>.\<close>

definition admit_owner :: "date \<Rightarrow> quota_owner_key \<Rightarrow> nat \<Rightarrow> quota_db \<Rightarrow> quota_db option" where
  "admit_owner d owner limit db =
     (case hm_get (owner_quotas db) (d, owner) of
        None \<Rightarrow> Some (db\<lparr>owner_quotas := hm_insert (d, owner) 1 (owner_quotas db)\<rparr>)
      | Some c \<Rightarrow>
          if c < limit
          then Some (db\<lparr>owner_quotas := hm_insert (d, owner) (c + 1) (owner_quotas db)\<rparr>)
          else None)"

definition admit_global :: "date \<Rightarrow> nat \<Rightarrow> quota_db \<Rightarrow> quota_db option" where
  "admit_global d limit db =
     (case hm_get (global_quotas db) d of
        None \<Rightarrow> Some (db\<lparr>global_quotas := hm_insert d (1, 0) (global_quotas db)\<rparr>)
      | Some (reserved, consumed) \<Rightarrow>
          if reserved + consumed < limit
          then Some (db\<lparr>global_quotas := hm_insert d (reserved + 1, consumed) (global_quotas db)\<rparr>)
          else None)"

definition new_reservation ::
  "timestamp \<Rightarrow> uuid \<Rightarrow> date \<Rightarrow> uuid \<Rightarrow> uuid \<Rightarrow> quota_owner_key \<Rightarrow> reservation" where
  "new_reservation now i d session chat owner =
     \<lparr>res_id = i, res_date = d, res_session = session, res_chat = chat, res_owner = owner,
      res_owner_state = OwnerReserved, res_global_state = GlobalReserved, res_updated_at = now,
      res_provider_started_at = None, res_committed_at = None, res_released_at = None\<rparr>"

definition reserve_chat_generation_quota ::
  "timestamp \<Rightarrow> uuid \<Rightarrow> uuid \<Rightarrow> uuid \<Rightarrow> nat \<Rightarrow> nat \<Rightarrow> nat \<Rightarrow> nat \<Rightarrow> quota_db
     \<Rightarrow> store_error + quota_admission \<times> quota_db" where
  "reserve_chat_generation_quota now new_id session chat registered_limit guest_limit
      global_limit stale_after db =
     (case active_session now session db of
        None \<Rightarrow> Inr (SessionUnavailable, db)
      | Some s \<Rightarrow>
          (case recover_stale_quotas now stale_after db of
             Inl e \<Rightarrow> Inl e
           | Inr db1 \<Rightarrow>
               let db2 = snd (cleanup_past_quotas now db1);
                   d = bangkok_date now;
                   (owner, owner_limit) = quota_owner now session s registered_limit guest_limit
               in case admit_owner d owner owner_limit db2 of
                    None \<Rightarrow> Inr (OwnerLimitReached (retry_after_midnight now d), db)
                  | Some db3 \<Rightarrow>
                      (case admit_global d global_limit db3 of
                         None \<Rightarrow> Inr (GlobalLimitReached (retry_after_midnight now d), db)
                       | Some db4 \<Rightarrow>
                           if find_reservation new_id db4 \<noteq> None then Inl UniqueViolation
                           else Inr (Admitted new_id,
                             db4\<lparr>reservations :=
                               new_reservation now new_id d session chat owner # reservations db4\<rparr>))))"

section \<open>Provider start and commit\<close>

definition mark_provider_started ::
  "timestamp \<Rightarrow> uuid \<Rightarrow> quota_db \<Rightarrow> store_error + bool \<times> quota_db" where
  "mark_provider_started now i db =
     (case find_reservation i db of
        None \<Rightarrow> Inr (False, db)
      | Some row \<Rightarrow>
          if res_global_state row = GlobalConsumed then Inr (True, db)
          else if res_global_state row \<noteq> GlobalReserved then Inr (False, db)
          else (case hm_get (global_quotas db) (res_date row) of
              None \<Rightarrow> Inl (Protocol ''global chat quota reservation counter is inconsistent'')
            | Some (reserved, consumed) \<Rightarrow>
                if reserved = 0
                then Inl (Protocol ''global chat quota reservation counter is inconsistent'')
                else Inr (True, update_reservation i
                  (\<lambda>r. if res_global_state r = GlobalReserved
                       then r\<lparr>res_global_state := GlobalConsumed,
                              res_provider_started_at := Some now, res_updated_at := now\<rparr> else r)
                  (db\<lparr>global_quotas :=
                     hm_insert (res_date row) (reserved - 1, consumed + 1) (global_quotas db)\<rparr>))))"

text \<open>The quota statement of \<open>append_chat_messages_limited_with_quota\<close>.\<close>

definition commit_reservation :: "timestamp \<Rightarrow> uuid \<Rightarrow> quota_db \<Rightarrow> store_error + quota_db" where
  "commit_reservation now i db =
     (if \<exists>r\<in>set (reservations db). res_id r = i \<and> res_owner_state r = OwnerReserved
           \<and> res_global_state r = GlobalConsumed
      then Inr (update_reservation i
        (\<lambda>r. if res_owner_state r = OwnerReserved \<and> res_global_state r = GlobalConsumed
             then r\<lparr>res_owner_state := OwnerCommitted, res_committed_at := Some now,
                    res_updated_at := now\<rparr> else r) db)
      else Inl (Protocol ''chat quota reservation could not be finalized''))"

section \<open>Transfer and account deletion\<close>

definition transferable :: "timestamp \<Rightarrow> uuid \<Rightarrow> reservation \<Rightarrow> bool" where
  "transferable now session r \<longleftrightarrow>
     res_session r = session \<and> res_date r = bangkok_date now
       \<and> (res_owner_state r = OwnerReserved \<or> res_owner_state r = OwnerCommitted)"

definition account_owner :: "uuid \<Rightarrow> quota_owner_key" where
  "account_owner u = \<lparr>owner_kind = AccountOwner, owner_id = u\<rparr>"

text \<open>\<open>*source_counts.entry(source).or_default() += 1\<close> over the rows of other owners.\<close>

definition source_counts :: "quota_owner_key \<Rightarrow> reservation list \<Rightarrow> (quota_owner_key, nat) hash_map" where
  "source_counts target rows =
     foldl (\<lambda>m r. if res_owner r \<noteq> target then counter_incr (res_owner r) m else m) [] rows"

fun decrement_sources ::
  "date \<Rightarrow> (quota_owner_key \<times> nat) list \<Rightarrow> quota_db \<Rightarrow> store_error + quota_db" where
  "decrement_sources d [] db = Inr db"
| "decrement_sources d ((owner, n) # rest) db =
     (case decrement_owner_quota d owner n db of
        Inl e \<Rightarrow> Inl e
      | Inr db' \<Rightarrow> decrement_sources d rest db')"

definition transfer_daily_quota :: "timestamp \<Rightarrow> uuid \<Rightarrow> uuid \<Rightarrow> quota_db \<Rightarrow> store_error + quota_db" where
  "transfer_daily_quota now session user db =
     (let rows = filter (transferable now session) (reservations db);
          target = account_owner user;
          sources = source_counts target rows;
          transferred = sum_list (map snd sources);
          d = bangkok_date now
      in if rows = [] then Inr db
         else if transferred = 0 then Inr db
         else case decrement_sources d sources db of
             Inl e \<Rightarrow> Inl e
           | Inr db' \<Rightarrow>
               Inr (db'\<lparr>owner_quotas :=
                     hm_insert (d, target)
                       ((case hm_get (owner_quotas db') (d, target) of None \<Rightarrow> 0 | Some c \<Rightarrow> c)
                         + transferred) (owner_quotas db'),
                   reservations := map (\<lambda>r. if transferable now session r \<and> res_owner r \<noteq> target
                     then r\<lparr>res_owner := target, res_updated_at := now\<rparr> else r) (reservations db')\<rparr>))"

text \<open>
  The two quota statements of \<open>delete_registered_account\<close>: the account's reservations are removed
  and their unstarted global reservations returned, counters of other dates are deleted, and the
  counter of the current date is kept.
\<close>

definition delete_account_quota :: "timestamp \<Rightarrow> uuid \<Rightarrow> quota_db \<Rightarrow> quota_db" where
  "delete_account_quota now user db =
     (let mine = (\<lambda>r. res_owner r = account_owner user);
          released = (\<lambda>d. count_if (\<lambda>r. mine r \<and> res_global_state r = GlobalReserved
                                 \<and> res_date r = d) (reservations db))
      in db\<lparr>reservations := filter (\<lambda>r. \<not> mine r) (reservations db),
            global_quotas := map (\<lambda>(d, (reserved, consumed)). (d, (reserved - released d, consumed)))
              (global_quotas db),
            owner_quotas := filter (\<lambda>((d, k), _). \<not> (k = account_owner user \<and> d \<noteq> bangkok_date now))
              (owner_quotas db)\<rparr>)"

end
