(* ===== verification/Daily_Quota_Inv.thy ===== *)
theory Daily_Quota_Inv
  imports Daily_Quota
begin

text \<open>
  The counters of the daily quota cover the reservations they stand for. \<open>quota_inv t db\<close> says it
  for a database seen on Bangkok date \<open>t\<close>: a reservation whose owner state is reserved, or
  committed on a date that is not past, is counted for its owner, and likewise for the two global
  counts. Each operation of \<open>Daily_Quota\<close> keeps it, so no decrement ever fails.
\<close>

section \<open>What the counters must cover\<close>

definition usage_of :: "quota_db \<Rightarrow> date \<Rightarrow> quota_owner_key \<Rightarrow> nat" where
  "usage_of db d owner = counter_get (owner_quotas db) (d, owner)"

definition global_reserved_of :: "quota_db \<Rightarrow> date \<Rightarrow> nat" where
  "global_reserved_of db d = (case hm_get (global_quotas db) d of None \<Rightarrow> 0 | Some (r, c) \<Rightarrow> r)"

definition global_consumed_of :: "quota_db \<Rightarrow> date \<Rightarrow> nat" where
  "global_consumed_of db d = (case hm_get (global_quotas db) d of None \<Rightarrow> 0 | Some (r, c) \<Rightarrow> c)"

definition owner_weight :: "date \<Rightarrow> date \<Rightarrow> quota_owner_key \<Rightarrow> reservation \<Rightarrow> bool" where
  "owner_weight t d owner r \<longleftrightarrow>
     res_date r = d \<and> res_owner r = owner \<and>
     (res_owner_state r = OwnerReserved \<or> res_owner_state r = OwnerCommitted \<and> t \<le> d)"

definition reserved_weight :: "date \<Rightarrow> reservation \<Rightarrow> bool" where
  "reserved_weight d r \<longleftrightarrow> res_date r = d \<and> res_global_state r = GlobalReserved"

definition consumed_weight :: "date \<Rightarrow> date \<Rightarrow> reservation \<Rightarrow> bool" where
  "consumed_weight t d r \<longleftrightarrow> res_date r = d \<and> res_global_state r = GlobalConsumed \<and> t \<le> d"

definition row_ok :: "reservation \<Rightarrow> bool" where
  "row_ok r \<longleftrightarrow>
     (res_owner_state r = OwnerCommitted \<longrightarrow> res_global_state r = GlobalConsumed) \<and>
     (res_global_state r = GlobalConsumed \<longrightarrow> res_provider_started_at r \<noteq> None)"

definition tables_ok :: "quota_db \<Rightarrow> bool" where
  "tables_ok db \<longleftrightarrow> hm_ok (owner_quotas db) \<and> hm_ok (global_quotas db)
     \<and> distinct (map res_id (reservations db)) \<and> (\<forall>r\<in>set (reservations db). row_ok r)"

definition quota_inv :: "date \<Rightarrow> quota_db \<Rightarrow> bool" where
  "quota_inv t db \<longleftrightarrow> tables_ok db \<and>
     (\<forall>d owner. count_if (owner_weight t d owner) (reservations db) \<le> usage_of db d owner) \<and>
     (\<forall>d. count_if (reserved_weight d) (reservations db) \<le> global_reserved_of db d) \<and>
     (\<forall>d. count_if (consumed_weight t d) (reservations db) \<le> global_consumed_of db d)"

lemma quota_invD:
  assumes "quota_inv t db"
  shows "tables_ok db"
    and "count_if (owner_weight t d owner) (reservations db) \<le> usage_of db d owner"
    and "count_if (reserved_weight d) (reservations db) \<le> global_reserved_of db d"
    and "count_if (consumed_weight t d) (reservations db) \<le> global_consumed_of db d"
  using assms by (simp_all add: quota_inv_def)

text \<open>Time only weakens the invariant: commitments of past dates need no counter.\<close>

lemma quota_inv_later:
  assumes "quota_inv t db" and "t \<le> t'"
  shows "quota_inv t' db"
proof -
  have "count_if (owner_weight t' d ow) rs \<le> count_if (owner_weight t d ow) rs"
    and "count_if (consumed_weight t' d) rs \<le> count_if (consumed_weight t d) rs" for d ow rs
    using assms(2) by (auto intro!: count_if_mono simp: owner_weight_def consumed_weight_def)
  note le_trans [OF this(1)] le_trans [OF this(2)]
  with assms(1) show ?thesis by (simp add: quota_inv_def)
qed

lemma find_reservation_split:
  assumes "distinct (map res_id (reservations db))" and "find_reservation i db = Some r"
  shows "\<exists>us vs. reservations db = us @ r # vs \<and> res_id r = i \<and>
    (\<forall>f db'. reservations db' = reservations db \<longrightarrow>
       reservations (update_reservation i f db') = us @ f r # vs)"
proof -
  from find_Some_split [OF assms(2) [unfolded find_reservation_def], of id] obtain us vs
    where rs: "reservations db = us @ r # vs" and i: "res_id r = i" by auto
  have "map (\<lambda>x. if res_id x = i then f x else x) us = us"
    and "map (\<lambda>x. if res_id x = i then f x else x) vs = vs" for f
    using assms(1) i by (auto simp: rs intro!: map_idI) (metis image_eqI)+
  with rs i show ?thesis
    by (intro exI [of _ us] exI [of _ vs]) (auto simp: update_reservation_def)
qed

lemma find_reservation_in:
  assumes "distinct (map res_id (reservations db))" and "r \<in> set (reservations db)"
  shows "find_reservation (res_id r) db = Some r"
proof -
  have "find (\<lambda>x. res_id x = res_id r) xs = Some r"
    if "distinct (map res_id xs)" and "r \<in> set xs" for xs
    using that by (induction xs) auto
  with assms show ?thesis by (simp add: find_reservation_def)
qed

text \<open>One row replaced, the counters moved by what the row weighs before and after.\<close>

lemma quota_inv_replace:
  assumes inv: "quota_inv t db" and rs: "reservations db = us @ r # vs"
    and rs': "reservations db' = us @ r' # vs" and id: "res_id r' = res_id r"
    and tabs: "hm_ok (owner_quotas db')" "hm_ok (global_quotas db')" and "row_ok r'"
    and ow: "\<And>d owner. of_bool (owner_weight t d owner r') + usage_of db d owner
        \<le> of_bool (owner_weight t d owner r) + usage_of db' d owner"
    and gr: "\<And>d. of_bool (reserved_weight d r') + global_reserved_of db d
        \<le> of_bool (reserved_weight d r) + global_reserved_of db' d"
    and gc: "\<And>d. of_bool (consumed_weight t d r') + global_consumed_of db d
        \<le> of_bool (consumed_weight t d r) + global_consumed_of db' d"
  shows "quota_inv t db'"
proof -
  have "tables_ok db'"
    using quota_invD(1) [OF inv] assms(3-7) rs by (auto simp: tables_ok_def)
  moreover have "count_if (owner_weight t d owner) (reservations db') \<le> usage_of db' d owner" for d owner
    using quota_invD(2) [OF inv, of d owner] ow [of d owner] by (simp add: rs rs' of_bool_def split: if_splits)
  moreover have "count_if (reserved_weight d) (reservations db') \<le> global_reserved_of db' d" for d
    using quota_invD(3) [OF inv, of d] gr [of d] by (simp add: rs rs' of_bool_def split: if_splits)
  moreover have "count_if (consumed_weight t d) (reservations db') \<le> global_consumed_of db' d" for d
    using quota_invD(4) [OF inv, of d] gc [of d] by (simp add: rs rs' of_bool_def split: if_splits)
  ultimately show ?thesis by (simp add: quota_inv_def)
qed

section \<open>Decrements\<close>

lemma count_if_in: "r \<in> set rs \<Longrightarrow> P r \<Longrightarrow> 0 < count_if P rs"
  by (auto simp: count_if_pos)

lemma decrement_owner_ok:
  assumes "hm_ok (owner_quotas db)" and "0 < n" and "n \<le> usage_of db d ow"
  shows "\<exists>db'. decrement_owner_quota d ow n db = Inr db' \<and> reservations db' = reservations db
    \<and> global_quotas db' = global_quotas db \<and> sessions db' = sessions db \<and> hm_ok (owner_quotas db')
    \<and> (\<forall>e o'. usage_of db' e o' = usage_of db e o' - (if e = d \<and> o' = ow then n else 0))"
  using assms
  by (auto simp: decrement_owner_quota_def usage_of_def counter_get_def split: option.splits)

lemma decrement_global_ok:
  assumes "hm_ok (global_quotas db)" and "0 < global_reserved_of db d"
  shows "\<exists>db'. decrement_global_reserved d db = Inr db' \<and> reservations db' = reservations db
    \<and> owner_quotas db' = owner_quotas db \<and> sessions db' = sessions db \<and> hm_ok (global_quotas db')
    \<and> (\<forall>e. global_reserved_of db' e = global_reserved_of db e - of_bool (e = d))
    \<and> (\<forall>e. global_consumed_of db' e = global_consumed_of db e)"
  using assms
  by (auto simp: decrement_global_reserved_def global_reserved_of_def global_consumed_of_def
      split: option.splits prod.splits)

lemma return_allowance_ok:
  assumes inv: "quota_inv t db" and r: "r \<in> set (reservations db)"
  shows "\<exists>db'. return_allowance r db = Inr db' \<and> reservations db' = reservations db
    \<and> sessions db' = sessions db \<and> hm_ok (owner_quotas db') \<and> hm_ok (global_quotas db')
    \<and> (\<forall>d ow. usage_of db d ow = usage_of db' d ow
         + of_bool (res_date r = d \<and> res_owner r = ow \<and> res_owner_state r = OwnerReserved))
    \<and> (\<forall>d. global_reserved_of db d = global_reserved_of db' d + of_bool (reserved_weight d r))
    \<and> (\<forall>d. global_consumed_of db' d = global_consumed_of db d)"
proof -
  have tabs: "hm_ok (owner_quotas db)" "hm_ok (global_quotas db)"
    using quota_invD(1) [OF inv] by (simp_all add: tables_ok_def)
  have ow: "0 < usage_of db (res_date r) (res_owner r)" if "res_owner_state r = OwnerReserved"
    using count_if_in [OF r, of "owner_weight t (res_date r) (res_owner r)"] that
      quota_invD(2) [OF inv, of "res_date r" "res_owner r"]
    by (simp add: owner_weight_def)
  have gr: "0 < global_reserved_of db (res_date r)" if "res_global_state r = GlobalReserved"
    using count_if_in [OF r, of "reserved_weight (res_date r)"] that
      quota_invD(3) [OF inv, of "res_date r"]
    by (simp add: reserved_weight_def)
  let ?first = "if res_owner_state r = OwnerReserved
    then decrement_owner_quota (res_date r) (res_owner r) 1 db else Inr db"
  obtain db1 where db1: "?first = Inr db1" "reservations db1 = reservations db"
    "global_quotas db1 = global_quotas db" "sessions db1 = sessions db" "hm_ok (owner_quotas db1)"
    and us: "\<And>d ow. usage_of db d ow = usage_of db1 d ow
         + of_bool (res_date r = d \<and> res_owner r = ow \<and> res_owner_state r = OwnerReserved)"
  proof (cases "res_owner_state r = OwnerReserved")
    case True
    with decrement_owner_ok [OF tabs(1), of 1 "res_date r" "res_owner r"] ow
    obtain db1 where "decrement_owner_quota (res_date r) (res_owner r) 1 db = Inr db1"
      "reservations db1 = reservations db" "global_quotas db1 = global_quotas db"
      "sessions db1 = sessions db" "hm_ok (owner_quotas db1)"
      "\<forall>e o'. usage_of db1 e o' = usage_of db e o' - (if e = res_date r \<and> o' = res_owner r then 1 else 0)"
      by (auto simp: Suc_le_eq)
    with True ow show ?thesis by (intro that [of db1]) auto
  next
    case False
    with tabs show ?thesis by (intro that [of db]) auto
  qed
  have same: "global_reserved_of db1 = global_reserved_of db" "global_consumed_of db1 = global_consumed_of db"
    by (simp_all add: fun_eq_iff global_reserved_of_def global_consumed_of_def db1(3))
  show ?thesis
  proof (cases "res_global_state r = GlobalReserved")
    case True
    with decrement_global_ok [of db1 "res_date r"] gr tabs(2) db1(3) same
    obtain db2 where db2: "decrement_global_reserved (res_date r) db1 = Inr db2"
      "reservations db2 = reservations db1" "owner_quotas db2 = owner_quotas db1"
      "sessions db2 = sessions db1" "hm_ok (global_quotas db2)"
      "\<forall>e. global_reserved_of db2 e = global_reserved_of db e - of_bool (e = res_date r)"
      "\<forall>e. global_consumed_of db2 e = global_consumed_of db e"
      by auto
    have "usage_of db2 = usage_of db1" by (simp add: fun_eq_iff usage_of_def db2(3))
    with True db1 db2 us gr show ?thesis
      by (intro exI [of _ db2]) (auto simp: return_allowance_def reserved_weight_def)
  next
    case False
    with db1 us same tabs show ?thesis
      by (intro exI [of _ db1]) (auto simp: return_allowance_def reserved_weight_def)
  qed
qed

section \<open>Release and recovery\<close>

lemma counters_reservations_update [simp]:
  "usage_of (db\<lparr>reservations := rs\<rparr>) = usage_of db"
  "global_reserved_of (db\<lparr>reservations := rs\<rparr>) = global_reserved_of db"
  "global_consumed_of (db\<lparr>reservations := rs\<rparr>) = global_consumed_of db"
  by (simp_all add: fun_eq_iff usage_of_def global_reserved_of_def global_consumed_of_def)

lemma counters_update_reservation [simp]:
  "usage_of (update_reservation i f db) = usage_of db"
  "global_reserved_of (update_reservation i f db) = global_reserved_of db"
  "global_consumed_of (update_reservation i f db) = global_consumed_of db"
  "owner_quotas (update_reservation i f db) = owner_quotas db"
  "global_quotas (update_reservation i f db) = global_quotas db"
  "sessions (update_reservation i f db) = sessions db"
  by (simp_all add: update_reservation_def)

text \<open>A row's allowance returned and its states released, whatever timestamps are written.\<close>

lemma quota_inv_return:
  assumes inv: "quota_inv t db" and find: "find_reservation i db = Some r"
    and f: "\<And>r. res_id (f r) = res_id r \<and> res_date (f r) = res_date r \<and> res_owner (f r) = res_owner r
      \<and> res_owner_state (f r) = res_owner_state (released_states r)
      \<and> res_global_state (f r) = res_global_state (released_states r)
      \<and> res_provider_started_at (f r) = res_provider_started_at r"
  shows "\<exists>db'. return_allowance r db = Inr db' \<and> quota_inv t (update_reservation i f db')
    \<and> sessions db' = sessions db"
proof -
  have dist: "distinct (map res_id (reservations db))"
    using quota_invD(1) [OF inv] by (simp add: tables_ok_def)
  obtain us vs where rs: "reservations db = us @ r # vs"
    and upd: "\<And>f db'. reservations db' = reservations db \<Longrightarrow>
       reservations (update_reservation i f db') = us @ f r # vs"
    using find_reservation_split [OF dist find] by blast
  have ok: "row_ok r" using quota_invD(1) [OF inv] by (simp add: tables_ok_def rs)
  obtain db' where ret: "return_allowance r db = Inr db'" and res: "reservations db' = reservations db"
    and tabs: "sessions db' = sessions db" "hm_ok (owner_quotas db')" "hm_ok (global_quotas db')"
    and us: "\<And>d ow. usage_of db d ow = usage_of db' d ow
         + of_bool (res_date r = d \<and> res_owner r = ow \<and> res_owner_state r = OwnerReserved)"
    and gr: "\<And>d. global_reserved_of db d = global_reserved_of db' d + of_bool (reserved_weight d r)"
    and gc: "\<And>d. global_consumed_of db' d = global_consumed_of db d"
    using return_allowance_ok [OF inv, of r] rs by auto
  have "quota_inv t (update_reservation i f db')"
  proof (rule quota_inv_replace [OF inv rs upd [OF res]])
    show "row_ok (f r)" using ok f [of r] by (auto simp: row_ok_def released_states_def)
    show "of_bool (owner_weight t d owner (f r)) + usage_of db d owner
        \<le> of_bool (owner_weight t d owner r) + usage_of (update_reservation i f db') d owner" for d owner
      using f [of r] us [of d owner] by (auto simp: owner_weight_def released_states_def)
    show "of_bool (reserved_weight d (f r)) + global_reserved_of db d
        \<le> of_bool (reserved_weight d r) + global_reserved_of (update_reservation i f db') d" for d
      using f [of r] gr [of d] by (auto simp: reserved_weight_def released_states_def)
    show "of_bool (consumed_weight t d (f r)) + global_consumed_of db d
        \<le> of_bool (consumed_weight t d r) + global_consumed_of (update_reservation i f db') d" for d
      using f [of r] gc [of d] by (auto simp: consumed_weight_def released_states_def)
  qed (use f [of r] tabs in simp_all)
  with ret tabs show ?thesis by blast
qed

lemma release_ok:
  assumes "quota_inv t db"
  shows "\<exists>db'. release_chat_generation_quota now i db = Inr db' \<and> quota_inv t db'
    \<and> sessions db' = sessions db"
proof (cases "find_reservation i db")
  case None
  with assms show ?thesis by (simp add: release_chat_generation_quota_def)
next
  case (Some r)
  let ?f = "\<lambda>r. (released_states r)
     \<lparr>res_released_at := (if has_reserved r then Some now else res_released_at r),
      res_updated_at := (if has_reserved r then now else res_updated_at r)\<rparr>"
  obtain db' where "return_allowance r db = Inr db'" "quota_inv t (update_reservation i ?f db')"
    "sessions db' = sessions db"
    using quota_inv_return [OF assms Some, of ?f] by (auto simp: released_states_def)
  with Some show ?thesis by (simp add: release_chat_generation_quota_def)
qed

lemma recover_row_ok:
  assumes "quota_inv t db" and "row \<in> set (reservations db)"
  shows "\<exists>db'. recover_row now row db = Inr db' \<and> quota_inv t db' \<and> sessions db' = sessions db
    \<and> (\<forall>r\<in>set (reservations db). res_id r \<noteq> res_id row \<longrightarrow> r \<in> set (reservations db'))"
proof -
  let ?f = "\<lambda>r. (released_states r)\<lparr>res_released_at := Some now, res_updated_at := now\<rparr>"
  have find: "find_reservation (res_id row) db = Some row"
    using assms quota_invD(1) [OF assms(1)] by (simp add: tables_ok_def find_reservation_in)
  obtain db' where "return_allowance row db = Inr db'" "quota_inv t (update_reservation (res_id row) ?f db')"
    "sessions db' = sessions db"
    using quota_inv_return [OF assms(1) find, of ?f] by (auto simp: released_states_def)
  moreover from this(1) have "reservations db' = reservations db" by (rule reservations_return_allowance)
  ultimately show ?thesis
    by (auto simp: recover_row_def update_reservation_def image_iff)
qed

lemma recover_rows_ok:
  assumes "quota_inv t db" and "distinct (map res_id rows)" and "set rows \<subseteq> set (reservations db)"
  shows "\<exists>db'. recover_rows now rows db = Inr db' \<and> quota_inv t db' \<and> sessions db' = sessions db"
  using assms
proof (induction rows arbitrary: db)
  case Nil
  then show ?case by simp
next
  case (Cons row rows)
  obtain db1 where db1: "recover_row now row db = Inr db1" "quota_inv t db1" "sessions db1 = sessions db"
    "\<forall>r\<in>set (reservations db). res_id r \<noteq> res_id row \<longrightarrow> r \<in> set (reservations db1)"
    using recover_row_ok [OF Cons.prems(1), of row now] Cons.prems(3) by auto
  have "set rows \<subseteq> set (reservations db1)"
    using db1(4) Cons.prems(2,3) by (auto simp: image_iff subset_iff)
  with Cons.IH [OF db1(2)] Cons.prems(2) db1 show ?case by auto
qed

lemma stale_batch_distinct:
  assumes "distinct (map res_id (reservations db))"
  shows "distinct (map res_id (stale_batch now s db))"
proof -
  let ?rows = "sort_key (\<lambda>r. (res_updated_at r, res_id r)) (filter (is_stale now s) (reservations db))"
  have "inj_on res_id (set (reservations db))" and "distinct (reservations db)"
    using assms by (simp_all add: distinct_map)
  then have "distinct (map res_id ?rows)"
    by (auto simp: distinct_map intro: inj_on_subset)
  then show ?thesis by (simp add: stale_batch_def take_map [symmetric])
qed

lemma recover_loop_ok:
  assumes "quota_inv t db"
  shows "\<exists>db'. recover_stale_loop now s db = Inr db' \<and> quota_inv t db' \<and> sessions db' = sessions db"
  using assms
proof (induction now s db rule: recover_stale_loop.induct)
  case (1 now s db)
  let ?rows = "stale_batch now s db"
  have sub: "set ?rows \<subseteq> set (reservations db)" using stale_batch_subset by fastforce
  have dist: "distinct (map res_id ?rows)"
    using quota_invD(1) [OF "1.prems"] by (simp add: tables_ok_def stale_batch_distinct)
  obtain db1 where db1: "recover_rows now ?rows db = Inr db1" "quota_inv t db1" "sessions db1 = sessions db"
    using recover_rows_ok [OF "1.prems" dist sub, of now] by blast
  show ?case
  proof (cases "length ?rows < stale_recovery_batch_size")
    case True
    with db1 show ?thesis by (simp add: recover_stale_loop.simps [of now s db])
  next
    case False
    with "1.IH" [OF refl db1(1)] db1 show ?thesis
      by (simp add: recover_stale_loop.simps [of now s db])
  qed
qed

text \<open>When the loop ends, no stale reservation is left.\<close>

lemma recover_rows_clears:
  assumes "recover_rows now (stale_batch now s db) db = Inr db'"
    and "length (stale_batch now s db) < stale_recovery_batch_size"
  shows "stale_count now s db' = 0"
proof -
  have "set (stale_batch now s db) = set (filter (is_stale now s) (reservations db))"
    using assms(2) by (simp add: stale_batch_def)
  then have "filter (\<lambda>i. i \<notin> res_id ` set (stale_batch now s db))
      (map res_id (filter (is_stale now s) (reservations db))) = []"
    by (auto simp: filter_empty_conv)
  then show ?thesis
    using arg_cong [OF recover_rows_stale_filter [OF assms(1), of s], of length]
    by (simp add: stale_count_def)
qed

lemma recover_loop_clears:
  "recover_stale_loop now s db = Inr db' \<Longrightarrow> stale_count now s db' = 0"
proof (induction now s db rule: recover_stale_loop.induct)
  case (1 now s db)
  then show ?case
    by (auto simp: recover_stale_loop.simps [of now s db] Let_def split: sum.splits if_splits
        dest: recover_rows_clears)
qed

section \<open>Cleanup\<close>

lemma count_if_filter_irrelevant:
  assumes "\<And>x. x \<in> set xs \<Longrightarrow> \<not> Q x \<Longrightarrow> \<not> P x"
  shows "count_if P (filter Q xs) = count_if P xs"
  using assms by (induction xs) auto

lemma counter_get_filter_keys:
  "hm_ok m \<Longrightarrow> counter_get (filter (\<lambda>e. fst e \<notin> set ks) m) k = (if k \<in> set ks then 0 else counter_get m k)"
  by (auto simp: counter_get_def hm_get_filter split: option.split)

lemma hm_get_filter_keys:
  "hm_ok m \<Longrightarrow> hm_get (filter (\<lambda>e. fst e \<notin> set ks) m) k = (if k \<in> set ks then None else hm_get m k)"
  by (auto simp: hm_get_filter split: option.split)

lemma cleanup_owner_keys_done: "key \<in> set (cleanup_owner_keys now db) \<Longrightarrow> owner_counter_done now db key"
  by (auto simp: cleanup_owner_keys_def dest: in_set_takeD)

lemma cleanup_global_dates_done: "d \<in> set (cleanup_global_dates now db) \<Longrightarrow> global_counter_done now db d"
  by (auto simp: cleanup_global_dates_def dest: in_set_takeD)

lemma cleanup_ids_terminal:
  assumes "distinct (map res_id (reservations db))" and "r \<in> set (reservations db)"
    and "res_id r \<in> set (cleanup_reservation_ids now db)"
  shows "terminal_past now r"
proof -
  obtain r' where r': "r' \<in> set (reservations db)" "terminal_past now r'" "res_id r' = res_id r"
    using assms(3) by (auto simp: cleanup_reservation_ids_def dest!: in_set_takeD)
  with assms(1,2) show ?thesis by (auto simp: distinct_map dest: inj_onD)
qed

lemma cleanup_ok:
  assumes inv: "quota_inv (bangkok_date now) db"
  shows "quota_inv (bangkok_date now) (snd (cleanup_past_quotas now db))"
proof -
  let ?t = "bangkok_date now"
  let ?ids = "cleanup_reservation_ids now db"
  define db1 where "db1 = db\<lparr>reservations := filter (\<lambda>r. res_id r \<notin> set ?ids) (reservations db)\<rparr>"
  let ?owners = "cleanup_owner_keys now db1"
  define db2 where "db2 = db1\<lparr>owner_quotas := filter (\<lambda>e. fst e \<notin> set ?owners) (owner_quotas db1)\<rparr>"
  let ?dates = "cleanup_global_dates now db2"
  define db3 where "db3 = db2\<lparr>global_quotas := filter (\<lambda>e. fst e \<notin> set ?dates) (global_quotas db2)\<rparr>"
  have db3: "snd (cleanup_past_quotas now db) = db3"
    by (simp add: cleanup_past_quotas_def db1_def db2_def db3_def Let_def)
  have tabs: "tables_ok db" using quota_invD(1) [OF inv] .
  then have dist: "distinct (map res_id (reservations db))"
    and hm: "hm_ok (owner_quotas db)" "hm_ok (global_quotas db)" by (simp_all add: tables_ok_def)
  have gone: "terminal_past now r" if "r \<in> set (reservations db)" "res_id r \<in> set ?ids" for r
    using cleanup_ids_terminal [OF dist] that by blast
  have rs: "reservations db3 = filter (\<lambda>r. res_id r \<notin> set ?ids) (reservations db)"
    by (simp add: db1_def db2_def db3_def)
  have same: "count_if P (reservations db3) = count_if P (reservations db)"
    if "\<And>r. terminal_past now r \<Longrightarrow> \<not> P r" for P
    unfolding rs using gone that by (intro count_if_filter_irrelevant) auto
  have ow: "count_if (owner_weight ?t d owner) (reservations db3) \<le> usage_of db3 d owner" for d owner
  proof (cases "(d, owner) \<in> set ?owners")
    case True
    then have "owner_counter_done now db1 (d, owner)" by (rule cleanup_owner_keys_done)
    then have "\<forall>r\<in>set (reservations db3). \<not> owner_weight ?t d owner r"
      by (auto simp: owner_counter_done_def owner_weight_def db1_def rs)
    then have "count_if (owner_weight ?t d owner) (reservations db3) = 0"
      using count_if_pos [of "owner_weight ?t d owner" "reservations db3"] by auto
    then show ?thesis by simp
  next
    case False
    then have "usage_of db3 d owner = usage_of db d owner"
      using hm by (simp add: usage_of_def db1_def db2_def db3_def counter_get_filter_keys)
    moreover have "count_if (owner_weight ?t d owner) (reservations db3)
        = count_if (owner_weight ?t d owner) (reservations db)"
      by (rule same) (auto simp: terminal_past_def owner_weight_def)
    ultimately show ?thesis using quota_invD(2) [OF inv] by simp
  qed
  have gr: "count_if (reserved_weight d) (reservations db3) \<le> global_reserved_of db3 d"
    and gc: "count_if (consumed_weight ?t d) (reservations db3) \<le> global_consumed_of db3 d" for d
  proof -
    have "d \<in> set ?dates \<Longrightarrow> global_counter_done now db2 d" by (rule cleanup_global_dates_done)
    then have "d \<in> set ?dates \<Longrightarrow> \<forall>r\<in>set (reservations db3). \<not> reserved_weight d r \<and> \<not> consumed_weight ?t d r"
      by (auto simp: global_counter_done_def reserved_weight_def consumed_weight_def db1_def db2_def rs)
    then have zero: "d \<in> set ?dates \<Longrightarrow> count_if (reserved_weight d) (reservations db3) = 0
        \<and> count_if (consumed_weight ?t d) (reservations db3) = 0"
      using count_if_pos [of "reserved_weight d" "reservations db3"]
        count_if_pos [of "consumed_weight ?t d" "reservations db3"] by auto
    have "d \<notin> set ?dates \<Longrightarrow> hm_get (global_quotas db3) d = hm_get (global_quotas db) d"
      using hm by (simp add: db1_def db2_def db3_def hm_get_filter_keys)
    then have keep: "d \<notin> set ?dates \<Longrightarrow> global_reserved_of db3 d = global_reserved_of db d
        \<and> global_consumed_of db3 d = global_consumed_of db d"
      by (simp add: global_reserved_of_def global_consumed_of_def)
    have "count_if (reserved_weight d) (reservations db3) = count_if (reserved_weight d) (reservations db)"
      and "count_if (consumed_weight ?t d) (reservations db3) = count_if (consumed_weight ?t d) (reservations db)"
      by (rule same, auto simp: terminal_past_def reserved_weight_def consumed_weight_def)+
    with zero keep quota_invD(3,4) [OF inv, of d]
    show "count_if (reserved_weight d) (reservations db3) \<le> global_reserved_of db3 d"
      and "count_if (consumed_weight ?t d) (reservations db3) \<le> global_consumed_of db3 d"
      by (cases "d \<in> set ?dates"; simp)+
  qed
  have "tables_ok db3"
    using tabs by (auto simp: tables_ok_def db1_def db2_def db3_def distinct_map_filter)
  with ow gr gc show ?thesis by (simp add: db3 quota_inv_def)
qed

section \<open>Admission\<close>

lemma admit_owner_ok:
  assumes "admit_owner d ow limit db = Some db'" and "hm_ok (owner_quotas db)"
  shows "reservations db' = reservations db" "global_quotas db' = global_quotas db"
    "hm_ok (owner_quotas db')"
    "usage_of db' e o' = usage_of db e o' + of_bool (e = d \<and> o' = ow)"
  using assms
  by (auto simp: admit_owner_def usage_of_def counter_get_def split: option.splits if_splits)

lemma admit_global_ok:
  assumes "admit_global d limit db = Some db'" and "hm_ok (global_quotas db)"
  shows "reservations db' = reservations db" "owner_quotas db' = owner_quotas db"
    "hm_ok (global_quotas db')"
    "global_reserved_of db' e = global_reserved_of db e + of_bool (e = d)"
    "global_consumed_of db' e = global_consumed_of db e"
  using assms
  by (auto simp: admit_global_def global_reserved_of_def global_consumed_of_def
      split: option.splits if_splits prod.splits)

lemma find_reservation_None: "find_reservation i db = None \<longleftrightarrow> i \<notin> res_id ` set (reservations db)"
  by (auto simp: find_reservation_def find_None_iff)

lemma admitted_inv:
  assumes inv: "quota_inv t db" and ow: "admit_owner d owner limit db = Some db1"
    and gl: "admit_global d glimit db1 = Some db2" and fresh: "find_reservation i db2 = None"
  shows "quota_inv t (db2\<lparr>reservations := new_reservation now i d session chat owner # reservations db2\<rparr>)"
proof -
  let ?new = "new_reservation now i d session chat owner"
  have tabs: "tables_ok db" using quota_invD(1) [OF inv] .
  then have hm: "hm_ok (owner_quotas db)" "hm_ok (global_quotas db)" by (simp_all add: tables_ok_def)
  note a = admit_owner_ok [OF ow hm(1)]
  have hm1: "hm_ok (global_quotas db1)" using hm a by simp
  note g = admit_global_ok [OF gl hm1]
  have rs: "reservations db2 = reservations db" using a g by simp
  have us: "usage_of db2 e o' = usage_of db e o' + of_bool (e = d \<and> o' = owner)" for e o'
    using a(4) [of e o'] g(2) by (simp add: usage_of_def)
  have gr: "global_reserved_of db2 e = global_reserved_of db e + of_bool (e = d)"
    and gc: "global_consumed_of db2 e = global_consumed_of db e" for e
    using a(2) g(4,5) [of e] by (simp_all add: global_reserved_of_def global_consumed_of_def)
  have "tables_ok (db2\<lparr>reservations := ?new # reservations db2\<rparr>)"
    using tabs a g fresh
    by (auto simp: tables_ok_def find_reservation_None new_reservation_def row_ok_def)
  moreover have "count_if (owner_weight t e o') (?new # reservations db2) \<le> usage_of db2 e o'" for e o'
    using quota_invD(2) [OF inv, of e o'] us [of e o']
    by (auto simp: rs owner_weight_def new_reservation_def)
  moreover have "count_if (reserved_weight e) (?new # reservations db2) \<le> global_reserved_of db2 e" for e
    using quota_invD(3) [OF inv, of e] gr [of e]
    by (auto simp: rs reserved_weight_def new_reservation_def)
  moreover have "count_if (consumed_weight t e) (?new # reservations db2) \<le> global_consumed_of db2 e" for e
    using quota_invD(4) [OF inv, of e] gc [of e]
    by (auto simp: rs consumed_weight_def new_reservation_def)
  ultimately show ?thesis by (simp add: quota_inv_def)
qed

lemma reserve_ok:
  assumes inv: "quota_inv (bangkok_date now) db"
  shows "case reserve_chat_generation_quota now i session chat rl gl global stale db of
      Inl e \<Rightarrow> e = UniqueViolation \<or> e = Protocol ''chat quota stale interval is too large''
    | Inr (adm, db') \<Rightarrow> quota_inv (bangkok_date now) db'"
proof (cases "active_session now session db")
  case None
  with inv show ?thesis by (simp add: reserve_chat_generation_quota_def)
next
  case (Some s)
  show ?thesis
  proof (cases "2 ^ 63 \<le> stale")
    case True
    with Some show ?thesis
      by (simp add: reserve_chat_generation_quota_def recover_stale_quotas_def)
  next
    case False
    obtain db1 where db1: "recover_stale_loop now stale db = Inr db1" "quota_inv (bangkok_date now) db1"
      using recover_loop_ok [OF inv, of now stale] by blast
    have db2: "quota_inv (bangkok_date now) (snd (cleanup_past_quotas now db1))"
      using db1(2) by (rule cleanup_ok)
    show ?thesis
      using Some False db1 inv admitted_inv [OF db2]
      by (auto simp: reserve_chat_generation_quota_def recover_stale_quotas_def Let_def
          split: option.split prod.split)
  qed
qed

section \<open>Provider start and commit\<close>

lemma mark_ok:
  assumes inv: "quota_inv t db"
  shows "\<exists>b db'. mark_provider_started now i db = Inr (b, db') \<and> quota_inv t db'"
proof (cases "find_reservation i db")
  case None
  with inv show ?thesis by (intro exI [of _ False]) (simp add: mark_provider_started_def)
next
  case (Some r)
  have tabs: "tables_ok db" using quota_invD(1) [OF inv] .
  then have dist: "distinct (map res_id (reservations db))" by (simp add: tables_ok_def)
  obtain us vs where rs: "reservations db = us @ r # vs" and i: "res_id r = i"
    and upd: "\<And>f db'. reservations db' = reservations db \<Longrightarrow>
       reservations (update_reservation i f db') = us @ f r # vs"
    using find_reservation_split [OF dist Some] by blast
  show ?thesis
  proof (cases "res_global_state r = GlobalReserved")
    case False
    with Some inv show ?thesis
      by (intro exI [of _ "res_global_state r = GlobalConsumed"]) (auto simp: mark_provider_started_def)
  next
    case True
    have "0 < count_if (reserved_weight (res_date r)) (reservations db)"
      using True by (simp add: rs reserved_weight_def)
    then have "0 < global_reserved_of db (res_date r)"
      using quota_invD(3) [OF inv, of "res_date r"] by simp
    then obtain res con where row: "hm_get (global_quotas db) (res_date r) = Some (res, con)" "0 < res"
      by (auto simp: global_reserved_of_def split: option.splits prod.splits)
    let ?db = "db\<lparr>global_quotas := hm_insert (res_date r) (res - 1, con + 1) (global_quotas db)\<rparr>"
    let ?f = "\<lambda>r. if res_global_state r = GlobalReserved
       then r\<lparr>res_global_state := GlobalConsumed,
              res_provider_started_at := Some now, res_updated_at := now\<rparr> else r"
    have "quota_inv t (update_reservation i ?f ?db)"
    proof (rule quota_inv_replace [OF inv rs upd])
      show "row_ok (?f r)"
        using True tabs by (auto simp: row_ok_def tables_ok_def rs)
      show "of_bool (owner_weight t d owner (?f r)) + usage_of db d owner
        \<le> of_bool (owner_weight t d owner r) + usage_of (update_reservation i ?f ?db) d owner" for d owner
        using True by (simp add: owner_weight_def usage_of_def)
      show "of_bool (reserved_weight d (?f r)) + global_reserved_of db d
        \<le> of_bool (reserved_weight d r) + global_reserved_of (update_reservation i ?f ?db) d" for d
        using True row by (auto simp: reserved_weight_def global_reserved_of_def)
      show "of_bool (consumed_weight t d (?f r)) + global_consumed_of db d
        \<le> of_bool (consumed_weight t d r) + global_consumed_of (update_reservation i ?f ?db) d" for d
        using True row by (auto simp: consumed_weight_def global_consumed_of_def)
    qed (use tabs True in \<open>auto simp: tables_ok_def\<close>)
    with Some True row show ?thesis
      by (intro exI [of _ True]) (simp add: mark_provider_started_def)
  qed
qed

lemma commit_ok:
  assumes inv: "quota_inv t db" and run: "commit_reservation now i db = Inr db'"
  shows "quota_inv t db'"
proof -
  let ?f = "\<lambda>r. if res_owner_state r = OwnerReserved \<and> res_global_state r = GlobalConsumed
     then r\<lparr>res_owner_state := OwnerCommitted, res_committed_at := Some now, res_updated_at := now\<rparr> else r"
  have tabs: "tables_ok db" using quota_invD(1) [OF inv] .
  obtain r where r: "r \<in> set (reservations db)" "res_id r = i" "res_owner_state r = OwnerReserved"
    "res_global_state r = GlobalConsumed" and db': "db' = update_reservation i ?f db"
    using run by (auto simp: commit_reservation_def split: if_splits)
  have find: "find_reservation i db = Some r"
    using r tabs find_reservation_in [of db r] by (simp add: tables_ok_def)
  obtain us vs where rs: "reservations db = us @ r # vs"
    and upd: "\<And>f db'. reservations db' = reservations db \<Longrightarrow>
       reservations (update_reservation i f db') = us @ f r # vs"
    using find_reservation_split [OF _ find] tabs by (auto simp: tables_ok_def)
  show ?thesis
    unfolding db'
  proof (rule quota_inv_replace [OF inv rs upd])
    show "row_ok (?f r)" using r tabs by (auto simp: row_ok_def tables_ok_def)
  qed (use r tabs in \<open>auto simp: tables_ok_def owner_weight_def reserved_weight_def consumed_weight_def\<close>)
qed

end
