(* ===== verification/Daily_Quota_Machine.thy ===== *)
theory Daily_Quota_Machine
  imports Daily_Quota_Inv
begin

text \<open>
  The transfer of a guest's usage to an account, the deletion of an account, and the quota tables
  as a machine: any sequence of the transactions of \<open>Daily_Quota\<close>, with time between them. The
  invariant of \<open>Daily_Quota_Inv\<close> and the two limits hold in every state the machine reaches.
\<close>

section \<open>Transfer\<close>

lemma source_counts_foldl:
  fixes target :: quota_owner_key
  defines "f \<equiv> \<lambda>m r. if res_owner r \<noteq> target then counter_incr (res_owner r) m else m"
  shows "counter_get (foldl f m rows) k =
      counter_get m k + (if k = target then 0 else count_if (\<lambda>r. res_owner r = k) rows)"
    and "hm_ok m \<Longrightarrow> hm_ok (foldl f m rows)"
    and "hm_ok m \<Longrightarrow> sum_list (map snd (foldl f m rows)) =
      sum_list (map snd m) + count_if (\<lambda>r. res_owner r \<noteq> target) rows"
    and "\<forall>e\<in>set m. 0 < snd e \<Longrightarrow> hm_ok m \<Longrightarrow> \<forall>e\<in>set (foldl f m rows). 0 < snd e"
proof -
  show "counter_get (foldl f m rows) k =
      counter_get m k + (if k = target then 0 else count_if (\<lambda>r. res_owner r = k) rows)"
    by (induction rows arbitrary: m) (auto simp: f_def)
  show "hm_ok m \<Longrightarrow> hm_ok (foldl f m rows)"
    by (induction rows arbitrary: m) (auto simp: f_def)
  show "hm_ok m \<Longrightarrow> sum_list (map snd (foldl f m rows)) =
      sum_list (map snd m) + count_if (\<lambda>r. res_owner r \<noteq> target) rows"
    by (induction rows arbitrary: m) (auto simp: f_def sum_counter_incr)
  show "\<forall>e\<in>set m. 0 < snd e \<Longrightarrow> hm_ok m \<Longrightarrow> \<forall>e\<in>set (foldl f m rows). 0 < snd e"
  proof (induction rows arbitrary: m)
    case (Cons r rows)
    have "\<forall>e\<in>set (f m r). 0 < snd e" "hm_ok (f m r)"
      using Cons.prems counter_incr_positive [of m "res_owner r"] by (simp_all add: f_def)
    then show ?case unfolding foldl.simps by (rule Cons.IH)
  qed simp
qed

lemma source_counts_facts:
  "counter_get (source_counts target rows) k =
     (if k = target then 0 else count_if (\<lambda>r. res_owner r = k) rows)"
  "hm_ok (source_counts target rows)"
  "sum_list (map snd (source_counts target rows)) = count_if (\<lambda>r. res_owner r \<noteq> target) rows"
  "\<forall>e\<in>set (source_counts target rows). 0 < snd e"
  unfolding source_counts_def
  by (simp add: source_counts_foldl(1), simp add: source_counts_foldl(2),
      simp add: source_counts_foldl(3), rule source_counts_foldl(4), simp_all)

lemma decrement_sources_ok:
  assumes "hm_ok (owner_quotas db)" and "distinct (map fst ss)"
    and "\<forall>(k, n)\<in>set ss. 0 < n \<and> n \<le> usage_of db d k"
  shows "\<exists>db'. decrement_sources d ss db = Inr db' \<and> reservations db' = reservations db
    \<and> global_quotas db' = global_quotas db \<and> sessions db' = sessions db \<and> hm_ok (owner_quotas db')
    \<and> (\<forall>e k. usage_of db' e k = usage_of db e k - (if e = d then counter_get ss k else 0))"
  using assms
proof (induction ss arbitrary: db)
  case Nil
  then show ?case by (auto simp: counter_get_def)
next
  case (Cons e ss)
  obtain k n where e: "e = (k, n)" by (cases e)
  with Cons.prems obtain db1 where db1: "decrement_owner_quota d k n db = Inr db1"
    "reservations db1 = reservations db" "global_quotas db1 = global_quotas db"
    "sessions db1 = sessions db" "hm_ok (owner_quotas db1)"
    and us: "\<And>e' o'. usage_of db1 e' o' = usage_of db e' o' - (if e' = d \<and> o' = k then n else 0)"
    using decrement_owner_ok [of db n d k] by auto
  have k: "k \<notin> fst ` set ss" using Cons.prems(2) e by simp
  then have none: "counter_get ss k = 0"
    by (auto simp: counter_get_def hm_get_None [THEN iffD2])
  have "\<forall>(k', n')\<in>set ss. 0 < n' \<and> n' \<le> usage_of db1 d k'"
    using Cons.prems(3) us k e by (force simp: image_iff)
  with Cons.IH [OF db1(5)] Cons.prems(2) obtain db' where db': "decrement_sources d ss db1 = Inr db'"
    "reservations db' = reservations db1" "global_quotas db' = global_quotas db1"
    "sessions db' = sessions db1" "hm_ok (owner_quotas db')"
    "\<forall>e k. usage_of db' e k = usage_of db1 e k - (if e = d then counter_get ss k else 0)"
    by auto
  have "counter_get (e # ss) k' = (if k' = k then n else counter_get ss k')" for k'
    by (simp add: counter_get_def hm_get_def e)
  with e db1 db' us none show ?case by (intro exI [of _ db']) auto
qed

text \<open>The rows a transfer moves, for one source or for all.\<close>

definition moved_from :: "timestamp \<Rightarrow> uuid \<Rightarrow> uuid \<Rightarrow> quota_owner_key \<Rightarrow> quota_db \<Rightarrow> nat" where
  "moved_from now session user k db =
     (if k = account_owner user then 0
      else count_if (\<lambda>r. transferable now session r \<and> res_owner r = k) (reservations db))"

definition moved_total :: "timestamp \<Rightarrow> uuid \<Rightarrow> uuid \<Rightarrow> quota_db \<Rightarrow> nat" where
  "moved_total now session user db =
     count_if (\<lambda>r. transferable now session r \<and> res_owner r \<noteq> account_owner user) (reservations db)"

lemma count_if_filter: "count_if P (filter Q xs) = count_if (\<lambda>x. Q x \<and> P x) xs"
  by (induction xs) auto

lemma count_if_map: "count_if P (map f xs) = count_if (\<lambda>x. P (f x)) xs"
  by (induction xs) auto

lemma count_if_split: "count_if P xs = count_if (\<lambda>x. P x \<and> Q x) xs + count_if (\<lambda>x. P x \<and> \<not> Q x) xs"
  by (induction xs) auto

lemma count_if_disjoint:
  "(\<And>x. x \<in> set xs \<Longrightarrow> \<not> (P x \<and> Q x)) \<Longrightarrow>
    count_if (\<lambda>x. P x \<or> Q x) xs = count_if P xs + count_if Q xs"
  by (induction xs) auto

text \<open>What a transfer does: the row owners are rewritten and each counter moves by its rows.\<close>

lemma transfer_effect:
  assumes inv: "quota_inv (bangkok_date now) db"
  shows "\<exists>db'. transfer_daily_quota now session user db = Inr db'
    \<and> sessions db' = sessions db \<and> global_quotas db' = global_quotas db \<and> hm_ok (owner_quotas db')
    \<and> reservations db' = map (\<lambda>r. if transferable now session r \<and> res_owner r \<noteq> account_owner user
         then r\<lparr>res_owner := account_owner user, res_updated_at := now\<rparr> else r) (reservations db)
    \<and> (\<forall>e k. usage_of db' e k =
         (if e \<noteq> bangkok_date now then usage_of db e k
          else if k = account_owner user then usage_of db e k + moved_total now session user db
          else usage_of db e k - moved_from now session user k db))
    \<and> (\<forall>k. moved_from now session user k db \<le> usage_of db (bangkok_date now) k)"
proof -
  let ?t = "bangkok_date now" and ?u = "account_owner user"
  let ?rows = "filter (transferable now session) (reservations db)"
  let ?ss = "source_counts ?u ?rows"
  let ?n = "sum_list (map snd ?ss)"
  let ?f = "\<lambda>r. if transferable now session r \<and> res_owner r \<noteq> ?u
    then r\<lparr>res_owner := ?u, res_updated_at := now\<rparr> else r"
  have hm: "hm_ok (owner_quotas db)" using quota_invD(1) [OF inv] by (simp add: tables_ok_def)
  have ss: "counter_get ?ss k = moved_from now session user k db" for k
    by (simp add: source_counts_facts moved_from_def count_if_filter)
  have n: "?n = moved_total now session user db"
    by (simp add: source_counts_facts moved_total_def count_if_filter)
  have le: "moved_from now session user k db \<le> usage_of db ?t k" for k
  proof -
    have "moved_from now session user k db \<le> count_if (owner_weight ?t ?t k) (reservations db)"
      unfolding moved_from_def
      by (auto intro!: count_if_mono simp: transferable_def owner_weight_def)
    with quota_invD(2) [OF inv, of ?t k] show ?thesis by simp
  qed
  show ?thesis
  proof (cases "?n = 0")
    case True
    have none: "\<not> (transferable now session r \<and> res_owner r \<noteq> ?u)" if "r \<in> set (reservations db)" for r
      using True that unfolding n moved_total_def
      using count_if_pos [of "\<lambda>r. transferable now session r \<and> res_owner r \<noteq> ?u" "reservations db"]
      by auto
    then have "map ?f (reservations db) = reservations db" by (intro map_idI) auto
    moreover have "moved_from now session user k db = 0" for k
    proof -
      have "moved_from now session user k db \<le> moved_total now session user db"
        by (auto simp: moved_from_def moved_total_def intro!: count_if_mono)
      with True n show ?thesis by simp
    qed
    moreover have "transfer_daily_quota now session user db = Inr db"
      using True by (simp add: transfer_daily_quota_def Let_def)
    ultimately show ?thesis using True hm n by (intro exI [of _ db]) simp
  next
    case False
    have "\<forall>(k, m)\<in>set ?ss. 0 < m \<and> m \<le> usage_of db ?t k"
    proof safe
      fix k m assume km: "(k, m) \<in> set ?ss"
      with source_counts_facts(4) [of ?u ?rows] show "0 < m" by auto
      have "hm_get ?ss k = Some m" using km source_counts_facts(2) by (simp add: hm_get_eq_in_set)
      then show "m \<le> usage_of db ?t k" using ss [of k] le [of k] by (simp add: counter_get_def)
    qed
    with decrement_sources_ok [OF hm, of ?ss ?t] source_counts_facts(2) [of ?u ?rows]
    obtain db1 where db1: "decrement_sources ?t ?ss db = Inr db1" "reservations db1 = reservations db"
      "global_quotas db1 = global_quotas db" "sessions db1 = sessions db" "hm_ok (owner_quotas db1)"
      and us: "\<And>e k. usage_of db1 e k = usage_of db e k - (if e = ?t then counter_get ?ss k else 0)"
      by (auto simp: hm_ok_def)
    have rows: "?rows \<noteq> []" using False by (auto simp: source_counts_def)
    let ?db = "db1\<lparr>owner_quotas := hm_insert (?t, ?u)
        ((case hm_get (owner_quotas db1) (?t, ?u) of None \<Rightarrow> 0 | Some c \<Rightarrow> c) + ?n) (owner_quotas db1),
      reservations := map ?f (reservations db1)\<rparr>"
    have "transfer_daily_quota now session user db = Inr ?db"
      unfolding transfer_daily_quota_def Let_def
      using False rows db1(1) by (simp only: if_False sum.case simp_thms)
    moreover have "usage_of ?db e k = (if e = ?t \<and> k = ?u then usage_of db1 ?t ?u + ?n else usage_of db1 e k)" for e k
      by (simp add: usage_of_def counter_get_def)
    ultimately show ?thesis
      using db1 us le ss n by (intro exI [of _ ?db]) (simp add: moved_from_def)
  qed
qed

lemma transfer_ok:
  assumes inv: "quota_inv (bangkok_date now) db"
    and run: "transfer_daily_quota now session user db = Inr db'"
  shows "quota_inv (bangkok_date now) db'"
proof -
  let ?t = "bangkok_date now" and ?u = "account_owner user" and ?rs = "reservations db"
  let ?P = "\<lambda>r. transferable now session r \<and> res_owner r \<noteq> ?u"
  let ?f = "\<lambda>r. if ?P r then r\<lparr>res_owner := ?u, res_updated_at := now\<rparr> else r"
  have eff: "global_quotas db' = global_quotas db" "hm_ok (owner_quotas db')"
      "reservations db' = map ?f ?rs"
    and us: "\<And>e k. usage_of db' e k =
         (if e \<noteq> ?t then usage_of db e k
          else if k = ?u then usage_of db e k + moved_total now session user db
          else usage_of db e k - moved_from now session user k db)"
    using transfer_effect [OF inv, of session user] run by auto
  have tabs: "tables_ok db" using quota_invD(1) [OF inv] .
  have ow: "count_if (owner_weight ?t e k) (map ?f ?rs) \<le> usage_of db' e k" for e k
  proof -
    have old: "count_if (owner_weight ?t e k) ?rs \<le> usage_of db e k" by (rule quota_invD(2) [OF inv])
    consider "e \<noteq> ?t" | "e = ?t" "k = ?u" | "e = ?t" "k \<noteq> ?u" by blast
    then show ?thesis
    proof cases
      case 1
      then have "count_if (\<lambda>r. owner_weight ?t e k (?f r)) ?rs = count_if (owner_weight ?t e k) ?rs"
        by (intro count_if_cong) (auto simp: owner_weight_def transferable_def)
      with 1 old us [of e k] show ?thesis by (simp add: count_if_map)
    next
      case 2
      then have "count_if (\<lambda>r. owner_weight ?t e k (?f r)) ?rs
          = count_if (\<lambda>r. owner_weight ?t e k r \<or> ?P r) ?rs"
        by (intro count_if_cong) (auto simp: owner_weight_def transferable_def)
      also have "\<dots> = count_if (owner_weight ?t e k) ?rs + moved_total now session user db"
        unfolding moved_total_def using 2 by (intro count_if_disjoint) (auto simp: owner_weight_def)
      finally show ?thesis using 2 old us [of e k] by (simp add: count_if_map)
    next
      case 3
      have "count_if (\<lambda>r. owner_weight ?t e k r \<and> transferable now session r) ?rs
          = moved_from now session user k db"
        unfolding moved_from_def using 3
        by (auto intro!: count_if_cong simp: owner_weight_def transferable_def)
      moreover have "count_if (\<lambda>r. owner_weight ?t e k (?f r)) ?rs
          = count_if (\<lambda>r. owner_weight ?t e k r \<and> \<not> transferable now session r) ?rs"
        using 3 by (intro count_if_cong) (auto simp: owner_weight_def)
      ultimately show ?thesis
        using 3 old us [of e k] count_if_split [of "owner_weight ?t e k" ?rs "transferable now session"]
        by (simp add: count_if_map)
    qed
  qed
  have same: "global_reserved_of db' = global_reserved_of db" "global_consumed_of db' = global_consumed_of db"
    by (simp_all add: fun_eq_iff global_reserved_of_def global_consumed_of_def eff)
  have gr: "count_if (reserved_weight d) (map ?f ?rs) = count_if (reserved_weight d) ?rs"
    and gc: "count_if (consumed_weight ?t d) (map ?f ?rs) = count_if (consumed_weight ?t d) ?rs" for d
    unfolding count_if_map by (auto intro!: count_if_cong simp: reserved_weight_def consumed_weight_def)
  have ids: "map res_id (map ?f ?rs) = map res_id ?rs" unfolding map_map by (rule map_cong) auto
  have "\<forall>r\<in>set (map ?f ?rs). row_ok r"
    using tabs by (auto simp: tables_ok_def row_ok_def)
  moreover have "distinct (map res_id (map ?f ?rs))"
    unfolding ids using tabs by (simp add: tables_ok_def)
  ultimately have "tables_ok db'"
    using tabs eff(2) by (simp only: tables_ok_def eff(1,3) simp_thms)
  with ow gr gc same quota_invD(3,4) [OF inv] show ?thesis
    by (simp add: quota_inv_def eff(3))
qed

section \<open>Account deletion\<close>

lemma map_values_global:
  "hm_get (map (\<lambda>(d, (r, c)). (d, (g d r, c))) m) d = map_option (\<lambda>(r, c). (g d r, c)) (hm_get m d)"
  by (induction m) (auto simp: hm_get_def)

lemma delete_account_ok:
  assumes inv: "quota_inv t db"
  shows "quota_inv t (delete_account_quota now user db)"
proof -
  let ?db = "delete_account_quota now user db" and ?u = "account_owner user" and ?rs = "reservations db"
  let ?mine = "\<lambda>r. res_owner r = ?u"
  let ?rel = "\<lambda>d. count_if (\<lambda>r. ?mine r \<and> res_global_state r = GlobalReserved \<and> res_date r = d) ?rs"
  have tabs: "tables_ok db" using quota_invD(1) [OF inv] .
  then have hm: "hm_ok (owner_quotas db)" by (simp add: tables_ok_def)
  have rs: "reservations ?db = filter (\<lambda>r. \<not> ?mine r) ?rs"
    by (simp add: delete_account_quota_def Let_def)
  have gq: "hm_get (global_quotas ?db) d
      = map_option (\<lambda>(r, c). (r - ?rel d, c)) (hm_get (global_quotas db) d)" for d
    using map_values_global [of "\<lambda>d r. r - ?rel d" "global_quotas db" d]
    by (simp add: delete_account_quota_def Let_def)
  have gr: "global_reserved_of ?db d = global_reserved_of db d - ?rel d"
    and gc: "global_consumed_of ?db d = global_consumed_of db d" for d
    by (auto simp: global_reserved_of_def global_consumed_of_def gq split: option.split)
  have us: "usage_of ?db d k = usage_of db d k" if "k \<noteq> ?u" for d k
    using that hm
    by (auto simp: usage_of_def counter_get_def delete_account_quota_def Let_def hm_get_filter
        split: option.split)
  have ow: "count_if (owner_weight t d k) (reservations ?db) \<le> usage_of ?db d k" for d k
  proof (cases "k = ?u")
    case True
    then have "count_if (owner_weight t d k) (reservations ?db) = count_if (\<lambda>r. False) ?rs"
      unfolding rs count_if_filter by (intro count_if_cong) (auto simp: owner_weight_def)
    then show ?thesis by (simp add: count_if_def)
  next
    case False
    then have "count_if (owner_weight t d k) (reservations ?db) = count_if (owner_weight t d k) ?rs"
      unfolding rs count_if_filter by (intro count_if_cong) (auto simp: owner_weight_def)
    with quota_invD(2) [OF inv, of d k] us [OF False] show ?thesis by simp
  qed
  have "count_if (reserved_weight d) (reservations ?db) + ?rel d = count_if (reserved_weight d) ?rs" for d
  proof -
    have "?rel d = count_if (\<lambda>r. reserved_weight d r \<and> ?mine r) ?rs"
      by (intro count_if_cong) (auto simp: reserved_weight_def)
    moreover have "count_if (reserved_weight d) (reservations ?db)
        = count_if (\<lambda>r. reserved_weight d r \<and> \<not> ?mine r) ?rs"
      unfolding rs count_if_filter by (intro count_if_cong) auto
    ultimately show ?thesis using count_if_split [of "reserved_weight d" ?rs ?mine] by simp
  qed
  note rel = this
  have r: "count_if (reserved_weight d) (reservations ?db) \<le> global_reserved_of ?db d" for d
    using rel [of d] quota_invD(3) [OF inv, of d] unfolding gr by linarith
  have c: "count_if (consumed_weight t d) (reservations ?db) \<le> global_consumed_of ?db d" for d
  proof -
    have "count_if (consumed_weight t d) (reservations ?db) \<le> count_if (consumed_weight t d) ?rs"
      unfolding rs count_if_filter by (rule count_if_mono) simp
    with quota_invD(4) [OF inv, of d] gc show ?thesis by simp
  qed
  have "map fst (global_quotas ?db) = map fst (global_quotas db)"
    unfolding delete_account_quota_def Let_def by (simp add: comp_def case_prod_beta)
  moreover have "hm_ok (owner_quotas ?db)"
    using hm by (simp add: delete_account_quota_def Let_def)
  ultimately have "tables_ok ?db"
    using tabs unfolding tables_ok_def rs hm_ok_def by (simp add: distinct_map_filter)
  with ow r c show ?thesis by (simp add: quota_inv_def)
qed

section \<open>What an operation may add to a counter\<close>

definition day_load :: "quota_db \<Rightarrow> date \<Rightarrow> nat" where
  "day_load db d = global_reserved_of db d + global_consumed_of db d"

definition counters_le :: "quota_db \<Rightarrow> quota_db \<Rightarrow> bool" where
  "counters_le db' db \<longleftrightarrow>
     (\<forall>d k. usage_of db' d k \<le> usage_of db d k) \<and> (\<forall>d. day_load db' d \<le> day_load db d)"

lemma counters_le_refl [simp]: "counters_le db db"
  by (simp add: counters_le_def)

lemma counters_le_trans: "counters_le a b \<Longrightarrow> counters_le b c \<Longrightarrow> counters_le a c"
  unfolding counters_le_def by (meson le_trans)

lemma counters_le_update [simp]:
  "counters_le (update_reservation i f db') db \<longleftrightarrow> counters_le db' db"
  by (simp add: counters_le_def day_load_def)

lemma decrement_owner_le: "decrement_owner_quota d k n db = Inr db' \<Longrightarrow> counters_le db' db"
  by (auto simp: decrement_owner_quota_def counters_le_def day_load_def usage_of_def counter_get_def
      global_reserved_of_def global_consumed_of_def split: option.splits if_splits)

lemma decrement_global_le: "decrement_global_reserved d db = Inr db' \<Longrightarrow> counters_le db' db"
  by (auto simp: decrement_global_reserved_def counters_le_def day_load_def usage_of_def
      global_reserved_of_def global_consumed_of_def split: option.splits if_splits prod.splits)

lemma return_allowance_le: "return_allowance r db = Inr db' \<Longrightarrow> counters_le db' db"
  by (auto simp: return_allowance_def split: sum.splits if_splits
      dest!: decrement_owner_le decrement_global_le elim: counters_le_trans)

lemma release_le: "release_chat_generation_quota now i db = Inr db' \<Longrightarrow> counters_le db' db"
  by (auto simp: release_chat_generation_quota_def split: option.splits sum.splits dest: return_allowance_le)

lemma recover_rows_le: "recover_rows now rows db = Inr db' \<Longrightarrow> counters_le db' db"
proof (induction rows arbitrary: db)
  case (Cons row rows)
  then show ?case
    by (auto simp: recover_row_def split: sum.splits
        dest!: return_allowance_le Cons.IH elim: counters_le_trans)
qed simp

lemma recover_loop_le: "recover_stale_loop now s db = Inr db' \<Longrightarrow> counters_le db' db"
proof (induction now s db rule: recover_stale_loop.induct)
  case (1 now s db)
  then obtain db1 where db1: "recover_rows now (stale_batch now s db) db = Inr db1"
    by (auto simp: recover_stale_loop.simps [of now s db] Let_def split: sum.splits)
  note le = recover_rows_le [OF db1]
  show ?case
  proof (cases "length (stale_batch now s db) < stale_recovery_batch_size")
    case True
    with "1.prems" db1 le show ?thesis by (simp add: recover_stale_loop.simps [of now s db])
  next
    case False
    with "1.prems" db1 have "recover_stale_loop now s db1 = Inr db'"
      by (simp add: recover_stale_loop.simps [of now s db])
    with "1.IH" [OF refl db1] False le show ?thesis by (blast intro: counters_le_trans)
  qed
qed

lemma cleanup_le:
  assumes "tables_ok db"
  shows "counters_le (snd (cleanup_past_quotas now db)) db"
  using assms
  by (auto simp: counters_le_def day_load_def cleanup_past_quotas_def Let_def tables_ok_def usage_of_def
      counter_get_filter_keys global_reserved_of_def global_consumed_of_def hm_get_filter_keys)

lemma delete_account_le:
  assumes "tables_ok db"
  shows "counters_le (delete_account_quota now user db) db"
  using assms
  by (auto simp: counters_le_def day_load_def delete_account_quota_def Let_def tables_ok_def usage_of_def
      counter_get_def hm_get_filter global_reserved_of_def global_consumed_of_def map_values_global
      split: option.split)

lemma mark_load:
  assumes "mark_provider_started now i db = Inr (b, db')"
  shows "counters_le db' db"
  using assms
  by (auto simp: mark_provider_started_def counters_le_def day_load_def usage_of_def
      global_reserved_of_def global_consumed_of_def split: option.splits if_splits prod.splits)

lemma commit_le: "commit_reservation now i db = Inr db' \<Longrightarrow> counters_le db' db"
  by (auto simp: commit_reservation_def split: if_splits)

text \<open>An admission adds one to the owner's count and to the day's load, both below their limits.\<close>

lemma reserve_effect:
  assumes inv: "quota_inv (bangkok_date now) db"
    and run: "reserve_chat_generation_quota now i session chat rl gl global stale db = Inr (adm, db')"
  shows "counters_le db' db \<or>
    (\<exists>s db2 owner limit. adm = Admitted i \<and> active_session now session db = Some s
      \<and> quota_owner now session s rl gl = (owner, limit) \<and> counters_le db2 db
      \<and> (usage_of db2 (bangkok_date now) owner = 0 \<or> usage_of db2 (bangkok_date now) owner < limit)
      \<and> (day_load db2 (bangkok_date now) = 0 \<or> day_load db2 (bangkok_date now) < global)
      \<and> (\<forall>d k. usage_of db' d k = usage_of db2 d k + of_bool (d = bangkok_date now \<and> k = owner))
      \<and> (\<forall>d. day_load db' d = day_load db2 d + of_bool (d = bangkok_date now)))"
proof (cases "db' = db")
  case True
  then show ?thesis by simp
next
  case False
  let ?t = "bangkok_date now"
  obtain s db1 where s: "active_session now session db = Some s"
    and db1: "recover_stale_loop now stale db = Inr db1"
    using run False
    by (auto simp: reserve_chat_generation_quota_def recover_stale_quotas_def
        split: option.splits sum.splits if_splits)
  let ?db2 = "snd (cleanup_past_quotas now db1)"
  obtain owner limit where owner: "quota_owner now session s rl gl = (owner, limit)" by fastforce
  have inv1: "quota_inv ?t db1" using recover_loop_ok [OF inv, of now stale] db1 by auto
  have tabs: "tables_ok ?db2" using quota_invD(1) [OF cleanup_ok [OF inv1]] .
  have le: "counters_le ?db2 db"
    using recover_loop_le [OF db1] cleanup_le [OF quota_invD(1) [OF inv1]] by (blast intro: counters_le_trans)
  obtain db3 db4 where db3: "admit_owner ?t owner limit ?db2 = Some db3"
    and db4: "admit_global ?t global db3 = Some db4" and adm: "adm = Admitted i"
    and db': "db' = db4\<lparr>reservations := new_reservation now i ?t session chat owner # reservations db4\<rparr>"
    using run False s db1 owner
    by (auto simp: reserve_chat_generation_quota_def recover_stale_quotas_def Let_def
        split: option.splits if_splits)
  have hm: "hm_ok (owner_quotas ?db2)" "hm_ok (global_quotas ?db2)" using tabs by (simp_all add: tables_ok_def)
  note a = admit_owner_ok [OF db3 hm(1)]
  have hm3: "hm_ok (global_quotas db3)" using a hm by simp
  note g = admit_global_ok [OF db4 hm3]
  have gq: "global_reserved_of db3 d = global_reserved_of ?db2 d"
    "global_consumed_of db3 d = global_consumed_of ?db2 d" for d
    by (simp_all add: global_reserved_of_def global_consumed_of_def a(2))
  have u: "usage_of ?db2 ?t owner = 0 \<or> usage_of ?db2 ?t owner < limit"
    using db3 by (auto simp: admit_owner_def usage_of_def counter_get_def split: option.splits if_splits)
  have l: "day_load ?db2 ?t = 0 \<or> day_load ?db2 ?t < global"
    using db4 a(2) by (auto simp: admit_global_def day_load_def global_reserved_of_def
        global_consumed_of_def split: option.splits if_splits prod.splits)
  have us: "usage_of db' d k = usage_of ?db2 d k + of_bool (d = ?t \<and> k = owner)" for d k
    using a(4) [of d k] g(2) by (simp add: db' usage_of_def)
  have ld: "day_load db' d = day_load ?db2 d + of_bool (d = ?t)" for d
    using g(4,5) [of d] gq [of d] by (simp add: db' day_load_def)
  from s owner adm le u l us ld show ?thesis by blast
qed

end
