(* ===== verification/Daily_Quota_Props.thy ===== *)
theory Daily_Quota_Props
  imports Daily_Quota_Machine
begin

text \<open>
  The daily quota as a machine over its transactions, with time passing between them, and what
  holds in every state it reaches. The limits are positive, which the configuration checks.
\<close>

section \<open>The machine\<close>

record quota_limits =
  registered_limit :: nat
  guest_limit :: nat
  global_limit :: nat
  stale_after :: nat

datatype quota_event =
    QReserve uuid uuid uuid
  | QMark uuid
  | QRelease uuid
  | QCommit uuid
  | QTransfer uuid uuid
  | QDeleteAccount uuid
  | QCleanup
  | QSessions "(uuid, session_row) hash_map"

record quota_machine =
  qm_now :: timestamp
  qm_db :: quota_db

fun quota_apply :: "quota_limits \<Rightarrow> timestamp \<Rightarrow> quota_event \<Rightarrow> quota_db \<Rightarrow> quota_db" where
  "quota_apply l now (QReserve i session chat) db =
     (case reserve_chat_generation_quota now i session chat (registered_limit l) (guest_limit l)
         (global_limit l) (stale_after l) db of Inl _ \<Rightarrow> db | Inr (_, db') \<Rightarrow> db')"
| "quota_apply l now (QMark i) db =
     (case mark_provider_started now i db of Inl _ \<Rightarrow> db | Inr (_, db') \<Rightarrow> db')"
| "quota_apply l now (QRelease i) db =
     (case release_chat_generation_quota now i db of Inl _ \<Rightarrow> db | Inr db' \<Rightarrow> db')"
| "quota_apply l now (QCommit i) db =
     (case commit_reservation now i db of Inl _ \<Rightarrow> db | Inr db' \<Rightarrow> db')"
| "quota_apply l now (QTransfer session user) db =
     (case transfer_daily_quota now session user db of Inl _ \<Rightarrow> db | Inr db' \<Rightarrow> db')"
| "quota_apply l now (QDeleteAccount user) db = delete_account_quota now user db"
| "quota_apply l now QCleanup db = snd (cleanup_past_quotas now db)"
| "quota_apply l now (QSessions ss) db = db\<lparr>sessions := ss\<rparr>"

definition quota_step :: "quota_limits \<Rightarrow> quota_machine \<Rightarrow> nat \<times> quota_event \<Rightarrow> quota_machine" where
  "quota_step l m e =
     (let now = qm_now m + fst e
      in \<lparr>qm_now = now, qm_db = quota_apply l now (snd e) (qm_db m)\<rparr>)"

definition quota_start :: "timestamp \<Rightarrow> quota_machine" where
  "quota_start now = \<lparr>qm_now = now,
     qm_db = \<lparr>sessions = [], owner_quotas = [], global_quotas = [], reservations = []\<rparr>\<rparr>"

definition quota_run :: "quota_limits \<Rightarrow> timestamp \<Rightarrow> (nat \<times> quota_event) list \<Rightarrow> quota_machine" where
  "quota_run l now es = foldl (quota_step l) (quota_start now) es"

definition limits_ok :: "quota_limits \<Rightarrow> bool" where
  "limits_ok l \<longleftrightarrow> 0 < registered_limit l \<and> 0 < guest_limit l \<and> 0 < global_limit l"

definition quota_caps :: "quota_limits \<Rightarrow> quota_db \<Rightarrow> bool" where
  "quota_caps l db \<longleftrightarrow> (\<forall>d. day_load db d \<le> global_limit l) \<and>
     (\<forall>d k. owner_kind k = GuestOwner \<longrightarrow> usage_of db d k \<le> guest_limit l)"

definition account_caps :: "quota_limits \<Rightarrow> quota_db \<Rightarrow> bool" where
  "account_caps l db \<longleftrightarrow>
     (\<forall>d k. owner_kind k = AccountOwner \<longrightarrow> usage_of db d k \<le> registered_limit l)"

lemma quota_caps_le: "counters_le db' db \<Longrightarrow> quota_caps l db \<Longrightarrow> quota_caps l db'"
  unfolding counters_le_def quota_caps_def by (meson le_trans)

lemma account_caps_le: "counters_le db' db \<Longrightarrow> account_caps l db \<Longrightarrow> account_caps l db'"
  unfolding counters_le_def account_caps_def by (meson le_trans)

lemma quota_owner_limit:
  "quota_owner now session s rl gl = (k, limit) \<Longrightarrow>
    (if owner_kind k = GuestOwner then limit = gl else owner_kind k = AccountOwner \<and> limit = rl)"
  by (auto simp: quota_owner_def split: if_splits option.splits)

lemma reserve_caps:
  assumes "quota_inv (bangkok_date now) db" and "limits_ok l"
    and "reserve_chat_generation_quota now i session chat (registered_limit l) (guest_limit l)
         (global_limit l) stale db = Inr (adm, db')"
  shows "quota_caps l db \<Longrightarrow> quota_caps l db'" and "account_caps l db \<Longrightarrow> account_caps l db'"
proof -
  from reserve_effect [OF assms(1,3)] consider "counters_le db' db"
    | s db2 owner limit where
      "quota_owner now session s (registered_limit l) (guest_limit l) = (owner, limit)"
      "counters_le db2 db"
      "usage_of db2 (bangkok_date now) owner = 0 \<or> usage_of db2 (bangkok_date now) owner < limit"
      "day_load db2 (bangkok_date now) = 0 \<or> day_load db2 (bangkok_date now) < global_limit l"
      "\<forall>d k. usage_of db' d k = usage_of db2 d k + of_bool (d = bangkok_date now \<and> k = owner)"
      "\<forall>d. day_load db' d = day_load db2 d + of_bool (d = bangkok_date now)"
    by blast
  then have "(quota_caps l db \<longrightarrow> quota_caps l db') \<and> (account_caps l db \<longrightarrow> account_caps l db')"
  proof cases
    case 1
    then show ?thesis by (blast intro: quota_caps_le account_caps_le)
  next
    case 2
    note lim = quota_owner_limit [OF 2(1)]
    have "quota_caps l db2 \<Longrightarrow> quota_caps l db'"
      using 2(3-6) lim assms(2) by (auto simp: quota_caps_def limits_ok_def of_bool_def split: if_splits)
    moreover have "account_caps l db2 \<Longrightarrow> account_caps l db'"
      using 2(3,5) lim assms(2) by (auto simp: account_caps_def limits_ok_def of_bool_def split: if_splits)
    ultimately show ?thesis using quota_caps_le [OF 2(2)] account_caps_le [OF 2(2)] by blast
  qed
  then show "quota_caps l db \<Longrightarrow> quota_caps l db'" and "account_caps l db \<Longrightarrow> account_caps l db'"
    by blast+
qed

lemma transfer_caps:
  assumes "quota_inv (bangkok_date now) db" and "transfer_daily_quota now session user db = Inr db'"
    and "quota_caps l db"
  shows "quota_caps l db'"
proof -
  have gq: "global_quotas db' = global_quotas db"
    and us: "\<And>e k. owner_kind k = GuestOwner \<Longrightarrow> usage_of db' e k \<le> usage_of db e k"
    using transfer_effect [OF assms(1), of session user] assms(2) by (auto simp: account_owner_def)
  have "day_load db' d = day_load db d" for d
    by (simp add: day_load_def global_reserved_of_def global_consumed_of_def gq)
  with assms(3) us show ?thesis unfolding quota_caps_def by (metis le_trans)
qed

section \<open>Every transaction keeps the invariant and the limits\<close>

definition quota_machine_inv :: "quota_limits \<Rightarrow> quota_machine \<Rightarrow> bool" where
  "quota_machine_inv l m \<longleftrightarrow>
     limits_ok l \<and> quota_inv (bangkok_date (qm_now m)) (qm_db m) \<and> quota_caps l (qm_db m)"

lemma quota_inv_sessions [simp]: "quota_inv t (db\<lparr>sessions := ss\<rparr>) \<longleftrightarrow> quota_inv t db"
  by (simp add: quota_inv_def tables_ok_def usage_of_def global_reserved_of_def global_consumed_of_def)

lemma counters_le_sessions [simp]: "counters_le (db\<lparr>sessions := ss\<rparr>) db"
  by (simp add: counters_le_def day_load_def usage_of_def global_reserved_of_def global_consumed_of_def)

lemma quota_apply_inv:
  assumes "quota_inv (bangkok_date now) db"
  shows "quota_inv (bangkok_date now) (quota_apply l now e db)"
proof (cases e)
  case (QReserve i session chat)
  then show ?thesis
    using assms reserve_ok [OF assms, of i session chat "registered_limit l" "guest_limit l"
        "global_limit l" "stale_after l"]
    by (auto split: sum.splits)
next
  case (QMark i)
  then show ?thesis using mark_ok [OF assms, of now i] by auto
next
  case (QRelease i)
  then show ?thesis using release_ok [OF assms, of now i] by auto
next
  case (QCommit i)
  then show ?thesis using assms commit_ok [OF assms, of now i] by (auto split: sum.split)
next
  case (QTransfer s u)
  then show ?thesis using assms transfer_ok [OF assms, of s u] by (auto split: sum.split)
qed (use assms in \<open>simp_all add: delete_account_ok cleanup_ok\<close>)

lemma quota_apply_counters:
  assumes inv: "quota_inv (bangkok_date now) db" and "\<nexists>i s c. e = QReserve i s c" "\<nexists>s u. e = QTransfer s u"
  shows "counters_le (quota_apply l now e db) db"
  using assms quota_invD(1) [OF inv]
  by (cases e) (auto split: sum.split dest: release_le mark_load commit_le intro: cleanup_le delete_account_le)

lemma quota_apply_caps:
  assumes "quota_inv (bangkok_date now) db" and "limits_ok l" and "quota_caps l db"
  shows "quota_caps l (quota_apply l now e db)"
proof -
  consider i s c where "e = QReserve i s c" | s u where "e = QTransfer s u"
    | "\<nexists>i s c. e = QReserve i s c" "\<nexists>s u. e = QTransfer s u" by blast
  then show ?thesis
  proof cases
    case 1
    with assms show ?thesis by (auto split: sum.split dest: reserve_caps(1))
  next
    case 2
    with assms show ?thesis by (auto split: sum.split dest: transfer_caps)
  next
    case 3
    with assms show ?thesis using quota_caps_le quota_apply_counters by blast
  qed
qed

lemma bangkok_date_mono: "now \<le> now' \<Longrightarrow> bangkok_date now \<le> bangkok_date now'"
  by (simp add: bangkok_date_def div_le_mono)

lemma quota_step_inv:
  assumes "quota_machine_inv l m"
  shows "quota_machine_inv l (quota_step l m e)"
proof -
  have "quota_inv (bangkok_date (qm_now m + fst e)) (qm_db m)"
    using assms quota_inv_later [OF _ bangkok_date_mono [of "qm_now m" "qm_now m + fst e"]]
    by (simp add: quota_machine_inv_def)
  then show ?thesis
    using assms by (simp add: quota_machine_inv_def quota_step_def Let_def quota_apply_inv quota_apply_caps)
qed

fun quota_load :: "quota_machine \<Rightarrow> date \<times> uuid option \<Rightarrow> nat" where
  "quota_load m (d, None) = day_load (qm_db m) d"
| "quota_load m (d, Some s) = usage_of (qm_db m) d \<lparr>owner_kind = GuestOwner, owner_id = s\<rparr>"

fun quota_cap :: "quota_limits \<Rightarrow> date \<times> uuid option \<Rightarrow> nat" where
  "quota_cap l (d, None) = global_limit l"
| "quota_cap l (d, Some s) = guest_limit l"

interpretation quota: capped_machine "quota_step l" "quota_machine_inv l" quota_load "quota_cap l"
proof
  show "quota_machine_inv l m \<Longrightarrow> quota_machine_inv l (quota_step l m e)" for m e
    by (rule quota_step_inv)
  show "quota_machine_inv l m \<Longrightarrow> quota_load m k \<le> quota_cap l k" for m k
    by (cases "(m, k)" rule: quota_load.cases) (auto simp: quota_machine_inv_def quota_caps_def)
qed

lemma quota_start_inv: "limits_ok l \<Longrightarrow> quota_machine_inv l (quota_start now)"
  by (simp add: quota_machine_inv_def quota_start_def quota_inv_def tables_ok_def quota_caps_def
      usage_of_def day_load_def global_reserved_of_def global_consumed_of_def)

lemma quota_run_inv: "limits_ok l \<Longrightarrow> quota_machine_inv l (quota_run l now es)"
  unfolding quota_run_def by (rule quota.run_inv) (rule quota_start_inv)

lemma qm_now_run: "qm_now (quota_run l t es) = t + sum_list (map fst es)"
proof -
  have "qm_now (foldl (quota_step l) m es) = qm_now m + sum_list (map fst es)" for m
    by (induction es arbitrary: m) (auto simp: quota_step_def Let_def)
  then show ?thesis by (simp add: quota_run_def quota_start_def)
qed

lemma quota_run_at:
  assumes "limits_ok l" and "qm_now (quota_run l t es) \<le> now"
  shows "quota_inv (bangkok_date now) (qm_db (quota_run l t es))"
  using quota_run_inv [OF assms(1), of t es] quota_inv_later [OF _ bangkok_date_mono [OF assms(2)]]
  by (simp add: quota_machine_inv_def)

definition no_transfer :: "quota_event \<Rightarrow> bool" where
  "no_transfer e \<longleftrightarrow> (\<forall>s u. e \<noteq> QTransfer s u)"

lemma account_caps_run:
  assumes "limits_ok l" and "\<forall>e\<in>set es. no_transfer (snd e)"
  shows "account_caps l (qm_db (quota_run l t es))"
proof -
  have "account_caps l (qm_db (foldl (quota_step l) m es))"
    if "quota_machine_inv l m" "account_caps l (qm_db m)" for m
    using that assms(2)
  proof (induction es arbitrary: m)
    case (Cons e es)
    let ?now = "qm_now m + fst e"
    have inv: "quota_inv (bangkok_date ?now) (qm_db m)"
      using Cons.prems(1) quota_inv_later [OF _ bangkok_date_mono [of "qm_now m" ?now]]
      by (simp add: quota_machine_inv_def)
    have "account_caps l (quota_apply l ?now (snd e) (qm_db m))"
    proof (cases "\<exists>i s c. snd e = QReserve i s c")
      case True
      with Cons.prems inv assms(1) show ?thesis by (auto split: sum.split dest: reserve_caps(2))
    next
      case False
      with quota_apply_counters [OF inv, of "snd e" l] Cons.prems show ?thesis
        by (auto simp: no_transfer_def intro: account_caps_le)
    qed
    then have "account_caps l (qm_db (quota_step l m e))" by (simp add: quota_step_def Let_def)
    with Cons.IH [OF quota_step_inv [OF Cons.prems(1)]] Cons.prems(3) show ?case by simp
  qed simp
  moreover have "account_caps l (qm_db (quota_start t))"
    by (simp add: account_caps_def quota_start_def usage_of_def)
  ultimately show ?thesis unfolding quota_run_def using quota_start_inv [OF assms(1)] by blast
qed

text \<open>The generations admitted today that hold or have used the two allowances.\<close>

definition global_live :: "quota_machine \<Rightarrow> nat" where
  "global_live m = count_if (\<lambda>r. res_date r = bangkok_date (qm_now m)
     \<and> res_global_state r \<noteq> GlobalReleased) (reservations (qm_db m))"

definition owner_live :: "quota_machine \<Rightarrow> quota_owner_key \<Rightarrow> nat" where
  "owner_live m k = count_if (\<lambda>r. res_date r = bangkok_date (qm_now m) \<and> res_owner r = k
     \<and> res_owner_state r \<noteq> OwnerReleased) (reservations (qm_db m))"

lemma global_live_le:
  assumes "quota_inv (bangkok_date (qm_now m)) (qm_db m)"
  shows "global_live m \<le> day_load (qm_db m) (bangkok_date (qm_now m))"
proof -
  let ?t = "bangkok_date (qm_now m)" and ?rs = "reservations (qm_db m)"
  have "global_live m = count_if (\<lambda>r. reserved_weight ?t r \<or> consumed_weight ?t ?t r) ?rs"
    unfolding global_live_def
    by (intro count_if_cong) (auto simp: reserved_weight_def consumed_weight_def intro: global_state.exhaust)
  also have "\<dots> = count_if (reserved_weight ?t) ?rs + count_if (consumed_weight ?t ?t) ?rs"
    by (intro count_if_disjoint) (auto simp: reserved_weight_def consumed_weight_def)
  also have "\<dots> \<le> day_load (qm_db m) ?t"
    using quota_invD(3,4) [OF assms, of ?t] by (simp add: day_load_def)
  finally show ?thesis .
qed

lemma owner_live_le:
  assumes "quota_inv (bangkok_date (qm_now m)) (qm_db m)"
  shows "owner_live m k \<le> usage_of (qm_db m) (bangkok_date (qm_now m)) k"
proof -
  let ?t = "bangkok_date (qm_now m)" and ?rs = "reservations (qm_db m)"
  have "owner_live m k = count_if (owner_weight ?t ?t k) ?rs"
    unfolding owner_live_def
    by (intro count_if_cong) (auto simp: owner_weight_def intro: owner_state.exhaust)
  also have "\<dots> \<le> usage_of (qm_db m) ?t k" by (rule quota_invD(2) [OF assms])
  finally show ?thesis .
qed

section \<open>Properties\<close>


definition demo_limits :: quota_limits where
  "demo_limits = \<lparr>registered_limit = 2, guest_limit = 1, global_limit = 3, stale_after = 60\<rparr>"

definition demo_session :: session_row where
  "demo_session = \<lparr>sess_user = 7, sess_kind = GuestSession, sess_carryover_user = None,
     sess_carryover_date = None, sess_revoked_at = None, sess_expires_at = 10 ^ 12\<rparr>"

definition demo_events :: "(nat \<times> quota_event) list" where
  "demo_events = [(0, QSessions [(1, demo_session)]), (1, QReserve 5 1 9), (1, QReserve 6 1 9), (1, QMark 5)]"




text \<open>
  In every state the quota tables reach, a committed reservation has consumed the global
  allowance, and one that has consumed it has a recorded provider start: no answer is stored
  without having been paid for.
\<close>

theorem quota_commit_is_paid:
  assumes "limits_ok l" and "r \<in> set (reservations (qm_db (quota_run l t es)))"
  shows "(res_owner_state r = OwnerCommitted \<longrightarrow> res_global_state r = GlobalConsumed)
    \<and> (res_global_state r = GlobalConsumed \<longrightarrow> res_provider_started_at r \<noteq> None)"
  using quota_run_inv [OF assms(1), of t es] assms(2)
  by (auto simp: quota_machine_inv_def quota_inv_def tables_ok_def row_ok_def)

lemmas quota_eval = quota_run_def quota_start_def quota_step_def Let_def demo_limits_def
  demo_session_def demo_events_def reserve_chat_generation_quota_def active_session_def
  recover_stale_quotas_def recover_stale_loop.simps stale_batch_def cleanup_past_quotas_def
  cleanup_reservation_ids_def cleanup_owner_keys_def cleanup_global_dates_def quota_owner_def
  admit_owner_def admit_global_def new_reservation_def find_reservation_def
  mark_provider_started_def update_reservation_def carryover_active_def
  stale_recovery_batch_size_def hm_get_def hm_insert_def is_stale_def bangkok_date_def
  terminal_past_def owner_counter_done_def global_counter_done_def
  retention_cleanup_batch_size_def bangkok_offset_def day_micros_def

definition demo_row :: reservation where
  "demo_row = \<lparr>res_id = 5, res_date = 0, res_session = 1, res_chat = 9,
     res_owner = \<lparr>owner_kind = GuestOwner, owner_id = 1\<rparr>, res_owner_state = OwnerReserved,
     res_global_state = GlobalConsumed, res_updated_at = 3, res_provider_started_at = Some 3,
     res_committed_at = None, res_released_at = None\<rparr>"

lemma demo_run: "reservations (qm_db (quota_run demo_limits 0 demo_events)) = [demo_row]"
  by (simp add: quota_eval demo_row_def)

theorem quota_commit_is_paid_witness: "res_provider_started_at demo_row \<noteq> None"
  using quota_commit_is_paid [of demo_limits demo_row 0 demo_events]
  by (simp add: demo_run) (simp add: limits_ok_def demo_limits_def demo_row_def)

text \<open>
  A release is idempotent: releasing a reservation again, at any time, changes nothing.
\<close>

theorem quota_release_idempotent:
  assumes "release_chat_generation_quota now i db = Inr db'"
  shows "release_chat_generation_quota now' i db' = Inr db'"
proof (cases "find_reservation i db")
  case None
  with assms show ?thesis by (simp add: release_chat_generation_quota_def)
next
  case (Some r)
  let ?f = "\<lambda>r. (released_states r)
     \<lparr>res_released_at := (if has_reserved r then Some now else res_released_at r),
      res_updated_at := (if has_reserved r then now else res_updated_at r)\<rparr>"
  from Some assms obtain db1 where db': "db' = update_reservation i ?f db1"
    by (auto simp: release_chat_generation_quota_def split: sum.splits)
  have "\<not> has_reserved (?f r)" for r by (simp add: has_reserved_def released_states_def)
  then have done': "\<not> has_reserved r" if "r \<in> set (reservations db')" "res_id r = i" for r
    using that(1) that(2) [symmetric] unfolding db' update_reservation_def
    by (auto simp: released_states_def)
  have keep: "(released_states r)\<lparr>res_released_at := res_released_at r, res_updated_at := res_updated_at r\<rparr> = r"
    if "\<not> has_reserved r" for r
    using that by (simp add: has_reserved_def released_states_def)
  have "map (\<lambda>r. if res_id r = i then (released_states r)
     \<lparr>res_released_at := (if has_reserved r then Some now' else res_released_at r),
      res_updated_at := (if has_reserved r then now' else res_updated_at r)\<rparr> else r) (reservations db')
    = reservations db'"
  proof (rule map_idI)
    fix r assume "r \<in> set (reservations db')"
    with done' [of r] keep [of r]
    show "(if res_id r = i then (released_states r)
     \<lparr>res_released_at := (if has_reserved r then Some now' else res_released_at r),
      res_updated_at := (if has_reserved r then now' else res_updated_at r)\<rparr> else r) = r"
      by (cases "res_id r = i") simp_all
  qed
  then have "update_reservation i (\<lambda>r. (released_states r)
     \<lparr>res_released_at := (if has_reserved r then Some now' else res_released_at r),
      res_updated_at := (if has_reserved r then now' else res_updated_at r)\<rparr>) db' = db'"
    by (simp add: update_reservation_def)
  moreover have "return_allowance r db' = Inr db'" if "find_reservation i db' = Some r" for r
    using find_Some_in [OF that [unfolded find_reservation_def]] done'
    by (auto simp: return_allowance_def has_reserved_def)
  ultimately show ?thesis
    by (simp add: release_chat_generation_quota_def split: option.split)
qed

theorem quota_release_idempotent_witness:
  "\<exists>db'. release_chat_generation_quota 3 5 (qm_db (quota_run demo_limits 0 demo_events)) = Inr db'
    \<and> release_chat_generation_quota 8 5 db' = Inr db'"
proof -
  obtain db' where "release_chat_generation_quota 3 5 (qm_db (quota_run demo_limits 0 demo_events)) = Inr db'"
    using release_ok [OF quota_run_at [of demo_limits 0 demo_events 3]]
    by (auto simp: limits_ok_def qm_now_run demo_limits_def demo_events_def)
  with quota_release_idempotent [OF this] show ?thesis by blast
qed

text \<open>
  An admission that is released before the provider starts leaves no charge: no owner count and
  no day's load is above what it was before the admission.
\<close>

theorem quota_refund:
  assumes "quota_inv (bangkok_date now) db"
    and "reserve_chat_generation_quota now i session chat rl gl glob stale db = Inr (Admitted i, db1)"
    and "release_chat_generation_quota now' i db1 = Inr db2"
  shows "usage_of db2 d k \<le> usage_of db d k \<and> day_load db2 d \<le> day_load db d"
proof -
  from assms(2) obtain s db0 where s: "active_session now session db = Some s"
    and db0: "recover_stale_loop now stale db = Inr db0"
    by (auto simp: reserve_chat_generation_quota_def recover_stale_quotas_def
        split: option.splits sum.splits if_splits)
  obtain owner limit where owner: "quota_owner now session s rl gl = (owner, limit)" by fastforce
  let ?t = "bangkok_date now" and ?db0 = "snd (cleanup_past_quotas now db0)"
  let ?new = "new_reservation now i ?t session chat owner"
  obtain db3 db4 where db3: "admit_owner ?t owner limit ?db0 = Some db3"
    and db4: "admit_global ?t glob db3 = Some db4"
    and db1: "db1 = db4\<lparr>reservations := ?new # reservations db4\<rparr>"
    using assms(2) s db0 owner
    by (auto simp: reserve_chat_generation_quota_def recover_stale_quotas_def Let_def
        split: option.splits if_splits)
  have inv0: "quota_inv ?t db0" using recover_loop_ok [OF assms(1), of now stale] db0 by auto
  have le: "counters_le ?db0 db"
    using recover_loop_le [OF db0] cleanup_le [OF quota_invD(1) [OF inv0]] by (blast intro: counters_le_trans)
  have hm: "hm_ok (owner_quotas ?db0)" "hm_ok (global_quotas ?db0)"
    using quota_invD(1) [OF cleanup_ok [OF inv0]] by (simp_all add: tables_ok_def)
  note a = admit_owner_ok [OF db3 hm(1)]
  have hm3: "hm_ok (global_quotas db3)" using a hm by simp
  note g = admit_global_ok [OF db4 hm3]
  have us: "usage_of db1 e o' = usage_of ?db0 e o' + of_bool (e = ?t \<and> o' = owner)" for e o'
    using a(4) [of e o'] g(2) by (simp add: db1 usage_of_def)
  have ld: "day_load db1 e = day_load ?db0 e + of_bool (e = ?t)" for e
    using g(4,5) [of e] a(2) by (simp add: db1 day_load_def global_reserved_of_def global_consumed_of_def)
  have inv1: "quota_inv ?t db1"
    using reserve_ok [OF assms(1), of i session chat rl gl glob stale] assms(2) by simp
  have find: "find_reservation i db1 = Some ?new"
    by (simp add: db1 find_reservation_def new_reservation_def)
  have "?new \<in> set (reservations db1)" by (simp add: db1)
  from return_allowance_ok [OF inv1 this] obtain dbr where ret: "return_allowance ?new db1 = Inr dbr"
    and ru: "\<And>d ow. usage_of db1 d ow = usage_of dbr d ow + of_bool (?t = d \<and> owner = ow)"
    and rr: "\<And>d. global_reserved_of db1 d = global_reserved_of dbr d + of_bool (d = ?t)"
    and rc: "\<And>d. global_consumed_of dbr d = global_consumed_of db1 d"
    by (auto simp: new_reservation_def reserved_weight_def)
  have "usage_of db2 d k = usage_of ?db0 d k"
    using assms(3) find ret us [of d k] ru [of d k]
    by (auto simp: release_chat_generation_quota_def of_bool_def split: if_splits)
  moreover have "day_load db2 d = day_load ?db0 d"
    using assms(3) find ret ld [of d] rr [of d] rc [of d]
    by (auto simp: release_chat_generation_quota_def of_bool_def day_load_def split: if_splits)
  ultimately show ?thesis using le by (simp add: counters_le_def)
qed

definition demo_db :: quota_db where
  "demo_db = qm_db (quota_run demo_limits 0 [(0, QSessions [(1, demo_session)])])"

definition demo_admitted :: quota_db where
  "demo_admitted = demo_db\<lparr>
     owner_quotas := [((0, \<lparr>owner_kind = GuestOwner, owner_id = 1\<rparr>), 1)],
     global_quotas := [(0, (1, 0))],
     reservations := [new_reservation 1 5 0 1 9 \<lparr>owner_kind = GuestOwner, owner_id = 1\<rparr>]\<rparr>"

lemma demo_reserve:
  "reserve_chat_generation_quota 1 5 1 9 2 1 3 60 demo_db = Inr (Admitted 5, demo_admitted)"
  by (simp add: demo_db_def demo_admitted_def quota_eval)

lemma demo_db_inv: "quota_inv (bangkok_date 1) demo_db"
  unfolding demo_db_def
  by (rule quota_run_at) (simp_all add: limits_ok_def demo_limits_def qm_now_run)

lemma demo_admitted_inv: "quota_inv (bangkok_date 1) demo_admitted"
  using reserve_ok [OF demo_db_inv, of 5 1 9 2 1 3 60] unfolding demo_reserve by simp

theorem quota_refund_witness:
  "\<exists>db2. release_chat_generation_quota 2 5 demo_admitted = Inr db2 \<and> day_load db2 0 \<le> day_load demo_db 0"
proof -
  obtain db2 where "release_chat_generation_quota 2 5 demo_admitted = Inr db2"
    using release_ok [OF demo_admitted_inv] by blast
  with quota_refund [OF demo_db_inv demo_reserve this, of 0] show ?thesis by blast
qed

text \<open>
  Once the provider has been started, a release gives the owner's count back but not the global
  one: the load of every day stays what it was.
\<close>

theorem quota_started_stays_charged:
  assumes "quota_inv t db" and "mark_provider_started now i db = Inr (True, db1)"
    and "release_chat_generation_quota now' i db1 = Inr db2"
  shows "global_quotas db2 = global_quotas db1 \<and> day_load db2 d = day_load db d"
proof -
  obtain r where find: "find_reservation i db = Some r"
    using assms(2) by (auto simp: mark_provider_started_def split: option.splits)
  have dist: "distinct (map res_id (reservations db))"
    using quota_invD(1) [OF assms(1)] by (simp add: tables_ok_def)
  obtain us vs where rs: "reservations db = us @ r # vs" and i: "res_id r = i"
    and upd: "\<And>f db'. reservations db' = reservations db \<Longrightarrow>
       reservations (update_reservation i f db') = us @ f r # vs"
    using find_reservation_split [OF dist find] by blast
  have us: "\<forall>x\<in>set us. res_id x \<noteq> i" 
  proof -
    have "res_id r \<notin> res_id ` set us" using dist by (simp add: rs)
    then show ?thesis using i by (metis image_eqI)
  qed
  have "\<exists>r1. find_reservation i db1 = Some r1 \<and> res_global_state r1 = GlobalConsumed"
  proof (cases "res_global_state r = GlobalConsumed")
    case True
    with assms(2) find show ?thesis by (auto simp: mark_provider_started_def)
  next
    case False
    let ?f = "\<lambda>r. if res_global_state r = GlobalReserved
       then r\<lparr>res_global_state := GlobalConsumed,
              res_provider_started_at := Some now, res_updated_at := now\<rparr> else r"
    from False assms(2) find obtain g where g: "res_global_state r = GlobalReserved"
      "db1 = update_reservation i ?f (db\<lparr>global_quotas := g\<rparr>)"
      by (auto simp: mark_provider_started_def split: option.splits if_splits prod.splits)
    have "reservations db1 = us @ ?f r # vs" unfolding g(2) by (rule upd) simp
    moreover have "find (\<lambda>r. res_id r = i) (us @ ?f r # vs) = Some (?f r)"
      using us i by (intro find_middle) auto
    ultimately show ?thesis using g(1) by (simp add: find_reservation_def)
  qed
  then obtain r1 where r1: "find_reservation i db1 = Some r1" "res_global_state r1 = GlobalConsumed"
    by blast
  have "global_quotas db2 = global_quotas db1"
    using assms(3) r1
    by (auto simp: release_chat_generation_quota_def return_allowance_def decrement_owner_quota_def
        split: sum.splits if_splits option.splits)
  then have "day_load db2 d = day_load db1 d"
    by (simp add: day_load_def global_reserved_of_def global_consumed_of_def)
  moreover have "day_load db1 d = day_load db d"
    using assms(2)
    by (auto simp: mark_provider_started_def day_load_def global_reserved_of_def global_consumed_of_def
        split: option.splits if_splits prod.splits)
  ultimately show ?thesis using \<open>global_quotas db2 = global_quotas db1\<close> by simp
qed

theorem quota_started_stays_charged_witness:
  "\<exists>db1 db2. mark_provider_started 2 5 demo_admitted = Inr (True, db1)
    \<and> release_chat_generation_quota 3 5 db1 = Inr db2 \<and> day_load db2 0 = day_load demo_admitted 0"
proof -
  obtain db1 where db1: "mark_provider_started 2 5 demo_admitted = Inr (True, db1)"
    by (simp add: demo_admitted_def mark_provider_started_def find_reservation_def
        new_reservation_def hm_get_def)
  have "quota_inv (bangkok_date 1) db1" using mark_ok [OF demo_admitted_inv, of 2 5] db1 by simp
  then obtain db2 where db2: "release_chat_generation_quota 3 5 db1 = Inr db2"
    using release_ok by blast
  from quota_started_stays_charged [OF demo_admitted_inv db1 db2, of 0] db1 db2 show ?thesis by blast
qed

text \<open>
  C30: A transfer to an account moves the usage exactly: the account gains one per row it takes over,
  each other owner loses one per row it held, no other date changes, and no row is created or lost.
\<close>

theorem quota_transfer_conserves:
  assumes "quota_inv (bangkok_date now) db"
    and "transfer_daily_quota now session user db = Inr db'"
  shows "usage_of db' (bangkok_date now) (account_owner user)
      = usage_of db (bangkok_date now) (account_owner user) + moved_total now session user db
    \<and> (\<forall>k. k \<noteq> account_owner user \<longrightarrow>
          usage_of db' (bangkok_date now) k + moved_from now session user k db
            = usage_of db (bangkok_date now) k)
    \<and> (\<forall>d k. d \<noteq> bangkok_date now \<longrightarrow> usage_of db' d k = usage_of db d k)
    \<and> map res_id (reservations db') = map res_id (reservations db)"
proof -
  let ?u = "account_owner user"
  from transfer_effect [OF assms(1), of session user] assms(2)
  have rs: "reservations db' = map (\<lambda>r. if transferable now session r \<and> res_owner r \<noteq> ?u
         then r\<lparr>res_owner := ?u, res_updated_at := now\<rparr> else r) (reservations db)"
    and us: "\<And>e k. usage_of db' e k =
         (if e \<noteq> bangkok_date now then usage_of db e k
          else if k = ?u then usage_of db e k + moved_total now session user db
          else usage_of db e k - moved_from now session user k db)"
    and le: "\<And>k. moved_from now session user k db \<le> usage_of db (bangkok_date now) k"
    by auto
  have "map res_id (reservations db') = map res_id (reservations db)"
    unfolding rs map_map by (rule map_cong) auto
  with us le show ?thesis by simp
qed

theorem quota_transfer_conserves_witness:
  "\<exists>db'. transfer_daily_quota 2 1 7 demo_admitted = Inr db'
    \<and> usage_of db' 0 (account_owner 7) = usage_of demo_admitted 0 (account_owner 7) + 1"
proof -
  have inv: "quota_inv (bangkok_date 2) demo_admitted"
    using demo_admitted_inv by (simp add: bangkok_date_def bangkok_offset_def day_micros_def)
  then obtain db' where db': "transfer_daily_quota 2 1 7 demo_admitted = Inr db'"
    using transfer_effect by blast
  have "bangkok_date 2 = 0" by (simp add: bangkok_date_def bangkok_offset_def day_micros_def)
  moreover from this have "moved_total 2 1 7 demo_admitted = 1"
    by (simp add: moved_total_def demo_admitted_def new_reservation_def transferable_def account_owner_def)
  ultimately show ?thesis using quota_transfer_conserves [OF inv db'] db' by simp
qed

text \<open>
  Stale recovery always ends and succeeds, leaves no reservation that is reserved and older than
  the stale interval, and raises no counter; only an interval that does not fit 64 bits is refused.
\<close>

theorem quota_recovery_clears:
  assumes "quota_inv t db" and "s < 2 ^ 63"
  shows "\<exists>db'. recover_stale_quotas now s db = Inr db' \<and> quota_inv t db'
    \<and> (\<forall>r\<in>set (reservations db'). \<not> is_stale now s r)
    \<and> (\<forall>d k. usage_of db' d k \<le> usage_of db d k) \<and> (\<forall>d. day_load db' d \<le> day_load db d)"
proof -
  obtain db' where db': "recover_stale_loop now s db = Inr db'" "quota_inv t db'"
    using recover_loop_ok [OF assms(1), of now s] by blast
  have "\<forall>r\<in>set (reservations db'). \<not> is_stale now s r"
    using recover_loop_clears [OF db'(1)] by (simp add: stale_count_def filter_empty_conv)
  then show ?thesis
    using db' recover_loop_le [OF db'(1)] assms(2)
    by (intro exI [of _ db']) (simp add: recover_stale_quotas_def counters_le_def)
qed

theorem quota_recovery_clears_witness:
  "\<exists>db'. recover_stale_quotas 100000000 60 demo_admitted = Inr db'
    \<and> (\<forall>r\<in>set (reservations db'). \<not> is_stale 100000000 60 r)"
  using quota_recovery_clears [OF demo_admitted_inv, of 60 100000000] by auto

definition quota_rows :: "quota_db \<Rightarrow> nat" where
  "quota_rows db = length (reservations db) + length (owner_quotas db) + length (global_quotas db)"

lemma cleanup_parts:
  assumes "cleanup_past_quotas now db = ((r, ow, g), db')"
  shows "length (reservations db') + (if r = 0 then 0 else 1) \<le> length (reservations db)"
    and "length (owner_quotas db') + (if ow = 0 then 0 else 1) \<le> length (owner_quotas db)"
    and "length (global_quotas db') + (if g = 0 then 0 else 1) \<le> length (global_quotas db)"
    and "reservations db' = filter (\<lambda>r. res_id r \<notin> set (cleanup_reservation_ids now db)) (reservations db)"
    and "r = length (cleanup_reservation_ids now db)"
proof -
  define db1 where "db1 = db\<lparr>reservations := filter (\<lambda>r. res_id r \<notin> set (cleanup_reservation_ids now db)) (reservations db)\<rparr>"
  define db2 where "db2 = db1\<lparr>owner_quotas := filter (\<lambda>e. fst e \<notin> set (cleanup_owner_keys now db1)) (owner_quotas db1)\<rparr>"
  have eqs: "r = length (cleanup_reservation_ids now db)" "ow = length (cleanup_owner_keys now db1)"
    "g = length (cleanup_global_dates now db2)"
    "db' = db2\<lparr>global_quotas := filter (\<lambda>e. fst e \<notin> set (cleanup_global_dates now db2)) (global_quotas db2)\<rparr>"
    using assms unfolding cleanup_past_quotas_def Let_def db1_def db2_def by auto
  have less: "length (filter (\<lambda>x. f x \<notin> set ks) xs) + (if length ks = 0 then 0 else 1) \<le> length xs"
    if "set ks \<subseteq> f ` set xs" for ks xs and f :: "'x \<Rightarrow> 'y"
  proof (cases ks)
    case (Cons k ks')
    with that have "k \<in> f ` set xs" by simp
    then obtain x where "x \<in> set xs" "f x \<in> set ks" using Cons by auto
    then have "length (filter (\<lambda>x. f x \<notin> set ks) xs) < length xs" by (intro length_filter_less) auto
    with Cons show ?thesis by simp
  qed simp
  have sub: "set (cleanup_reservation_ids now db) \<subseteq> res_id ` set (reservations db)"
    "set (cleanup_owner_keys now db1) \<subseteq> fst ` set (owner_quotas db1)"
    "set (cleanup_global_dates now db2) \<subseteq> fst ` set (global_quotas db2)"
    by (auto simp: cleanup_reservation_ids_def cleanup_owner_keys_def cleanup_global_dates_def
        dest!: in_set_takeD)
  show "length (reservations db') + (if r = 0 then 0 else 1) \<le> length (reservations db)"
    using less [OF sub(1)] by (simp add: eqs db1_def db2_def)
  have kept: "owner_quotas db1 = owner_quotas db" "global_quotas db2 = global_quotas db"
    by (simp_all add: db1_def db2_def)
  have oq: "owner_quotas db' = filter (\<lambda>e. fst e \<notin> set (cleanup_owner_keys now db1)) (owner_quotas db1)"
    by (simp add: eqs(4) db2_def)
  show "length (owner_quotas db') + (if ow = 0 then 0 else 1) \<le> length (owner_quotas db)"
    using less [OF sub(2)] unfolding oq eqs(2) kept .
  have gq: "global_quotas db' = filter (\<lambda>e. fst e \<notin> set (cleanup_global_dates now db2)) (global_quotas db2)"
    by (simp add: eqs(4))
  show "length (global_quotas db') + (if g = 0 then 0 else 1) \<le> length (global_quotas db)"
    using less [OF sub(3)] unfolding gq eqs(3) kept .
  show "reservations db' = filter (\<lambda>r. res_id r \<notin> set (cleanup_reservation_ids now db)) (reservations db)"
    by (simp add: eqs(4) db1_def db2_def)
  show "r = length (cleanup_reservation_ids now db)" by (rule eqs)
qed

lemma cleanup_pass:
  assumes "cleanup_past_quotas now db = ((r, ow, g), db')" and "distinct (map res_id (reservations db))"
  shows "distinct (map res_id (reservations db'))"
    and "\<forall>x\<in>set (reservations db). terminal_past now x \<or> x \<in> set (reservations db')"
    and "set (reservations db') \<subseteq> set (reservations db)"
    and "r < retention_cleanup_batch_size \<Longrightarrow> \<forall>x\<in>set (reservations db'). \<not> terminal_past now x"
proof -
  note p = cleanup_parts [OF assms(1)]
  show "distinct (map res_id (reservations db'))" using assms(2) by (simp add: p(4) distinct_map_filter)
  show "\<forall>x\<in>set (reservations db). terminal_past now x \<or> x \<in> set (reservations db')"
    using cleanup_ids_terminal [OF assms(2)] by (auto simp: p(4))
  show "set (reservations db') \<subseteq> set (reservations db)" by (auto simp: p(4))
  assume "r < retention_cleanup_batch_size"
  then have "set (cleanup_reservation_ids now db) = res_id ` {x \<in> set (reservations db). terminal_past now x}"
    using p(5) by (auto simp: cleanup_reservation_ids_def)
  then show "\<forall>x\<in>set (reservations db'). \<not> terminal_past now x" by (auto simp: p(4))
qed

lemma cleanup_loop_enough:
  assumes "quota_rows db < fuel" and "distinct (map res_id (reservations db))"
  shows "\<exists>n db'. cleanup_loop fuel now acc db = Some (n, db')
    \<and> (\<forall>x\<in>set (reservations db'). x \<in> set (reservations db) \<and> \<not> terminal_past now x)
    \<and> (\<forall>x\<in>set (reservations db). terminal_past now x \<or> x \<in> set (reservations db'))"
  using assms
proof (induction fuel arbitrary: acc db)
  case (Suc fuel)
  obtain r ow g db1 where pass: "cleanup_past_quotas now db = ((r, ow, g), db1)"
    by (metis prod.collapse)
  note p = cleanup_parts [OF pass] and c = cleanup_pass [OF pass Suc.prems(2)]
  show ?case
  proof (cases "r < retention_cleanup_batch_size \<and> ow < retention_cleanup_batch_size
      \<and> g < retention_cleanup_batch_size")
    case True
    with pass c show ?thesis by auto
  next
    case False
    then have "r \<noteq> 0 \<or> ow \<noteq> 0 \<or> g \<noteq> 0" by (auto simp: retention_cleanup_batch_size_def)
    then have "quota_rows db1 < quota_rows db"
      using p(1-3) by (auto simp: quota_rows_def split: if_splits)
    with Suc.prems(1) have "quota_rows db1 < fuel" by simp
    from Suc.IH [OF this c(1), of "sat_add 64 acc (r + ow + g)"] obtain n db' where
      "cleanup_loop fuel now (sat_add 64 acc (r + ow + g)) db1 = Some (n, db')"
      "\<forall>x\<in>set (reservations db'). x \<in> set (reservations db1) \<and> \<not> terminal_past now x"
      "\<forall>x\<in>set (reservations db1). terminal_past now x \<or> x \<in> set (reservations db')"
      by blast
    with False pass c(2,3) show ?thesis
      by (intro exI [of _ n] exI [of _ db']) (auto simp: Let_def)
  qed
qed simp

text \<open>
  C31: The startup cleanup ends: more passes than there are rows in the three tables are enough. It
  leaves no reservation of a past date whose states are final, and keeps every other reservation.
\<close>

theorem quota_cleanup_ends:
  assumes "quota_inv t db" and "quota_rows db < fuel"
  shows "\<exists>n db'. cleanup_loop fuel now 0 db = Some (n, db')
    \<and> (\<forall>r\<in>set (reservations db'). r \<in> set (reservations db) \<and> \<not> terminal_past now r)
    \<and> (\<forall>r\<in>set (reservations db). \<not> terminal_past now r \<longrightarrow> r \<in> set (reservations db'))"
  using cleanup_loop_enough [OF assms(2), of now 0] quota_invD(1) [OF assms(1)]
  by (auto simp: tables_ok_def)

theorem quota_cleanup_ends_witness:
  "\<exists>n db'. cleanup_loop 4 (10 ^ 12) 0 demo_admitted = Some (n, db')
    \<and> (\<forall>r\<in>set (reservations db'). \<not> terminal_past (10 ^ 12) r)"
proof -
  have "quota_rows demo_admitted < 4" by (simp add: quota_rows_def demo_admitted_def)
  from quota_cleanup_ends [OF demo_admitted_inv this, of "10 ^ 12"] show ?thesis by blast
qed

text \<open>
  The wait a refused admission reports reaches the next Bangkok midnight and no further than one
  second past it, and is between one second and a day.
\<close>

theorem quota_retry_reaches_midnight:
  "bangkok_date (now + retry_after_midnight now (bangkok_date now) * 1000000) = Suc (bangkok_date now)
    \<and> 1 \<le> retry_after_midnight now (bangkok_date now)
    \<and> retry_after_midnight now (bangkok_date now) \<le> 86400"
proof -
  define d where "d = (now + 25200000000) div 86400000000"
  define m where "m = (now + 25200000000) mod 86400000000"
  have now: "now + 25200000000 = d * 86400000000 + m" and m: "m < 86400000000"
    by (simp_all add: d_def m_def)
  define k where "k = (86400000000 - m + 999999) div 1000000"
  have diff: "(d + 1) * 86400000000 - 25200000000 - now = 86400000000 - m"
  proof -
    have "(d + 1) * 86400000000 = 25200000000 + (now + (86400000000 - m))" using now m by simp
    then show ?thesis by (simp only: diff_add_inverse)
  qed
  have k: "86400000000 - m \<le> k * 1000000" "k * 1000000 < 86400000000 - m + 1000000"
    using div_mult_mod_eq [of "86400000000 - m + 999999" 1000000]
      mod_less_divisor [of 1000000 "86400000000 - m + 999999"]
    unfolding k_def by linarith+
  have k1: "1 \<le> k" "k \<le> 86400" using k m by linarith+
  have retry: "retry_after_midnight now d = k"
    using k1 diff by (simp add: retry_after_midnight_def day_micros_def bangkok_offset_def k_def)
  have date: "bangkok_date x = (x + 25200000000) div 86400000000" for x
    by (simp add: bangkok_date_def bangkok_offset_def day_micros_def)
  obtain e where e: "k * 1000000 + m = 86400000000 + e" "e < 1000000"
    using k m by (intro that [of "k * 1000000 - (86400000000 - m)"]) auto
  have "now + k * 1000000 + 25200000000 = (d * 86400000000 + m) + k * 1000000"
    unfolding now [symmetric] by simp
  also have "\<dots> = (d + 1) * 86400000000 + e" using e by simp
  finally have "bangkok_date (now + k * 1000000) = d + 1" using e(2) by (simp add: date)
  then show ?thesis using retry k1 date [of now] by (simp add: d_def)
qed

end
