(* ===== verification/Cafe_Abuse.thy ===== *)
theory Cafe_Abuse
  imports App_Error Wf_Interfaces
begin

text \<open>
  The abuse limits of the Cafe hub (\<open>cafe.rs\<close>): the socket reservations per session, per address and
  in total, the room-creation windows, the two message windows of a socket, and the telemetry
  counters. A reservation is dropped exactly once (\<open>Drop for CafeSocketReservation\<close>); the ones alive
  are the second component of a socket system.
\<close>

section \<open>State\<close>

record cafe_security_config =
  max_sockets_per_session :: nat
  max_sockets_per_ip :: nat
  max_sockets_global :: nat
  room_creations_per_session :: nat
  room_creations_per_ip :: nat
  room_creations_global :: nat
  room_creation_window_seconds :: nat
  websocket_max_bytes :: nat
  never_joined_ttl_seconds :: nat
  empty_room_ttl_seconds :: nat

datatype cafe_creation_identity = CreationSession uuid | CreationIp ustr | CreationGlobal

record cafe_abuse_state =
  sockets_by_session :: "(uuid, nat) hash_map"
  sockets_by_ip :: "(ustr, nat) hash_map"
  active_sockets :: nat
  room_creation_buckets :: "cafe_creation_identity \<rightharpoonup> instant list"

record cafe_telemetry =
  incoming_messages :: "64 word"
  outgoing_messages :: "64 word"
  outgoing_bytes :: "64 word"
  socket_rejections :: "64 word"
  room_creation_rejections :: "64 word"
  message_rate_rejections :: "64 word"
  reliable_lag :: "64 word"

definition abuse_default :: cafe_abuse_state where
  "abuse_default = \<lparr>sockets_by_session = [], sockets_by_ip = [], active_sockets = 0,
     room_creation_buckets = Map.empty\<rparr>"

definition telemetry_default :: cafe_telemetry where
  "telemetry_default = \<lparr>incoming_messages = 0, outgoing_messages = 0, outgoing_bytes = 0,
     socket_rejections = 0, room_creation_rejections = 0, message_rate_rejections = 0,
     reliable_lag = 0\<rparr>"

record cafe_socket_reservation =
  reserved_session :: uuid
  reserved_ip :: ustr

section \<open>Sockets\<close>

definition decrement_counter :: "'k \<Rightarrow> ('k, nat) hash_map \<Rightarrow> ('k, nat) hash_map" where
  "decrement_counter k m =
     (case hm_get m k of
        None \<Rightarrow> m
      | Some count \<Rightarrow>
          let count' = count - 1
          in if count' = 0 then hm_remove k m else hm_insert k count' m)"

definition socket_capacity_error :: app_error where
  "socket_capacity_error =
     Reasoned 429 ''cafe socket capacity reached'' CafeSocketCapacity (Some 1)"

definition reserve_socket ::
  "cafe_security_config \<Rightarrow> uuid \<Rightarrow> ustr \<Rightarrow> cafe_abuse_state \<times> cafe_telemetry
     \<Rightarrow> (app_error + cafe_socket_reservation) \<times> cafe_abuse_state \<times> cafe_telemetry" where
  "reserve_socket limits session ip st =
     (let (abuse, tel) = st;
          session_count = counter_get (sockets_by_session abuse) session;
          ip_count = counter_get (sockets_by_ip abuse) ip
      in if max_sockets_per_session limits \<le> session_count
            \<or> max_sockets_per_ip limits \<le> ip_count
            \<or> max_sockets_global limits \<le> active_sockets abuse
         then (Inl socket_capacity_error, abuse,
               tel\<lparr>socket_rejections := socket_rejections tel + 1\<rparr>)
         else (Inr \<lparr>reserved_session = session, reserved_ip = ip\<rparr>,
               abuse\<lparr>sockets_by_session := counter_incr session (sockets_by_session abuse),
                 sockets_by_ip := counter_incr ip (sockets_by_ip abuse),
                 active_sockets := active_sockets abuse + 1\<rparr>, tel))"

definition release_socket :: "uuid \<Rightarrow> ustr \<Rightarrow> cafe_abuse_state \<Rightarrow> cafe_abuse_state" where
  "release_socket session ip abuse =
     abuse\<lparr>sockets_by_session := decrement_counter session (sockets_by_session abuse),
       sockets_by_ip := decrement_counter ip (sockets_by_ip abuse),
       active_sockets := active_sockets abuse - 1\<rparr>"

definition drop_reservation :: "cafe_socket_reservation \<Rightarrow> cafe_abuse_state \<Rightarrow> cafe_abuse_state" where
  "drop_reservation r = release_socket (reserved_session r) (reserved_ip r)"

section \<open>Room creation\<close>

definition creation_window :: "cafe_security_config \<Rightarrow> duration" where
  "creation_window limits = secs (room_creation_window_seconds limits)"

definition prune_creation_buckets :: "instant \<Rightarrow> duration \<Rightarrow> cafe_abuse_state \<Rightarrow> cafe_abuse_state" where
  "prune_creation_buckets now window abuse =
     abuse\<lparr>room_creation_buckets := (\<lambda>k.
        case room_creation_buckets abuse k of
          None \<Rightarrow> None
        | Some bucket \<Rightarrow>
            let bucket' = dropWhile (\<lambda>t. window \<le> now - t) bucket
            in if bucket' = [] then None else Some bucket')\<rparr>"

definition creation_identities ::
  "cafe_security_config \<Rightarrow> uuid \<Rightarrow> ustr \<Rightarrow> (cafe_creation_identity \<times> nat) list" where
  "creation_identities limits session ip =
     [(CreationSession session, room_creations_per_session limits),
      (CreationIp ip, room_creations_per_ip limits),
      (CreationGlobal, room_creations_global limits)]"

definition push_creation ::
  "instant \<Rightarrow> (cafe_creation_identity \<rightharpoonup> instant list) \<Rightarrow> cafe_creation_identity
     \<Rightarrow> (cafe_creation_identity \<rightharpoonup> instant list)" where
  "push_creation now m k = m(k \<mapsto> (case m k of None \<Rightarrow> [] | Some b \<Rightarrow> b) @ [now])"

definition consume_room_creation ::
  "cafe_security_config \<Rightarrow> uuid \<Rightarrow> ustr \<Rightarrow> instant \<Rightarrow> cafe_abuse_state \<times> cafe_telemetry
     \<Rightarrow> app_error option \<times> cafe_abuse_state \<times> cafe_telemetry" where
  "consume_room_creation limits session ip now st =
     (let (abuse0, tel) = st;
          abuse = prune_creation_buckets now (creation_window limits) abuse0;
          identities = creation_identities limits session ip
      in if list_ex (\<lambda>(k, limit). case room_creation_buckets abuse k of
              None \<Rightarrow> False | Some bucket \<Rightarrow> limit \<le> length bucket) identities
         then (Some (Reasoned 429 ''cafe room creation limit reached'' CafeRoomCreationRate
                 (Some (room_creation_window_seconds limits))), abuse,
               tel\<lparr>room_creation_rejections := room_creation_rejections tel + 1\<rparr>)
         else (None, abuse\<lparr>room_creation_buckets :=
                 foldl (push_creation now) (room_creation_buckets abuse) (map fst identities)\<rparr>, tel))"

section \<open>Messages of a socket\<close>

definition max_messages_per_window :: nat where "max_messages_per_window = 45"
definition message_window :: duration where "message_window = secs 2"
definition max_chat_messages_per_window :: nat where "max_chat_messages_per_window = 5"
definition chat_message_window :: duration where "chat_message_window = secs 10"

definition accept_message :: "instant \<Rightarrow> instant list \<Rightarrow> bool \<times> instant list" where
  "accept_message now recent =
     (let recent' = dropWhile (\<lambda>t. message_window < now - t) recent
      in if max_messages_per_window \<le> length recent' then (False, recent')
         else (True, recent' @ [now]))"

definition accept_chat_message :: "instant \<Rightarrow> instant list \<Rightarrow> bool \<times> instant list" where
  "accept_chat_message now recent =
     (let recent' = dropWhile (\<lambda>t. chat_message_window < now - t) recent
      in if max_chat_messages_per_window \<le> length recent' then (False, recent')
         else (True, recent' @ [now]))"

section \<open>The socket counters and the reservations alive\<close>

lemma counter_get_decrement [simp]:
  "counter_get (decrement_counter k m) j = (if j = k then counter_get m k - 1 else counter_get m j)"
  by (auto simp: decrement_counter_def counter_get_def Let_def split: option.split)

interpretation socket_counters: counter_map counter_get counter_incr decrement_counter
  by unfold_locales simp_all

lemma no_zero_decrement: "no_zero_counter m \<Longrightarrow> no_zero_counter (decrement_counter k m)"
  and no_zero_incr: "no_zero_counter m \<Longrightarrow> no_zero_counter (counter_incr k m)"
  by (auto simp: no_zero_counter_def counter_incr_def decrement_counter_def Let_def
      split: option.split)

datatype socket_event = OpenSocket uuid ustr | CloseSocket nat

type_synonym socket_system = "(cafe_abuse_state \<times> cafe_telemetry) \<times> cafe_socket_reservation list"

fun socket_step :: "cafe_security_config \<Rightarrow> socket_system \<Rightarrow> socket_event \<Rightarrow> socket_system" where
  "socket_step limits (st, rs) (OpenSocket session ip) =
     (case reserve_socket limits session ip st of
        (Inl e, st') \<Rightarrow> (st', rs)
      | (Inr r, st') \<Rightarrow> (st', r # rs))"
| "socket_step limits ((abuse, tel), rs) (CloseSocket i) =
     (if i < length rs
      then ((drop_reservation (rs ! i) abuse, tel), take i rs @ drop (Suc i) rs)
      else ((abuse, tel), rs))"

definition socket_run :: "cafe_security_config \<Rightarrow> socket_event list \<Rightarrow> socket_system" where
  "socket_run limits es =
     foldl (socket_step limits) ((abuse_default, telemetry_default), []) es"

definition socket_inv :: "cafe_security_config \<Rightarrow> socket_system \<Rightarrow> bool" where
  "socket_inv limits sys \<longleftrightarrow> (case sys of ((abuse, tel), rs) \<Rightarrow>
     no_zero_counter (sockets_by_session abuse) \<and> no_zero_counter (sockets_by_ip abuse) \<and>
     (\<forall>s. counter_get (sockets_by_session abuse) s = count_if (\<lambda>r. reserved_session r = s) rs) \<and>
     (\<forall>ip. counter_get (sockets_by_ip abuse) ip = count_if (\<lambda>r. reserved_ip r = ip) rs) \<and>
     active_sockets abuse = length rs \<and>
     (\<forall>s. count_if (\<lambda>r. reserved_session r = s) rs \<le> max_sockets_per_session limits) \<and>
     (\<forall>ip. count_if (\<lambda>r. reserved_ip r = ip) rs \<le> max_sockets_per_ip limits) \<and>
     length rs \<le> max_sockets_global limits)"

lemma socket_step_open:
  assumes "socket_inv limits (st, rs)"
  shows "socket_inv limits (socket_step limits (st, rs) (OpenSocket session ip))"
  using assms
  by (cases st) (auto simp: socket_inv_def reserve_socket_def Let_def no_zero_incr)

lemma socket_step_close:
  assumes "socket_inv limits ((abuse, tel), rs)"
  shows "socket_inv limits (socket_step limits ((abuse, tel), rs) (CloseSocket i))"
proof (cases "i < length rs")
  case False
  with assms show ?thesis by simp
next
  case True
  then obtain us vs where rs: "rs = us @ rs ! i # vs" and rest: "take i rs @ drop (Suc i) rs = us @ vs"
    using nth_split by blast
  let ?r = "rs ! i"
  have inv: "socket_inv limits ((abuse, tel), us @ ?r # vs)" using assms rs by simp
  have "count_if (\<lambda>r. reserved_session r = s) (us @ vs) \<le> count_if (\<lambda>r. reserved_session r = s) (us @ ?r # vs)"
    and "count_if (\<lambda>r. reserved_ip r = ip) (us @ vs) \<le> count_if (\<lambda>r. reserved_ip r = ip) (us @ ?r # vs)"
    for s ip by simp_all
  note le = le_trans [OF this(1)] le_trans [OF this(2)]
  have "count_if (\<lambda>r. reserved_session r = s) (us @ vs) \<le> max_sockets_per_session limits" for s
    using inv unfolding socket_inv_def prod.case by (intro le(1)) blast
  moreover have "count_if (\<lambda>r. reserved_ip r = ip) (us @ vs) \<le> max_sockets_per_ip limits" for ip
    using inv unfolding socket_inv_def prod.case by (intro le(2)) blast
  ultimately have "socket_inv limits ((drop_reservation ?r abuse, tel), us @ vs)"
    using inv by (auto simp: socket_inv_def drop_reservation_def release_socket_def no_zero_decrement)
  then show ?thesis using True rest by simp
qed

lemma socket_step_inv: "socket_inv limits sys \<Longrightarrow> socket_inv limits (socket_step limits sys e)"
proof -
  assume inv: "socket_inv limits sys"
  obtain abuse tel rs where sys: "sys = ((abuse, tel), rs)" by (metis prod.collapse)
  show ?thesis using inv unfolding sys by (cases e) (simp_all only: socket_step_open socket_step_close)
qed

datatype socket_scope = SessionScope uuid | IpScope ustr | GlobalScope

fun socket_load :: "socket_system \<Rightarrow> socket_scope \<Rightarrow> nat" where
  "socket_load (st, rs) (SessionScope s) = count_if (\<lambda>r. reserved_session r = s) rs"
| "socket_load (st, rs) (IpScope ip) = count_if (\<lambda>r. reserved_ip r = ip) rs"
| "socket_load (st, rs) GlobalScope = length rs"

fun socket_cap :: "cafe_security_config \<Rightarrow> socket_scope \<Rightarrow> nat" where
  "socket_cap limits (SessionScope s) = max_sockets_per_session limits"
| "socket_cap limits (IpScope ip) = max_sockets_per_ip limits"
| "socket_cap limits GlobalScope = max_sockets_global limits"

interpretation sockets: capped_machine "socket_step limits" "socket_inv limits" socket_load "socket_cap limits"
proof
  show "socket_inv limits s \<Longrightarrow> socket_inv limits (socket_step limits s e)" for s e
    by (rule socket_step_inv)
  show "socket_inv limits s \<Longrightarrow> socket_load s k \<le> socket_cap limits k" for s k
    by (cases k; cases s) (auto simp: socket_inv_def)
qed

lemma socket_start_inv: "socket_inv limits ((abuse_default, telemetry_default), [])"
  by (simp add: socket_inv_def abuse_default_def no_zero_counter_def)

section \<open>The windows\<close>

text \<open>One bucket of room creations, followed through requests and cleanups.\<close>

datatype creation_event = CreationRequest uuid ustr instant | CreationPrune instant

fun creation_time :: "creation_event \<Rightarrow> instant" where
  "creation_time (CreationRequest s ip now) = now"
| "creation_time (CreationPrune now) = now"

fun creation_hits :: "cafe_creation_identity \<Rightarrow> creation_event \<Rightarrow> bool" where
  "creation_hits k (CreationRequest s ip now) = (k \<in> {CreationSession s, CreationIp ip, CreationGlobal})"
| "creation_hits k (CreationPrune now) = False"

fun creation_step ::
  "cafe_security_config \<Rightarrow> cafe_abuse_state \<times> cafe_telemetry \<Rightarrow> creation_event
     \<Rightarrow> bool \<times> cafe_abuse_state \<times> cafe_telemetry" where
  "creation_step limits st (CreationRequest s ip now) =
     (let (err, st') = consume_room_creation limits s ip now st in (err = None, st'))"
| "creation_step limits (abuse, tel) (CreationPrune now) =
     (False, prune_creation_buckets now (creation_window limits) abuse, tel)"

fun creation_limit :: "cafe_security_config \<Rightarrow> cafe_creation_identity \<Rightarrow> nat" where
  "creation_limit limits (CreationSession s) = room_creations_per_session limits"
| "creation_limit limits (CreationIp ip) = room_creations_per_ip limits"
| "creation_limit limits CreationGlobal = room_creations_global limits"

definition creation_bucket ::
  "cafe_creation_identity \<Rightarrow> cafe_abuse_state \<times> cafe_telemetry \<Rightarrow> instant list" where
  "creation_bucket k st = (case room_creation_buckets (fst st) k of None \<Rightarrow> [] | Some b \<Rightarrow> b)"

definition creation_stale :: "cafe_security_config \<Rightarrow> instant \<Rightarrow> instant \<Rightarrow> bool" where
  "creation_stale limits n t \<longleftrightarrow> creation_window limits \<le> n - t"

lemma creation_bucket_prune:
  "creation_bucket k (prune_creation_buckets now (creation_window limits) abuse, tel)
     = dropWhile (creation_stale limits now) (creation_bucket k (abuse, tel))"
  by (cases "room_creation_buckets abuse k")
    (simp_all add: creation_bucket_def prune_creation_buckets_def creation_stale_def [abs_def] Let_def
      del: dropWhile_eq_Nil_conv)

lemma creation_bucket_push:
  "creation_bucket k (abuse\<lparr>room_creation_buckets := push_creation now (room_creation_buckets abuse) j\<rparr>, tel)
     = creation_bucket k (abuse, tel) @ (if k = j then [now] else [])"
  by (auto simp: creation_bucket_def push_creation_def)

lemma creation_bucket_pushes:
  assumes "distinct ks"
  shows "creation_bucket k (abuse\<lparr>room_creation_buckets := foldl (push_creation now) (room_creation_buckets abuse) ks\<rparr>, tel)
     = creation_bucket k (abuse, tel) @ (if k \<in> set ks then [now] else [])"
  using assms
proof (induction ks arbitrary: abuse)
  case (Cons j ks)
  let ?a = "abuse\<lparr>room_creation_buckets := push_creation now (room_creation_buckets abuse) j\<rparr>"
  show ?case
    using Cons.IH [of ?a] Cons.prems creation_bucket_push [of k now abuse j tel] by auto
qed simp

lemma creation_request_step:
  assumes "consume_room_creation limits s ip now st = (err, st')"
  shows "creation_bucket k st' = dropWhile (creation_stale limits now) (creation_bucket k st)
      @ (if err = None \<and> k \<in> {CreationSession s, CreationIp ip, CreationGlobal} then [now] else [])"
    and "err = None \<Longrightarrow> k \<in> {CreationSession s, CreationIp ip, CreationGlobal} \<Longrightarrow>
      length (dropWhile (creation_stale limits now) (creation_bucket k st)) < max 1 (creation_limit limits k)"
proof -
  obtain abuse0 tel where st: "st = (abuse0, tel)" by (cases st)
  let ?a = "prune_creation_buckets now (creation_window limits) abuse0"
  let ?ids = "creation_identities limits s ip"
  let ?full = "list_ex (\<lambda>(k, limit). case room_creation_buckets ?a k of
              None \<Rightarrow> False | Some bucket \<Rightarrow> limit \<le> length bucket) ?ids"
  have keys: "distinct (map fst ?ids)"
    and set: "set (map fst ?ids) = {CreationSession s, CreationIp ip, CreationGlobal}"
    by (auto simp: creation_identities_def)
  note prune = creation_bucket_prune [of k now limits abuse0]
  show "creation_bucket k st' = dropWhile (creation_stale limits now) (creation_bucket k st)
      @ (if err = None \<and> k \<in> {CreationSession s, CreationIp ip, CreationGlobal} then [now] else [])"
  proof (cases ?full)
    case True
    with assms have "err \<noteq> None" "fst st' = ?a"
      by (auto simp: consume_room_creation_def st Let_def)
    with prune [of "snd st'"] show ?thesis by (simp add: st creation_bucket_def)
  next
    case False
    with assms have e: "err = None"
      and st': "st' = (?a\<lparr>room_creation_buckets := foldl (push_creation now) (room_creation_buckets ?a) (map fst ?ids)\<rparr>, tel)"
      by (simp_all add: consume_room_creation_def st Let_def)
    show ?thesis unfolding st' st creation_bucket_pushes [OF keys] prune set using e by simp
  qed
  assume err: "err = None" and k: "k \<in> {CreationSession s, CreationIp ip, CreationGlobal}"
  have "\<not> ?full" using assms err by (auto simp: consume_room_creation_def st Let_def split: if_splits)
  moreover have "(k, creation_limit limits k) \<in> set ?ids" using k by (auto simp: creation_identities_def)
  ultimately have "case room_creation_buckets ?a k of None \<Rightarrow> True
      | Some b \<Rightarrow> length b < creation_limit limits k"
    by (fastforce simp: list_ex_iff not_le split: option.splits)
  then have "length (creation_bucket k (?a, tel)) < max 1 (creation_limit limits k)"
    by (auto simp: creation_bucket_def split: option.splits)
  then show "length (dropWhile (creation_stale limits now) (creation_bucket k st))
      < max 1 (creation_limit limits k)"
    unfolding prune by (simp add: st)
qed

interpretation creation_gate:
  window_gate "creation_step limits" "creation_bucket k" creation_time "creation_hits k"
    "creation_stale limits" "max 1 (creation_limit limits k)"
proof
  fix s e ok s'
  assume step: "creation_step limits s e = (ok, s')"
  show "creation_bucket k s' = dropWhile (creation_stale limits (creation_time e)) (creation_bucket k s)
      @ (if ok \<and> creation_hits k e then [creation_time e] else [])"
  proof (cases e)
    case (CreationRequest session ip now)
    with step obtain err where "consume_room_creation limits session ip now s = (err, s')" "ok = (err = None)"
      by (auto split: prod.splits)
    with creation_request_step(1) [OF this(1), of k] CreationRequest show ?thesis by simp
  next
    case (CreationPrune now)
    with step show ?thesis by (cases s) (auto simp: creation_bucket_prune)
  qed
next
  fix s e s'
  assume step: "creation_step limits s e = (True, s')" and hit: "creation_hits k e"
  then obtain session ip now where e: "e = CreationRequest session ip now" by (cases e) auto
  with step have "consume_room_creation limits session ip now s = (None, s')"
    by (auto split: prod.splits)
  from creation_request_step(2) [OF this, of k] hit e
  show "length (dropWhile (creation_stale limits (creation_time e)) (creation_bucket k s))
      < max 1 (creation_limit limits k)" by simp
next
  show "creation_stale limits n t \<Longrightarrow> n \<le> n' \<Longrightarrow> creation_stale limits n' t" for n n' t
    by (simp add: creation_stale_def)
qed

definition message_stale :: "duration \<Rightarrow> instant \<Rightarrow> instant \<Rightarrow> bool" where
  "message_stale window n t \<longleftrightarrow> window < n - t"

interpretation message_gate:
  window_gate "\<lambda>q now. accept_message now q" "\<lambda>q. q" "\<lambda>now. now" "\<lambda>_. True"
    "message_stale message_window" max_messages_per_window
  by unfold_locales
    (auto simp: accept_message_def Let_def message_stale_def [abs_def] not_le split: if_splits)

interpretation chat_message_gate:
  window_gate "\<lambda>q now. accept_chat_message now q" "\<lambda>q. q" "\<lambda>now. now" "\<lambda>_. True"
    "message_stale chat_message_window" max_chat_messages_per_window
  by unfold_locales
    (auto simp: accept_chat_message_def Let_def message_stale_def [abs_def] not_le split: if_splits)

section \<open>Properties\<close>

text \<open>
  C33: However sockets are opened and closed, the sockets alive never exceed the limit per session,
  per address or in total, and the hub counts each of the three exactly; when all sockets are
  closed no counter entry is left behind.
\<close>

theorem cafe_sockets_bounded:
  "case socket_run limits es of ((abuse, tel), alive) \<Rightarrow>
     active_sockets abuse = length alive \<and> length alive \<le> max_sockets_global limits
     \<and> (\<forall>s. counter_get (sockets_by_session abuse) s = count_if (\<lambda>r. reserved_session r = s) alive
          \<and> counter_get (sockets_by_session abuse) s \<le> max_sockets_per_session limits)
     \<and> (\<forall>ip. counter_get (sockets_by_ip abuse) ip = count_if (\<lambda>r. reserved_ip r = ip) alive
          \<and> counter_get (sockets_by_ip abuse) ip \<le> max_sockets_per_ip limits)
     \<and> (alive = [] \<longrightarrow> sockets_by_session abuse = [] \<and> sockets_by_ip abuse = [])"
proof -
  have inv: "socket_inv limits (socket_run limits es)"
    unfolding socket_run_def by (rule sockets.run_inv) (rule socket_start_inv)
  then show ?thesis
    by (auto simp: socket_inv_def intro: no_zero_counter_empty)
qed

definition demo_cafe_limits :: cafe_security_config where
  "demo_cafe_limits = \<lparr>max_sockets_per_session = 1, max_sockets_per_ip = 2, max_sockets_global = 3,
     room_creations_per_session = 1, room_creations_per_ip = 2, room_creations_global = 3,
     room_creation_window_seconds = 60, websocket_max_bytes = 4096, never_joined_ttl_seconds = 60,
     empty_room_ttl_seconds = 60\<rparr>"

theorem cafe_sockets_bounded_witness:
  "\<exists>abuse tel. socket_run demo_cafe_limits
      [OpenSocket 1 [], OpenSocket 1 [], OpenSocket 2 [], CloseSocket 0, CloseSocket 0] = ((abuse, tel), [])
    \<and> sockets_by_ip abuse = []"
proof -
  let ?es = "[OpenSocket 1 [], OpenSocket 1 [], OpenSocket 2 [], CloseSocket 0, CloseSocket 0]"
  obtain abuse tel where run: "socket_run demo_cafe_limits ?es = ((abuse, tel), [])"
    by (simp add: socket_run_def reserve_socket_def abuse_default_def demo_cafe_limits_def
        counter_get_def counter_incr_def hm_get_def hm_insert_def)
  with cafe_sockets_bounded [of demo_cafe_limits ?es] show ?thesis by simp
qed

text \<open>
  The room creations admitted for a session, for an address and in total stay within their limit
  in every window that ends at an admitted creation, with cleanups and refused requests anywhere in
  between. A limit of zero still admits the first request of a window.
\<close>

theorem cafe_creations_bounded:
  assumes "sorted (map creation_time es)"
  shows "windows_bounded (creation_stale limits) (max 1 (creation_limit limits k))
    (map creation_time (admitted_run (creation_step limits) (creation_hits k)
       (abuse_default, telemetry_default) es))"
  by (rule creation_gate.run_windows_bounded [OF assms]) (simp add: creation_bucket_def abuse_default_def)

theorem cafe_creations_bounded_witness:
  "windows_bounded (creation_stale demo_cafe_limits) 1
    (map creation_time (admitted_run (creation_step demo_cafe_limits) (creation_hits (CreationSession 1))
       (abuse_default, telemetry_default)
       [CreationRequest 1 [] 0, CreationRequest 1 [] 5, CreationPrune 7, CreationRequest 1 [] (secs 60)]))"
  using cafe_creations_bounded [of "[CreationRequest 1 [] 0, CreationRequest 1 [] 5, CreationPrune 7,
      CreationRequest 1 [] (secs 60)]" demo_cafe_limits "CreationSession 1"]
  by (simp add: demo_cafe_limits_def secs_def)

text \<open>
  A socket has at most 45 messages accepted in two seconds and, of those that are chat messages,
  at most 5 in ten seconds.
\<close>

theorem cafe_messages_bounded:
  assumes "sorted ts"
  shows "windows_bounded (message_stale (secs 2)) 45
      (admitted_run (\<lambda>q now. accept_message now q) (\<lambda>_. True) [] ts)
    \<and> windows_bounded (message_stale (secs 10)) 5
      (admitted_run (\<lambda>q now. accept_chat_message now q) (\<lambda>_. True) [] ts)"
  using message_gate.run_windows_bounded [of ts "[]"] chat_message_gate.run_windows_bounded [of ts "[]"] assms
  by (simp add: max_messages_per_window_def max_chat_messages_per_window_def message_window_def
      chat_message_window_def)

theorem cafe_messages_bounded_witness:
  "windows_bounded (message_stale (secs 10)) 5
     (admitted_run (\<lambda>q now. accept_chat_message now q) (\<lambda>_. True) [] [0, 1, 2, 3, 4, 5, 6])"
  using cafe_messages_bounded [of "[0, 1, 2, 3, 4, 5, 6]"] by simp

end
