(* ===== verification/F32.thy ===== *)
theory F32
  imports Complex_Main
begin

text \<open>
  The \<open>f32\<close> arithmetic the Cafe map uses. A value is not a number, an infinity, or a rational; the
  operations compute the exact rational result and round it to the nearest binary32 value, ties to
  even, with overflow to infinity and gradual underflow, as IEEE 754 and Rust do. The sign of zero is
  not kept: the source divides only by distances above zero and compares, so it never tells the two
  zeros apart. The square root is the rounded exact root, from an integer square root with a sticky
  bit.
\<close>

datatype f32 = NaN | Inf bool | Fin rat

section \<open>Integer square root\<close>

fun isqrt :: "nat \<Rightarrow> nat" where
  "isqrt n =
     (if n = 0 then 0
      else let r = 2 * isqrt (n div 4) in if (r + 1) * (r + 1) \<le> n then r + 1 else r)"

declare isqrt.simps [simp del]

lemma isqrt_0 [simp]: "isqrt 0 = 0"
  by (simp add: isqrt.simps)

lemma isqrt_correct: "isqrt n * isqrt n \<le> n \<and> n < (isqrt n + 1) * (isqrt n + 1)"
proof (induction n rule: isqrt.induct)
  case (1 n)
  show ?case
  proof (cases "n = 0")
    case True
    then show ?thesis by simp
  next
    case False
    define q where "q = isqrt (n div 4)"
    have q: "q * q \<le> n div 4" "n div 4 < (q + 1) * (q + 1)" using 1 False by (simp_all add: q_def)
    have "4 * (n div 4) \<le> n" "n < 4 * (n div 4) + 4" by linarith+
    with q have b: "(2 * q) * (2 * q) \<le> n" "n < (2 * q + 2) * (2 * q + 2)"
      by (simp_all add: algebra_simps)
    have "isqrt n = (if (2 * q + 1) * (2 * q + 1) \<le> n then 2 * q + 1 else 2 * q)"
      using False by (subst isqrt.simps) (simp add: q_def Let_def)
    with b show ?thesis by (auto simp: algebra_simps)
  qed
qed

section \<open>Rounding\<close>

text \<open>\<open>f32::MAX\<close>, and half a unit in its last place above it, where rounding reaches infinity.\<close>

definition f32_max :: rat where
  "f32_max = 2 ^ 128 - 2 ^ 104"

definition f32_overflow :: rat where
  "f32_overflow = 2 ^ 128 - 2 ^ 103"

definition round_half_even :: "rat \<Rightarrow> int" where
  "round_half_even q =
     (let n = \<lfloor>q\<rfloor>; r = q - of_int n
      in if r < 1 / 2 then n
         else if r > 1 / 2 then n + 1
         else if even n then n else n + 1)"

text \<open>The binary exponent of a positive rational below the overflow, no less than \<open>-126\<close>.\<close>

fun exponent_above :: "nat \<Rightarrow> rat \<Rightarrow> nat" where
  "exponent_above 0 q = 0"
| "exponent_above (Suc fuel) q = (if q < 2 then 0 else Suc (exponent_above fuel (q / 2)))"

fun exponent_below :: "nat \<Rightarrow> rat \<Rightarrow> nat" where
  "exponent_below 0 q = 0"
| "exponent_below (Suc fuel) q = (if 1 \<le> q then 0 else Suc (exponent_below fuel (q * 2)))"

definition f32_ulp :: "rat \<Rightarrow> rat" where
  "f32_ulp q =
     (if 1 \<le> q then 2 ^ exponent_above 127 q / 2 ^ 23
      else 1 / 2 ^ (exponent_below 126 q + 23))"

definition round_abs :: "rat \<Rightarrow> rat" where
  "round_abs q = of_int (round_half_even (q / f32_ulp q)) * f32_ulp q"

definition f32_round :: "rat \<Rightarrow> f32" where
  "f32_round q =
     (if f32_overflow \<le> \<bar>q\<bar> then Inf (q < 0)
      else if q < 0 then Fin (- round_abs (- q)) else Fin (round_abs q))"

section \<open>Operations\<close>

fun is_finite :: "f32 \<Rightarrow> bool" where
  "is_finite (Fin q) = True"
| "is_finite _ = False"

fun f32_neg :: "f32 \<Rightarrow> f32" where
  "f32_neg NaN = NaN"
| "f32_neg (Inf s) = Inf (\<not> s)"
| "f32_neg (Fin q) = Fin (- q)"

fun f32_add :: "f32 \<Rightarrow> f32 \<Rightarrow> f32" where
  "f32_add (Fin a) (Fin b) = f32_round (a + b)"
| "f32_add (Inf s) (Inf t) = (if s = t then Inf s else NaN)"
| "f32_add (Inf s) (Fin b) = Inf s"
| "f32_add (Fin a) (Inf t) = Inf t"
| "f32_add _ _ = NaN"

definition f32_sub :: "f32 \<Rightarrow> f32 \<Rightarrow> f32" where
  "f32_sub a b = f32_add a (f32_neg b)"

fun f32_mul :: "f32 \<Rightarrow> f32 \<Rightarrow> f32" where
  "f32_mul (Fin a) (Fin b) = f32_round (a * b)"
| "f32_mul (Inf s) (Inf t) = Inf (s \<noteq> t)"
| "f32_mul (Inf s) (Fin b) = (if b = 0 then NaN else Inf (s \<noteq> (b < 0)))"
| "f32_mul (Fin a) (Inf t) = (if a = 0 then NaN else Inf ((a < 0) \<noteq> t))"
| "f32_mul _ _ = NaN"

text \<open>A division by zero takes the divisor as \<open>+0\<close>.\<close>

fun f32_div :: "f32 \<Rightarrow> f32 \<Rightarrow> f32" where
  "f32_div (Fin a) (Fin b) =
     (if b = 0 then (if a = 0 then NaN else Inf (a < 0)) else f32_round (a / b))"
| "f32_div (Fin a) (Inf t) = Fin 0"
| "f32_div (Inf s) (Fin b) = Inf (s \<noteq> (b < 0))"
| "f32_div (Inf s) (Inf t) = NaN"
| "f32_div _ _ = NaN"

text \<open>
  \<open>sqrt\<close>: \<open>r\<close> is the root of \<open>q * 4 ^ 150\<close> rounded down and the last bit says whether it is exact;
  no binary32 value and no midpoint of two lies strictly between the root and what is rounded.
\<close>

definition sqrt_sticky :: "rat \<Rightarrow> rat" where
  "sqrt_sticky q =
     (let n = nat \<lfloor>q * 4 ^ 150\<rfloor>; r = isqrt n
      in of_nat (2 * r + (if of_nat (r * r) = q * 4 ^ 150 then 0 else 1)) / 2 ^ 151)"

fun f32_sqrt :: "f32 \<Rightarrow> f32" where
  "f32_sqrt (Fin q) = (if q < 0 then NaN else f32_round (sqrt_sticky q))"
| "f32_sqrt (Inf False) = Inf False"
| "f32_sqrt _ = NaN"

text \<open>\<open><\<close> and \<open><=\<close>, false on a value that is not a number.\<close>

fun f32_less :: "f32 \<Rightarrow> f32 \<Rightarrow> bool" where
  "f32_less (Fin a) (Fin b) = (a < b)"
| "f32_less (Inf s) (Inf t) = (s \<and> \<not> t)"
| "f32_less (Inf s) (Fin b) = s"
| "f32_less (Fin a) (Inf t) = (\<not> t)"
| "f32_less _ _ = False"

fun f32_le :: "f32 \<Rightarrow> f32 \<Rightarrow> bool" where
  "f32_le (Fin a) (Fin b) = (a \<le> b)"
| "f32_le (Inf s) (Inf t) = (s \<or> \<not> t)"
| "f32_le (Inf s) (Fin b) = s"
| "f32_le (Fin a) (Inf t) = (\<not> t)"
| "f32_le _ _ = False"

definition f32_clamp :: "f32 \<Rightarrow> f32 \<Rightarrow> f32 \<Rightarrow> f32" where
  "f32_clamp lo hi v = (if f32_less v lo then lo else if f32_less hi v then hi else v)"

section \<open>What the map's arithmetic needs\<close>

lemma f32_round_not_nan [simp]: "f32_round q \<noteq> NaN"
  by (simp add: f32_round_def)

lemma f32_round_finite: "\<bar>q\<bar> < f32_overflow \<Longrightarrow> \<exists>r. f32_round q = Fin r"
  by (simp add: f32_round_def)

lemma round_half_even_int [simp]: "round_half_even (of_int n) = n"
  by (simp add: round_half_even_def)

lemma round_half_even_nonneg: "0 \<le> q \<Longrightarrow> 0 \<le> round_half_even q"
  by (simp add: round_half_even_def Let_def)

lemma f32_ulp_pos: "0 < f32_ulp q"
  by (simp add: f32_ulp_def)

lemma round_abs_nonneg: "0 \<le> q \<Longrightarrow> 0 \<le> round_abs q"
  unfolding round_abs_def using f32_ulp_pos [of q]
  by (intro mult_nonneg_nonneg) (simp_all add: round_half_even_nonneg less_imp_le)

lemma f32_round_nonneg: "0 \<le> q \<Longrightarrow> f32_round q = Inf False \<or> (\<exists>r\<ge>0. f32_round q = Fin r)"
  by (auto simp: f32_round_def round_abs_nonneg)

lemma f32_round_0 [simp]: "f32_round 0 = Fin 0"
  by (simp add: f32_round_def f32_overflow_def round_abs_def round_half_even_def)

lemma f32_round_minus: "f32_round (- q) = f32_neg (f32_round q)"
  by (cases "q = 0") (auto simp: f32_round_def f32_overflow_def round_abs_def round_half_even_def)

lemma f32_sqrt_0 [simp]: "f32_sqrt (Fin 0) = Fin 0"
  by (simp add: sqrt_sticky_def)

lemma sqrt_sticky_nonneg: "0 \<le> sqrt_sticky q"
  by (simp add: sqrt_sticky_def Let_def)

lemma f32_clamp_range:
  assumes "v \<noteq> NaN" and "a \<le> b"
  shows "\<exists>q. f32_clamp (Fin a) (Fin b) v = Fin q \<and> a \<le> q \<and> q \<le> b"
  using assms by (cases v) (auto simp: f32_clamp_def)

lemma f32_clamp_id: "a \<le> q \<Longrightarrow> q \<le> b \<Longrightarrow> f32_clamp (Fin a) (Fin b) (Fin q) = Fin q"
  by (simp add: f32_clamp_def)

section \<open>The rounding error\<close>

lemma round_half_even_le: "of_int (round_half_even q) \<le> q + 1 / 2"
proof -
  have f: "of_int \<lfloor>q\<rfloor> \<le> q" by (rule of_int_floor_le)
  consider "q - of_int \<lfloor>q\<rfloor> < 1 / 2" | "1 / 2 \<le> q - of_int \<lfloor>q\<rfloor>" by linarith
  then show ?thesis
  proof cases
    case 1
    then have "round_half_even q = \<lfloor>q\<rfloor>" by (simp only: round_half_even_def Let_def if_True)
    with f show ?thesis by linarith
  next
    case 2
    have "round_half_even q \<le> \<lfloor>q\<rfloor> + 1" by (auto simp: round_half_even_def Let_def)
    then have "(of_int (round_half_even q) :: rat) \<le> of_int (\<lfloor>q\<rfloor> + 1)" by (simp only: of_int_le_iff)
    with 2 show ?thesis by simp
  qed
qed

lemma round_half_even_below:
  assumes "q < of_int n - 1 / 2"
  shows "round_half_even q \<le> n - 1"
proof -
  have "(of_int (round_half_even q) :: rat) < of_int n"
    using round_half_even_le [of q] assms by linarith
  then show ?thesis by linarith
qed

lemma round_half_even_ge_1: "1 \<le> q \<Longrightarrow> 1 \<le> round_half_even q"
  by (auto simp: round_half_even_def Let_def le_floor_iff)

lemma exponent_above_le: "1 \<le> q \<Longrightarrow> 2 ^ exponent_above fuel q \<le> q"
  by (induction fuel q rule: exponent_above.induct) auto

lemma exponent_above_eq:
  "k \<le> fuel \<Longrightarrow> 2 ^ k \<le> q \<Longrightarrow> q < 2 ^ Suc k \<Longrightarrow> exponent_above fuel q = k"
proof (induction fuel arbitrary: k q)
  case (Suc fuel)
  show ?case
  proof (cases k)
    case 0
    with Suc.prems show ?thesis by simp
  next
    case (Suc j)
    then have "2 \<le> q" using Suc.prems(2) order_trans [of 2 "2 * 2 ^ j" q] by simp
    moreover have "exponent_above fuel (q / 2) = j"
      using Suc Suc.prems by (intro Suc.IH) simp_all
    ultimately show ?thesis using Suc by simp
  qed
qed simp

lemma f32_ulp_le: "f32_ulp q \<le> max (q / 2 ^ 23) (1 / 2 ^ 23)"
proof (cases "1 \<le> q")
  case True
  then have "f32_ulp q = 2 ^ exponent_above 127 q / 2 ^ 23" by (simp add: f32_ulp_def)
  also have "\<dots> \<le> q / 2 ^ 23"
    using exponent_above_le [OF True, of 127] by (intro divide_right_mono) simp_all
  finally show ?thesis by simp
next
  case False
  have "(2 :: rat) ^ 23 \<le> 2 ^ (exponent_below 126 q + 23)" by (rule power_increasing) simp_all
  then have "f32_ulp q \<le> 1 / 2 ^ 23"
    using False by (simp add: f32_ulp_def frac_le)
  then show ?thesis by simp
qed

lemma round_abs_le: "round_abs q \<le> q + f32_ulp q / 2"
proof -
  have "round_abs q \<le> (q / f32_ulp q + 1 / 2) * f32_ulp q"
    unfolding round_abs_def using f32_ulp_pos [of q]
    by (intro mult_right_mono round_half_even_le) simp
  also have "\<dots> = q + f32_ulp q / 2" using f32_ulp_pos [of q] by (simp add: field_simps)
  finally show ?thesis .
qed

lemma round_abs_pos:
  assumes "1 \<le> q"
  shows "0 < round_abs q"
proof -
  have "f32_ulp q \<le> q" using f32_ulp_le [of q] assms by (auto simp: max_def split: if_splits)
  then have "1 \<le> q / f32_ulp q" using f32_ulp_pos [of q] by (simp add: le_divide_eq)
  from round_half_even_ge_1 [OF this] show ?thesis
    unfolding round_abs_def using f32_ulp_pos [of q] by (intro mult_pos_pos) simp_all
qed

text \<open>A value with an integer number of units is exact; so is every integer below \<open>2 ^ 24\<close>.\<close>

lemma round_abs_exact:
  assumes "q = of_int n * f32_ulp q"
  shows "round_abs q = q"
proof -
  have "q / f32_ulp q = of_int n" using assms f32_ulp_pos [of q] by (simp add: field_simps)
  then show ?thesis using assms by (simp add: round_abs_def)
qed

lemma f32_round_nat:
  assumes "n < 2 ^ 24"
  shows "f32_round (of_nat n) = Fin (of_nat n)"
proof (cases "n = 0")
  case False
  let ?q = "of_nat n :: rat"
  let ?e = "exponent_above 127 ?q"
  have q1: "1 \<le> ?q" using False by simp
  have "(2 :: rat) ^ ?e \<le> ?q" by (rule exponent_above_le [OF q1])
  also have "?q < 2 ^ 24" using assms by (metis of_nat_less_iff of_nat_numeral of_nat_power)
  finally have "?e < 24" by (rule power_less_imp_less_exp [rotated]) simp
  then have "(2 :: rat) ^ 23 = 2 ^ (23 - ?e) * 2 ^ ?e" by (simp flip: power_add)
  then have "?q = of_int (int n * 2 ^ (23 - ?e)) * f32_ulp ?q"
    using q1 by (simp add: f32_ulp_def)
  then have "round_abs ?q = ?q" by (rule round_abs_exact)
  moreover have "\<bar>?q\<bar> < f32_overflow"
    using \<open>?q < 2 ^ 24\<close> by (simp add: f32_overflow_def)
  ultimately show ?thesis by (simp add: f32_round_def)
qed simp

text \<open>What rounding produces is an \<open>f32\<close> value: finite ones are at most \<open>f32::MAX\<close>.\<close>

lemma round_abs_max:
  assumes "0 \<le> q" and "q < f32_overflow"
  shows "round_abs q \<le> f32_max"
proof (cases "2 ^ 127 \<le> q")
  case True
  have "1 \<le> q" using True by (rule order_trans [rotated]) simp
  moreover have "exponent_above 127 q = 127"
    using True assms(2) by (intro exponent_above_eq) (simp_all add: f32_overflow_def)
  ultimately have u: "f32_ulp q = 2 ^ 104" by (simp add: f32_ulp_def)
  have "round_half_even (q / 2 ^ 104) \<le> 2 ^ 24 - 1"
    using assms(2) by (intro round_half_even_below) (simp add: f32_overflow_def)
  then have "(of_int (round_half_even (q / 2 ^ 104)) :: rat) \<le> of_int (2 ^ 24 - 1)"
    by (simp only: of_int_le_iff)
  then have "round_abs q \<le> of_int (2 ^ 24 - 1) * 2 ^ 104"
    unfolding round_abs_def u by (rule mult_right_mono) simp
  then show ?thesis by (simp add: f32_max_def)
next
  case False
  then have q: "q \<le> 2 ^ 127" by simp
  have "f32_ulp q \<le> 2 ^ 127 / 2 ^ 23"
  proof -
    have "q / 2 ^ 23 \<le> 2 ^ 127 / 2 ^ 23" by (rule divide_right_mono [OF q]) simp
    moreover have "(1 :: rat) / 2 ^ 23 \<le> 2 ^ 127 / 2 ^ 23" by (rule divide_right_mono) simp_all
    ultimately show ?thesis using f32_ulp_le [of q] by (meson max.bounded_iff order_trans)
  qed
  then have "round_abs q \<le> 2 ^ 127 + 2 ^ 127 / 2 ^ 23"
    using round_abs_le [of q] q f32_ulp_pos [of q] by linarith
  also have "\<dots> \<le> f32_max" by (simp add: f32_max_def)
  finally show ?thesis .
qed

definition f32_value :: "f32 \<Rightarrow> bool" where
  "f32_value v \<longleftrightarrow> (\<forall>q. v = Fin q \<longrightarrow> \<bar>q\<bar> \<le> f32_max)"

lemma f32_value_round: "f32_value (f32_round q)"
  using round_abs_max [of q] round_abs_max [of "- q"] round_abs_nonneg [of q] round_abs_nonneg [of "- q"]
  by (auto simp: f32_value_def f32_round_def split: if_splits)

section \<open>Values that are not negative\<close>

definition f32_nonneg :: "f32 \<Rightarrow> bool" where
  "f32_nonneg v \<longleftrightarrow> v = Inf False \<or> (\<exists>r\<ge>0. v = Fin r)"

lemma f32_nonneg_round [simp]: "0 \<le> q \<Longrightarrow> f32_nonneg (f32_round q)"
  using f32_round_nonneg by (auto simp: f32_nonneg_def)

lemma f32_nonneg_Fin [simp]: "f32_nonneg (Fin q) \<longleftrightarrow> 0 \<le> q"
  by (simp add: f32_nonneg_def)

lemma f32_nonneg_not_nan: "f32_nonneg v \<Longrightarrow> v \<noteq> NaN"
  by (auto simp: f32_nonneg_def)

lemma f32_nonneg_add: "f32_nonneg a \<Longrightarrow> f32_nonneg b \<Longrightarrow> f32_nonneg (f32_add a b)"
proof -
  have "f32_nonneg (f32_round (r + r'))" if "0 \<le> r" "0 \<le> r'" for r r' using that by simp
  moreover assume "f32_nonneg a" "f32_nonneg b"
  ultimately show ?thesis by (cases a; cases b) (simp_all add: f32_nonneg_def)
qed

lemma f32_nonneg_sqrt: "f32_nonneg a \<Longrightarrow> f32_nonneg (f32_sqrt a)"
  using f32_round_nonneg [OF sqrt_sticky_nonneg] by (fastforce simp: f32_nonneg_def)

lemma f32_nonneg_square: "a \<noteq> NaN \<Longrightarrow> f32_nonneg (f32_mul a a)"
  using f32_round_nonneg by (cases a) (auto simp: f32_nonneg_def)

lemma f32_nonneg_div: "f32_nonneg a \<Longrightarrow> 0 < r \<Longrightarrow> f32_nonneg (f32_div a (Fin r))"
proof (cases a)
  case (Fin q)
  moreover assume "f32_nonneg a" "0 < r"
  moreover have "f32_nonneg (f32_round (q / r))" if "0 \<le> q" "0 < r" using that by simp
  ultimately show ?thesis by simp
qed (auto simp: f32_nonneg_def)

end
