(* ===== verification/Cafe_Map.thy ===== *)
theory Cafe_Map
  imports F32 Wf_Prelude
begin

text \<open>
  The map of the Cafe (\<open>cafe.rs\<close>): its layout constants, the collision test, the interaction targets
  and the authoritative position update of a player. The last section shows that a position the
  server stores is on the map and outside every collider, whatever a client sends.
\<close>

section \<open>Layout\<close>

type_synonym position = "f32 \<times> f32"

record cafe_map_collider =
  collider_id :: string
  collider_x :: f32
  collider_y :: f32
  collider_width :: f32
  collider_height :: f32

record interaction_target =
  target_key :: string
  target_x :: f32
  target_y :: f32

definition map_width :: f32 where "map_width = Fin 1280"
definition map_height :: f32 where "map_height = Fin 800"
definition player_collision_radius :: f32 where "player_collision_radius = Fin 10"
definition interaction_radius :: f32 where "interaction_radius = Fin 92"
definition host_interaction_radius :: f32 where "host_interaction_radius = Fin 132"
definition player_spawn :: position where "player_spawn = (Fin 640, Fin 704)"
definition service_counter_target_id :: string where
  "service_counter_target_id = ''service-counter''"

definition new_collider :: "string \<Rightarrow> f32 \<Rightarrow> f32 \<Rightarrow> f32 \<Rightarrow> f32 \<Rightarrow> cafe_map_collider" where
  "new_collider i x y w h =
     \<lparr>collider_id = i, collider_x = x, collider_y = y, collider_width = w, collider_height = h\<rparr>"

definition cafe_map_colliders :: "cafe_map_collider list" where
  "cafe_map_colliders =
     [new_collider ''service-counter'' (Fin 366) (Fin 182) (Fin 488) (Fin 120),
      new_collider ''table-window'' (Fin 190) (Fin 322) (Fin 120) (Fin 122),
      new_collider ''table-window-lower'' (Fin 188) (Fin 540) (Fin 108) (Fin 100),
      new_collider ''table-garden'' (Fin 990) (Fin 338) (Fin 114) (Fin 106),
      new_collider ''table-garden-lower'' (Fin 990) (Fin 544) (Fin 112) (Fin 104),
      new_collider ''table-long'' (Fin 460) (Fin 523) (Fin 352) (Fin 98)]"

definition cafe_map_interaction_targets :: "interaction_target list" where
  "cafe_map_interaction_targets =
     [\<lparr>target_key = ''aiko'', target_x = Fin 640, target_y = Fin 272\<rparr>,
      \<lparr>target_key = service_counter_target_id, target_x = Fin 640, target_y = Fin 272\<rparr>,
      \<lparr>target_key = ''table-window'', target_x = Fin 250, target_y = Fin 383\<rparr>,
      \<lparr>target_key = ''table-garden'', target_x = Fin 1047, target_y = Fin 391\<rparr>,
      \<lparr>target_key = ''table-long'', target_x = Fin 636, target_y = Fin 573\<rparr>]"

section \<open>Geometry\<close>

definition distance_between :: "position \<Rightarrow> position \<Rightarrow> f32" where
  "distance_between left right =
     (let dx = f32_sub (fst left) (fst right);
          dy = f32_sub (snd left) (snd right)
      in f32_sqrt (f32_add (f32_mul dx dx) (f32_mul dy dy)))"

definition contains_player :: "cafe_map_collider \<Rightarrow> f32 \<Rightarrow> f32 \<Rightarrow> bool" where
  "contains_player c x y =
     (let radius = player_collision_radius
      in f32_less (collider_x c) (f32_add x radius)
         \<and> f32_less (f32_sub x radius) (f32_add (collider_x c) (collider_width c))
         \<and> f32_less (collider_y c) (f32_add y radius)
         \<and> f32_less (f32_sub y radius) (f32_add (collider_y c) (collider_height c)))"

definition cafe_map_collides :: "f32 \<Rightarrow> f32 \<Rightarrow> bool" where
  "cafe_map_collides x y = list_ex (\<lambda>c. contains_player c x y) cafe_map_colliders"

text \<open>\<open>expect\<close> panics on an unknown id; \<open>None\<close> stands for the panic.\<close>

definition cafe_map_interaction_target :: "string \<Rightarrow> interaction_target option" where
  "cafe_map_interaction_target i = find (\<lambda>t. target_key t = i) cafe_map_interaction_targets"

definition target_position :: "string \<Rightarrow> position" where
  "target_position i =
     (case cafe_map_interaction_target i of
        Some t \<Rightarrow> (target_x t, target_y t)
      | None \<Rightarrow> (NaN, NaN))"

text \<open>The four ids the server looks up exist, so none of its lookups panics.\<close>

lemma interaction_targets_exist:
  "i \<in> {''aiko'', service_counter_target_id, ''table-window'', ''table-garden'', ''table-long''} \<Longrightarrow>
    cafe_map_interaction_target i \<noteq> None"
  by (auto simp: cafe_map_interaction_target_def cafe_map_interaction_targets_def
      service_counter_target_id_def)

lemma target_positions [simp]:
  "target_position ''aiko'' = (Fin 640, Fin 272)"
  "target_position ''service-counter'' = (Fin 640, Fin 272)"
  "target_position ''table-window'' = (Fin 250, Fin 383)"
  "target_position ''table-garden'' = (Fin 1047, Fin 391)"
  "target_position ''table-long'' = (Fin 636, Fin 573)"
  by (simp_all add: target_position_def cafe_map_interaction_target_def
      cafe_map_interaction_targets_def service_counter_target_id_def)

section \<open>Movement\<close>

definition move_speed :: f32 where "move_speed = Fin 210"

text \<open>\<open>Duration::as_secs_f32\<close>.\<close>

definition as_secs_f32 :: "duration \<Rightarrow> f32" where
  "as_secs_f32 d =
     f32_add (f32_round (of_nat (d div 10 ^ 9)))
       (f32_div (f32_round (of_nat (d mod 10 ^ 9))) (f32_round (10 ^ 9)))"

text \<open>The arithmetic of \<open>update_player_for_connection\<close> from \<open>elapsed\<close> to the clamped position.\<close>

definition max_delta :: "duration \<Rightarrow> f32" where
  "max_delta elapsed =
     f32_add (f32_mul move_speed
       (f32_clamp (f32_round (16 / 1000)) (f32_round (1 / 2)) (as_secs_f32 elapsed))) (Fin 22)"

definition next_position :: "duration \<Rightarrow> position \<Rightarrow> position \<Rightarrow> position" where
  "next_position elapsed current wanted =
     (let delta = max_delta elapsed;
          dx = f32_sub (fst wanted) (fst current);
          dy = f32_sub (snd wanted) (snd current);
          distance = f32_sqrt (f32_add (f32_mul dx dx) (f32_mul dy dy));
          (next_x, next_y) =
            (if f32_less delta distance \<and> f32_less (Fin 0) distance
             then (f32_add (fst current) (f32_mul (f32_div dx distance) delta),
                   f32_add (snd current) (f32_mul (f32_div dy distance) delta))
             else wanted);
          radius = player_collision_radius
      in (f32_clamp radius (f32_sub map_width radius) next_x,
          f32_clamp radius (f32_sub map_height radius) next_y))"

section \<open>Every stored position is legal\<close>

definition legal_position :: "position \<Rightarrow> bool" where
  "legal_position p \<longleftrightarrow>
     (\<exists>x y. p = (Fin x, Fin y) \<and> 10 \<le> x \<and> x \<le> 1270 \<and> 10 \<le> y \<and> y \<le> 790)
       \<and> \<not> cafe_map_collides (fst p) (snd p)"

lemma f32_sub_coordinate:
  assumes "f32_value (Fin a)" and "0 \<le> b" and "b \<le> 1270"
  shows "\<exists>q. f32_sub (Fin a) (Fin b) = Fin q"
proof -
  have "\<bar>a + - b\<bar> < f32_overflow"
    using assms by (simp add: f32_value_def f32_max_def f32_overflow_def)
  from f32_round_finite [OF this] show ?thesis by (simp add: f32_sub_def)
qed

lemma map_bounds [simp]:
  "f32_sub map_width player_collision_radius = Fin 1270"
  "f32_sub map_height player_collision_radius = Fin 790"
  using f32_round_nat [of 1270] f32_round_nat [of 790]
  by (simp_all add: f32_sub_def map_width_def map_height_def player_collision_radius_def)

lemma as_secs_f32_nonneg: "f32_nonneg (as_secs_f32 d)"
proof -
  have big: "f32_nonneg (f32_round (10 ^ 9))" by simp
  have "0 < round_abs (10 ^ 9)" by (rule round_abs_pos) simp
  then obtain r where r: "f32_round (10 ^ 9) = Fin r" "0 < r"
    by (simp add: f32_round_def f32_overflow_def)
  have "f32_nonneg (f32_div (f32_round (of_nat (d mod 10 ^ 9))) (Fin r))"
    using r(2) by (intro f32_nonneg_div) simp_all
  then show ?thesis unfolding as_secs_f32_def r(1) by (intro f32_nonneg_add) simp_all
qed

lemma max_delta_positive: "max_delta elapsed = Inf False \<or> (\<exists>d>0. max_delta elapsed = Fin d)"
proof -
  have half: "f32_round (1 / 2) = Fin (1 / 2)"
  proof -
    have "exponent_below 126 (1 / 2) = 1" by (simp add: eval_nat_numeral)
    then have "f32_ulp (1 / 2) = 1 / 2 ^ 24" by (simp add: f32_ulp_def)
    then have "round_abs (1 / 2) = 1 / 2" by (intro round_abs_exact [of _ "2 ^ 23"]) simp
    then show ?thesis by (simp add: f32_round_def f32_overflow_def)
  qed
  obtain a where a: "f32_round (16 / 1000) = Fin a" "0 \<le> a" "a \<le> 1 / 2"
  proof (rule that [of "round_abs (16 / 1000)"])
    show "f32_round (16 / 1000) = Fin (round_abs (16 / 1000))"
      by (simp add: f32_round_def f32_overflow_def)
    show "0 \<le> round_abs (16 / 1000)" by (rule round_abs_nonneg) simp
    have "f32_ulp (16 / 1000) \<le> 1 / 2 ^ 20"
      using f32_ulp_le [of "16 / 1000"] by (simp add: max_def split: if_splits)
    then show "round_abs (16 / 1000) \<le> 1 / 2" using round_abs_le [of "16 / 1000"] by simp
  qed
  obtain c where c: "f32_clamp (Fin a) (Fin (1 / 2)) (as_secs_f32 elapsed) = Fin c" "0 \<le> c"
    using f32_clamp_range [OF f32_nonneg_not_nan [OF as_secs_f32_nonneg [of elapsed]] a(3)] a(2)
    by auto
  have "f32_nonneg (f32_round (210 * c))" using c(2) by simp
  moreover have md: "max_delta elapsed = f32_add (f32_round (210 * c)) (Fin 22)"
    unfolding max_delta_def half a(1) c(1) move_speed_def by simp
  ultimately consider "f32_round (210 * c) = Inf False" | m where "f32_round (210 * c) = Fin m" "0 \<le> m"
    by (auto simp: f32_nonneg_def)
  then show ?thesis
  proof cases
    case 1
    then show ?thesis by (simp add: md)
  next
    case 2
    have "0 < round_abs (m + 22)" using 2 by (intro round_abs_pos) simp
    then show ?thesis using 2 by (simp add: md f32_round_def)
  qed
qed

lemma f32_step_not_nan:
  assumes "f32_less (Fin 0) distance" and "0 < d"
  shows "f32_add (Fin a) (f32_mul (f32_div (Fin b) distance) (Fin d)) \<noteq> NaN"
proof -
  have "f32_div (Fin b) distance \<noteq> NaN" using assms(1) by (cases distance) auto
  then have "f32_mul (f32_div (Fin b) distance) (Fin d) \<noteq> NaN"
    using assms(2) by (cases "f32_div (Fin b) distance") auto
  then show ?thesis by (cases "f32_mul (f32_div (Fin b) distance) (Fin d)") auto
qed

text \<open>The clamped candidate is on the map, whatever finite position the client asks for.\<close>

lemma next_position_on_map:
  assumes "legal_position current" and "f32_value wx" "is_finite wx" and "f32_value wy" "is_finite wy"
  shows "\<exists>x y. next_position elapsed current (wx, wy) = (Fin x, Fin y)
    \<and> 10 \<le> x \<and> x \<le> 1270 \<and> 10 \<le> y \<and> y \<le> 790"
proof -
  obtain cx cy where cur: "current = (Fin cx, Fin cy)" "10 \<le> cx" "cx \<le> 1270" "10 \<le> cy" "cy \<le> 790"
    using assms(1) by (auto simp: legal_position_def)
  obtain a b where w: "wx = Fin a" "wy = Fin b" using assms(3,5) by (cases wx; cases wy) auto
  obtain dx where dx: "f32_sub wx (Fin cx) = Fin dx"
    using f32_sub_coordinate [of a cx] assms(2) cur by (auto simp: w)
  obtain dy where dy: "f32_sub wy (Fin cy) = Fin dy"
    using f32_sub_coordinate [of b cy] assms(4) cur by (auto simp: w)
  let ?D = "f32_sqrt (f32_add (f32_mul (Fin dx) (Fin dx)) (f32_mul (Fin dy) (Fin dy)))"
  obtain nx ny where n: "nx \<noteq> NaN" "ny \<noteq> NaN"
    and eq: "next_position elapsed current (wx, wy) = (f32_clamp (Fin 10) (Fin 1270) nx, f32_clamp (Fin 10) (Fin 790) ny)"
  proof (cases "f32_less (max_delta elapsed) ?D \<and> f32_less (Fin 0) ?D")
    case True
    then obtain d where d: "max_delta elapsed = Fin d" "0 < d"
      using max_delta_positive [of elapsed] by (cases ?D) auto
    show ?thesis
    proof (rule that)
      show "f32_add (Fin cx) (f32_mul (f32_div (Fin dx) ?D) (Fin d)) \<noteq> NaN"
        and "f32_add (Fin cy) (f32_mul (f32_div (Fin dy) ?D) (Fin d)) \<noteq> NaN"
        by (rule f32_step_not_nan [OF conjunct2 [OF True] d(2)])+
      show "next_position elapsed current (wx, wy)
        = (f32_clamp (Fin 10) (Fin 1270) (f32_add (Fin cx) (f32_mul (f32_div (Fin dx) ?D) (Fin d))),
           f32_clamp (Fin 10) (Fin 790) (f32_add (Fin cy) (f32_mul (f32_div (Fin dy) ?D) (Fin d))))"
        unfolding next_position_def Let_def cur fst_conv snd_conv dx dy
        using True d by (simp only: if_True prod.case map_bounds) (simp add: player_collision_radius_def)
    qed
  next
    case False
    show ?thesis
    proof (rule that)
      show "wx \<noteq> NaN" "wy \<noteq> NaN" using w by simp_all
      show "next_position elapsed current (wx, wy)
        = (f32_clamp (Fin 10) (Fin 1270) wx, f32_clamp (Fin 10) (Fin 790) wy)"
        unfolding next_position_def Let_def cur fst_conv snd_conv dx dy
        using False by (simp only: if_False prod.case map_bounds) (simp add: player_collision_radius_def)
    qed
  qed
  have "(10::rat) \<le> 1270" "(10::rat) \<le> 790" by simp_all
  from f32_clamp_range [OF n(1) this(1)] f32_clamp_range [OF n(2) this(2)] eq
  show ?thesis by auto
qed

end
