(* ===== verification/Cafe_Activity.thy ===== *)
theory Cafe_Activity
  imports Cafe_Map
begin

text \<open>
  The rounds of a Cafe room (\<open>cafe.rs\<close>, \<open>CafeActivity\<close>): tea delivery, table service and the rush,
  as the constructors build them. A \<open>u8\<close> is a natural number whose additions saturate at 255, a
  \<open>u32\<close> one whose additions saturate at \<open>2 ^ 32 - 1\<close>; wall-clock milliseconds (\<open>i64\<close>) are integers.
  Text that clients name (the ids of leaves and orders) is a list of code points.
\<close>

section \<open>Types\<close>

datatype cafe_activity_id = TeaDelivery | TableService | CafeRush
datatype cafe_table_order_status = WaitingIngredient | Available | Claimed | Served
datatype cafe_activity_phase = Active | Intermission

record cafe_tea_leaf =
  leaf_id :: ustr
  leaf_x :: f32
  leaf_y :: f32
  leaf_available :: bool

record cafe_table_order =
  order_id :: ustr
  order_table :: string
  order_drink :: string
  order_x :: f32
  order_y :: f32
  order_status :: cafe_table_order_status
  order_claimed_by :: "uuid option"

record cafe_activity =
  act_id :: cafe_activity_id
  round_number :: nat
  act_phase :: cafe_activity_phase
  next_round_at :: "int option"
  ends_at :: "int option"
  delivered :: nat
  act_target :: nat
  combo :: nat
  best_combo :: nat
  combo_expires_at :: "int option"
  completed :: bool
  tea_leaves :: "cafe_tea_leaf list"
  table_orders :: "cafe_table_order list"

section \<open>Layouts of the rounds\<close>

definition tea_layouts :: "position list list" where
  "tea_layouts =
     [[(Fin 142, Fin 224), (Fin 1138, Fin 248), (Fin 1064, Fin 682)],
      [(Fin 186, Fin 666), (Fin 1094, Fin 570), (Fin 832, Fin 300)],
      [(Fin 322, Fin 278), (Fin 950, Fin 248), (Fin 912, Fin 688)]]"

definition table_service_orders :: "(string \<times> string \<times> string) list" where
  "table_service_orders =
     [(''window'', ''sakura'', ''table-window''),
      (''garden'', ''mint'', ''table-garden''),
      (''long'', ''classic'', ''table-long'')]"

definition cafe_rush_orders :: "(string \<times> string \<times> string) list" where
  "cafe_rush_orders =
     [(''window'', ''sakura'', ''table-window''),
      (''garden'', ''mint'', ''table-garden''),
      (''long'', ''classic'', ''table-long''),
      (''garden'', ''sakura'', ''table-garden''),
      (''window'', ''classic'', ''table-window''),
      (''long'', ''mint'', ''table-long'')]"

definition cafe_rush_ingredients :: "position list" where
  "cafe_rush_ingredients =
     [(Fin 142, Fin 224), (Fin 1138, Fin 248), (Fin 1064, Fin 682),
      (Fin 186, Fin 666), (Fin 1094, Fin 570), (Fin 832, Fin 300)]"

definition round_intermission_millis :: int where "round_intermission_millis = 8000"
definition cafe_rush_duration_millis :: int where "cafe_rush_duration_millis = 90000"
definition cafe_rush_combo_window_millis :: int where "cafe_rush_combo_window_millis = 15000"

section \<open>Constructors\<close>

text \<open>\<open>format!("tea-{round_number}-{}", index + 1)\<close> and \<open>format!("order-{round_number}-{}", index + 1)\<close>.\<close>

definition tea_leaf_id :: "nat \<Rightarrow> nat \<Rightarrow> ustr" where
  "tea_leaf_id rnd index = ascii (''tea-'' @ show_nat rnd @ ''-'' @ show_nat (index + 1))"

definition table_order_id :: "nat \<Rightarrow> nat \<Rightarrow> ustr" where
  "table_order_id rnd index = ascii (''order-'' @ show_nat rnd @ ''-'' @ show_nat (index + 1))"

definition make_leaves :: "nat \<Rightarrow> position list \<Rightarrow> cafe_tea_leaf list" where
  "make_leaves rnd ps =
     map (\<lambda>(index, p). \<lparr>leaf_id = tea_leaf_id rnd index, leaf_x = fst p, leaf_y = snd p,
            leaf_available = True\<rparr>) (enumerate 0 ps)"

definition make_orders ::
  "nat \<Rightarrow> cafe_table_order_status \<Rightarrow> (string \<times> string \<times> string) list \<Rightarrow> cafe_table_order list" where
  "make_orders rnd status rows =
     map (\<lambda>(index, table, drink, target).
            \<lparr>order_id = table_order_id rnd index, order_table = table, order_drink = drink,
             order_x = fst (target_position target), order_y = snd (target_position target),
             order_status = status, order_claimed_by = None\<rparr>) (enumerate 0 rows)"

definition tea_delivery :: "nat \<Rightarrow> cafe_activity" where
  "tea_delivery rnd =
     (let layout = tea_layouts ! ((rnd - 1) mod length tea_layouts)
      in \<lparr>act_id = TeaDelivery, round_number = rnd, act_phase = Active, next_round_at = None,
          ends_at = None, delivered = 0, act_target = 3, combo = 0, best_combo = 0,
          combo_expires_at = None, completed = False, tea_leaves = make_leaves rnd layout,
          table_orders = []\<rparr>)"

definition table_service :: "nat \<Rightarrow> cafe_activity" where
  "table_service rnd =
     \<lparr>act_id = TableService, round_number = rnd, act_phase = Active, next_round_at = None,
      ends_at = None, delivered = 0, act_target = length table_service_orders, combo = 0,
      best_combo = 0, combo_expires_at = None, completed = False, tea_leaves = [],
      table_orders = make_orders rnd Available table_service_orders\<rparr>"

text \<open>\<open>player_count.saturating_add(2).clamp(3, 6)\<close>, which always fits a \<open>u8\<close>.\<close>

definition cafe_rush_target :: "nat \<Rightarrow> nat" where
  "cafe_rush_target player_count = min (max (sat_add 64 player_count 2) 3) (length cafe_rush_orders)"

definition cafe_rush :: "int \<Rightarrow> nat \<Rightarrow> nat \<Rightarrow> cafe_activity" where
  "cafe_rush now rnd player_count =
     (let target = cafe_rush_target player_count
      in \<lparr>act_id = CafeRush, round_number = rnd, act_phase = Active, next_round_at = None,
          ends_at = Some (now + cafe_rush_duration_millis), delivered = 0, act_target = target,
          combo = 0, best_combo = 0, combo_expires_at = None, completed = False,
          tea_leaves = make_leaves rnd (take target cafe_rush_ingredients),
          table_orders = make_orders rnd WaitingIngredient (take target cafe_rush_orders)\<rparr>)"

definition for_round :: "int \<Rightarrow> nat \<Rightarrow> nat \<Rightarrow> cafe_activity" where
  "for_round now rnd player_count =
     (if rnd mod 3 = 1 then tea_delivery rnd
      else if rnd mod 3 = 2 then table_service rnd
      else cafe_rush now rnd player_count)"

section \<open>Facts about fresh rounds\<close>

lemma tea_leaf_id_inj: "tea_leaf_id r i = tea_leaf_id r j \<longleftrightarrow> i = j"
  by (simp add: tea_leaf_id_def)

lemma table_order_id_inj: "table_order_id r i = table_order_id r j \<longleftrightarrow> i = j"
  by (simp add: table_order_id_def)

lemma enumerate_index: "map (\<lambda>x. f (fst x)) (enumerate 0 xs) = map f [0 ..< length xs]"
proof -
  have "map (\<lambda>x. f (fst x)) (enumerate 0 xs) = map f (map fst (enumerate 0 xs))"
    unfolding map_map comp_def ..
  then show ?thesis by (simp only: map_fst_enumerate add_0)
qed

lemma make_leaves_ids: "map leaf_id (make_leaves r ps) = map (tea_leaf_id r) [0 ..< length ps]"
  by (simp add: make_leaves_def comp_def case_prod_beta enumerate_index)

lemma make_orders_ids: "map order_id (make_orders r st rows) = map (table_order_id r) [0 ..< length rows]"
  by (simp add: make_orders_def comp_def case_prod_beta enumerate_index)

lemma distinct_fresh_ids:
  "distinct (map leaf_id (make_leaves r ps))" "distinct (map order_id (make_orders r st rows))"
  by (simp_all add: make_leaves_ids make_orders_ids distinct_map inj_on_def tea_leaf_id_inj
      table_order_id_inj)

lemma make_leaves_available: "l \<in> set (make_leaves r ps) \<Longrightarrow> leaf_available l"
  by (auto simp: make_leaves_def)

lemma make_orders_status:
  "ord \<in> set (make_orders r st rows) \<Longrightarrow> order_status ord = st \<and> order_claimed_by ord = None"
  by (auto simp: make_orders_def)

lemma length_make [simp]:
  "length (make_leaves r ps) = length ps" "length (make_orders r st rows) = length rows"
  by (simp_all add: make_leaves_def make_orders_def)

lemma cafe_rush_target_bounds: "3 \<le> cafe_rush_target n" "cafe_rush_target n \<le> 6"
  by (simp_all add: cafe_rush_target_def cafe_rush_orders_def)

end
