(* ===== verification/Unicode_Chars.thy ===== *)
theory Unicode_Chars
  imports Wf_Prelude
begin

text \<open>
  The properties of Unicode scalar values that Rust's \<open>char\<close> and \<open>str\<close> test: \<open>is_control\<close> (category
  \<open>Cc\<close>) and \<open>is_whitespace\<close> (\<open>White_Space\<close>), and the length of a string in UTF-8 bytes.
\<close>

section \<open>Characters\<close>

definition is_control :: "nat \<Rightarrow> bool" where
  "is_control c \<longleftrightarrow> c < 32 \<or> 127 \<le> c \<and> c < 160"

definition is_whitespace :: "nat \<Rightarrow> bool" where
  "is_whitespace c \<longleftrightarrow>
     9 \<le> c \<and> c \<le> 13 \<or> c = 32 \<or> c = 133 \<or> c = 160 \<or> c = 5760 \<or> 8192 \<le> c \<and> c \<le> 8202
       \<or> c = 8232 \<or> c = 8233 \<or> c = 8239 \<or> c = 8287 \<or> c = 12288"

definition is_ascii_hexdigit :: "nat \<Rightarrow> bool" where
  "is_ascii_hexdigit c \<longleftrightarrow> 48 \<le> c \<and> c \<le> 57 \<or> 65 \<le> c \<and> c \<le> 70 \<or> 97 \<le> c \<and> c \<le> 102"

definition to_ascii_uppercase :: "ustr \<Rightarrow> ustr" where
  "to_ascii_uppercase = map (\<lambda>c. if 97 \<le> c \<and> c \<le> 122 then c - 32 else c)"

text \<open>\<open>str::len\<close> counts UTF-8 bytes.\<close>

definition utf8_len :: "ustr \<Rightarrow> nat" where
  "utf8_len s = sum_list (map (\<lambda>c. if c < 128 then 1 else if c < 2048 then 2
     else if c < 65536 then 3 else 4) s)"

end
