(* ===== verification/Cafe_Text.thy ===== *)
theory Cafe_Text
  imports Unicode_Chars
begin

text \<open>
  The text a Cafe client sends (\<open>cafe.rs\<close>): invite codes, player names and chat messages, as lists of
  Unicode code points. \<open>is_control\<close> and \<open>is_whitespace\<close> are the two Unicode properties Rust's \<open>char\<close>
  tests (category \<open>Cc\<close> and \<open>White_Space\<close>). \<open>str::to_lowercase\<close> depends on the Unicode case tables
  and is an argument.
\<close>

section \<open>Words\<close>

text \<open>\<open>split_whitespace\<close>: the maximal runs of characters that are not white space.\<close>

function split_whitespace :: "ustr \<Rightarrow> ustr list" where
  "split_whitespace s =
     (let s' = dropWhile is_whitespace s
      in if s' = [] then []
         else takeWhile (\<lambda>c. \<not> is_whitespace c) s'
              # split_whitespace (dropWhile (\<lambda>c. \<not> is_whitespace c) s'))"
  by pat_completeness auto
termination
proof (relation "measure length", goal_cases)
  case 1
  then show ?case by simp
next
  case (2 s s')
  then have "s' \<noteq> []" by simp
  moreover from this have "\<not> is_whitespace (hd s')" unfolding 2(1) by (rule hd_dropWhile)
  ultimately have "s' \<noteq> []" "\<not> is_whitespace (hd s')" by blast+
  then have "dropWhile (\<lambda>c. \<not> is_whitespace c) s' = dropWhile (\<lambda>c. \<not> is_whitespace c) (tl s')"
    by (cases s') auto
  then have "length (dropWhile (\<lambda>c. \<not> is_whitespace c) s') \<le> length (tl s')"
    by (simp only: length_dropWhile_le)
  also have "\<dots> < length s'" using \<open>s' \<noteq> []\<close> by simp
  also have "\<dots> \<le> length s" using 2(1) by (simp add: length_dropWhile_le)
  finally show ?case by simp
qed

declare split_whitespace.simps [simp del]

fun join_words :: "ustr list \<Rightarrow> ustr" where
  "join_words [] = []"
| "join_words [w] = w"
| "join_words (w # ws) = w @ 32 # join_words ws"

fun str_contains :: "ustr \<Rightarrow> ustr \<Rightarrow> bool" where
  "str_contains pat [] = (pat = [])"
| "str_contains pat (c # s) = (take (length pat) (c # s) = pat \<or> str_contains pat s)"

section \<open>Normalisation\<close>

definition normalize_invite_code :: "ustr \<Rightarrow> ustr option" where
  "normalize_invite_code s =
     (let normalized = to_ascii_uppercase (trim_by is_whitespace s)
      in if utf8_len normalized = 6 \<and> list_all is_ascii_hexdigit normalized
         then Some normalized else None)"

definition max_cafe_player_name_chars :: nat where "max_cafe_player_name_chars = 24"
definition max_chat_message_chars :: nat where "max_chat_message_chars = 200"

definition normalize_cafe_player_name :: "ustr \<Rightarrow> ustr option" where
  "normalize_cafe_player_name s =
     (if list_ex is_control s then None
      else let normalized = join_words (split_whitespace s); n = length normalized
           in if 0 < n \<and> n \<le> max_cafe_player_name_chars then Some normalized else None)"

datatype cafe_chat_error = ChatEmpty | ChatTooLong | ChatLinksNotAllowed | ChatRateLimited

definition link_prefixes :: "ustr list" where
  "link_prefixes = [ascii ''http://'', ascii ''https://'', ascii ''www.'']"

definition normalize_cafe_chat_message :: "(ustr \<Rightarrow> ustr) \<Rightarrow> ustr \<Rightarrow> cafe_chat_error + ustr" where
  "normalize_cafe_chat_message lower s =
     (if list_ex is_control s then Inl ChatEmpty
      else let normalized = join_words (split_whitespace s)
           in if normalized = [] then Inl ChatEmpty
              else if max_chat_message_chars < length normalized then Inl ChatTooLong
              else if list_ex (\<lambda>p. str_contains p (lower normalized)) link_prefixes
                then Inl ChatLinksNotAllowed
              else Inr normalized)"

section \<open>Invite codes\<close>

text \<open>\<open>{:06X}\<close> of a value below \<open>2 ^ 24\<close>.\<close>

definition hex_digit :: "nat \<Rightarrow> nat" where
  "hex_digit d = (if d < 10 then 48 + d else 55 + d)"

definition hex6 :: "nat \<Rightarrow> ustr" where
  "hex6 n = map (\<lambda>i. hex_digit (n div 16 ^ i mod 16)) [5, 4, 3, 2, 1, 0]"

definition invite_of :: "uuid \<Rightarrow> ustr" where
  "invite_of v = hex6 (unat v mod 2 ^ 24)"

text \<open>
  The search of \<open>unique_invite_code\<close> counts up from the seed; \<open>invite_fuel_enough\<close> shows that one
  try more than there are rooms is enough while there are fewer than \<open>2 ^ 24\<close> of them.
\<close>

fun invite_loop :: "nat \<Rightarrow> uuid \<Rightarrow> ustr list \<Rightarrow> ustr option" where
  "invite_loop 0 v taken = None"
| "invite_loop (Suc fuel) v taken =
     (if invite_of v \<in> set taken then invite_loop fuel (v + 1) taken else Some (invite_of v))"

definition unique_invite_code :: "uuid \<Rightarrow> ustr list \<Rightarrow> ustr option" where
  "unique_invite_code seed taken = invite_loop (length taken + 1) seed taken"

section \<open>Facts\<close>

lemma takeWhile_word: "w \<in> set (split_whitespace s) \<Longrightarrow> w \<noteq> [] \<and> (\<forall>c\<in>set w. \<not> is_whitespace c)"
proof (induction s rule: split_whitespace.induct)
  case (1 s)
  let ?s = "dropWhile is_whitespace s"
  show ?case
  proof (cases "?s = []")
    case True
    with "1.prems" show ?thesis by (subst (asm) split_whitespace.simps) simp
  next
    case False
    then have "\<not> is_whitespace (hd ?s)" by (rule hd_dropWhile)
    with False have first: "takeWhile (\<lambda>c. \<not> is_whitespace c) ?s \<noteq> []" by (cases ?s) auto
    have "split_whitespace s = takeWhile (\<lambda>c. \<not> is_whitespace c) ?s
        # split_whitespace (dropWhile (\<lambda>c. \<not> is_whitespace c) ?s)"
      using False by (subst split_whitespace.simps) (simp only: Let_def if_False)
    with "1.prems" consider "w = takeWhile (\<lambda>c. \<not> is_whitespace c) ?s"
      | "w \<in> set (split_whitespace (dropWhile (\<lambda>c. \<not> is_whitespace c) ?s))"
      by auto
    then show ?thesis
    proof cases
      case 1
      with first show ?thesis by (auto dest: set_takeWhileD)
    next
      case 2
      then show ?thesis by (rule "1.IH" [OF refl False])
    qed
  qed
qed

lemma split_word:
  assumes "w \<noteq> []" and "\<forall>c\<in>set w. \<not> is_whitespace c"
  shows "split_whitespace w = [w]"
    and "split_whitespace (w @ 32 # s) = w # split_whitespace s"
proof -
  have d: "dropWhile is_whitespace (w @ t) = w @ t" for t using assms by (cases w) auto
  have nil: "split_whitespace [] = []" by (subst split_whitespace.simps) simp
  have sp: "is_whitespace 32" by (simp add: is_whitespace_def)
  show "split_whitespace w = [w]"
    using assms d [of "[]"]
    by (subst split_whitespace.simps)
      (simp add: Let_def nil takeWhile_eq_all_conv [THEN iffD2] dropWhile_eq_Nil_conv [THEN iffD2])
  have rest: "takeWhile (\<lambda>c. \<not> is_whitespace c) (w @ 32 # s) = w"
    "dropWhile (\<lambda>c. \<not> is_whitespace c) (w @ 32 # s) = 32 # s"
    using assms sp by (simp_all add: takeWhile_append2 dropWhile_append2)
  have "split_whitespace (32 # s) = split_whitespace s"
    using sp by (subst (1 2) split_whitespace.simps) simp
  then show "split_whitespace (w @ 32 # s) = w # split_whitespace s"
    using assms(1) d [of "32 # s"] rest
    by (subst split_whitespace.simps) (simp add: Let_def)
qed

lemma split_join:
  assumes "\<forall>w\<in>set ws. w \<noteq> [] \<and> (\<forall>c\<in>set w. \<not> is_whitespace c)"
  shows "split_whitespace (join_words ws) = ws"
  using assms
proof (induction ws rule: join_words.induct)
  case 1
  then show ?case by (subst split_whitespace.simps) simp
next
  case (2 w)
  then show ?case using split_word(1) by simp
next
  case (3 w v vs)
  then show ?case using split_word(2) [of w "join_words (v # vs)"] by simp
qed

lemma split_join_split [simp]: "split_whitespace (join_words (split_whitespace s)) = split_whitespace s"
  by (rule split_join) (use takeWhile_word in blast)

text \<open>Invite codes: six hexadecimal digits that determine the value, and a search that ends.\<close>

lemma hex_digit_inj: "a < 16 \<Longrightarrow> b < 16 \<Longrightarrow> hex_digit a = hex_digit b \<Longrightarrow> a = b"
  by (auto simp: hex_digit_def split: if_splits)

lemma hex_digit_hexdigit: "d < 16 \<Longrightarrow> is_ascii_hexdigit (hex_digit d) \<and> hex_digit d \<noteq> 0
    \<and> \<not> (97 \<le> hex_digit d \<and> hex_digit d \<le> 122) \<and> \<not> is_whitespace (hex_digit d) \<and> hex_digit d < 128"
  by (auto simp: hex_digit_def is_ascii_hexdigit_def is_whitespace_def)

lemma hex_digits_determine:
  "(\<And>i. i < k \<Longrightarrow> a div 16 ^ i mod 16 = b div 16 ^ i mod 16) \<Longrightarrow> a < 16 ^ k \<Longrightarrow> b < 16 ^ k \<Longrightarrow> a = b"
  for a b :: nat
proof (induction k arbitrary: a b)
  case (Suc k)
  have "a div 16 = b div 16"
  proof (rule Suc.IH)
    show "a div 16 div 16 ^ i mod 16 = b div 16 div 16 ^ i mod 16" if "i < k" for i
      using Suc.prems(1) [of "Suc i"] that by (simp add: div_mult2_eq)
    show "a div 16 < 16 ^ k" "b div 16 < 16 ^ k"
      using Suc.prems(2,3) by (simp_all add: less_mult_imp_div_less mult.commute)
  qed
  moreover have "a mod 16 = b mod 16" using Suc.prems(1) [of 0] by simp
  ultimately show ?case by (metis div_mult_mod_eq)
qed simp

lemma hex6_inj:
  assumes "hex6 a = hex6 b" and "a < 2 ^ 24" and "b < 2 ^ 24"
  shows "a = b"
proof -
  have "a div 16 ^ i mod 16 = b div 16 ^ i mod 16" if "i \<le> 5" for i
  proof -
    have "i \<in> set [5, 4, 3, 2, 1, 0]" using that by auto
    moreover have "\<forall>i\<in>set [5, 4, 3, 2, 1, 0]. hex_digit (a div 16 ^ i mod 16) = hex_digit (b div 16 ^ i mod 16)"
      using assms(1) unfolding hex6_def map_eq_conv .
    ultimately have "hex_digit (a div 16 ^ i mod 16) = hex_digit (b div 16 ^ i mod 16)" by (rule bspec [rotated])
    moreover have "x mod 16 < 16" for x :: nat by (rule mod_less_divisor) simp
    ultimately show ?thesis by (blast intro: hex_digit_inj)
  qed
  note digits = this
  have "a < 16 ^ 6" "b < 16 ^ 6" using assms(2,3) by simp_all
  from hex_digits_determine [OF digits this] show ?thesis by simp
qed

lemma mod_wrap: "m dvd M \<Longrightarrow> (x + i mod M) mod M mod m = (x + i) mod m" for m M :: nat
  by (simp add: mod_mod_cancel mod_add_right_eq)

lemma unat_plus_mod: "unat (v + of_nat i :: uuid) mod 2 ^ 24 = (unat v + i) mod 2 ^ 24"
proof -
  have "(2 :: nat) ^ 24 dvd 2 ^ LENGTH(128)" by (rule le_imp_power_dvd) simp
  from mod_wrap [OF this, of "unat v" i] show ?thesis
    by (simp only: unat_word_ariths unat_of_nat)
qed

lemma invite_distinct:
  assumes "i < 2 ^ 24" and "j < 2 ^ 24" and "invite_of (v + of_nat i) = invite_of (v + of_nat j)"
  shows "i = j"
proof -
  have "(unat v + i) mod 2 ^ 24 = (unat v + j) mod 2 ^ 24"
    using hex6_inj [OF assms(3) [unfolded invite_of_def]] unfolding unat_plus_mod by simp
  then have "i mod 2 ^ 24 = j mod 2 ^ 24" unfolding nat_mod_eq_iff by auto
  with assms(1,2) show ?thesis by simp
qed

lemma invite_loop_Some: "invite_loop fuel v taken = Some c \<Longrightarrow> c \<notin> set taken \<and> (\<exists>w. c = invite_of w)"
  by (induction fuel arbitrary: v) (auto split: if_splits)

lemma invite_loop_None: "invite_loop fuel v taken = None \<Longrightarrow> i < fuel \<Longrightarrow> invite_of (v + of_nat i) \<in> set taken"
proof (induction fuel arbitrary: v i)
  case (Suc fuel)
  then have taken: "invite_of v \<in> set taken" "invite_loop fuel (v + 1) taken = None"
    by (auto split: if_splits)
  show ?case
  proof (cases i)
    case 0
    with taken show ?thesis by simp
  next
    case (Suc j)
    with Suc.IH [OF taken(2), of j] Suc.prems(2) show ?thesis by (simp add: add.assoc)
  qed
qed simp

lemma invite_fuel_enough:
  assumes "length taken < 2 ^ 24 - 1"
  shows "\<exists>c. unique_invite_code seed taken = Some c \<and> c \<notin> set taken \<and> (\<exists>w. c = invite_of w)"
proof (cases "unique_invite_code seed taken")
  case None
  let ?n = "length taken + 1"
  have n: "?n < 2 ^ 24" using assms by simp
  have sub: "(\<lambda>i. invite_of (seed + of_nat i)) ` {..<?n} \<subseteq> set taken"
    using None invite_loop_None [of ?n seed taken] by (auto simp: unique_invite_code_def)
  have "inj_on (\<lambda>i. invite_of (seed + of_nat i)) {..<?n}"
  proof (rule inj_onI)
    fix i j
    assume "i \<in> {..<?n}" "j \<in> {..<?n}" and eq: "invite_of (seed + of_nat i) = invite_of (seed + of_nat j)"
    then have "i < 2 ^ 24" "j < 2 ^ 24" using n by (meson lessThan_iff less_trans)+
    then show "i = j" using eq by (rule invite_distinct)
  qed
  then have "?n = card ((\<lambda>i. invite_of (seed + of_nat i)) ` {..<?n})" by (simp add: card_image)
  also have "\<dots> \<le> card (set taken)" by (rule card_mono [OF _ sub]) simp
  also have "\<dots> \<le> length taken" by (rule card_length)
  finally show ?thesis by simp
next
  case (Some c)
  then show ?thesis unfolding unique_invite_code_def using invite_loop_Some by blast
qed

lemma hex6_digits: "\<forall>c\<in>set (hex6 n). \<exists>d<16. c = hex_digit d"
proof -
  have "x mod 16 < 16" for x :: nat by (rule mod_less_divisor) simp
  then show ?thesis unfolding hex6_def set_map by blast
qed

lemma length_hex6: "length (hex6 n) = 6"
  by (simp add: hex6_def)

lemma normalize_hex6: "normalize_invite_code (hex6 n) = Some (hex6 n)"
proof -
  have d: "\<not> is_whitespace c" "is_ascii_hexdigit c" "\<not> (97 \<le> c \<and> c \<le> 122)" "c < 128"
    if c: "c \<in> set (hex6 n)" for c
  proof -
    from bspec [OF hex6_digits c] obtain k where k: "k < 16" "c = hex_digit k" by blast
    from hex_digit_hexdigit [OF k(1)]
    show "\<not> is_whitespace c" "is_ascii_hexdigit c" "\<not> (97 \<le> c \<and> c \<le> 122)" "c < 128"
      unfolding k(2) by simp_all
  qed
  have "dropWhile is_whitespace s = s" if "\<forall>c\<in>set s. \<not> is_whitespace c" for s
    using that by (cases s) auto
  note keep = this
  have "\<forall>c\<in>set (hex6 n). \<not> is_whitespace c" "\<forall>c\<in>set (rev (hex6 n)). \<not> is_whitespace c"
    using d(1) by simp_all
  then have "trim_by is_whitespace (hex6 n) = hex6 n"
    unfolding trim_by_def by (simp only: keep rev_rev_ident)
  moreover have "to_ascii_uppercase (hex6 n) = hex6 n"
    unfolding to_ascii_uppercase_def using d(3) by (intro map_idI) auto
  moreover have "utf8_len s = length s" if "\<forall>c\<in>set s. c < 128" for s
    using that by (induction s) (auto simp: utf8_len_def)
  then have "utf8_len (hex6 n) = 6" using d(4) length_hex6 by simp
  ultimately show ?thesis using d(2) by (simp add: normalize_invite_code_def list_all_iff)
qed

section \<open>Properties\<close>

text \<open>
  A chat message that is accepted is not empty, has at most 200 characters, no control character
  and no link in its lower-case form, and single spaces between its words: normalizing it again
  changes nothing.
\<close>

theorem chat_message_normal:
  assumes "normalize_cafe_chat_message lower s = Inr t"
  shows "t \<noteq> [] \<and> length t \<le> 200 \<and> (\<forall>c\<in>set t. \<not> is_control c)
    \<and> \<not> str_contains (ascii ''http://'') (lower t) \<and> \<not> str_contains (ascii ''https://'') (lower t)
    \<and> \<not> str_contains (ascii ''www.'') (lower t)
    \<and> normalize_cafe_chat_message lower t = Inr t"
proof -
  have t: "t = join_words (split_whitespace s)" and ctl: "\<not> list_ex is_control s"
    and rest: "t \<noteq> []" "length t \<le> 200" "\<not> list_ex (\<lambda>p. str_contains p (lower t)) link_prefixes"
    using assms unfolding normalize_cafe_chat_message_def Let_def max_chat_message_chars_def
    by (simp_all only: split: if_splits) (simp_all only: sum.inject not_less simp_thms, simp_all)
  have words: "set (join_words ws) \<subseteq> insert 32 (\<Union> (set ` set ws))" for ws
    by (induction ws rule: join_words.induct) auto
  have pieces: "\<Union> (set ` set (split_whitespace s)) \<subseteq> set s" for s
  proof (induction s rule: split_whitespace.induct)
    case (1 s)
    let ?s = "dropWhile is_whitespace s"
    show ?case
    proof (cases "?s = []")
      case True
      then show ?thesis by (subst split_whitespace.simps) simp
    next
      case False
      have "split_whitespace s = takeWhile (\<lambda>c. \<not> is_whitespace c) ?s
          # split_whitespace (dropWhile (\<lambda>c. \<not> is_whitespace c) ?s)"
        using False by (subst split_whitespace.simps) (simp only: Let_def if_False)
      then show ?thesis
        using "1.IH" [OF refl False]
        by (auto dest!: set_takeWhileD dest: set_dropWhileD)
    qed
  qed
  have "\<not> is_control 32" by (simp add: is_control_def)
  then have "\<forall>c\<in>set t. \<not> is_control c"
    using words [of "split_whitespace s"] pieces [of s] ctl unfolding t list_ex_iff by blast
  moreover from this have "normalize_cafe_chat_message lower t = Inr t"
    using rest t by (auto simp: normalize_cafe_chat_message_def Let_def max_chat_message_chars_def
        list_ex_iff)
  ultimately show ?thesis using rest by (simp add: link_prefixes_def)
qed

theorem chat_message_normal_witness:
  "normalize_cafe_chat_message id (ascii ''hi  there'') = Inr (ascii ''hi there'')
    \<and> length (ascii ''hi there'') \<le> 200"
proof -
  have "normalize_cafe_chat_message id (ascii ''hi  there'') = Inr (ascii ''hi there'')"
    by (simp add: normalize_cafe_chat_message_def ascii_def is_control_def split_whitespace.simps
        is_whitespace_def link_prefixes_def max_chat_message_chars_def)
  with chat_message_normal [OF this] show ?thesis by blast
qed

end
