(* ===== verification/Store_Records.thy ===== *)
theory Store_Records
  imports App_Error Wf_Interfaces
begin

text \<open>
  What the stores share (\<open>store/mod.rs\<close>): sessions, the scope of an owner, the condition by which every
  statement of the stores selects the rows of an owner, and the timestamps of the database. A column
  \<open>timestamptz\<close> that the code fills from whole seconds is a number of seconds since the epoch;
  \<open>to_timestamp\<close> fails outside the years PostgreSQL represents (4713 BC to 294276 AD).
\<close>

section \<open>Owners\<close>

datatype user_kind = Guest | Registered | Admin

record session_record =
  session_id :: uuid
  session_user :: uuid
  session_kind :: user_kind
  session_created_at :: nat

record owner_scope =
  scope_session :: uuid
  scope_user :: "uuid option"

definition scope_from_session :: "session_record \<Rightarrow> owner_scope" where
  "scope_from_session s =
     \<lparr>scope_session = session_id s,
      scope_user = (case session_kind s of
          Guest \<Rightarrow> None | Registered \<Rightarrow> Some (session_user s) | Admin \<Rightarrow> Some (session_user s))\<rparr>"

definition parse_user_kind :: "string \<Rightarrow> user_kind" where
  "parse_user_kind s =
     (if s = ''registered'' then Registered else if s = ''admin'' then Admin else Guest)"

text \<open>\<open>($2 is not null and owner_user_id = $2) or ($2 is null and owner_session_id = $1)\<close>.\<close>

definition owns_row :: "owner_scope \<Rightarrow> uuid \<Rightarrow> uuid option \<Rightarrow> bool" where
  "owns_row owner row_session row_user \<longleftrightarrow>
     (case scope_user owner of
        Some u \<Rightarrow> row_user = Some u
      | None \<Rightarrow> row_session = scope_session owner)"

definition coalesce :: "'a option \<Rightarrow> 'a option \<Rightarrow> 'a option" where
  "coalesce a b = (case a of Some _ \<Rightarrow> a | None \<Rightarrow> b)"

text \<open>The rows of two owners are apart, unless one is a guest whose session holds rows of the other.\<close>

lemma owns_row_user: "owns_row owner s u \<Longrightarrow> scope_user owner = Some v \<Longrightarrow> u = Some v"
  by (simp add: owns_row_def)

section \<open>Rows\<close>

lemma find_append: "find P (xs @ ys) = (case find P xs of None \<Rightarrow> find P ys | Some x \<Rightarrow> Some x)"
  by (induction xs) auto

lemma find_SomeD: "find P xs = Some x \<Longrightarrow> x \<in> set xs \<and> P x"
  by (auto simp: find_Some_iff)

lemma map_sum_Inr: "map_sum f g x = Inr y \<longleftrightarrow> (\<exists>z. x = Inr z \<and> y = g z)"
  by (cases x) auto

section \<open>Times\<close>

text \<open>\<open>value as i64\<close> on a \<open>u64\<close>, and back.\<close>

definition as_i64 :: "nat \<Rightarrow> int" where
  "as_i64 n = (if n mod 2 ^ 64 < 2 ^ 63 then int (n mod 2 ^ 64) else int (n mod 2 ^ 64) - 2 ^ 64)"

definition as_u64 :: "int \<Rightarrow> nat" where
  "as_u64 i = nat (i mod 2 ^ 64)"

definition to_timestamp :: "int \<Rightarrow> store_error + int" where
  "to_timestamp i =
     (if -210866803200 \<le> i \<and> i < 9224318016000 then Inr i else Inl TimestampOutOfRange)"

lemma as_i64_small [simp]: "n < 2 ^ 63 \<Longrightarrow> as_i64 n = int n"
  by (simp add: as_i64_def)

lemma as_u64_int [simp]: "n < 2 ^ 64 \<Longrightarrow> as_u64 (int n) = n"
  by (simp add: as_u64_def nat_mod_distrib)

lemma as_u64_nonneg: "0 \<le> i \<Longrightarrow> i < 2 ^ 64 \<Longrightarrow> int (as_u64 i) = i"
  by (simp add: as_u64_def)

lemma as_u64_as_i64 [simp]: "n < 2 ^ 64 \<Longrightarrow> as_u64 (as_i64 n) = n"
  by (simp add: as_u64_def as_i64_def nat_mod_distrib)

lemma to_timestamp_Inr: "to_timestamp i = Inr t \<longleftrightarrow> t = i \<and> -210866803200 \<le> i \<and> i < 9224318016000"
  by (auto simp: to_timestamp_def)

end
