(* ===== verification/Cafe_Room.thy ===== *)
theory Cafe_Room
  imports Cafe_Activity Cafe_Text Store_Records
begin

text \<open>
  A Cafe room and the operations on it (\<open>cafe.rs\<close>). The broadcast channel of a room is the list
  \<open>sent\<close> of the messages given to it, the watch channel its latest value \<open>movement_update\<close>, and the
  stop sender of the movement tick the flag \<open>tick_running\<close>. The clocks and \<open>Uuid::new_v4\<close> are the
  arguments collected in \<open>cafe_env\<close>. The constant map layout of \<open>CafeRoomState\<close> is left out of the
  messages. A hash map is iterated in the order of its association list.
\<close>

section \<open>Types\<close>

datatype direction = DirUp | DirDown | DirLeft | DirRight

record cafe_player =
  player_id :: uuid
  player_owner :: owner_scope
  player_name :: ustr
  player_color :: string
  player_x :: f32
  player_y :: f32
  player_direction :: direction
  player_moving :: bool
  carried_tea :: nat
  carried_rush_ingredient_ids :: "ustr list"
  carried_order_id :: "ustr option"
  equipped_cosmetic :: "ustr option"
  avatar_id :: ustr
  last_sequence :: nat
  last_move_at :: instant
  connection_id :: uuid

record player_movement =
  move_x :: f32
  move_y :: f32
  move_direction :: direction
  move_moving :: bool
  move_sequence :: nat

record cafe_player_state =
  ps_id :: uuid
  ps_name :: ustr
  ps_color :: string
  ps_position :: position
  ps_direction :: direction
  ps_moving :: bool
  ps_carried_tea :: nat
  ps_carried_order_id :: "ustr option"
  ps_equipped_cosmetic :: "ustr option"
  ps_avatar_id :: ustr

record cafe_movement_player_state =
  mps_id :: uuid
  mps_position :: position
  mps_direction :: direction
  mps_moving :: bool

record cafe_aiko_state =
  aiko_position :: position
  aiko_motion :: string

record cafe_dynamic_room_state =
  drs_id :: uuid
  drs_invite_code :: ustr
  drs_is_private :: bool
  drs_capacity :: nat
  drs_players :: "cafe_player_state list"
  drs_activity :: cafe_activity
  drs_aiko :: cafe_aiko_state

datatype cafe_chat_event_kind = ChatMessage | ChatJoined | ChatLeft

record cafe_chat_event =
  event_id :: uuid
  event_kind :: cafe_chat_event_kind
  event_player :: uuid
  event_player_name :: ustr
  event_text :: "ustr option"
  event_created_at :: int

datatype cafe_error_code = ErrRoomNotFound | ErrRoomFull | ErrRateLimited

datatype cafe_server_message =
    MsgWelcome uuid nat nat cafe_dynamic_room_state "cafe_chat_event list"
  | MsgSnapshot nat cafe_dynamic_room_state
  | MsgMovement nat "cafe_movement_player_state list"
  | MsgDialogue string string
  | MsgEmote uuid ustr
  | MsgChatEvent cafe_chat_event
  | MsgChatError cafe_chat_error
  | MsgReward uuid nat
  | MsgPong
  | MsgError cafe_error_code string

datatype cafe_join_error = RoomNotFound | RoomFull

record cafe_room =
  room_id :: uuid
  invite_code :: ustr
  is_private :: bool
  players :: "(uuid, cafe_player) hash_map"
  activity :: cafe_activity
  chat_history :: "cafe_chat_event list"
  sent :: "cafe_server_message list"
  movement_update :: "nat \<times> cafe_movement_player_state list"
  revision :: nat
  movement_dirty :: bool
  tick_running :: bool
  created_at :: instant
  ever_joined :: bool
  empty_since :: "instant option"

record cafe_join =
  join_revision :: nat
  join_snapshot :: cafe_dynamic_room_state
  join_chat_history :: "cafe_chat_event list"

record cafe_interaction_result =
  awarded_owners :: "owner_scope list"
  completed_round :: "nat option"

definition interaction_none :: cafe_interaction_result where
  "interaction_none = \<lparr>awarded_owners = [], completed_round = None\<rparr>"

record cafe_env =
  env_now :: instant
  env_utc :: int
  env_uuid :: uuid

definition room_capacity :: nat where "room_capacity = 8"
definition chat_history_limit :: nat where "chat_history_limit = 30"

section \<open>Broadcasts\<close>

definition send :: "cafe_server_message \<Rightarrow> cafe_room \<Rightarrow> cafe_room" where
  "send msg room = room\<lparr>sent := sent room @ [msg]\<rparr>"

definition dialogue :: "string \<Rightarrow> string \<Rightarrow> cafe_room \<Rightarrow> cafe_room" where
  "dialogue key expression = send (MsgDialogue key expression)"

definition player_state :: "cafe_player \<Rightarrow> cafe_player_state" where
  "player_state p =
     \<lparr>ps_id = player_id p, ps_name = player_name p, ps_color = player_color p,
      ps_position = (player_x p, player_y p), ps_direction = player_direction p,
      ps_moving = player_moving p, ps_carried_tea = carried_tea p,
      ps_carried_order_id = carried_order_id p, ps_equipped_cosmetic = equipped_cosmetic p,
      ps_avatar_id = avatar_id p\<rparr>"

definition player_states :: "cafe_room \<Rightarrow> cafe_player_state list" where
  "player_states room = sort_key ps_id (map player_state (hm_values (players room)))"

definition aiko_state :: "cafe_room \<Rightarrow> cafe_aiko_state" where
  "aiko_state room =
     \<lparr>aiko_position = target_position ''aiko'',
      aiko_motion = (if completed (activity room) then ''celebrate'' else ''idle'')\<rparr>"

definition dynamic_room_state :: "cafe_room \<Rightarrow> cafe_dynamic_room_state" where
  "dynamic_room_state room =
     \<lparr>drs_id = room_id room, drs_invite_code = invite_code room, drs_is_private = is_private room,
      drs_capacity = room_capacity, drs_players = player_states room,
      drs_activity = activity room, drs_aiko = aiko_state room\<rparr>"

definition next_room_revision :: "cafe_room \<Rightarrow> nat" where
  "next_room_revision room = sat_add 64 (revision room) 1"

definition broadcast_room_snapshot :: "cafe_room \<Rightarrow> cafe_room" where
  "broadcast_room_snapshot room =
     (let room' = room\<lparr>revision := next_room_revision room\<rparr>
      in send (MsgSnapshot (revision room') (dynamic_room_state room'))
           (room'\<lparr>movement_dirty := False\<rparr>))"

definition movement_player_state :: "cafe_player \<Rightarrow> cafe_movement_player_state" where
  "movement_player_state p =
     \<lparr>mps_id = player_id p, mps_position = (player_x p, player_y p),
      mps_direction = player_direction p, mps_moving = player_moving p\<rparr>"

definition broadcast_room_movement :: "cafe_room \<Rightarrow> cafe_room" where
  "broadcast_room_movement room =
     (let r = next_room_revision room
      in room\<lparr>revision := r, movement_dirty := False,
           movement_update :=
             (r, sort_key mps_id (map movement_player_state (hm_values (players room))))\<rparr>)"

definition push_chat_event :: "cafe_chat_event \<Rightarrow> cafe_room \<Rightarrow> cafe_room" where
  "push_chat_event event room =
     (let history = chat_history room @ [event]
      in send (MsgChatEvent event)
           (room\<lparr>chat_history := drop (length history - chat_history_limit) history\<rparr>))"

definition push_left_event :: "cafe_env \<Rightarrow> uuid \<Rightarrow> ustr \<Rightarrow> cafe_room \<Rightarrow> cafe_room" where
  "push_left_event env pid name =
     push_chat_event \<lparr>event_id = env_uuid env, event_kind = ChatLeft, event_player = pid,
       event_player_name = name, event_text = None, event_created_at = env_utc env\<rparr>"

definition update_player :: "uuid \<Rightarrow> (cafe_player \<Rightarrow> cafe_player) \<Rightarrow> cafe_room \<Rightarrow> cafe_room" where
  "update_player pid f room = room\<lparr>players := hm_adjust pid f (players room)\<rparr>"

definition update_activity :: "(cafe_activity \<Rightarrow> cafe_activity) \<Rightarrow> cafe_room \<Rightarrow> cafe_room" where
  "update_activity f room = room\<lparr>activity := f (activity room)\<rparr>"

section \<open>Joining and leaving\<close>

text \<open>\<open>CafeHub::join\<close> once the room is found: the join's answer, or \<open>RoomFull\<close>.\<close>

definition keep_presence :: "cafe_player \<Rightarrow> cafe_player \<Rightarrow> cafe_player" where
  "keep_presence existing player =
     player\<lparr>player_x := player_x existing, player_y := player_y existing,
       player_direction := player_direction existing, player_moving := False,
       carried_tea := carried_tea existing,
       carried_rush_ingredient_ids := carried_rush_ingredient_ids existing,
       carried_order_id := carried_order_id existing\<rparr>"

definition join_room ::
  "cafe_env \<Rightarrow> cafe_player \<Rightarrow> cafe_room \<Rightarrow> (cafe_join_error + cafe_join) \<times> cafe_room" where
  "join_room env player room =
     (let present = hm_get (players room) (player_id player) \<noteq> None
      in if \<not> present \<and> room_capacity \<le> length (players room) then (Inl RoomFull, room)
         else
           let start_tick = (players room = []);
               player' = (case hm_get (players room) (player_id player) of
                   Some existing \<Rightarrow> keep_presence existing player
                 | None \<Rightarrow> player);
               history = chat_history room;
               room1 = broadcast_room_snapshot
                 (room\<lparr>players := hm_insert (player_id player) player' (players room),
                       ever_joined := True, empty_since := None\<rparr>);
               snapshot = dynamic_room_state room1;
               room2 = (if present then room1
                 else push_chat_event \<lparr>event_id = env_uuid env, event_kind = ChatJoined,
                   event_player = player_id player, event_player_name = player_name player,
                   event_text = None, event_created_at = env_utc env\<rparr> room1);
               room3 = (if start_tick then room2\<lparr>tick_running := True\<rparr> else room2)
           in (Inr \<lparr>join_revision = revision room1, join_snapshot = snapshot,
                    join_chat_history = history\<rparr>, room3))"

definition restore_ingredient :: "ustr \<Rightarrow> cafe_activity \<Rightarrow> cafe_activity" where
  "restore_ingredient i a =
     a\<lparr>tea_leaves := update_first (\<lambda>l. leaf_id l = i) (\<lambda>l. l\<lparr>leaf_available := True\<rparr>) (tea_leaves a)\<rparr>"

definition restore_order :: "uuid \<Rightarrow> ustr \<Rightarrow> cafe_activity \<Rightarrow> cafe_activity" where
  "restore_order pid i a =
     a\<lparr>table_orders := update_first (\<lambda>ord. order_id ord = i \<and> order_claimed_by ord = Some pid)
          (\<lambda>ord. ord\<lparr>order_status := Available, order_claimed_by := None\<rparr>) (table_orders a)\<rparr>"

definition leave_room :: "cafe_env \<Rightarrow> uuid \<Rightarrow> uuid \<Rightarrow> cafe_room \<Rightarrow> cafe_room" where
  "leave_room env pid conn room =
     (case hm_get (players room) pid of
        None \<Rightarrow> room
      | Some player \<Rightarrow>
          if connection_id player \<noteq> conn then room
          else
            let a1 = fold restore_ingredient (carried_rush_ingredient_ids player) (activity room);
                a2 = (case carried_order_id player of
                    None \<Rightarrow> a1 | Some i \<Rightarrow> restore_order pid i a1);
                room1 = room\<lparr>players := hm_remove pid (players room), activity := a2\<rparr>
            in if players room1 = []
               then (push_left_event env pid (player_name player) room1)
                      \<lparr>movement_dirty := False, empty_since := Some (env_now env), tick_running := False\<rparr>
               else push_left_event env pid (player_name player) (broadcast_room_snapshot room1))"

section \<open>Movement\<close>

definition move_player :: "cafe_env \<Rightarrow> player_movement \<Rightarrow> cafe_player \<Rightarrow> cafe_player" where
  "move_player env m player =
     (let (next_x, next_y) = next_position (duration_since (env_now env) (last_move_at player))
            (player_x player, player_y player) (move_x m, move_y m);
          moved = (if \<not> cafe_map_collides next_x next_y
            then player\<lparr>player_x := next_x, player_y := next_y\<rparr> else player)
      in moved\<lparr>player_direction := move_direction m, player_moving := move_moving m,
           last_sequence := move_sequence m, last_move_at := env_now env\<rparr>)"

definition update_player_for_connection ::
  "cafe_env \<Rightarrow> uuid \<Rightarrow> uuid \<Rightarrow> player_movement \<Rightarrow> cafe_room \<Rightarrow> cafe_room" where
  "update_player_for_connection env pid conn m room =
     (case hm_get (players room) pid of
        None \<Rightarrow> room
      | Some player \<Rightarrow>
          if connection_id player \<noteq> conn then room
          else if move_sequence m \<le> last_sequence player \<or> \<not> is_finite (move_x m) \<or> \<not> is_finite (move_y m)
          then room
          else (update_player pid (move_player env m) room)\<lparr>movement_dirty := True\<rparr>)"

datatype movement_tick_outcome = TickStop | TickClean | TickSent

definition flush_dirty_movement :: "cafe_room \<Rightarrow> movement_tick_outcome \<times> cafe_room" where
  "flush_dirty_movement room =
     (if players room = [] then (TickStop, room)
      else if \<not> movement_dirty room then (TickClean, room)
      else (TickSent, broadcast_room_movement room))"

section \<open>Emotes, chat and rewards\<close>

definition allowed_emotes :: "ustr list" where
  "allowed_emotes = [ascii ''wave'', ascii ''heart'', ascii ''happy'', ascii ''tea'']"

definition emote_for_connection :: "uuid \<Rightarrow> uuid \<Rightarrow> ustr \<Rightarrow> cafe_room \<Rightarrow> cafe_room" where
  "emote_for_connection pid conn emote room =
     (if emote \<notin> set allowed_emotes then room
      else case hm_get (players room) pid of
          None \<Rightarrow> room
        | Some player \<Rightarrow>
            if connection_id player = conn then send (MsgEmote pid emote) room else room)"

definition chat_for_connection ::
  "(ustr \<Rightarrow> ustr) \<Rightarrow> cafe_env \<Rightarrow> uuid \<Rightarrow> uuid \<Rightarrow> ustr \<Rightarrow> cafe_room
     \<Rightarrow> cafe_chat_error option \<times> cafe_room" where
  "chat_for_connection lower env pid conn text room =
     (case normalize_cafe_chat_message lower text of
        Inl e \<Rightarrow> (Some e, room)
      | Inr text' \<Rightarrow>
          (case hm_get (players room) pid of
             None \<Rightarrow> (None, room)
           | Some player \<Rightarrow>
               if connection_id player \<noteq> conn then (None, room)
               else (None, push_chat_event
                 \<lparr>event_id = env_uuid env, event_kind = ChatMessage, event_player = pid,
                  event_player_name = player_name player, event_text = Some text',
                  event_created_at = env_utc env\<rparr> room)))"

definition reward_players :: "uuid list \<Rightarrow> nat \<Rightarrow> cafe_room \<Rightarrow> cafe_room" where
  "reward_players ids stars room = fold (\<lambda>i. send (MsgReward i stars)) ids room"

section \<open>New players and rooms\<close>

definition player_colors :: "string list" where
  "player_colors = [''#f48fb1'', ''#80cbc4'', ''#90caf9'', ''#ffcc80'', ''#ce93d8'']"

record cafe_identity =
  identity_session :: uuid
  identity_user :: uuid
  identity_guest :: bool
  identity_name :: ustr

text \<open>\<open>OwnerScope::from_session\<close>: a guest owns by session, any other kind by user too.\<close>

definition owner_from_session :: "cafe_identity \<Rightarrow> owner_scope" where
  "owner_from_session s =
     \<lparr>scope_session = identity_session s,
      scope_user = (if identity_guest s then None else Some (identity_user s))\<rparr>"

definition new_player_with_avatar ::
  "cafe_env \<Rightarrow> cafe_identity \<Rightarrow> ustr option \<Rightarrow> ustr \<Rightarrow> cafe_player" where
  "new_player_with_avatar env s cosmetic avatar =
     \<lparr>player_id = identity_session s, player_owner = owner_from_session s,
      player_name = identity_name s,
      player_color = player_colors ! (unat (drop_bit 120 (identity_user s)) mod length player_colors),
      player_x = fst player_spawn, player_y = snd player_spawn, player_direction = DirUp,
      player_moving = False, carried_tea = 0, carried_rush_ingredient_ids = [],
      carried_order_id = None, equipped_cosmetic = cosmetic, avatar_id = avatar,
      last_sequence = 0, last_move_at = env_now env, connection_id = env_uuid env\<rparr>"

definition new_room :: "cafe_env \<Rightarrow> bool \<Rightarrow> ustr list \<Rightarrow> cafe_room option" where
  "new_room env private taken =
     (case unique_invite_code (env_uuid env) taken of
        None \<Rightarrow> None
      | Some code \<Rightarrow> Some
          \<lparr>room_id = env_uuid env, invite_code = code, is_private = private, players = [],
           activity = for_round (env_utc env) 1 0, chat_history = [], sent = [],
           movement_update = (0, []), revision = 0, movement_dirty = False, tick_running = False,
           created_at = env_now env, ever_joined = False, empty_since = None\<rparr>)"

section \<open>What the helpers leave alone\<close>

lemma send_simps [simp]:
  "players (send m room) = players room" "activity (send m room) = activity room"
  "chat_history (send m room) = chat_history room" "sent (send m room) = sent room @ [m]"
  "revision (send m room) = revision room" "room_id (send m room) = room_id room"
  "invite_code (send m room) = invite_code room" "is_private (send m room) = is_private room"
  "created_at (send m room) = created_at room" "ever_joined (send m room) = ever_joined room"
  "empty_since (send m room) = empty_since room" "movement_update (send m room) = movement_update room"
  "movement_dirty (send m room) = movement_dirty room" "tick_running (send m room) = tick_running room"
  by (simp_all add: send_def)

lemma dialogue_simps [simp]:
  "players (dialogue k e room) = players room" "activity (dialogue k e room) = activity room"
  "chat_history (dialogue k e room) = chat_history room"
  "sent (dialogue k e room) = sent room @ [MsgDialogue k e]"
  "revision (dialogue k e room) = revision room" "room_id (dialogue k e room) = room_id room"
  "invite_code (dialogue k e room) = invite_code room" "is_private (dialogue k e room) = is_private room"
  "ever_joined (dialogue k e room) = ever_joined room" "empty_since (dialogue k e room) = empty_since room"
  "tick_running (dialogue k e room) = tick_running room"
  by (simp_all add: dialogue_def)

lemma snapshot_simps [simp]:
  "players (broadcast_room_snapshot room) = players room"
  "activity (broadcast_room_snapshot room) = activity room"
  "chat_history (broadcast_room_snapshot room) = chat_history room"
  "revision (broadcast_room_snapshot room) = sat_add 64 (revision room) 1"
  "room_id (broadcast_room_snapshot room) = room_id room"
  "invite_code (broadcast_room_snapshot room) = invite_code room"
  "is_private (broadcast_room_snapshot room) = is_private room"
  "ever_joined (broadcast_room_snapshot room) = ever_joined room"
  "empty_since (broadcast_room_snapshot room) = empty_since room"
  "tick_running (broadcast_room_snapshot room) = tick_running room"
  "movement_dirty (broadcast_room_snapshot room) = False"
  by (simp_all add: broadcast_room_snapshot_def next_room_revision_def Let_def)

lemma movement_simps [simp]:
  "players (broadcast_room_movement room) = players room"
  "activity (broadcast_room_movement room) = activity room"
  "chat_history (broadcast_room_movement room) = chat_history room"
  "sent (broadcast_room_movement room) = sent room"
  "revision (broadcast_room_movement room) = sat_add 64 (revision room) 1"
  "room_id (broadcast_room_movement room) = room_id room"
  "invite_code (broadcast_room_movement room) = invite_code room"
  "ever_joined (broadcast_room_movement room) = ever_joined room"
  "empty_since (broadcast_room_movement room) = empty_since room"
  "tick_running (broadcast_room_movement room) = tick_running room"
  by (simp_all add: broadcast_room_movement_def next_room_revision_def Let_def)

lemma push_chat_simps [simp]:
  "players (push_chat_event e room) = players room" "activity (push_chat_event e room) = activity room"
  "revision (push_chat_event e room) = revision room" "room_id (push_chat_event e room) = room_id room"
  "invite_code (push_chat_event e room) = invite_code room"
  "is_private (push_chat_event e room) = is_private room"
  "sent (push_chat_event e room) = sent room @ [MsgChatEvent e]"
  "ever_joined (push_chat_event e room) = ever_joined room"
  "empty_since (push_chat_event e room) = empty_since room"
  "tick_running (push_chat_event e room) = tick_running room"
  by (simp_all add: push_chat_event_def Let_def)

lemma push_left_simps [simp]:
  "players (push_left_event env i n room) = players room"
  "activity (push_left_event env i n room) = activity room"
  "revision (push_left_event env i n room) = revision room"
  "room_id (push_left_event env i n room) = room_id room"
  "invite_code (push_left_event env i n room) = invite_code room"
  "ever_joined (push_left_event env i n room) = ever_joined room"
  "empty_since (push_left_event env i n room) = empty_since room"
  "tick_running (push_left_event env i n room) = tick_running room"
  by (simp_all add: push_left_event_def)

lemma update_simps [simp]:
  "players (update_player i f room) = hm_adjust i f (players room)"
  "activity (update_player i f room) = activity room"
  "chat_history (update_player i f room) = chat_history room" "sent (update_player i f room) = sent room"
  "revision (update_player i f room) = revision room" "room_id (update_player i f room) = room_id room"
  "invite_code (update_player i f room) = invite_code room"
  "ever_joined (update_player i f room) = ever_joined room"
  "empty_since (update_player i f room) = empty_since room"
  "tick_running (update_player i f room) = tick_running room"
  "players (update_activity g room) = players room"
  "activity (update_activity g room) = g (activity room)"
  "chat_history (update_activity g room) = chat_history room" "sent (update_activity g room) = sent room"
  "revision (update_activity g room) = revision room" "room_id (update_activity g room) = room_id room"
  "invite_code (update_activity g room) = invite_code room"
  "ever_joined (update_activity g room) = ever_joined room"
  "empty_since (update_activity g room) = empty_since room"
  "tick_running (update_activity g room) = tick_running room"
  by (simp_all add: update_player_def update_activity_def)

lemma length_push_chat: "length (chat_history (push_chat_event e room)) \<le> chat_history_limit"
  by (simp add: push_chat_event_def Let_def chat_history_limit_def)

lemma length_push_left: "length (chat_history (push_left_event env i n room)) \<le> chat_history_limit"
  unfolding push_left_event_def by (rule length_push_chat)

end
