(* ===== verification/Cafe_Play.thy ===== *)
theory Cafe_Play
  imports Cafe_Room
begin

text \<open>
  The play of a Cafe room (\<open>cafe.rs\<close>): what an interaction does in each activity, the end of a rush,
  the start of the next round and the equipment of players.
\<close>

section \<open>Orders\<close>

definition in_reach :: "f32 \<Rightarrow> position \<Rightarrow> position \<Rightarrow> bool" where
  "in_reach radius p q \<longleftrightarrow> f32_le (distance_between p q) radius"

text \<open>
  The source returns early when \<open>distance > radius\<close>, which a distance that is not a number would
  pass; \<open>beyond\<close> is that test.
\<close>

definition beyond :: "f32 \<Rightarrow> position \<Rightarrow> position \<Rightarrow> bool" where
  "beyond radius p q \<longleftrightarrow> f32_less radius (distance_between p q)"

definition set_order_status ::
  "cafe_table_order_status \<Rightarrow> cafe_table_order_status \<Rightarrow> uuid option \<Rightarrow> cafe_activity \<Rightarrow> cafe_activity" where
  "set_order_status old new claimed a =
     a\<lparr>table_orders := update_first (\<lambda>ord. order_status ord = old)
          (\<lambda>ord. ord\<lparr>order_status := new, order_claimed_by := claimed\<rparr>) (table_orders a)\<rparr>"

definition find_order_status :: "cafe_table_order_status \<Rightarrow> cafe_activity \<Rightarrow> cafe_table_order option" where
  "find_order_status status a = find (\<lambda>ord. order_status ord = status) (table_orders a)"

definition carries_order :: "uuid \<Rightarrow> cafe_room \<Rightarrow> bool" where
  "carries_order pid room =
     (case hm_get (players room) pid of None \<Rightarrow> False | Some p \<Rightarrow> carried_order_id p \<noteq> None)"

text \<open>The first available order is claimed for the player.\<close>

definition pick_up_order :: "string \<Rightarrow> uuid \<Rightarrow> cafe_table_order \<Rightarrow> cafe_room \<Rightarrow> cafe_room" where
  "pick_up_order key pid order room =
     broadcast_room_snapshot (dialogue key ''happy''
       (update_player pid (\<lambda>p. p\<lparr>carried_order_id := Some (order_id order)\<rparr>)
         (update_activity (set_order_status Available Claimed (Some pid)) room)))"

definition complete_round :: "cafe_env \<Rightarrow> cafe_activity \<Rightarrow> bool \<times> cafe_activity" where
  "complete_round env a =
     (let completed_now = (\<not> completed a \<and> act_target a \<le> delivered a);
          a' = a\<lparr>completed := completed a \<or> completed_now\<rparr>
      in (completed_now,
          if completed_now
          then a'\<lparr>act_phase := Intermission,
                  next_round_at := Some (env_utc env + round_intermission_millis)\<rparr>
          else a'))"

definition room_owners :: "cafe_room \<Rightarrow> owner_scope list" where
  "room_owners room = map player_owner (hm_values (players room))"

definition count_combo :: "cafe_env \<Rightarrow> cafe_activity \<Rightarrow> cafe_activity" where
  "count_combo env a =
     (if act_id a \<noteq> CafeRush then a
      else
        let now = env_utc env;
            combo' = (case combo_expires_at a of
                None \<Rightarrow> 1
              | Some expires \<Rightarrow> if now \<le> expires then sat_add 8 (combo a) 1 else 1)
        in a\<lparr>combo := combo', best_combo := max (best_combo a) combo',
             combo_expires_at := Some (now + cafe_rush_combo_window_millis)\<rparr>)"

definition serve_claimed_order ::
  "cafe_env \<Rightarrow> uuid \<Rightarrow> position \<Rightarrow> ustr \<Rightarrow> cafe_room \<Rightarrow> cafe_interaction_result \<times> cafe_room" where
  "serve_claimed_order env pid pos target room =
     (case find (\<lambda>ord. order_id ord = target) (table_orders (activity room)) of
        None \<Rightarrow> (interaction_none, room)
      | Some order \<Rightarrow>
          if order_status order \<noteq> Claimed \<or> order_claimed_by order \<noteq> Some pid
             \<or> beyond interaction_radius pos (order_x order, order_y order)
          then (interaction_none, room)
          else if (case hm_get (players room) pid of
                None \<Rightarrow> None | Some p \<Rightarrow> carried_order_id p) \<noteq> Some (order_id order)
          then (interaction_none, room)
          else
            let room1 = update_player pid (\<lambda>p. p\<lparr>carried_order_id := None\<rparr>)
                  (update_activity (\<lambda>a. a\<lparr>table_orders :=
                     update_first (\<lambda>ord. order_id ord = target)
                       (\<lambda>ord. ord\<lparr>order_status := Served, order_claimed_by := None\<rparr>)
                       (table_orders a)\<rparr>) room);
                a1 = activity room1;
                a2 = count_combo env
                  (a1\<lparr>delivered := min (sat_add 8 (delivered a1) 1) (act_target a1)\<rparr>);
                (completed_now, a3) = complete_round env a2;
                a4 = (if completed_now then a3\<lparr>ends_at := None, combo_expires_at := None\<rparr> else a3);
                room2 = room1\<lparr>activity := a4\<rparr>;
                owners = (if completed_now then room_owners room2 else []);
                key = (if completed_now then ''cafe.dialogue.roundComplete''
                  else if act_id a4 = CafeRush then ''cafe.dialogue.rushOrderDelivered''
                  else ''cafe.dialogue.serviceDelivered'')
            in (\<lparr>awarded_owners = owners,
                 completed_round = (if completed_now then Some (round_number a4) else None)\<rparr>,
                broadcast_room_snapshot (dialogue key ''happy'' room2)))"

section \<open>The three activities\<close>

definition interact_table_service ::
  "cafe_env \<Rightarrow> uuid \<Rightarrow> position \<Rightarrow> ustr \<Rightarrow> cafe_room \<Rightarrow> cafe_interaction_result \<times> cafe_room" where
  "interact_table_service env pid pos target room =
     (if target = ascii service_counter_target_id
      then
        if beyond host_interaction_radius pos (target_position service_counter_target_id)
        then (interaction_none, room)
        else if carries_order pid room
        then (interaction_none, dialogue ''cafe.dialogue.serviceAlreadyCarrying'' ''neutral'' room)
        else (case find_order_status Available (activity room) of
            None \<Rightarrow> (interaction_none, dialogue ''cafe.dialogue.serviceOrdersClaimed'' ''neutral'' room)
          | Some order \<Rightarrow> (interaction_none, pick_up_order ''cafe.dialogue.servicePickedUp'' pid order room))
      else serve_claimed_order env pid pos target room)"

definition prepare_order :: "uuid \<Rightarrow> cafe_room \<Rightarrow> cafe_room" where
  "prepare_order pid room =
     broadcast_room_snapshot (dialogue ''cafe.dialogue.rushOrderPrepared'' ''happy''
       (update_player pid (\<lambda>p. p\<lparr>carried_tea := carried_tea p - 1,
            carried_rush_ingredient_ids := butlast (carried_rush_ingredient_ids p)\<rparr>)
         (update_activity (\<lambda>a. a\<lparr>table_orders :=
            update_first (\<lambda>ord. order_status ord = WaitingIngredient)
              (\<lambda>ord. ord\<lparr>order_status := Available\<rparr>) (table_orders a)\<rparr>) room)))"

definition interact_cafe_rush ::
  "cafe_env \<Rightarrow> uuid \<Rightarrow> position \<Rightarrow> ustr \<Rightarrow> cafe_room \<Rightarrow> cafe_interaction_result \<times> cafe_room" where
  "interact_cafe_rush env pid pos target room =
     (if target \<noteq> ascii service_counter_target_id
      then serve_claimed_order env pid pos target room
      else if beyond host_interaction_radius pos (target_position service_counter_target_id)
      then (interaction_none, room)
      else if carries_order pid room
      then (interaction_none, dialogue ''cafe.dialogue.serviceAlreadyCarrying'' ''neutral'' room)
      else
        let has_ingredient = (case hm_get (players room) pid of
              None \<Rightarrow> False | Some p \<Rightarrow> carried_rush_ingredient_ids p \<noteq> [])
        in if has_ingredient \<and> find_order_status WaitingIngredient (activity room) \<noteq> None
           then (interaction_none, prepare_order pid room)
           else (case find_order_status Available (activity room) of
               Some order \<Rightarrow>
                 (interaction_none, pick_up_order ''cafe.dialogue.rushOrderPickedUp'' pid order room)
             | None \<Rightarrow>
                 (interaction_none,
                  dialogue (if find_order_status WaitingIngredient (activity room) \<noteq> None
                      then ''cafe.dialogue.rushFindIngredient''
                      else ''cafe.dialogue.serviceOrdersClaimed'') ''neutral'' room)))"

definition collect_leaf :: "uuid \<Rightarrow> position \<Rightarrow> cafe_tea_leaf \<Rightarrow> cafe_room \<Rightarrow> cafe_room" where
  "collect_leaf pid pos leaf room =
     (if \<not> in_reach interaction_radius pos (leaf_x leaf, leaf_y leaf) then room
      else
        let rush = (act_id (activity room) = CafeRush)
        in broadcast_room_snapshot
             (dialogue (if rush then ''cafe.dialogue.rushIngredientCollected''
                        else ''cafe.dialogue.teaCollected'') ''happy''
               (update_player pid (\<lambda>p. p\<lparr>carried_tea := sat_add 8 (carried_tea p) 1,
                    carried_rush_ingredient_ids := carried_rush_ingredient_ids p
                      @ (if rush then [leaf_id leaf] else [])\<rparr>)
                 (update_activity (\<lambda>a. a\<lparr>tea_leaves :=
                    update_first (\<lambda>l. leaf_id l = leaf_id leaf \<and> leaf_available l)
                      (\<lambda>l. l\<lparr>leaf_available := False\<rparr>) (tea_leaves a)\<rparr>) room))))"

definition deliver_tea ::
  "cafe_env \<Rightarrow> uuid \<Rightarrow> cafe_room \<Rightarrow> cafe_interaction_result \<times> cafe_room" where
  "deliver_tea env pid room =
     (let carried = (case hm_get (players room) pid of None \<Rightarrow> 0 | Some p \<Rightarrow> carried_tea p);
          room1 = update_player pid (\<lambda>p. p\<lparr>carried_tea := 0\<rparr>) room
      in if carried = 0
         then (interaction_none, dialogue ''cafe.dialogue.teaSearch'' ''neutral'' room1)
         else
           let a1 = activity room1;
               (completed_now, a2) = complete_round env
                 (a1\<lparr>delivered := min (sat_add 8 (delivered a1) carried) (act_target a1)\<rparr>);
               room2 = room1\<lparr>activity := a2\<rparr>;
               owners = (if completed_now then room_owners room2 else []);
               key = (if completed_now then ''cafe.dialogue.roundComplete''
                      else ''cafe.dialogue.teaProgress'')
           in (\<lparr>awarded_owners = owners,
                completed_round = (if completed_now then Some (round_number a2) else None)\<rparr>,
               broadcast_room_snapshot (dialogue key ''happy'' room2)))"

definition interact_for_connection ::
  "cafe_env \<Rightarrow> uuid \<Rightarrow> uuid \<Rightarrow> ustr \<Rightarrow> cafe_room \<Rightarrow> cafe_interaction_result \<times> cafe_room" where
  "interact_for_connection env pid conn target room =
     (case hm_get (players room) pid of
        None \<Rightarrow> (interaction_none, room)
      | Some player \<Rightarrow>
          if connection_id player \<noteq> conn then (interaction_none, room)
          else
            let pos = (player_x player, player_y player);
                aiko = target_position ''aiko''
            in if act_phase (activity room) = Intermission
               then (interaction_none,
                 if target = ascii ''aiko'' \<and> in_reach host_interaction_radius pos aiko
                 then dialogue ''cafe.dialogue.intermission'' ''happy'' room else room)
               else if act_id (activity room) = TableService
               then interact_table_service env pid pos target room
               else (case find (\<lambda>l. leaf_id l = target \<and> leaf_available l) (tea_leaves (activity room)) of
                   Some leaf \<Rightarrow> (interaction_none, collect_leaf pid pos leaf room)
                 | None \<Rightarrow>
                     if act_id (activity room) = CafeRush
                     then interact_cafe_rush env pid pos target room
                     else if target \<noteq> ascii ''aiko'' \<or> beyond host_interaction_radius pos aiko
                     then (interaction_none, room)
                     else deliver_tea env pid room))"

section \<open>Rounds\<close>

definition empty_hands :: "cafe_player \<Rightarrow> cafe_player" where
  "empty_hands p =
     p\<lparr>carried_tea := 0, carried_rush_ingredient_ids := [], carried_order_id := None\<rparr>"

fun round_ready_key :: "cafe_activity_id \<Rightarrow> string" where
  "round_ready_key TeaDelivery = ''cafe.dialogue.teaRoundReady''"
| "round_ready_key TableService = ''cafe.dialogue.serviceRoundReady''"
| "round_ready_key CafeRush = ''cafe.dialogue.rushRoundReady''"

text \<open>
  \<open>start_next_round\<close>: whether the round was started, and the round a rush timer is spawned for.
\<close>

definition start_next_round ::
  "cafe_env \<Rightarrow> nat \<Rightarrow> cafe_room \<Rightarrow> bool \<times> nat option \<times> cafe_room" where
  "start_next_round env done room =
     (if round_number (activity room) \<noteq> done \<or> act_phase (activity room) \<noteq> Intermission
      then (False, None, room)
      else
        let next = sat_add 32 done 1;
            a = for_round (env_utc env) next (length (players room));
            room1 = broadcast_room_snapshot
              (room\<lparr>activity := a, players := hm_map_values empty_hands (players room)\<rparr>)
        in (True, if act_id a = CafeRush then Some next else None,
            dialogue (round_ready_key (act_id a)) ''happy'' room1))"

definition expire_cafe_rush :: "cafe_env \<Rightarrow> nat \<Rightarrow> cafe_room \<Rightarrow> bool \<times> cafe_room" where
  "expire_cafe_rush env n room =
     (let a = activity room
      in if act_id a \<noteq> CafeRush \<or> round_number a \<noteq> n \<or> act_phase a \<noteq> Active \<or> completed a
         then (False, room)
         else (True, broadcast_room_snapshot (dialogue ''cafe.dialogue.rushTimeUp'' ''neutral''
           (room\<lparr>activity := a\<lparr>act_phase := Intermission, ends_at := None, combo_expires_at := None,
                   next_round_at := Some (env_utc env + round_intermission_millis)\<rparr>,
                 players := hm_map_values empty_hands (players room)\<rparr>))))"

section \<open>Equipment\<close>

definition same_owner :: "owner_scope \<Rightarrow> owner_scope \<Rightarrow> bool" where
  "same_owner l r =
     (case (scope_user l, scope_user r) of
        (Some a, Some b) \<Rightarrow> a = b
      | _ \<Rightarrow> scope_session l = scope_session r)"

definition equip_cosmetic_room :: "owner_scope \<Rightarrow> ustr option \<Rightarrow> cafe_room \<Rightarrow> cafe_room" where
  "equip_cosmetic_room owner cosmetic room =
     (let hits = (\<lambda>p. same_owner (player_owner p) owner \<and> equipped_cosmetic p \<noteq> cosmetic);
          room' = room\<lparr>players := hm_map_values
            (\<lambda>p. if hits p then p\<lparr>equipped_cosmetic := cosmetic\<rparr> else p) (players room)\<rparr>
      in if list_ex hits (hm_values (players room)) then broadcast_room_snapshot room' else room')"

definition equip_avatar_room :: "owner_scope \<Rightarrow> ustr \<Rightarrow> cafe_room \<Rightarrow> cafe_room" where
  "equip_avatar_room owner avatar room =
     (let hits = (\<lambda>p. same_owner (player_owner p) owner \<and> avatar_id p \<noteq> avatar);
          room' = room\<lparr>players := hm_map_values
            (\<lambda>p. if hits p then p\<lparr>avatar_id := avatar\<rparr> else p) (players room)\<rparr>
      in if list_ex hits (hm_values (players room)) then broadcast_room_snapshot room' else room')"

end
