(* ===== verification/Cafe_Rules.thy ===== *)
theory Cafe_Rules
  imports Cafe_Play
begin

text \<open>
  The rules of a round, as an invariant of an activity and of what the players hold. \<open>hand_of\<close> is the
  part of a player that the rules see, so everything else a player does (moving, chatting, changing
  clothes, reconnecting) keeps the invariant by keeping the hands. The operations of \<open>Cafe_Play\<close> are
  the steps proved here, one lemma each.
\<close>

section \<open>Sums over a hash map\<close>

definition held :: "('v \<Rightarrow> nat) \<Rightarrow> ('k, 'v) hash_map \<Rightarrow> nat" where
  "held f m = sum_list (map f (hm_values m))"

lemma held_Nil [simp]: "held f [] = 0"
  by (simp add: held_def hm_values_def)

lemma held_insert_new: "hm_get m k = None \<Longrightarrow> held f (hm_insert k v m) = held f m + f v"
  by (induction m) (auto simp: held_def hm_values_def hm_get_def hm_insert_def split: if_splits)

lemma held_insert_old: "hm_get m k = Some w \<Longrightarrow> held f (hm_insert k v m) + f w = held f m + f v"
  by (induction m) (auto simp: held_def hm_values_def hm_get_def hm_insert_def split: if_splits)

lemma held_adjust: "hm_get m k = Some w \<Longrightarrow> held f (hm_adjust k g m) + f w = held f m + f (g w)"
  by (simp add: hm_adjust_def held_insert_old)

lemma held_remove:
  "hm_ok m \<Longrightarrow> hm_get m k = Some w \<Longrightarrow> held f (hm_remove k m) + f w = held f m"
proof (induction m)
  case (Cons e m)
  show ?case
  proof (cases "fst e = k")
    case True
    with Cons.prems have "hm_get m k = None" by (auto simp: hm_ok_def hm_get_None)
    with True Cons.prems(2) hm_remove_absent [of m k] show ?thesis
      by (cases e) (simp add: hm_remove_filter held_def hm_values_def hm_get_def)
  next
    case False
    with Cons.prems have "hm_ok m" "hm_get m k = Some w"
      by (auto simp: hm_ok_def hm_get_def split: if_splits)
    with Cons.IH False show ?thesis by (simp add: hm_remove_filter held_def hm_values_def)
  qed
qed (simp add: hm_get_def)

lemma held_ge: "hm_get m k = Some w \<Longrightarrow> f w \<le> held f m"
  by (induction m) (auto simp: held_def hm_values_def hm_get_def split: if_splits)

lemma held_0: "(\<And>v. v \<in> set (hm_values m) \<Longrightarrow> f v = 0) \<Longrightarrow> held f m = 0"
  by (simp add: held_def)

lemma set_values: "hm_ok m \<Longrightarrow> v \<in> set (hm_values m) \<longleftrightarrow> (\<exists>k. hm_get m k = Some v)"
  by (force simp: hm_values_def hm_get_eq_in_set image_iff)

lemma map_values_insert: "hm_map_values f (hm_insert k v m) = hm_insert k (f v) (hm_map_values f m)"
  by (induction m) (auto simp: hm_map_values_def hm_insert_def)

lemma map_values_remove: "hm_map_values f (hm_remove k m) = hm_remove k (hm_map_values f m)"
  by (induction m) (auto simp: hm_map_values_def hm_remove_def)

lemma hm_insert_same: "hm_get m k = Some v \<Longrightarrow> hm_insert k v m = m"
  by (induction m) (auto simp: hm_get_def hm_insert_def split: if_splits)

lemma map_values_adjust:
  assumes "\<And>v. hm_get m k = Some v \<Longrightarrow> f (g v) = h (f v)"
  shows "hm_map_values f (hm_adjust k g m) = hm_adjust k h (hm_map_values f m)"
  using assms by (auto simp: hm_adjust_def map_values_insert split: option.split)

section \<open>Hands\<close>

record hand =
  hand_tea :: nat
  hand_ids :: "ustr list"
  hand_order :: "ustr option"

type_synonym hands = "(uuid, hand) hash_map"

definition hand_of :: "cafe_player \<Rightarrow> hand" where
  "hand_of p = \<lparr>hand_tea = carried_tea p, hand_ids = carried_rush_ingredient_ids p,
     hand_order = carried_order_id p\<rparr>"

definition empty_hand :: hand where
  "empty_hand = \<lparr>hand_tea = 0, hand_ids = [], hand_order = None\<rparr>"

definition hands_of :: "cafe_room \<Rightarrow> hands" where
  "hands_of room = hm_map_values hand_of (players room)"

definition claims :: "cafe_table_order list \<Rightarrow> (ustr \<times> uuid) set" where
  "claims orders = {(order_id ord, pid) | ord pid. ord \<in> set orders \<and> order_claimed_by ord = Some pid}"

definition carrying :: "hands \<Rightarrow> (ustr \<times> uuid) set" where
  "carrying hs = {(i, pid). \<exists>h. hm_get hs pid = Some h \<and> hand_order h = Some i}"

definition ready :: "cafe_table_order \<Rightarrow> bool" where
  "ready ord \<longleftrightarrow> order_status ord \<noteq> WaitingIngredient"

definition served :: "cafe_table_order \<Rightarrow> bool" where
  "served ord \<longleftrightarrow> order_status ord = Served"

section \<open>The invariant\<close>

definition activity_ok :: "cafe_activity \<Rightarrow> bool" where
  "activity_ok a \<longleftrightarrow>
     distinct (map leaf_id (tea_leaves a)) \<and> distinct (map order_id (table_orders a)) \<and>
     0 < act_target a \<and> act_target a \<le> 6 \<and> delivered a \<le> act_target a \<and>
     (completed a \<longleftrightarrow> delivered a = act_target a) \<and> (completed a \<longrightarrow> act_phase a = Intermission) \<and>
     (\<forall>ord\<in>set (table_orders a). order_claimed_by ord \<noteq> None \<longleftrightarrow> order_status ord = Claimed) \<and>
     (if act_id a = TeaDelivery then table_orders a = [] \<and> length (tea_leaves a) = act_target a
      else length (table_orders a) = act_target a \<and> count_if served (table_orders a) = delivered a) \<and>
     (act_id a = TableService \<longrightarrow> tea_leaves a = [] \<and> list_all ready (table_orders a)) \<and>
     (act_id a = CafeRush \<longrightarrow> length (tea_leaves a) = act_target a)"

text \<open>
  The ingredients of a rush: one per leaf, either still on the map, in somebody's hands, or gone into
  a prepared order.
\<close>

definition ingredients_ok :: "cafe_activity \<Rightarrow> (ustr \<Rightarrow> nat) \<Rightarrow> nat \<Rightarrow> bool" where
  "ingredients_ok a carried total_carried \<longleftrightarrow>
     (\<forall>i. carried i + count_if (\<lambda>l. leaf_id l = i \<and> leaf_available l) (tea_leaves a)
        \<le> count_if (\<lambda>l. leaf_id l = i) (tea_leaves a)) \<and>
     count_if leaf_available (tea_leaves a) + total_carried + count_if ready (table_orders a) = act_target a"

definition round_hands_ok :: "cafe_activity \<Rightarrow> hands \<Rightarrow> bool" where
  "round_hands_ok a hs \<longleftrightarrow>
     claims (table_orders a) = carrying hs \<and>
     (case act_id a of
        TeaDelivery \<Rightarrow> (\<forall>h\<in>set (hm_values hs). hand_ids h = []) \<and>
          count_if leaf_available (tea_leaves a) + held hand_tea hs + delivered a \<le> act_target a
      | TableService \<Rightarrow> (\<forall>h\<in>set (hm_values hs). hand_ids h = [] \<and> hand_tea h = 0)
      | CafeRush \<Rightarrow> (\<forall>h\<in>set (hm_values hs). hand_tea h = length (hand_ids h)) \<and>
          ingredients_ok a (\<lambda>i. held (\<lambda>h. count_list (hand_ids h) i) hs)
            (held (\<lambda>h. length (hand_ids h)) hs))"

definition rules_ok :: "cafe_activity \<Rightarrow> hands \<Rightarrow> bool" where
  "rules_ok a hs \<longleftrightarrow> hm_ok hs \<and> activity_ok a \<and>
     (if act_phase a = Intermission then (\<forall>h\<in>set (hm_values hs). h = empty_hand)
      else round_hands_ok a hs)"

section \<open>Fresh rounds\<close>

lemma claims_unclaimed: "\<forall>ord\<in>set orders. order_claimed_by ord = None \<Longrightarrow> claims orders = {}"
  by (auto simp: claims_def)

lemma carrying_empty: "hm_ok hs \<Longrightarrow> \<forall>h\<in>set (hm_values hs). h = empty_hand \<Longrightarrow> carrying hs = {}"
  by (fastforce simp: carrying_def empty_hand_def dest: hm_get_in_values)

lemma count_if_all: "(\<And>x. x \<in> set xs \<Longrightarrow> P x) \<Longrightarrow> count_if P xs = length xs"
  by (induction xs) auto

lemma count_if_none: "(\<And>x. x \<in> set xs \<Longrightarrow> \<not> P x) \<Longrightarrow> count_if P xs = 0"
  by (induction xs) auto

lemma tea_layout_length: "length (tea_layouts ! (n mod length tea_layouts)) = 3"
proof -
  have "n mod length tea_layouts < 3" by (simp add: tea_layouts_def)
  then have "n mod length tea_layouts = 0 \<or> n mod length tea_layouts = 1 \<or> n mod length tea_layouts = 2"
    by linarith
  then show ?thesis by (elim disjE) (simp_all add: tea_layouts_def)
qed

lemma rules_ok_fresh:
  assumes "hm_ok hs" and empty: "\<forall>h\<in>set (hm_values hs). h = empty_hand"
  shows "rules_ok (for_round now r n) hs"
proof -
  have e: "held hand_tea hs = 0" "held (\<lambda>h. length (hand_ids h)) hs = 0"
    "held (\<lambda>h. count_list (hand_ids h) i) hs = 0" for i
    using empty by (auto intro!: held_0 simp: empty_hand_def)
  note carry = carrying_empty [OF assms]
  have leaves: "count_if leaf_available (make_leaves r ps) = length ps"
    "count_if (\<lambda>l. leaf_id l = i \<and> leaf_available l) (make_leaves r ps)
       = count_if (\<lambda>l. leaf_id l = i) (make_leaves r ps)" for ps i
    by (auto simp: make_leaves_available count_if_all intro!: count_if_cong)
  have none: "claims (make_orders r st rows) = {}" "count_if served (make_orders r st rows) = 0 \<or> st = Served"
    "count_if ready (make_orders r WaitingIngredient rows) = 0" for st rows
    by (auto intro!: claims_unclaimed count_if_none dest: make_orders_status simp: served_def ready_def)
  consider "for_round now r n = tea_delivery r" | "for_round now r n = table_service r"
    | "for_round now r n = cafe_rush now r n" unfolding for_round_def by metis
  then show ?thesis
  proof cases
    case 1
    have "activity_ok (tea_delivery r)"
      using tea_layout_length [of "r - 1"]
      by (simp add: activity_ok_def tea_delivery_def Let_def distinct_fresh_ids)
    moreover have "round_hands_ok (tea_delivery r) hs"
      using tea_layout_length [of "r - 1"] empty
      by (auto simp: round_hands_ok_def tea_delivery_def Let_def leaves e carry claims_def empty_hand_def)
    ultimately show ?thesis
      using assms(1) 1 by (simp add: rules_ok_def) (simp add: tea_delivery_def Let_def)
  next
    case 2
    have "activity_ok (table_service r)"
      using none(2) [of Available table_service_orders]
      by (auto simp: activity_ok_def table_service_def table_service_orders_def distinct_fresh_ids
          list_all_iff ready_def dest: make_orders_status)
    moreover have "round_hands_ok (table_service r) hs"
      using empty by (auto simp: round_hands_ok_def table_service_def none carry empty_hand_def)
    ultimately show ?thesis
      using assms(1) 2 by (simp add: rules_ok_def) (simp add: table_service_def)
  next
    case 3
    let ?t = "cafe_rush_target n"
    have t: "3 \<le> ?t" "?t \<le> 6" by (rule cafe_rush_target_bounds)+
    then have len: "length (take ?t cafe_rush_ingredients) = ?t" "length (take ?t cafe_rush_orders) = ?t"
      by (simp_all add: cafe_rush_ingredients_def cafe_rush_orders_def)
    have "activity_ok (cafe_rush now r n)"
      using t len none(2) [of WaitingIngredient "take ?t cafe_rush_orders"]
      by (auto simp: activity_ok_def cafe_rush_def Let_def distinct_fresh_ids dest: make_orders_status)
    moreover have "round_hands_ok (cafe_rush now r n) hs"
      using empty t len
      by (auto simp: round_hands_ok_def cafe_rush_def Let_def ingredients_ok_def none carry e leaves
          empty_hand_def)
    ultimately show ?thesis
      using assms(1) 3 by (simp add: rules_ok_def) (simp add: cafe_rush_def Let_def)
  qed
qed

end
