(* ===== verification/Cafe_Rules_Steps.thy ===== *)
theory Cafe_Rules_Steps
  imports Cafe_Rules
begin

text \<open>The steps of a round, each of which keeps \<open>rules_ok\<close>.\<close>

section \<open>Orders and leaves replaced\<close>

lemma claims_Cons: "claims (ord # xs) =
    (case order_claimed_by ord of None \<Rightarrow> {} | Some p \<Rightarrow> {(order_id ord, p)}) \<union> claims xs"
  by (auto simp: claims_def split: option.splits)

lemma claims_append: "claims (xs @ ys) = claims xs \<union> claims ys"
  by (auto simp: claims_def)

lemma claims_id: "(i, p) \<in> claims xs \<Longrightarrow> i \<in> order_id ` set xs"
  by (auto simp: claims_def)

lemma rules_okD:
  assumes "rules_ok a hs"
  shows "hm_ok hs" and "activity_ok a"
    and "act_phase a = Intermission \<Longrightarrow> h \<in> set (hm_values hs) \<Longrightarrow> h = empty_hand"
    and "act_phase a = Active \<Longrightarrow> round_hands_ok a hs"
  using assms by (auto simp: rules_ok_def)

lemma rules_okI:
  assumes "hm_ok hs" and "activity_ok a" and "act_phase a = Active" and "round_hands_ok a hs"
  shows "rules_ok a hs"
  using assms by (simp add: rules_ok_def)

lemma activity_ok_order:
  assumes "activity_ok a" and "table_orders a = us @ ord # vs" and "order_id ord' = order_id ord"
    and "order_claimed_by ord' \<noteq> None \<longleftrightarrow> order_status ord' = Claimed" and "served ord' = served ord"
    and "ready ord \<Longrightarrow> ready ord'"
  shows "activity_ok (a\<lparr>table_orders := us @ ord' # vs\<rparr>)"
  using assms by (auto simp: activity_ok_def)

lemma phase_active: "act_phase a \<noteq> Intermission \<longleftrightarrow> act_phase a = Active"
  by (cases "act_phase a") auto

lemma not_completed_active: "activity_ok a \<Longrightarrow> act_phase a = Active \<Longrightarrow> \<not> completed a \<and> delivered a < act_target a"
  by (auto simp: activity_ok_def)

section \<open>Hands\<close>

lemma carrying_insert:
  "carrying (hm_insert k h hs) =
     {(i, p) \<in> carrying hs. p \<noteq> k} \<union> (case hand_order h of None \<Rightarrow> {} | Some i \<Rightarrow> {(i, k)})"
  by (auto simp: carrying_def split: option.splits if_splits)

lemma carrying_adjust:
  "hm_get hs k = Some h \<Longrightarrow> carrying (hm_adjust k g hs) =
     {(i, p) \<in> carrying hs. p \<noteq> k} \<union> (case hand_order (g h) of None \<Rightarrow> {} | Some i \<Rightarrow> {(i, k)})"
  by (simp add: hm_adjust_def carrying_insert)

lemma carrying_remove: "carrying (hm_remove k hs) = {(i, p) \<in> carrying hs. p \<noteq> k}"
  by (auto simp: carrying_def)

lemma carrying_of: "hm_get hs k = Some h \<Longrightarrow> (i, k) \<in> carrying hs \<longleftrightarrow> hand_order h = Some i"
  by (auto simp: carrying_def)

lemma values_adjust: "hm_ok hs \<Longrightarrow> v \<in> set (hm_values (hm_adjust k g hs)) \<Longrightarrow>
    (\<exists>h. hm_get hs k = Some h \<and> v = g h) \<or> v \<in> set (hm_values hs)"
  by (auto simp: set_values split: if_splits)

lemma values_adjust_all:
  assumes "hm_ok hs" and "hm_get hs k = Some h" and "\<forall>v\<in>set (hm_values hs). P v" and "P (g h)"
  shows "\<forall>v\<in>set (hm_values (hm_adjust k g hs)). P v"
proof
  fix v assume "v \<in> set (hm_values (hm_adjust k g hs))"
  with values_adjust [OF assms(1)] consider h' where "hm_get hs k = Some h'" "v = g h'"
    | "v \<in> set (hm_values hs)" by blast
  then show "P v" using assms by cases simp_all
qed

lemma values_remove: "hm_ok hs \<Longrightarrow> v \<in> set (hm_values (hm_remove k hs)) \<Longrightarrow> v \<in> set (hm_values hs)"
  by (auto simp: set_values split: if_splits)

lemma rules_ok_join:
  assumes "rules_ok a hs" and "hm_get hs k = None"
  shows "rules_ok a (hm_insert k empty_hand hs)"
proof -
  have vals: "set (hm_values (hm_insert k empty_hand hs)) \<subseteq> insert empty_hand (set (hm_values hs))"
    by (rule set_hm_values_insert_subset)
  have carry: "carrying (hm_insert k empty_hand hs) = carrying hs"
    using assms(2) unfolding carrying_insert by (auto simp: carrying_def empty_hand_def)
  have h: "held f (hm_insert k empty_hand hs) = held f hs + f empty_hand" for f
    using assms(2) by (rule held_insert_new)
  have e: "hand_tea empty_hand = 0" "hand_ids empty_hand = []" by (simp_all add: empty_hand_def)
  show ?thesis
  proof (cases "act_phase a = Intermission")
    case True
    with assms(1) vals show ?thesis by (auto simp: rules_ok_def)
  next
    case False
    then have act: "act_phase a = Active" by (simp add: phase_active)
    have "round_hands_ok a (hm_insert k empty_hand hs)"
      using rules_okD(4) [OF assms(1) act] vals
      by (auto simp: round_hands_ok_def carry h e ingredients_ok_def split: cafe_activity_id.splits)
    then show ?thesis
      using rules_okD(1,2) [OF assms(1)] act by (intro rules_okI) simp_all
  qed
qed

section \<open>Picking an order up\<close>

lemma find_order_split:
  assumes "find_order_status st a = Some ord"
  shows "\<exists>us vs. table_orders a = us @ ord # vs \<and> order_status ord = st \<and>
    (\<forall>f. update_first (\<lambda>ord. order_status ord = st) f (table_orders a) = us @ f ord # vs)"
proof -
  from find_Some_split [OF assms [unfolded find_order_status_def], of id]
  obtain us vs where os: "table_orders a = us @ ord # vs" "order_status ord = st"
    "\<forall>u\<in>set us. order_status u \<noteq> st" by auto
  have "update_first (\<lambda>ord. order_status ord = st) f (us @ ord # vs) = us @ f ord # vs" for f
    using os(2,3) by (induction us) auto
  with os show ?thesis by auto
qed

lemma rules_ok_pick_up:
  assumes ok: "rules_ok a hs" and act: "act_phase a = Active"
    and find: "find_order_status Available a = Some ord"
    and h: "hm_get hs pid = Some h" "hand_order h = None"
  shows "rules_ok (set_order_status Available Claimed (Some pid) a)
    (hm_adjust pid (\<lambda>h. h\<lparr>hand_order := Some (order_id ord)\<rparr>) hs)"
proof -
  let ?g = "\<lambda>h. h\<lparr>hand_order := Some (order_id ord)\<rparr>" and ?hs = "hm_adjust pid"
  let ?ord = "ord\<lparr>order_status := Claimed, order_claimed_by := Some pid\<rparr>"
  obtain us vs where os: "table_orders a = us @ ord # vs" "order_status ord = Available"
    and upd: "update_first (\<lambda>ord. order_status ord = Available)
      (\<lambda>ord. ord\<lparr>order_status := Claimed, order_claimed_by := Some pid\<rparr>) (table_orders a) = us @ ?ord # vs"
    using find_order_split [OF find] by blast
  let ?a = "a\<lparr>table_orders := us @ ?ord # vs\<rparr>"
  have a: "set_order_status Available Claimed (Some pid) a = ?a"
    by (simp add: set_order_status_def upd)
  note aok = rules_okD(2) [OF ok] and hok = rules_okD(1) [OF ok]
  have unclaimed: "order_claimed_by ord = None" using aok os by (auto simp: activity_ok_def)
  have aok': "activity_ok ?a"
    using aok os by (intro activity_ok_order [OF aok os(1)]) (auto simp: served_def ready_def)
  have "claims (us @ ?ord # vs) = insert (order_id ord, pid) (claims (table_orders a))"
    unfolding os claims_append claims_Cons by (auto simp: unclaimed)
  moreover have "carrying (hm_adjust pid ?g hs) = insert (order_id ord, pid) (carrying hs)"
    using carrying_of [OF h(1)] h(2) by (auto simp: carrying_adjust [OF h(1)])
  moreover have "held f (hm_adjust pid ?g hs) = held f hs" if "f (?g h) = f h" for f
    using held_adjust [OF h(1), of f ?g] that by simp
  moreover have "count_if ready (us @ ?ord # vs) = count_if ready (table_orders a)"
    using os by (simp add: ready_def)
  moreover have "\<forall>v\<in>set (hm_values (hm_adjust pid ?g hs)). \<exists>v'\<in>set (hm_values hs).
      hand_tea v = hand_tea v' \<and> hand_ids v = hand_ids v'"
    using values_adjust [OF hok, of _ pid ?g] hm_get_in_values by fastforce
  ultimately have "round_hands_ok ?a (hm_adjust pid ?g hs)"
    using rules_okD(4) [OF ok act]
    by (auto simp: round_hands_ok_def ingredients_ok_def split: cafe_activity_id.splits)
  then show ?thesis
    unfolding a using aok' hok act by (intro rules_okI) simp_all
qed

section \<open>Serving\<close>

lemma claims_split:
  assumes "distinct (map order_id (us @ ord # vs))"
  shows "(order_id ord, p) \<notin> claims (us @ vs)"
  using assms claims_id [of "order_id ord" p "us @ vs"] by auto

lemma all_served:
  assumes "activity_ok a" and "act_id a \<noteq> TeaDelivery" and "delivered a = act_target a"
  shows "\<forall>ord\<in>set (table_orders a). order_status ord = Served"
proof -
  have "count_if served (table_orders a) = length (table_orders a)"
    using assms by (simp add: activity_ok_def)
  then show ?thesis using count_if_full [of served] by (auto simp: served_def)
qed

lemma rules_ok_serve:
  assumes ok: "rules_ok a hs" and act: "act_phase a = Active"
    and os: "table_orders a = us @ ord # vs"
    and claimed: "order_status ord = Claimed" "order_claimed_by ord = Some pid"
    and h: "hm_get hs pid = Some h" "hand_order h = Some (order_id ord)"
    and a': "table_orders a' = us @ ord\<lparr>order_status := Served, order_claimed_by := None\<rparr> # vs"
      "delivered a' = Suc (delivered a)" "act_id a' = act_id a" "tea_leaves a' = tea_leaves a"
      "act_target a' = act_target a" "completed a' = (Suc (delivered a) = act_target a)"
      "act_phase a' = (if Suc (delivered a) = act_target a then Intermission else Active)"
  shows "rules_ok a' (hm_adjust pid (\<lambda>h. h\<lparr>hand_order := None\<rparr>) hs)"
proof -
  let ?g = "\<lambda>h. h\<lparr>hand_order := None\<rparr>"
  let ?hs = "hm_adjust pid ?g hs"
  let ?ord = "ord\<lparr>order_status := Served, order_claimed_by := None\<rparr>"
  note aok = rules_okD(2) [OF ok] and hok = rules_okD(1) [OF ok]
  have tea: "act_id a \<noteq> TeaDelivery" using aok os by (auto simp: activity_ok_def)
  have d: "delivered a < act_target a" using not_completed_active [OF aok act] by simp
  have aok': "activity_ok a'"
    using aok os claimed a' d tea by (auto simp: activity_ok_def served_def ready_def)
  have dist: "distinct (map order_id (us @ ord # vs))" using aok os by (simp add: activity_ok_def)
  have "claims (us @ ?ord # vs) = claims (us @ vs)" by (simp add: claims_append claims_Cons)
  moreover have "claims (us @ ord # vs) = insert (order_id ord, pid) (claims (us @ vs))"
    by (auto simp: claims_append claims_Cons claimed)
  ultimately have cl: "claims (table_orders a') = claims (table_orders a) - {(order_id ord, pid)}"
    unfolding os a'(1) using claims_split [OF dist, of pid] by (metis Diff_insert_absorb)
  have mem: "(i, pid) \<in> carrying hs \<longleftrightarrow> i = order_id ord" for i
    unfolding carrying_of [OF h(1)] h(2) by auto
  have ca: "carrying ?hs = carrying hs - {(order_id ord, pid)}"
    unfolding carrying_adjust [OF h(1)] using mem by auto
  have hd: "held f ?hs = held f hs" if "f (?g h) = f h" for f
    using held_adjust [OF h(1), of f ?g] that by simp
  have rd: "count_if ready (table_orders a') = count_if ready (table_orders a)"
    using os claimed by (simp add: a' ready_def)
  have vals: "\<forall>v\<in>set (hm_values ?hs). \<exists>v'\<in>set (hm_values hs).
      hand_tea v = hand_tea v' \<and> hand_ids v = hand_ids v'"
    using values_adjust [OF hok, of _ pid ?g] hm_get_in_values by fastforce
  have rnd: "round_hands_ok a' ?hs"
    using rules_okD(4) [OF ok act] cl ca hd rd vals tea
    by (auto simp: round_hands_ok_def ingredients_ok_def a'(3-5) split: cafe_activity_id.splits)
  show ?thesis
  proof (cases "Suc (delivered a) = act_target a")
    case False
    with a' aok' hok rnd show ?thesis by (intro rules_okI) simp_all
  next
    case True
    have sv: "\<forall>ord\<in>set (table_orders a'). order_status ord = Served"
      using all_served [OF aok'] tea a' True by simp
    then have "claims (table_orders a') = {}"
      using aok' by (intro claims_unclaimed) (auto simp: activity_ok_def)
    then have "carrying ?hs = {}" using rnd by (simp add: round_hands_ok_def)
    then have none: "hand_order v = None" if "v \<in> set (hm_values ?hs)" for v
      using that hok unfolding carrying_def by (cases "hand_order v") (auto simp: set_values)
    have "hand_tea v = 0 \<and> hand_ids v = []" if v: "v \<in> set (hm_values ?hs)" for v
    proof (cases "act_id a = CafeRush")
      case True
      have "count_if ready (table_orders a') = length (table_orders a')"
        using sv by (intro count_if_all) (simp add: ready_def)
      then have "held (\<lambda>h. length (hand_ids h)) ?hs = 0"
        using rnd aok' True a' by (simp add: round_hands_ok_def ingredients_ok_def activity_ok_def)
      moreover have "hm_ok ?hs" using hok by simp
      from v [unfolded set_values [OF this]] obtain k where "hm_get ?hs k = Some v" by (rule exE)
      from held_ge [where f = "\<lambda>h. length (hand_ids h)", OF this]
      have "length (hand_ids v) \<le> held (\<lambda>h. length (hand_ids h)) ?hs" .
      ultimately have "hand_ids v = []" by (simp only: le_zero_eq length_0_conv)
      then show ?thesis using rnd v True a' by (simp add: round_hands_ok_def)
    next
      case False
      with tea have "act_id a = TableService" by (cases "act_id a") auto
      then show ?thesis using rnd v a' by (simp add: round_hands_ok_def)
    qed
    with none have "\<forall>v\<in>set (hm_values ?hs). v = empty_hand" by (simp add: empty_hand_def)
    then show ?thesis using hok aok' True a' by (simp add: rules_ok_def)
  qed
qed

section \<open>Preparing an order of a rush\<close>

lemma rules_ok_prepare:
  assumes ok: "rules_ok a hs" and act: "act_phase a = Active" and rush: "act_id a = CafeRush"
    and find: "find_order_status WaitingIngredient a = Some ord"
    and h: "hm_get hs pid = Some h" "hand_ids h \<noteq> []"
  shows "rules_ok (a\<lparr>table_orders := update_first (\<lambda>ord. order_status ord = WaitingIngredient)
      (\<lambda>ord. ord\<lparr>order_status := Available\<rparr>) (table_orders a)\<rparr>)
    (hm_adjust pid (\<lambda>h. h\<lparr>hand_tea := hand_tea h - 1, hand_ids := butlast (hand_ids h)\<rparr>) hs)"
proof -
  let ?g = "\<lambda>h. h\<lparr>hand_tea := hand_tea h - 1, hand_ids := butlast (hand_ids h)\<rparr>"
  let ?hs = "hm_adjust pid ?g hs" and ?ord = "ord\<lparr>order_status := Available\<rparr>"
  obtain us vs where os: "table_orders a = us @ ord # vs" "order_status ord = WaitingIngredient"
    and upd: "update_first (\<lambda>ord. order_status ord = WaitingIngredient)
      (\<lambda>ord. ord\<lparr>order_status := Available\<rparr>) (table_orders a) = us @ ?ord # vs"
    using find_order_split [OF find] by blast
  note aok = rules_okD(2) [OF ok] and hok = rules_okD(1) [OF ok]
  have unclaimed: "order_claimed_by ord = None" using aok os by (auto simp: activity_ok_def)
  have aok': "activity_ok (a\<lparr>table_orders := us @ ?ord # vs\<rparr>)"
    using unclaimed os by (intro activity_ok_order [OF aok os(1)]) (auto simp: served_def ready_def)
  obtain ids i where ids: "hand_ids h = ids @ [i]" using h(2) by (cases "hand_ids h" rule: rev_cases) auto
  have cl: "claims (us @ ?ord # vs) = claims (table_orders a)"
    by (auto simp: os claims_append claims_Cons unclaimed)
  have ca: "carrying ?hs = carrying hs"
    using carrying_of [OF h(1)] by (auto simp: carrying_adjust [OF h(1)] split: option.split)
  have len: "Suc (held (\<lambda>h. length (hand_ids h)) ?hs) = held (\<lambda>h. length (hand_ids h)) hs"
    using held_adjust [OF h(1), of "\<lambda>h. length (hand_ids h)" ?g] by (simp add: ids)
  have cnt: "held (\<lambda>h. count_list (hand_ids h) j) ?hs \<le> held (\<lambda>h. count_list (hand_ids h) j) hs" for j
    using held_adjust [OF h(1), of "\<lambda>h. count_list (hand_ids h) j" ?g] by (simp add: ids split: if_splits)
  have rd: "count_if ready (us @ ?ord # vs) = Suc (count_if ready (table_orders a))"
    using os by (simp add: ready_def)
  have vals: "hand_tea v = length (hand_ids v)" if "v \<in> set (hm_values ?hs)" for v
  proof -
    have old: "hand_tea v = length (hand_ids v)" if "v \<in> set (hm_values hs)" for v
      using rules_okD(4) [OF ok act] rush that by (simp add: round_hands_ok_def)
    show ?thesis
      using values_adjust [OF hok that] old hm_get_in_values by fastforce
  qed
  have ing: "ingredients_ok a (\<lambda>i. held (\<lambda>h. count_list (hand_ids h) i) hs)
      (held (\<lambda>h. length (hand_ids h)) hs)" and cl0: "claims (table_orders a) = carrying hs"
    using rules_okD(4) [OF ok act] rush by (simp_all add: round_hands_ok_def)
  have "ingredients_ok (a\<lparr>table_orders := us @ ?ord # vs\<rparr>)
      (\<lambda>i. held (\<lambda>h. count_list (hand_ids h) i) ?hs) (held (\<lambda>h. length (hand_ids h)) ?hs)"
    unfolding ingredients_ok_def
  proof (intro conjI allI)
    fix j
    show "held (\<lambda>h. count_list (hand_ids h) j) ?hs
        + count_if (\<lambda>l. leaf_id l = j \<and> leaf_available l) (tea_leaves (a\<lparr>table_orders := us @ ?ord # vs\<rparr>))
      \<le> count_if (\<lambda>l. leaf_id l = j) (tea_leaves (a\<lparr>table_orders := us @ ?ord # vs\<rparr>))"
    proof -
      have "held (\<lambda>h. count_list (hand_ids h) j) hs
          + count_if (\<lambda>l. leaf_id l = j \<and> leaf_available l) (tea_leaves a)
        \<le> count_if (\<lambda>l. leaf_id l = j) (tea_leaves a)"
        using ing by (simp add: ingredients_ok_def)
      then show ?thesis using cnt [of j] by simp
    qed
  next
    show "count_if leaf_available (tea_leaves (a\<lparr>table_orders := us @ ?ord # vs\<rparr>))
      + held (\<lambda>h. length (hand_ids h)) ?hs
      + count_if ready (table_orders (a\<lparr>table_orders := us @ ?ord # vs\<rparr>))
      = act_target (a\<lparr>table_orders := us @ ?ord # vs\<rparr>)"
    proof -
      have e: "count_if leaf_available (tea_leaves a) + held (\<lambda>h. length (hand_ids h)) hs
          + count_if ready (table_orders a) = act_target a"
        using ing unfolding ingredients_ok_def by blast
      have f: "tea_leaves (a\<lparr>table_orders := us @ ?ord # vs\<rparr>) = tea_leaves a"
        "table_orders (a\<lparr>table_orders := us @ ?ord # vs\<rparr>) = us @ ?ord # vs"
        "act_target (a\<lparr>table_orders := us @ ?ord # vs\<rparr>) = act_target a" by simp_all
      show ?thesis unfolding f using e len rd by linarith
    qed
  qed
  moreover have "claims (table_orders (a\<lparr>table_orders := us @ ?ord # vs\<rparr>)) = carrying ?hs"
    using cl cl0 ca by simp
  moreover have "act_id (a\<lparr>table_orders := us @ ?ord # vs\<rparr>) = CafeRush" using rush by simp
  ultimately have "round_hands_ok (a\<lparr>table_orders := us @ ?ord # vs\<rparr>) ?hs"
    unfolding round_hands_ok_def using vals by (simp only: cafe_activity_id.case) blast
  then show ?thesis
    unfolding upd using aok' hok act by (intro rules_okI) simp_all
qed

section \<open>Collecting a leaf\<close>

lemma activity_ok_leaf:
  assumes "activity_ok a" and "tea_leaves a = us @ l # vs" and "leaf_id l' = leaf_id l"
  shows "activity_ok (a\<lparr>tea_leaves := us @ l' # vs\<rparr>)"
  using assms by (auto simp: activity_ok_def)

lemma find_leaf_split:
  assumes "find (\<lambda>l. leaf_id l = i \<and> leaf_available l) (tea_leaves a) = Some l"
  shows "\<exists>us vs. tea_leaves a = us @ l # vs \<and> leaf_id l = i \<and> leaf_available l \<and>
    (\<forall>f. update_first (\<lambda>l'. leaf_id l' = leaf_id l \<and> leaf_available l') f (tea_leaves a) = us @ f l # vs)"
proof -
  from find_Some_split [OF assms, of id]
  obtain us vs where ls: "tea_leaves a = us @ l # vs" "leaf_id l = i" "leaf_available l"
    "\<forall>u\<in>set us. \<not> (leaf_id u = i \<and> leaf_available u)" by auto
  have "update_first (\<lambda>l'. leaf_id l' = leaf_id l \<and> leaf_available l') f (us @ l # vs) = us @ f l # vs" for f
    using ls(2-4) by (induction us) auto
  with ls show ?thesis by auto
qed

lemma rules_ok_collect:
  assumes ok: "rules_ok a hs" and act: "act_phase a = Active" and kind: "act_id a \<noteq> TableService"
    and find: "find (\<lambda>l. leaf_id l = i \<and> leaf_available l) (tea_leaves a) = Some l"
    and h: "hm_get hs pid = Some h"
  shows "rules_ok (a\<lparr>tea_leaves := update_first (\<lambda>l'. leaf_id l' = leaf_id l \<and> leaf_available l')
      (\<lambda>l. l\<lparr>leaf_available := False\<rparr>) (tea_leaves a)\<rparr>)
    (hm_adjust pid (\<lambda>h. h\<lparr>hand_tea := sat_add 8 (hand_tea h) 1,
       hand_ids := hand_ids h @ (if act_id a = CafeRush then [leaf_id l] else [])\<rparr>) hs)"
proof -
  let ?g = "\<lambda>h. h\<lparr>hand_tea := sat_add 8 (hand_tea h) 1,
       hand_ids := hand_ids h @ (if act_id a = CafeRush then [leaf_id l] else [])\<rparr>"
  let ?hs = "hm_adjust pid ?g hs" and ?l = "l\<lparr>leaf_available := False\<rparr>"
  obtain us vs where ls: "tea_leaves a = us @ l # vs" "leaf_available l"
    and upd: "update_first (\<lambda>l'. leaf_id l' = leaf_id l \<and> leaf_available l')
      (\<lambda>l. l\<lparr>leaf_available := False\<rparr>) (tea_leaves a) = us @ ?l # vs"
    using find_leaf_split [OF find] by blast
  let ?a = "a\<lparr>tea_leaves := us @ ?l # vs\<rparr>"
  note aok = rules_okD(2) [OF ok] and hok = rules_okD(1) [OF ok] and rnd = rules_okD(4) [OF ok act]
  have aok': "activity_ok ?a" by (rule activity_ok_leaf [OF aok ls(1)]) simp
  have ca: "carrying ?hs = carrying hs"
    unfolding carrying_adjust [OF h] using carrying_of [OF h] by (auto split: option.split)
  have av: "Suc (count_if leaf_available (us @ ?l # vs)) = count_if leaf_available (tea_leaves a)"
    using ls by simp
  have get: "\<exists>k. hm_get ?hs k = Some v" if "v \<in> set (hm_values ?hs)" for v
  proof -
    have "hm_ok ?hs" using hok by simp
    from that [unfolded set_values [OF this]] show ?thesis .
  qed
  have f: "act_id ?a = act_id a" "table_orders ?a = table_orders a" "act_target ?a = act_target a"
    "delivered ?a = delivered a" "tea_leaves ?a = us @ ?l # vs" by simp_all
  have "round_hands_ok ?a ?hs"
  proof (cases "act_id a = CafeRush")
    case True
    have old: "\<forall>v\<in>set (hm_values hs). hand_tea v = length (hand_ids v)"
      and cl: "claims (table_orders a) = carrying hs"
      and ing: "ingredients_ok a (\<lambda>i. held (\<lambda>h. count_list (hand_ids h) i) hs) (held (\<lambda>h. length (hand_ids h)) hs)"
      using rnd True by (simp_all add: round_hands_ok_def)
    have len: "held (\<lambda>h. length (hand_ids h)) ?hs = Suc (held (\<lambda>h. length (hand_ids h)) hs)"
      using held_adjust [OF h, of "\<lambda>h. length (hand_ids h)" ?g] by (simp add: True)
    have "length (hand_ids h) \<le> held (\<lambda>h. length (hand_ids h)) hs"
      by (rule held_ge [where f = "\<lambda>h. length (hand_ids h)", OF h])
    also have "\<dots> \<le> act_target a" using ing by (simp add: ingredients_ok_def)
    also have "\<dots> \<le> 6" using aok by (simp add: activity_ok_def)
    finally have "sat_add 8 (length (hand_ids h)) 1 = Suc (length (hand_ids h))"
      by (simp add: sat_add_def)
    then have "hand_tea (?g h) = length (hand_ids (?g h))"
      using old hm_get_in_values [OF h] by (simp add: True)
    then have vals: "\<forall>v\<in>set (hm_values ?hs). hand_tea v = length (hand_ids v)"
      by (rule values_adjust_all [OF hok h old])
    have cnt: "held (\<lambda>h. count_list (hand_ids h) j) ?hs
        = held (\<lambda>h. count_list (hand_ids h) j) hs + of_bool (leaf_id l = j)" for j
      using held_adjust [OF h, of "\<lambda>h. count_list (hand_ids h) j" ?g] by (simp add: True)
    have pj: "count_if (\<lambda>l. leaf_id l = j \<and> leaf_available l) (us @ ?l # vs) + of_bool (leaf_id l = j)
        = count_if (\<lambda>l. leaf_id l = j \<and> leaf_available l) (tea_leaves a)"
      and tj: "count_if (\<lambda>l. leaf_id l = j) (us @ ?l # vs) = count_if (\<lambda>l. leaf_id l = j) (tea_leaves a)" for j
      using ls by simp_all
    have ij: "held (\<lambda>h. count_list (hand_ids h) j) hs
        + count_if (\<lambda>l. leaf_id l = j \<and> leaf_available l) (tea_leaves a)
      \<le> count_if (\<lambda>l. leaf_id l = j) (tea_leaves a)" for j
      using ing unfolding ingredients_ok_def by blast
    have it: "count_if leaf_available (tea_leaves a) + held (\<lambda>h. length (hand_ids h)) hs
        + count_if ready (table_orders a) = act_target a"
      using ing unfolding ingredients_ok_def by blast
    have "ingredients_ok ?a (\<lambda>i. held (\<lambda>h. count_list (hand_ids h) i) ?hs) (held (\<lambda>h. length (hand_ids h)) ?hs)"
      unfolding ingredients_ok_def f
    proof (intro conjI allI)
      fix j
      show "held (\<lambda>h. count_list (hand_ids h) j) ?hs
          + count_if (\<lambda>l. leaf_id l = j \<and> leaf_available l) (us @ ?l # vs)
        \<le> count_if (\<lambda>l. leaf_id l = j) (us @ ?l # vs)"
        using ij [of j] cnt [of j] pj [of j] tj [of j] by linarith
      show "count_if leaf_available (us @ ?l # vs) + held (\<lambda>h. length (hand_ids h)) ?hs
          + count_if ready (table_orders a) = act_target a"
        using it len av by linarith
    qed
    then show ?thesis
      unfolding round_hands_ok_def f using vals cl ca True
      by (simp only: True cafe_activity_id.case simp_thms)
  next
    case False
    with kind have tea: "act_id a = TeaDelivery" by (cases "act_id a") auto
    have old: "\<forall>v\<in>set (hm_values hs). hand_ids v = []" and cl: "claims (table_orders a) = carrying hs"
      and sum: "count_if leaf_available (tea_leaves a) + held hand_tea hs + delivered a \<le> act_target a"
      using rnd tea by (simp_all add: round_hands_ok_def)
    have "held hand_tea ?hs + hand_tea h = held hand_tea hs + hand_tea (?g h)"
      by (rule held_adjust [OF h])
    moreover have "hand_tea (?g h) \<le> hand_tea h + 1" using sat_add_le [of 8 "hand_tea h" 1] by simp
    ultimately have "held hand_tea ?hs \<le> Suc (held hand_tea hs)" by linarith
    then have "count_if leaf_available (us @ ?l # vs) + held hand_tea ?hs + delivered a \<le> act_target a"
      using sum av by linarith
    moreover have "\<forall>v\<in>set (hm_values ?hs). hand_ids v = []"
      using old hm_get_in_values [OF h] False by (intro values_adjust_all [OF hok h old]) simp
    ultimately show ?thesis
      unfolding round_hands_ok_def f using cl ca
      by (simp only: tea cafe_activity_id.case simp_thms)
  qed
  then show ?thesis
    unfolding upd using aok' hok act by (intro rules_okI) simp_all
qed

section \<open>Delivering tea\<close>

lemma rules_ok_deliver:
  assumes ok: "rules_ok a hs" and act: "act_phase a = Active" and tea: "act_id a = TeaDelivery"
    and h: "hm_get hs pid = Some h"
    and a': "table_orders a' = table_orders a" "tea_leaves a' = tea_leaves a" "act_id a' = act_id a"
      "act_target a' = act_target a"
      "delivered a' = min (sat_add 8 (delivered a) (hand_tea h)) (act_target a)"
      "completed a' = (delivered a' = act_target a)"
      "act_phase a' = (if delivered a' = act_target a then Intermission else Active)"
  shows "rules_ok a' (hm_adjust pid (\<lambda>h. h\<lparr>hand_tea := 0\<rparr>) hs)"
proof -
  let ?g = "\<lambda>h. h\<lparr>hand_tea := 0\<rparr>"
  let ?hs = "hm_adjust pid ?g hs"
  note aok = rules_okD(2) [OF ok] and hok = rules_okD(1) [OF ok] and rnd = rules_okD(4) [OF ok act]
  have old: "\<forall>v\<in>set (hm_values hs). hand_ids v = []" and cl: "claims (table_orders a) = carrying hs"
    and sum: "count_if leaf_available (tea_leaves a) + held hand_tea hs + delivered a \<le> act_target a"
    using rnd tea by (simp_all add: round_hands_ok_def)
  have "act_target a \<le> 6" using aok by (simp add: activity_ok_def)
  moreover have "hand_tea h \<le> held hand_tea hs" by (rule held_ge [OF h])
  ultimately have d: "delivered a' = delivered a + hand_tea h"
    unfolding a'(5) sat_add_def using sum by simp
  have "held hand_tea ?hs + hand_tea h = held hand_tea hs + hand_tea (?g h)" by (rule held_adjust [OF h])
  then have sum': "count_if leaf_available (tea_leaves a) + held hand_tea ?hs + delivered a' \<le> act_target a"
    using sum d by simp
  have aok': "activity_ok a'"
    using aok a' tea sum' by (auto simp: activity_ok_def)
  have ca: "carrying ?hs = carrying hs"
    unfolding carrying_adjust [OF h] using carrying_of [OF h] by (auto split: option.split)
  have ids: "\<forall>v\<in>set (hm_values ?hs). hand_ids v = []"
    using old hm_get_in_values [OF h] by (intro values_adjust_all [OF hok h old]) simp
  have rnd': "round_hands_ok a' ?hs"
    unfolding round_hands_ok_def a'(1-4) tea using cl ca ids sum'
    by (simp only: cafe_activity_id.case simp_thms)
  show ?thesis
  proof (cases "delivered a' = act_target a")
    case False
    with a' aok' hok rnd' show ?thesis by (intro rules_okI) simp_all
  next
    case True
    have hok': "hm_ok ?hs" using hok by simp
    have "table_orders a = []" using aok tea by (simp add: activity_ok_def)
    then have nobody: "carrying ?hs = {}" using cl ca by (simp add: claims_def)
    have "v = empty_hand" if v: "v \<in> set (hm_values ?hs)" for v
    proof -
      obtain k where k: "hm_get ?hs k = Some v" using v unfolding set_values [OF hok'] by (rule exE)
      have "hand_tea v \<le> held hand_tea ?hs" by (rule held_ge [OF k])
      moreover have "held hand_tea ?hs = 0" using sum' True by linarith
      moreover have "hand_order v = None"
        using nobody k unfolding carrying_def by (cases "hand_order v") blast+
      ultimately show ?thesis using ids v by (simp add: empty_hand_def)
    qed
    then show ?thesis using hok' aok' True a' by (simp add: rules_ok_def)
  qed
qed

section \<open>A rush that ends\<close>

lemma all_empty_values: "\<forall>h\<in>set (hm_values (hm_map_values (\<lambda>_. empty_hand) m)). h = empty_hand"
  by (auto simp: hm_values_def hm_map_values_def)

lemma rules_ok_expire:
  assumes ok: "activity_ok a" "hm_ok hs" and "\<not> completed a"
    and a': "table_orders a' = table_orders a" "tea_leaves a' = tea_leaves a" "act_id a' = act_id a"
      "act_target a' = act_target a" "delivered a' = delivered a" "completed a' = completed a"
      "act_phase a' = Intermission"
  shows "rules_ok a' (hm_map_values (\<lambda>_. empty_hand) hs)"
  using assms all_empty_values [of hs] by (simp add: rules_ok_def) (simp add: activity_ok_def)

section \<open>Leaving\<close>

lemma restore_ingredient_simps [simp]:
  "table_orders (restore_ingredient i a) = table_orders a" "act_id (restore_ingredient i a) = act_id a"
  "act_target (restore_ingredient i a) = act_target a" "delivered (restore_ingredient i a) = delivered a"
  "act_phase (restore_ingredient i a) = act_phase a" "completed (restore_ingredient i a) = completed a"
  by (simp_all add: restore_ingredient_def)

text \<open>An ingredient that somebody carries lies on no leaf, so its leaf can be given back.\<close>

lemma restore_ingredient_step:
  assumes aok: "activity_ok a"
    and ing: "ingredients_ok a (\<lambda>j. C j + of_bool (i = j)) (Suc n)"
  shows "activity_ok (restore_ingredient i a) \<and> ingredients_ok (restore_ingredient i a) C n"
proof -
  have tot: "C j + of_bool (i = j) + count_if (\<lambda>l. leaf_id l = j \<and> leaf_available l) (tea_leaves a)
      \<le> count_if (\<lambda>l. leaf_id l = j) (tea_leaves a)" for j
    using ing unfolding ingredients_ok_def by blast
  have sum: "count_if leaf_available (tea_leaves a) + Suc n + count_if ready (table_orders a) = act_target a"
    using ing unfolding ingredients_ok_def by blast
  have "0 < count_if (\<lambda>l. leaf_id l = i) (tea_leaves a)" using tot [of i] by simp
  then have "\<exists>l\<in>set (tea_leaves a). leaf_id l = i" unfolding count_if_pos .
  from find_exists [OF this] obtain l where "find (\<lambda>l. leaf_id l = i) (tea_leaves a) = Some l"
    by (rule exE)
  from find_Some_split [OF this, of "\<lambda>l. l\<lparr>leaf_available := True\<rparr>"] obtain us vs
    where ls: "tea_leaves a = us @ l # vs" "leaf_id l = i"
      and upd: "update_first (\<lambda>l. leaf_id l = i) (\<lambda>l. l\<lparr>leaf_available := True\<rparr>) (tea_leaves a)
        = us @ l\<lparr>leaf_available := True\<rparr> # vs" by auto
  let ?l = "l\<lparr>leaf_available := True\<rparr>"
  have a': "restore_ingredient i a = a\<lparr>tea_leaves := us @ ?l # vs\<rparr>"
    by (simp add: restore_ingredient_def upd)
  have dist: "distinct (map leaf_id (us @ l # vs))" using aok ls by (simp add: activity_ok_def)
  then have one: "count_if (\<lambda>l. leaf_id l = i) (us @ vs) = 0"
  proof (intro count_if_none notI)
    fix x assume "x \<in> set (us @ vs)" and "leaf_id x = i"
    then have "leaf_id l \<in> leaf_id ` set (us @ vs)" unfolding ls(2) by (metis image_eqI)
    with dist show False by auto
  qed
  have off: "\<not> leaf_available l"
  proof
    assume "leaf_available l"
    then have "count_if (\<lambda>l. leaf_id l = i \<and> leaf_available l) (tea_leaves a) \<ge> 1"
      using ls by simp
    moreover have "count_if (\<lambda>l. leaf_id l = i) (tea_leaves a) = 1" using one ls by simp
    ultimately show False using tot [of i] by simp
  qed
  have "ingredients_ok (a\<lparr>tea_leaves := us @ ?l # vs\<rparr>) C n"
    unfolding ingredients_ok_def
  proof (intro conjI allI)
    fix j
    show "C j + count_if (\<lambda>l. leaf_id l = j \<and> leaf_available l) (tea_leaves (a\<lparr>tea_leaves := us @ ?l # vs\<rparr>))
      \<le> count_if (\<lambda>l. leaf_id l = j) (tea_leaves (a\<lparr>tea_leaves := us @ ?l # vs\<rparr>))"
      using tot [of j] ls off by (simp split: if_splits)
    show "count_if leaf_available (tea_leaves (a\<lparr>tea_leaves := us @ ?l # vs\<rparr>)) + n
      + count_if ready (table_orders (a\<lparr>tea_leaves := us @ ?l # vs\<rparr>))
      = act_target (a\<lparr>tea_leaves := us @ ?l # vs\<rparr>)"
      using sum ls off by simp
  qed
  moreover have "activity_ok (a\<lparr>tea_leaves := us @ ?l # vs\<rparr>)"
    by (rule activity_ok_leaf [OF aok ls(1)]) simp
  ultimately show ?thesis unfolding a' by blast
qed

lemma restore_all:
  "activity_ok a \<Longrightarrow> ingredients_ok a (\<lambda>j. C j + count_list is j) (n + length is) \<Longrightarrow>
    activity_ok (fold restore_ingredient is a) \<and> ingredients_ok (fold restore_ingredient is a) C n"
proof (induction "is" arbitrary: a)
  case (Cons i "is")
  have "(\<lambda>j. C j + count_list (i # is) j) = (\<lambda>j. (C j + count_list is j) + of_bool (i = j))"
    by (auto simp: fun_eq_iff)
  moreover have "n + length (i # is) = Suc (n + length is)" by simp
  ultimately have "ingredients_ok a (\<lambda>j. (C j + count_list is j) + of_bool (i = j)) (Suc (n + length is))"
    using Cons.prems(2) by (simp only:)
  from restore_ingredient_step [OF Cons.prems(1) this] Cons.IH show ?case by simp
qed simp

lemma fold_restore_simps [simp]:
  "table_orders (fold restore_ingredient is a) = table_orders a"
  "act_id (fold restore_ingredient is a) = act_id a"
  "act_target (fold restore_ingredient is a) = act_target a"
  "delivered (fold restore_ingredient is a) = delivered a"
  "act_phase (fold restore_ingredient is a) = act_phase a"
  by (induction "is" arbitrary: a) simp_all

text \<open>The order a leaving player carries becomes available again.\<close>

definition drop_order :: "uuid \<Rightarrow> ustr option \<Rightarrow> cafe_activity \<Rightarrow> cafe_activity" where
  "drop_order pid i a = (case i of None \<Rightarrow> a | Some i \<Rightarrow> restore_order pid i a)"

lemma drop_order_ok:
  assumes aok: "activity_ok a" and cl: "\<And>i. order = Some i \<Longrightarrow> (i, pid) \<in> claims (table_orders a)"
    and only: "\<And>i. (i, pid) \<in> claims (table_orders a) \<Longrightarrow> order = Some i"
  shows "activity_ok (drop_order pid order a)
    \<and> claims (table_orders (drop_order pid order a)) = {(i, p) \<in> claims (table_orders a). p \<noteq> pid}
    \<and> count_if ready (table_orders (drop_order pid order a)) = count_if ready (table_orders a)
    \<and> tea_leaves (drop_order pid order a) = tea_leaves a \<and> act_id (drop_order pid order a) = act_id a
    \<and> act_target (drop_order pid order a) = act_target a \<and> delivered (drop_order pid order a) = delivered a
    \<and> act_phase (drop_order pid order a) = act_phase a"
proof (cases order)
  case None
  then have "{(i, p) \<in> claims (table_orders a). p \<noteq> pid} = claims (table_orders a)" using only by auto
  with None aok show ?thesis by (simp add: drop_order_def)
next
  case (Some i)
  let ?P = "\<lambda>ord. order_id ord = i \<and> order_claimed_by ord = Some pid"
  let ?f = "\<lambda>ord. ord\<lparr>order_status := Available, order_claimed_by := None\<rparr>"
  have "\<exists>x\<in>set (table_orders a). ?P x" using cl [OF Some] by (auto simp: claims_def)
  from find_exists [OF this] obtain ord where find: "find ?P (table_orders a) = Some ord" by (rule exE)
  from find_Some_split [OF find, of ?f] obtain us vs where os: "table_orders a = us @ ord # vs"
    "order_id ord = i" "order_claimed_by ord = Some pid"
    and upd: "update_first ?P ?f (table_orders a) = us @ ?f ord # vs" by auto
  have a': "drop_order pid order a = a\<lparr>table_orders := us @ ?f ord # vs\<rparr>"
    by (simp add: drop_order_def Some restore_order_def upd)
  have st: "order_status ord = Claimed" using aok os by (auto simp: activity_ok_def)
  have aok': "activity_ok (a\<lparr>table_orders := us @ ?f ord # vs\<rparr>)"
    using st by (intro activity_ok_order [OF aok os(1)]) (auto simp: served_def ready_def)
  have dist: "distinct (map order_id (us @ ord # vs))" using aok os by (simp add: activity_ok_def)
  have new: "claims (us @ ?f ord # vs) = claims (us @ vs)" by (simp add: claims_append claims_Cons)
  have old: "claims (table_orders a) = insert (i, pid) (claims (us @ vs))"
    by (auto simp: os claims_append claims_Cons)
  have "claims (us @ vs) = {(j, p) \<in> claims (table_orders a). p \<noteq> pid}"
  proof -
    have "p \<noteq> pid" if "(j, p) \<in> claims (us @ vs)" for j p
    proof
      assume "p = pid"
      with that have "(j, pid) \<in> claims (table_orders a)" using old by auto
      then have "j = i" using only Some by auto
      with that \<open>p = pid\<close> claims_split [OF dist, of pid] os show False by simp
    qed
    then show ?thesis unfolding old by auto
  qed
  moreover have "count_if ready (us @ ?f ord # vs) = count_if ready (table_orders a)"
    using st by (simp add: os ready_def)
  ultimately show ?thesis using aok' new unfolding a' by simp
qed

lemma rules_ok_leave:
  assumes ok: "rules_ok a hs" and h: "hm_get hs pid = Some h"
  shows "rules_ok (drop_order pid (hand_order h) (fold restore_ingredient (hand_ids h) a)) (hm_remove pid hs)"
proof -
  note aok = rules_okD(2) [OF ok] and hok = rules_okD(1) [OF ok]
  let ?hs = "hm_remove pid hs" and ?a1 = "fold restore_ingredient (hand_ids h) a"
  let ?a = "drop_order pid (hand_order h) ?a1"
  have hok': "hm_ok ?hs" using hok by simp
  have sub: "v \<in> set (hm_values hs)" if "v \<in> set (hm_values ?hs)" for v
    using values_remove [OF hok that] .
  have hv: "h \<in> set (hm_values hs)" by (rule hm_get_in_values [OF h])
  show ?thesis
  proof (cases "act_phase a = Intermission")
    case True
    then have "h = empty_hand" using rules_okD(3) [OF ok] hv by blast
    then have "?a = a" by (simp add: empty_hand_def drop_order_def)
    moreover have "\<forall>v\<in>set (hm_values ?hs). v = empty_hand" using rules_okD(3) [OF ok True] sub by blast
    ultimately show ?thesis using aok hok' True by (simp add: rules_ok_def)
  next
    case False
    then have act: "act_phase a = Active" by (simp add: phase_active)
    note rnd = rules_okD(4) [OF ok act]
    have cl: "claims (table_orders a) = carrying hs" using rnd by (simp add: round_hands_ok_def)
    have held': "held f ?hs + f h = held f hs" for f by (rule held_remove [OF hok h])
    have a1: "activity_ok ?a1 \<and> (act_id a = CafeRush \<longrightarrow> ingredients_ok ?a1
        (\<lambda>i. held (\<lambda>h. count_list (hand_ids h) i) ?hs) (held (\<lambda>h. length (hand_ids h)) ?hs))
      \<and> (act_id a \<noteq> CafeRush \<longrightarrow> ?a1 = a)"
    proof (cases "act_id a = CafeRush")
      case True
      have "ingredients_ok a (\<lambda>i. held (\<lambda>h. count_list (hand_ids h) i) ?hs + count_list (hand_ids h) i)
        (held (\<lambda>h. length (hand_ids h)) ?hs + length (hand_ids h))"
      proof -
        have "held (\<lambda>h. count_list (hand_ids h) i) ?hs + count_list (hand_ids h) i
            = held (\<lambda>h. count_list (hand_ids h) i) hs"
          and "held (\<lambda>h. length (hand_ids h)) ?hs + length (hand_ids h) = held (\<lambda>h. length (hand_ids h)) hs"
          for i by (rule held_remove [OF hok h])+
        then show ?thesis using rnd True by (simp add: round_hands_ok_def)
      qed
      from restore_all [OF aok this] True show ?thesis by blast
    next
      case False
      then have "hand_ids h = []" using rnd hv by (cases "act_id a") (auto simp: round_hands_ok_def)
      then show ?thesis using aok False by simp
    qed
    have drop: "activity_ok ?a
        \<and> claims (table_orders ?a) = {(i, p) \<in> claims (table_orders ?a1). p \<noteq> pid}
        \<and> count_if ready (table_orders ?a) = count_if ready (table_orders ?a1)
        \<and> tea_leaves ?a = tea_leaves ?a1 \<and> act_id ?a = act_id ?a1
        \<and> act_target ?a = act_target ?a1 \<and> delivered ?a = delivered ?a1 \<and> act_phase ?a = act_phase ?a1"
      using a1 cl carrying_of [OF h] by (intro drop_order_ok) simp_all
    have cl': "claims (table_orders ?a) = carrying ?hs"
      using drop cl by (simp add: carrying_remove)
    have "round_hands_ok ?a ?hs"
    proof (cases "act_id a")
      case TeaDelivery
      have "count_if leaf_available (tea_leaves a) + held hand_tea ?hs + delivered a \<le> act_target a"
        using rnd TeaDelivery held' [of hand_tea] by (simp add: round_hands_ok_def)
      then show ?thesis
        using cl' drop a1 TeaDelivery rnd sub by (simp add: round_hands_ok_def)
    next
      case TableService
      then show ?thesis using cl' drop a1 rnd sub by (simp add: round_hands_ok_def)
    next
      case CafeRush
      have "ingredients_ok ?a (\<lambda>i. held (\<lambda>h. count_list (hand_ids h) i) ?hs)
          (held (\<lambda>h. length (hand_ids h)) ?hs)"
        using a1 CafeRush drop unfolding ingredients_ok_def by simp
      then show ?thesis using cl' drop CafeRush rnd sub by (simp add: round_hands_ok_def)
    qed
    then show ?thesis using drop hok' act by (intro rules_okI) simp_all
  qed
qed

end
