(* ===== verification/Cafe_Machine.thy ===== *)
theory Cafe_Machine
  imports Cafe_Rules_Steps Wf_Interfaces
begin

text \<open>
  A room as a machine over everything that can happen to it: the messages of its sockets, the joins
  and leaves, the movement tick, the round and rush timers, rewards and equipment changes, each with
  the clock readings and the fresh id of its moment. \<open>room_inv\<close> holds in every state of a room that
  was created by \<open>new_room\<close>. A join carries the moment its player was made, before the socket was
  upgraded. A \<open>Move\<close> carries the JSON numbers of the client, which become \<open>f32\<close>
  values by rounding.
\<close>

section \<open>The machine\<close>

datatype cafe_room_event =
    EvJoin cafe_env cafe_identity "ustr option" ustr
  | EvLeave uuid uuid
  | EvMove uuid uuid rat rat direction bool nat
  | EvFlush
  | EvEmote uuid uuid ustr
  | EvChat uuid uuid ustr
  | EvInteract uuid uuid ustr
  | EvNextRound nat
  | EvExpireRush nat
  | EvReward "uuid list" nat
  | EvEquipCosmetic owner_scope "ustr option"
  | EvEquipAvatar owner_scope ustr

fun room_apply :: "(ustr \<Rightarrow> ustr) \<Rightarrow> cafe_env \<Rightarrow> cafe_room_event \<Rightarrow> cafe_room \<Rightarrow> cafe_room" where
  "room_apply lower env (EvJoin env0 s cosmetic avatar) room =
     snd (join_room env (new_player_with_avatar env0 s cosmetic avatar) room)"
| "room_apply lower env (EvLeave pid conn) room = leave_room env pid conn room"
| "room_apply lower env (EvMove pid conn x y d moving seq) room =
     update_player_for_connection env pid conn
       \<lparr>move_x = f32_round x, move_y = f32_round y, move_direction = d, move_moving = moving,
        move_sequence = seq\<rparr> room"
| "room_apply lower env EvFlush room = snd (flush_dirty_movement room)"
| "room_apply lower env (EvEmote pid conn emote) room = emote_for_connection pid conn emote room"
| "room_apply lower env (EvChat pid conn text) room = snd (chat_for_connection lower env pid conn text room)"
| "room_apply lower env (EvInteract pid conn target) room =
     snd (interact_for_connection env pid conn target room)"
| "room_apply lower env (EvNextRound n) room = snd (snd (start_next_round env n room))"
| "room_apply lower env (EvExpireRush n) room = snd (expire_cafe_rush env n room)"
| "room_apply lower env (EvReward ids stars) room = reward_players ids stars room"
| "room_apply lower env (EvEquipCosmetic owner c) room = equip_cosmetic_room owner c room"
| "room_apply lower env (EvEquipAvatar owner a) room = equip_avatar_room owner a room"

definition room_step ::
  "(ustr \<Rightarrow> ustr) \<Rightarrow> cafe_room \<Rightarrow> cafe_env \<times> cafe_room_event \<Rightarrow> cafe_room" where
  "room_step lower room e = room_apply lower (fst e) (snd e) room"

definition room_run ::
  "(ustr \<Rightarrow> ustr) \<Rightarrow> cafe_room \<Rightarrow> (cafe_env \<times> cafe_room_event) list \<Rightarrow> cafe_room" where
  "room_run lower room es = foldl (room_step lower) room es"

section \<open>The invariant\<close>

definition players_ok :: "(uuid, cafe_player) hash_map \<Rightarrow> bool" where
  "players_ok ps \<longleftrightarrow> length ps \<le> room_capacity \<and>
     (\<forall>k p. hm_get ps k = Some p \<longrightarrow> player_id p = k \<and> legal_position (player_x p, player_y p))"

definition room_inv :: "cafe_room \<Rightarrow> bool" where
  "room_inv room \<longleftrightarrow> players_ok (players room) \<and> rules_ok (activity room) (hands_of room) \<and>
     length (chat_history room) \<le> chat_history_limit"

lemma players_ok_adjust:
  assumes "players_ok ps"
    and "\<And>p. hm_get ps k = Some p \<Longrightarrow> player_id (f p) = player_id p"
    and "\<And>p. hm_get ps k = Some p \<Longrightarrow> legal_position (player_x p, player_y p) \<Longrightarrow>
      legal_position (player_x (f p), player_y (f p))"
  shows "players_ok (hm_adjust k f ps)"
  using assms by (auto simp: players_ok_def split: if_splits)

lemma players_ok_map:
  assumes "players_ok ps" and "\<And>p. player_id (f p) = player_id p"
    and "\<And>p. player_x (f p) = player_x p" and "\<And>p. player_y (f p) = player_y p"
  shows "players_ok (hm_map_values f ps)"
  using assms by (auto simp: players_ok_def)

lemma players_ok_remove: "players_ok ps \<Longrightarrow> players_ok (hm_remove k ps)"
  using length_hm_remove_le [of k ps] by (auto simp: players_ok_def)

lemma hm_get_hands: "hm_get (hm_map_values hand_of ps) k = map_option hand_of (hm_get ps k)"
  by simp

lemma hm_adjust_id: "(\<And>v. hm_get m k = Some v \<Longrightarrow> f v = v) \<Longrightarrow> hm_adjust k f m = m"
  by (auto simp: hm_adjust_def hm_insert_same split: option.split)

lemma hands_adjust_same:
  "(\<And>p. hand_of (f p) = hand_of p) \<Longrightarrow>
    hm_map_values hand_of (hm_adjust k f ps) = hm_map_values hand_of ps"
  by (auto simp: hm_adjust_def map_values_insert hm_insert_same split: option.split)

lemma hands_map_same:
  "(\<And>p. hand_of (f p) = hand_of p) \<Longrightarrow> hm_map_values hand_of (hm_map_values f ps) = hm_map_values hand_of ps"
  by (simp add: hm_map_values_def comp_def case_prod_beta)

lemma hands_map_empty:
  "hm_map_values hand_of (hm_map_values empty_hands ps) = hm_map_values (\<lambda>_. empty_hand) (hm_map_values hand_of ps)"
  by (simp add: hm_map_values_def comp_def case_prod_beta hand_of_def empty_hands_def empty_hand_def)

lemma room_invI:
  assumes "players_ok (players room)" and "rules_ok (activity room) (hm_map_values hand_of (players room))"
    and "length (chat_history room) \<le> chat_history_limit"
  shows "room_inv room"
  using assms by (simp add: room_inv_def hands_of_def)

lemma room_invD:
  assumes "room_inv room"
  shows "players_ok (players room)" and "rules_ok (activity room) (hm_map_values hand_of (players room))"
    and "length (chat_history room) \<le> chat_history_limit"
  using assms by (simp_all add: room_inv_def hands_of_def)

text \<open>A room whose players, activity and history are those of a good room is good.\<close>

lemma room_inv_same:
  "room_inv room \<Longrightarrow> players room' = players room \<Longrightarrow> activity room' = activity room \<Longrightarrow>
    length (chat_history room') \<le> chat_history_limit \<Longrightarrow> room_inv room'"
  by (simp add: room_inv_def hands_of_def)

section \<open>Joining, leaving, moving, talking\<close>

lemma spawn_legal: "legal_position player_spawn"
proof -
  have r: "f32_round (of_nat n) = Fin (of_nat n)" if "n < 2 ^ 24" for n using that by (rule f32_round_nat)
  have "f32_round 650 = Fin 650" "f32_round 630 = Fin 630" "f32_round 714 = Fin 714" "f32_round 694 = Fin 694"
    "f32_round 854 = Fin 854" "f32_round 302 = Fin 302" "f32_round 310 = Fin 310" "f32_round 444 = Fin 444"
    "f32_round 296 = Fin 296" "f32_round 640 = Fin 640" "f32_round 812 = Fin 812" "f32_round 621 = Fin 621"
    using r [of 650] r [of 630] r [of 714] r [of 694] r [of 854] r [of 302] r [of 310] r [of 444]
      r [of 296] r [of 640] r [of 812] r [of 621] by simp_all
  then show ?thesis
    by (simp add: legal_position_def player_spawn_def cafe_map_collides_def cafe_map_colliders_def
        contains_player_def new_collider_def player_collision_radius_def f32_sub_def Let_def)
qed

lemma join_room_inv:
  assumes inv: "room_inv room" and pos: "legal_position (player_x player, player_y player)"
    and hand: "hand_of player = empty_hand"
  shows "room_inv (snd (join_room env player room))"
proof (cases "hm_get (players room) (player_id player)")
  case None
  show ?thesis
  proof (cases "room_capacity \<le> length (players room)")
    case True
    with None inv show ?thesis by (simp add: join_room_def)
  next
    case False
    have "players_ok (hm_insert (player_id player) player (players room))"
      using room_invD(1) [OF inv] False pos None
      by (auto simp: players_ok_def length_hm_insert_new split: if_splits)
    moreover have "rules_ok (activity room)
        (hm_map_values hand_of (hm_insert (player_id player) player (players room)))"
      using rules_ok_join [OF room_invD(2) [OF inv], of "player_id player"] None
      by (simp add: map_values_insert hand)
    ultimately show ?thesis
      using None False length_push_chat by (intro room_invI) (auto simp: join_room_def Let_def)
  qed
next
  case (Some e)
  have "hand_of (keep_presence e player) = hand_of e" by (simp add: keep_presence_def hand_of_def)
  then have "hm_map_values hand_of (hm_insert (player_id player) (keep_presence e player) (players room))
      = hm_map_values hand_of (players room)"
    using Some by (simp add: map_values_insert hm_insert_same)
  moreover have "players_ok (hm_insert (player_id player) (keep_presence e player) (players room))"
    using room_invD(1) [OF inv] Some
    by (auto simp: players_ok_def length_hm_insert_old keep_presence_def split: if_splits)
  ultimately show ?thesis
    using Some room_invD(2,3) [OF inv] by (intro room_invI) (auto simp: join_room_def Let_def)
qed

lemma leave_room_inv:
  assumes inv: "room_inv room"
  shows "room_inv (leave_room env pid conn room)"
proof (cases "hm_get (players room) pid")
  case None
  with inv show ?thesis by (simp add: leave_room_def)
next
  case (Some p)
  show ?thesis
  proof (cases "connection_id p = conn")
    case False
    with Some inv show ?thesis by (simp add: leave_room_def)
  next
    case True
    let ?a = "drop_order pid (carried_order_id p) (fold restore_ingredient (carried_rush_ingredient_ids p) (activity room))"
    have "rules_ok ?a (hm_map_values hand_of (hm_remove pid (players room)))"
      using rules_ok_leave [OF room_invD(2) [OF inv], of pid "hand_of p"] Some
      by (simp add: map_values_remove) (simp add: hand_of_def)
    moreover have "players_ok (hm_remove pid (players room))"
      by (rule players_ok_remove [OF room_invD(1) [OF inv]])
    ultimately show ?thesis
      using Some True length_push_left
      by (intro room_invI) (auto simp: leave_room_def Let_def drop_order_def)
  qed
qed

lemma move_player_hand: "hand_of (move_player env m p) = hand_of p \<and> player_id (move_player env m p) = player_id p"
  by (simp add: move_player_def hand_of_def Let_def case_prod_beta)

lemma move_player_legal:
  assumes "legal_position (player_x p, player_y p)"
    and "f32_value (move_x m)" "is_finite (move_x m)" "f32_value (move_y m)" "is_finite (move_y m)"
  shows "legal_position (player_x (move_player env m p), player_y (move_player env m p))"
proof -
  let ?e = "duration_since (env_now env) (last_move_at p)"
  obtain x y where n: "next_position ?e (player_x p, player_y p) (move_x m, move_y m) = (Fin x, Fin y)"
    "10 \<le> x" "x \<le> 1270" "10 \<le> y" "y \<le> 790"
    using next_position_on_map [OF assms(1) assms(2-5), of ?e] by blast
  show ?thesis
  proof (cases "cafe_map_collides (Fin x) (Fin y)")
    case True
    then show ?thesis using assms(1) by (simp add: move_player_def n Let_def)
  next
    case False
    then show ?thesis using n by (simp add: move_player_def Let_def legal_position_def)
  qed
qed

lemma move_room_inv:
  assumes inv: "room_inv room" and "f32_value (move_x m)" "f32_value (move_y m)"
  shows "room_inv (update_player_for_connection env pid conn m room)"
proof -
  have "room_inv ((update_player pid (move_player env m) room)\<lparr>movement_dirty := True\<rparr>)"
    if "is_finite (move_x m)" "is_finite (move_y m)"
  proof (intro room_invI)
    show "players_ok (players ((update_player pid (move_player env m) room)\<lparr>movement_dirty := True\<rparr>))"
      using room_invD(1) [OF inv] assms(2,3) that
      by simp (intro players_ok_adjust, simp_all add: move_player_hand move_player_legal)
  qed (use room_invD(2,3) [OF inv] move_player_hand in \<open>simp_all add: hands_adjust_same\<close>)
  with inv show ?thesis
    by (simp add: update_player_for_connection_def split: option.split)
qed

lemma talk_room_inv:
  assumes inv: "room_inv room"
  shows "room_inv (snd (flush_dirty_movement room))"
    and "room_inv (emote_for_connection pid conn emote room)"
    and "room_inv (snd (chat_for_connection lower env pid conn text room))"
    and "room_inv (reward_players ids stars room)"
proof -
  note hist = room_invD(3) [OF inv]
  show "room_inv (snd (flush_dirty_movement room))"
    using inv hist by (auto simp: flush_dirty_movement_def intro: room_inv_same)
  show "room_inv (emote_for_connection pid conn emote room)"
    using inv hist by (auto simp: emote_for_connection_def intro: room_inv_same split: option.split)
  show "room_inv (snd (chat_for_connection lower env pid conn text room))"
    using inv length_push_chat
    by (auto simp: chat_for_connection_def intro!: room_inv_same [OF inv] split: option.split sum.split)
  show "room_inv (reward_players ids stars room)"
    unfolding reward_players_def using inv
  proof (induction ids arbitrary: room)
    case (Cons i ids)
    have "room_inv (send (MsgReward i stars) room)"
      using Cons.prems room_invD(3) [OF Cons.prems] by (auto intro: room_inv_same)
    then show ?case using Cons.IH by simp
  qed simp
qed

section \<open>Playing\<close>

lemma hm_get_hand: "hm_get (players room) pid = Some p \<Longrightarrow>
    hm_get (hm_map_values hand_of (players room)) pid = Some (hand_of p)"
  by simp

text \<open>A step of play: a change of the player \<open>pid\<close> that keeps the body, and an activity to go with it.\<close>

lemma play_room_inv:
  assumes inv: "room_inv room"
    and players: "players room' = hm_adjust pid f (players room)"
    and body: "\<And>p. player_id (f p) = player_id p" "\<And>p. player_x (f p) = player_x p"
      "\<And>p. player_y (f p) = player_y p"
    and hand: "\<And>p. hm_get (players room) pid = Some p \<Longrightarrow> hand_of (f p) = g (hand_of p)"
    and rules: "rules_ok (activity room') (hm_adjust pid g (hm_map_values hand_of (players room)))"
    and hist: "chat_history room' = chat_history room"
  shows "room_inv room'"
proof (rule room_invI)
  show "players_ok (players room')"
    unfolding players using room_invD(1) [OF inv] by (rule players_ok_adjust) (simp_all add: body)
  show "rules_ok (activity room') (hm_map_values hand_of (players room'))"
    unfolding players using rules map_values_adjust [of "players room" pid hand_of f g] hand by simp
  show "length (chat_history room') \<le> chat_history_limit"
    unfolding hist by (rule room_invD(3) [OF inv])
qed

lemma dialogue_inv: "room_inv room \<Longrightarrow> room_inv (dialogue k e room)"
  using room_invD(3) by (auto intro: room_inv_same)

lemma pick_up_inv:
  assumes inv: "room_inv room" and act: "act_phase (activity room) = Active"
    and find: "find_order_status Available (activity room) = Some ord"
    and p: "hm_get (players room) pid = Some p" and none: "carried_order_id p = None"
  shows "room_inv (pick_up_order key pid ord room)"
proof (rule play_room_inv [OF inv, where pid = pid and f = "\<lambda>p. p\<lparr>carried_order_id := Some (order_id ord)\<rparr>"
      and g = "\<lambda>h. h\<lparr>hand_order := Some (order_id ord)\<rparr>"])
  show "rules_ok (activity (pick_up_order key pid ord room))
      (hm_adjust pid (\<lambda>h. h\<lparr>hand_order := Some (order_id ord)\<rparr>) (hm_map_values hand_of (players room)))"
    using rules_ok_pick_up [OF room_invD(2) [OF inv] act find hm_get_hand [OF p]] none
    by (simp add: pick_up_order_def hand_of_def)
qed (simp_all add: pick_up_order_def hand_of_def)

lemma prepare_inv:
  assumes inv: "room_inv room" and act: "act_phase (activity room) = Active"
    and rush: "act_id (activity room) = CafeRush"
    and find: "find_order_status WaitingIngredient (activity room) = Some ord"
    and p: "hm_get (players room) pid = Some p" and some: "carried_rush_ingredient_ids p \<noteq> []"
  shows "room_inv (prepare_order pid room)"
proof (rule play_room_inv [OF inv, where pid = pid
      and f = "\<lambda>p. p\<lparr>carried_tea := carried_tea p - 1,
        carried_rush_ingredient_ids := butlast (carried_rush_ingredient_ids p)\<rparr>"
      and g = "\<lambda>h. h\<lparr>hand_tea := hand_tea h - 1, hand_ids := butlast (hand_ids h)\<rparr>"])
  show "rules_ok (activity (prepare_order pid room))
      (hm_adjust pid (\<lambda>h. h\<lparr>hand_tea := hand_tea h - 1, hand_ids := butlast (hand_ids h)\<rparr>)
        (hm_map_values hand_of (players room)))"
    using rules_ok_prepare [OF room_invD(2) [OF inv] act rush find hm_get_hand [OF p]] some
    by (simp add: prepare_order_def hand_of_def)
qed (simp_all add: prepare_order_def hand_of_def)

lemma collect_inv:
  assumes inv: "room_inv room" and act: "act_phase (activity room) = Active"
    and kind: "act_id (activity room) \<noteq> TableService"
    and find: "find (\<lambda>l. leaf_id l = target \<and> leaf_available l) (tea_leaves (activity room)) = Some l"
    and p: "hm_get (players room) pid = Some p"
  shows "room_inv (collect_leaf pid pos l room)"
proof (cases "in_reach interaction_radius pos (leaf_x l, leaf_y l)")
  case False
  then show ?thesis using inv by (simp add: collect_leaf_def)
next
  case True
  let ?new = "if act_id (activity room) = CafeRush then [leaf_id l] else []"
  show ?thesis
  proof (rule play_room_inv [OF inv, where pid = pid
        and f = "\<lambda>p. p\<lparr>carried_tea := sat_add 8 (carried_tea p) 1,
          carried_rush_ingredient_ids := carried_rush_ingredient_ids p @ ?new\<rparr>"
        and g = "\<lambda>h. h\<lparr>hand_tea := sat_add 8 (hand_tea h) 1, hand_ids := hand_ids h @ ?new\<rparr>"])
    show "rules_ok (activity (collect_leaf pid pos l room))
        (hm_adjust pid (\<lambda>h. h\<lparr>hand_tea := sat_add 8 (hand_tea h) 1, hand_ids := hand_ids h @ ?new\<rparr>)
          (hm_map_values hand_of (players room)))"
      using rules_ok_collect [OF room_invD(2) [OF inv] act kind find hm_get_hand [OF p]] True
      by (simp add: collect_leaf_def Let_def)
  qed (simp_all add: collect_leaf_def Let_def True hand_of_def)
qed

lemma complete_round_simps [simp]:
  "table_orders (snd (complete_round env a)) = table_orders a"
  "tea_leaves (snd (complete_round env a)) = tea_leaves a"
  "act_id (snd (complete_round env a)) = act_id a" "act_target (snd (complete_round env a)) = act_target a"
  "round_number (snd (complete_round env a)) = round_number a"
  "delivered (snd (complete_round env a)) = delivered a"
  "completed (snd (complete_round env a)) = (completed a \<or> act_target a \<le> delivered a)"
  "act_phase (snd (complete_round env a)) =
     (if \<not> completed a \<and> act_target a \<le> delivered a then Intermission else act_phase a)"
  "fst (complete_round env a) = (\<not> completed a \<and> act_target a \<le> delivered a)"
  by (auto simp: complete_round_def Let_def)

lemma count_combo_simps [simp]:
  "table_orders (count_combo env a) = table_orders a" "tea_leaves (count_combo env a) = tea_leaves a"
  "act_id (count_combo env a) = act_id a" "act_target (count_combo env a) = act_target a"
  "round_number (count_combo env a) = round_number a" "delivered (count_combo env a) = delivered a"
  "completed (count_combo env a) = completed a" "act_phase (count_combo env a) = act_phase a"
  by (simp_all add: count_combo_def Let_def)

lemma active_not_completed: "room_inv room \<Longrightarrow> act_phase (activity room) = Active \<Longrightarrow> \<not> completed (activity room)"
  using room_invD(2) by (auto simp: rules_ok_def activity_ok_def)

lemma deliver_inv:
  assumes inv: "room_inv room" and act: "act_phase (activity room) = Active"
    and tea: "act_id (activity room) = TeaDelivery" and p: "hm_get (players room) pid = Some p"
  shows "room_inv (snd (deliver_tea env pid room))"
proof (cases "carried_tea p = 0")
  case True
  have "hm_adjust pid (\<lambda>p. p\<lparr>carried_tea := 0\<rparr>) (players room) = players room"
    using p True by (intro hm_adjust_id) auto
  then show ?thesis
    using room_invD(3) [OF inv] p True
    by (auto simp: deliver_tea_def Let_def intro!: room_inv_same [OF inv])
next
  case False
  note new = active_not_completed [OF inv act]
  show ?thesis
  proof (rule play_room_inv [OF inv, where pid = pid and f = "\<lambda>p. p\<lparr>carried_tea := 0\<rparr>"
        and g = "\<lambda>h. h\<lparr>hand_tea := 0\<rparr>"])
    show "rules_ok (activity (snd (deliver_tea env pid room)))
        (hm_adjust pid (\<lambda>h. h\<lparr>hand_tea := 0\<rparr>) (hm_map_values hand_of (players room)))"
      using p False new act
      by (intro rules_ok_deliver [OF room_invD(2) [OF inv] act tea hm_get_hand [OF p]])
        (auto simp: deliver_tea_def Let_def case_prod_beta hand_of_def)
  qed (use p False in \<open>simp_all add: deliver_tea_def Let_def case_prod_beta hand_of_def\<close>)
qed

lemma serve_room:
  fixes env :: cafe_env
  assumes "find (\<lambda>ord. order_id ord = target) (table_orders (activity room)) = Some ord"
    and "order_status ord = Claimed" "order_claimed_by ord = Some pid"
    and "\<not> beyond interaction_radius pos (order_x ord, order_y ord)"
    and "hm_get (players room) pid = Some p" "carried_order_id p = Some (order_id ord)"
    and "completed (activity room) = False" "delivered (activity room) < act_target (activity room)"
      "act_target (activity room) \<le> 6"
  defines "room' \<equiv> snd (serve_claimed_order env pid pos target room)"
  shows "players room' = hm_adjust pid (\<lambda>p. p\<lparr>carried_order_id := None\<rparr>) (players room)"
    and "chat_history room' = chat_history room"
    and "delivered (activity room') = Suc (delivered (activity room))"
    and "table_orders (activity room') = update_first (\<lambda>ord. order_id ord = target)
      (\<lambda>ord. ord\<lparr>order_status := Served, order_claimed_by := None\<rparr>) (table_orders (activity room))"
    and "act_id (activity room') = act_id (activity room)"
    and "tea_leaves (activity room') = tea_leaves (activity room)"
    and "act_target (activity room') = act_target (activity room)"
    and "round_number (activity room') = round_number (activity room)"
    and "completed (activity room') = (Suc (delivered (activity room)) = act_target (activity room))"
    and "act_phase (activity room') = (if Suc (delivered (activity room)) = act_target (activity room)
      then Intermission else act_phase (activity room))"
proof -
  have d: "min (sat_add 8 (delivered (activity room)) 1) (act_target (activity room))
      = Suc (delivered (activity room))"
    using assms(8,9) by (simp add: sat_add_def)
  note defs = room'_def serve_claimed_order_def Let_def case_prod_beta
  show "players room' = hm_adjust pid (\<lambda>p. p\<lparr>carried_order_id := None\<rparr>) (players room)"
    and "chat_history room' = chat_history room"
    and "delivered (activity room') = Suc (delivered (activity room))"
    and "table_orders (activity room') = update_first (\<lambda>ord. order_id ord = target)
      (\<lambda>ord. ord\<lparr>order_status := Served, order_claimed_by := None\<rparr>) (table_orders (activity room))"
    and "act_id (activity room') = act_id (activity room)"
    and "tea_leaves (activity room') = tea_leaves (activity room)"
    and "act_target (activity room') = act_target (activity room)"
    and "round_number (activity room') = round_number (activity room)"
    and "completed (activity room') = (Suc (delivered (activity room)) = act_target (activity room))"
    and "act_phase (activity room') = (if Suc (delivered (activity room)) = act_target (activity room)
      then Intermission else act_phase (activity room))"
    using assms(1-8) d by (auto simp: defs)
qed

lemma serve_rejected:
  assumes "room_inv room" "act_phase (activity room) = Active"
    and "snd (serve_claimed_order env pid pos target room) \<noteq> room"
  obtains ord p where "find (\<lambda>ord. order_id ord = target) (table_orders (activity room)) = Some ord"
    "order_status ord = Claimed" "order_claimed_by ord = Some pid"
    "\<not> beyond interaction_radius pos (order_x ord, order_y ord)"
    "hm_get (players room) pid = Some p" "carried_order_id p = Some (order_id ord)"
  using assms(3) that by (auto simp: serve_claimed_order_def split: option.splits if_splits)

lemma serve_inv:
  assumes inv: "room_inv room" and act: "act_phase (activity room) = Active"
  shows "room_inv (snd (serve_claimed_order env pid pos target room))"
proof (cases "snd (serve_claimed_order env pid pos target room) = room")
  case True
  with inv show ?thesis by simp
next
  case False
  then obtain ord p where hit: "find (\<lambda>ord. order_id ord = target) (table_orders (activity room)) = Some ord"
    "order_status ord = Claimed" "order_claimed_by ord = Some pid"
    "\<not> beyond interaction_radius pos (order_x ord, order_y ord)"
    "hm_get (players room) pid = Some p" "carried_order_id p = Some (order_id ord)"
    by (rule serve_rejected [OF inv act])
  have aok: "activity_ok (activity room)" using room_invD(2) [OF inv] by (simp add: rules_ok_def)
  have new: "completed (activity room) = False" using active_not_completed [OF inv act] by simp
  have less: "delivered (activity room) < act_target (activity room)" "act_target (activity room) \<le> 6"
    using aok new by (auto simp: activity_ok_def)
  note eff = serve_room [OF hit new less]
  obtain us vs where os: "table_orders (activity room) = us @ ord # vs"
    and upd: "update_first (\<lambda>ord. order_id ord = target)
      (\<lambda>ord. ord\<lparr>order_status := Served, order_claimed_by := None\<rparr>) (table_orders (activity room))
      = us @ ord\<lparr>order_status := Served, order_claimed_by := None\<rparr> # vs"
    using find_Some_split [OF hit(1), of "\<lambda>ord. ord\<lparr>order_status := Served, order_claimed_by := None\<rparr>"] by auto
  show ?thesis
  proof (rule play_room_inv [OF inv, where pid = pid and f = "\<lambda>p. p\<lparr>carried_order_id := None\<rparr>"
        and g = "\<lambda>h. h\<lparr>hand_order := None\<rparr>"])
    show "rules_ok (activity (snd (serve_claimed_order env pid pos target room)))
        (hm_adjust pid (\<lambda>h. h\<lparr>hand_order := None\<rparr>) (hm_map_values hand_of (players room)))"
      by (rule rules_ok_serve [OF room_invD(2) [OF inv] act os hit(2,3) hm_get_hand [OF hit(5)]])
        (simp_all add: eff upd act, simp_all add: hand_of_def hit(6))
  qed (simp_all add: eff hand_of_def)
qed

lemma carries_none: "hm_get (players room) pid = Some p \<Longrightarrow> \<not> carries_order pid room \<Longrightarrow> carried_order_id p = None"
  by (simp add: carries_order_def)

lemma table_service_inv:
  assumes inv: "room_inv room" and act: "act_phase (activity room) = Active"
    and p: "hm_get (players room) pid = Some p"
  shows "room_inv (snd (interact_table_service env pid pos target room))"
  using inv act p
  by (auto simp: interact_table_service_def intro!: serve_inv dialogue_inv pick_up_inv
      dest: carries_none split: option.split)

lemma cafe_rush_inv:
  assumes inv: "room_inv room" and act: "act_phase (activity room) = Active"
    and rush: "act_id (activity room) = CafeRush" and p: "hm_get (players room) pid = Some p"
  shows "room_inv (snd (interact_cafe_rush env pid pos target room))"
  using inv act p rush
  by (auto simp: interact_cafe_rush_def Let_def intro!: serve_inv dialogue_inv pick_up_inv prepare_inv
      dest: carries_none split: option.split)

lemma interact_room_inv:
  assumes inv: "room_inv room"
  shows "room_inv (snd (interact_for_connection env pid conn target room))"
proof -
  have act: "act_phase (activity room) = Active" if "act_phase (activity room) \<noteq> Intermission"
    using that by (cases "act_phase (activity room)") auto
  show ?thesis
    using inv act
    by (auto simp: interact_for_connection_def Let_def intro!: dialogue_inv table_service_inv cafe_rush_inv
        collect_inv deliver_inv split: option.split)
      (metis cafe_activity_id.exhaust)+
qed

section \<open>Rounds and equipment\<close>

lemma empty_hands_values: "\<forall>h\<in>set (hm_values (hm_map_values hand_of (hm_map_values empty_hands ps))). h = empty_hand"
  unfolding hands_map_empty by (rule all_empty_values)

lemma players_ok_empty: "players_ok ps \<Longrightarrow> players_ok (hm_map_values empty_hands ps)"
  by (rule players_ok_map) (simp_all add: empty_hands_def)

lemma hm_ok_hands: "room_inv room \<Longrightarrow> hm_ok (hm_map_values hand_of (players room))"
  using room_invD(2) by (auto simp: rules_ok_def)

lemma start_round_inv:
  assumes inv: "room_inv room"
  shows "room_inv (snd (snd (start_next_round env n room)))"
proof (cases "round_number (activity room) \<noteq> n \<or> act_phase (activity room) \<noteq> Intermission")
  case True
  with inv show ?thesis by (simp add: start_next_round_def)
next
  case False
  have "hm_ok (hm_map_values hand_of (hm_map_values empty_hands (players room)))"
    using hm_ok_hands [OF inv] by simp
  then have "rules_ok (for_round (env_utc env) (sat_add 32 n 1) (length (players room)))
      (hm_map_values hand_of (hm_map_values empty_hands (players room)))"
    by (rule rules_ok_fresh [OF _ empty_hands_values])
  then show ?thesis
    using False room_invD(1,3) [OF inv] players_ok_empty
    by (intro room_invI) (simp_all add: start_next_round_def Let_def)
qed

lemma expire_room_inv:
  assumes inv: "room_inv room"
  shows "room_inv (snd (expire_cafe_rush env n room))"
proof (cases "fst (expire_cafe_rush env n room)")
  case False
  with inv show ?thesis by (auto simp: expire_cafe_rush_def Let_def split: if_splits)
next
  case True
  have aok: "activity_ok (activity room)" using room_invD(2) [OF inv] by (simp add: rules_ok_def)
  show ?thesis
  proof (rule room_invI)
    show "players_ok (players (snd (expire_cafe_rush env n room)))"
      using True players_ok_empty [OF room_invD(1) [OF inv]]
      by (auto simp: expire_cafe_rush_def Let_def split: if_splits)
    show "rules_ok (activity (snd (expire_cafe_rush env n room)))
        (hm_map_values hand_of (players (snd (expire_cafe_rush env n room))))"
      using True rules_ok_expire [OF aok hm_ok_hands [OF inv]]
      by (auto simp: expire_cafe_rush_def Let_def hands_map_empty split: if_splits)
    show "length (chat_history (snd (expire_cafe_rush env n room))) \<le> chat_history_limit"
      using True room_invD(3) [OF inv] by (auto simp: expire_cafe_rush_def Let_def split: if_splits)
  qed
qed

lemma equip_room_inv:
  assumes inv: "room_inv room"
  shows "room_inv (equip_cosmetic_room owner c room)" and "room_inv (equip_avatar_room owner a room)"
proof -
  have same: "room_inv (room\<lparr>players := hm_map_values f (players room)\<rparr>)"
    if "\<And>p. player_id (f p) = player_id p" "\<And>p. player_x (f p) = player_x p"
      "\<And>p. player_y (f p) = player_y p" "\<And>p. hand_of (f p) = hand_of p" for f
    using room_invD [OF inv] that by (intro room_invI) (simp_all add: hands_map_same players_ok_map)
  have snap: "room_inv (broadcast_room_snapshot room')" if "room_inv room'" for room'
    using that room_invD(3) [OF that] by (auto intro: room_inv_same)
  show "room_inv (equip_cosmetic_room owner c room)"
    unfolding equip_cosmetic_room_def Let_def by (auto intro!: snap same simp: hand_of_def)
  show "room_inv (equip_avatar_room owner a room)"
    unfolding equip_avatar_room_def Let_def by (auto intro!: snap same simp: hand_of_def)
qed

lemma room_step_inv: "room_inv room \<Longrightarrow> room_inv (room_step lower room e)"
proof (cases e)
  case (Pair env ev)
  assume inv: "room_inv room"
  have "room_inv (room_apply lower env ev room)"
    using inv
    by (cases ev)
      (simp_all add: join_room_inv spawn_legal new_player_with_avatar_def hand_of_def empty_hand_def
        leave_room_inv move_room_inv f32_value_round talk_room_inv interact_room_inv start_round_inv
        expire_room_inv equip_room_inv)
  then show ?thesis by (simp add: room_step_def Pair)
qed

interpretation room: invariant_machine "room_step lower" room_inv
  by unfold_locales (rule room_step_inv)

lemma new_room_inv: "new_room env private taken = Some room \<Longrightarrow> room_inv room"
  using rules_ok_fresh [of "[]" "env_utc env" 1 0]
  by (intro room_invI) (auto simp: new_room_def players_ok_def hm_values_def hm_map_values_def split: option.splits)

lemma room_run_inv: "new_room env private taken = Some room \<Longrightarrow> room_inv (room_run lower room es)"
  unfolding room_run_def by (rule room.run_inv) (rule new_room_inv)

lemma room_run_from: "room_inv room \<Longrightarrow> room_inv (room_run lower room es)"
  unfolding room_run_def by (rule room.run_inv)

lemma new_room_round_inv:
  "new_room env private taken = Some room \<Longrightarrow> room_inv (room\<lparr>activity := for_round now r n\<rparr>)"
  using rules_ok_fresh [of "[]" now r n]
  by (intro room_invI) (auto simp: new_room_def players_ok_def hm_values_def hm_map_values_def split: option.splits)

end
