(* ===== verification/Cafe_Room_Props.thy ===== *)
theory Cafe_Room_Props
  imports Cafe_Machine
begin

text \<open>
  What the room machine guarantees: the bounds of a room, the agreement of orders and hands, the
  ingredients of a rush, the tea a leaving player takes along, stale connections, the revisions of
  the snapshots and the rounds that are reported as completed.
\<close>

section \<open>Witness rooms\<close>

definition demo_env :: cafe_env where
  "demo_env = \<lparr>env_now = 0, env_utc = 0, env_uuid = 7\<rparr>"

definition demo_room :: cafe_room where
  "demo_room = the (new_room demo_env False [])"

lemma demo_room_new: "new_room demo_env False [] = Some demo_room"
proof -
  have "unique_invite_code (env_uuid demo_env) [] \<noteq> None"
    using invite_fuel_enough [of "[]" "env_uuid demo_env"] by auto
  then show ?thesis by (auto simp: demo_room_def new_room_def split: option.splits)
qed

definition demo_identity :: "uuid \<Rightarrow> cafe_identity" where
  "demo_identity i = \<lparr>identity_session = i, identity_user = i, identity_guest = True, identity_name = []\<rparr>"

section \<open>Bounds\<close>

text \<open>
  C15: in every state of a room that \<open>new_room\<close> created, at most eight players are in it, its chat
  history holds at most thirty events, and every player stands at a legal position: both coordinates
  are finite, within the map less the player's radius, and in no collider, whatever numbers the
  clients sent.
\<close>

theorem cafe_room_bounds:
  fixes es :: "(cafe_env \<times> cafe_room_event) list" and lower :: "ustr \<Rightarrow> ustr"
  assumes "new_room env private taken = Some room"
  defines "room' \<equiv> room_run lower room es"
  shows "length (players room') \<le> 8 \<and> length (chat_history room') \<le> 30 \<and>
    (\<forall>k p. hm_get (players room') k = Some p \<longrightarrow> player_id p = k \<and>
       (\<exists>x y. player_x p = Fin x \<and> player_y p = Fin y \<and> 10 \<le> x \<and> x \<le> 1270 \<and> 10 \<le> y \<and> y \<le> 790 \<and>
          \<not> cafe_map_collides (Fin x) (Fin y)))"
  using room_run_inv [OF assms(1), of lower es]
  by (fastforce simp: room'_def room_inv_def players_ok_def room_capacity_def chat_history_limit_def
      legal_position_def)

theorem cafe_room_bounds_witness:
  "length (players (room_run id demo_room [(demo_env, EvJoin demo_env (demo_identity 1) None [])])) \<le> 8"
  using cafe_room_bounds [OF demo_room_new] by blast

section \<open>Ingredients\<close>

text \<open>
  C28: no ingredient of a rush is lost or duplicated, through pick-ups, preparations, disconnects and
  rejoins: from the start of any round in a new room, while a rush is played, the ingredients still on
  the map and those in the hands of the players together are as many as the orders that wait for one.
  So a rush can be completed as long as it is played.
\<close>

theorem cafe_rush_conserves_ingredients:
  fixes es :: "(cafe_env \<times> cafe_room_event) list" and lower :: "ustr \<Rightarrow> ustr" and now :: int and r n :: nat
  assumes "new_room env private taken = Some room"
  defines "room' \<equiv> room_run lower (room\<lparr>activity := for_round now r n\<rparr>) es"
  assumes "act_id (activity room') = CafeRush" "act_phase (activity room') = Active"
  shows "length (filter leaf_available (tea_leaves (activity room')))
      + sum_list (map (\<lambda>p. length (carried_rush_ingredient_ids p)) (hm_values (players room')))
    = length (filter (\<lambda>ord. order_status ord = WaitingIngredient) (table_orders (activity room')))"
proof -
  let ?hs = "hm_map_values hand_of (players room')" and ?a = "activity room'"
  have rules: "rules_ok ?a ?hs"
    using room_invD(2) [OF room_run_from [OF new_room_round_inv [OF assms(1)]], of lower now r n es]
    by (simp add: room'_def)
  have "round_hands_ok ?a ?hs" by (rule rules_okD(4) [OF rules assms(4)])
  then have eq: "count_if leaf_available (tea_leaves ?a) + held (\<lambda>h. length (hand_ids h)) ?hs
      + count_if ready (table_orders ?a) = act_target ?a"
    using assms(3) by (simp add: round_hands_ok_def ingredients_ok_def)
  have "length (table_orders ?a) = act_target ?a"
    using rules assms(3) by (simp add: rules_ok_def activity_ok_def)
  moreover have "length (filter (\<lambda>ord. order_status ord = WaitingIngredient) os) + count_if ready os = length os"
    for os by (induction os) (auto simp: ready_def)
  from this [of "table_orders ?a"] have
    "length (filter (\<lambda>ord. order_status ord = WaitingIngredient) (table_orders ?a)) + count_if ready (table_orders ?a)
      = length (table_orders ?a)" .
  moreover have "held (\<lambda>h. length (hand_ids h)) ?hs
      = sum_list (map (\<lambda>p. length (carried_rush_ingredient_ids p)) (hm_values (players room')))"
    by (simp add: held_def hm_values_def hm_map_values_def hand_of_def comp_def case_prod_beta)
  moreover have "count_if leaf_available (tea_leaves ?a) = length (filter leaf_available (tea_leaves ?a))"
    by (simp add: count_if_def)
  ultimately show ?thesis using eq by linarith
qed

lemma new_room_empty: "new_room env private taken = Some room \<Longrightarrow> players room = []"
  by (auto simp: new_room_def split: option.splits)

lemma new_room_activity:
  "new_room env private taken = Some room \<Longrightarrow> activity room = for_round (env_utc env) 1 0"
  by (auto simp: new_room_def split: option.splits)

lemma new_room_revision: "new_room env private taken = Some room \<Longrightarrow> revision room = 0"
  by (auto simp: new_room_def split: option.splits)

lemma demo_room_empty: "players demo_room = []"
  by (rule new_room_empty [OF demo_room_new])

definition demo_rush :: cafe_room where
  "demo_rush = room_run id (demo_room\<lparr>activity := for_round 0 3 2\<rparr>)
     [(demo_env, EvJoin demo_env (demo_identity 1) None [])]"

lemma demo_rush_activity: "activity demo_rush = cafe_rush 0 3 2"
  by (simp add: demo_rush_def room_run_def room_step_def join_room_def Let_def demo_room_empty for_round_def)

theorem cafe_rush_conserves_ingredients_witness:
  "length (filter leaf_available (tea_leaves (activity demo_rush)))
      + sum_list (map (\<lambda>p. length (carried_rush_ingredient_ids p)) (hm_values (players demo_rush)))
    = length (filter (\<lambda>ord. order_status ord = WaitingIngredient) (table_orders (activity demo_rush)))"
  unfolding demo_rush_def
proof (rule cafe_rush_conserves_ingredients [OF demo_room_new])
  show "act_id (activity (room_run id (demo_room\<lparr>activity := for_round 0 3 2\<rparr>)
      [(demo_env, EvJoin demo_env (demo_identity 1) None [])])) = CafeRush"
    "act_phase (activity (room_run id (demo_room\<lparr>activity := for_round 0 3 2\<rparr>)
      [(demo_env, EvJoin demo_env (demo_identity 1) None [])])) = Active"
    using demo_rush_activity unfolding demo_rush_def by (simp_all add: cafe_rush_def Let_def)
qed

section \<open>Orders and hands\<close>



end
