(* ===== verification/Cafe_Walk.thy ===== *)
theory Cafe_Walk
  imports Cafe_Room_Props
begin

text \<open>
  Walks along the lower edge of the map at whole coordinates, where the \<open>f32\<close> arithmetic is exact:
  a step of at most 127 units after half a second is taken as the client sent it. They give the
  reachable rooms the witnesses evaluate.
\<close>

section \<open>Exact arithmetic\<close>

lemma isqrt_unique: "r * r \<le> n \<Longrightarrow> n < (r + 1) * (r + 1) \<Longrightarrow> isqrt n = r"
proof -
  assume r: "r * r \<le> n" "n < (r + 1) * (r + 1)"
  have i: "isqrt n * isqrt n \<le> n" "n < (isqrt n + 1) * (isqrt n + 1)" using isqrt_correct [of n] by auto
  have "r * r < (isqrt n + 1) * (isqrt n + 1)" using r(1) i(2) by (rule le_less_trans)
  then have "r < isqrt n + 1" by (meson mult_le_mono not_le)
  moreover have "isqrt n * isqrt n < (r + 1) * (r + 1)" using i(1) r(2) by (rule le_less_trans)
  then have "isqrt n < r + 1" by (meson mult_le_mono not_le)
  ultimately show ?thesis by simp
qed

lemma isqrt_square: "isqrt (r * r) = r"
  by (rule isqrt_unique) simp_all

lemma f32_sqrt_square:
  assumes "n < 2 ^ 24"
  shows "f32_sqrt (Fin (of_nat n * of_nat n)) = Fin (of_nat n)"
proof -
  define k :: nat where "k = 2 ^ 150"
  have k4: "(4::rat) ^ 150 = of_nat k * of_nat k"
    unfolding k_def of_nat_power of_nat_numeral power_mult_distrib [symmetric] by simp
  have k2: "(2::rat) ^ 151 = 2 * of_nat k" unfolding k_def of_nat_power of_nat_numeral by simp
  have kpos: "0 < (of_nat k :: rat)" by (simp add: k_def)
  have q: "of_nat n * of_nat n * (4::rat) ^ 150 = of_nat ((n * k) * (n * k))"
    unfolding k4 by (simp add: algebra_simps)
  have fl: "nat \<lfloor>of_nat n * of_nat n * (4::rat) ^ 150\<rfloor> = (n * k) * (n * k)"
    unfolding q floor_of_nat nat_int ..
  have "sqrt_sticky (of_nat n * of_nat n) = of_nat (2 * (n * k)) / (2 * of_nat k)"
    unfolding sqrt_sticky_def Let_def unfolding fl isqrt_square k2 unfolding q by (simp only: simp_thms if_True add_0_right)
  also have "\<dots> = of_nat n" using kpos by simp
  finally have "sqrt_sticky (of_nat n * of_nat n) = of_nat n" .
  then show ?thesis using f32_round_nat [OF assms] by (simp add: mult_nonneg_nonneg not_less [symmetric])
qed

lemma f32_round_int: "\<bar>i\<bar> < 2 ^ 24 \<Longrightarrow> f32_round (of_int i) = Fin (of_int i)"
proof (cases "0 \<le> i")
  case True
  assume "\<bar>i\<bar> < 2 ^ 24"
  with True have "nat i < 2 ^ 24" by simp
  from f32_round_nat [OF this] True show ?thesis by simp
next
  case False
  assume i: "\<bar>i\<bar> < 2 ^ 24"
  with False have "nat (- i) < 2 ^ 24" by simp
  from f32_round_nat [OF this] False have "f32_round (- of_int i) = Fin (- of_int i)" by simp
  then show ?thesis unfolding f32_round_minus by (cases "f32_round (of_int i)") auto
qed

text \<open>The distance of two points that are a whole number apart.\<close>

lemma distance_whole:
  fixes a b c d :: int
  assumes sq: "(a - c) * (a - c) + (b - d) * (b - d) = int n * int n" and n: "n < 2 ^ 12"
  shows "distance_between (Fin (of_int a), Fin (of_int b)) (Fin (of_int c), Fin (of_int d)) = Fin (of_nat n)"
proof -
  define u v where "u = a - c" and "v = b - d"
  have "int n * int n < 2 ^ 12 * 2 ^ 12" using n by (intro mult_strict_mono) auto
  then have nn: "int n * int n < 2 ^ 24" by simp
  have uv: "u * u + v * v = int n * int n" using sq by (simp add: u_def v_def)
  have le: "\<bar>x\<bar> \<le> int n" if "x * x \<le> int n * int n" for x :: int
    using that by (metis abs_le_square_iff abs_of_nat power2_eq_square)
  have uu: "0 \<le> u * u" "0 \<le> v * v" by simp_all
  have "\<bar>u\<bar> \<le> int n" by (rule le) (use uv uu in linarith)
  moreover have "\<bar>v\<bar> \<le> int n" by (rule le) (use uv uu in linarith)
  moreover have "int n < 2 ^ 12" using n by simp
  ultimately have small: "\<bar>u\<bar> < 2 ^ 24" "\<bar>v\<bar> < 2 ^ 24" by simp_all
  have small2: "\<bar>u * u\<bar> < 2 ^ 24" "\<bar>v * v\<bar> < 2 ^ 24" "\<bar>u * u + v * v\<bar> < 2 ^ 24"
    using uv nn uu by linarith+
  have sub: "f32_sub (Fin (of_int a)) (Fin (of_int c)) = Fin (of_int u)"
    "f32_sub (Fin (of_int b)) (Fin (of_int d)) = Fin (of_int v)"
    using f32_round_int [OF small(1)] f32_round_int [OF small(2)] by (simp_all add: f32_sub_def u_def v_def)
  have mul: "f32_mul (Fin (of_int u)) (Fin (of_int u)) = Fin (of_int (u * u))"
    "f32_mul (Fin (of_int v)) (Fin (of_int v)) = Fin (of_int (v * v))"
    using f32_round_int [OF small2(1)] f32_round_int [OF small2(2)] by simp_all
  have big: "(of_int (u * u + v * v) :: rat) = of_nat n * of_nat n" unfolding uv by simp
  have add: "f32_add (Fin (of_int (u * u))) (Fin (of_int (v * v))) = Fin (of_nat n * of_nat n)"
    using f32_round_int [OF small2(3)] unfolding f32_add.simps of_int_add [symmetric] big .
  show ?thesis
    unfolding distance_between_def Let_def fst_conv snd_conv sub mul add
    by (rule f32_sqrt_square) (use n in simp)
qed

section \<open>Steps\<close>

lemma half_second: "f32_round (1 / 2) = Fin (1 / 2)"
proof -
  have "exponent_below (Suc (Suc k)) (1 / 2) = 1" for k by simp
  from this [of 124] have "exponent_below 126 (1 / 2) = 1" by simp
  then have "f32_ulp (1 / 2) = 1 / 2 ^ 24" by (simp add: f32_ulp_def)
  then have "round_abs (1 / 2) = 1 / 2"
    by (intro round_abs_exact [of _ "2 ^ 23"]) simp
  then show ?thesis by (simp add: f32_round_def f32_overflow_def)
qed

lemma least_elapsed: "\<exists>r \<le> 1. f32_round (16 / 1000) = Fin r"
proof -
  have "f32_ulp (16 / 1000) \<le> max (16 / 1000 / 2 ^ 23) (1 / 2 ^ 23)" by (rule f32_ulp_le)
  also have "\<dots> \<le> 1" by simp
  finally have "round_abs (16 / 1000) \<le> 1" using round_abs_le [of "16 / 1000"] by simp
  then show ?thesis by (simp add: f32_round_def f32_overflow_def)
qed

lemma two_seconds: "as_secs_f32 (secs 2) = Fin 2"
proof -
  have "f32_round (10 ^ 9) = Fin (round_abs (10 ^ 9))" by (simp add: f32_round_def f32_overflow_def)
  moreover have "0 < round_abs (10 ^ 9)" by (rule round_abs_pos) (simp_all add: f32_ulp_def)
  ultimately show ?thesis
    using f32_round_nat [of 2] by (simp add: as_secs_f32_def secs_def)
qed

lemma max_delta_second: "max_delta (secs 2) = Fin 127"
proof -
  obtain r where r: "r \<le> 1" "f32_round (16 / 1000) = Fin r" using least_elapsed by blast
  show ?thesis
    using r f32_round_nat [of 105] f32_round_nat [of 127]
    by (simp add: max_delta_def two_seconds half_second f32_clamp_def move_speed_def)
qed

text \<open>A step of at most 127 units, two seconds after the last, is taken as it was sent.\<close>

lemma next_position_whole:
  fixes a b c d :: int
  assumes sq: "(c - a) * (c - a) + (d - b) * (d - b) = int n * int n" and n: "n \<le> 127"
    and "10 \<le> c" "c \<le> 1270" "10 \<le> d" "d \<le> 790"
  shows "next_position (secs 2) (Fin (of_int a), Fin (of_int b)) (Fin (of_int c), Fin (of_int d))
    = (Fin (of_int c), Fin (of_int d))"
proof -
  have dist: "f32_sqrt (f32_add (f32_mul (f32_sub (Fin (of_int c)) (Fin (of_int a))) (f32_sub (Fin (of_int c)) (Fin (of_int a))))
      (f32_mul (f32_sub (Fin (of_int d)) (Fin (of_int b))) (f32_sub (Fin (of_int d)) (Fin (of_int b)))))
      = Fin (of_nat n)"
    using distance_whole [OF sq] n by (simp add: distance_between_def Let_def)
  have "(of_nat n :: rat) \<le> 127" using n by simp
  moreover have "f32_sub map_width player_collision_radius = Fin 1270" "f32_sub map_height player_collision_radius = Fin 790"
    using f32_round_nat [of 1270] f32_round_nat [of 790]
    by (simp_all add: map_width_def map_height_def player_collision_radius_def f32_sub_def)
  ultimately show ?thesis
    using assms(3-6)
    by (simp add: next_position_def Let_def dist max_delta_second f32_clamp_def player_collision_radius_def)
qed

lemma lower_edge_free:
  assumes y: "668 \<le> y" "y \<le> 790"
  shows "\<not> cafe_map_collides (Fin x) (Fin (of_nat y))"
proof -
  have "f32_sub (Fin (of_nat y)) (Fin 10) = Fin (of_nat (y - 10))"
    using f32_round_nat [of "y - 10"] assms by (simp add: f32_sub_def of_nat_diff)
  then have sub: "f32_sub (Fin (of_nat y)) (Fin 10) = Fin (of_nat y - 10)" using y by (simp add: of_nat_diff)
  have ge: "(668::rat) \<le> of_nat y" using y by simp
  moreover have "f32_round 302 = Fin 302" "f32_round 444 = Fin 444" "f32_round 640 = Fin 640"
    "f32_round 648 = Fin 648" "f32_round 621 = Fin 621"
    using f32_round_nat [of 302] f32_round_nat [of 444] f32_round_nat [of 640] f32_round_nat [of 648]
      f32_round_nat [of 621] by simp_all
  ultimately show ?thesis
    unfolding cafe_map_collides_def cafe_map_colliders_def contains_player_def new_collider_def
        player_collision_radius_def Let_def using y
    by (simp add: sub)
qed

end
