(* ===== verification/Cafe_Tea_Loss.thy ===== *)
theory Cafe_Tea_Loss
  imports Cafe_Walk
begin

text \<open>
  The tea of a delivery round. A leaving player gives rush ingredients and claimed orders back
  (\<open>leave_for_connection\<close>), but not the tea that a delivery round made it carry. The tea in reach of a
  room (on the map, in hands, delivered) never grows while the round lasts, so a round that has lost
  one leaf never reaches its target again and the room never leaves it.
\<close>

section \<open>The tea in reach\<close>

definition tea_in_reach :: "cafe_room \<Rightarrow> nat" where
  "tea_in_reach room = count_if leaf_available (tea_leaves (activity room))
     + held carried_tea (players room) + delivered (activity room)"

definition tea_short :: "nat \<Rightarrow> cafe_room \<Rightarrow> bool" where
  "tea_short n room \<longleftrightarrow> room_inv room \<and> act_id (activity room) = TeaDelivery \<and>
     act_phase (activity room) = Active \<and> round_number (activity room) = n \<and>
     tea_in_reach room < act_target (activity room)"

lemma held_same: "(\<And>v. f (g v) = f v) \<Longrightarrow> held f (hm_adjust k g m) = held f m"
proof (cases "hm_get m k")
  case (Some v)
  then show "(\<And>v. f (g v) = f v) \<Longrightarrow> held f (hm_adjust k g m) = held f m"
    using held_adjust [OF Some, of f g] by simp
qed (simp add: hm_adjust_def)

lemma held_map: "held f (hm_map_values g m) = held (\<lambda>v. f (g v)) m"
  by (simp add: held_def hm_values_def hm_map_values_def comp_def case_prod_beta)

lemma tea_shortI:
  assumes "tea_short n room" and "room_inv room'"
    and "act_id (activity room') = act_id (activity room)" "act_phase (activity room') = act_phase (activity room)"
      "round_number (activity room') = round_number (activity room)"
      "act_target (activity room') = act_target (activity room)"
    and "tea_in_reach room' \<le> tea_in_reach room"
  shows "tea_short n room'"
  using assms by (simp add: tea_short_def)

lemma tea_hands:
  assumes inv: "room_inv room" and tea: "act_id (activity room) = TeaDelivery"
    and act: "act_phase (activity room) = Active" and p: "hm_get (players room) k = Some p"
  shows "carried_rush_ingredient_ids p = []" and "carried_order_id p = None"
proof -
  let ?hs = "hm_map_values hand_of (players room)"
  have rules: "rules_ok (activity room) ?hs" by (rule room_invD(2) [OF inv])
  have rnd: "round_hands_ok (activity room) ?hs" by (rule rules_okD(4) [OF rules act])
  have "table_orders (activity room) = []" using rules tea by (simp add: rules_ok_def activity_ok_def)
  then have "carrying ?hs = {}" using rnd by (simp add: round_hands_ok_def claims_def)
  then show "carried_order_id p = None"
    using carrying_of [OF hm_get_hand [OF p], of "the (carried_order_id p)"]
    by (cases "carried_order_id p") (simp_all add: hand_of_def)
  have "hand_of p \<in> set (hm_values ?hs)" using p by (intro hm_get_in_values [of _ k]) simp
  then show "carried_rush_ingredient_ids p = []"
    using rnd tea by (auto simp: round_hands_ok_def hand_of_def)
qed

lemma tea_short_hands:
  assumes "tea_short n room" and "hm_get (players room) k = Some p"
  shows "carried_rush_ingredient_ids p = []" and "carried_order_id p = None"
  using assms tea_hands by (auto simp: tea_short_def)

section \<open>Every event keeps a shortage\<close>

lemma tea_short_join:
  assumes "tea_short n room" and "room_inv (snd (join_room env player room))" and "carried_tea player = 0"
  shows "tea_short n (snd (join_room env player room))"
proof (rule tea_shortI [OF assms(1,2)])
  have "held carried_tea (players (snd (join_room env player room))) = held carried_tea (players room)"
  proof (cases "hm_get (players room) (player_id player)")
    case None
    then show ?thesis using assms(3) by (simp add: join_room_def Let_def held_insert_new)
  next
    case (Some e)
    then have "players room \<noteq> []" by auto
    with Some show ?thesis
      using held_insert_old [OF Some, of carried_tea "keep_presence e player"]
      by (simp add: join_room_def Let_def) (simp add: keep_presence_def)
  qed
  then show "tea_in_reach (snd (join_room env player room)) \<le> tea_in_reach room"
    by (auto simp: tea_in_reach_def join_room_def Let_def)
qed (auto simp: join_room_def Let_def)

lemma leave_tea:
  assumes "hm_get (players room) pid = Some p" "connection_id p = conn"
    and "carried_rush_ingredient_ids p = []" "carried_order_id p = None"
  shows "players (leave_room env pid conn room) = hm_remove pid (players room)"
    and "activity (leave_room env pid conn room) = activity room"
  using assms by (auto simp: leave_room_def Let_def)

lemma leave_tea_reach:
  assumes "room_inv room" "hm_get (players room) pid = Some p" "connection_id p = conn"
    and "carried_rush_ingredient_ids p = []" "carried_order_id p = None"
  shows "tea_in_reach (leave_room env pid conn room) + carried_tea p = tea_in_reach room"
proof -
  have "hm_ok (players room)" using hm_ok_hands [OF assms(1)] by simp
  then show ?thesis
    using held_remove [OF _ assms(2), of carried_tea] by (simp add: tea_in_reach_def leave_tea [OF assms(2-5)])
qed

lemma tea_short_leave:
  assumes short: "tea_short n room"
  shows "tea_short n (leave_room env pid conn room)"
proof (cases "\<exists>p. hm_get (players room) pid = Some p \<and> connection_id p = conn")
  case False
  then have "leave_room env pid conn room = room" by (auto simp: leave_room_def split: option.split)
  with short show ?thesis by simp
next
  case True
  then obtain p where p: "hm_get (players room) pid = Some p" "connection_id p = conn" by auto
  note hand = tea_short_hands [OF short p(1)]
  have inv: "room_inv room" using short by (simp add: tea_short_def)
  show ?thesis
    using leave_tea [OF p hand] leave_tea_reach [OF inv p hand, of env]
    by (intro tea_shortI [OF short leave_room_inv [OF inv]]) simp_all
qed

lemma tea_short_move:
  assumes "tea_short n room" and "room_inv (update_player_for_connection env pid conn m room)"
  shows "tea_short n (update_player_for_connection env pid conn m room)"
proof (rule tea_shortI [OF assms])
  have "carried_tea (move_player env m v) = carried_tea v" for v
    by (simp add: move_player_def Let_def case_prod_beta)
  then show "tea_in_reach (update_player_for_connection env pid conn m room) \<le> tea_in_reach room"
    by (simp add: tea_in_reach_def update_player_for_connection_def held_same split: option.split)
qed (simp_all add: update_player_for_connection_def split: option.split)

lemma tea_short_same:
  assumes "tea_short n room" and "room_inv room'" and "activity room' = activity room"
    and "held carried_tea (players room') = held carried_tea (players room)"
  shows "tea_short n room'"
  using assms by (intro tea_shortI [OF assms(1,2)]) (simp_all add: tea_in_reach_def)

lemma collect_tea:
  assumes "tea_short n room" and "room_inv (collect_leaf pid pos l room)"
    and find: "find (\<lambda>l. leaf_id l = i \<and> leaf_available l) (tea_leaves (activity room)) = Some l"
    and p: "hm_get (players room) pid = Some p"
  shows "tea_short n (collect_leaf pid pos l room)"
proof (rule tea_shortI [OF assms(1,2)])
  have l: "leaf_id l = i \<and> leaf_available l" using find_Some_in [OF find] by simp
  obtain us vs where ls: "tea_leaves (activity room) = us @ l # vs"
    and upd: "update_first (\<lambda>l. leaf_id l = i \<and> leaf_available l) (\<lambda>l. l\<lparr>leaf_available := False\<rparr>)
      (tea_leaves (activity room)) = us @ l\<lparr>leaf_available := False\<rparr> # vs"
    using find_Some_split [OF find, of "\<lambda>l. l\<lparr>leaf_available := False\<rparr>"] by auto
  let ?f = "\<lambda>p. p\<lparr>carried_tea := sat_add 8 (carried_tea p) 1,
    carried_rush_ingredient_ids := carried_rush_ingredient_ids p @ []\<rparr>"
  have "held carried_tea (hm_adjust pid ?f (players room)) \<le> Suc (held carried_tea (players room))"
    using held_adjust [OF p, of carried_tea ?f] sat_add_le [of 8 "carried_tea p" 1] by simp
  then show "tea_in_reach (collect_leaf pid pos l room) \<le> tea_in_reach room"
    using assms(1) l upd by (simp add: tea_in_reach_def collect_leaf_def Let_def tea_short_def ls)
qed (simp_all add: collect_leaf_def Let_def)

lemma deliver_tea_short:
  assumes short: "tea_short n room" and "room_inv (snd (deliver_tea env pid room))"
    and p: "hm_get (players room) pid = Some p"
  shows "tea_short n (snd (deliver_tea env pid room))"
proof -
  have h: "held carried_tea (hm_adjust pid (\<lambda>p. p\<lparr>carried_tea := 0\<rparr>) (players room)) + carried_tea p
      = held carried_tea (players room)"
    using held_adjust [OF p, of carried_tea "\<lambda>p. p\<lparr>carried_tea := 0\<rparr>"] by simp
  have "carried_tea p \<le> held carried_tea (players room)" by (rule held_ge [OF p])
  then have less: "delivered (activity room) + carried_tea p < act_target (activity room)"
    using short by (simp add: tea_short_def tea_in_reach_def)
  have le: "min (sat_add 8 (delivered (activity room)) (carried_tea p)) (act_target (activity room))
      \<le> delivered (activity room) + carried_tea p"
    using sat_add_le [of 8 "delivered (activity room)" "carried_tea p"] by simp
  show ?thesis
    by (rule tea_shortI [OF assms(1,2)])
      (use h less le p in \<open>auto simp: deliver_tea_def Let_def case_prod_beta tea_in_reach_def\<close>)
qed

lemma interact_tea:
  assumes "act_phase (activity room) = Active" "act_id (activity room) = TeaDelivery"
    and "hm_get (players room) pid = Some p"
  shows "snd (interact_for_connection env pid conn target room) =
    (if connection_id p \<noteq> conn then room
     else case find (\<lambda>l. leaf_id l = target \<and> leaf_available l) (tea_leaves (activity room)) of
         Some l \<Rightarrow> collect_leaf pid (player_x p, player_y p) l room
       | None \<Rightarrow>
           if target \<noteq> ascii ''aiko'' \<or> beyond host_interaction_radius (player_x p, player_y p) (target_position ''aiko'')
           then room else snd (deliver_tea env pid room))"
  using assms by (simp add: interact_for_connection_def Let_def split: option.split)

lemma tea_short_interact:
  assumes short: "tea_short n room"
  shows "tea_short n (snd (interact_for_connection env pid conn target room))"
proof (cases "hm_get (players room) pid")
  case None
  with short show ?thesis by (simp add: interact_for_connection_def)
next
  case (Some p)
  have inv: "room_inv (snd (interact_for_connection env pid conn target room))"
    using short interact_room_inv by (simp add: tea_short_def)
  have act: "act_phase (activity room) = Active" "act_id (activity room) = TeaDelivery"
    using short by (simp_all add: tea_short_def)
  show ?thesis
    using inv collect_tea [OF short _ _ Some] deliver_tea_short [OF short _ Some] short
    unfolding interact_tea [OF act Some] by (auto split: option.splits if_splits simp del: target_positions)
qed

lemma tea_short_rest:
  assumes short: "tea_short n room"
  shows "tea_short n (snd (flush_dirty_movement room))"
    and "tea_short n (emote_for_connection pid conn emote room)"
    and "tea_short n (snd (chat_for_connection lower env pid conn text room))"
    and "tea_short n (reward_players ids stars room)"
    and "tea_short n (snd (snd (start_next_round env k room)))"
    and "tea_short n (snd (expire_cafe_rush env k room))"
    and "tea_short n (equip_cosmetic_room owner c room)" and "tea_short n (equip_avatar_room owner a room)"
proof -
  have inv: "room_inv room" and act: "act_phase (activity room) = Active" "act_id (activity room) = TeaDelivery"
    using short by (simp_all add: tea_short_def)
  show "tea_short n (snd (flush_dirty_movement room))"
    by (rule tea_short_same [OF short talk_room_inv(1) [OF inv]]) (auto simp: flush_dirty_movement_def)
  show "tea_short n (emote_for_connection pid conn emote room)"
    by (rule tea_short_same [OF short talk_room_inv(2) [OF inv]])
      (auto simp: emote_for_connection_def split: option.split)
  show "tea_short n (snd (chat_for_connection lower env pid conn text room))"
    by (rule tea_short_same [OF short talk_room_inv(3) [OF inv]])
      (auto simp: chat_for_connection_def split: option.split sum.split)
  have "activity (reward_players ids stars room) = activity room \<and> players (reward_players ids stars room) = players room"
    by (induction ids arbitrary: room) (simp_all add: reward_players_def)
  then show "tea_short n (reward_players ids stars room)"
    by (intro tea_short_same [OF short talk_room_inv(4) [OF inv]]) simp_all
  show "tea_short n (snd (snd (start_next_round env k room)))"
    using short act by (simp add: start_next_round_def)
  show "tea_short n (snd (expire_cafe_rush env k room))"
    using short act by (simp add: expire_cafe_rush_def)
  show "tea_short n (equip_cosmetic_room owner c room)"
    by (rule tea_short_same [OF short equip_room_inv(1) [OF inv]])
      (auto simp: equip_cosmetic_room_def Let_def held_map if_distrib cong: if_cong)
  show "tea_short n (equip_avatar_room owner a room)"
    by (rule tea_short_same [OF short equip_room_inv(2) [OF inv]])
      (auto simp: equip_avatar_room_def Let_def held_map if_distrib cong: if_cong)
qed

lemma tea_short_step: "tea_short n room \<Longrightarrow> tea_short n (room_step lower room e)"
proof (cases e)
  case (Pair env ev)
  assume short: "tea_short n room"
  then have inv: "room_inv (room_apply lower env ev room)"
    using room_step_inv [of room lower e] by (simp add: room_step_def Pair tea_short_def)
  have "tea_short n (room_apply lower env ev room)"
    using short inv
    by (cases ev)
      (simp_all add: tea_short_join new_player_with_avatar_def tea_short_leave tea_short_move
        tea_short_interact tea_short_rest)
  then show ?thesis by (simp add: room_step_def Pair)
qed

interpretation tea_shortage: invariant_machine "room_step lower" "tea_short n"
  by unfold_locales (rule tea_short_step)

section \<open>The lost round\<close>

text \<open>
  C16: when a player who carries tea leaves a delivery round, the tea is lost: whatever happens to the
  room afterwards, the round goes on and never reaches its target, so the room never plays another
  round. (Ingredients of a rush and claimed orders are given back; tea is not.)
\<close>

theorem cafe_tea_lost_on_leave:
  fixes es es' :: "(cafe_env \<times> cafe_room_event) list" and lower :: "ustr \<Rightarrow> ustr" and env' :: cafe_env
    and pid conn :: uuid
  assumes new: "new_room env private taken = Some room0"
  defines "room \<equiv> room_run lower room0 es"
  assumes tea: "act_id (activity room) = TeaDelivery" "act_phase (activity room) = Active"
    and p: "hm_get (players room) pid = Some p" "connection_id p = conn" "0 < carried_tea p"
  defines "later \<equiv> room_run lower (leave_room env' pid conn room) es'"
  shows "act_id (activity later) = TeaDelivery \<and> act_phase (activity later) = Active \<and>
    round_number (activity later) = round_number (activity room) \<and> \<not> completed (activity later) \<and>
    delivered (activity later) < act_target (activity later)"
proof -
  have inv: "room_inv room" unfolding room_def by (rule room_run_inv [OF new])
  let ?hs = "hm_map_values hand_of (players room)"
  have rules: "rules_ok (activity room) ?hs" by (rule room_invD(2) [OF inv])
  have "round_hands_ok (activity room) ?hs" by (rule rules_okD(4) [OF rules tea(2)])
  then have reach: "tea_in_reach room \<le> act_target (activity room)"
    using tea(1) by (simp add: round_hands_ok_def tea_in_reach_def held_map hand_of_def)
  have hand: "carried_rush_ingredient_ids p = []" "carried_order_id p = None"
    using tea_hands [OF inv tea(1) tea(2) p(1)] by simp_all
  have "tea_short (round_number (activity room)) (leave_room env' pid conn room)"
    using leave_tea_reach [OF inv p(1,2) hand, of env'] leave_tea [OF p(1,2) hand] leave_room_inv [OF inv]
      reach p(3) tea by (simp add: tea_short_def)
  then have "tea_short (round_number (activity room)) later"
    unfolding later_def room_run_def by (rule tea_shortage.run_inv)
  then show ?thesis
    using active_not_completed [of later] by (auto simp: tea_short_def tea_in_reach_def)
qed

definition walk_env :: "nat \<Rightarrow> cafe_env" where
  "walk_env k = \<lparr>env_now = k * secs 2, env_utc = 0, env_uuid = 9\<rparr>"

definition walk_events :: "(cafe_env \<times> cafe_room_event) list" where
  "walk_events =
     [(walk_env 0, EvJoin (walk_env 0) (demo_identity 1) None []),
      (walk_env 1, EvMove 1 9 760 682 DirRight True 1),
      (walk_env 2, EvMove 1 9 880 682 DirRight True 2),
      (walk_env 3, EvMove 1 9 1000 682 DirRight True 3),
      (walk_env 4, EvInteract 1 9 (ascii ''tea-1-3''))]"

text \<open>The walk to the third leaf of round one and the tea it collects.\<close>

lemma walk_step:
  fixes a b c d :: int
  assumes "(c - a) * (c - a) + (d - b) * (d - b) = int n * int n" "n \<le> 127"
    and "10 \<le> c" "c \<le> 1270" "668 \<le> d" "d \<le> 790"
    and "move_x m = Fin (of_int c)" "move_y m = Fin (of_int d)"
    and "player_x p = Fin (of_int a)" "player_y p = Fin (of_int b)" "duration_since (env_now env) (last_move_at p) = secs 2"
  shows "move_player env m p = p\<lparr>player_x := Fin (of_int c), player_y := Fin (of_int d),
    player_direction := move_direction m, player_moving := move_moving m, last_sequence := move_sequence m,
    last_move_at := env_now env\<rparr>"
proof -
  have "next_position (secs 2) (Fin (of_int a), Fin (of_int b)) (Fin (of_int c), Fin (of_int d))
      = (Fin (of_int c), Fin (of_int d))"
    using assms(1-6) by (intro next_position_whole) simp_all
  moreover have "\<not> cafe_map_collides (Fin (of_int c)) (Fin (of_int d))"
    using lower_edge_free [of "nat d" "of_int c"] assms(5,6) by simp
  ultimately show ?thesis using assms(7-11) by (simp add: move_player_def Let_def)
qed

definition walker :: "nat \<Rightarrow> rat \<Rightarrow> nat \<Rightarrow> cafe_player" where
  "walker k x tea =
     (new_player_with_avatar (walk_env 0) (demo_identity 1) None [])
       \<lparr>player_x := Fin x, player_y := Fin 682, player_direction := DirRight, player_moving := True,
        last_sequence := k, last_move_at := k * secs 2, carried_tea := tea\<rparr>"

lemma f32_whole: "f32_round 760 = Fin 760" "f32_round 880 = Fin 880" "f32_round 1000 = Fin 1000" "f32_round 682 = Fin 682"
  using f32_round_nat [of 760] f32_round_nat [of 880] f32_round_nat [of 1000] f32_round_nat [of 682] by simp_all

lemma walk_1:
  "move_player (walk_env 1) \<lparr>move_x = Fin 760, move_y = Fin 682, move_direction = DirRight, move_moving = True,
     move_sequence = 1\<rparr> (new_player_with_avatar (walk_env 0) (demo_identity 1) None []) = walker 1 760 0"
  using walk_step [of 760 640 682 704 122 "\<lparr>move_x = Fin 760, move_y = Fin 682, move_direction = DirRight, move_moving = True,
     move_sequence = 1\<rparr>" "new_player_with_avatar (walk_env 0) (demo_identity 1) None []" "walk_env 1"]
  by (simp add: new_player_with_avatar_def player_spawn_def walk_env_def duration_since_def walker_def)

lemma walk_next:
  assumes "10 \<le> c" "c \<le> 1270" "c - a = 120"
  shows "move_player (walk_env (Suc k)) \<lparr>move_x = Fin (of_int c), move_y = Fin 682, move_direction = DirRight,
     move_moving = True, move_sequence = Suc k\<rparr> (walker k (of_int a) 0) = walker (Suc k) (of_int c) 0"
  using walk_step [of c a 682 682 120 "\<lparr>move_x = Fin (of_int c), move_y = Fin 682, move_direction = DirRight,
     move_moving = True, move_sequence = Suc k\<rparr>" "walker k (of_int a) 0" "walk_env (Suc k)"] assms
  by (simp add: walk_env_def duration_since_def walker_def)

text \<open>What a room with one player does on the events of the walk.\<close>

lemma move_single:
  assumes "players room = [(1, p)]" "connection_id p = 9" "last_sequence p < k"
  shows "players (room_apply lower env (EvMove 1 9 x y d b k) room) =
      (if is_finite (f32_round x) \<and> is_finite (f32_round y)
       then [(1, move_player env \<lparr>move_x = f32_round x, move_y = f32_round y, move_direction = d,
         move_moving = b, move_sequence = k\<rparr> p)] else [(1, p)])"
    and "activity (room_apply lower env (EvMove 1 9 x y d b k) room) = activity room"
  using assms
  by (simp_all add: update_player_for_connection_def hm_get_def hm_adjust_def hm_insert_def)

definition walk_leaf :: cafe_tea_leaf where
  "walk_leaf = \<lparr>leaf_id = ascii ''tea-1-3'', leaf_x = Fin 1064, leaf_y = Fin 682, leaf_available = True\<rparr>"

lemma find_walk_leaf:
  "find (\<lambda>l. leaf_id l = ascii ''tea-1-3'' \<and> leaf_available l) (tea_leaves (tea_delivery 1)) = Some walk_leaf"
proof -
  have "char_of (49 :: nat) = CHR ''1''" "char_of (50 :: nat) = CHR ''2''" "char_of (51 :: nat) = CHR ''3''"
    by code_simp+
  then show ?thesis
    by (simp add: tea_delivery_def tea_layouts_def make_leaves_def tea_leaf_id_def show_nat.simps digit_char_def
      walk_leaf_def Let_def)
qed

lemma walk_in_reach: "in_reach interaction_radius (Fin 1000, Fin 682) (Fin 1064, Fin 682)"
  using distance_whole [of 1000 1064 682 682 64] by (simp add: in_reach_def interaction_radius_def)

lemma collect_single:
  assumes "players room = [(1, walker k 1000 0)]" "activity room = tea_delivery 1"
  shows "players (room_apply lower env (EvInteract 1 9 (ascii ''tea-1-3'')) room) = [(1, walker k 1000 1)]"
    and "act_id (activity (room_apply lower env (EvInteract 1 9 (ascii ''tea-1-3'')) room)) = TeaDelivery"
    and "act_phase (activity (room_apply lower env (EvInteract 1 9 (ascii ''tea-1-3'')) room)) = Active"
proof -
  have p: "hm_get (players room) 1 = Some (walker k 1000 0)" using assms(1) by (simp add: hm_get_def)
  have act: "act_phase (activity room) = Active" "act_id (activity room) = TeaDelivery"
    using assms(2) by (simp_all add: tea_delivery_def Let_def)
  have w: "connection_id (walker k 1000 0) = 9" "player_x (walker k 1000 0) = Fin 1000"
    "player_y (walker k 1000 0) = Fin 682"
    by (simp_all add: walker_def new_player_with_avatar_def walk_env_def)
  have eq: "room_apply lower env (EvInteract 1 9 (ascii ''tea-1-3'')) room
      = collect_leaf 1 (Fin 1000, Fin 682) walk_leaf room"
    using interact_tea [OF act p, of env 9 "ascii ''tea-1-3''"] find_walk_leaf assms(2) w by simp
  have reach: "in_reach interaction_radius (Fin 1000, Fin 682) (leaf_x walk_leaf, leaf_y walk_leaf)"
    using walk_in_reach by (simp add: walk_leaf_def)
  have "(walker k 1000 0)\<lparr>carried_tea := sat_add 8 (carried_tea (walker k 1000 0)) 1,
      carried_rush_ingredient_ids := carried_rush_ingredient_ids (walker k 1000 0) @ []\<rparr> = walker k 1000 1"
    by (simp add: walker_def new_player_with_avatar_def sat_add_def)
  then show "players (room_apply lower env (EvInteract 1 9 (ascii ''tea-1-3'')) room) = [(1, walker k 1000 1)]"
    unfolding eq using reach act assms(1)
    by (simp add: collect_leaf_def Let_def hm_get_def hm_adjust_def hm_insert_def)
  show "act_id (activity (room_apply lower env (EvInteract 1 9 (ascii ''tea-1-3'')) room)) = TeaDelivery"
    "act_phase (activity (room_apply lower env (EvInteract 1 9 (ascii ''tea-1-3'')) room)) = Active"
    unfolding eq using reach act by (simp_all add: collect_leaf_def Let_def)
qed

lemma demo_room_activity: "activity demo_room = tea_delivery 1"
  using new_room_activity [OF demo_room_new] by (simp add: for_round_def demo_env_def)

lemma join_single:
  "players (room_apply lower (walk_env 0) (EvJoin (walk_env 0) (demo_identity 1) None []) demo_room)
     = [(1, new_player_with_avatar (walk_env 0) (demo_identity 1) None [])]"
  "activity (room_apply lower (walk_env 0) (EvJoin (walk_env 0) (demo_identity 1) None []) demo_room) = tea_delivery 1"
  by (simp_all add: join_room_def Let_def demo_room_empty demo_room_activity hm_insert_def
      new_player_with_avatar_def demo_identity_def room_capacity_def)

lemma walked:
  "players (room_run id demo_room walk_events) = [(1, walker 3 1000 1)]"
  "act_id (activity (room_run id demo_room walk_events)) = TeaDelivery"
  "act_phase (activity (room_run id demo_room walk_events)) = Active"
proof -
  define r1 where "r1 = room_apply id (walk_env 0) (EvJoin (walk_env 0) (demo_identity 1) None []) demo_room"
  define r2 where "r2 = room_apply id (walk_env 1) (EvMove 1 9 760 682 DirRight True 1) r1"
  define r3 where "r3 = room_apply id (walk_env 2) (EvMove 1 9 880 682 DirRight True 2) r2"
  define r4 where "r4 = room_apply id (walk_env 3) (EvMove 1 9 1000 682 DirRight True 3) r3"
  define r5 where "r5 = room_apply id (walk_env 4) (EvInteract 1 9 (ascii ''tea-1-3'')) r4"
  have run: "room_run id demo_room walk_events = r5"
    by (simp only: room_run_def walk_events_def room_step_def foldl.simps fst_conv snd_conv r1_def r2_def r3_def r4_def r5_def)
  have p0: "connection_id (new_player_with_avatar (walk_env 0) (demo_identity 1) None []) = 9"
    "last_sequence (new_player_with_avatar (walk_env 0) (demo_identity 1) None []) < 1"
    by (simp_all add: new_player_with_avatar_def walk_env_def)
  have w: "connection_id (walker k x t) = 9" "last_sequence (walker k x t) = k" for k x t
    by (simp_all add: walker_def new_player_with_avatar_def walk_env_def)
  have r2: "players r2 = [(1, walker 1 760 0)]" "activity r2 = tea_delivery 1"
    using move_single [OF join_single(1) p0] join_single(2) walk_1
    unfolding r2_def r1_def by (simp_all add: f32_whole del: room_apply.simps)
  have r3: "players r3 = [(1, walker 2 880 0)]" "activity r3 = tea_delivery 1"
    using move_single [OF r2(1), of 2 id "walk_env 2" 880 682 DirRight True] r2(2) walk_next [of 880 760 1] w
    unfolding r3_def by (simp_all add: f32_whole numeral_2_eq_2 del: room_apply.simps)
  have r4: "players r4 = [(1, walker 3 1000 0)]" "activity r4 = tea_delivery 1"
    using move_single [OF r3(1), of 3 id "walk_env 3" 1000 682 DirRight True] r3(2) walk_next [of 1000 880 2] w
    unfolding r4_def by (simp_all add: f32_whole numeral_3_eq_3 numeral_2_eq_2 del: room_apply.simps)
  show "players (room_run id demo_room walk_events) = [(1, walker 3 1000 1)]"
    "act_id (activity (room_run id demo_room walk_events)) = TeaDelivery"
    "act_phase (activity (room_run id demo_room walk_events)) = Active"
    unfolding run r5_def by (rule collect_single [OF r4])+
qed

theorem cafe_tea_lost_on_leave_witness:
  "act_phase (activity (room_run id
     (leave_room (walk_env 5) 1 9 (room_run id demo_room walk_events))
     [(walk_env 6, EvJoin (walk_env 6) (demo_identity 2) None [])])) = Active"
proof -
  have p: "hm_get (players (room_run id demo_room walk_events)) 1 = Some (walker 3 1000 1)"
    by (simp add: walked hm_get_def)
  show ?thesis
    using cafe_tea_lost_on_leave [OF demo_room_new walked(2,3) p, of 9 "walk_env 5"]
    by (simp add: walker_def new_player_with_avatar_def walk_env_def)
qed

end
