(* ===== verification/Cafe_Hub.thy ===== *)
theory Cafe_Hub
  imports Cafe_Machine Cafe_Abuse "HOL-Library.Product_Lexorder"
begin

text \<open>
  The hub of the Cafe (\<open>cafe.rs\<close>, \<open>CafeHub\<close>): its rooms in a hash map under one lock, the creation
  and the lookup of rooms, the cleanup and the telemetry snapshot. Each method that holds the lock of
  the rooms is one step. \<open>create_room\<close> is \<open>None\<close> when the search for a free invite code has gone
  through all codes, where the source loops for ever.
\<close>

section \<open>State\<close>

record cafe_room_summary =
  sum_id :: uuid
  sum_invite_code :: ustr
  sum_is_private :: bool
  sum_player_count :: nat
  sum_capacity :: nat
  sum_activity_id :: cafe_activity_id
  sum_activity_completed :: bool

record cafe_hub =
  hub_rooms :: "(uuid, cafe_room) hash_map"
  hub_limits :: cafe_security_config
  hub_abuse :: cafe_abuse_state
  hub_telemetry :: cafe_telemetry

definition new_hub :: "cafe_security_config \<Rightarrow> cafe_hub" where
  "new_hub limits = \<lparr>hub_rooms = [], hub_limits = limits, hub_abuse = abuse_default,
     hub_telemetry = telemetry_default\<rparr>"

definition room_summary :: "cafe_room \<Rightarrow> cafe_room_summary" where
  "room_summary room =
     \<lparr>sum_id = room_id room, sum_invite_code = invite_code room, sum_is_private = is_private room,
      sum_player_count = length (players room), sum_capacity = room_capacity,
      sum_activity_id = act_id (activity room), sum_activity_completed = completed (activity room)\<rparr>"

section \<open>Creation and lookup\<close>

definition taken_codes :: "cafe_hub \<Rightarrow> ustr list" where
  "taken_codes hub = map invite_code (hm_values (hub_rooms hub))"

definition create_room :: "cafe_env \<Rightarrow> bool \<Rightarrow> cafe_hub \<Rightarrow> (cafe_room_summary \<times> cafe_hub) option" where
  "create_room env private hub =
     (case new_room env private (taken_codes hub) of
        None \<Rightarrow> None
      | Some room \<Rightarrow>
          Some (room_summary room, hub\<lparr>hub_rooms := hm_insert (room_id room) room (hub_rooms hub)\<rparr>))"

definition create_room_limited ::
  "cafe_env \<Rightarrow> uuid \<Rightarrow> ustr \<Rightarrow> bool \<Rightarrow> cafe_hub
     \<Rightarrow> ((app_error + cafe_room_summary) \<times> cafe_hub) option" where
  "create_room_limited env session ip private hub =
     (let (r, abuse, tel) = consume_room_creation (hub_limits hub) session ip (env_now env)
            (hub_abuse hub, hub_telemetry hub);
          hub' = hub\<lparr>hub_abuse := abuse, hub_telemetry := tel\<rparr>
      in case r of
           Some e \<Rightarrow> Some (Inl e, hub')
         | None \<Rightarrow> map_option (\<lambda>(s, h). (Inr s, h)) (create_room env private hub'))"

definition joinable :: "cafe_room \<Rightarrow> bool" where
  "joinable room \<longleftrightarrow> \<not> is_private room \<and> length (players room) < room_capacity"

text \<open>\<open>Iterator::max_by_key\<close> returns the last of several maxima.\<close>

fun max_by_key :: "('a \<Rightarrow> nat) \<Rightarrow> 'a list \<Rightarrow> 'a option" where
  "max_by_key f [] = None"
| "max_by_key f (x # xs) =
     (case max_by_key f xs of
        None \<Rightarrow> Some x
      | Some y \<Rightarrow> Some (if f x \<le> f y then y else x))"

definition quick_join_limited ::
  "cafe_env \<Rightarrow> uuid \<Rightarrow> ustr \<Rightarrow> cafe_hub \<Rightarrow> ((app_error + cafe_room_summary) \<times> cafe_hub) option" where
  "quick_join_limited env session ip hub =
     (case max_by_key (\<lambda>room. length (players room)) (filter joinable (hm_values (hub_rooms hub))) of
        Some room \<Rightarrow> Some (Inr (room_summary room), hub)
      | None \<Rightarrow> create_room_limited env session ip False hub)"

definition list_public_rooms :: "cafe_hub \<Rightarrow> cafe_room_summary list" where
  "list_public_rooms hub =
     sort_key (\<lambda>s. (- int (sum_player_count s), sum_id s))
       (map room_summary (filter joinable (hm_values (hub_rooms hub))))"

definition find_by_invite_code :: "ustr \<Rightarrow> cafe_hub \<Rightarrow> cafe_join_error + cafe_room_summary" where
  "find_by_invite_code code hub =
     (case normalize_invite_code code of
        None \<Rightarrow> Inl RoomNotFound
      | Some normalized \<Rightarrow>
          (case find (\<lambda>room. invite_code room = normalized) (hm_values (hub_rooms hub)) of
             None \<Rightarrow> Inl RoomNotFound
           | Some room \<Rightarrow>
               if room_capacity \<le> length (players room) then Inl RoomFull
               else Inr (room_summary room)))"

section \<open>Rooms by id\<close>

definition join_hub ::
  "cafe_env \<Rightarrow> uuid \<Rightarrow> cafe_player \<Rightarrow> cafe_hub \<Rightarrow> (cafe_join_error + cafe_join) \<times> cafe_hub" where
  "join_hub env rid player hub =
     (case hm_get (hub_rooms hub) rid of
        None \<Rightarrow> (Inl RoomNotFound, hub)
      | Some room \<Rightarrow>
          let (r, room') = join_room env player room
          in (r, hub\<lparr>hub_rooms := hm_insert rid room' (hub_rooms hub)\<rparr>))"

text \<open>Every other method on a room does nothing when the room is gone.\<close>

definition on_room :: "uuid \<Rightarrow> (cafe_room \<Rightarrow> cafe_room) \<Rightarrow> cafe_hub \<Rightarrow> cafe_hub" where
  "on_room rid f hub = hub\<lparr>hub_rooms := hm_adjust rid f (hub_rooms hub)\<rparr>"

definition equip_cosmetic :: "owner_scope \<Rightarrow> ustr option \<Rightarrow> cafe_hub \<Rightarrow> cafe_hub" where
  "equip_cosmetic owner c hub = hub\<lparr>hub_rooms := hm_map_values (equip_cosmetic_room owner c) (hub_rooms hub)\<rparr>"

definition equip_avatar :: "owner_scope \<Rightarrow> ustr \<Rightarrow> cafe_hub \<Rightarrow> cafe_hub" where
  "equip_avatar owner a hub = hub\<lparr>hub_rooms := hm_map_values (equip_avatar_room owner a) (hub_rooms hub)\<rparr>"

section \<open>Cleanup and telemetry\<close>

definition room_expired :: "cafe_security_config \<Rightarrow> instant \<Rightarrow> cafe_room \<Rightarrow> bool" where
  "room_expired limits now room \<longleftrightarrow>
     (if players room = [] then
        if ever_joined room then
          (case empty_since room of
             None \<Rightarrow> False
           | Some t \<Rightarrow> secs (empty_room_ttl_seconds limits) \<le> duration_since now t)
        else secs (never_joined_ttl_seconds limits) \<le> duration_since now (created_at room)
      else False)"

definition cleanup_at :: "instant \<Rightarrow> cafe_hub \<Rightarrow> nat \<times> cafe_hub" where
  "cleanup_at now hub =
     (let expired = map fst (filter (\<lambda>e. room_expired (hub_limits hub) now (snd e)) (hub_rooms hub))
      in (length expired,
          hub\<lparr>hub_rooms := fold hm_remove expired (hub_rooms hub),
              hub_abuse := prune_creation_buckets now (creation_window (hub_limits hub)) (hub_abuse hub)\<rparr>))"

record cafe_telemetry_snapshot =
  snap_active_rooms :: nat
  snap_occupied_rooms :: nat
  snap_active_sockets :: nat
  snap_counters :: cafe_telemetry

definition telemetry_snapshot :: "bool \<Rightarrow> cafe_hub \<Rightarrow> cafe_telemetry_snapshot \<times> cafe_hub" where
  "telemetry_snapshot reset hub =
     (\<lparr>snap_active_rooms = length (hub_rooms hub),
       snap_occupied_rooms = length (filter (\<lambda>room. players room \<noteq> []) (hm_values (hub_rooms hub))),
       snap_active_sockets = active_sockets (hub_abuse hub), snap_counters = hub_telemetry hub\<rparr>,
      hub\<lparr>hub_telemetry := (if reset then telemetry_default else hub_telemetry hub)\<rparr>)"

section \<open>The hub as a machine\<close>

datatype cafe_hub_event =
    HubCreate cafe_env uuid ustr bool
  | HubQuickJoin cafe_env uuid ustr
  | HubRoom uuid cafe_env cafe_room_event
  | HubEquipCosmetic owner_scope "ustr option"
  | HubEquipAvatar owner_scope ustr
  | HubReserve uuid ustr
  | HubRelease uuid ustr
  | HubCleanup instant
  | HubTelemetry bool

text \<open>A creation that never returns leaves the rooms as they are.\<close>

fun hub_step :: "(ustr \<Rightarrow> ustr) \<Rightarrow> cafe_hub \<Rightarrow> cafe_hub_event \<Rightarrow> cafe_hub" where
  "hub_step lower hub (HubCreate env session ip private) =
     (case create_room_limited env session ip private hub of None \<Rightarrow> hub | Some (r, hub') \<Rightarrow> hub')"
| "hub_step lower hub (HubQuickJoin env session ip) =
     (case quick_join_limited env session ip hub of None \<Rightarrow> hub | Some (r, hub') \<Rightarrow> hub')"
| "hub_step lower hub (HubRoom rid env ev) = on_room rid (room_apply lower env ev) hub"
| "hub_step lower hub (HubEquipCosmetic owner c) = equip_cosmetic owner c hub"
| "hub_step lower hub (HubEquipAvatar owner a) = equip_avatar owner a hub"
| "hub_step lower hub (HubReserve session ip) =
     (let (r, abuse, tel) = reserve_socket (hub_limits hub) session ip (hub_abuse hub, hub_telemetry hub)
      in hub\<lparr>hub_abuse := abuse, hub_telemetry := tel\<rparr>)"
| "hub_step lower hub (HubRelease session ip) = hub\<lparr>hub_abuse := release_socket session ip (hub_abuse hub)\<rparr>"
| "hub_step lower hub (HubCleanup now) = snd (cleanup_at now hub)"
| "hub_step lower hub (HubTelemetry reset) = snd (telemetry_snapshot reset hub)"

definition hub_run :: "(ustr \<Rightarrow> ustr) \<Rightarrow> cafe_security_config \<Rightarrow> cafe_hub_event list \<Rightarrow> cafe_hub" where
  "hub_run lower limits es = foldl (hub_step lower) (new_hub limits) es"

section \<open>The invariant\<close>

definition hub_inv :: "cafe_hub \<Rightarrow> bool" where
  "hub_inv hub \<longleftrightarrow> hm_ok (hub_rooms hub) \<and>
     (\<forall>k room. hm_get (hub_rooms hub) k = Some room \<longrightarrow>
        room_id room = k \<and> room_inv room \<and> normalize_invite_code (invite_code room) = Some (invite_code room)) \<and>
     (\<forall>k k' room room'. hm_get (hub_rooms hub) k = Some room \<longrightarrow> hm_get (hub_rooms hub) k' = Some room' \<longrightarrow>
        invite_code room = invite_code room' \<longrightarrow> k = k')"

text \<open>No event changes the id or the invite code of a room.\<close>

definition same_label :: "cafe_room \<Rightarrow> cafe_room \<Rightarrow> bool" where
  "same_label room room' \<longleftrightarrow> room_id room' = room_id room \<and> invite_code room' = invite_code room"

lemma same_label_refl [simp]: "same_label room room"
  by (simp add: same_label_def)

lemma play_label: "same_label room (snd (interact_for_connection env pid conn target room))"
proof -
  have serve: "same_label room (snd (serve_claimed_order env pid pos t room))" for pos t
    by (simp add: serve_claimed_order_def same_label_def Let_def case_prod_beta split: option.split)
  have pick: "same_label room (pick_up_order key pid ord room)" for key ord
    by (simp add: pick_up_order_def same_label_def)
  have other: "same_label room (prepare_order pid room)" "same_label room (collect_leaf pid pos l room)"
    "same_label room (snd (deliver_tea env pid room))" "same_label room (dialogue k e room)" for pos l k e
    by (simp_all add: prepare_order_def collect_leaf_def deliver_tea_def same_label_def Let_def case_prod_beta)
  have service: "same_label room (snd (interact_table_service env pid pos t room))" for pos t
    by (auto simp: interact_table_service_def serve pick other split: option.split)
  have rush: "same_label room (snd (interact_cafe_rush env pid pos t room))" for pos t
    by (auto simp: interact_cafe_rush_def Let_def serve pick other split: option.split)
  show ?thesis
    by (auto simp: interact_for_connection_def Let_def service rush other simp del: target_positions
        split: option.split)
qed

lemma room_apply_label: "same_label room (room_apply lower env ev room)"
proof -
  have reward: "same_label room (reward_players ids stars room)" for ids stars
    by (induction ids arbitrary: room) (simp_all add: reward_players_def same_label_def)
  show ?thesis
    by (cases ev)
      (auto simp: reward play_label, auto simp: same_label_def join_room_def leave_room_def
        update_player_for_connection_def flush_dirty_movement_def emote_for_connection_def
        chat_for_connection_def start_next_round_def expire_cafe_rush_def equip_cosmetic_room_def
        equip_avatar_room_def Let_def split: option.split sum.split)
qed

end
