(* ===== verification/Cafe_Hub_Props.thy ===== *)
theory Cafe_Hub_Props
  imports Cafe_Hub Cafe_Room_Props
begin

text \<open>
  What the hub guarantees: its invariant (rooms under their own ids, unique invite codes, every room
  good), the lookup by invite code, the public list, the choice of the quick join and the cleanup.
\<close>

section \<open>Hash maps of rooms\<close>

lemma hub_get: "hm_ok m \<Longrightarrow> (r \<in> set (hm_values m)) = (\<exists>k. hm_get m k = Some r)"
  by (rule set_values)

lemma fold_hm_remove: "hm_get (fold hm_remove ks m) k = (if k \<in> set ks then None else hm_get m k)"
  by (induction ks arbitrary: m) auto

lemma hm_ok_fold_remove: "hm_ok m \<Longrightarrow> hm_ok (fold hm_remove ks m)"
  by (induction ks arbitrary: m) auto

lemma hub_rooms_on_room [simp]: "hub_rooms (on_room rid f hub) = hm_adjust rid f (hub_rooms hub)"
  by (simp add: on_room_def)

section \<open>The invariant of the hub\<close>

lemma hub_invI:
  assumes "hm_ok (hub_rooms hub)"
    and "\<And>k room. hm_get (hub_rooms hub) k = Some room \<Longrightarrow>
      room_id room = k \<and> room_inv room \<and> normalize_invite_code (invite_code room) = Some (invite_code room)"
    and "\<And>k k' room room'. hm_get (hub_rooms hub) k = Some room \<Longrightarrow> hm_get (hub_rooms hub) k' = Some room' \<Longrightarrow>
      invite_code room = invite_code room' \<Longrightarrow> k = k'"
  shows "hub_inv hub"
  using assms unfolding hub_inv_def by blast

lemma hub_invD:
  assumes "hub_inv hub"
  shows "hm_ok (hub_rooms hub)"
    and "hm_get (hub_rooms hub) k = Some room \<Longrightarrow> room_id room = k"
    and "hm_get (hub_rooms hub) k = Some room \<Longrightarrow> room_inv room"
    and "hm_get (hub_rooms hub) k = Some room \<Longrightarrow> normalize_invite_code (invite_code room) = Some (invite_code room)"
    and "hm_get (hub_rooms hub) k = Some room \<Longrightarrow> hm_get (hub_rooms hub) k' = Some room' \<Longrightarrow>
      invite_code room = invite_code room' \<Longrightarrow> k = k'"
  using assms unfolding hub_inv_def by blast+

text \<open>A change of the rooms that keeps them good and labelled keeps the invariant.\<close>

lemma hub_inv_relabel:
  assumes inv: "hub_inv hub" and ok: "hm_ok (hub_rooms hub')"
    and old: "\<And>k room'. hm_get (hub_rooms hub') k = Some room' \<Longrightarrow>
      \<exists>room. hm_get (hub_rooms hub) k = Some room \<and> same_label room room' \<and> room_inv room'"
  shows "hub_inv hub'"
proof (rule hub_invI [OF ok])
  fix k room' assume "hm_get (hub_rooms hub') k = Some room'"
  from old [OF this] obtain room where r: "hm_get (hub_rooms hub) k = Some room" "same_label room room'" "room_inv room'"
    by blast
  then show "room_id room' = k \<and> room_inv room' \<and> normalize_invite_code (invite_code room') = Some (invite_code room')"
    using hub_invD(2,4) [OF inv r(1)] by (simp add: same_label_def)
next
  fix k k' r r' assume a: "hm_get (hub_rooms hub') k = Some r" "hm_get (hub_rooms hub') k' = Some r'"
    "invite_code r = invite_code r'"
  obtain q where q: "hm_get (hub_rooms hub) k = Some q" "same_label q r" using old [OF a(1)] by blast
  obtain q' where q': "hm_get (hub_rooms hub) k' = Some q'" "same_label q' r'" using old [OF a(2)] by blast
  have "invite_code q = invite_code q'" using q(2) q'(2) a(3) unfolding same_label_def by metis
  then show "k = k'" by (rule hub_invD(5) [OF inv q(1) q'(1)])
qed

lemma hub_inv_same: "hub_inv hub \<Longrightarrow> hub_rooms hub' = hub_rooms hub \<Longrightarrow> hub_inv hub'"
  by (simp add: hub_inv_def)

lemma on_room_inv:
  assumes inv: "hub_inv hub"
    and f: "\<And>room. room_inv room \<Longrightarrow> room_inv (f room)" "\<And>room. same_label room (f room)"
  shows "hub_inv (on_room rid f hub)"
proof (rule hub_inv_relabel [OF inv])
  show "hm_ok (hub_rooms (on_room rid f hub))" using hub_invD(1) [OF inv] by simp
  fix k room' assume new: "hm_get (hub_rooms (on_room rid f hub)) k = Some room'"
  show "\<exists>room. hm_get (hub_rooms hub) k = Some room \<and> same_label room room' \<and> room_inv room'"
  proof (cases "k = rid")
    case False
    then have k: "hm_get (hub_rooms hub) k = Some room'" using new by simp
    then show ?thesis using hub_invD(3) [OF inv k] by (intro exI [of _ room']) simp
  next
    case True
    then obtain room where k: "hm_get (hub_rooms hub) k = Some room" and r: "room' = f room"
      using new by auto
    then show ?thesis using f(2) [of room] f(1) [OF hub_invD(3) [OF inv k]] by (intro exI [of _ room]) simp
  qed
qed

lemma map_rooms_inv:
  assumes inv: "hub_inv hub"
    and f: "\<And>room. room_inv room \<Longrightarrow> room_inv (f room)" "\<And>room. same_label room (f room)"
  shows "hub_inv (hub\<lparr>hub_rooms := hm_map_values f (hub_rooms hub)\<rparr>)"
proof (rule hub_inv_relabel [OF inv])
  show "hm_ok (hub_rooms (hub\<lparr>hub_rooms := hm_map_values f (hub_rooms hub)\<rparr>))"
    using hub_invD(1) [OF inv] by simp
  fix k room' assume "hm_get (hub_rooms (hub\<lparr>hub_rooms := hm_map_values f (hub_rooms hub)\<rparr>)) k = Some room'"
  then show "\<exists>room. hm_get (hub_rooms hub) k = Some room \<and> same_label room room' \<and> room_inv room'"
    using f hub_invD(3) [OF inv] by auto
qed

lemma new_room_code:
  assumes "new_room env hidden taken = Some room"
  shows "room_id room = env_uuid env" and "is_private room = hidden"
    and "invite_code room \<notin> set taken" and "normalize_invite_code (invite_code room) = Some (invite_code room)"
proof -
  obtain code where code: "unique_invite_code (env_uuid env) taken = Some code" and room: "invite_code room = code"
    "room_id room = env_uuid env" "is_private room = hidden"
    using assms by (auto simp: new_room_def split: option.splits)
  have "code \<notin> set taken \<and> (\<exists>w. code = invite_of w)"
    by (rule invite_loop_Some [OF code [unfolded unique_invite_code_def]])
  then show "room_id room = env_uuid env" "is_private room = hidden"
    "invite_code room \<notin> set taken" "normalize_invite_code (invite_code room) = Some (invite_code room)"
    using room normalize_hex6 by (auto simp: invite_of_def)
qed

lemma create_room_inv:
  assumes inv: "hub_inv hub" and new: "create_room env hidden hub = Some (s, hub')"
  shows "hub_inv hub'"
proof -
  obtain room where room: "new_room env hidden (taken_codes hub) = Some room"
    and hub': "hub' = hub\<lparr>hub_rooms := hm_insert (room_id room) room (hub_rooms hub)\<rparr>"
    using new by (auto simp: create_room_def split: option.splits)
  note code = new_room_code [OF room]
  have fresh: "invite_code r \<noteq> invite_code room" if "hm_get (hub_rooms hub) k = Some r" for k r
    using code(3) hm_get_in_values [OF that] unfolding taken_codes_def by (metis image_eqI list.set_map)
  show ?thesis
    unfolding hub'
  proof (rule hub_invI)
    show "hm_ok (hub_rooms (hub\<lparr>hub_rooms := hm_insert (room_id room) room (hub_rooms hub)\<rparr>))"
      using hub_invD(1) [OF inv] by simp
  next
    fix k r assume "hm_get (hub_rooms (hub\<lparr>hub_rooms := hm_insert (room_id room) room (hub_rooms hub)\<rparr>)) k = Some r"
    then show "room_id r = k \<and> room_inv r \<and> normalize_invite_code (invite_code r) = Some (invite_code r)"
      using hub_invD(2-4) [OF inv, of k r] code(4) new_room_inv [OF room] by (simp split: if_splits)
  next
    fix k k' r r'
    assume "hm_get (hub_rooms (hub\<lparr>hub_rooms := hm_insert (room_id room) room (hub_rooms hub)\<rparr>)) k = Some r"
      "hm_get (hub_rooms (hub\<lparr>hub_rooms := hm_insert (room_id room) room (hub_rooms hub)\<rparr>)) k' = Some r'"
      "invite_code r = invite_code r'"
    then show "k = k'"
      using hub_invD(5) [OF inv, of k r k' r'] fresh [of k r] fresh [of k' r'] by (simp split: if_splits)
  qed
qed

lemma create_limited_inv:
  assumes inv: "hub_inv hub" and "create_room_limited env session ip hidden hub = Some (r, hub')"
  shows "hub_inv hub'"
proof -
  obtain e abuse tel where c: "consume_room_creation (hub_limits hub) session ip (env_now env)
      (hub_abuse hub, hub_telemetry hub) = (e, abuse, tel)" by (metis prod_cases3)
  let ?hub = "hub\<lparr>hub_abuse := abuse, hub_telemetry := tel\<rparr>"
  have inv': "hub_inv ?hub" by (rule hub_inv_same [OF inv]) simp
  show ?thesis
    using assms(2) inv' create_room_inv [OF inv']
    by (auto simp: create_room_limited_def c Let_def split: option.splits)
qed

lemma hub_step_inv: "hub_inv hub \<Longrightarrow> hub_inv (hub_step lower hub e)"
proof (cases e)
  case (HubCreate env session ip hidden)
  then show "hub_inv hub \<Longrightarrow> hub_inv (hub_step lower hub e)"
    using create_limited_inv by (auto split: option.split)
next
  case (HubQuickJoin env session ip)
  then show "hub_inv hub \<Longrightarrow> hub_inv (hub_step lower hub e)"
    using create_limited_inv by (auto simp: quick_join_limited_def split: option.splits)
next
  case (HubRoom rid env ev)
  have "room_inv (room_apply lower env ev room)" if "room_inv room" for room
    using room_step_inv [OF that, of lower "(env, ev)"] by (simp add: room_step_def)
  with HubRoom show "hub_inv hub \<Longrightarrow> hub_inv (hub_step lower hub e)"
    by (simp add: on_room_inv room_apply_label)
next
  case (HubEquipCosmetic owner c)
  have "same_label room (equip_cosmetic_room owner c room)" for room
    using room_apply_label [of room lower undefined "EvEquipCosmetic owner c"] by simp
  with HubEquipCosmetic show "hub_inv hub \<Longrightarrow> hub_inv (hub_step lower hub e)"
    by (simp add: equip_cosmetic_def map_rooms_inv equip_room_inv)
next
  case (HubEquipAvatar owner a)
  have "same_label room (equip_avatar_room owner a room)" for room
    using room_apply_label [of room lower undefined "EvEquipAvatar owner a"] by simp
  with HubEquipAvatar show "hub_inv hub \<Longrightarrow> hub_inv (hub_step lower hub e)"
    by (simp add: equip_avatar_def map_rooms_inv equip_room_inv)
next
  case (HubReserve session ip)
  then show "hub_inv hub \<Longrightarrow> hub_inv (hub_step lower hub e)"
    by (auto intro: hub_inv_same split: prod.split)
next
  case (HubRelease session ip)
  then show "hub_inv hub \<Longrightarrow> hub_inv (hub_step lower hub e)" by (auto intro: hub_inv_same)
next
  case (HubCleanup now)
  assume inv: "hub_inv hub"
  have "hub_inv (snd (cleanup_at now hub))"
  proof (rule hub_inv_relabel [OF inv])
    show "hm_ok (hub_rooms (snd (cleanup_at now hub)))"
      using hub_invD(1) [OF inv] by (simp add: cleanup_at_def Let_def hm_ok_fold_remove)
    fix k room' assume "hm_get (hub_rooms (snd (cleanup_at now hub))) k = Some room'"
    then show "\<exists>room. hm_get (hub_rooms hub) k = Some room \<and> same_label room room' \<and> room_inv room'"
      using hub_invD(3) [OF inv] by (auto simp: cleanup_at_def Let_def fold_hm_remove split: if_splits)
  qed
  with HubCleanup show "hub_inv (hub_step lower hub e)" by simp
next
  case (HubTelemetry reset)
  then show "hub_inv hub \<Longrightarrow> hub_inv (hub_step lower hub e)"
    by (auto simp: telemetry_snapshot_def intro: hub_inv_same)
qed

interpretation hub: invariant_machine "hub_step lower" hub_inv
  by unfold_locales (rule hub_step_inv)

lemma hub_run_inv: "hub_inv (hub_run lower limits es)"
  unfolding hub_run_def by (rule hub.run_inv) (simp add: new_hub_def hub_inv_def)

section \<open>Lookup by invite code\<close>

text \<open>
  C36: in every state of the hub the invite codes are unique and a room is found by its code, in upper
  or lower case and with white space around it: \<open>join_by_code\<close> answers with the room that carries the
  code unless it is full, and with no room exactly when no room carries it.
\<close>

theorem cafe_invite_roundtrip:
  fixes es :: "cafe_hub_event list" and lower :: "ustr \<Rightarrow> ustr" and limits :: cafe_security_config
  defines "hub \<equiv> hub_run lower limits es"
  assumes room: "hm_get (hub_rooms hub) rid = Some room"
    and code: "normalize_invite_code text = Some (invite_code room)"
  shows "room_id room = rid \<and> find_by_invite_code text hub =
      (if length (players room) < room_capacity then Inr (room_summary room) else Inl RoomFull)"
proof -
  have inv: "hub_inv hub" unfolding hub_def by (rule hub_run_inv)
  have "find (\<lambda>r. invite_code r = invite_code room) (hm_values (hub_rooms hub)) = Some room"
  proof -
    have "room \<in> set (hm_values (hub_rooms hub))" by (rule hm_get_in_values [OF room])
    then obtain r where r: "find (\<lambda>r. invite_code r = invite_code room) (hm_values (hub_rooms hub)) = Some r"
      using find_exists [of "hm_values (hub_rooms hub)" "\<lambda>r. invite_code r = invite_code room"] by blast
    have "r \<in> set (hm_values (hub_rooms hub))" and c: "invite_code r = invite_code room"
      using find_Some_in [OF r] by simp_all
    then obtain k where k: "hm_get (hub_rooms hub) k = Some r" using hub_get [OF hub_invD(1) [OF inv]] by blast
    have "k = rid" by (rule hub_invD(5) [OF inv k room c])
    then show ?thesis using k room r by simp
  qed
  then show ?thesis
    using code hub_invD(2) [OF inv room] by (simp add: find_by_invite_code_def)
qed

definition demo_hub :: cafe_hub where
  "demo_hub = hub_run id demo_cafe_limits [HubCreate demo_env 1 [] False]"

lemma demo_hub_rooms: "hub_rooms demo_hub = [(7, demo_room)]"
proof -
  have "fst (consume_room_creation demo_cafe_limits 1 [] 0 (abuse_default, telemetry_default)) = None"
    by (simp add: consume_room_creation_def abuse_default_def prune_creation_buckets_def
        creation_identities_def Let_def)
  then obtain abuse tel where c:
    "consume_room_creation demo_cafe_limits 1 [] 0 (abuse_default, telemetry_default) = (None, abuse, tel)"
    by (metis prod.collapse)
  have "room_id demo_room = 7" using new_room_code(1) [OF demo_room_new] by (simp add: demo_env_def)
  then show ?thesis
    using demo_room_new c
    by (simp add: demo_hub_def hub_run_def new_hub_def create_room_limited_def create_room_def taken_codes_def
        demo_env_def hm_values_def hm_insert_def Let_def)
qed

theorem cafe_invite_roundtrip_witness:
  "find_by_invite_code (invite_code demo_room) demo_hub = Inr (room_summary demo_room)"
proof -
  have room: "hm_get (hub_rooms (hub_run id demo_cafe_limits [HubCreate demo_env 1 [] False])) 7 = Some demo_room"
    using demo_hub_rooms by (simp add: demo_hub_def hm_get_def)
  show ?thesis
    using cafe_invite_roundtrip [OF room new_room_code(4) [OF demo_room_new]] demo_room_empty
    by (simp add: demo_hub_def room_capacity_def)
qed

section \<open>The public list and the quick join\<close>

text \<open>
  The public list holds exactly the rooms that are public and not full, the fullest first and rooms
  of the same size by id; private rooms never appear.
\<close>

theorem cafe_public_list:
  fixes es :: "cafe_hub_event list" and lower :: "ustr \<Rightarrow> ustr" and limits :: cafe_security_config
  defines "hub \<equiv> hub_run lower limits es"
  shows "(\<forall>s. s \<in> set (list_public_rooms hub) \<longleftrightarrow>
      (\<exists>rid room. hm_get (hub_rooms hub) rid = Some room \<and> \<not> is_private room \<and>
         length (players room) < 8 \<and> s = room_summary room)) \<and>
    sorted_wrt (\<lambda>s t. sum_player_count t < sum_player_count s \<or>
      sum_player_count s = sum_player_count t \<and> sum_id s \<le> sum_id t) (list_public_rooms hub)"
proof -
  have ok: "hm_ok (hub_rooms hub)" unfolding hub_def by (rule hub_invD(1) [OF hub_run_inv])
  have "sorted_wrt (\<lambda>s t. (- int (sum_player_count s), sum_id s) \<le> (- int (sum_player_count t), sum_id t))
      (list_public_rooms hub)"
    using sorted_sort_key [of "\<lambda>s. (- int (sum_player_count s), sum_id s)"
        "map room_summary (filter joinable (hm_values (hub_rooms hub)))"]
    unfolding list_public_rooms_def sorted_map .
  then have "sorted_wrt (\<lambda>s t. sum_player_count t < sum_player_count s \<or>
      sum_player_count s = sum_player_count t \<and> sum_id s \<le> sum_id t) (list_public_rooms hub)"
    by (rule sorted_wrt_mono_rel [rotated]) auto
  then show ?thesis
    by (auto simp: list_public_rooms_def joinable_def room_capacity_def hub_get [OF ok])
qed

lemma max_by_key_None: "max_by_key f xs = None \<longleftrightarrow> xs = []"
  by (cases xs) (auto split: option.splits)

lemma max_by_key_Some: "max_by_key f xs = Some x \<Longrightarrow> x \<in> set xs \<and> (\<forall>y\<in>set xs. f y \<le> f x)"
  by (induction xs arbitrary: x) (fastforce simp: max_by_key_None split: option.splits if_splits)+

text \<open>
  A quick join answers with a public room that has a free place, and none of those has more players;
  it creates a room, charged to the session and its address, only when there is none.
\<close>

theorem cafe_quick_join_fullest:
  fixes es :: "cafe_hub_event list" and lower :: "ustr \<Rightarrow> ustr" and limits :: cafe_security_config
  defines "hub \<equiv> hub_run lower limits es"
  shows "if \<exists>rid room. hm_get (hub_rooms hub) rid = Some room \<and> joinable room
    then (\<exists>rid room. hm_get (hub_rooms hub) rid = Some room \<and> joinable room \<and>
      (\<nexists>rid' room'. hm_get (hub_rooms hub) rid' = Some room' \<and> joinable room' \<and>
         length (players room) < length (players room')) \<and>
      quick_join_limited env session ip hub = Some (Inr (room_summary room), hub))
    else quick_join_limited env session ip hub = create_room_limited env session ip False hub"
proof -
  have ok: "hm_ok (hub_rooms hub)" unfolding hub_def by (rule hub_invD(1) [OF hub_run_inv])
  let ?rooms = "filter joinable (hm_values (hub_rooms hub))"
  have rooms: "r \<in> set ?rooms \<longleftrightarrow> (\<exists>k. hm_get (hub_rooms hub) k = Some r) \<and> joinable r" for r
    using hub_get [OF ok] by auto
  show ?thesis
  proof (cases "max_by_key (\<lambda>room. length (players room)) ?rooms")
    case None
    then have "?rooms = []" by (simp only: max_by_key_None)
    then have "\<not> (\<exists>rid room. hm_get (hub_rooms hub) rid = Some room \<and> joinable room)"
      using rooms by (metis empty_iff list.set(1))
    then show ?thesis unfolding quick_join_limited_def None by (simp only: if_False option.case)
  next
    case (Some room)
    from max_by_key_Some [OF this] have m: "room \<in> set ?rooms"
      "\<forall>y\<in>set ?rooms. length (players y) \<le> length (players room)" by simp_all
    then obtain k where k: "hm_get (hub_rooms hub) k = Some room" "joinable room" using rooms by blast
    have "length (players r) \<le> length (players room)" if "hm_get (hub_rooms hub) k' = Some r" "joinable r" for k' r
      using m(2) rooms that by blast
    moreover have "quick_join_limited env session ip hub = Some (Inr (room_summary room), hub)"
      unfolding quick_join_limited_def Some by simp
    ultimately show ?thesis using k by (metis (full_types) leD)
  qed
qed

section \<open>Cleanup\<close>

text \<open>
  A cleanup removes exactly the rooms that are empty and whose time is over, counts them, and leaves
  every other room as it is: a room with a player in it is never removed.
\<close>

theorem cafe_cleanup_exact:
  fixes es :: "cafe_hub_event list" and lower :: "ustr \<Rightarrow> ustr" and limits :: cafe_security_config
  defines "hub \<equiv> hub_run lower limits es"
  shows "hm_get (hub_rooms (snd (cleanup_at now hub))) rid =
      (case hm_get (hub_rooms hub) rid of
         None \<Rightarrow> None
       | Some room \<Rightarrow>
           if players room = [] \<and>
              (if ever_joined room
               then (\<exists>t. empty_since room = Some t \<and> secs (empty_room_ttl_seconds (hub_limits hub)) \<le> now - t)
               else secs (never_joined_ttl_seconds (hub_limits hub)) \<le> now - created_at room)
           then None else Some room) \<and>
    fst (cleanup_at now hub) + length (hub_rooms (snd (cleanup_at now hub))) = length (hub_rooms hub)"
proof
  let ?P = "\<lambda>e. room_expired (hub_limits hub) now (snd e)"
  have ok: "hm_ok (hub_rooms hub)" unfolding hub_def by (rule hub_invD(1) [OF hub_run_inv])
  have mem: "rid \<in> fst ` {e \<in> set (hub_rooms hub). ?P e} \<longleftrightarrow>
      (\<exists>room. hm_get (hub_rooms hub) rid = Some room \<and> room_expired (hub_limits hub) now room)" for rid
    using hm_get_eq_in_set [OF ok] by (force simp: image_iff)
  have expired: "room_expired (hub_limits hub) now room \<longleftrightarrow> players room = [] \<and>
      (if ever_joined room
       then (\<exists>t. empty_since room = Some t \<and> secs (empty_room_ttl_seconds (hub_limits hub)) \<le> now - t)
       else secs (never_joined_ttl_seconds (hub_limits hub)) \<le> now - created_at room)" for room
    by (auto simp: room_expired_def duration_since_def split: option.split)
  show "hm_get (hub_rooms (snd (cleanup_at now hub))) rid =
      (case hm_get (hub_rooms hub) rid of
         None \<Rightarrow> None
       | Some room \<Rightarrow>
           if players room = [] \<and>
              (if ever_joined room
               then (\<exists>t. empty_since room = Some t \<and> secs (empty_room_ttl_seconds (hub_limits hub)) \<le> now - t)
               else secs (never_joined_ttl_seconds (hub_limits hub)) \<le> now - created_at room)
           then None else Some room)"
    unfolding expired [symmetric]
    using mem [of rid] by (auto simp: cleanup_at_def Let_def fold_hm_remove split: option.split)
  have filt: "fold hm_remove (map fst (filter ?P m)) m = filter (\<lambda>e. \<not> ?P e) m" if "hm_ok m" for m :: "(uuid, cafe_room) hash_map"
  proof -
    have "fold hm_remove ks m = filter (\<lambda>e. fst e \<notin> set ks) m" for ks
      by (induction ks arbitrary: m) (auto simp: hm_remove_filter intro: filter_cong)
    moreover have "fst e \<in> set (map fst (filter ?P m)) \<longleftrightarrow> ?P e" if e: "e \<in> set m" for e
    proof
      assume "fst e \<in> set (map fst (filter ?P m))"
      then obtain e' where e': "e' \<in> set m" "fst e' = fst e" "?P e'" by auto
      then have "e' = e" using \<open>hm_ok m\<close> e unfolding hm_ok_def by (metis eq_key_imp_eq_value prod.collapse)
      then show "?P e" using e'(3) by simp
    qed (use e in auto)
    then have "filter (\<lambda>e. fst e \<notin> set (map fst (filter ?P m))) m = filter (\<lambda>e. \<not> ?P e) m"
      by (intro filter_cong) blast+
    ultimately show ?thesis by (simp only:)
  qed
  show "fst (cleanup_at now hub) + length (hub_rooms (snd (cleanup_at now hub))) = length (hub_rooms hub)"
    using filt [OF ok] sum_length_filter_compl [of ?P "hub_rooms hub"] by (simp add: cleanup_at_def Let_def)
qed

end
