(* ===== verification/Cafe_Protocol.thy ===== *)
theory Cafe_Protocol
  imports Cafe_Room_Props
begin

text \<open>
  What the sockets of a room can rely on: a connection that was replaced or closed changes nothing,
  the revisions of the snapshots and of the movement updates grow, and a round is reported as
  completed at most once.
\<close>

section \<open>Stale connections\<close>

text \<open>The events that a socket sends for its player, and the connection that sends them.\<close>

fun event_sender :: "cafe_room_event \<Rightarrow> (uuid \<times> uuid) option" where
  "event_sender (EvLeave pid conn) = Some (pid, conn)"
| "event_sender (EvMove pid conn _ _ _ _ _) = Some (pid, conn)"
| "event_sender (EvEmote pid conn _) = Some (pid, conn)"
| "event_sender (EvChat pid conn _) = Some (pid, conn)"
| "event_sender (EvInteract pid conn _) = Some (pid, conn)"
| "event_sender _ = None"

definition current_connection_id :: "uuid \<Rightarrow> cafe_room \<Rightarrow> uuid option" where
  "current_connection_id pid room = map_option connection_id (hm_get (players room) pid)"

text \<open>
  A socket whose connection is no longer the current one of its player (another socket of the
  session joined later, or the player has left) changes nothing in the room with any message, and its
  closing removes nobody.
\<close>

theorem cafe_stale_connection_ignored:
  assumes "event_sender ev = Some (pid, conn)" and "current_connection_id pid room \<noteq> Some conn"
  shows "room_apply lower env ev room = room"
  using assms
  by (cases ev) (auto simp: current_connection_id_def leave_room_def update_player_for_connection_def
      emote_for_connection_def chat_for_connection_def interact_for_connection_def
      split: option.splits sum.splits)

theorem cafe_stale_connection_ignored_witness:
  "room_apply id demo_env (EvLeave 1 99) demo_rush = demo_rush"
proof (rule cafe_stale_connection_ignored)
  show "event_sender (EvLeave 1 99) = Some (1, 99)" by simp
  show "current_connection_id 1 demo_rush \<noteq> Some 99"
    by (simp add: current_connection_id_def demo_rush_def room_run_def room_step_def join_room_def Let_def
        demo_room_empty hm_get_def hm_insert_def new_player_with_avatar_def demo_identity_def demo_env_def)
qed

section \<open>Revisions\<close>

text \<open>
  The revisions a room has sent: those of its snapshots in the order of the broadcast channel. The
  movement updates carry the revision of the room when they are made.
\<close>

fun snapshot_revision :: "cafe_server_message \<Rightarrow> nat option" where
  "snapshot_revision (MsgSnapshot r s) = Some r"
| "snapshot_revision _ = None"

definition sent_revisions :: "cafe_room \<Rightarrow> nat list" where
  "sent_revisions room = List.map_filter snapshot_revision (sent room)"

lemma map_filter_append: "List.map_filter f (xs @ ys) = List.map_filter f xs @ List.map_filter f ys"
  by (induction xs) (auto simp: map_filter_simps split: option.split)

text \<open>The relation of a room to a later state of it; growth is strict below the saturation of the counter.\<close>

definition revised :: "cafe_room \<Rightarrow> cafe_room \<Rightarrow> nat list \<Rightarrow> bool" where
  "revised room room' rs \<longleftrightarrow> revision room \<le> revision room' \<and> revision room' < 2 ^ 64 \<and>
     sent_revisions room' = sent_revisions room @ rs \<and>
     (revision room' < 2 ^ 64 - 1 \<longrightarrow> sorted_wrt (<) rs \<and> (\<forall>r\<in>set rs. revision room < r \<and> r \<le> revision room'))"

definition advances :: "cafe_room \<Rightarrow> cafe_room \<Rightarrow> bool" where
  "advances room room' \<longleftrightarrow> (revision room < 2 ^ 64 \<longrightarrow> (\<exists>rs. revised room room' rs))"

lemma advances_refl [simp]: "advances room room"
  by (auto simp: advances_def revised_def)

lemma revised_trans:
  assumes ab: "revised a b rs" and bc: "revised b c ts"
  shows "revised a c (rs @ ts)"
proof -
  have le: "revision a \<le> revision b" "revision b \<le> revision c" using ab bc by (simp_all add: revised_def)
  have "sorted_wrt (<) (rs @ ts) \<and> (\<forall>r\<in>set (rs @ ts). revision a < r \<and> r \<le> revision c)"
    if "revision c < 2 ^ 64 - 1"
  proof -
    have "revision b < 2 ^ 64 - 1" using le(2) that by (rule le_less_trans)
    with ab bc that have "sorted_wrt (<) rs" "\<forall>r\<in>set rs. revision a < r \<and> r \<le> revision b"
      "sorted_wrt (<) ts" "\<forall>r\<in>set ts. revision b < r \<and> r \<le> revision c"
      unfolding revised_def by blast+
    with le show ?thesis by (fastforce simp: sorted_wrt_append)
  qed
  then show ?thesis using ab bc le unfolding revised_def by simp
qed

lemma advances_trans: "advances a b \<Longrightarrow> advances b c \<Longrightarrow> advances a c"
  unfolding advances_def using revised_trans by (metis revised_def)

lemma advances_quiet:
  assumes "revision room' = revision room" and "sent room' = sent room @ ms"
    and "\<forall>m\<in>set ms. snapshot_revision m = None"
  shows "advances room room'"
proof -
  have "List.map_filter snapshot_revision ms = []" using assms(3) by (induction ms) (auto simp: map_filter_simps)
  then show ?thesis
    using assms by (simp add: advances_def revised_def sent_revisions_def map_filter_append)
qed

lemma advances_send: "snapshot_revision m = None \<Longrightarrow> advances room (send m room)"
  by (rule advances_quiet [of _ _ "[m]"]) simp_all

lemma sat_add_step:
  assumes "a < 2 ^ w"
  shows "a \<le> sat_add w a 1" "sat_add w a 1 < 2 ^ w" "sat_add w a 1 < 2 ^ w - 1 \<Longrightarrow> sat_add w a 1 = Suc a"
  using assms sat_add_bound [of w a 1] by (auto simp: sat_add_def min_def split: if_splits)

lemma advances_movement: "advances room (broadcast_room_movement room)"
  using sat_add_step [of "revision room" 64] by (auto simp: advances_def revised_def sent_revisions_def)

lemma advances_snapshot: "advances room (broadcast_room_snapshot room)"
proof -
  have "sent_revisions (broadcast_room_snapshot room) = sent_revisions room @ [sat_add 64 (revision room) 1]"
    by (simp add: sent_revisions_def broadcast_room_snapshot_def Let_def next_room_revision_def
        map_filter_append map_filter_simps)
  then show ?thesis
    using sat_add_step [of "revision room" 64] by (force simp: advances_def revised_def)
qed

text \<open>Changes of the rest of a room, as steps before a broadcast.\<close>

lemma advances_from:
  assumes "revision room = revision base" "sent room = sent base" and "advances room room'"
  shows "advances base room'"
  using assms by (simp add: advances_def revised_def sent_revisions_def)

lemma advances_to:
  assumes "advances base room" and "revision room' = revision room" "sent room' = sent room"
  shows "advances base room'"
  using assms by (simp add: advances_def revised_def sent_revisions_def)

lemma advances_say: "advances room (broadcast_room_snapshot (dialogue k e room))"
  by (rule advances_trans [OF _ advances_snapshot]) (simp add: dialogue_def advances_send)

lemma advances_chat: "advances room (push_chat_event e room)"
  by (rule advances_quiet [of _ _ "[MsgChatEvent e]"]) simp_all

lemma advances_left: "advances room (push_left_event env i n room)"
  unfolding push_left_event_def by (rule advances_chat)

lemma advances_dialogue: "advances room (dialogue k e room)"
  by (simp add: dialogue_def advances_send)

section \<open>Every event advances the room\<close>

lemma join_advances: "advances room (snd (join_room env player room))"
proof -
  let ?p = "\<lambda>player'. room\<lparr>players := hm_insert (player_id player) player' (players room),
    ever_joined := True, empty_since := None\<rparr>"
  have s: "advances room (broadcast_room_snapshot (?p player'))" for player'
    by (rule advances_from [OF _ _ advances_snapshot]) simp_all
  have c: "advances room (push_chat_event e (broadcast_room_snapshot (?p player')))" for e player'
    by (rule advances_trans [OF s advances_chat])
  have t: "advances room (room'\<lparr>tick_running := True\<rparr>)" if "advances room room'" for room'
    by (rule advances_to [OF that]) simp_all
  show ?thesis
    using s c t by (auto simp: join_room_def Let_def)
qed

lemma leave_advances: "advances room (leave_room env pid conn room)"
proof (cases "hm_get (players room) pid")
  case None
  then show ?thesis by (simp add: leave_room_def)
next
  case (Some p)
  define room1 where "room1 = room\<lparr>players := hm_remove pid (players room),
    activity := (case carried_order_id p of
        None \<Rightarrow> fold restore_ingredient (carried_rush_ingredient_ids p) (activity room)
      | Some i \<Rightarrow> restore_order pid i (fold restore_ingredient (carried_rush_ingredient_ids p) (activity room)))\<rparr>"
  have r1: "revision room1 = revision room" "sent room1 = sent room" by (simp_all add: room1_def)
  have "advances room ((push_left_event env pid (player_name p) room1)
      \<lparr>movement_dirty := False, empty_since := Some (env_now env), tick_running := False\<rparr>)"
    by (rule advances_to [OF advances_from [OF r1 advances_left]]) simp_all
  moreover have "advances room (push_left_event env pid (player_name p) (broadcast_room_snapshot room1))"
    by (rule advances_from [OF r1 advances_trans [OF advances_snapshot advances_left]])
  moreover have "leave_room env pid conn room =
    (if connection_id p \<noteq> conn then room
     else if players room1 = []
     then (push_left_event env pid (player_name p) room1)
            \<lparr>movement_dirty := False, empty_since := Some (env_now env), tick_running := False\<rparr>
     else push_left_event env pid (player_name p) (broadcast_room_snapshot room1))"
    using Some by (simp add: leave_room_def Let_def room1_def)
  ultimately show ?thesis by (simp only: advances_refl simp_thms split: if_split)
qed

lemma interact_advances: "advances room (snd (interact_for_connection env pid conn target room))"
proof -
  have serve: "advances room (snd (serve_claimed_order env pid pos target room))" for pos
    by (auto simp: serve_claimed_order_def Let_def case_prod_beta intro!: advances_from [OF _ _ advances_say]
        split: option.split)
  have pick: "advances room (pick_up_order key pid ord room)" for key ord
    unfolding pick_up_order_def by (rule advances_from [OF _ _ advances_say]) simp_all
  have prepare: "advances room (prepare_order pid room)"
    unfolding prepare_order_def by (rule advances_from [OF _ _ advances_say]) simp_all
  have collect: "advances room (collect_leaf pid pos l room)" for pos l
    unfolding collect_leaf_def Let_def by (auto intro!: advances_from [OF _ _ advances_say])
  have deliver: "advances room (snd (deliver_tea env pid room))"
    by (auto simp: deliver_tea_def Let_def case_prod_beta
        intro!: advances_from [OF _ _ advances_say] advances_from [OF _ _ advances_dialogue])
  have service: "advances room (snd (interact_table_service env pid pos target room))" for pos
    using serve pick advances_dialogue by (simp add: interact_table_service_def split: option.split)
  have rush: "advances room (snd (interact_cafe_rush env pid pos target room))" for pos
    using serve pick prepare advances_dialogue by (simp add: interact_cafe_rush_def Let_def split: option.split)
  show ?thesis
    using service rush collect deliver advances_dialogue
    by (auto simp: interact_for_connection_def Let_def simp del: target_positions split: option.split)
qed

lemma room_apply_advances: "advances room (room_apply lower env ev room)"
proof (cases ev)
  case (EvReward ids stars)
  have "advances room (reward_players ids stars room)" for room
  proof (induction ids arbitrary: room)
    case (Cons i ids)
    have "advances room (send (MsgReward i stars) room)" by (rule advances_send) simp
    from advances_trans [OF this Cons.IH] show ?case by (simp add: reward_players_def)
  qed (simp add: reward_players_def)
  with EvReward show ?thesis by simp
next
  case (EvMove pid conn x y d b k)
  then show ?thesis
    by (auto simp: update_player_for_connection_def intro!: advances_to [OF advances_refl] split: option.split)
next
  case EvFlush
  then show ?thesis by (simp add: flush_dirty_movement_def advances_movement)
next
  case (EvEmote pid conn e)
  then show ?thesis by (simp add: emote_for_connection_def advances_send split: option.split)
next
  case (EvChat pid conn t)
  then show ?thesis by (simp add: chat_for_connection_def advances_chat split: option.split sum.split)
next
  case (EvNextRound n)
  show ?thesis
    unfolding EvNextRound
    by (auto simp: start_next_round_def Let_def
        intro!: advances_trans [OF advances_from [OF _ _ advances_snapshot] advances_dialogue])
next
  case (EvExpireRush n)
  show ?thesis
    unfolding EvExpireRush
    by (auto simp: expire_cafe_rush_def Let_def intro!: advances_trans [OF _ advances_snapshot]
        advances_to [OF advances_from [OF _ _ advances_dialogue]] advances_from [OF _ _ advances_dialogue])
next
  case (EvEquipCosmetic o c)
  have "advances room (broadcast_room_snapshot (room\<lparr>players := ps\<rparr>))" for ps
    by (rule advances_from [OF _ _ advances_snapshot]) simp_all
  moreover have "advances room (room\<lparr>players := ps\<rparr>)" for ps
    by (rule advances_to [OF advances_refl]) simp_all
  ultimately show ?thesis
    unfolding EvEquipCosmetic room_apply.simps equip_cosmetic_room_def Let_def by (simp only: simp_thms split: if_split)
next
  case (EvEquipAvatar o a)
  have "advances room (broadcast_room_snapshot (room\<lparr>players := ps\<rparr>))" for ps
    by (rule advances_from [OF _ _ advances_snapshot]) simp_all
  moreover have "advances room (room\<lparr>players := ps\<rparr>)" for ps
    by (rule advances_to [OF advances_refl]) simp_all
  ultimately show ?thesis
    unfolding EvEquipAvatar room_apply.simps equip_avatar_room_def Let_def by (simp only: simp_thms split: if_split)
qed (simp_all add: join_advances leave_advances interact_advances)



section \<open>Completed rounds\<close>

text \<open>The round an event reports as completed: the socket that sent it rewards the owners it names.\<close>

fun event_completion :: "cafe_env \<Rightarrow> cafe_room_event \<Rightarrow> cafe_room \<Rightarrow> nat option" where
  "event_completion env (EvInteract pid conn target) room =
     completed_round (fst (interact_for_connection env pid conn target room))"
| "event_completion env _ room = None"

fun completions :: "(ustr \<Rightarrow> ustr) \<Rightarrow> cafe_room \<Rightarrow> (cafe_env \<times> cafe_room_event) list \<Rightarrow> nat list" where
  "completions lower room [] = []"
| "completions lower room (e # es) =
     (case event_completion (fst e) (snd e) room of None \<Rightarrow> [] | Some n \<Rightarrow> [n])
       @ completions lower (room_step lower room e) es"

text \<open>
  \<open>clock\<close> orders the phases of the rounds: it grows with every completion and never goes back.
\<close>

definition clock :: "cafe_room \<Rightarrow> nat" where
  "clock room = 2 * round_number (activity room) + (if act_phase (activity room) = Intermission then 1 else 0)"

lemma clock_same: "round_number (activity room') = round_number (activity room) \<Longrightarrow>
    act_phase (activity room') = act_phase (activity room) \<Longrightarrow> clock room' = clock room"
  by (simp add: clock_def)

lemma count_combo_round [simp]: "round_number (count_combo env a) = round_number a"
  by (simp add: count_combo_def Let_def)

text \<open>What an interaction may report: nothing, or the round that is played, which it ends.\<close>

definition completes :: "cafe_room \<Rightarrow> cafe_interaction_result \<times> cafe_room \<Rightarrow> bool" where
  "completes room r \<longleftrightarrow>
     (case completed_round (fst r) of
        None \<Rightarrow> clock (snd r) = clock room
      | Some n \<Rightarrow> n = round_number (activity room) \<and> act_phase (activity room) = Active
          \<and> clock (snd r) = Suc (clock room))"

lemma completes_none [intro]: "clock room' = clock room \<Longrightarrow> completes room (interaction_none, room')"
  by (simp add: completes_def interaction_none_def)

lemma quiet_clock [simp]:
  "clock (pick_up_order key pid ord room) = clock room" "clock (prepare_order pid room) = clock room"
  "clock (collect_leaf pid pos l room) = clock room" "clock (dialogue k e room) = clock room"
  by (simp_all add: clock_def pick_up_order_def prepare_order_def collect_leaf_def Let_def set_order_status_def)

lemma serve_completes:
  "act_phase (activity room) = Active \<Longrightarrow> completes room (serve_claimed_order env pid pos target room)"
  by (auto simp: serve_claimed_order_def completes_def interaction_none_def Let_def case_prod_beta clock_def
      split: option.split)

lemma deliver_completes: "act_phase (activity room) = Active \<Longrightarrow> completes room (deliver_tea env pid room)"
  by (auto simp: deliver_tea_def completes_def interaction_none_def Let_def case_prod_beta clock_def
      split: option.split)

lemma interact_completes: "completes room (interact_for_connection env pid conn target room)"
proof (cases "act_phase (activity room)")
  case Intermission
  then show ?thesis
    by (auto simp: interact_for_connection_def Let_def split: option.split)
next
  case Active
  note parts = serve_completes [OF Active] deliver_completes [OF Active]
  have service: "completes room (interact_table_service env pid pos target' room)" for pos target'
    by (auto simp: interact_table_service_def parts split: option.split)
  have rush: "completes room (interact_cafe_rush env pid pos target' room)" for pos target'
    by (auto simp: interact_cafe_rush_def Let_def parts split: option.split)
  show ?thesis
    using Active
    by (auto simp: interact_for_connection_def Let_def service rush parts simp del: target_positions
        split: option.split)
qed

text \<open>Every event: the clock never goes back while the 32-bit round number has not saturated.\<close>

definition rounds_left :: "cafe_room \<Rightarrow> bool" where
  "rounds_left room \<longleftrightarrow> round_number (activity room) < 2 ^ 32 - 1"

lemma start_round_clock:
  assumes "round_number (activity room) < 2 ^ 32"
  shows "round_number (activity (snd (snd (start_next_round env n room)))) < 2 ^ 32"
    and "rounds_left (snd (snd (start_next_round env n room))) \<Longrightarrow>
      clock room \<le> clock (snd (snd (start_next_round env n room)))"
    and "round_number (activity room) \<le> round_number (activity (snd (snd (start_next_round env n room))))"
proof -
  have r: "round_number (for_round now k m) = k" "act_phase (for_round now k m) = Active" for now k m
    by (simp_all add: for_round_def tea_delivery_def table_service_def cafe_rush_def Let_def)
  show "round_number (activity (snd (snd (start_next_round env n room)))) < 2 ^ 32"
    using assms sat_add_step(2) [of n 32] by (auto simp: start_next_round_def Let_def r)
  show "clock room \<le> clock (snd (snd (start_next_round env n room)))"
    if "rounds_left (snd (snd (start_next_round env n room)))"
    using assms that sat_add_step(3) [of n 32]
    by (auto simp: start_next_round_def Let_def r clock_def rounds_left_def split: if_splits)
  show "round_number (activity room) \<le> round_number (activity (snd (snd (start_next_round env n room))))"
    using assms sat_add_step(1) [of n 32] by (auto simp: start_next_round_def Let_def r)
qed

lemma other_clock:
  assumes "\<And>n. ev \<noteq> EvNextRound n" and "\<And>pid conn t. ev \<noteq> EvInteract pid conn t"
  shows "round_number (activity (room_apply lower env ev room)) = round_number (activity room) \<and>
    clock room \<le> clock (room_apply lower env ev room)"
proof -
  have restore: "round_number (fold restore_ingredient is a) = round_number a" for "is" a
    by (induction "is" arbitrary: a) (simp_all add: restore_ingredient_def)
  have reward: "activity (reward_players ids stars room) = activity room" for ids stars
    by (induction ids arbitrary: room) (simp_all add: reward_players_def)
  have leave: "round_number (activity (leave_room env pid conn room)) = round_number (activity room) \<and>
      act_phase (activity (leave_room env pid conn room)) = act_phase (activity room)" for pid conn
    using restore fold_restore_simps
    by (auto simp: leave_room_def Let_def restore_order_def split: option.split)
  show ?thesis
    using assms leave
    by (cases ev)
      (auto simp: join_room_def update_player_for_connection_def flush_dirty_movement_def emote_for_connection_def
        chat_for_connection_def expire_cafe_rush_def equip_cosmetic_room_def equip_avatar_room_def
        reward Let_def clock_def split: option.split sum.split)
qed

text \<open>One step: a reported round is the one that was played, and the clock passes it.\<close>

lemma step_clock:
  fixes lower :: "ustr \<Rightarrow> ustr" and e :: "cafe_env \<times> cafe_room_event"
  assumes "round_number (activity room) < 2 ^ 32"
  defines "room' \<equiv> room_step lower room e"
  shows "round_number (activity room') < 2 ^ 32" and "round_number (activity room) \<le> round_number (activity room')"
    and "rounds_left room' \<Longrightarrow> clock room \<le> clock room'"
    and "event_completion (fst e) (snd e) room = Some n \<Longrightarrow> clock room = 2 * n \<and> clock room' = Suc (2 * n)"
proof -
  obtain env ev where e: "e = (env, ev)" by (cases e)
  note defs = room'_def room_step_def e
  have next_round: "ev = EvNextRound k \<Longrightarrow> room' = snd (snd (start_next_round env k room))" for k
    by (simp add: defs)
  have play: "ev = EvInteract pid conn t \<Longrightarrow> room' = snd (interact_for_connection env pid conn t room)" for pid conn t
    by (simp add: defs)
  have rnd: "ev = EvInteract pid conn t \<Longrightarrow> round_number (activity room') = round_number (activity room)
      \<and> clock room \<le> clock room'" for pid conn t
    using interact_completes [of room env pid conn t] play [of pid conn t]
    by (auto simp: completes_def clock_def split: option.splits if_splits) presburger
  consider k where "ev = EvNextRound k" | pid conn t where "ev = EvInteract pid conn t"
    | "\<And>k. ev \<noteq> EvNextRound k" "\<And>pid conn t. ev \<noteq> EvInteract pid conn t" by blast
  then show "round_number (activity room') < 2 ^ 32" "round_number (activity room) \<le> round_number (activity room')"
    "rounds_left room' \<Longrightarrow> clock room \<le> clock room'"
    using start_round_clock [OF assms(1)] next_round rnd assms(1) other_clock [of ev lower env room]
    by (cases; simp add: defs)+
  show "clock room = 2 * n \<and> clock room' = Suc (2 * n)" if c: "event_completion (fst e) (snd e) room = Some n"
  proof -
    obtain pid conn t where ev: "ev = EvInteract pid conn t" using c by (cases ev) (auto simp: e)
    show ?thesis
      using interact_completes [of room env pid conn t] c unfolding play [OF ev] ev e
      by (simp add: ev completes_def clock_def)
  qed
qed

text \<open>
  A room reports each round as completed at most once, in the order of the rounds: the numbers
  reported over any run strictly grow (as long as the 32-bit round number has not saturated), so no
  owner is rewarded twice for a round.
\<close>

theorem cafe_rounds_reported_once:
  assumes "round_number (activity room) < 2 ^ 32" and "rounds_left (room_run lower room es)"
  shows "sorted_wrt (<) (completions lower room es) \<and>
    (\<forall>n\<in>set (completions lower room es). clock room \<le> 2 * n)"
  using assms
proof (induction es arbitrary: room)
  case (Cons e es)
  let ?room = "room_step lower room e"
  note step = step_clock [OF Cons.prems(1), where e = e and lower = lower]
  have run: "rounds_left (room_run lower ?room es)" using Cons.prems(2) by (simp add: room_run_def)
  have "round_number (activity r) \<le> round_number (activity (room_run lower r es))"
    if "round_number (activity r) < 2 ^ 32" for r
    using that
  proof (induction es arbitrary: r)
    case (Cons e es)
    show ?case
      using Cons.IH [OF step_clock(1) [OF Cons.prems]] step_clock(2) [OF Cons.prems]
      by (simp add: room_run_def) (rule order.trans)
  qed (simp add: room_run_def)
  from this [OF step(1)] have "rounds_left ?room" using run by (simp add: rounds_left_def)
  note le = step(3) [OF this] and ih = Cons.IH [OF step(1) run]
  show ?case
    using ih le step(4) by (auto split: option.split)
qed (simp add: room_run_def)

theorem cafe_rounds_reported_once_witness:
  "sorted_wrt (<) (completions id demo_rush [(demo_env, EvInteract 1 7 (ascii ''service-counter''))])"
proof -
  have "round_number (activity (room_run id demo_rush [(demo_env, EvInteract 1 7 (ascii ''service-counter''))])) = 3"
  proof -
    have r: "round_number (activity demo_rush) = 3" using demo_rush_activity by (simp add: cafe_rush_def Let_def)
    have "completes demo_rush (interact_for_connection demo_env 1 7 (ascii ''service-counter'') demo_rush)"
      by (rule interact_completes)
    with r show ?thesis
      by (auto simp: room_run_def room_step_def completes_def clock_def split: option.splits if_splits)
  qed
  then show ?thesis
    using cafe_rounds_reported_once [of demo_rush id "[(demo_env, EvInteract 1 7 (ascii ''service-counter''))]"]
      demo_rush_activity
    by (simp add: rounds_left_def cafe_rush_def Let_def)
qed

end
