(* ===== verification/Cafe_Socket.thy ===== *)
theory Cafe_Socket
  imports Cafe_Hub_Props Cafe_Protocol
begin

text \<open>
  A Cafe socket (\<open>handle_cafe_socket\<close>): the join, the welcome, the loop over what its \<open>select!\<close> yields
  and the leave at the end. One turn of the loop is a step on the windows of the socket and on the hub;
  what the turn finds (a revocation, a broadcast, a message, whether the socket still takes what is sent)
  is its input, and what the rest of the server does to the hub between two turns is part of the run. The
  parser of messages (\<open>serde_json\<close>), the length of an encoded message and the store's
  reward call are parameters. A spawned timer is an output; it acts later, as an event of the hub.
\<close>

section \<open>Types\<close>

datatype cafe_client_message =
    ClientMove rat rat direction bool nat
  | ClientInteract ustr
  | ClientEmote ustr
  | ClientChat ustr
  | ClientPing

datatype ws_message = WsText ustr | WsBinary nat | WsPing | WsClose | WsOther

datatype socket_input =
    Revoked uuid
  | RevocationLagged bool
  | RevocationClosed
  | OutboundMessage cafe_server_message
  | ReliableLagged
  | OutboundClosed
  | IncomingMessage ws_message
  | IncomingError bool
  | IncomingEnd

datatype socket_output =
    SendMessage cafe_server_message
  | SendPong
  | SendClose nat string
  | SpawnNextRound nat

record cafe_socket =
  sock_room :: uuid
  sock_player :: uuid
  sock_connection :: uuid
  recent_messages :: "instant list"
  recent_chat_messages :: "instant list"

record socket_params =
  parse_message :: "ustr \<Rightarrow> cafe_client_message option"
  encoded_length :: "cafe_server_message \<Rightarrow> nat"
  lower_case :: "ustr \<Rightarrow> ustr"
  award_round :: "uuid \<Rightarrow> nat \<Rightarrow> owner_scope list \<Rightarrow> uuid list option"

section \<open>Sending\<close>

definition cafe_resync_close_frame :: socket_output where
  "cafe_resync_close_frame = SendClose 1013 ''cafe state resynchronization required''"

definition cafe_message_too_big_close_frame :: socket_output where
  "cafe_message_too_big_close_frame = SendClose 1009 ''cafe message exceeds configured size''"

definition cafe_account_deleted_close_frame :: socket_output where
  "cafe_account_deleted_close_frame = SendClose 1008 ''account deleted''"

definition cafe_message_exceeds_limit :: "ws_message \<Rightarrow> nat \<Rightarrow> bool" where
  "cafe_message_exceeds_limit msg max_bytes =
     (case msg of
        WsText text \<Rightarrow> max_bytes < utf8_len text
      | WsBinary n \<Rightarrow> max_bytes < n
      | _ \<Rightarrow> False)"

definition count_telemetry :: "(cafe_telemetry \<Rightarrow> cafe_telemetry) \<Rightarrow> cafe_hub \<Rightarrow> cafe_hub" where
  "count_telemetry f hub = hub\<lparr>hub_telemetry := f (hub_telemetry hub)\<rparr>"

text \<open>\<open>send_socket_message\<close>: the counters grow when the socket takes the message.\<close>

definition send_socket_message ::
  "socket_params \<Rightarrow> bool \<Rightarrow> cafe_server_message \<Rightarrow> cafe_hub \<Rightarrow> cafe_hub" where
  "send_socket_message params ok msg hub =
     (if ok then count_telemetry (\<lambda>t. t\<lparr>outgoing_messages := outgoing_messages t + 1,
          outgoing_bytes := outgoing_bytes t + of_nat (encoded_length params msg)\<rparr>) hub
      else hub)"

section \<open>One message of the client\<close>

text \<open>The result of a turn: whether the loop goes on, what was sent or spawned, the windows, the hub.\<close>

type_synonym turn = "bool \<times> socket_output list \<times> cafe_socket \<times> cafe_hub"

definition own_event :: "socket_params \<Rightarrow> cafe_env \<Rightarrow> cafe_socket \<Rightarrow> cafe_room_event \<Rightarrow> cafe_hub \<Rightarrow> cafe_hub" where
  "own_event params env sock ev = on_room (sock_room sock) (room_apply (lower_case params) env ev)"

definition socket_interact ::
  "socket_params \<Rightarrow> cafe_env \<Rightarrow> cafe_socket \<Rightarrow> ustr \<Rightarrow> cafe_hub \<Rightarrow> socket_output list \<times> cafe_hub" where
  "socket_interact params env sock target hub =
     (let result = (case hm_get (hub_rooms hub) (sock_room sock) of
            None \<Rightarrow> interaction_none
          | Some room \<Rightarrow> fst (interact_for_connection env (sock_player sock) (sock_connection sock) target room));
          hub1 = own_event params env sock (EvInteract (sock_player sock) (sock_connection sock) target) hub
      in case completed_round result of
           None \<Rightarrow> ([], hub1)
         | Some n \<Rightarrow>
             ([SpawnNextRound n],
              case award_round params (sock_room sock) n (awarded_owners result) of
                None \<Rightarrow> hub1
              | Some ids \<Rightarrow> own_event params env sock (EvReward ids 1) hub1))"

definition socket_chat ::
  "socket_params \<Rightarrow> cafe_env \<Rightarrow> bool \<Rightarrow> cafe_socket \<Rightarrow> ustr \<Rightarrow> cafe_hub
     \<Rightarrow> socket_output list \<times> cafe_socket \<times> cafe_hub" where
  "socket_chat params env ok sock text hub =
     (let (allowed, recent) = accept_chat_message (env_now env) (recent_chat_messages sock);
          sock' = sock\<lparr>recent_chat_messages := recent\<rparr>;
          hub1 = (if allowed then hub
                  else count_telemetry (\<lambda>t. t\<lparr>message_rate_rejections := message_rate_rejections t + 1\<rparr>) hub);
          err = (if \<not> allowed then Some ChatRateLimited
                 else case hm_get (hub_rooms hub1) (sock_room sock) of
                     None \<Rightarrow> (case normalize_cafe_chat_message (lower_case params) text of
                         Inl e \<Rightarrow> Some e | Inr _ \<Rightarrow> None)
                   | Some room \<Rightarrow> fst (chat_for_connection (lower_case params) env (sock_player sock)
                       (sock_connection sock) text room));
          hub2 = (if allowed
                  then own_event params env sock (EvChat (sock_player sock) (sock_connection sock) text) hub1
                  else hub1)
      in case err of
           None \<Rightarrow> ([], sock', hub2)
         | Some e \<Rightarrow>
             ([SendMessage (MsgChatError e)], sock', send_socket_message params ok (MsgChatError e) hub2))"

fun client_turn ::
  "socket_params \<Rightarrow> cafe_env \<Rightarrow> bool \<Rightarrow> cafe_socket \<Rightarrow> cafe_client_message \<Rightarrow> cafe_hub \<Rightarrow> turn" where
  "client_turn params env ok sock (ClientMove x y d moving seq) hub =
     (True, [], sock, own_event params env sock
        (EvMove (sock_player sock) (sock_connection sock) x y d moving seq) hub)"
| "client_turn params env ok sock (ClientInteract target) hub =
     (let (out, hub') = socket_interact params env sock target hub in (True, out, sock, hub'))"
| "client_turn params env ok sock (ClientEmote emote) hub =
     (True, [], sock, own_event params env sock (EvEmote (sock_player sock) (sock_connection sock) emote) hub)"
| "client_turn params env ok sock (ClientChat text) hub =
     (let (out, sock', hub') = socket_chat params env ok sock text hub in (True, out, sock', hub'))"
| "client_turn params env ok sock ClientPing hub =
     (ok, [SendMessage MsgPong], sock, send_socket_message params ok MsgPong hub)"

section \<open>One turn of the loop\<close>

definition text_turn ::
  "socket_params \<Rightarrow> cafe_env \<Rightarrow> bool \<Rightarrow> cafe_socket \<Rightarrow> ustr \<Rightarrow> cafe_hub \<Rightarrow> turn" where
  "text_turn params env ok sock text hub =
     (let (accepted, recent) = accept_message (env_now env) (recent_messages sock);
          sock' = sock\<lparr>recent_messages := recent\<rparr>
      in if \<not> accepted
         then let msg = MsgError ErrRateLimited ''Too many cafe messages''
              in (False, [SendMessage msg], sock',
                  send_socket_message params ok msg (count_telemetry
                    (\<lambda>t. t\<lparr>message_rate_rejections := message_rate_rejections t + 1\<rparr>) hub))
         else case parse_message params text of
             None \<Rightarrow> (True, [], sock', hub)
           | Some msg \<Rightarrow> client_turn params env ok sock' msg hub)"

fun socket_turn ::
  "socket_params \<Rightarrow> cafe_env \<Rightarrow> bool \<Rightarrow> cafe_socket \<Rightarrow> socket_input \<Rightarrow> cafe_hub \<Rightarrow> turn" where
  "socket_turn params env ok sock (Revoked session) hub =
     (if session = sock_player sock then (False, [cafe_account_deleted_close_frame], sock, hub)
      else (True, [], sock, hub))"
| "socket_turn params env ok sock (RevocationLagged alive) hub = (alive, [], sock, hub)"
| "socket_turn params env ok sock RevocationClosed hub = (True, [], sock, hub)"
| "socket_turn params env ok sock (OutboundMessage msg) hub =
     (ok, [SendMessage msg], sock, send_socket_message params ok msg hub)"
| "socket_turn params env ok sock ReliableLagged hub =
     (False, [cafe_resync_close_frame], sock,
      count_telemetry (\<lambda>t. t\<lparr>reliable_lag := reliable_lag t + 1\<rparr>) hub)"
| "socket_turn params env ok sock OutboundClosed hub = (False, [], sock, hub)"
| "socket_turn params env ok sock IncomingEnd hub = (False, [], sock, hub)"
| "socket_turn params env ok sock (IncomingError too_long) hub =
     (False, if too_long then [cafe_message_too_big_close_frame] else [], sock, hub)"
| "socket_turn params env ok sock (IncomingMessage msg) hub =
     (let hub1 = count_telemetry (\<lambda>t. t\<lparr>incoming_messages := incoming_messages t + 1\<rparr>) hub
      in if cafe_message_exceeds_limit msg (websocket_max_bytes (hub_limits hub))
         then (False, [cafe_message_too_big_close_frame], sock, hub1)
         else case msg of
             WsText text \<Rightarrow> text_turn params env ok sock text hub1
           | WsPing \<Rightarrow> (ok, [SendPong], sock, hub1)
           | WsClose \<Rightarrow> (False, [], sock, hub1)
           | _ \<Rightarrow> (True, [], sock, hub1))"

text \<open>
  Between two turns the rest of the server acts on the hub. The loop ends with the first turn that
  breaks, or with the socket.
\<close>

datatype socket_moment = Turn cafe_env bool socket_input | Elsewhere cafe_hub_event

fun socket_loop ::
  "socket_params \<Rightarrow> cafe_socket \<Rightarrow> socket_moment list \<Rightarrow> cafe_hub \<Rightarrow> socket_output list \<times> cafe_hub" where
  "socket_loop params sock [] hub = ([], hub)"
| "socket_loop params sock (Elsewhere e # rest) hub =
     socket_loop params sock rest (hub_step (lower_case params) hub e)"
| "socket_loop params sock (Turn env ok input # rest) hub =
     (let (continue, out, sock', hub') = socket_turn params env ok sock input hub
      in if continue
         then (let (out', hub'') = socket_loop params sock' rest hub' in (out @ out', hub''))
         else (out, hub'))"

definition join_error_message :: "cafe_join_error \<Rightarrow> cafe_server_message" where
  "join_error_message e =
     (case e of
        RoomNotFound \<Rightarrow> MsgError ErrRoomNotFound ''Cafe room no longer exists''
      | RoomFull \<Rightarrow> MsgError ErrRoomFull ''Cafe room is full'')"

definition serve_cafe_socket ::
  "socket_params \<Rightarrow> cafe_env \<Rightarrow> cafe_env \<Rightarrow> bool \<Rightarrow> uuid \<Rightarrow> cafe_player \<Rightarrow> nat
     \<Rightarrow> socket_moment list \<Rightarrow> cafe_hub \<Rightarrow> socket_output list \<times> cafe_hub" where
  "serve_cafe_socket params env leave_env ok rid player stars inputs hub =
     (case join_hub env rid player hub of
        (Inl e, hub1) \<Rightarrow>
          ([SendMessage (join_error_message e)], send_socket_message params ok (join_error_message e) hub1)
      | (Inr joined, hub1) \<Rightarrow>
          let welcome = MsgWelcome (player_id player) stars (join_revision joined) (join_snapshot joined)
                (join_chat_history joined);
              hub2 = send_socket_message params ok welcome hub1;
              sock = \<lparr>sock_room = rid, sock_player = player_id player,
                sock_connection = connection_id player, recent_messages = [], recent_chat_messages = []\<rparr>;
              (out, hub3) = (if ok then socket_loop params sock inputs hub2 else ([], hub2))
          in (SendMessage welcome # out,
              on_room rid (leave_room leave_env (player_id player) (connection_id player)) hub3))"

text \<open>The socket owns its reservation; it is dropped on every way out of the handler.\<close>

definition handle_cafe_socket ::
  "socket_params \<Rightarrow> cafe_env \<Rightarrow> cafe_env \<Rightarrow> bool \<Rightarrow> uuid \<Rightarrow> cafe_player \<Rightarrow> nat
     \<Rightarrow> cafe_socket_reservation \<Rightarrow> socket_moment list \<Rightarrow> cafe_hub \<Rightarrow> socket_output list \<times> cafe_hub" where
  "handle_cafe_socket params env leave_env ok rid player stars reservation inputs hub =
     (let (out, hub') = serve_cafe_socket params env leave_env ok rid player stars inputs hub
      in (out, hub'\<lparr>hub_abuse := drop_reservation reservation (hub_abuse hub')\<rparr>))"

section \<open>The rooms as the turns leave them\<close>

lemma count_telemetry_simps [simp]:
  "hub_rooms (count_telemetry f hub) = hub_rooms hub" "hub_limits (count_telemetry f hub) = hub_limits hub"
  "hub_abuse (count_telemetry f hub) = hub_abuse hub"
  by (simp_all add: count_telemetry_def)

lemma send_socket_simps [simp]:
  "hub_rooms (send_socket_message params ok msg hub) = hub_rooms hub"
  "hub_limits (send_socket_message params ok msg hub) = hub_limits hub"
  "hub_abuse (send_socket_message params ok msg hub) = hub_abuse hub"
  by (simp_all add: send_socket_message_def)

text \<open>
  The events of a socket: those it sends for its own player and connection to its own room, and the
  rewards of the rounds it completes.
\<close>

definition socket_event :: "cafe_socket \<Rightarrow> cafe_hub_event \<Rightarrow> bool" where
  "socket_event sock e \<longleftrightarrow> (\<exists>env ev. e = HubRoom (sock_room sock) env ev \<and>
     (event_sender ev = Some (sock_player sock, sock_connection sock) \<or> (\<exists>ids. ev = EvReward ids 1)))"

definition rooms_after :: "(ustr \<Rightarrow> ustr) \<Rightarrow> cafe_hub \<Rightarrow> cafe_hub_event list \<Rightarrow> (uuid, cafe_room) hash_map" where
  "rooms_after lower hub es = hub_rooms (foldl (hub_step lower) hub es)"

definition same_seat :: "cafe_socket \<Rightarrow> cafe_socket \<Rightarrow> bool" where
  "same_seat sock sock' \<longleftrightarrow> sock_room sock' = sock_room sock \<and> sock_player sock' = sock_player sock \<and>
     sock_connection sock' = sock_connection sock"

lemma same_seat_event: "same_seat sock sock' \<Longrightarrow> socket_event sock' e = socket_event sock e"
  by (simp add: same_seat_def socket_event_def)

lemma same_seat_trans: "same_seat a b \<Longrightarrow> same_seat b c \<Longrightarrow> same_seat a c"
  by (simp add: same_seat_def)

text \<open>\<open>turn_ok\<close>: a turn leaves the rooms, the caps and the abuse state as events of the socket do.\<close>

definition turn_ok :: "(ustr \<Rightarrow> ustr) \<Rightarrow> cafe_socket \<Rightarrow> cafe_hub \<Rightarrow> cafe_socket \<times> cafe_hub \<Rightarrow> bool" where
  "turn_ok lower sock hub r \<longleftrightarrow> same_seat sock (fst r) \<and> hub_limits (snd r) = hub_limits hub \<and>
     hub_abuse (snd r) = hub_abuse hub \<and>
     (\<exists>es. list_all (socket_event sock) es \<and> hub_rooms (snd r) = rooms_after lower hub es)"

lemma rooms_after_room:
  "rooms_after lower hub [HubRoom rid env ev] = hm_adjust rid (room_apply lower env ev) (hub_rooms hub)"
  by (simp add: rooms_after_def on_room_def)

lemma turn_ok_quiet:
  "same_seat sock sock' \<Longrightarrow> hub_rooms hub' = hub_rooms hub \<Longrightarrow> hub_limits hub' = hub_limits hub \<Longrightarrow>
    hub_abuse hub' = hub_abuse hub \<Longrightarrow> turn_ok lower sock hub (sock', hub')"
  unfolding turn_ok_def by (intro conjI exI [of _ "[]"]) (simp_all add: rooms_after_def)

lemma same_seat_simps [simp]:
  "same_seat sock sock" "same_seat sock (sock\<lparr>recent_messages := r\<rparr>)"
  "same_seat sock (sock\<lparr>recent_chat_messages := r\<rparr>)"
  by (simp_all add: same_seat_def)

lemma turn_ok_event:
  assumes "event_sender ev = Some (sock_player sock, sock_connection sock)"
    and "same_seat sock sock'" and "hub_rooms hub' = hub_rooms (own_event params env sock ev hub)"
    and "hub_limits hub' = hub_limits hub" "hub_abuse hub' = hub_abuse hub"
  shows "turn_ok (lower_case params) sock hub (sock', hub')"
  unfolding turn_ok_def using assms
  by (intro conjI exI [of _ "[HubRoom (sock_room sock) env ev]"])
    (auto simp: rooms_after_room socket_event_def own_event_def)

lemma interact_turn: "turn_ok (lower_case params) sock hub (sock, snd (socket_interact params env sock target hub))"
proof -
  let ?ev = "EvInteract (sock_player sock) (sock_connection sock) target"
  have one: "turn_ok (lower_case params) sock hub (sock, own_event params env sock ?ev hub)"
    by (rule turn_ok_event [where ev = ?ev and env = env]) (simp_all add: own_event_def on_room_def)
  have two: "turn_ok (lower_case params) sock hub
      (sock, own_event params env sock (EvReward ids 1) (own_event params env sock ?ev hub))" for ids
    unfolding turn_ok_def
    by (intro conjI exI [of _ "[HubRoom (sock_room sock) env ?ev, HubRoom (sock_room sock) env (EvReward ids 1)]"])
      (auto simp: rooms_after_def socket_event_def own_event_def on_room_def)
  show ?thesis
    using one two by (simp add: socket_interact_def Let_def split: option.split)
qed

lemma chat_turn:
  "turn_ok (lower_case params) sock hub (snd (socket_chat params env ok sock text hub))"
proof -
  let ?ev = "EvChat (sock_player sock) (sock_connection sock) text"
  obtain allowed recent where a: "accept_chat_message (env_now env) (recent_chat_messages sock) = (allowed, recent)"
    by fastforce
  let ?sock = "sock\<lparr>recent_chat_messages := recent\<rparr>"
  have one: "turn_ok (lower_case params) sock hub (?sock, hub')"
    if "hub_rooms hub' = hub_rooms (own_event params env sock ?ev hub)" "hub_limits hub' = hub_limits hub"
      "hub_abuse hub' = hub_abuse hub" for hub'
    by (rule turn_ok_event [where ev = ?ev and env = env]) (simp_all add: that)
  have none: "turn_ok (lower_case params) sock hub (?sock, hub')"
    if "hub_rooms hub' = hub_rooms hub" "hub_limits hub' = hub_limits hub" "hub_abuse hub' = hub_abuse hub" for hub'
    by (rule turn_ok_quiet) (simp_all add: that)
  show ?thesis
  proof (cases allowed)
    case True
    then show ?thesis
      by (auto simp: socket_chat_def a Let_def own_event_def on_room_def intro!: one split: option.split)
  next
    case False
    then show ?thesis by (auto simp: socket_chat_def a Let_def intro!: none)
  qed
qed

lemma text_turn_ok:
  "turn_ok (lower_case params) sock hub (snd (snd (text_turn params env ok sock text hub)))"
proof -
  obtain accepted recent where a: "accept_message (env_now env) (recent_messages sock) = (accepted, recent)"
    by fastforce
  let ?sock = "sock\<lparr>recent_messages := recent\<rparr>"
  have lift: "turn_ok (lower_case params) sock hub r" if "turn_ok (lower_case params) ?sock hub r" for r
  proof -
    have seat: "same_seat sock ?sock" by simp
    have "socket_event ?sock = socket_event sock" by (rule ext) (rule same_seat_event [OF seat])
    then show ?thesis using that same_seat_trans [OF seat] unfolding turn_ok_def by simp
  qed
  have client: "turn_ok (lower_case params) ?sock hub (snd (snd (client_turn params env ok ?sock msg hub)))" for msg
  proof (cases msg)
    case (ClientMove x y d moving seq)
    then show ?thesis
      by (auto intro!: turn_ok_event [where env = env and ev = "EvMove (sock_player sock) (sock_connection sock) x y d moving seq"]
          simp: own_event_def on_room_def)
  next
    case (ClientInteract target)
    then show ?thesis using interact_turn [of params ?sock hub env target] by (simp add: case_prod_beta Let_def)
  next
    case (ClientEmote e)
    then show ?thesis
      by (auto intro!: turn_ok_event [where env = env and ev = "EvEmote (sock_player sock) (sock_connection sock) e"]
          simp: own_event_def on_room_def)
  next
    case (ClientChat body)
    then show ?thesis using chat_turn [of params ?sock hub env ok body] by (simp add: case_prod_beta Let_def)
  next
    case ClientPing
    then show ?thesis by (auto intro: turn_ok_quiet)
  qed
  show ?thesis
  proof (cases accepted)
    case False
    then show ?thesis by (auto simp: text_turn_def a Let_def intro!: turn_ok_quiet)
  next
    case True
    then show ?thesis
      using lift [OF client] by (auto simp: text_turn_def a Let_def intro!: turn_ok_quiet split: option.split)
  qed
qed

lemma turn_ok_base:
  "turn_ok lower sock hub1 r \<Longrightarrow> hub_rooms hub1 = hub_rooms hub \<Longrightarrow> hub_limits hub1 = hub_limits hub \<Longrightarrow>
    hub_abuse hub1 = hub_abuse hub \<Longrightarrow> (\<And>es. list_all (socket_event sock) es \<Longrightarrow>
      rooms_after lower hub1 es = rooms_after lower hub es) \<Longrightarrow> turn_ok lower sock hub r"
  unfolding turn_ok_def by metis

lemma rooms_after_events:
  assumes "hub_rooms hub1 = hub_rooms hub" and "list_all (socket_event sock) es"
  shows "rooms_after lower hub1 es = rooms_after lower hub es"
  using assms
proof (induction es arbitrary: hub1 hub)
  case (Cons e es)
  obtain env ev where e: "e = HubRoom (sock_room sock) env ev"
    using Cons.prems(2) by (auto simp: socket_event_def)
  have "hub_rooms (hub_step lower hub1 e) = hub_rooms (hub_step lower hub e)"
    using Cons.prems(1) by (simp add: e on_room_def)
  moreover have "list_all (socket_event sock) es" using Cons.prems(2) by simp
  ultimately have "rooms_after lower (hub_step lower hub1 e) es = rooms_after lower (hub_step lower hub e) es"
    by (rule Cons.IH)
  then show ?case unfolding rooms_after_def foldl.simps .
qed (simp add: rooms_after_def)

lemma socket_turn_ok:
  "turn_ok (lower_case params) sock hub (snd (snd (socket_turn params env ok sock input hub)))"
proof (cases input)
  case (IncomingMessage msg)
  let ?hub = "count_telemetry (\<lambda>t. t\<lparr>incoming_messages := incoming_messages t + 1\<rparr>) hub"
  have quiet: "turn_ok (lower_case params) sock hub (sock, ?hub)" by (rule turn_ok_quiet) simp_all
  have "turn_ok (lower_case params) sock hub (snd (snd (text_turn params env ok sock body ?hub)))" for body
    by (rule turn_ok_base [OF text_turn_ok _ _ _ rooms_after_events]) simp_all
  then show ?thesis
    unfolding IncomingMessage socket_turn.simps Let_def using quiet
    by (cases msg) (simp_all only: snd_conv ws_message.case simp_thms split: if_split)
qed (simp_all add: turn_ok_quiet)

end
