(* ===== verification/Cafe_Socket_Props.thy ===== *)
theory Cafe_Socket_Props
  imports Cafe_Socket
begin

text \<open>
  The socket handler as a client of the hub: whatever it receives, and whatever else happens to the hub
  meanwhile, its effect is that of a join, of messages of its own player and of a leave.
\<close>

section \<open>Hubs that differ in the telemetry\<close>

definition hub_eq :: "cafe_hub \<Rightarrow> cafe_hub \<Rightarrow> bool" where
  "hub_eq a b \<longleftrightarrow> hub_rooms a = hub_rooms b \<and> hub_limits a = hub_limits b \<and> hub_abuse a = hub_abuse b"

lemma hub_eq_refl [simp]: "hub_eq a a"
  by (simp add: hub_eq_def)

lemma hub_eq_trans: "hub_eq a b \<Longrightarrow> hub_eq b c \<Longrightarrow> hub_eq a c"
  by (simp add: hub_eq_def)

lemma hub_eq_telemetry: "hub_eq a b \<longleftrightarrow> (\<exists>t. a = b\<lparr>hub_telemetry := t\<rparr>)"
  by (cases a, cases b) (auto simp: hub_eq_def)

lemma consume_telemetry:
  "fst (consume_room_creation l s ip now (abuse, t)) = fst (consume_room_creation l s ip now (abuse, t'))"
  "fst (snd (consume_room_creation l s ip now (abuse, t))) = fst (snd (consume_room_creation l s ip now (abuse, t')))"
  by (simp_all add: consume_room_creation_def Let_def)

lemma create_room_telemetry:
  "create_room env p (hub\<lparr>hub_telemetry := t\<rparr>)
    = map_option (\<lambda>(s, h). (s, h\<lparr>hub_telemetry := t\<rparr>)) (create_room env p hub)"
  by (simp add: create_room_def taken_codes_def split: option.split)

lemma create_limited_eq:
  assumes "hub_eq a b"
  shows "rel_option (rel_prod (=) hub_eq) (create_room_limited env s ip p a) (create_room_limited env s ip p b)"
proof -
  obtain ra abuse_a tel_a where a: "consume_room_creation (hub_limits a) s ip (env_now env) (hub_abuse a, hub_telemetry a)
      = (ra, abuse_a, tel_a)" by (metis prod_cases3)
  obtain rb abuse_b tel_b where b: "consume_room_creation (hub_limits b) s ip (env_now env) (hub_abuse b, hub_telemetry b)
      = (rb, abuse_b, tel_b)" by (metis prod_cases3)
  have eq: "hub_rooms a = hub_rooms b" "hub_limits a = hub_limits b" "hub_abuse a = hub_abuse b"
    using assms by (simp_all add: hub_eq_def)
  have "ra = rb" "abuse_a = abuse_b"
    using consume_telemetry [of "hub_limits b" s ip "env_now env" "hub_abuse b" "hub_telemetry a" "hub_telemetry b"]
      a b eq by simp_all
  then show ?thesis
    using eq unfolding create_room_limited_def a b
    by (auto simp: Let_def create_room_def taken_codes_def hub_eq_def split: option.split)
qed

lemma hub_step_eq:
  assumes eq: "hub_eq a b"
  shows "hub_eq (hub_step lower a e) (hub_step lower b e)"
proof (cases e)
  case (HubCreate env s ip p)
  show ?thesis
    using create_limited_eq [OF eq, of env s ip p] eq
    by (cases "create_room_limited env s ip p a"; cases "create_room_limited env s ip p b") (auto simp: HubCreate)
next
  case (HubQuickJoin env s ip)
  have rooms: "hub_rooms a = hub_rooms b" using eq by (simp add: hub_eq_def)
  show ?thesis
    using create_limited_eq [OF eq, of env s ip False] eq rooms
    by (cases "create_room_limited env s ip False a"; cases "create_room_limited env s ip False b")
      (auto simp: HubQuickJoin quick_join_limited_def split: option.split)
qed (use eq in \<open>auto simp: hub_eq_def on_room_def equip_cosmetic_def equip_avatar_def cleanup_at_def
    telemetry_snapshot_def reserve_socket_def Let_def\<close>)

lemma hub_steps_eq: "hub_eq a b \<Longrightarrow> hub_eq (foldl (hub_step lower) a es) (foldl (hub_step lower) b es)"
  by (induction es arbitrary: a b) (simp_all add: hub_step_eq)

section \<open>The loop\<close>

lemma socket_events_keep:
  "list_all (socket_event sock) es \<Longrightarrow> hub_limits (foldl (hub_step lower) hub es) = hub_limits hub \<and>
    hub_abuse (foldl (hub_step lower) hub es) = hub_abuse hub"
  by (induction es arbitrary: hub) (auto simp: socket_event_def on_room_def)

lemma turn_ok_steps:
  assumes "turn_ok lower sock hub r"
  obtains es where "list_all (socket_event sock) es" "hub_eq (snd r) (foldl (hub_step lower) hub es)"
    "same_seat sock (fst r)"
  using assms socket_events_keep unfolding turn_ok_def hub_eq_def rooms_after_def by metis

definition elsewhere :: "socket_moment list \<Rightarrow> cafe_hub_event set" where
  "elsewhere ms = {e. Elsewhere e \<in> set ms}"

lemma socket_loop_steps:
  "\<exists>es. hub_eq (snd (socket_loop params sock ms hub)) (foldl (hub_step (lower_case params)) hub es)
    \<and> (\<forall>e\<in>set es. socket_event sock e \<or> e \<in> elsewhere ms)"
proof (induction ms arbitrary: sock hub)
  case Nil
  show ?case by (rule exI [of _ "[]"]) simp
next
  case (Cons m ms)
  let ?low = "lower_case params"
  show ?case
  proof (cases m)
    case (Elsewhere e)
    obtain es where es: "hub_eq (snd (socket_loop params sock ms (hub_step ?low hub e)))
        (foldl (hub_step ?low) (hub_step ?low hub e) es)" "\<forall>e\<in>set es. socket_event sock e \<or> e \<in> elsewhere ms"
      using Cons.IH by blast
    then show ?thesis
      by (intro exI [of _ "e # es"]) (auto simp: Elsewhere elsewhere_def)
  next
    case (Turn env ok input)
    obtain c out sock' hub' where t: "socket_turn params env ok sock input hub = (c, out, sock', hub')"
      by (metis prod_cases4)
    have "turn_ok ?low sock hub (sock', hub')" using socket_turn_ok [of params sock hub env ok input] t by simp
    then obtain es where es: "list_all (socket_event sock) es" "hub_eq hub' (foldl (hub_step ?low) hub es)"
      and seat: "same_seat sock sock'" by (rule turn_ok_steps) simp
    show ?thesis
    proof (cases c)
      case False
      then show ?thesis
        using es by (intro exI [of _ es]) (auto simp: Turn t list_all_iff)
    next
      case True
      obtain fs where fs: "hub_eq (snd (socket_loop params sock' ms hub')) (foldl (hub_step ?low) hub' fs)"
        "\<forall>e\<in>set fs. socket_event sock' e \<or> e \<in> elsewhere ms" using Cons.IH by blast
      have "hub_eq (foldl (hub_step ?low) hub' fs) (foldl (hub_step ?low) hub (es @ fs))"
        using hub_steps_eq [OF es(2)] by simp
      then have "hub_eq (snd (socket_loop params sock' ms hub')) (foldl (hub_step ?low) hub (es @ fs))"
        by (rule hub_eq_trans [OF fs(1)])
      then show ?thesis
        using True es(1) fs(2) same_seat_event [OF seat]
        by (intro exI [of _ "es @ fs"]) (auto simp: Turn t list_all_iff elsewhere_def case_prod_beta)
    qed
  qed
qed

lemma serve_refines_hub:
  fixes s :: cafe_identity and rid :: uuid
  assumes "player = new_player_with_avatar env0 s cosmetic avatar"
  defines "sock \<equiv> \<lparr>sock_room = rid, sock_player = player_id player,
    sock_connection = connection_id player, recent_messages = [], recent_chat_messages = []\<rparr>"
  shows "\<exists>es. hub_eq (snd (serve_cafe_socket params env leave_env ok rid player stars moments hub))
      (foldl (hub_step (lower_case params)) hub
        (HubRoom rid env (EvJoin env0 s cosmetic avatar) # es
          @ [HubRoom rid leave_env (EvLeave (player_id player) (connection_id player))]))
    \<and> (\<forall>e\<in>set es. socket_event sock e \<or> Elsewhere e \<in> set moments)"
proof -
  let ?low = "lower_case params"
  let ?leave = "HubRoom rid leave_env (EvLeave (player_id player) (connection_id player))"
  let ?join = "HubRoom rid env (EvJoin env0 s cosmetic avatar)"
  have leave: "room_apply ?low leave_env (EvLeave p c) = leave_room leave_env p c" for p c by (rule ext) simp
  obtain r hub1 where j: "join_hub env rid player hub = (r, hub1)" by fastforce
  have hub1: "hub1 = hub_step ?low hub ?join"
    using j assms(1)
    by (auto simp: join_hub_def on_room_def hm_adjust_def case_prod_beta split: option.splits)
  show ?thesis
  proof (cases r)
    case (Inl e)
    have "hub_rooms (hub_step ?low hub1 ?leave) = hub_rooms hub1"
    proof (cases "hm_get (hub_rooms hub) rid")
      case None
      then show ?thesis using j Inl by (simp add: join_hub_def on_room_def hm_adjust_def)
    next
      case (Some room)
      then have rooms: "hub_rooms hub1 = hm_insert rid room (hub_rooms hub)"
        and gone: "hm_get (players room) (player_id player) = None"
        using j Inl by (auto simp: join_hub_def join_room_def Let_def split: if_splits)
      then show ?thesis
        by (simp add: on_room_def) (rule hm_adjust_id, simp add: leave_room_def)
    qed
    then have "hub_eq hub1 (hub_step ?low hub1 ?leave)" by (simp add: hub_eq_def on_room_def)
    then show ?thesis
      using j Inl unfolding hub1
      by (intro exI [of _ "[]"]) (simp add: serve_cafe_socket_def hub_eq_def)
  next
    case (Inr joined)
    let ?hub2 = "send_socket_message params ok (MsgWelcome (player_id player) stars (join_revision joined)
      (join_snapshot joined) (join_chat_history joined)) hub1"
    have two: "hub_eq ?hub2 hub1" by (simp add: hub_eq_def)
    have "\<exists>es. hub_eq (snd (if ok then socket_loop params sock moments ?hub2 else ([], ?hub2)))
        (foldl (hub_step ?low) ?hub2 es) \<and> (\<forall>e\<in>set es. socket_event sock e \<or> Elsewhere e \<in> set moments)"
      using socket_loop_steps [of params sock moments ?hub2]
      by (cases ok) (auto simp: elsewhere_def intro: exI [of _ "[]"])
    then obtain es where es: "hub_eq (snd (if ok then socket_loop params sock moments ?hub2 else ([], ?hub2)))
        (foldl (hub_step ?low) ?hub2 es)" "\<forall>e\<in>set es. socket_event sock e \<or> Elsewhere e \<in> set moments" by blast
    have "hub_eq (snd (if ok then socket_loop params sock moments ?hub2 else ([], ?hub2)))
        (foldl (hub_step ?low) hub1 es)"
      by (rule hub_eq_trans [OF es(1) hub_steps_eq [OF two]])
    then have "hub_eq (hub_step ?low (snd (if ok then socket_loop params sock moments ?hub2 else ([], ?hub2))) ?leave)
        (hub_step ?low (foldl (hub_step ?low) hub1 es) ?leave)" by (rule hub_step_eq)
    then show ?thesis
      using es(2) j Inr unfolding hub1
      by (intro exI [of _ es]) (auto simp: serve_cafe_socket_def sock_def Let_def case_prod_beta leave)
  qed
qed

section \<open>Properties\<close>

text \<open>
  C34: whatever a socket receives, and whatever else happens to the hub between its turns, the handler
  does to the rooms, the limits and the abuse state what this sequence of hub events does: its join,
  then events of its own player and connection in its own room (with the rewards of the rounds it
  completes) among the events of the others, then its leave and
  the release of its reservation.
\<close>

theorem cafe_socket_refines_hub:
  fixes s :: cafe_identity and rid :: uuid
  assumes "player = new_player_with_avatar env0 s cosmetic avatar"
  defines "sock \<equiv> \<lparr>sock_room = rid, sock_player = player_id player,
    sock_connection = connection_id player, recent_messages = [], recent_chat_messages = []\<rparr>"
  shows "\<exists>es. hub_eq (snd (handle_cafe_socket params env leave_env ok rid player stars reservation moments hub))
      (foldl (hub_step (lower_case params)) hub
        (HubRoom rid env (EvJoin env0 s cosmetic avatar) # es
          @ [HubRoom rid leave_env (EvLeave (player_id player) (connection_id player)),
             HubRelease (reserved_session reservation) (reserved_ip reservation)]))
    \<and> (\<forall>e\<in>set es. socket_event sock e \<or> Elsewhere e \<in> set moments)"
proof -
  let ?low = "lower_case params"
  let ?release = "HubRelease (reserved_session reservation) (reserved_ip reservation)"
  obtain es where es: "hub_eq (snd (serve_cafe_socket params env leave_env ok rid player stars moments hub))
      (foldl (hub_step ?low) hub (HubRoom rid env (EvJoin env0 s cosmetic avatar) # es
          @ [HubRoom rid leave_env (EvLeave (player_id player) (connection_id player))]))"
    "\<forall>e\<in>set es. socket_event sock e \<or> Elsewhere e \<in> set moments"
    using serve_refines_hub [OF assms(1), of params env leave_env ok rid stars moments hub]
    unfolding sock_def by blast
  have "snd (handle_cafe_socket params env leave_env ok rid player stars reservation moments hub)
      = hub_step ?low (snd (serve_cafe_socket params env leave_env ok rid player stars moments hub)) ?release"
    by (simp add: handle_cafe_socket_def drop_reservation_def case_prod_beta)
  then show ?thesis
    using hub_step_eq [OF es(1), of ?low ?release] es(2) by (intro exI [of _ es]) simp
qed

definition demo_params :: socket_params where
  "demo_params = \<lparr>parse_message = (\<lambda>_. Some ClientPing), encoded_length = (\<lambda>_. 0), lower_case = id,
     award_round = (\<lambda>_ _ _. None)\<rparr>"

definition demo_reservation :: cafe_socket_reservation where
  "demo_reservation = \<lparr>reserved_session = 1, reserved_ip = []\<rparr>"

theorem cafe_socket_refines_hub_witness:
  "\<exists>es. hub_eq (snd (handle_cafe_socket demo_params demo_env demo_env True 7
        (new_player_with_avatar demo_env (demo_identity 1) None []) 0 demo_reservation
        [Turn demo_env True (IncomingMessage (WsText [])), Turn demo_env True IncomingEnd] demo_hub))
      (foldl (hub_step (lower_case demo_params)) demo_hub
        (HubRoom 7 demo_env (EvJoin demo_env (demo_identity 1) None []) # es @ [HubRoom 7 demo_env (EvLeave 1 7), HubRelease 1 []]))"
  using cafe_socket_refines_hub [OF refl, of demo_params demo_env demo_env True 7 demo_env "demo_identity 1" None "[]" 0 demo_reservation
      "[Turn demo_env True (IncomingMessage (WsText [])), Turn demo_env True IncomingEnd]" demo_hub]
  by (auto simp: new_player_with_avatar_def demo_identity_def demo_env_def demo_reservation_def)

lemma serve_leaves_nothing:
  "case hm_get (hub_rooms (snd (serve_cafe_socket params env leave_env ok rid player stars moments hub))) rid of
     None \<Rightarrow> True
   | Some room \<Rightarrow> current_connection_id (player_id player) room \<noteq> Some (connection_id player)"
proof (cases "hm_get (hub_rooms (snd (serve_cafe_socket params env leave_env ok rid player stars moments hub))) rid")
  case (Some room)
  have gone: "current_connection_id p (leave_room e p c room) \<noteq> Some c" for p e c room
    by (auto simp: current_connection_id_def leave_room_def Let_def split: option.split)
  obtain r hub1 where j: "join_hub env rid player hub = (r, hub1)" by fastforce
  have "current_connection_id (player_id player) room \<noteq> Some (connection_id player)"
  proof (cases r)
    case (Inl e)
    then have "hm_get (hub_rooms hub1) rid = Some room" using Some j by (simp add: serve_cafe_socket_def)
    then show ?thesis
      using j Inl by (auto simp: join_hub_def join_room_def Let_def current_connection_id_def
          split: option.splits if_splits)
  next
    case (Inr joined)
    then show ?thesis
      using Some j gone by (auto simp: serve_cafe_socket_def Let_def case_prod_beta on_room_def)
  qed
  with Some show ?thesis by simp
qed simp

text \<open>
  A socket that ends leaves nothing behind: when the handler returns, for whatever reason, its
  connection is not the current one of a player of the room, in whatever way the rest of the server has
  changed the room meanwhile.
\<close>

theorem cafe_socket_leaves_nothing:
  "case hm_get (hub_rooms (snd (handle_cafe_socket params env leave_env ok rid player stars reservation moments hub))) rid of
     None \<Rightarrow> True
   | Some room \<Rightarrow> current_connection_id (player_id player) room \<noteq> Some (connection_id player)"
  using serve_leaves_nothing [where params = params and env = env and leave_env = leave_env and ok = ok and rid = rid
      and player = player and stars = stars and moments = moments and hub = hub]
  by (simp add: handle_cafe_socket_def case_prod_beta)

end
