(* ===== verification/Cafe_Progress.thy ===== *)
theory Cafe_Progress
  imports Cafe_Hub "HOL-Library.List_Lexorder"
begin

text \<open>
  The stars and the wardrobe of the Cafe: \<open>store/cafe.rs\<close>, \<open>cafe_cosmetics.rs\<close>, \<open>cafe_avatars.rs\<close> and
  the progress handlers of \<open>cafe.rs\<close>. The tables \<open>cafe_progress\<close>, \<open>cafe_cosmetic_loadouts\<close> and
  \<open>cafe_room_rewards\<close> are hash maps by their primary keys; their rows refer to \<open>auth_sessions\<close>, so an
  insert for a session that is gone is a foreign key violation. An \<open>integer\<close> column that would exceed
  \<open>i32::MAX\<close> is an error of the statement. Each statement of a method outside a transaction is a step of
  its own; the methods here run theirs one after another. \<open>BTreeSet\<close> iteration is the sorted list.
\<close>

section \<open>Cosmetics and avatars\<close>

record cafe_cosmetic_definition =
  cosmetic_id :: ustr
  required_stars :: nat

definition cafe_cosmetics :: "cafe_cosmetic_definition list" where
  "cafe_cosmetics =
     [\<lparr>cosmetic_id = ascii ''sakura_pin'', required_stars = 0\<rparr>,
      \<lparr>cosmetic_id = ascii ''mint_scarf'', required_stars = 3\<rparr>,
      \<lparr>cosmetic_id = ascii ''tea_hat'', required_stars = 5\<rparr>,
      \<lparr>cosmetic_id = ascii ''cafe_apron'', required_stars = 8\<rparr>]"

definition cafe_cosmetic :: "ustr \<Rightarrow> cafe_cosmetic_definition option" where
  "cafe_cosmetic i = find (\<lambda>c. cosmetic_id c = i) cafe_cosmetics"

definition unlocked_cafe_cosmetic_ids :: "nat \<Rightarrow> ustr list" where
  "unlocked_cafe_cosmetic_ids stars =
     map cosmetic_id (filter (\<lambda>c. required_stars c \<le> stars) cafe_cosmetics)"

definition default_cafe_avatar_id :: ustr where "default_cafe_avatar_id = ascii ''boy''"
definition cafe_avatars :: "ustr list" where "cafe_avatars = [ascii ''boy'', ascii ''girl'']"

definition cafe_avatar :: "ustr \<Rightarrow> ustr option" where
  "cafe_avatar i = find (\<lambda>a. a = i) cafe_avatars"

section \<open>Tables\<close>

record progress_row =
  progress_user :: "uuid option"
  progress_stars :: nat
  progress_unlocked :: "ustr list"

record loadout_row =
  loadout_user :: "uuid option"
  loadout_cosmetic :: "ustr option"
  loadout_avatar :: ustr
  loadout_updated_at :: nat

record cafe_db =
  known_sessions :: "uuid set"
  progress_rows :: "(uuid, progress_row) hash_map"
  loadout_rows :: "(uuid, loadout_row) hash_map"
  reward_rows :: "(uuid \<times> nat \<times> uuid, uuid option) hash_map"

record cafe_progress_record =
  rec_stars :: nat
  rec_unlocked :: "ustr list"
  rec_cosmetic :: "ustr option"
  rec_avatar :: ustr

definition i32_max :: nat where "i32_max = 2 ^ 31 - 1"

section \<open>Reading the progress\<close>

definition owner_progress :: "owner_scope \<Rightarrow> cafe_db \<Rightarrow> progress_row list" where
  "owner_progress owner db =
     map snd (filter (\<lambda>(s, row). owns_row owner s (progress_user row)) (progress_rows db))"

definition owner_stars :: "owner_scope \<Rightarrow> cafe_db \<Rightarrow> nat" where
  "owner_stars owner db = foldl (\<lambda>n row. sat_add 32 n (progress_stars row)) 0 (owner_progress owner db)"

definition owner_unlocked :: "owner_scope \<Rightarrow> cafe_db \<Rightarrow> ustr list" where
  "owner_unlocked owner db =
     sort (remdups (concat (map progress_unlocked (owner_progress owner db))
       @ unlocked_cafe_cosmetic_ids (owner_stars owner db)))"

definition save_unlocked :: "owner_scope \<Rightarrow> ustr list \<Rightarrow> cafe_db \<Rightarrow> store_error + cafe_db" where
  "save_unlocked owner unlocked db =
     (if scope_session owner \<notin> known_sessions db then Inl ForeignKeyViolation
      else Inr (db\<lparr>progress_rows := hm_insert (scope_session owner)
        (case hm_get (progress_rows db) (scope_session owner) of
           None \<Rightarrow> \<lparr>progress_user = scope_user owner, progress_stars = 0, progress_unlocked = unlocked\<rparr>
         | Some row \<Rightarrow> row\<lparr>progress_user := coalesce (scope_user owner) (progress_user row),
             progress_unlocked := unlocked\<rparr>) (progress_rows db)\<rparr>))"

text \<open>\<open>order by updated_at desc, owner_session_id desc limit 1\<close>.\<close>

definition owner_loadout :: "owner_scope \<Rightarrow> cafe_db \<Rightarrow> loadout_row option" where
  "owner_loadout owner db =
     (case rev (sort_key (\<lambda>(s, row). (loadout_updated_at row, s))
             (filter (\<lambda>(s, row). owns_row owner s (loadout_user row)) (loadout_rows db))) of
        [] \<Rightarrow> None
      | (s, row) # _ \<Rightarrow> Some row)"

definition get_cafe_progress ::
  "owner_scope \<Rightarrow> cafe_db \<Rightarrow> store_error + cafe_progress_record \<times> cafe_db" where
  "get_cafe_progress owner db =
     (let stars = owner_stars owner db;
          unlocked = owner_unlocked owner db
      in case save_unlocked owner unlocked db of
           Inl e \<Rightarrow> Inl e
         | Inr db' \<Rightarrow>
             let loadout = owner_loadout owner db';
                 cosmetic = (case loadout of
                     None \<Rightarrow> None
                   | Some row \<Rightarrow> (case loadout_cosmetic row of
                       None \<Rightarrow> None
                     | Some i \<Rightarrow> if cafe_cosmetic i \<noteq> None \<and> i \<in> set unlocked then Some i else None));
                 avatar = (case loadout of
                     None \<Rightarrow> default_cafe_avatar_id
                   | Some row \<Rightarrow> if cafe_avatar (loadout_avatar row) \<noteq> None then loadout_avatar row
                       else default_cafe_avatar_id)
             in Inr (\<lparr>rec_stars = stars, rec_unlocked = unlocked, rec_cosmetic = cosmetic,
                      rec_avatar = avatar\<rparr>, db'))"

section \<open>Equipment\<close>

definition save_loadout ::
  "nat \<Rightarrow> owner_scope \<Rightarrow> ustr option \<Rightarrow> ustr \<Rightarrow> cafe_db \<Rightarrow> store_error + cafe_db" where
  "save_loadout now owner cosmetic avatar db =
     (if scope_session owner \<notin> known_sessions db then Inl ForeignKeyViolation
      else Inr (db\<lparr>loadout_rows := hm_insert (scope_session owner)
        \<lparr>loadout_user = (case hm_get (loadout_rows db) (scope_session owner) of
             None \<Rightarrow> scope_user owner
           | Some row \<Rightarrow> coalesce (scope_user owner) (loadout_user row)),
         loadout_cosmetic = cosmetic, loadout_avatar = avatar, loadout_updated_at = now\<rparr> (loadout_rows db)\<rparr>))"

definition equip_cafe_cosmetic ::
  "nat \<Rightarrow> owner_scope \<Rightarrow> ustr option \<Rightarrow> cafe_db \<Rightarrow> store_error + bool \<times> cafe_db" where
  "equip_cafe_cosmetic now owner cosmetic db =
     (case get_cafe_progress owner db of
        Inl e \<Rightarrow> Inl e
      | Inr (progress, db1) \<Rightarrow>
          if (case cosmetic of None \<Rightarrow> False
              | Some i \<Rightarrow> cafe_cosmetic i = None \<or> i \<notin> set (rec_unlocked progress))
          then Inr (False, db1)
          else (case save_loadout now owner cosmetic (rec_avatar progress) db1 of
              Inl e \<Rightarrow> Inl e
            | Inr db2 \<Rightarrow> Inr (True, db2)))"

definition equip_cafe_avatar ::
  "nat \<Rightarrow> owner_scope \<Rightarrow> ustr \<Rightarrow> cafe_db \<Rightarrow> store_error + bool \<times> cafe_db" where
  "equip_cafe_avatar now owner avatar db =
     (if cafe_avatar avatar = None then Inr (False, db)
      else (case get_cafe_progress owner db of
          Inl e \<Rightarrow> Inl e
        | Inr (progress, db1) \<Rightarrow>
            (case save_loadout now owner (rec_cosmetic progress) avatar db1 of
               Inl e \<Rightarrow> Inl e
             | Inr db2 \<Rightarrow> Inr (True, db2))))"

section \<open>Stars\<close>

text \<open>The upsert of \<open>add_cafe_stars\<close> and of the awards: \<open>cafe_stars + excluded.cafe_stars\<close>.\<close>

definition add_stars :: "owner_scope \<Rightarrow> nat \<Rightarrow> cafe_db \<Rightarrow> store_error + cafe_db" where
  "add_stars owner amount db =
     (if scope_session owner \<notin> known_sessions db then Inl ForeignKeyViolation
      else (case hm_get (progress_rows db) (scope_session owner) of
          None \<Rightarrow> Inr (db\<lparr>progress_rows := hm_insert (scope_session owner)
            \<lparr>progress_user = scope_user owner, progress_stars = amount, progress_unlocked = []\<rparr>
            (progress_rows db)\<rparr>)
        | Some row \<Rightarrow>
            if i32_max < progress_stars row + amount then Inl NumericOverflow
            else Inr (db\<lparr>progress_rows := hm_insert (scope_session owner)
              (row\<lparr>progress_user := coalesce (scope_user owner) (progress_user row),
                   progress_stars := progress_stars row + amount\<rparr>) (progress_rows db)\<rparr>)))"

definition add_cafe_stars ::
  "owner_scope \<Rightarrow> nat \<Rightarrow> cafe_db \<Rightarrow> store_error + cafe_progress_record \<times> cafe_db" where
  "add_cafe_stars owner amount db =
     (case add_stars owner (min amount i32_max) db of
        Inl e \<Rightarrow> Inl e
      | Inr db' \<Rightarrow> get_cafe_progress owner db')"

definition award_owner ::
  "uuid \<Rightarrow> nat \<Rightarrow> owner_scope \<Rightarrow> cafe_db \<Rightarrow> store_error + uuid list \<times> cafe_db" where
  "award_owner room rnd owner db =
     (let key = (room, min rnd i32_max, scope_session owner)
      in if hm_get (reward_rows db) key \<noteq> None then Inr ([], db)
         else if scope_session owner \<notin> known_sessions db then Inl ForeignKeyViolation
         else (case add_stars owner 1 (db\<lparr>reward_rows := hm_insert key (scope_user owner) (reward_rows db)\<rparr>) of
             Inl e \<Rightarrow> Inl e
           | Inr db' \<Rightarrow> Inr ([scope_session owner], db')))"

fun award_owners ::
  "uuid \<Rightarrow> nat \<Rightarrow> owner_scope list \<Rightarrow> cafe_db \<Rightarrow> store_error + uuid list \<times> cafe_db" where
  "award_owners room rnd [] db = Inr ([], db)"
| "award_owners room rnd (owner # owners) db =
     (case award_owner room rnd owner db of
        Inl e \<Rightarrow> Inl e
      | Inr (ids, db1) \<Rightarrow>
          (case award_owners room rnd owners db1 of
             Inl e \<Rightarrow> Inl e
           | Inr (ids', db2) \<Rightarrow> Inr (ids @ ids', db2)))"

text \<open>One transaction: an error rolls every insert back.\<close>

definition award_cafe_round_completion ::
  "uuid \<Rightarrow> nat \<Rightarrow> owner_scope list \<Rightarrow> cafe_db \<Rightarrow> store_error + uuid list \<times> cafe_db" where
  "award_cafe_round_completion = award_owners"

section \<open>Responses and handlers\<close>

record cafe_cosmetic_response =
  resp_cosmetic_id :: ustr
  resp_required_stars :: nat
  resp_unlocked :: bool

record cafe_progress_response =
  resp_stars :: nat
  resp_unlocked_cosmetics :: "ustr list"
  resp_equipped_cosmetic :: "ustr option"
  resp_equipped_avatar :: ustr
  resp_cosmetics :: "cafe_cosmetic_response list"
  resp_avatars :: "ustr list"

definition cosmetic_response :: "cafe_cosmetic_definition \<Rightarrow> ustr list \<Rightarrow> cafe_cosmetic_response" where
  "cosmetic_response d unlocked =
     \<lparr>resp_cosmetic_id = cosmetic_id d, resp_required_stars = required_stars d,
      resp_unlocked = list_ex (\<lambda>i. i = cosmetic_id d) unlocked\<rparr>"

definition progress_response :: "cafe_progress_record \<Rightarrow> cafe_progress_response" where
  "progress_response p =
     \<lparr>resp_stars = rec_stars p, resp_unlocked_cosmetics = rec_unlocked p,
      resp_equipped_cosmetic = rec_cosmetic p, resp_equipped_avatar = rec_avatar p,
      resp_cosmetics = map (\<lambda>d. cosmetic_response d (rec_unlocked p)) cafe_cosmetics,
      resp_avatars = cafe_avatars\<rparr>"

text \<open>The handlers once the session is known: the answer, the store and the hub they leave.\<close>

definition cafe_progress_handler ::
  "owner_scope \<Rightarrow> cafe_db \<Rightarrow> app_error + cafe_progress_response \<times> cafe_db" where
  "cafe_progress_handler owner db =
     (case get_cafe_progress owner db of
        Inl e \<Rightarrow> Inl (from_store_error e)
      | Inr (p, db') \<Rightarrow> Inr (progress_response p, db'))"

definition equip_cosmetic_handler ::
  "nat \<Rightarrow> owner_scope \<Rightarrow> ustr option \<Rightarrow> cafe_db \<times> cafe_hub
     \<Rightarrow> (app_error + cafe_progress_response) \<times> cafe_db \<times> cafe_hub" where
  "equip_cosmetic_handler now owner cosmetic st =
     (let (db, hub) = st
      in if (case cosmetic of None \<Rightarrow> False | Some i \<Rightarrow> cafe_cosmetic i = None)
         then (Inl (BadRequest ''unknown cafe cosmetic''), db, hub)
         else (case equip_cafe_cosmetic now owner cosmetic db of
             Inl e \<Rightarrow> (Inl (from_store_error e), db, hub)
           | Inr (False, db1) \<Rightarrow> (Inl Forbidden, db1, hub)
           | Inr (True, db1) \<Rightarrow>
               (case get_cafe_progress owner db1 of
                  Inl e \<Rightarrow> (Inl (from_store_error e), db1, hub)
                | Inr (p, db2) \<Rightarrow> (Inr (progress_response p), db2, equip_cosmetic owner (rec_cosmetic p) hub))))"

definition equip_avatar_handler ::
  "nat \<Rightarrow> owner_scope \<Rightarrow> ustr \<Rightarrow> cafe_db \<times> cafe_hub
     \<Rightarrow> (app_error + cafe_progress_response) \<times> cafe_db \<times> cafe_hub" where
  "equip_avatar_handler now owner avatar st =
     (let (db, hub) = st
      in if cafe_avatar avatar = None then (Inl (BadRequest ''unknown cafe avatar''), db, hub)
         else (case equip_cafe_avatar now owner avatar db of
             Inl e \<Rightarrow> (Inl (from_store_error e), db, hub)
           | Inr (False, db1) \<Rightarrow> (Inl (BadRequest ''unknown cafe avatar''), db1, hub)
           | Inr (True, db1) \<Rightarrow>
               (case get_cafe_progress owner db1 of
                  Inl e \<Rightarrow> (Inl (from_store_error e), db1, hub)
                | Inr (p, db2) \<Rightarrow> (Inr (progress_response p), db2, equip_avatar owner (rec_avatar p) hub))))"

end
