(* ===== verification/Cafe_Progress_Props.thy ===== *)
theory Cafe_Progress_Props
  imports Cafe_Progress
begin

text \<open>
  Stars are awarded once per room, round and session, a session's stars are the rewards it has, and what
  a player wears is known and unlocked.
\<close>

section \<open>Stars and rewards of a session\<close>

definition stars_of :: "cafe_db \<Rightarrow> uuid \<Rightarrow> nat" where
  "stars_of db s = (case hm_get (progress_rows db) s of None \<Rightarrow> 0 | Some row \<Rightarrow> progress_stars row)"

definition rewards_of :: "cafe_db \<Rightarrow> uuid \<Rightarrow> nat" where
  "rewards_of db s = count_if (\<lambda>((room, rnd, session), user). session = s) (reward_rows db)"

definition rewarded :: "cafe_db \<Rightarrow> uuid \<Rightarrow> nat \<Rightarrow> uuid \<Rightarrow> bool" where
  "rewarded db room rnd s \<longleftrightarrow> hm_get (reward_rows db) (room, min rnd i32_max, s) \<noteq> None"

lemma count_if_insert_new:
  "hm_get m k = None \<Longrightarrow> count_if P (hm_insert k v m) = count_if P m + (if P (k, v) then 1 else 0)"
  by (induction m) (auto simp: hm_get_def hm_insert_def split: if_splits)

lemma add_stars_effect:
  assumes "add_stars owner n db = Inr db'"
  shows "stars_of db' s = stars_of db s + (if s = scope_session owner then n else 0)"
    and "reward_rows db' = reward_rows db" and "known_sessions db' = known_sessions db"
    and "loadout_rows db' = loadout_rows db"
  using assms by (auto simp: add_stars_def stars_of_def split: if_splits option.splits)

lemma award_owner_effect:
  assumes "award_owner room rnd owner db = Inr (ids, db')"
  shows "ids = (if rewarded db room rnd (scope_session owner) then [] else [scope_session owner])"
    and "ids = [] \<Longrightarrow> db' = db"
    and "stars_of db' s = stars_of db s + count_list ids s"
    and "rewards_of db' s = rewards_of db s + count_list ids s"
    and "rewarded db' room' rnd' s \<longleftrightarrow>
      rewarded db room' rnd' s \<or> (room' = room \<and> min rnd' i32_max = min rnd i32_max \<and> s = scope_session owner)"
proof -
  let ?k = "(room, min rnd i32_max, scope_session owner)"
  have "ids = (if rewarded db room rnd (scope_session owner) then [] else [scope_session owner]) \<and>
    (ids = [] \<longrightarrow> db' = db) \<and> stars_of db' s = stars_of db s + count_list ids s \<and>
    rewards_of db' s = rewards_of db s + count_list ids s \<and>
    (rewarded db' room' rnd' s \<longleftrightarrow>
      rewarded db room' rnd' s \<or> (room' = room \<and> min rnd' i32_max = min rnd i32_max \<and> s = scope_session owner))"
  proof (cases "hm_get (reward_rows db) ?k")
    case (Some u)
    then show ?thesis using assms by (auto simp: award_owner_def rewarded_def Let_def)
  next
    case None
    let ?db = "db\<lparr>reward_rows := hm_insert ?k (scope_user owner) (reward_rows db)\<rparr>"
    have st: "add_stars owner 1 ?db = Inr db'" and ids: "ids = [scope_session owner]"
      using assms None by (auto simp: award_owner_def Let_def split: if_splits sum.splits)
    have "stars_of ?db s = stars_of db s" by (simp add: stars_of_def)
    then show ?thesis
      using add_stars_effect [OF st] None ids count_if_insert_new [OF None]
      by (auto simp: rewarded_def rewards_of_def)
  qed
  then show "ids = (if rewarded db room rnd (scope_session owner) then [] else [scope_session owner])"
    "ids = [] \<Longrightarrow> db' = db" "stars_of db' s = stars_of db s + count_list ids s"
    "rewards_of db' s = rewards_of db s + count_list ids s"
    "rewarded db' room' rnd' s \<longleftrightarrow>
      rewarded db room' rnd' s \<or> (room' = room \<and> min rnd' i32_max = min rnd i32_max \<and> s = scope_session owner)"
    by blast+
qed

lemma award_owners_effect:
  assumes "award_owners room rnd owners db = Inr (ids, db')"
  shows "distinct ids \<and> set ids = {s \<in> scope_session ` set owners. \<not> rewarded db room rnd s}
    \<and> (\<forall>s. stars_of db' s = stars_of db s + count_list ids s)
    \<and> (\<forall>s. rewards_of db' s = rewards_of db s + count_list ids s)
    \<and> (\<forall>s\<in>scope_session ` set owners. rewarded db' room rnd s)
    \<and> (\<forall>s. rewarded db room rnd s \<longrightarrow> rewarded db' room rnd s)"
  using assms
proof (induction owners arbitrary: db ids db')
  case (Cons owner owners)
  obtain i1 db1 i2 where one: "award_owner room rnd owner db = Inr (i1, db1)"
    and rest: "award_owners room rnd owners db1 = Inr (i2, db')" and ids: "ids = i1 @ i2"
    using Cons.prems by (auto split: sum.splits)
  note e1 = award_owner_effect [OF one] and ih = Cons.IH [OF rest]
  have r1: "rewarded db1 room rnd s \<longleftrightarrow> rewarded db room rnd s \<or> s = scope_session owner" for s
    using e1(5) [of room rnd s] by simp
  have s1: "set i1 = {s. s = scope_session owner \<and> \<not> rewarded db room rnd s}" "distinct i1"
    using e1(1) by auto
  have s2: "set i2 = {s \<in> scope_session ` set owners. \<not> rewarded db room rnd s \<and> s \<noteq> scope_session owner}"
    using ih r1 by blast
  have "stars_of db' s = stars_of db s + count_list ids s" for s
    using e1(3) [of s] ih by (simp add: ids)
  moreover have "rewards_of db' s = rewards_of db s + count_list ids s" for s
    using e1(4) [of s] ih by (simp add: ids)
  moreover have "distinct ids" "set ids = {s \<in> scope_session ` set (owner # owners). \<not> rewarded db room rnd s}"
    using ih s1 s2 by (auto simp: ids)
  moreover have "\<forall>s\<in>scope_session ` set (owner # owners). rewarded db' room rnd s"
    "\<forall>s. rewarded db room rnd s \<longrightarrow> rewarded db' room rnd s"
    using ih r1 by auto
  ultimately show ?case by blast
qed simp

lemma award_owners_again:
  assumes "\<forall>owner\<in>set owners. rewarded db room rnd (scope_session owner)"
  shows "award_owners room rnd owners db = Inr ([], db)"
  using assms by (induction owners) (auto simp: award_owner_def rewarded_def Let_def)

section \<open>The machine\<close>

datatype cafe_db_event =
    AwardRound uuid nat "owner_scope list"
  | ReadProgress owner_scope
  | EquipCosmetic nat owner_scope "ustr option"
  | EquipAvatar nat owner_scope ustr
  | AddSession uuid

definition or_keep :: "cafe_db \<Rightarrow> store_error + 'a \<times> cafe_db \<Rightarrow> cafe_db" where
  "or_keep db r = (case r of Inl e \<Rightarrow> db | Inr (x, db') \<Rightarrow> db')"

fun cafe_db_step :: "cafe_db \<Rightarrow> cafe_db_event \<Rightarrow> cafe_db" where
  "cafe_db_step db (AwardRound room rnd owners) = or_keep db (award_cafe_round_completion room rnd owners db)"
| "cafe_db_step db (ReadProgress owner) = or_keep db (get_cafe_progress owner db)"
| "cafe_db_step db (EquipCosmetic now owner c) = or_keep db (equip_cafe_cosmetic now owner c db)"
| "cafe_db_step db (EquipAvatar now owner a) = or_keep db (equip_cafe_avatar now owner a db)"
| "cafe_db_step db (AddSession s) = db\<lparr>known_sessions := insert s (known_sessions db)\<rparr>"

definition empty_cafe_db :: cafe_db where
  "empty_cafe_db = \<lparr>known_sessions = {}, progress_rows = [], loadout_rows = [], reward_rows = []\<rparr>"

definition stars_match :: "cafe_db \<Rightarrow> bool" where
  "stars_match db \<longleftrightarrow> (\<forall>s. stars_of db s = rewards_of db s)"

lemma get_effect:
  assumes "get_cafe_progress owner db = Inr (p, db')"
  shows "stars_of db' s = stars_of db s" and "reward_rows db' = reward_rows db"
  using assms
  by (auto simp: get_cafe_progress_def save_unlocked_def stars_of_def Let_def split: sum.splits if_splits option.splits)

lemma save_loadout_effect:
  "save_loadout now owner c a db = Inr db' \<Longrightarrow> stars_of db' s = stars_of db s \<and> reward_rows db' = reward_rows db"
  by (auto simp: save_loadout_def stars_of_def split: if_splits)

lemma equip_effect:
  "equip_cafe_cosmetic now owner c db = Inr (b, db') \<Longrightarrow> stars_of db' s = stars_of db s \<and> reward_rows db' = reward_rows db"
  "equip_cafe_avatar now owner a db = Inr (b, db') \<Longrightarrow> stars_of db' s = stars_of db s \<and> reward_rows db' = reward_rows db"
  using get_effect save_loadout_effect
  by (fastforce simp: equip_cafe_cosmetic_def equip_cafe_avatar_def split: sum.splits if_splits prod.splits)+

lemma cafe_db_step_match: "stars_match db \<Longrightarrow> stars_match (cafe_db_step db e)"
proof (cases e)
  case (AwardRound room rnd owners)
  assume m: "stars_match db"
  show ?thesis
  proof (cases "award_owners room rnd owners db")
    case (Inr r)
    then obtain ids db' where "award_owners room rnd owners db = Inr (ids, db')" by (cases r) simp
    with award_owners_effect [OF this] m show ?thesis
      by (simp add: AwardRound award_cafe_round_completion_def or_keep_def stars_match_def)
  qed (simp add: AwardRound award_cafe_round_completion_def or_keep_def m)
next
  case (ReadProgress owner)
  then show "stars_match db \<Longrightarrow> stars_match (cafe_db_step db e)"
    using get_effect by (auto simp: or_keep_def stars_match_def rewards_of_def split: sum.splits)
next
  case (EquipCosmetic now owner c)
  then show "stars_match db \<Longrightarrow> stars_match (cafe_db_step db e)"
    using equip_effect(1) by (fastforce simp: or_keep_def stars_match_def rewards_of_def split: sum.splits)
next
  case (EquipAvatar now owner a)
  then show "stars_match db \<Longrightarrow> stars_match (cafe_db_step db e)"
    using equip_effect(2) by (fastforce simp: or_keep_def stars_match_def rewards_of_def split: sum.splits)
next
  case (AddSession s)
  then show "stars_match db \<Longrightarrow> stars_match (cafe_db_step db e)"
    by (simp add: stars_match_def stars_of_def rewards_of_def)
qed

interpretation cafe_stars: invariant_machine cafe_db_step stars_match
  by unfold_locales (rule cafe_db_step_match)

section \<open>Properties\<close>

text \<open>
  A completed round is paid once: the award gives one star to every session that took part and has
  none for this round yet, names exactly those, and the same award made again (a retry, a second report)
  names nobody and changes nothing.
\<close>

theorem cafe_award_once:
  assumes "award_cafe_round_completion room rnd owners db = Inr (ids, db')"
  shows "distinct ids \<and> set ids = {s \<in> scope_session ` set owners. \<not> rewarded db room rnd s} \<and>
    (\<forall>s. stars_of db' s = stars_of db s + (if s \<in> set ids then 1 else 0)) \<and>
    award_cafe_round_completion room rnd owners db' = Inr ([], db')"
proof -
  have a: "award_owners room rnd owners db = Inr (ids, db')"
    using assms by (simp add: award_cafe_round_completion_def)
  note e = award_owners_effect [OF a]
  then have d: "distinct ids" by blast
  have "count_list ids s = (if s \<in> set ids then 1 else 0)" for s
    using d by (induction ids) auto
  moreover have "award_owners room rnd owners db' = Inr ([], db')"
    using e by (intro award_owners_again) blast
  ultimately show ?thesis using e by (simp add: award_cafe_round_completion_def)
qed

definition demo_owner :: owner_scope where "demo_owner = \<lparr>scope_session = 1, scope_user = None\<rparr>"

definition demo_cafe_db :: cafe_db where
  "demo_cafe_db = empty_cafe_db\<lparr>known_sessions := {1}\<rparr>"

theorem cafe_award_once_witness:
  "\<exists>db'. award_cafe_round_completion 7 1 [demo_owner] demo_cafe_db = Inr ([1], db') \<and>
     award_cafe_round_completion 7 1 [demo_owner] db' = Inr ([], db')"
proof -
  obtain db' where a: "award_cafe_round_completion 7 1 [demo_owner] demo_cafe_db = Inr ([1], db')"
    by (simp add: award_cafe_round_completion_def award_owner_def add_stars_def demo_owner_def demo_cafe_db_def
        empty_cafe_db_def Let_def)
  with cafe_award_once [OF a] show ?thesis by blast
qed

text \<open>
  Along every run of awards, reads and equipment changes from an empty store, failed transactions
  included, the stars of a session are the number of the rewards recorded for it.
\<close>

theorem cafe_stars_are_rewards:
  "(case hm_get (progress_rows (foldl cafe_db_step empty_cafe_db es)) s of
      None \<Rightarrow> 0 | Some row \<Rightarrow> progress_stars row)
    = length (filter (\<lambda>((room, rnd, session), user). session = s)
        (reward_rows (foldl cafe_db_step empty_cafe_db es)))"
proof -
  have "stars_match (foldl cafe_db_step empty_cafe_db es)"
    by (rule cafe_stars.run_inv) (simp add: stars_match_def stars_of_def rewards_of_def empty_cafe_db_def)
  then show ?thesis by (simp add: stars_match_def stars_of_def rewards_of_def count_if_def)
qed



end
