(* ===== verification/Sync.thy ===== *)
theory Sync
  imports Store_Records Unicode_Chars "HOL-Library.List_Lexorder"
begin

text \<open>
  Synchronisation of a client's items: \<open>store/sync.rs\<close> and the handlers of \<open>sync.rs\<close>. The tables
  \<open>sync_entities\<close> (primary key: session and item) and \<open>sync_commits\<close> (primary key: operation and
  session) are lists of rows. Every method of the store is one step; a commit is one step per item, so an
  error half way leaves the items before it saved. The JSON payload of an item is its text. Where a query
  leaves the order of equal times open, the model takes the order of the item ids.
\<close>

section \<open>Tables\<close>

record sync_content =
  content_type :: ustr
  content_updated :: int
  content_deleted :: "int option"
  content_payload :: ustr

record sync_row = sync_content +
  row_session :: uuid
  row_user :: "uuid option"
  row_item :: ustr

record sync_entity =
  entity_session :: uuid
  entity_user :: "uuid option"
  entity_item :: ustr
  entity_type :: ustr
  entity_updated_at :: nat
  entity_deleted_at :: "nat option"
  entity_payload :: ustr

record sync_commit =
  commit_operation :: ustr
  commit_session :: uuid
  commit_user :: uuid
  merged_count :: nat
  conflict_count :: nat
  committed_at :: nat

record sync_db =
  sync_sessions :: "uuid set"
  sync_rows :: "sync_row list"
  sync_commits :: "sync_commit list"

section \<open>Upsert\<close>

text \<open>The columns an upsert writes: \<open>to_timestamp($4)\<close>, \<open>to_timestamp($5)\<close>.\<close>

definition entity_content :: "sync_entity \<Rightarrow> store_error + sync_content" where
  "entity_content e =
     (case to_timestamp (as_i64 (entity_updated_at e)) of
        Inl err \<Rightarrow> Inl err
      | Inr t \<Rightarrow>
          (case entity_deleted_at e of
             None \<Rightarrow> Inr \<lparr>content_type = entity_type e, content_updated = t, content_deleted = None,
                 content_payload = entity_payload e\<rparr>
           | Some d \<Rightarrow>
               (case to_timestamp (as_i64 d) of
                  Inl err \<Rightarrow> Inl err
                | Inr d' \<Rightarrow> Inr \<lparr>content_type = entity_type e, content_updated = t,
                    content_deleted = Some d', content_payload = entity_payload e\<rparr>)))"

definition row_content :: "sync_row \<Rightarrow> sync_content" where
  "row_content r = \<lparr>content_type = content_type r, content_updated = content_updated r,
     content_deleted = content_deleted r, content_payload = content_payload r\<rparr>"

definition with_content :: "sync_content \<Rightarrow> sync_row \<Rightarrow> sync_row" where
  "with_content c r =
     r\<lparr>content_type := content_type c, content_updated := content_updated c,
       content_deleted := content_deleted c, content_payload := content_payload c\<rparr>"

definition new_sync_row :: "sync_entity \<Rightarrow> sync_content \<Rightarrow> sync_row" where
  "new_sync_row e c =
     \<lparr>content_type = content_type c, content_updated = content_updated c,
      content_deleted = content_deleted c, content_payload = content_payload c,
      row_session = entity_session e, row_user = entity_user e, row_item = entity_item e\<rparr>"

text \<open>\<open>insert into sync_entities\<close>: the primary key, then the reference to the session.\<close>

definition insert_sync_row :: "sync_row \<Rightarrow> sync_db \<Rightarrow> store_error + sync_db" where
  "insert_sync_row r db =
     (if list_ex (\<lambda>q. row_session q = row_session r \<and> row_item q = row_item r) (sync_rows db)
      then Inl UniqueViolation
      else if row_session r \<notin> sync_sessions db then Inl ForeignKeyViolation
      else Inr (db\<lparr>sync_rows := sync_rows db @ [r]\<rparr>))"

definition upsert_for_user ::
  "uuid \<Rightarrow> sync_entity \<Rightarrow> sync_content \<Rightarrow> sync_db \<Rightarrow> store_error + bool \<times> sync_db" where
  "upsert_for_user user e c db =
     (let mine = (\<lambda>r. row_user r = Some user \<and> row_item r = entity_item e);
          older = (\<lambda>r. mine r \<and> content_updated r \<le> content_updated c)
      in if list_ex older (sync_rows db)
         then Inr (True, db\<lparr>sync_rows := map (\<lambda>r. if older r then with_content c r else r) (sync_rows db)\<rparr>)
         else if list_ex mine (sync_rows db) then Inr (False, db)
         else map_sum id (Pair True) (insert_sync_row (new_sync_row e c) db))"

definition upsert_for_session ::
  "sync_entity \<Rightarrow> sync_content \<Rightarrow> sync_db \<Rightarrow> store_error + bool \<times> sync_db" where
  "upsert_for_session e c db =
     (let key = (\<lambda>r. row_session r = entity_session e \<and> row_item r = entity_item e);
          older = (\<lambda>r. key r \<and> content_updated r \<le> content_updated c)
      in if list_ex key (sync_rows db)
         then Inr (list_ex older (sync_rows db),
           db\<lparr>sync_rows := map (\<lambda>r. if older r then (with_content c r)\<lparr>row_user := None\<rparr> else r)
             (sync_rows db)\<rparr>)
         else map_sum id (Pair True) (insert_sync_row (new_sync_row e c) db))"

definition upsert_sync_entity :: "sync_entity \<Rightarrow> sync_db \<Rightarrow> store_error + bool \<times> sync_db" where
  "upsert_sync_entity e db =
     (case entity_content e of
        Inl err \<Rightarrow> Inl err
      | Inr c \<Rightarrow>
          (case entity_user e of
             Some user \<Rightarrow> upsert_for_user user e c db
           | None \<Rightarrow> upsert_for_session e c db))"

section \<open>Queries\<close>

definition owned_sync :: "owner_scope \<Rightarrow> sync_row \<Rightarrow> bool" where
  "owned_sync owner r \<longleftrightarrow> owns_row owner (row_session r) (row_user r)"

definition count_sync_entities :: "owner_scope \<Rightarrow> sync_db \<Rightarrow> nat" where
  "count_sync_entities owner db = length (filter (owned_sync owner) (sync_rows db)) mod 2 ^ 32"

definition item_rows :: "owner_scope \<Rightarrow> ustr \<Rightarrow> sync_db \<Rightarrow> sync_row list" where
  "item_rows owner item db = filter (\<lambda>r. owned_sync owner r \<and> row_item r = item) (sync_rows db)"

text \<open>\<open>max(...)\<close> of no row is null.\<close>

definition max_option :: "int list \<Rightarrow> int option" where
  "max_option xs = (case xs of [] \<Rightarrow> None | x # xs' \<Rightarrow> Some (foldl max x xs'))"

definition get_sync_entity_updated_at :: "owner_scope \<Rightarrow> ustr \<Rightarrow> sync_db \<Rightarrow> nat option" where
  "get_sync_entity_updated_at owner item db =
     map_option as_u64 (max_option (map content_updated (item_rows owner item db)))"

text \<open>
  \<open>select distinct on (item_id) ... order by item_id, updated_at desc\<close> keeps the first row of each item,
  the outer query orders by time and cuts.
\<close>

definition newer_rows :: "owner_scope \<Rightarrow> int \<Rightarrow> sync_db \<Rightarrow> sync_row list" where
  "newer_rows owner cursor db =
     sort_key row_item (rev (sort_key content_updated
       (filter (\<lambda>r. owned_sync owner r \<and> cursor < content_updated r) (sync_rows db))))"

fun distinct_on :: "('a \<Rightarrow> 'k) \<Rightarrow> 'a list \<Rightarrow> 'a list" where
  "distinct_on f [] = []"
| "distinct_on f (x # xs) = x # distinct_on f (filter (\<lambda>y. f y \<noteq> f x) xs)"

definition latest_rows :: "owner_scope \<Rightarrow> int \<Rightarrow> sync_db \<Rightarrow> sync_row list" where
  "latest_rows owner cursor db =
     sort_key content_updated (distinct_on row_item (newer_rows owner cursor db))"

definition entity_of_row :: "sync_row \<Rightarrow> sync_entity" where
  "entity_of_row r =
     \<lparr>entity_session = row_session r, entity_user = row_user r, entity_item = row_item r,
      entity_type = content_type r, entity_updated_at = as_u64 (content_updated r),
      entity_deleted_at = map_option as_u64 (content_deleted r), entity_payload = content_payload r\<rparr>"

definition list_sync_entities_since :: "owner_scope \<Rightarrow> nat \<Rightarrow> nat \<Rightarrow> sync_db \<Rightarrow> sync_entity list" where
  "list_sync_entities_since owner cursor limit db =
     map entity_of_row (take limit (latest_rows owner (as_i64 cursor) db))"

section \<open>Commits\<close>

definition get_sync_commit :: "uuid \<Rightarrow> ustr \<Rightarrow> sync_db \<Rightarrow> sync_commit option" where
  "get_sync_commit session operation db =
     find (\<lambda>c. commit_session c = session \<and> commit_operation c = operation) (sync_commits db)"

definition save_sync_commit ::
  "nat \<Rightarrow> uuid \<Rightarrow> uuid \<Rightarrow> ustr \<Rightarrow> nat \<Rightarrow> nat \<Rightarrow> sync_db \<Rightarrow> store_error + sync_commit \<times> sync_db" where
  "save_sync_commit now session user operation merged conflicts db =
     (case get_sync_commit session operation db of
        Some existing \<Rightarrow> Inr (existing, db)
      | None \<Rightarrow>
          if session \<notin> sync_sessions db then Inl ForeignKeyViolation
          else (let c = \<lparr>commit_operation = operation, commit_session = session, commit_user = user,
                  merged_count = merged, conflict_count = conflicts, committed_at = now\<rparr>
            in Inr (c, db\<lparr>sync_commits := sync_commits db @ [c]\<rparr>)))"

section \<open>Handlers\<close>

record sync_item =
  item_id :: ustr
  item_type :: ustr
  updated_at :: nat
  deleted_at :: "nat option"
  payload :: ustr

record sync_changes_response =
  changed_items :: "sync_item list"
  next_cursor :: nat

record sync_preview_response =
  to_create :: nat
  to_update :: nat
  conflicts :: nat

datatype preview_action = PreviewCreate | PreviewUpdate | PreviewConflict

definition is_valid_item :: "sync_item \<Rightarrow> bool" where
  "is_valid_item item \<longleftrightarrow> trim_by is_whitespace (item_id item) \<noteq> [] \<and>
     trim_by is_whitespace (item_type item) \<noteq> [] \<and> 0 < updated_at item"

definition classify_preview_action :: "sync_item \<Rightarrow> nat option \<Rightarrow> preview_action" where
  "classify_preview_action item existing =
     (if \<not> is_valid_item item then PreviewConflict
      else (case existing of
          None \<Rightarrow> PreviewCreate
        | Some t \<Rightarrow> if t \<le> updated_at item then PreviewUpdate else PreviewConflict))"

definition advance_cursor :: "nat \<Rightarrow> nat \<Rightarrow> nat" where
  "advance_cursor cursor t = max cursor t"

definition item_of_entity :: "sync_entity \<Rightarrow> sync_item" where
  "item_of_entity e =
     \<lparr>item_id = entity_item e, item_type = entity_type e, updated_at = entity_updated_at e,
      deleted_at = entity_deleted_at e, payload = entity_payload e\<rparr>"

definition entity_of_item :: "owner_scope \<Rightarrow> sync_item \<Rightarrow> sync_entity" where
  "entity_of_item owner item =
     \<lparr>entity_session = scope_session owner, entity_user = scope_user owner, entity_item = item_id item,
      entity_type = item_type item, entity_updated_at = updated_at item,
      entity_deleted_at = deleted_at item, entity_payload = payload item\<rparr>"

definition page_limit :: "nat option \<Rightarrow> nat" where
  "page_limit limit = (case limit of None \<Rightarrow> 100 | Some n \<Rightarrow> max 1 (min 500 n))"

definition sync_changes ::
  "owner_scope \<Rightarrow> nat option \<Rightarrow> nat option \<Rightarrow> sync_db \<Rightarrow> sync_changes_response" where
  "sync_changes owner query_cursor limit db =
     (let cursor = (case query_cursor of None \<Rightarrow> 0 | Some c \<Rightarrow> c);
          entities = list_sync_entities_since owner cursor (page_limit limit) db
      in \<lparr>changed_items = map item_of_entity entities,
          next_cursor = foldl (\<lambda>c e. advance_cursor c (entity_updated_at e)) cursor entities\<rparr>)"

definition preview_item :: "owner_scope \<Rightarrow> sync_db \<Rightarrow> sync_item \<Rightarrow> preview_action" where
  "preview_item owner db item =
     classify_preview_action item (get_sync_entity_updated_at owner (item_id item) db)"

definition sync_preview :: "owner_scope \<Rightarrow> sync_item list \<Rightarrow> sync_db \<Rightarrow> sync_preview_response" where
  "sync_preview owner items db =
     \<lparr>to_create = count_if (\<lambda>i. preview_item owner db i = PreviewCreate) items,
      to_update = count_if (\<lambda>i. preview_item owner db i = PreviewUpdate) items,
      conflicts = count_if (\<lambda>i. preview_item owner db i = PreviewConflict) items\<rparr>"

fun commit_items ::
  "owner_scope \<Rightarrow> sync_item list \<Rightarrow> nat \<Rightarrow> sync_db \<Rightarrow> (store_error + nat) \<times> sync_db" where
  "commit_items owner [] n db = (Inr n, db)"
| "commit_items owner (item # items) n db =
     (if \<not> is_valid_item item then commit_items owner items n db
      else (case upsert_sync_entity (entity_of_item owner item) db of
          Inl e \<Rightarrow> (Inl e, db)
        | Inr (saved, db') \<Rightarrow> commit_items owner items (if saved then n + 1 else n) db'))"

definition sync_commit_handler ::
  "nat \<Rightarrow> session_record \<Rightarrow> ustr \<Rightarrow> sync_item list \<Rightarrow> sync_db \<Rightarrow> (app_error + sync_commit) \<times> sync_db" where
  "sync_commit_handler now session operation items db =
     (if trim_by is_whitespace operation = [] then (Inl (BadRequest ''operation_id is required''), db)
      else (case commit_items (scope_from_session session) items 0 db of
          (Inl e, db1) \<Rightarrow> (Inl (from_store_error e), db1)
        | (Inr merged, db1) \<Rightarrow>
            (case save_sync_commit now (session_id session) (session_user session) operation merged 0 db1 of
               Inl e \<Rightarrow> (Inl (from_store_error e), db1)
             | Inr (c, db2) \<Rightarrow> (Inr c, db2))))"

section \<open>Specification: a map of registers that the last writer wins\<close>

text \<open>
  A register holds the latest time and the contents written at that time (one, unless an account has
  merged the rows of several sessions that disagree at the same time).
\<close>

type_synonym sync_register = "(int \<times> sync_content set) option"

definition lww_put :: "sync_content \<Rightarrow> sync_register \<Rightarrow> sync_register" where
  "lww_put c r =
     (case r of
        None \<Rightarrow> Some (content_updated c, {c})
      | Some (t, cs) \<Rightarrow> if t \<le> content_updated c then Some (content_updated c, {c}) else r)"

definition register_of :: "sync_row list \<Rightarrow> sync_register" where
  "register_of rs =
     (if rs = [] then None
      else let m = Max (content_updated ` set rs)
        in Some (m, row_content ` {r \<in> set rs. content_updated r = m}))"

definition sync_view :: "owner_scope \<Rightarrow> sync_db \<Rightarrow> ustr \<Rightarrow> sync_register" where
  "sync_view owner db item = register_of (item_rows owner item db)"

end
