(* ===== verification/Sync_Props.thy ===== *)
theory Sync_Props
  imports Sync
begin

text \<open>
  What synchronisation guarantees: commits act on the view of an owner as writes to last-writer-wins
  registers, a retried commit changes nothing, and a client that follows the cursor reads everything
  provided no two items carry the same time (and misses an item when two do).
\<close>

section \<open>Registers\<close>

definition reg :: "sync_content set \<Rightarrow> sync_register" where
  "reg C = (if C = {} then None
     else Some (Max (content_updated ` C), {c \<in> C. content_updated c = Max (content_updated ` C)}))"

lemma content_of_row [simp]: "content_updated (row_content r) = content_updated r"
  by (simp add: row_content_def)

lemma with_content_simps [simp]:
  "row_content (with_content c r) = c"
  "row_item (with_content c r) = row_item r" "row_session (with_content c r) = row_session r"
  "row_user (with_content c r) = row_user r" "content_updated (with_content c r) = content_updated c"
  "row_content (with_content c r\<lparr>row_user := u\<rparr>) = row_content (with_content c r)"
  by (cases c, simp_all add: with_content_def row_content_def)

lemma row_content_new [simp]: "row_content (new_sync_row e c) = c" for c :: sync_content
  by (cases c) (simp add: row_content_def new_sync_row_def)

lemma register_of_reg: "register_of rs = reg (row_content ` set rs)"
proof -
  have "content_updated ` row_content ` set rs = content_updated ` set rs" by (simp add: image_image)
  moreover have "row_content ` {r \<in> set rs. content_updated r = m} =
      {c \<in> row_content ` set rs. content_updated c = m}" for m by auto
  ultimately show ?thesis by (simp add: register_of_def reg_def Let_def)
qed

lemma reg_write:
  assumes "finite C" "C \<noteq> {}"
  shows "reg ({d \<in> C. content_updated c < content_updated d}
      \<union> (if \<exists>d\<in>C. content_updated d \<le> content_updated c then {c} else {})) = lww_put c (reg C)"
    (is "reg ?C = _")
proof (cases "\<exists>d\<in>C. content_updated c < content_updated d")
  case True
  let ?m = "Max (content_updated ` C)"
  have m: "?m \<in> content_updated ` C" using assms by (intro Max_in) auto
  have above: "content_updated c < ?m" using True assms by (auto simp: Max_gr_iff)
  have eq: "Max (content_updated ` ?C) = ?m"
  proof (rule Max_eqI)
    show "finite (content_updated ` ?C)" using assms by auto
    show "?m \<in> content_updated ` ?C" using m above by auto
    fix t assume "t \<in> content_updated ` ?C"
    then show "t \<le> ?m" using above assms by (auto split: if_splits)
  qed
  have low: "?m \<noteq> content_updated c" using above by simp
  have max: "{d \<in> ?C. content_updated d = ?m} = {d \<in> C. content_updated d = ?m}"
    using above by auto
  have "?C \<noteq> {}" using True by auto
  then have "reg ?C = Some (?m, {d \<in> C. content_updated d = ?m})"
    unfolding reg_def eq max by (rule if_not_P)
  moreover have "lww_put c (reg C) = Some (?m, {d \<in> C. content_updated d = ?m})"
    using assms above True by (auto simp: lww_put_def reg_def not_le)
  ultimately show ?thesis by simp
next
  case False
  then have "?C = {c}" using assms by (force simp: not_less)
  moreover have "Max (content_updated ` C) \<le> content_updated c" using False assms by (simp add: not_less)
  ultimately show ?thesis using assms by (auto simp: reg_def lww_put_def)
qed

lemma lww_put_None: "lww_put c (reg {}) = reg {c}"
  by (auto simp: lww_put_def reg_def)

section \<open>An upsert writes one register\<close>

lemma filter_map_unselected:
  "(\<And>x. x \<in> set xs \<Longrightarrow> f x \<noteq> x \<Longrightarrow> \<not> Q x \<and> \<not> Q (f x)) \<Longrightarrow> filter Q (map f xs) = filter Q xs"
  by (induction xs) (simp, metis filter.simps(2) list.set_intros(1,2) list.simps(9))

text \<open>The update of the older rows of a key, for the key of either branch.\<close>

lemma update_older:
  assumes key: "\<And>r. P r \<Longrightarrow> P (g r)" and content: "\<And>r. row_content (g r) = c"
    and some: "\<exists>r\<in>set rs. P r"
  shows "register_of (filter P (map (\<lambda>r. if P r \<and> content_updated r \<le> content_updated c then g r else r) rs))
    = lww_put c (register_of (filter P rs))"
proof -
  define f where "f = (\<lambda>r. if P r \<and> content_updated r \<le> content_updated c then g r else r)"
  let ?C = "row_content ` set (filter P rs)"
  have P: "P (f r) = P r" for r using key by (simp add: f_def)
  have f: "row_content (f r) = (if content_updated r \<le> content_updated c then c else row_content r)"
    if "P r" for r using content that by (simp add: f_def)
  have "row_content ` set (filter P (map f rs)) = (\<lambda>r. row_content (f r)) ` {r \<in> set rs. P r}"
    using P by auto
  also have "\<dots> = (\<lambda>r. if content_updated r \<le> content_updated c then c else row_content r) ` {r \<in> set rs. P r}"
    using f by (intro image_cong) auto
  also have "\<dots> = {d \<in> ?C. content_updated c < content_updated d}
      \<union> (if \<exists>d\<in>?C. content_updated d \<le> content_updated c then {c} else {})"
    by (auto simp: image_iff not_less)
  finally have eq: "row_content ` set (filter P (map f rs)) = \<dots>" .
  have "?C \<noteq> {}" using some by auto
  then have "register_of (filter P (map f rs)) = lww_put c (register_of (filter P rs))"
    unfolding register_of_reg eq by (intro reg_write) auto
  then show ?thesis by (simp only: f_def)
qed

lemma entity_content_updated: "entity_content e = Inr c \<Longrightarrow>
    to_timestamp (as_i64 (entity_updated_at e)) = Inr (content_updated c)"
  by (auto simp: entity_content_def split: sum.splits option.splits)

lemma owned_user: "scope_user owner = Some u \<Longrightarrow> owned_sync owner r \<longleftrightarrow> row_user r = Some u"
  by (simp add: owned_sync_def owns_row_def)

lemma owned_guest: "scope_user owner = None \<Longrightarrow> owned_sync owner r \<longleftrightarrow> row_session r = scope_session owner"
  by (simp add: owned_sync_def owns_row_def)

lemma insert_sync_row_Inr:
  "insert_sync_row r db = Inr db' \<Longrightarrow> sync_rows db' = sync_rows db @ [r] \<and> sync_sessions db' = sync_sessions db
     \<and> sync_commits db' = sync_commits db \<and>
     (\<forall>q\<in>set (sync_rows db). row_session q = row_session r \<longrightarrow> row_item q \<noteq> row_item r)"
  by (auto simp: insert_sync_row_def list_ex_iff split: if_splits)

definition owner_entity :: "owner_scope \<Rightarrow> sync_entity \<Rightarrow> bool" where
  "owner_entity owner e \<longleftrightarrow> entity_session e = scope_session owner \<and> entity_user e = scope_user owner"

text \<open>The rows of the item an upsert addresses, as its statements select them.\<close>

lemma item_rows_key:
  assumes "owner_entity owner e"
  shows "item_rows owner (entity_item e) db = filter (case entity_user e of
      Some u \<Rightarrow> (\<lambda>r. row_user r = Some u \<and> row_item r = entity_item e)
    | None \<Rightarrow> (\<lambda>r. row_session r = entity_session e \<and> row_item r = entity_item e)) (sync_rows db)"
  using assms by (cases "scope_user owner")
    (auto simp: item_rows_def owner_entity_def owned_user owned_guest intro!: filter_cong)

lemma list_ex_filter: "list_ex P xs \<longleftrightarrow> filter P xs \<noteq> []"
  by (auto simp: list_ex_iff filter_empty_conv)

lemma upsert_present:
  assumes own: "owner_entity owner e" and c: "entity_content e = Inr c"
    and some: "item_rows owner (entity_item e) db \<noteq> []"
  obtains saved P g where "upsert_sync_entity e db = Inr (saved, db\<lparr>sync_rows :=
      map (\<lambda>r. if P r \<and> content_updated r \<le> content_updated c then g r else r) (sync_rows db)\<rparr>)"
    and "\<And>r. P r \<longleftrightarrow> owned_sync owner r \<and> row_item r = entity_item e" and "\<And>r. P r \<Longrightarrow> P (g r)"
    and "\<And>r. row_content (g r) = c" and "\<And>r. row_item (g r) = row_item r"
    and "\<And>r. row_session (g r) = row_session r"
proof (cases "entity_user e")
  case (Some u)
  let ?P = "\<lambda>r. row_user r = Some u \<and> row_item r = entity_item e"
  have P: "?P r \<longleftrightarrow> owned_sync owner r \<and> row_item r = entity_item e" for r
    using own Some by (auto simp: owner_entity_def owned_user [of owner u])
  have mine: "list_ex ?P (sync_rows db)"
    using some item_rows_key [OF own, of db] Some by (simp add: list_ex_filter)
  have same: "map (\<lambda>r. if ?P r \<and> content_updated r \<le> content_updated c then with_content c r else r) (sync_rows db)
      = sync_rows db" if "\<not> list_ex (\<lambda>r. ?P r \<and> content_updated r \<le> content_updated c) (sync_rows db)"
    using that by (auto simp: list_ex_iff intro!: map_idI)
  show ?thesis
    by (rule that [of "list_ex (\<lambda>r. ?P r \<and> content_updated r \<le> content_updated c) (sync_rows db)" ?P "with_content c"])
      (use mine same P c Some in \<open>auto simp: upsert_sync_entity_def upsert_for_user_def Let_def\<close>)
next
  case None
  let ?P = "\<lambda>r. row_session r = entity_session e \<and> row_item r = entity_item e"
  have P: "?P r \<longleftrightarrow> owned_sync owner r \<and> row_item r = entity_item e" for r
    using own None by (auto simp: owner_entity_def owned_guest)
  have key: "list_ex ?P (sync_rows db)"
    using some item_rows_key [OF own, of db] None by (simp add: list_ex_filter)
  show ?thesis
    by (rule that [of "list_ex (\<lambda>r. ?P r \<and> content_updated r \<le> content_updated c) (sync_rows db)" ?P
        "\<lambda>r. with_content c r\<lparr>row_user := None\<rparr>"])
      (use key P c None in \<open>auto simp: upsert_sync_entity_def upsert_for_session_def Let_def\<close>)
qed

lemma upsert_absent:
  assumes own: "owner_entity owner e" and c: "entity_content e = Inr c"
    and none: "item_rows owner (entity_item e) db = []" and u: "upsert_sync_entity e db = Inr (saved, db')"
  shows "saved" "insert_sync_row (new_sync_row e c) db = Inr db'"
proof -
  have "\<not> list_ex (case entity_user e of
      Some u \<Rightarrow> (\<lambda>r. row_user r = Some u \<and> row_item r = entity_item e)
    | None \<Rightarrow> (\<lambda>r. row_session r = entity_session e \<and> row_item r = entity_item e)) (sync_rows db)"
    using item_rows_key [OF own, of db] none by (simp add: list_ex_filter)
  then have none: "\<And>r. r \<in> set (sync_rows db) \<Longrightarrow> \<not> (case entity_user e of
      Some u \<Rightarrow> (\<lambda>r. row_user r = Some u \<and> row_item r = entity_item e)
    | None \<Rightarrow> (\<lambda>r. row_session r = entity_session e \<and> row_item r = entity_item e)) r"
    by (simp add: list_ex_iff)
  show "saved" "insert_sync_row (new_sync_row e c) db = Inr db'"
    using none u c
    by (auto simp: upsert_sync_entity_def upsert_for_user_def upsert_for_session_def Let_def list_ex_iff
        map_sum_Inr split: option.splits if_splits)
qed

lemma upsert_view:
  assumes own: "owner_entity owner e" and c: "entity_content e = Inr c"
    and u: "upsert_sync_entity e db = Inr (saved, db')"
  shows "sync_view owner db' i =
    (if i = entity_item e then lww_put c (sync_view owner db i) else sync_view owner db i)"
proof (cases "item_rows owner (entity_item e) db = []")
  case True
  have rows: "sync_rows db' = sync_rows db @ [new_sync_row e c]"
    using upsert_absent(2) [OF own c True u] by (rule insert_sync_row_Inr [THEN conjunct1])
  have new: "owned_sync owner (new_sync_row e c)" "row_item (new_sync_row e c) = entity_item e"
    using own by (auto simp: owned_sync_def owns_row_def owner_entity_def new_sync_row_def split: option.split)
  have "item_rows owner i db' = item_rows owner i db @ (if i = entity_item e then [new_sync_row e c] else [])"
    using rows new by (auto simp: item_rows_def)
  then show ?thesis
    using True by (auto simp: sync_view_def register_of_reg lww_put_None)
next
  case False
  obtain s P g where p: "upsert_sync_entity e db = Inr (s, db\<lparr>sync_rows :=
      map (\<lambda>r. if P r \<and> content_updated r \<le> content_updated c then g r else r) (sync_rows db)\<rparr>)"
    "\<And>r. P r \<longleftrightarrow> owned_sync owner r \<and> row_item r = entity_item e" "\<And>r. P r \<Longrightarrow> P (g r)"
    "\<And>r. row_content (g r) = c" "\<And>r. row_item (g r) = row_item r"
    by (rule upsert_present [OF own c False]) blast
  let ?f = "\<lambda>r. if P r \<and> content_updated r \<le> content_updated c then g r else r"
  have rows: "sync_rows db' = map ?f (sync_rows db)" using p(1) u by simp
  show ?thesis
  proof (cases "i = entity_item e")
    case True
    have sel: "item_rows owner i d = filter P (sync_rows d)" for d
      unfolding item_rows_def True p(2) ..
    have "\<exists>r\<in>set (sync_rows db). P r" using False unfolding True [symmetric] sel by (auto simp: filter_empty_conv)
    from update_older [OF p(3,4) this] show ?thesis
      using True unfolding sync_view_def sel rows by simp
  next
    case other: False
    have "item_rows owner i db' = item_rows owner i db"
      unfolding item_rows_def rows using p(2,5) other by (intro filter_map_unselected) (auto split: if_splits)
    then show ?thesis using other by (simp add: sync_view_def)
  qed
qed

section \<open>A commit writes a sequence of registers\<close>

definition item_writes :: "owner_scope \<Rightarrow> sync_item list \<Rightarrow> ustr \<Rightarrow> sync_content list" where
  "item_writes owner items i = concat (map (\<lambda>item.
     if is_valid_item item \<and> item_id item = i
     then (case entity_content (entity_of_item owner item) of Inl _ \<Rightarrow> [] | Inr c \<Rightarrow> [c]) else []) items)"

lemma owner_entity_of_item [simp]: "owner_entity owner (entity_of_item owner item)"
  by (simp add: owner_entity_def entity_of_item_def)

lemma entity_item_of_item [simp]: "entity_item (entity_of_item owner item) = item_id item"
  by (simp add: entity_of_item_def)

lemma upsert_content: "upsert_sync_entity e db = Inr r \<Longrightarrow> \<exists>c. entity_content e = Inr c"
  by (auto simp: upsert_sync_entity_def split: sum.splits)

lemma item_writes_Cons:
  "item_writes owner (item # items) i =
    (if is_valid_item item \<and> item_id item = i
     then (case entity_content (entity_of_item owner item) of Inl _ \<Rightarrow> [] | Inr c \<Rightarrow> [c]) else [])
    @ item_writes owner items i"
  by (simp add: item_writes_def)

lemma commit_items_view:
  "commit_items owner items n db = (Inr m, db') \<Longrightarrow>
    sync_view owner db' i = foldl (\<lambda>r c. lww_put c r) (sync_view owner db i) (item_writes owner items i)"
proof (induction items arbitrary: n db)
  case (Cons item items)
  show ?case
  proof (cases "is_valid_item item")
    case True
    let ?e = "entity_of_item owner item"
    obtain saved db1 where u: "upsert_sync_entity ?e db = Inr (saved, db1)"
      and rest: "commit_items owner items (if saved then n + 1 else n) db1 = (Inr m, db')"
      using Cons.prems True by (auto split: sum.splits)
    obtain c where c: "entity_content ?e = Inr c" using upsert_content [OF u] by blast
    have "sync_view owner db1 i = (if i = item_id item then lww_put c (sync_view owner db i) else sync_view owner db i)"
      using upsert_view [OF owner_entity_of_item c u] by simp
    then show ?thesis using Cons.IH [OF rest] True c by (simp add: item_writes_Cons)
  qed (use Cons in \<open>simp add: item_writes_Cons\<close>)
qed (simp add: item_writes_def)

section \<open>Writing again\<close>

lemma lww_put_time: "\<exists>t cs. lww_put c r = Some (t, cs) \<and> content_updated c \<le> t"
  by (auto simp: lww_put_def split: option.split)

text \<open>A write is lost when a later one follows, in particular when all are repeated.\<close>

lemma lww_put_put: "content_updated c \<le> content_updated d \<Longrightarrow> lww_put d (lww_put c r) = lww_put d r"
  by (auto simp: lww_put_def split: option.split)

lemma foldl_lww_ge:
  assumes "r = Some (t, cs)"
  shows "\<exists>t' cs'. foldl (\<lambda>r c. lww_put c r) r ws = Some (t', cs') \<and> t \<le> t' \<and> (\<forall>c\<in>set ws. content_updated c \<le> t')"
  using assms
proof (induction ws arbitrary: r t cs)
  case (Cons c ws)
  have "\<exists>t1 cs1. lww_put c r = Some (t1, cs1) \<and> t \<le> t1 \<and> content_updated c \<le> t1"
    using Cons.prems by (auto simp: lww_put_def)
  then obtain t1 cs1 where "lww_put c r = Some (t1, cs1)" "t \<le> t1" "content_updated c \<le> t1" by blast
  then show ?case using Cons.IH [of "lww_put c r" t1 cs1] by fastforce
qed simp

text \<open>What a register is after a sequence of writes: the last write of the latest time, if that is not past.\<close>

lemma foldl_lww_snoc_last:
  assumes "\<forall>c\<in>set ws. content_updated c \<le> content_updated d" and "\<And>t cs. r = Some (t, cs) \<Longrightarrow> t \<le> content_updated d"
  shows "foldl (\<lambda>r c. lww_put c r) r (ws @ [d]) = Some (content_updated d, {d})"
proof -
  have "\<exists>r'. foldl (\<lambda>r c. lww_put c r) r ws = r' \<and> (\<forall>t cs. r' = Some (t, cs) \<longrightarrow> t \<le> content_updated d)"
    using assms
  proof (induction ws arbitrary: r)
    case (Cons c ws)
    have "t \<le> content_updated d" if "lww_put c r = Some (t, cs)" for t cs
      using that Cons.prems by (auto simp: lww_put_def split: option.splits if_splits)
    then show ?case using Cons.IH [of "lww_put c r"] Cons.prems by simp
  qed auto
  then show ?thesis by (auto simp: lww_put_def split: option.split)
qed

lemma foldl_lww_past:
  assumes "\<forall>c\<in>set ws. content_updated c < t"
  shows "foldl (\<lambda>r c. lww_put c r) (Some (t, cs)) ws = Some (t, cs)"
  using assms by (induction ws) (auto simp: lww_put_def)

lemma latest_last:
  assumes "ws \<noteq> []"
  obtains us d vs where "ws = us @ d # vs" "\<forall>c\<in>set us. content_updated c \<le> content_updated d"
    "\<forall>c\<in>set vs. content_updated c < content_updated d"
  using assms
proof (induction ws arbitrary: thesis rule: rev_induct)
  case (snoc w ws)
  show ?case
  proof (cases "ws = []")
    case True
    then show ?thesis using snoc.prems(1) [of "[]" w "[]"] by simp
  next
    case False
    obtain us d vs where d: "ws = us @ d # vs" "\<forall>c\<in>set us. content_updated c \<le> content_updated d"
      "\<forall>c\<in>set vs. content_updated c < content_updated d" using snoc.IH [OF _ False] by metis
    show ?thesis
    proof (cases "content_updated d \<le> content_updated w")
      case True
      then show ?thesis using d snoc.prems(1) [of ws w "[]"] by fastforce
    next
      case False
      then show ?thesis using d snoc.prems(1) [of us d "vs @ [w]"] by auto
    qed
  qed
qed simp

lemma foldl_lww_twice:
  "foldl (\<lambda>r c. lww_put c r) (foldl (\<lambda>r c. lww_put c r) r ws) ws = foldl (\<lambda>r c. lww_put c r) r ws"
    (is "?put (?put r ws) ws = _")
proof (cases "ws = []")
  case False
  then obtain us d vs where d: "ws = us @ d # vs" "\<forall>c\<in>set us. content_updated c \<le> content_updated d"
    "\<forall>c\<in>set vs. content_updated c < content_updated d" by (rule latest_last)
  have split: "?put q ws = ?put (?put q (us @ [d])) vs" for q by (simp add: d(1))
  show ?thesis
  proof (cases "\<exists>t cs. r = Some (t, cs) \<and> content_updated d < t")
    case True
    then obtain t cs where r: "r = Some (t, cs)" "content_updated d < t" by blast
    have "\<forall>c\<in>set ws. content_updated c < t" using d r(2) by fastforce
    from foldl_lww_past [OF this] show ?thesis by (simp add: r(1))
  next
    case False
    have last: "?put q ws = Some (content_updated d, {d})" if "\<And>t cs. q = Some (t, cs) \<Longrightarrow> t \<le> content_updated d" for q
      unfolding split using foldl_lww_snoc_last [OF d(2) that] foldl_lww_past [OF d(3)] by simp
    have "?put r ws = Some (content_updated d, {d})" by (rule last) (use False in force)
    then show ?thesis using last [of "?put r ws"] by simp
  qed
qed simp

section \<open>A retried commit\<close>

lemma sync_view_None: "sync_view owner db i = None \<longleftrightarrow> item_rows owner i db = []"
  by (simp add: sync_view_def register_of_def Let_def)

lemma lww_put_Some [simp]: "lww_put c r \<noteq> None"
  using lww_put_time [of c r] by auto

lemma foldl_lww_None: "foldl (\<lambda>r c. lww_put c r) r ws = None \<longleftrightarrow> r = None \<and> ws = []"
  by (induction ws arbitrary: r) auto

lemma upsert_frame:
  "upsert_sync_entity e db = Inr (saved, db') \<Longrightarrow>
    sync_commits db' = sync_commits db \<and> sync_sessions db' = sync_sessions db"
  by (auto simp: upsert_sync_entity_def upsert_for_user_def upsert_for_session_def Let_def map_sum_Inr
      dest!: insert_sync_row_Inr split: sum.splits option.splits if_splits)

lemma commit_items_frame:
  "commit_items owner items n db = (r, db') \<Longrightarrow>
    sync_commits db' = sync_commits db \<and> sync_sessions db' = sync_sessions db"
proof (induction items arbitrary: n db)
  case (Cons item items)
  show ?case
  proof (cases "is_valid_item item")
    case True
    show ?thesis
    proof (cases "upsert_sync_entity (entity_of_item owner item) db")
      case (Inr q)
      then show ?thesis
        using Cons True upsert_frame [of "entity_of_item owner item" db "fst q" "snd q"]
        by (auto split: prod.splits)
    qed (use Cons True in auto)
  qed (use Cons in simp)
qed simp

lemma commit_items_contents:
  "commit_items owner items n db = (Inr m, db') \<Longrightarrow> item \<in> set items \<Longrightarrow> is_valid_item item \<Longrightarrow>
    \<exists>c. entity_content (entity_of_item owner item) = Inr c"
proof (induction items arbitrary: n db)
  case (Cons i items)
  show ?case
  proof (cases "is_valid_item i")
    case True
    then obtain q where u: "upsert_sync_entity (entity_of_item owner i) db = Inr q"
      using Cons.prems(1) by (auto split: sum.splits)
    then have "commit_items owner items (if fst q then n + 1 else n) (snd q) = (Inr m, db')"
      using Cons.prems(1) True by (cases q) (auto split: if_splits)
    then show ?thesis using Cons.IH Cons.prems(2,3) upsert_content [OF u] by auto
  qed (use Cons in auto)
qed simp

lemma commit_items_present:
  assumes run: "commit_items owner items n db = (Inr m, db')" and item: "item \<in> set items" "is_valid_item item"
  shows "item_rows owner (item_id item) db' \<noteq> []"
proof -
  obtain c where c: "entity_content (entity_of_item owner item) = Inr c"
    using commit_items_contents [OF run item] by blast
  have "c \<in> set (item_writes owner items (item_id item))"
    unfolding item_writes_def using item c by (simp add: bexI [of _ item])
  then have "item_writes owner items (item_id item) \<noteq> []" by auto
  then show ?thesis
    unfolding sync_view_None [symmetric] commit_items_view [OF run] foldl_lww_None by simp
qed

lemma commit_items_again:
  assumes "\<forall>item\<in>set items. is_valid_item item \<longrightarrow>
      (\<exists>c. entity_content (entity_of_item owner item) = Inr c) \<and> item_rows owner (item_id item) db \<noteq> []"
  shows "\<exists>m db'. commit_items owner items n db = (Inr m, db')"
  using assms
proof (induction items arbitrary: n db)
  case (Cons item items)
  show ?case
  proof (cases "is_valid_item item")
    case True
    let ?e = "entity_of_item owner item"
    obtain c where c: "entity_content ?e = Inr c" and rows: "item_rows owner (item_id item) db \<noteq> []"
      using Cons.prems True by auto
    obtain saved db1 where u: "upsert_sync_entity ?e db = Inr (saved, db1)"
      by (rule upsert_present [OF owner_entity_of_item c]) (use rows in auto)
    have "sync_view owner db1 i \<noteq> None" if "sync_view owner db i \<noteq> None" for i
      using that unfolding upsert_view [OF owner_entity_of_item c u] by (simp del: not_None_eq)
    then have "item_rows owner i db1 \<noteq> []" if "item_rows owner i db \<noteq> []" for i
      using that unfolding sync_view_None by blast
    then have "\<forall>item\<in>set items. is_valid_item item \<longrightarrow>
        (\<exists>c. entity_content (entity_of_item owner item) = Inr c) \<and> item_rows owner (item_id item) db1 \<noteq> []"
      using Cons.prems by simp
    from Cons.IH [OF this] show ?thesis using True u by simp
  qed (use Cons in simp)
qed simp

lemma save_sync_commit_Inr:
  "save_sync_commit now s u op m k db = Inr (c, db') \<Longrightarrow>
    get_sync_commit s op db' = Some c \<and> sync_rows db' = sync_rows db \<and> sync_sessions db' = sync_sessions db"
  by (auto simp: save_sync_commit_def get_sync_commit_def find_append Let_def split: option.splits if_splits)

section \<open>Properties of a commit\<close>

text \<open>
  C38: a successful commit writes each register of its owner once per valid item for it, in their order,
  and a write is kept unless the register holds a later time: the tables, with the rows of several
  sessions behind an account, implement a map of last-writer-wins registers.
\<close>

theorem sync_commit_refines_registers:
  assumes "sync_commit_handler now session operation items db = (Inr c, db')"
  shows "sync_view (scope_from_session session) db' i =
    foldl (\<lambda>r w. lww_put w r) (sync_view (scope_from_session session) db i)
      (item_writes (scope_from_session session) items i)"
proof -
  let ?o = "scope_from_session session"
  obtain m db1 where run: "commit_items ?o items 0 db = (Inr m, db1)"
    and save: "save_sync_commit now (session_id session) (session_user session) operation m 0 db1 = Inr (c, db')"
    using assms by (auto simp: sync_commit_handler_def split: if_splits prod.splits sum.splits)
  have "sync_view ?o db' i = sync_view ?o db1 i"
    using save_sync_commit_Inr [OF save] by (simp add: sync_view_def item_rows_def)
  then show ?thesis unfolding commit_items_view [OF run] .
qed

definition demo_session :: session_record where
  "demo_session = \<lparr>session_id = 1, session_user = 2, session_kind = Registered, session_created_at = 0\<rparr>"

definition demo_item :: "ustr \<Rightarrow> sync_item" where
  "demo_item i = \<lparr>item_id = i, item_type = [115], updated_at = 10, deleted_at = None, payload = []\<rparr>"

definition demo_sync_db :: sync_db where
  "demo_sync_db = \<lparr>sync_sessions = {1}, sync_rows = [], sync_commits = []\<rparr>"

definition demo_row :: "ustr \<Rightarrow> sync_row" where
  "demo_row i = \<lparr>content_type = [115], content_updated = 10, content_deleted = None, content_payload = [],
     row_session = 1, row_user = Some 2, row_item = i\<rparr>"

definition demo_commit :: sync_commit where
  "demo_commit = \<lparr>commit_operation = [111], commit_session = 1, commit_user = 2, merged_count = 2,
     conflict_count = 0, committed_at = 5\<rparr>"

lemma demo_commit_run:
  "sync_commit_handler 5 demo_session [111] [demo_item [97], demo_item [98]] demo_sync_db =
    (Inr demo_commit, demo_sync_db\<lparr>sync_rows := [demo_row [97], demo_row [98]], sync_commits := [demo_commit]\<rparr>)"
  by (simp add: sync_commit_handler_def demo_session_def demo_item_def demo_sync_db_def demo_row_def demo_commit_def
      scope_from_session_def is_valid_item_def trim_by_def is_whitespace_def upsert_sync_entity_def
      entity_content_def entity_of_item_def to_timestamp_def upsert_for_user_def new_sync_row_def
      insert_sync_row_def save_sync_commit_def get_sync_commit_def Let_def)

theorem sync_commit_refines_registers_witness:
  "sync_view (scope_from_session demo_session)
     (demo_sync_db\<lparr>sync_rows := [demo_row [97], demo_row [98]], sync_commits := [demo_commit]\<rparr>) [97] =
   foldl (\<lambda>r w. lww_put w r) (sync_view (scope_from_session demo_session) demo_sync_db [97])
     (item_writes (scope_from_session demo_session) [demo_item [97], demo_item [98]] [97])"
  by (rule sync_commit_refines_registers [OF demo_commit_run])

text \<open>
  A commit can be retried: sent again after it succeeded, it succeeds with the response it had, and
  every register of the owner is as it was.
\<close>

theorem sync_commit_retry:
  assumes "sync_commit_handler now session operation items db = (Inr c, db1)"
  shows "\<exists>db2. sync_commit_handler now' session operation items db1 = (Inr c, db2) \<and>
    sync_view (scope_from_session session) db2 = sync_view (scope_from_session session) db1"
proof -
  let ?o = "scope_from_session session"
  obtain m db' where run: "commit_items ?o items 0 db = (Inr m, db')"
    and save: "save_sync_commit now (session_id session) (session_user session) operation m 0 db' = Inr (c, db1)"
    and op: "trim_by is_whitespace operation \<noteq> []"
    using assms by (auto simp: sync_commit_handler_def split: if_splits prod.splits sum.splits)
  note saved = save_sync_commit_Inr [OF save]
  have rows: "item_rows ?o i db1 = item_rows ?o i db'" for i using saved by (simp add: item_rows_def)
  have "\<forall>item\<in>set items. is_valid_item item \<longrightarrow>
      (\<exists>c. entity_content (entity_of_item ?o item) = Inr c) \<and> item_rows ?o (item_id item) db1 \<noteq> []"
    using commit_items_contents [OF run] commit_items_present [OF run] unfolding rows by blast
  then obtain m' db2 where again: "commit_items ?o items 0 db1 = (Inr m', db2)"
    using commit_items_again by blast
  have "get_sync_commit (session_id session) operation db2 = Some c"
    using commit_items_frame [OF again] saved by (simp add: get_sync_commit_def)
  then have "sync_commit_handler now' session operation items db1 = (Inr c, db2)"
    using op again by (simp add: sync_commit_handler_def save_sync_commit_def)
  moreover have "sync_view ?o db2 i = sync_view ?o db1 i" for i
  proof -
    have "sync_view ?o db1 i = sync_view ?o db' i" by (simp only: sync_view_def rows)
    then show ?thesis
      unfolding commit_items_view [OF again] using foldl_lww_twice commit_items_view [OF run] by simp
  qed
  ultimately show ?thesis by auto
qed

theorem sync_commit_retry_witness:
  "\<exists>db2. sync_commit_handler 9 demo_session [111] [demo_item [97], demo_item [98]]
      (demo_sync_db\<lparr>sync_rows := [demo_row [97], demo_row [98]], sync_commits := [demo_commit]\<rparr>)
      = (Inr demo_commit, db2) \<and>
    sync_view (scope_from_session demo_session) db2 = sync_view (scope_from_session demo_session)
      (demo_sync_db\<lparr>sync_rows := [demo_row [97], demo_row [98]], sync_commits := [demo_commit]\<rparr>)"
  by (rule sync_commit_retry [OF demo_commit_run])

end
