(* ===== verification/Sync_Pages.thy ===== *)
theory Sync_Pages
  imports Sync_Props
begin

text \<open>
  Reading the changes page by page: \<open>sync_pages n\<close> is what a client receives that asks \<open>n\<close> times, each
  time with the cursor of the answer before. As many pages as there are rows are enough.
\<close>

section \<open>Pages\<close>

fun sync_pages :: "nat \<Rightarrow> owner_scope \<Rightarrow> nat option \<Rightarrow> nat \<Rightarrow> sync_db \<Rightarrow> sync_item list" where
  "sync_pages 0 owner limit cursor db = []"
| "sync_pages (Suc n) owner limit cursor db =
     (let r = sync_changes owner (Some cursor) limit db
      in changed_items r @ sync_pages n owner limit (next_cursor r) db)"

definition item_of_row :: "sync_row \<Rightarrow> sync_item" where
  "item_of_row r = item_of_entity (entity_of_row r)"

definition times_ok :: "sync_db \<Rightarrow> bool" where
  "times_ok db \<longleftrightarrow> list_all (\<lambda>r. content_updated r < 2 ^ 63) (sync_rows db)"

lemma page_limit_pos [simp]: "0 < page_limit limit"
  by (auto simp: page_limit_def split: option.split)

lemma page_limit_neq [simp]: "page_limit limit \<noteq> 0"
  using page_limit_pos [of limit] by simp

lemma item_of_row_id [simp]: "item_id (item_of_row r) = row_item r"
  by (simp add: item_of_row_def item_of_entity_def entity_of_row_def)

section \<open>Later cursors\<close>

lemma distinct_on_filter:
  "(\<And>k. sorted_wrt (\<lambda>x y. Q y \<longrightarrow> Q x) (filter (\<lambda>y. f y = k) xs)) \<Longrightarrow>
    distinct_on f (filter Q xs) = filter Q (distinct_on f xs)"
proof (induction f xs rule: distinct_on.induct)
  case (2 f x xs)
  let ?ys = "filter (\<lambda>y. f y \<noteq> f x) xs"
  have ih: "distinct_on f (filter Q ?ys) = filter Q (distinct_on f ?ys)"
  proof (rule "2.IH")
    fix k
    have "filter (\<lambda>y. f y = k) ?ys = (if k = f x then [] else filter (\<lambda>y. f y = k) (x # xs))"
      by (auto intro: filter_cong)
    then show "sorted_wrt (\<lambda>x y. Q y \<longrightarrow> Q x) (filter (\<lambda>y. f y = k) ?ys)"
      using "2.prems" [of k] by (cases "k = f x") auto
  qed
  show ?case
  proof (cases "Q x")
    case True
    have "filter (\<lambda>y. f y \<noteq> f x) (filter Q xs) = filter Q ?ys" by (auto intro: filter_cong)
    then show ?thesis using True ih by simp
  next
    case False
    have "\<forall>y\<in>set xs. f y = f x \<longrightarrow> \<not> Q y" using "2.prems" [of "f x"] False by auto
    then have "filter Q xs = filter Q ?ys" by (auto intro: filter_cong)
    then show ?thesis using False ih by simp
  qed
qed simp

lemma newer_rows_later:
  assumes "c \<le> t"
  shows "newer_rows owner t db = filter (\<lambda>r. t < content_updated r) (newer_rows owner c db)"
proof -
  have "filter (\<lambda>r. owned_sync owner r \<and> t < content_updated r) (sync_rows db) =
      filter (\<lambda>r. t < content_updated r) (filter (\<lambda>r. owned_sync owner r \<and> c < content_updated r) (sync_rows db))"
    using assms by (auto intro: filter_cong)
  then show ?thesis by (simp only: newer_rows_def filter_sort rev_filter [symmetric])
qed

lemma newer_rows_group:
  "sorted_wrt (\<lambda>x y. content_updated y \<le> content_updated x) (filter (\<lambda>r. row_item r = k) (newer_rows owner c db))"
proof -
  let ?s = "sort_key content_updated
      (filter (\<lambda>r. owned_sync owner r \<and> c < content_updated r) (sync_rows db))"
  have "sorted_wrt (\<lambda>x y. content_updated x \<le> content_updated y) ?s"
    using sorted_sort_key [of content_updated] unfolding sorted_map .
  then show ?thesis
    unfolding newer_rows_def sort_key_stable by (simp add: sorted_wrt_rev sorted_wrt_filter)
qed

lemma latest_rows_later:
  assumes "c \<le> t"
  shows "latest_rows owner t db = filter (\<lambda>r. t < content_updated r) (latest_rows owner c db)"
proof -
  have "sorted_wrt (\<lambda>x y. t < content_updated y \<longrightarrow> t < content_updated x)
      (filter (\<lambda>r. row_item r = k) (newer_rows owner c db))" for k
    by (rule sorted_wrt_mono_rel [OF _ newer_rows_group]) auto
  then show ?thesis
    unfolding latest_rows_def newer_rows_later [OF assms] by (simp only: distinct_on_filter filter_sort)
qed

lemma set_distinct_on: "set (distinct_on f xs) \<subseteq> set xs"
  by (induction f xs rule: distinct_on.induct) auto

lemma distinct_on_keys: "distinct (map f (distinct_on f xs))"
proof (induction f xs rule: distinct_on.induct)
  case (2 f x xs)
  then show ?case using set_distinct_on [of f "filter (\<lambda>y. f y \<noteq> f x) xs"] by auto
qed simp

lemma length_distinct_on: "length (distinct_on f xs) \<le> length xs"
  by (induction f xs rule: distinct_on.induct) (auto intro: order_trans simp: le_SucI order_trans [OF _ length_filter_le])

lemma latest_rows_keys: "distinct (map row_item (latest_rows owner c db))"
proof -
  have "distinct (map row_item (distinct_on row_item (newer_rows owner c db)))" by (rule distinct_on_keys)
  then show ?thesis unfolding latest_rows_def by (simp add: distinct_map)
qed

lemma latest_rows_set: "r \<in> set (latest_rows owner c db) \<Longrightarrow>
    r \<in> set (sync_rows db) \<and> owned_sync owner r \<and> c < content_updated r"
  using set_distinct_on [of row_item "newer_rows owner c db"] by (auto simp: latest_rows_def newer_rows_def)

lemma latest_rows_length: "length (latest_rows owner c db) \<le> length (sync_rows db)"
  using length_distinct_on [of row_item "newer_rows owner c db"]
  by (auto simp: latest_rows_def newer_rows_def intro: order_trans)

lemma latest_rows_sorted: "sorted (map content_updated (latest_rows owner c db))"
  by (simp add: latest_rows_def)

section \<open>One page\<close>

lemma foldl_advance:
  "(\<forall>e\<in>set es. c \<le> entity_updated_at e) \<Longrightarrow> sorted (map entity_updated_at es) \<Longrightarrow>
    foldl (\<lambda>c e. advance_cursor c (entity_updated_at e)) c es =
      (if es = [] then c else entity_updated_at (last es))"
  by (induction es arbitrary: c) (auto simp: advance_cursor_def max_def)

lemma sync_changes_page:
  fixes owner :: owner_scope and limit :: "nat option"
  assumes c: "c < 2 ^ 63" and ok: "times_ok db"
  defines "page \<equiv> take (page_limit limit) (latest_rows owner (int c) db)"
  shows "changed_items (sync_changes owner (Some c) limit db) = map item_of_row page"
    and "next_cursor (sync_changes owner (Some c) limit db) =
      (if page = [] then c else nat (content_updated (last page)))"
proof -
  show "changed_items (sync_changes owner (Some c) limit db) = map item_of_row page"
    using c by (simp add: sync_changes_def list_sync_entities_since_def page_def item_of_row_def o_def Let_def)
  have row: "int c < content_updated r \<and> content_updated r < 2 ^ 63" if "r \<in> set page" for r
    using that latest_rows_set [of r owner "int c" db] ok set_take_subset
    by (force simp: page_def times_ok_def list_all_iff)
  have u64: "as_u64 (content_updated r) = nat (content_updated r)" if "r \<in> set page" for r
    using row [OF that] by (simp add: as_u64_def)
  have "foldl (\<lambda>c e. advance_cursor c (entity_updated_at e)) c (map entity_of_row page) =
      (if map entity_of_row page = [] then c else entity_updated_at (last (map entity_of_row page)))"
  proof (rule foldl_advance)
    show "\<forall>e\<in>set (map entity_of_row page). c \<le> entity_updated_at e"
      using row u64 by (fastforce simp: entity_of_row_def)
    have "sorted (map content_updated page)"
      using latest_rows_sorted by (simp add: page_def take_map [symmetric] sorted_wrt_take)
    then have "sorted (map (\<lambda>r. nat (content_updated r)) page)"
      by (auto simp: sorted_wrt_map elim!: sorted_wrt_mono_rel [rotated])
    then show "sorted (map entity_updated_at (map entity_of_row page))"
      using u64 by (simp add: entity_of_row_def o_def cong: map_cong)
  qed
  then show "next_cursor (sync_changes owner (Some c) limit db) =
      (if page = [] then c else nat (content_updated (last page)))"
    using c u64 last_in_set [of page]
    by (auto simp: sync_changes_def list_sync_entities_since_def page_def Let_def last_map entity_of_row_def)
qed

lemma next_cursor_small:
  assumes "c < 2 ^ 63" "times_ok db"
  shows "next_cursor (sync_changes owner (Some c) limit db) < 2 ^ 63"
    and "c \<le> next_cursor (sync_changes owner (Some c) limit db)"
proof -
  let ?page = "take (page_limit limit) (latest_rows owner (int c) db)"
  have "int c < content_updated (last ?page) \<and> content_updated (last ?page) < 2 ^ 63" if "?page \<noteq> []"
    using latest_rows_set [of "last ?page" owner "int c" db] last_in_set [OF that] set_take_subset assms(2)
    by (force simp: times_ok_def list_all_iff)
  then show "next_cursor (sync_changes owner (Some c) limit db) < 2 ^ 63"
    "c \<le> next_cursor (sync_changes owner (Some c) limit db)"
    using sync_changes_page(2) [OF assms, of owner limit] assms(1) by auto
qed

text \<open>After a page that is not empty, what is left is what is later than its last row.\<close>

lemma latest_rows_next:
  assumes "c < 2 ^ 63" "times_ok db"
  shows "latest_rows owner (int (next_cursor (sync_changes owner (Some c) limit db))) db =
    (let rs = latest_rows owner (int c) db; page = take (page_limit limit) rs
     in if page = [] then rs else filter (\<lambda>r. content_updated (last page) < content_updated r) rs)"
proof -
  let ?rs = "latest_rows owner (int c) db"
  let ?page = "take (page_limit limit) ?rs"
  have "int c < content_updated (last ?page)" if "?page \<noteq> []"
    using latest_rows_set [of "last ?page" owner "int c" db] last_in_set [OF that] set_take_subset by force
  then show ?thesis
    using sync_changes_page(2) [OF assms, of owner limit] latest_rows_later [of "int c" "content_updated (last ?page)"]
    by (auto simp: Let_def)
qed

lemma strict_drop:
  assumes "sorted (map f rs)" "distinct (map f rs)" "take k rs \<noteq> []"
  shows "filter (\<lambda>r. f (last (take k rs)) < f r) rs = drop k rs"
proof -
  have split: "rs = take k rs @ drop k rs" by simp
  have s: "sorted (map f (take k rs) @ map f (drop k rs))" "distinct (map f (take k rs) @ map f (drop k rs))"
    using assms(1,2) by (simp_all flip: map_append)
  let ?l = "last (take k rs)"
  have l: "?l \<in> set (take k rs)" using assms(3) by (rule last_in_set)
  have "filter (\<lambda>r. f ?l < f r) (take k rs) = []"
  proof -
    have "f r \<le> f ?l" if "r \<in> set (take k rs)" for r
    proof -
      have "take k rs = butlast (take k rs) @ [?l]" using assms(3) by simp
      then obtain ys where ys: "take k rs = ys @ [?l]" by blast
      have "sorted (map f (ys @ [?l]))" using s(1) unfolding ys [symmetric] by (simp add: sorted_append)
      moreover have "r \<in> set (ys @ [?l])" using that unfolding ys [symmetric] .
      ultimately show ?thesis by (auto simp: sorted_append)
    qed
    then show ?thesis by (simp add: filter_empty_conv not_less)
  qed
  moreover have "filter (\<lambda>r. f ?l < f r) (drop k rs) = drop k rs"
  proof (rule filter_True, rule ballI)
    fix r assume r: "r \<in> set (drop k rs)"
    have "f ?l \<le> f r" using s(1) l r by (auto simp: sorted_append)
    moreover have "f ?l \<noteq> f r" using s(2) l r by force
    ultimately show "f ?l < f r" by simp
  qed
  ultimately show ?thesis
    using filter_append [of "\<lambda>r. f ?l < f r" "take k rs" "drop k rs"] by simp
qed

section \<open>Properties\<close>

text \<open>
  C39: when no two items an owner has not read carry the same time, a client that follows the cursor from
  any time on receives, within as many requests as there are rows, each of those items exactly once, in
  the order of their times, whatever the page size.
\<close>

theorem sync_pages_complete:
  assumes "c < 2 ^ 63" "times_ok db" "distinct (map content_updated (latest_rows owner (int c) db))"
    and "length (sync_rows db) \<le> n"
  shows "sync_pages n owner limit c db = map item_of_row (latest_rows owner (int c) db)"
proof -
  have "length (latest_rows owner (int c) db) \<le> n" using latest_rows_length assms(4) by (rule order_trans)
  then show ?thesis
    using assms(1,3)
  proof (induction n arbitrary: c)
    case (Suc n)
    let ?rs = "latest_rows owner (int c) db" and ?k = "page_limit limit"
    let ?c = "next_cursor (sync_changes owner (Some c) limit db)"
    have rest: "latest_rows owner (int ?c) db = drop ?k ?rs"
      using latest_rows_next [OF Suc.prems(2) assms(2), of owner limit] strict_drop [OF latest_rows_sorted Suc.prems(3)]
      by (auto simp: Let_def)
    have "sync_pages n owner limit ?c db = map item_of_row (drop ?k ?rs)"
      unfolding rest [symmetric]
    proof (rule Suc.IH)
      show "length (latest_rows owner (int ?c) db) \<le> n"
        using Suc.prems(1) page_limit_pos [of limit] unfolding rest length_drop by linarith
      show "?c < 2 ^ 63" by (rule next_cursor_small(1) [OF Suc.prems(2) assms(2)])
      show "distinct (map content_updated (latest_rows owner (int ?c) db))"
        unfolding rest drop_map [symmetric] using Suc.prems(3) by (rule distinct_drop)
    qed
    then show ?case
      using sync_changes_page(1) [OF Suc.prems(2) assms(2), of owner limit]
      by (simp add: Let_def flip: map_append)
  qed simp
qed

lemma sync_pages_subset:
  assumes "times_ok db" "c < 2 ^ 63"
  shows "set (sync_pages n owner limit c db) \<subseteq> item_of_row ` set (latest_rows owner (int c) db)"
  using assms(2)
proof (induction n arbitrary: c)
  case (Suc n)
  let ?c = "next_cursor (sync_changes owner (Some c) limit db)"
  note small = next_cursor_small [OF Suc.prems assms(1), of owner limit]
  have "set (sync_pages n owner limit ?c db) \<subseteq> item_of_row ` set (latest_rows owner (int ?c) db)"
    by (rule Suc.IH [OF small(1)])
  also have "\<dots> \<subseteq> item_of_row ` set (latest_rows owner (int c) db)"
    using latest_rows_later [of "int c" "int ?c" owner db] small(2) by auto
  finally show ?case
    using sync_changes_page(1) [OF Suc.prems assms(1), of owner limit] set_take_subset
    by (fastforce simp: Let_def)
qed simp

text \<open>
  C40: when a page ends between two items of the same time, the second is never received, however often the
  client asks: the cursor is the time alone and the next page starts strictly after it.
\<close>

theorem sync_pages_skip_tie:
  assumes "c < 2 ^ 63" "times_ok db" "latest_rows owner (int c) db = us @ a # b # vs"
    and "Suc (length us) = page_limit limit" "content_updated a = content_updated b"
  shows "item_of_row b \<notin> set (sync_pages n owner limit c db)"
proof (cases n)
  case (Suc m)
  let ?rs = "latest_rows owner (int c) db"
  let ?c = "next_cursor (sync_changes owner (Some c) limit db)"
  have page: "take (page_limit limit) ?rs = us @ [a]" unfolding assms(3) assms(4) [symmetric] by simp
  have keys: "distinct (map row_item (us @ a # b # vs))" using latest_rows_keys [of owner "int c" db] assms(3) by simp
  have other: "item_of_row b \<notin> item_of_row ` A" if "row_item b \<notin> row_item ` A" for A
    using that item_of_row_id by (metis (no_types, opaque_lifting) imageE imageI)
  have "item_of_row b \<notin> item_of_row ` set (us @ [a])" by (rule other) (use keys in auto)
  moreover have "item_of_row b \<notin> item_of_row ` set (latest_rows owner (int ?c) db)"
  proof (rule other)
    have "latest_rows owner (int ?c) db = filter (\<lambda>r. content_updated a < content_updated r) (us @ a # b # vs)"
      using latest_rows_next [OF assms(1,2), of owner limit] unfolding Let_def page by (simp add: assms(3))
    then have "set (latest_rows owner (int ?c) db) \<subseteq> set us \<union> {a} \<union> set vs" using assms(5) by auto
    then show "row_item b \<notin> row_item ` set (latest_rows owner (int ?c) db)" using keys by auto
  qed
  moreover have "set (sync_pages m owner limit ?c db) \<subseteq> item_of_row ` set (latest_rows owner (int ?c) db)"
    by (rule sync_pages_subset [OF assms(2) next_cursor_small(1) [OF assms(1,2)]])
  ultimately show ?thesis
    using sync_changes_page(1) [OF assms(1,2), of owner limit] unfolding Suc page by (auto simp: Let_def)
qed simp

text \<open>The rows two accepted items of the same time leave, read one by one.\<close>

definition tie_db :: sync_db where
  "tie_db = demo_sync_db\<lparr>sync_rows := [demo_row [97], demo_row [98]], sync_commits := [demo_commit]\<rparr>"

lemma tie_latest: "latest_rows (scope_from_session demo_session) 0 tie_db = [demo_row [97], demo_row [98]]"
  by (simp add: latest_rows_def newer_rows_def tie_db_def demo_row_def owned_sync_def owns_row_def
      scope_from_session_def demo_session_def)

theorem sync_pages_skip_tie_witness:
  "item_of_row (demo_row [98]) \<notin> set (sync_pages 5 (scope_from_session demo_session) (Some 1) 0 tie_db)"
proof (rule sync_pages_skip_tie [where us = "[]" and vs = "[]" and a = "demo_row [97]"])
  show "latest_rows (scope_from_session demo_session) (int 0) tie_db = [] @ demo_row [97] # demo_row [98] # []"
    using tie_latest by simp
qed (simp_all add: times_ok_def tie_db_def demo_row_def page_limit_def)

theorem sync_pages_complete_witness:
  "sync_pages 1 (scope_from_session demo_session) (Some 1) 0 (tie_db\<lparr>sync_rows := [demo_row [97]]\<rparr>) =
     [item_of_row (demo_row [97])]"
proof -
  have latest: "latest_rows (scope_from_session demo_session) 0 (tie_db\<lparr>sync_rows := [demo_row [97]]\<rparr>) = [demo_row [97]]"
    by (simp add: latest_rows_def newer_rows_def tie_db_def demo_row_def owned_sync_def owns_row_def
        scope_from_session_def demo_session_def)
  show ?thesis
    using sync_pages_complete [of 0 "tie_db\<lparr>sync_rows := [demo_row [97]]\<rparr>" "scope_from_session demo_session" 1 "Some 1"]
    by (simp add: latest times_ok_def) (simp add: demo_row_def)
qed

end
