(* ===== verification/Chat_Tables.thy ===== *)
theory Chat_Tables
  imports Store_Records Unicode_Chars F32
begin

text \<open>
  The tables behind chats: \<open>chats\<close>, \<open>chat_messages\<close>, \<open>chat_attachments\<close>, the queue
  \<open>chat_attachment_file_deletions\<close>, and the memory tables that refer to them. A table is the list of its
  rows; the messages are in the order of their \<open>sort_order\<close>. A timestamp is a number of microseconds.
  The foreign keys with \<open>on delete cascade\<close> and \<open>on delete set null\<close> and the trigger that queues the file
  of a deleted attachment are part of the delete operations, as the migrations declare them. Columns of
  type \<open>double precision\<close> hold finite binary64 values.
\<close>

section \<open>Times and floating point\<close>

type_synonym micros = int

definition timestamp_of_seconds :: "int \<Rightarrow> store_error + micros" where
  "timestamp_of_seconds s = map_sum id (\<lambda>t. t * 1000000) (to_timestamp s)"

text \<open>\<open>extract(epoch from t)::bigint\<close> rounds half away from zero.\<close>

definition epoch_seconds :: "micros \<Rightarrow> int" where
  "epoch_seconds t =
     (if 0 \<le> t then (t + 500000) div 1000000 else - ((500000 - t) div 1000000))"

definition f64_ulp :: "rat \<Rightarrow> rat" where
  "f64_ulp q =
     (if 1 \<le> q then 2 ^ exponent_above 1023 q / 2 ^ 52 else 1 / 2 ^ (exponent_below 1022 q + 52))"

text \<open>Rounding of a non-negative number far below the overflow.\<close>

definition f64_round :: "rat \<Rightarrow> rat" where
  "f64_round q = of_int (round_half_even (q / f64_ulp q)) * f64_ulp q"

section \<open>Rows\<close>

record chat_row =
  chat_id :: uuid
  chat_session :: uuid
  chat_user :: "uuid option"
  chat_character :: ustr
  chat_profile :: ustr
  chat_created :: micros
  chat_updated :: micros

record message_row =
  msg_id :: uuid
  msg_chat :: uuid
  msg_role :: string
  msg_content :: ustr
  msg_created :: micros

record attachment_row =
  att_id :: uuid
  att_session :: uuid
  att_user :: "uuid option"
  att_chat :: "uuid option"
  att_message :: "uuid option"
  att_kind :: ustr
  att_mime :: ustr
  att_size :: int
  att_width :: "int option"
  att_height :: "int option"
  att_sha :: ustr
  att_key :: ustr
  att_created :: micros
  att_deleted :: "micros option"

record file_deletion_row =
  fd_key :: ustr
  fd_size :: int
  fd_session :: "uuid option"
  fd_user :: "uuid option"
  fd_attempts :: nat
  fd_next :: micros
  fd_claim :: "(uuid \<times> micros) option"
  fd_created :: micros

record memory_row =
  mem_id :: uuid
  mem_session :: uuid
  mem_user :: "uuid option"
  mem_character :: ustr
  mem_key :: ustr
  mem_kind :: ustr
  mem_content :: ustr
  mem_tags :: "ustr list"
  mem_confidence :: rat
  mem_importance :: rat
  mem_reinforced :: micros
  mem_expires :: "micros option"
  mem_created :: micros
  mem_updated :: micros

record source_row =
  src_id :: uuid
  src_memory :: uuid
  src_chat :: uuid
  src_message :: "uuid option"
  src_strength :: rat
  src_created :: micros

datatype job_status = JobPending | JobProcessing | JobRetry | JobCompleted | JobDead

record job_row =
  job_id :: uuid
  job_chat :: uuid
  job_user_message :: uuid
  job_assistant_message :: uuid
  job_session :: uuid
  job_user :: "uuid option"
  job_character :: ustr
  job_status :: job_status
  job_attempts :: nat
  job_max_attempts :: nat
  job_available :: micros
  job_locked :: "micros option"
  job_error :: "ustr option"
  job_timezone :: ustr
  job_created :: micros

record follow_up_row =
  fu_id :: uuid
  fu_claim :: uuid
  fu_memory :: uuid
  fu_session :: uuid
  fu_user :: "uuid option"
  fu_character :: ustr
  fu_prompt :: ustr
  fu_shown :: micros
  fu_chat :: "uuid option"

record chat_db =
  db_sessions :: "uuid set"
  chats :: "chat_row list"
  messages :: "message_row list"
  attachments :: "attachment_row list"
  file_deletions :: "file_deletion_row list"
  memories :: "memory_row list"
  sources :: "source_row list"
  jobs :: "job_row list"
  follow_ups :: "follow_up_row list"

definition empty_chat_db :: "uuid set \<Rightarrow> chat_db" where
  "empty_chat_db sessions =
     \<lparr>db_sessions = sessions, chats = [], messages = [], attachments = [], file_deletions = [],
      memories = [], sources = [], jobs = [], follow_ups = []\<rparr>"

section \<open>The queue of files\<close>

text \<open>The trigger \<open>wfchat_enqueue_chat_attachment_file_deletion\<close>, for one deleted row.\<close>

definition new_file_deletion :: "micros \<Rightarrow> attachment_row \<Rightarrow> file_deletion_row" where
  "new_file_deletion now a =
     \<lparr>fd_key = att_key a, fd_size = att_size a, fd_session = Some (att_session a), fd_user = att_user a,
      fd_attempts = 0, fd_next = now, fd_claim = None, fd_created = now\<rparr>"

definition requeue_file :: "micros \<Rightarrow> attachment_row \<Rightarrow> file_deletion_row \<Rightarrow> file_deletion_row" where
  "requeue_file now a d =
     d\<lparr>fd_size := att_size a, fd_session := Some (att_session a),
       fd_user := coalesce (att_user a) (fd_user d), fd_next := min (fd_next d) now\<rparr>"

definition enqueue_file ::
  "micros \<Rightarrow> attachment_row \<Rightarrow> file_deletion_row list \<Rightarrow> file_deletion_row list" where
  "enqueue_file now a ds =
     (if list_ex (\<lambda>d. fd_key d = att_key a) ds
      then map (\<lambda>d. if fd_key d = att_key a then requeue_file now a d else d) ds
      else ds @ [new_file_deletion now a])"

section \<open>Deleting rows\<close>

definition delete_attachments :: "micros \<Rightarrow> (attachment_row \<Rightarrow> bool) \<Rightarrow> chat_db \<Rightarrow> chat_db" where
  "delete_attachments now P db =
     db\<lparr>attachments := filter (\<lambda>a. \<not> P a) (attachments db),
        file_deletions := fold (enqueue_file now) (filter P (attachments db)) (file_deletions db)\<rparr>"

definition delete_memories :: "(memory_row \<Rightarrow> bool) \<Rightarrow> chat_db \<Rightarrow> chat_db" where
  "delete_memories P db =
     (let gone = mem_id ` set (filter P (memories db))
      in db\<lparr>memories := filter (\<lambda>m. \<not> P m) (memories db),
            sources := filter (\<lambda>s. src_memory s \<notin> gone) (sources db),
            follow_ups := filter (\<lambda>f. fu_memory f \<notin> gone) (follow_ups db)\<rparr>)"

definition delete_messages :: "micros \<Rightarrow> (message_row \<Rightarrow> bool) \<Rightarrow> chat_db \<Rightarrow> chat_db" where
  "delete_messages now P db =
     (let gone = msg_id ` set (filter P (messages db));
          db1 = delete_attachments now (\<lambda>a. case att_message a of None \<Rightarrow> False | Some m \<Rightarrow> m \<in> gone) db
      in db1\<lparr>messages := filter (\<lambda>m. \<not> P m) (messages db),
             sources := filter (\<lambda>s. case src_message s of None \<Rightarrow> True | Some m \<Rightarrow> m \<notin> gone) (sources db),
             jobs := filter (\<lambda>j. job_user_message j \<notin> gone \<and> job_assistant_message j \<notin> gone) (jobs db)\<rparr>)"

definition delete_chats :: "micros \<Rightarrow> (chat_row \<Rightarrow> bool) \<Rightarrow> chat_db \<Rightarrow> chat_db" where
  "delete_chats now P db =
     (let gone = chat_id ` set (filter P (chats db));
          db1 = delete_messages now (\<lambda>m. msg_chat m \<in> gone) db;
          db2 = delete_attachments now (\<lambda>a. case att_chat a of None \<Rightarrow> False | Some c \<Rightarrow> c \<in> gone) db1
      in db2\<lparr>chats := filter (\<lambda>c. \<not> P c) (chats db),
             sources := filter (\<lambda>s. src_chat s \<notin> gone) (sources db2),
             jobs := filter (\<lambda>j. job_chat j \<notin> gone) (jobs db2),
             follow_ups := map (\<lambda>f. case fu_chat f of
                 None \<Rightarrow> f
               | Some c \<Rightarrow> if c \<in> gone then f\<lparr>fu_chat := None\<rparr> else f) (follow_ups db2)\<rparr>)"

section \<open>Evidence of memories\<close>

text \<open>
  \<open>recalculate_memory_evidence\<close>: only items that still have sources change. \<open>least(0.99, max + greatest(0,
  n - 1) * 0.05)\<close> in double precision.
\<close>

definition evidence_confidence :: "rat list \<Rightarrow> rat" where
  "evidence_confidence strengths =
     min (f64_round (99 / 100))
       (f64_round (Max (set strengths)
          + f64_round (of_nat (length strengths - 1) * f64_round (5 / 100))))"

definition recalculate_evidence :: "micros \<Rightarrow> uuid list \<Rightarrow> chat_db \<Rightarrow> chat_db" where
  "recalculate_evidence now ids db =
     db\<lparr>memories := map (\<lambda>m.
         let mine = filter (\<lambda>s. src_memory s = mem_id m) (sources db)
         in if mem_id m \<in> set ids \<and> mine \<noteq> []
            then m\<lparr>mem_confidence := evidence_confidence (map src_strength mine),
                   mem_reinforced := Max (set (map src_created mine)), mem_updated := now\<rparr>
            else m) (memories db)\<rparr>"

definition cleanup_after_source_removal :: "micros \<Rightarrow> uuid list \<Rightarrow> chat_db \<Rightarrow> chat_db" where
  "cleanup_after_source_removal now ids db =
     (if ids = [] then db
      else recalculate_evidence now ids
        (delete_memories (\<lambda>m. mem_id m \<in> set ids \<and> \<not> list_ex (\<lambda>s. src_memory s = mem_id m) (sources db)) db))"

end
