(* ===== verification/Chat_Db.thy ===== *)
theory Chat_Db
  imports Chat_Tables Daily_Quota
begin

text \<open>
  The chats of the store, \<open>store/chat.rs\<close>. A transaction is one step over \<open>chat_db\<close>, with \<open>now\<close> the
  transaction's \<open>now()\<close> in microseconds and the new UUIDs as arguments; a rollback or an error before the
  commit leaves the database as it was. The row and advisory locks order the transactions of one chat and
  of one owner. A result is the returned value with the database after it. Rows the source orders by a
  time only are taken in table order among equal times.
\<close>

section \<open>Records\<close>

datatype ai_role = SystemRole | UserRole | AssistantRole

definition role_to_db :: "ai_role \<Rightarrow> string" where
  "role_to_db r = (case r of
      SystemRole \<Rightarrow> ''system'' | UserRole \<Rightarrow> ''user'' | AssistantRole \<Rightarrow> ''assistant'')"

definition role_from_db :: "string \<Rightarrow> ai_role option" where
  "role_from_db v =
     (if v = ''system'' then Some SystemRole
      else if v = ''user'' then Some UserRole
      else if v = ''assistant'' then Some AssistantRole
      else None)"

lemma role_roundtrip [simp]: "role_from_db (role_to_db r) = Some r"
  by (cases r) (simp_all add: role_from_db_def role_to_db_def)

record attachment_record =
  ar_id :: uuid
  ar_session :: uuid
  ar_user :: "uuid option"
  ar_chat :: "uuid option"
  ar_message :: "uuid option"
  ar_kind :: ustr
  ar_mime :: ustr
  ar_size :: int
  ar_width :: "int option"
  ar_height :: "int option"
  ar_sha :: ustr
  ar_key :: ustr
  ar_created :: nat
  ar_deleted :: "nat option"

record stored_message =
  sm_id :: uuid
  sm_role :: ai_role
  sm_content :: ustr
  sm_attachments :: "attachment_record list"
  sm_created :: nat

record chat_record =
  cr_id :: uuid
  cr_session :: uuid
  cr_character :: ustr
  cr_profile :: ustr
  cr_messages :: "stored_message list"
  cr_created :: nat
  cr_updated :: nat

record chat_summary =
  cs_id :: uuid
  cs_character :: ustr
  cs_last_message :: ustr
  cs_created :: nat
  cs_updated :: nat

record chat_storage_limits =
  max_chats_per_owner :: nat
  max_messages_per_chat :: nat
  max_stored_chars_per_chat :: nat

definition default_chat_storage_limits :: chat_storage_limits where
  "default_chat_storage_limits =
     \<lparr>max_chats_per_owner = 50, max_messages_per_chat = 100, max_stored_chars_per_chat = 500000\<rparr>"

datatype create_chat_outcome =
    ChatCreated chat_record
  | FollowUpUnavailable
  | ChatLimitReached
  | MessageLimitReached

datatype append_outcome =
    Appended stored_message stored_message
  | AppendUnavailable
  | AppendLimitReached

section \<open>Reading\<close>

definition chat_attachment_from_row :: "attachment_row \<Rightarrow> attachment_record" where
  "chat_attachment_from_row a =
     \<lparr>ar_id = att_id a, ar_session = att_session a, ar_user = att_user a, ar_chat = att_chat a,
      ar_message = att_message a, ar_kind = att_kind a, ar_mime = att_mime a, ar_size = att_size a,
      ar_width = att_width a, ar_height = att_height a, ar_sha = att_sha a, ar_key = att_key a,
      ar_created = as_u64 (epoch_seconds (att_created a)),
      ar_deleted = map_option (\<lambda>t. as_u64 (epoch_seconds t)) (att_deleted a)\<rparr>"

definition attachments_for_message :: "uuid \<Rightarrow> chat_db \<Rightarrow> attachment_record list" where
  "attachments_for_message m db =
     map chat_attachment_from_row (sort_key att_created
       (filter (\<lambda>a. att_message a = Some m \<and> att_deleted a = None) (attachments db)))"

definition message_of_row :: "chat_db \<Rightarrow> message_row \<Rightarrow> stored_message option" where
  "message_of_row db row =
     map_option (\<lambda>r.
       \<lparr>sm_id = msg_id row, sm_role = r, sm_content = msg_content row,
        sm_attachments = attachments_for_message (msg_id row) db,
        sm_created = as_u64 (epoch_seconds (msg_created row))\<rparr>) (role_from_db (msg_role row))"

definition messages_for_chat :: "uuid \<Rightarrow> chat_db \<Rightarrow> stored_message list" where
  "messages_for_chat c db =
     List.map_filter (message_of_row db) (filter (\<lambda>m. msg_chat m = c) (messages db))"

definition chat_from_row :: "chat_db \<Rightarrow> chat_row \<Rightarrow> chat_record" where
  "chat_from_row db row =
     \<lparr>cr_id = chat_id row, cr_session = chat_session row, cr_character = chat_character row,
      cr_profile = chat_profile row, cr_messages = messages_for_chat (chat_id row) db,
      cr_created = as_u64 (epoch_seconds (chat_created row)),
      cr_updated = as_u64 (epoch_seconds (chat_updated row))\<rparr>"

definition owns_chat :: "owner_scope \<Rightarrow> chat_row \<Rightarrow> bool" where
  "owns_chat owner c \<longleftrightarrow> owns_row owner (chat_session c) (chat_user c)"

definition get_chat :: "owner_scope \<Rightarrow> uuid \<Rightarrow> chat_db \<Rightarrow> chat_record option" where
  "get_chat owner i db =
     map_option (chat_from_row db) (find (\<lambda>c. chat_id c = i \<and> owns_chat owner c) (chats db))"

definition list_chats :: "owner_scope \<Rightarrow> chat_db \<Rightarrow> chat_record list" where
  "list_chats owner db =
     map (chat_from_row db)
       (sort_key (\<lambda>c. - chat_updated c) (filter (owns_chat owner) (chats db)))"

definition last_message_preview :: "uuid \<Rightarrow> chat_db \<Rightarrow> ustr" where
  "last_message_preview c db =
     (case rev (filter (\<lambda>m. msg_chat m = c) (messages db)) of
        [] \<Rightarrow> []
      | m # ms \<Rightarrow> take 256 (msg_content m))"

definition list_chat_summaries :: "owner_scope \<Rightarrow> ustr \<Rightarrow> chat_db \<Rightarrow> chat_summary list" where
  "list_chat_summaries owner character db =
     map (\<lambda>c. \<lparr>cs_id = chat_id c, cs_character = chat_character c,
              cs_last_message = last_message_preview (chat_id c) db,
              cs_created = as_u64 (epoch_seconds (chat_created c)),
              cs_updated = as_u64 (epoch_seconds (chat_updated c))\<rparr>)
       (take 50 (sort_key (\<lambda>c. - chat_updated c)
         (filter (\<lambda>c. owns_chat owner c \<and> chat_character c = character) (chats db))))"

section \<open>Creating a chat\<close>

definition owner_chat_count :: "owner_scope \<Rightarrow> chat_db \<Rightarrow> nat" where
  "owner_chat_count owner db = length (filter (owns_chat owner) (chats db))"

definition insert_chat :: "owner_scope \<Rightarrow> uuid \<Rightarrow> ustr \<Rightarrow> ustr \<Rightarrow> micros \<Rightarrow> chat_db \<Rightarrow> store_error + chat_db" where
  "insert_chat owner i character profile t db =
     (if i \<in> chat_id ` set (chats db) then Inl UniqueViolation
      else if scope_session owner \<notin> db_sessions db then Inl ForeignKeyViolation
      else Inr (db\<lparr>chats := chats db @
        [\<lparr>chat_id = i, chat_session = scope_session owner, chat_user = scope_user owner,
          chat_character = character, chat_profile = profile, chat_created = t, chat_updated = t\<rparr>]\<rparr>))"

definition insert_message :: "message_row \<Rightarrow> chat_db \<Rightarrow> store_error + chat_db" where
  "insert_message m db =
     (if msg_id m \<in> msg_id ` set (messages db) then Inl UniqueViolation
      else if msg_chat m \<notin> chat_id ` set (chats db) then Inl ForeignKeyViolation
      else Inr (db\<lparr>messages := messages db @ [m]\<rparr>))"

definition open_follow_up :: "owner_scope \<Rightarrow> ustr \<Rightarrow> uuid \<Rightarrow> chat_db \<Rightarrow> follow_up_row option" where
  "open_follow_up owner character i db =
     find (\<lambda>f. fu_id f = i \<and> owns_row owner (fu_session f) (fu_user f) \<and> fu_character f = character
               \<and> fu_chat f = None) (follow_ups db)"

definition link_follow_up :: "uuid \<Rightarrow> uuid \<Rightarrow> chat_db \<Rightarrow> chat_db" where
  "link_follow_up i chat db =
     db\<lparr>follow_ups := map (\<lambda>f. if fu_id f = i then f\<lparr>fu_chat := Some chat\<rparr> else f) (follow_ups db)\<rparr>"

text \<open>The follow-up part of the transaction: the prompt opens the chat as an assistant message.\<close>

definition attach_follow_up ::
  "owner_scope \<Rightarrow> ustr \<Rightarrow> uuid \<Rightarrow> uuid \<Rightarrow> uuid \<Rightarrow> chat_storage_limits \<Rightarrow> chat_db
    \<Rightarrow> store_error + create_chat_outcome + chat_db" where
  "attach_follow_up owner character chat message i limits db =
     (case open_follow_up owner character i db of
        None \<Rightarrow> Inr (Inl FollowUpUnavailable)
      | Some f \<Rightarrow>
          if max_messages_per_chat limits < 1
             \<or> max_stored_chars_per_chat limits < length (fu_prompt f)
          then Inr (Inl MessageLimitReached)
          else (case timestamp_of_seconds (epoch_seconds (fu_shown f)) of
                  Inl e \<Rightarrow> Inl e
                | Inr t \<Rightarrow>
                    (case insert_message \<lparr>msg_id = message, msg_chat = chat, msg_role = ''assistant'',
                        msg_content = fu_prompt f, msg_created = t\<rparr> db of
                       Inl e \<Rightarrow> Inl e
                     | Inr db' \<Rightarrow> Inr (Inr (link_follow_up i chat db')))))"

record new_chat =
  nc_chat :: uuid
  nc_message :: uuid
  nc_seconds :: nat

definition create_chat_transaction ::
  "new_chat \<Rightarrow> owner_scope \<Rightarrow> ustr \<Rightarrow> ustr \<Rightarrow> uuid option \<Rightarrow> chat_storage_limits \<Rightarrow> chat_db
    \<Rightarrow> store_error + create_chat_outcome + chat_db" where
  "create_chat_transaction new owner character profile follow_up limits db =
     (if max_chats_per_owner limits \<le> owner_chat_count owner db then Inr (Inl ChatLimitReached)
      else (case timestamp_of_seconds (as_i64 (nc_seconds new)) of
              Inl e \<Rightarrow> Inl e
            | Inr t \<Rightarrow>
                (case insert_chat owner (nc_chat new) character profile t db of
                   Inl e \<Rightarrow> Inl e
                 | Inr db1 \<Rightarrow>
                     (case follow_up of
                        None \<Rightarrow> Inr (Inr db1)
                      | Some i \<Rightarrow> attach_follow_up owner character (nc_chat new) (nc_message new) i limits db1))))"

definition create_chat_with_follow_up_limited ::
  "new_chat \<Rightarrow> owner_scope \<Rightarrow> ustr \<Rightarrow> ustr \<Rightarrow> uuid option \<Rightarrow> chat_storage_limits \<Rightarrow> chat_db
    \<Rightarrow> (store_error + create_chat_outcome) \<times> chat_db" where
  "create_chat_with_follow_up_limited new owner character profile follow_up limits db =
     (case create_chat_transaction new owner character profile follow_up limits db of
        Inl e \<Rightarrow> (Inl e, db)
      | Inr (Inl outcome) \<Rightarrow> (Inr outcome, db)
      | Inr (Inr db') \<Rightarrow>
          (case get_chat owner (nc_chat new) db' of
             None \<Rightarrow> (Inl RowNotFound, db')
           | Some c \<Rightarrow> (Inr (ChatCreated c), db')))"

section \<open>Appending a turn\<close>

definition usize_limit :: nat where
  "usize_limit = 2 ^ 64"

text \<open>\<open>a.checked_add(b).is_none_or(|next| next > limit)\<close>.\<close>

definition exceeds :: "nat \<Rightarrow> nat \<Rightarrow> nat \<Rightarrow> bool" where
  "exceeds limit a b \<longleftrightarrow> usize_limit \<le> a + b \<or> limit < a + b"

definition chat_messages_of :: "uuid \<Rightarrow> chat_db \<Rightarrow> message_row list" where
  "chat_messages_of c db = filter (\<lambda>m. msg_chat m = c) (messages db)"

definition stored_chars :: "uuid \<Rightarrow> chat_db \<Rightarrow> nat" where
  "stored_chars c db = sum_list (map (length \<circ> msg_content) (chat_messages_of c db))"

definition append_over_limit :: "chat_storage_limits \<Rightarrow> uuid \<Rightarrow> stored_message \<Rightarrow> stored_message \<Rightarrow> chat_db \<Rightarrow> bool" where
  "append_over_limit limits c u a db \<longleftrightarrow>
     exceeds (max_messages_per_chat limits) (length (chat_messages_of c db)) 2
     \<or> usize_limit \<le> length (sm_content u) + length (sm_content a)
     \<or> exceeds (max_stored_chars_per_chat limits) (stored_chars c db)
         (length (sm_content u) + length (sm_content a))"

definition row_of_message :: "uuid \<Rightarrow> stored_message \<Rightarrow> store_error + message_row" where
  "row_of_message c m =
     map_sum id (\<lambda>t. \<lparr>msg_id = sm_id m, msg_chat = c, msg_role = role_to_db (sm_role m),
                      msg_content = sm_content m, msg_created = t\<rparr>)
       (timestamp_of_seconds (as_i64 (sm_created m)))"

definition insert_turn :: "uuid \<Rightarrow> stored_message \<Rightarrow> stored_message \<Rightarrow> chat_db \<Rightarrow> store_error + chat_db" where
  "insert_turn c u a db =
     (case row_of_message c u of
        Inl e \<Rightarrow> Inl e
      | Inr ru \<Rightarrow>
          (case row_of_message c a of
             Inl e \<Rightarrow> Inl e
           | Inr ra \<Rightarrow>
               (case insert_message ru db of
                  Inl e \<Rightarrow> Inl e
                | Inr db' \<Rightarrow> insert_message ra db')))"

text \<open>
  The checks of \<open>memory_extraction_jobs\<close>: a time zone of 1 to 64 characters of the form
  \<open>[A-Za-z0-9_+.-]+(/[A-Za-z0-9_+.-]+)*\<close>, and a character id that is not all spaces.
\<close>

definition zone_char :: "nat \<Rightarrow> bool" where
  "zone_char c \<longleftrightarrow>
     (65 \<le> c \<and> c \<le> 90) \<or> (97 \<le> c \<and> c \<le> 122) \<or> (48 \<le> c \<and> c \<le> 57) \<or> c \<in> {95, 43, 46, 45}"

fun split_slash :: "ustr \<Rightarrow> ustr \<Rightarrow> ustr list" where
  "split_slash acc [] = [rev acc]"
| "split_slash acc (c # cs) =
     (if c = 47 then rev acc # split_slash [] cs else split_slash (c # acc) cs)"

definition timezone_valid :: "ustr \<Rightarrow> bool" where
  "timezone_valid z \<longleftrightarrow>
     1 \<le> length z \<and> length z \<le> 64 \<and> list_all (\<lambda>p. p \<noteq> [] \<and> list_all zone_char p) (split_slash [] z)"

definition btrim_blank :: "ustr \<Rightarrow> bool" where
  "btrim_blank s \<longleftrightarrow> list_all (\<lambda>c. c = 32) s"

definition enqueue_memory_job ::
  "micros \<Rightarrow> uuid \<Rightarrow> chat_row \<Rightarrow> uuid \<Rightarrow> uuid \<Rightarrow> ustr \<Rightarrow> chat_db \<Rightarrow> store_error + chat_db" where
  "enqueue_memory_job now i c user_message assistant_message zone db =
     (if \<not> timezone_valid zone \<or> btrim_blank (chat_character c) then Inl CheckViolation
      else if user_message \<in> job_user_message ` set (jobs db) then Inr db
      else if i \<in> job_id ` set (jobs db) then Inl UniqueViolation
      else Inr (db\<lparr>jobs := jobs db @
        [\<lparr>job_id = i, job_chat = chat_id c, job_user_message = user_message,
          job_assistant_message = assistant_message, job_session = chat_session c,
          job_user = chat_user c, job_character = chat_character c, job_status = JobPending,
          job_attempts = 0, job_max_attempts = 3, job_available = now, job_locked = None,
          job_error = None, job_timezone = zone, job_created = now\<rparr>]\<rparr>))"

text \<open>The \<open>where\<close> clause of the statement that links attachments.\<close>

definition linkable :: "owner_scope \<Rightarrow> uuid list \<Rightarrow> attachment_row \<Rightarrow> bool" where
  "linkable owner ids a \<longleftrightarrow>
     att_id a \<in> set ids \<and> att_chat a = None \<and> att_message a = None \<and> att_deleted a = None
     \<and> owns_row owner (att_session a) (att_user a)"

definition link_attachments ::
  "owner_scope \<Rightarrow> uuid \<Rightarrow> uuid \<Rightarrow> uuid list \<Rightarrow> chat_db \<Rightarrow> nat \<times> chat_db" where
  "link_attachments owner c m ids db =
     (length (filter (linkable owner ids) (attachments db)),
      db\<lparr>attachments := map (\<lambda>a. if linkable owner ids a
          then a\<lparr>att_chat := Some c, att_message := Some m\<rparr> else a) (attachments db)\<rparr>)"

definition touch_chat :: "micros \<Rightarrow> uuid \<Rightarrow> chat_db \<Rightarrow> chat_db" where
  "touch_chat now i db =
     db\<lparr>chats := map (\<lambda>c. if chat_id c = i then c\<lparr>chat_updated := now\<rparr> else c) (chats db)\<rparr>"

definition commit_quota :: "timestamp \<Rightarrow> uuid option \<Rightarrow> quota_db \<Rightarrow> store_error + quota_db" where
  "commit_quota now reservation q =
     (case reservation of None \<Rightarrow> Inr q | Some i \<Rightarrow> commit_reservation now i q)"

definition append_writes ::
  "timestamp \<Rightarrow> uuid \<Rightarrow> owner_scope \<Rightarrow> chat_row \<Rightarrow> stored_message \<Rightarrow> stored_message \<Rightarrow> uuid list \<Rightarrow> ustr
    \<Rightarrow> chat_db \<Rightarrow> store_error + chat_db option" where
  "append_writes now job owner c u a ids zone db =
     (case insert_turn (chat_id c) u a db of
        Inl e \<Rightarrow> Inl e
      | Inr db1 \<Rightarrow>
          (case enqueue_memory_job (int now) job c (sm_id u) (sm_id a) zone db1 of
             Inl e \<Rightarrow> Inl e
           | Inr db2 \<Rightarrow>
               if ids = [] then Inr (Some (touch_chat (int now) (chat_id c) db2))
               else (case link_attachments owner (chat_id c) (sm_id u) ids db2 of (updated, db3) \<Rightarrow>
                 if updated \<noteq> length ids then Inr None
                 else Inr (Some (touch_chat (int now) (chat_id c) db3)))))"

definition append_chat_messages_limited_with_quota ::
  "timestamp \<Rightarrow> uuid \<Rightarrow> owner_scope \<Rightarrow> uuid \<Rightarrow> stored_message \<Rightarrow> stored_message \<Rightarrow> uuid list \<Rightarrow> ustr
    \<Rightarrow> chat_storage_limits \<Rightarrow> uuid option \<Rightarrow> chat_db \<Rightarrow> quota_db
    \<Rightarrow> (store_error + append_outcome) \<times> chat_db \<times> quota_db" where
  "append_chat_messages_limited_with_quota now job owner i u a ids zone limits reservation db q =
     (case find (\<lambda>c. chat_id c = i \<and> owns_chat owner c) (chats db) of
        None \<Rightarrow> (Inr AppendUnavailable, db, q)
      | Some c \<Rightarrow>
          if append_over_limit limits i u a db then (Inr AppendLimitReached, db, q)
          else (case append_writes now job owner c u a ids zone db of
                  Inl e \<Rightarrow> (Inl e, db, q)
                | Inr None \<Rightarrow> (Inr AppendUnavailable, db, q)
                | Inr (Some db') \<Rightarrow>
                    (case commit_quota now reservation q of
                       Inl e \<Rightarrow> (Inl e, db, q)
                     | Inr q' \<Rightarrow>
                         (Inr (Appended (u\<lparr>sm_attachments := attachments_for_message (sm_id u) db'\<rparr>) a),
                          db', q'))))"

section \<open>Clearing and deleting\<close>

definition clear_chat_messages ::
  "micros \<Rightarrow> owner_scope \<Rightarrow> uuid \<Rightarrow> chat_db \<Rightarrow> chat_record option \<times> chat_db" where
  "clear_chat_messages now owner i db =
     (case find (\<lambda>c. chat_id c = i \<and> owns_chat owner c) (chats db) of
        None \<Rightarrow> (None, db)
      | Some c \<Rightarrow>
          (let ids = remdups (map src_memory
                 (filter (\<lambda>s. src_chat s = i \<and> src_message s \<noteq> None) (sources db)));
               db1 = delete_messages now (\<lambda>m. msg_chat m = i) db;
               db2 = touch_chat now i (cleanup_after_source_removal now ids db1)
           in (get_chat owner i db2, db2)))"

definition delete_chat :: "micros \<Rightarrow> owner_scope \<Rightarrow> uuid \<Rightarrow> chat_db \<Rightarrow> bool \<times> chat_db" where
  "delete_chat now owner i db =
     (case find (\<lambda>c. chat_id c = i \<and> owns_chat owner c) (chats db) of
        None \<Rightarrow> (False, db)
      | Some c \<Rightarrow>
          (let ids = remdups (map src_memory (filter (\<lambda>s. src_chat s = i) (sources db)));
               db1 = delete_chats now (\<lambda>c. chat_id c = i \<and> owns_chat owner c) db
           in (True, cleanup_after_source_removal now ids db1)))"

end
