(* ===== verification/Attachment_Db.thy ===== *)
theory Attachment_Db
  imports Chat_Db "HOL-Library.List_Lexorder"
begin

text \<open>
  Attachments and the durable queue of files to delete, \<open>store/attachments.rs\<close>. A text is ordered by its
  code points.
\<close>

record new_attachment =
  na_id :: uuid
  na_kind :: ustr
  na_mime :: ustr
  na_size :: int
  na_width :: "int option"
  na_height :: "int option"
  na_sha :: ustr
  na_key :: ustr

datatype create_attachment_outcome =
    AttachmentCreated attachment_record
  | StorageQuotaExceeded

record file_deletion_record =
  fdr_key :: ustr
  fdr_size :: int
  fdr_session :: "uuid option"
  fdr_user :: "uuid option"
  fdr_attempts :: nat
  fdr_token :: uuid

section \<open>Storage of an owner\<close>

definition owns_attachment :: "owner_scope \<Rightarrow> attachment_row \<Rightarrow> bool" where
  "owns_attachment owner a \<longleftrightarrow> owns_row owner (att_session a) (att_user a)"

definition owns_deletion :: "owner_scope \<Rightarrow> file_deletion_row \<Rightarrow> bool" where
  "owns_deletion owner d \<longleftrightarrow>
     (case scope_user owner of
        Some u \<Rightarrow> fd_user d = Some u
      | None \<Rightarrow> fd_session d = Some (scope_session owner))"

definition live_bytes :: "owner_scope \<Rightarrow> chat_db \<Rightarrow> int" where
  "live_bytes owner db =
     sum_list (map att_size
       (filter (\<lambda>a. att_deleted a = None \<and> owns_attachment owner a) (attachments db)))"

definition queued_bytes :: "owner_scope \<Rightarrow> chat_db \<Rightarrow> int" where
  "queued_bytes owner db = sum_list (map fd_size (filter (owns_deletion owner) (file_deletions db)))"

definition fits_storage :: "owner_scope \<Rightarrow> int \<Rightarrow> int \<Rightarrow> chat_db \<Rightarrow> bool" where
  "fits_storage owner byte_size max_bytes db \<longleftrightarrow> live_bytes owner db + queued_bytes owner db + byte_size \<le> max_bytes"

section \<open>Attachments\<close>

definition new_attachment_row :: "micros \<Rightarrow> owner_scope \<Rightarrow> new_attachment \<Rightarrow> attachment_row" where
  "new_attachment_row now owner n =
     \<lparr>att_id = na_id n, att_session = scope_session owner, att_user = scope_user owner, att_chat = None,
      att_message = None, att_kind = na_kind n, att_mime = na_mime n, att_size = na_size n,
      att_width = na_width n, att_height = na_height n, att_sha = na_sha n, att_key = na_key n,
      att_created = now, att_deleted = None\<rparr>"

definition insert_chat_attachment ::
  "micros \<Rightarrow> owner_scope \<Rightarrow> new_attachment \<Rightarrow> chat_db \<Rightarrow> store_error + attachment_row \<times> chat_db" where
  "insert_chat_attachment now owner n db =
     (if na_id n \<in> att_id ` set (attachments db) then Inl UniqueViolation
      else if scope_session owner \<notin> db_sessions db then Inl ForeignKeyViolation
      else (let row = new_attachment_row now owner n
            in Inr (row, db\<lparr>attachments := attachments db @ [row]\<rparr>)))"

definition create_chat_attachment_with_storage_quota ::
  "micros \<Rightarrow> owner_scope \<Rightarrow> new_attachment \<Rightarrow> int \<Rightarrow> chat_db
    \<Rightarrow> (store_error + create_attachment_outcome) \<times> chat_db" where
  "create_chat_attachment_with_storage_quota now owner n max_bytes db =
     (if \<not> fits_storage owner (na_size n) max_bytes db then (Inr StorageQuotaExceeded, db)
      else (case insert_chat_attachment now owner n db of
              Inl e \<Rightarrow> (Inl e, db)
            | Inr (row, db') \<Rightarrow> (Inr (AttachmentCreated (chat_attachment_from_row row)), db')))"

definition create_chat_attachment ::
  "micros \<Rightarrow> owner_scope \<Rightarrow> new_attachment \<Rightarrow> chat_db \<Rightarrow> (store_error + attachment_record) \<times> chat_db" where
  "create_chat_attachment now owner n db =
     (case insert_chat_attachment now owner n db of
        Inl e \<Rightarrow> (Inl e, db)
      | Inr (row, db') \<Rightarrow> (Inr (chat_attachment_from_row row), db'))"

text \<open>The statement runs on its own here; its foreign keys name a chat and a message.\<close>

definition link_chat_attachments_to_message ::
  "owner_scope \<Rightarrow> uuid \<Rightarrow> uuid \<Rightarrow> uuid list \<Rightarrow> chat_db \<Rightarrow> (store_error + nat) \<times> chat_db" where
  "link_chat_attachments_to_message owner c m ids db =
     (if ids = [] then (Inr 0, db)
      else (case link_attachments owner c m ids db of (updated, db') \<Rightarrow>
        if 0 < updated
           \<and> (c \<notin> chat_id ` set (chats db) \<or> m \<notin> msg_id ` set (messages db))
        then (Inl ForeignKeyViolation, db)
        else (Inr updated, db')))"

definition get_chat_attachment :: "owner_scope \<Rightarrow> uuid \<Rightarrow> chat_db \<Rightarrow> attachment_record option" where
  "get_chat_attachment owner i db =
     map_option chat_attachment_from_row
       (find (\<lambda>a. att_id a = i \<and> att_deleted a = None \<and> owns_attachment owner a) (attachments db))"

definition is_pending :: "attachment_row \<Rightarrow> bool" where
  "is_pending a \<longleftrightarrow> att_chat a = None \<and> att_message a = None \<and> att_deleted a = None"

definition delete_pending_chat_attachment ::
  "micros \<Rightarrow> owner_scope \<Rightarrow> uuid \<Rightarrow> chat_db \<Rightarrow> bool \<times> chat_db" where
  "delete_pending_chat_attachment now owner i db =
     (let P = (\<lambda>a. att_id a = i \<and> is_pending a \<and> owns_attachment owner a)
      in (list_ex P (attachments db), delete_attachments now P db))"

definition stale_pending :: "ustr \<Rightarrow> micros \<Rightarrow> attachment_row \<Rightarrow> bool" where
  "stale_pending kind before a \<longleftrightarrow> att_kind a = kind \<and> is_pending a \<and> att_created a < before"

definition delete_stale_pending_chat_attachments ::
  "micros \<Rightarrow> ustr \<Rightarrow> nat \<Rightarrow> int \<Rightarrow> chat_db \<Rightarrow> (store_error + nat) \<times> chat_db" where
  "delete_stale_pending_chat_attachments now kind stale_before limit db =
     (if limit \<le> 0 then (Inr 0, db)
      else (case timestamp_of_seconds (as_i64 stale_before) of
              Inl e \<Rightarrow> (Inl e, db)
            | Inr before \<Rightarrow>
                (let ids = map att_id (take (nat limit)
                       (sort_key att_created (filter (stale_pending kind before) (attachments db))));
                     P = (\<lambda>a. att_id a \<in> set ids)
                 in (Inr (length (filter P (attachments db))), delete_attachments now P db))))"

section \<open>The queue of file deletions\<close>

definition claim_lease :: micros where
  "claim_lease = 15 * 60 * 1000000"

definition retry_delay :: micros where
  "retry_delay = 60 * 60 * 1000000"

definition claimable :: "micros \<Rightarrow> file_deletion_row \<Rightarrow> bool" where
  "claimable now d \<longleftrightarrow>
     fd_next d \<le> now \<and> (case fd_claim d of None \<Rightarrow> True | Some (token, expires) \<Rightarrow> expires \<le> now)"

definition claim_row :: "micros \<Rightarrow> uuid \<Rightarrow> file_deletion_row \<Rightarrow> file_deletion_row" where
  "claim_row now token d =
     d\<lparr>fd_claim := Some (token, now + claim_lease), fd_attempts := fd_attempts d + 1\<rparr>"

definition claimed_record :: "uuid \<Rightarrow> file_deletion_row \<Rightarrow> file_deletion_record" where
  "claimed_record token d =
     \<lparr>fdr_key = fd_key d, fdr_size = fd_size d, fdr_session = fd_session d, fdr_user = fd_user d,
      fdr_attempts = fd_attempts d, fdr_token = token\<rparr>"

definition claim_eligible ::
  "micros \<Rightarrow> uuid \<Rightarrow> int \<Rightarrow> (file_deletion_row \<Rightarrow> bool) \<Rightarrow> chat_db \<Rightarrow> file_deletion_record list \<times> chat_db" where
  "claim_eligible now token limit P db =
     (let keys = map fd_key (take (nat limit)
            (sort_key (\<lambda>d. (fd_next d, fd_created d, fd_key d))
              (filter (\<lambda>d. P d \<and> claimable now d) (file_deletions db))));
          hit = (\<lambda>d. fd_key d \<in> set keys)
      in (map (claimed_record token) (map (claim_row now token) (filter hit (file_deletions db))),
          db\<lparr>file_deletions := map (\<lambda>d. if hit d then claim_row now token d else d) (file_deletions db)\<rparr>))"

definition claim_chat_attachment_file_deletions ::
  "micros \<Rightarrow> uuid \<Rightarrow> int \<Rightarrow> chat_db \<Rightarrow> file_deletion_record list \<times> chat_db" where
  "claim_chat_attachment_file_deletions now token limit db =
     (if limit \<le> 0 then ([], db) else claim_eligible now token limit (\<lambda>d. True) db)"

definition claim_chat_attachment_file_deletions_for_keys ::
  "micros \<Rightarrow> uuid \<Rightarrow> ustr list \<Rightarrow> int \<Rightarrow> chat_db \<Rightarrow> file_deletion_record list \<times> chat_db" where
  "claim_chat_attachment_file_deletions_for_keys now token keys limit db =
     (if keys = [] \<or> limit \<le> 0 then ([], db)
      else claim_eligible now token limit (\<lambda>d. fd_key d \<in> set keys) db)"

definition count_chat_attachment_file_deletions_for_keys :: "ustr list \<Rightarrow> chat_db \<Rightarrow> nat" where
  "count_chat_attachment_file_deletions_for_keys keys db =
     (if keys = [] then 0 else length (filter (\<lambda>d. fd_key d \<in> set keys) (file_deletions db)))"

definition holds_claim :: "ustr \<Rightarrow> uuid \<Rightarrow> file_deletion_row \<Rightarrow> bool" where
  "holds_claim key token d \<longleftrightarrow> fd_key d = key \<and> map_option fst (fd_claim d) = Some token"

definition complete_chat_attachment_file_deletion :: "ustr \<Rightarrow> uuid \<Rightarrow> chat_db \<Rightarrow> bool \<times> chat_db" where
  "complete_chat_attachment_file_deletion key token db =
     (length (filter (holds_claim key token) (file_deletions db)) = 1,
      db\<lparr>file_deletions := filter (\<lambda>d. \<not> holds_claim key token d) (file_deletions db)\<rparr>)"

definition retry_chat_attachment_file_deletion :: "micros \<Rightarrow> ustr \<Rightarrow> uuid \<Rightarrow> chat_db \<Rightarrow> bool \<times> chat_db" where
  "retry_chat_attachment_file_deletion now key token db =
     (length (filter (holds_claim key token) (file_deletions db)) = 1,
      db\<lparr>file_deletions := map (\<lambda>d. if holds_claim key token d
          then d\<lparr>fd_claim := None, fd_next := now + retry_delay\<rparr> else d) (file_deletions db)\<rparr>)"

definition enqueue_reconciled_chat_attachment_file_deletion ::
  "micros \<Rightarrow> ustr \<Rightarrow> int \<Rightarrow> chat_db \<Rightarrow> (store_error + bool) \<times> chat_db" where
  "enqueue_reconciled_chat_attachment_file_deletion now key byte_size db =
     (if list_ex (\<lambda>a. att_key a = key \<and> att_deleted a = None) (attachments db) then (Inr False, db)
      else if btrim_blank key \<or> byte_size < 0 then (Inl CheckViolation, db)
      else if list_ex (\<lambda>d. fd_key d = key) (file_deletions db) then (Inr False, db)
      else (Inr True, db\<lparr>file_deletions := file_deletions db @
        [\<lparr>fd_key = key, fd_size = byte_size, fd_session = None, fd_user = None, fd_attempts = 0,
          fd_next = now, fd_claim = None, fd_created = now\<rparr>]\<rparr>))"

end
