(* ===== verification/Chat_Inv.thy ===== *)
theory Chat_Inv
  imports Attachment_Db
begin

text \<open>
  The invariants of the chat tables and the lemmas that the operations of \<open>store/chat.rs\<close> and
  \<open>store/attachments.rs\<close> keep them. \<open>accounts\<close> gives the account of a session: the user of a registered
  session, none for a guest. The lemmas are about the few ways in which the operations change a table
  (insert a row, link attachments, delete rows with their cascades); \<open>Chat_Machine\<close> composes them.
\<close>

section \<open>Accounts\<close>

definition account_of :: "(uuid \<Rightarrow> uuid option) \<Rightarrow> uuid \<Rightarrow> uuid + uuid" where
  "account_of accounts s = (case accounts s of None \<Rightarrow> Inl s | Some u \<Rightarrow> Inr u)"

definition owner_ok :: "(uuid \<Rightarrow> uuid option) \<Rightarrow> owner_scope \<Rightarrow> bool" where
  "owner_ok accounts owner \<longleftrightarrow> scope_user owner = accounts (scope_session owner)"

definition owner_account :: "(uuid \<Rightarrow> uuid option) \<Rightarrow> owner_scope \<Rightarrow> uuid + uuid" where
  "owner_account accounts owner = account_of accounts (scope_session owner)"

lemma owns_row_account:
  assumes "owner_ok accounts owner" and "u = accounts s"
  shows "owns_row owner s u \<longleftrightarrow> account_of accounts s = owner_account accounts owner"
  using assms
  by (auto simp: owner_ok_def owns_row_def account_of_def owner_account_def split: option.splits)

section \<open>The tables refer to each other\<close>

definition links_ok :: "(uuid \<Rightarrow> uuid option) \<Rightarrow> chat_db \<Rightarrow> attachment_row \<Rightarrow> bool" where
  "links_ok accounts db a \<longleftrightarrow>
     (case att_message a of
        None \<Rightarrow> att_chat a = None
      | Some i \<Rightarrow> \<exists>m\<in>set (messages db). \<exists>c\<in>set (chats db).
          msg_id m = i \<and> msg_chat m = chat_id c \<and> att_chat a = Some (chat_id c)
          \<and> account_of accounts (chat_session c) = account_of accounts (att_session a))"

definition chat_inv :: "(uuid \<Rightarrow> uuid option) \<Rightarrow> chat_db \<Rightarrow> bool" where
  "chat_inv accounts db \<longleftrightarrow>
     distinct (map chat_id (chats db)) \<and> distinct (map msg_id (messages db))
     \<and> distinct (map att_id (attachments db))
     \<and> (\<forall>c\<in>set (chats db). chat_user c = accounts (chat_session c))
     \<and> (\<forall>m\<in>set (messages db). msg_chat m \<in> chat_id ` set (chats db))
     \<and> (\<forall>a\<in>set (attachments db). att_user a = accounts (att_session a) \<and> att_deleted a = None
          \<and> links_ok accounts db a)"

lemma chat_invI:
  assumes "distinct (map chat_id (chats db))" and "distinct (map msg_id (messages db))"
    and "distinct (map att_id (attachments db))"
    and "\<And>c. c \<in> set (chats db) \<Longrightarrow> chat_user c = accounts (chat_session c)"
    and "\<And>m. m \<in> set (messages db) \<Longrightarrow> msg_chat m \<in> chat_id ` set (chats db)"
    and "\<And>a. a \<in> set (attachments db) \<Longrightarrow> att_user a = accounts (att_session a) \<and> att_deleted a = None"
    and "\<And>a. a \<in> set (attachments db) \<Longrightarrow> links_ok accounts db a"
  shows "chat_inv accounts db"
  using assms by (simp add: chat_inv_def)

text \<open>The invariant reads three tables only.\<close>

lemma links_ok_cong:
  "chats db' = chats db \<Longrightarrow> messages db' = messages db \<Longrightarrow> links_ok accounts db' a = links_ok accounts db a"
  by (cases "att_message a") (simp_all add: links_ok_def)

lemma chat_inv_cong:
  "chats db' = chats db \<Longrightarrow> messages db' = messages db \<Longrightarrow> attachments db' = attachments db
    \<Longrightarrow> chat_inv accounts db' = chat_inv accounts db"
  by (simp add: chat_inv_def links_ok_cong [of db' db])

lemma links_ok_mono:
  "links_ok accounts db a \<Longrightarrow> set (chats db) \<subseteq> set (chats db') \<Longrightarrow> set (messages db) \<subseteq> set (messages db')
    \<Longrightarrow> links_ok accounts db' a"
  by (cases "att_message a") (auto simp: links_ok_def)

section \<open>Tables an operation does not touch\<close>

named_theorems chat_frame

lemma delete_memories_frame [chat_frame]:
  "chats (delete_memories P db) = chats db" "messages (delete_memories P db) = messages db"
  "attachments (delete_memories P db) = attachments db"
  "file_deletions (delete_memories P db) = file_deletions db"
  "db_sessions (delete_memories P db) = db_sessions db"
  by (simp_all add: delete_memories_def Let_def)

lemma recalculate_frame [chat_frame]:
  "chats (recalculate_evidence now ids db) = chats db"
  "messages (recalculate_evidence now ids db) = messages db"
  "attachments (recalculate_evidence now ids db) = attachments db"
  "file_deletions (recalculate_evidence now ids db) = file_deletions db"
  "db_sessions (recalculate_evidence now ids db) = db_sessions db"
  by (simp_all add: recalculate_evidence_def)

lemma cleanup_frame [chat_frame]:
  "chats (cleanup_after_source_removal now ids db) = chats db"
  "messages (cleanup_after_source_removal now ids db) = messages db"
  "attachments (cleanup_after_source_removal now ids db) = attachments db"
  "file_deletions (cleanup_after_source_removal now ids db) = file_deletions db"
  "db_sessions (cleanup_after_source_removal now ids db) = db_sessions db"
  by (simp_all add: cleanup_after_source_removal_def chat_frame)

lemma delete_attachments_frame [chat_frame]:
  "chats (delete_attachments now P db) = chats db"
  "messages (delete_attachments now P db) = messages db"
  "db_sessions (delete_attachments now P db) = db_sessions db"
  "attachments (delete_attachments now P db) = filter (\<lambda>a. \<not> P a) (attachments db)"
  by (simp_all add: delete_attachments_def)

definition message_gone :: "(message_row \<Rightarrow> bool) \<Rightarrow> chat_db \<Rightarrow> attachment_row \<Rightarrow> bool" where
  "message_gone P db a \<longleftrightarrow> (\<exists>m\<in>set (messages db). P m \<and> att_message a = Some (msg_id m))"

lemma message_gone_eq:
  "(\<lambda>a. case att_message a of None \<Rightarrow> False | Some m \<Rightarrow> m \<in> msg_id ` {x \<in> set (messages db). P x})
    = message_gone P db"
  by (auto simp: message_gone_def fun_eq_iff split: option.splits)

lemma delete_messages_frame [chat_frame]:
  "chats (delete_messages now P db) = chats db"
  "messages (delete_messages now P db) = filter (\<lambda>m. \<not> P m) (messages db)"
  "db_sessions (delete_messages now P db) = db_sessions db"
  "attachments (delete_messages now P db) = attachments (delete_attachments now (message_gone P db) db)"
  "file_deletions (delete_messages now P db) = file_deletions (delete_attachments now (message_gone P db) db)"
  by (simp_all add: delete_messages_def Let_def chat_frame message_gone_eq)

text \<open>The chat tables after a deletion of chats are those of two deletions in a row.\<close>

definition gone_chats :: "(chat_row \<Rightarrow> bool) \<Rightarrow> chat_db \<Rightarrow> uuid set" where
  "gone_chats P db = chat_id ` set (filter P (chats db))"

definition chat_gone :: "uuid set \<Rightarrow> attachment_row \<Rightarrow> bool" where
  "chat_gone gone a \<longleftrightarrow> (case att_chat a of None \<Rightarrow> False | Some c \<Rightarrow> c \<in> gone)"

lemma delete_chats_frame [chat_frame]:
  "chats (delete_chats now P db) = filter (\<lambda>c. \<not> P c) (chats db)"
  "messages (delete_chats now P db) = filter (\<lambda>m. msg_chat m \<notin> gone_chats P db) (messages db)"
  "db_sessions (delete_chats now P db) = db_sessions db"
  "attachments (delete_chats now P db) = attachments (delete_attachments now (chat_gone (gone_chats P db))
     (delete_messages now (\<lambda>m. msg_chat m \<in> gone_chats P db) db))"
  "file_deletions (delete_chats now P db) = file_deletions (delete_attachments now (chat_gone (gone_chats P db))
     (delete_messages now (\<lambda>m. msg_chat m \<in> gone_chats P db) db))"
  by (simp_all add: delete_chats_def Let_def chat_frame gone_chats_def chat_gone_def [abs_def])

lemma touch_frame [chat_frame]:
  "messages (touch_chat now i db) = messages db" "attachments (touch_chat now i db) = attachments db"
  "file_deletions (touch_chat now i db) = file_deletions db"
  "db_sessions (touch_chat now i db) = db_sessions db"
  by (simp_all add: touch_chat_def)

lemma link_follow_up_frame [chat_frame]:
  "chats (link_follow_up i c db) = chats db" "messages (link_follow_up i c db) = messages db"
  "attachments (link_follow_up i c db) = attachments db"
  "file_deletions (link_follow_up i c db) = file_deletions db"
  "db_sessions (link_follow_up i c db) = db_sessions db"
  by (simp_all add: link_follow_up_def)

lemma enqueue_memory_job_frame:
  assumes "enqueue_memory_job now i c u a zone db = Inr db'"
  shows "chats db' = chats db" "messages db' = messages db" "attachments db' = attachments db"
    "file_deletions db' = file_deletions db" "db_sessions db' = db_sessions db"
  using assms by (auto simp: enqueue_memory_job_def split: if_splits)

section \<open>The invariant is kept by every change\<close>

lemma inv_insert_chat:
  assumes "insert_chat owner i character profile t db = Inr db'"
    and inv: "chat_inv accounts db" and "owner_ok accounts owner"
  shows "chat_inv accounts db'"
proof (rule chat_invI)
  fix a assume "a \<in> set (attachments db')"
  with assms have "links_ok accounts db a" by (auto simp: insert_chat_def chat_inv_def split: if_splits)
  then show "links_ok accounts db' a"
    by (rule links_ok_mono) (use assms in \<open>auto simp: insert_chat_def split: if_splits\<close>)
qed (use assms in \<open>auto simp: insert_chat_def chat_inv_def owner_ok_def split: if_splits\<close>)

lemma inv_insert_message:
  assumes "insert_message m db = Inr db'" and inv: "chat_inv accounts db"
  shows "chat_inv accounts db'"
proof (rule chat_invI)
  fix a assume "a \<in> set (attachments db')"
  with assms have "links_ok accounts db a" by (auto simp: insert_message_def chat_inv_def split: if_splits)
  then show "links_ok accounts db' a"
    by (rule links_ok_mono) (use assms in \<open>auto simp: insert_message_def split: if_splits\<close>)
qed (use assms in \<open>auto simp: insert_message_def chat_inv_def split: if_splits\<close>)

lemma map_chat_id_touch: "map chat_id (chats (touch_chat now i db)) = map chat_id (chats db)"
  by (simp add: touch_chat_def)

lemma touch_row:
  "c \<in> set (chats (touch_chat now i db)) \<longleftrightarrow>
     (\<exists>c0\<in>set (chats db). c = (if chat_id c0 = i then c0\<lparr>chat_updated := now\<rparr> else c0))"
  by (simp add: touch_chat_def image_iff del: if_image_distrib)

lemma inv_touch:
  assumes inv: "chat_inv accounts db"
  shows "chat_inv accounts (touch_chat now i db)"
proof (rule chat_invI)
  show "distinct (map chat_id (chats (touch_chat now i db)))"
    unfolding map_chat_id_touch using inv by (simp add: chat_inv_def)
  show "chat_user c = accounts (chat_session c)" if "c \<in> set (chats (touch_chat now i db))" for c
    using that inv by (auto simp: touch_row chat_inv_def)
  show "msg_chat m \<in> chat_id ` set (chats (touch_chat now i db))"
    if "m \<in> set (messages (touch_chat now i db))" for m
    using that inv
    by (simp add: chat_inv_def chat_frame image_set map_chat_id_touch del: set_map)
  show "links_ok accounts (touch_chat now i db) a" if "a \<in> set (attachments (touch_chat now i db))" for a
  proof -
    have "links_ok accounts db a" using that inv by (simp add: chat_inv_def chat_frame)
    then show ?thesis
    proof (cases "att_message a")
      case (Some k)
      with \<open>links_ok accounts db a\<close> obtain m c where m: "m \<in> set (messages db)" "msg_id m = k"
        and c: "c \<in> set (chats db)" "msg_chat m = chat_id c" "att_chat a = Some (chat_id c)"
          "account_of accounts (chat_session c) = account_of accounts (att_session a)"
        by (auto simp: links_ok_def)
      obtain c' where c': "c' \<in> set (chats (touch_chat now i db))" "chat_id c' = chat_id c"
        "chat_session c' = chat_session c"
        by (rule that [of "if chat_id c = i then c\<lparr>chat_updated := now\<rparr> else c"])
          (use c(1) in \<open>auto simp: touch_row\<close>)
      show ?thesis
        unfolding links_ok_def Some option.case chat_frame
        by (rule bexI [OF _ m(1)], rule bexI [OF _ c'(1)]) (simp add: m(2) c c')
    qed (simp add: links_ok_def)
  qed
qed (use inv in \<open>auto simp: chat_inv_def chat_frame\<close>)

lemma inv_link:
  assumes inv: "chat_inv accounts db" and ok: "owner_ok accounts owner"
    and c: "c \<in> set (chats db)" "owns_chat owner c"
    and m: "m \<in> set (messages db)" "msg_chat m = chat_id c"
  shows "chat_inv accounts (snd (link_attachments owner (chat_id c) (msg_id m) ids db))"
proof (rule chat_invI)
  let ?db = "snd (link_attachments owner (chat_id c) (msg_id m) ids db)"
  fix a assume "a \<in> set (attachments ?db)"
  then obtain a0 where a0: "a0 \<in> set (attachments db)"
    and a: "a = (if linkable owner ids a0 then a0\<lparr>att_chat := Some (chat_id c), att_message := Some (msg_id m)\<rparr> else a0)"
    by (auto simp: link_attachments_def)
  have acct: "account_of accounts (chat_session c) = owner_account accounts owner"
    using c inv ok by (auto simp: owns_chat_def chat_inv_def owns_row_account)
  have "account_of accounts (att_session a0) = owner_account accounts owner" if "linkable owner ids a0"
    using that a0 inv ok by (auto simp: linkable_def chat_inv_def owns_row_account)
  with a acct c(1) m have new: "links_ok accounts db a" if "linkable owner ids a0"
    using that by (auto simp: links_ok_def)
  have "links_ok accounts db a0" using a0 inv by (simp add: chat_inv_def)
  with a new have "links_ok accounts db a" by (cases "linkable owner ids a0") simp_all
  then show "links_ok accounts ?db a" by (rule links_ok_mono) (simp_all add: link_attachments_def)
  from a0 a inv show "att_user a = accounts (att_session a) \<and> att_deleted a = None"
    by (simp add: chat_inv_def)
next
  have "map att_id (attachments (snd (link_attachments owner (chat_id c) (msg_id m) ids db)))
      = map att_id (attachments db)"
    by (simp add: link_attachments_def)
  then show "distinct (map att_id (attachments (snd (link_attachments owner (chat_id c) (msg_id m) ids db))))"
    using inv by (simp add: chat_inv_def)
qed (use inv in \<open>auto simp: chat_inv_def link_attachments_def\<close>)

lemma inv_delete_attachments:
  assumes inv: "chat_inv accounts db"
  shows "chat_inv accounts (delete_attachments now P db)"
proof -
  have "links_ok accounts (delete_attachments now P db) a = links_ok accounts db a" for a
    by (rule links_ok_cong) (simp_all add: chat_frame)
  with inv show ?thesis by (simp add: chat_inv_def chat_frame distinct_map_filter)
qed

lemma inv_delete_messages:
  assumes inv: "chat_inv accounts db"
  shows "chat_inv accounts (delete_messages now P db)"
proof (rule chat_invI)
  fix a assume "a \<in> set (attachments (delete_messages now P db))"
  then have a: "a \<in> set (attachments db)" "\<not> message_gone P db a" by (simp_all add: chat_frame)
  with inv have "links_ok accounts db a" by (simp add: chat_inv_def)
  with a(2) show "links_ok accounts (delete_messages now P db) a"
    by (fastforce simp: links_ok_def chat_frame message_gone_def split: option.splits)
qed (use inv in \<open>auto simp: chat_inv_def chat_frame distinct_map_filter\<close>)

lemma inv_delete_chats:
  assumes inv: "chat_inv accounts db"
  shows "chat_inv accounts (delete_chats now P db)"
proof (rule chat_invI)
  let ?gone = "gone_chats P db"
  have ids: "distinct (map chat_id (chats db))" using inv by (simp add: chat_inv_def)
  have kept: "\<not> P c" if "c \<in> set (chats db)" "chat_id c \<notin> ?gone" for c
    using that by (auto simp: gone_chats_def)
  show "msg_chat m \<in> chat_id ` set (chats (delete_chats now P db))"
    if "m \<in> set (messages (delete_chats now P db))" for m
  proof -
    have m: "m \<in> set (messages db)" "msg_chat m \<notin> ?gone" using that by (simp_all add: chat_frame)
    then obtain c where "c \<in> set (chats db)" "msg_chat m = chat_id c" using inv by (auto simp: chat_inv_def)
    then show ?thesis using m kept by (auto simp: chat_frame)
  qed
  fix a assume "a \<in> set (attachments (delete_chats now P db))"
  then have a: "a \<in> set (attachments db)" "\<not> message_gone (\<lambda>m. msg_chat m \<in> ?gone) db a"
    "\<not> chat_gone ?gone a" by (simp_all add: chat_frame)
  with inv have ok: "links_ok accounts db a" by (simp add: chat_inv_def)
  show "links_ok accounts (delete_chats now P db) a"
  proof (cases "att_message a")
    case None
    with ok show ?thesis by (simp add: links_ok_def)
  next
    case (Some i)
    with ok obtain m c where m: "m \<in> set (messages db)" "msg_id m = i" "msg_chat m = chat_id c"
      and c: "c \<in> set (chats db)" "att_chat a = Some (chat_id c)"
        "account_of accounts (chat_session c) = account_of accounts (att_session a)"
      by (auto simp: links_ok_def)
    have "chat_id c \<notin> ?gone" using a(3) c by (simp add: chat_gone_def)
    with m c kept have "m \<in> set (messages (delete_chats now P db))" "c \<in> set (chats (delete_chats now P db))"
      by (auto simp: chat_frame)
    with Some m c show ?thesis by (auto simp: links_ok_def)
  qed
qed (use inv in \<open>auto simp: chat_inv_def chat_frame distinct_map_filter\<close>)

lemma insert_chat_attachment_Inr:
  assumes "insert_chat_attachment now owner n db = Inr (row, db')"
  shows "row = new_attachment_row now owner n" "db' = db\<lparr>attachments := attachments db @ [row]\<rparr>"
    "na_id n \<notin> att_id ` set (attachments db)"
  using assms by (auto simp: insert_chat_attachment_def Let_def split: if_splits)

lemma inv_insert_attachment:
  assumes ins: "insert_chat_attachment now owner n db = Inr (row, db')"
    and inv: "chat_inv accounts db" and "owner_ok accounts owner"
  shows "chat_inv accounts db'"
proof (rule chat_invI)
  note db' = insert_chat_attachment_Inr [OF ins]
  fix a assume a: "a \<in> set (attachments db')"
  have "links_ok accounts db a"
  proof (cases "a = row")
    case True
    then show ?thesis by (simp add: links_ok_def db'(1) new_attachment_row_def)
  next
    case False
    with a inv show ?thesis by (simp add: db'(2) chat_inv_def)
  qed
  then show "links_ok accounts db' a" by (rule links_ok_mono) (simp_all add: db'(2))
qed (use insert_chat_attachment_Inr [OF ins] inv \<open>owner_ok accounts owner\<close> in
    \<open>auto simp: chat_inv_def owner_ok_def new_attachment_row_def\<close>)

end
