(* ===== verification/Chat_Limits.thy ===== *)
theory Chat_Limits
  imports Chat_Inv
begin

text \<open>
  What the operations on the chat tables keep bounded: the messages and characters of a chat, the chats of
  an owner, and the bytes an owner's attachments occupy, counted until their files are gone. The second
  rests on the keys of live attachments and of queued deletions being different from each other, so that
  deleting an attachment moves its bytes from one table to the other.
\<close>

section \<open>Keys of files\<close>

definition files_inv :: "chat_db \<Rightarrow> bool" where
  "files_inv db \<longleftrightarrow>
     distinct (map att_key (attachments db) @ map fd_key (file_deletions db))
     \<and> (\<forall>a\<in>set (attachments db). 0 \<le> att_size a) \<and> (\<forall>d\<in>set (file_deletions db). 0 \<le> fd_size d)"

lemma fold_enqueue_fresh:
  assumes "distinct (map att_key as @ map fd_key ds)"
  shows "fold (enqueue_file now) as ds = ds @ map (new_file_deletion now) as"
  using assms
proof (induction as arbitrary: ds)
  case (Cons a as)
  from Cons.prems have "\<not> list_ex (\<lambda>d. fd_key d = att_key a) ds"
    by (auto simp: list_ex_iff) (metis imageI)
  then have "enqueue_file now a ds = ds @ [new_file_deletion now a]"
    by (simp add: enqueue_file_def)
  moreover have "distinct (map att_key as @ map fd_key (ds @ [new_file_deletion now a]))"
    using Cons.prems by (auto simp: new_file_deletion_def)
  ultimately show ?case using Cons.IH by simp
qed simp

lemma distinct_keys_filter:
  "distinct (map f xs @ map g ys) \<Longrightarrow> distinct (map f (filter P xs) @ map g ys)"
  by (auto simp: distinct_map_filter)

lemma delete_attachments_files:
  assumes "files_inv db"
  shows "file_deletions (delete_attachments now P db)
    = file_deletions db @ map (new_file_deletion now) (filter P (attachments db))"
  using assms
  by (simp add: delete_attachments_def files_inv_def fold_enqueue_fresh [OF distinct_keys_filter])

lemma files_inv_delete_attachments:
  assumes inv: "files_inv db"
  shows "files_inv (delete_attachments now P db)"
proof -
  have keys: "map fd_key (map (new_file_deletion now) as) = map att_key as" for as
    by (simp add: new_file_deletion_def)
  have "distinct (map att_key (attachments db))" using inv by (simp add: files_inv_def)
  then have "att_key ` set (filter (\<lambda>a. \<not> P a) (attachments db)) \<inter> att_key ` set (filter P (attachments db)) = {}"
    by (auto simp: distinct_map dest: inj_onD)
  then have "distinct (map att_key (attachments (delete_attachments now P db))
      @ map fd_key (file_deletions (delete_attachments now P db)))"
    using inv
    by (auto simp: delete_attachments_files [OF inv] chat_frame files_inv_def distinct_map_filter keys
        simp del: map_map)
  with inv show ?thesis
    by (auto simp: files_inv_def delete_attachments_files [OF inv] chat_frame new_file_deletion_def)
qed

lemma files_inv_cong:
  "attachments db' = attachments db \<Longrightarrow> file_deletions db' = file_deletions db \<Longrightarrow> files_inv db' = files_inv db"
  by (simp add: files_inv_def)

lemma files_inv_delete_messages: "files_inv db \<Longrightarrow> files_inv (delete_messages now P db)"
  by (subst files_inv_cong [where db = "delete_attachments now (message_gone P db) db"])
    (simp_all add: chat_frame files_inv_delete_attachments)

lemma files_inv_delete_chats: "files_inv db \<Longrightarrow> files_inv (delete_chats now P db)"
  by (subst files_inv_cong [where db = "delete_attachments now (chat_gone (gone_chats P db))
        (delete_messages now (\<lambda>m. msg_chat m \<in> gone_chats P db) db)"])
    (simp_all only: delete_chats_frame files_inv_delete_attachments files_inv_delete_messages)

section \<open>Bytes of an owner\<close>

definition stored_bytes :: "owner_scope \<Rightarrow> chat_db \<Rightarrow> int" where
  "stored_bytes owner db = live_bytes owner db + queued_bytes owner db"

lemma stored_bytes_cong:
  "attachments db' = attachments db \<Longrightarrow> file_deletions db' = file_deletions db
    \<Longrightarrow> stored_bytes owner db' = stored_bytes owner db"
  by (simp add: stored_bytes_def live_bytes_def queued_bytes_def)

lemma owns_new_deletion: "owns_deletion owner (new_file_deletion now a) = owns_attachment owner a"
  by (auto simp: owns_deletion_def owns_attachment_def owns_row_def new_file_deletion_def split: option.splits)

lemma sum_list_filter_split:
  "sum_list (map f (filter (\<lambda>x. \<not> P x) xs)) + sum_list (map f (filter P xs)) = sum_list (map f xs)"
  for f :: "'a \<Rightarrow> int"
  by (induction xs) auto

lemma filter_map_new_deletion:
  "map fd_size (filter (owns_deletion owner) (map (new_file_deletion now) as))
    = map att_size (filter (owns_attachment owner) as)"
  by (induction as) (simp_all add: owns_new_deletion, simp add: new_file_deletion_def)

lemma stored_bytes_delete_attachments:
  assumes inv: "files_inv db" and live: "\<forall>a\<in>set (attachments db). att_deleted a = None"
  shows "stored_bytes owner (delete_attachments now P db) = stored_bytes owner db"
proof -
  have live_eq: "live_bytes owner (db\<lparr>attachments := as\<rparr>) = sum_list (map att_size (filter (owns_attachment owner) as))"
    if "set as \<subseteq> set (attachments db)" for as
  proof -
    have "filter (\<lambda>a. att_deleted a = None \<and> owns_attachment owner a) as = filter (owns_attachment owner) as"
      by (rule filter_cong) (use that live in auto)
    then show ?thesis by (simp add: live_bytes_def)
  qed
  have sub: "set (filter Q (attachments db)) \<subseteq> set (attachments db)" for Q by auto
  have "live_bytes owner (delete_attachments now P db)
      = live_bytes owner (db\<lparr>attachments := filter (\<lambda>a. \<not> P a) (attachments db)\<rparr>)"
    by (simp add: live_bytes_def chat_frame)
  also have "\<dots> = sum_list (map att_size (filter (\<lambda>a. \<not> P a) (filter (owns_attachment owner) (attachments db))))"
    unfolding live_eq [OF sub] by (simp add: conj_commute)
  finally have live': "live_bytes owner (delete_attachments now P db) = \<dots>" .
  have "queued_bytes owner (delete_attachments now P db)
      = queued_bytes owner db + sum_list (map att_size (filter P (filter (owns_attachment owner) (attachments db))))"
    by (simp add: queued_bytes_def delete_attachments_files [OF inv] filter_map_new_deletion conj_commute
        del: filter_map)
  with live' sum_list_filter_split [of att_size P "filter (owns_attachment owner) (attachments db)"]
  have "stored_bytes owner (delete_attachments now P db)
      = sum_list (map att_size (filter (owns_attachment owner) (attachments db))) + queued_bytes owner db"
    by (simp add: stored_bytes_def)
  also have "\<dots> = stored_bytes owner db"
    using live_eq [of "attachments db"] by (simp add: stored_bytes_def live_bytes_def)
  finally show ?thesis .
qed

lemma stored_bytes_delete_messages:
  assumes "files_inv db" and "\<forall>a\<in>set (attachments db). att_deleted a = None"
  shows "stored_bytes owner (delete_messages now P db) = stored_bytes owner db"
  using stored_bytes_delete_attachments [OF assms, of owner now "message_gone P db"]
  by (subst stored_bytes_cong [where db = "delete_attachments now (message_gone P db) db"])
    (simp_all add: chat_frame)

lemma stored_bytes_delete_chats:
  assumes inv: "files_inv db" and live: "\<forall>a\<in>set (attachments db). att_deleted a = None"
  shows "stored_bytes owner (delete_chats now P db) = stored_bytes owner db"
proof -
  let ?db = "delete_messages now (\<lambda>m. msg_chat m \<in> gone_chats P db) db"
  have "stored_bytes owner (delete_chats now P db)
      = stored_bytes owner (delete_attachments now (chat_gone (gone_chats P db)) ?db)"
    by (rule stored_bytes_cong) (simp_all only: delete_chats_frame)
  also have "\<dots> = stored_bytes owner ?db"
    by (rule stored_bytes_delete_attachments)
      (use inv live in \<open>simp_all add: files_inv_delete_messages chat_frame\<close>)
  also have "\<dots> = stored_bytes owner db" by (rule stored_bytes_delete_messages [OF inv live])
  finally show ?thesis .
qed

section \<open>Counts\<close>

definition chats_within :: "chat_storage_limits \<Rightarrow> chat_db \<Rightarrow> bool" where
  "chats_within limits db \<longleftrightarrow>
     (\<forall>c. length (chat_messages_of c db) \<le> max_messages_per_chat limits
          \<and> stored_chars c db \<le> max_stored_chars_per_chat limits)"

definition owners_within ::
  "(uuid \<Rightarrow> uuid option) \<Rightarrow> chat_storage_limits \<Rightarrow> chat_db \<Rightarrow> bool" where
  "owners_within accounts limits db \<longleftrightarrow>
     (\<forall>owner. owner_ok accounts owner \<longrightarrow> owner_chat_count owner db \<le> max_chats_per_owner limits)"

lemma chats_within_cong: "messages db' = messages db \<Longrightarrow> chats_within limits db' = chats_within limits db"
  by (simp add: chats_within_def chat_messages_of_def stored_chars_def)

lemma owners_within_cong:
  "chats db' = chats db \<Longrightarrow> owners_within accounts limits db' = owners_within accounts limits db"
  by (simp add: owners_within_def owner_chat_count_def)

lemma sum_list_filter_le: "sum_list (map f (filter P xs)) \<le> sum_list (map f xs)" for f :: "'a \<Rightarrow> nat"
  by (induction xs) auto

lemma chats_within_filter:
  assumes "chats_within limits db" and eq: "messages db' = filter P (messages db)"
  shows "chats_within limits db'"
proof -
  have "chat_messages_of c db' = filter P (chat_messages_of c db)" for c
    by (simp add: chat_messages_of_def eq conj_commute)
  then have "length (chat_messages_of c db') \<le> length (chat_messages_of c db)"
    and "stored_chars c db' \<le> stored_chars c db" for c
    by (simp_all add: stored_chars_def sum_list_filter_le)
  with assms(1) show ?thesis unfolding chats_within_def by (meson order_trans)
qed

lemma owners_within_filter:
  assumes "owners_within accounts limits db" and "chats db' = filter P (chats db)"
  shows "owners_within accounts limits db'"
proof -
  have "owner_chat_count owner db' \<le> owner_chat_count owner db" for owner
    using length_filter_le [of P "filter (owns_chat owner) (chats db)"]
    by (simp add: owner_chat_count_def assms(2) conj_commute)
  with assms(1) show ?thesis unfolding owners_within_def by (meson order_trans)
qed

lemma owner_chat_count_touch: "owner_chat_count owner (touch_chat now i db) = owner_chat_count owner db"
  unfolding owner_chat_count_def touch_chat_def
  by (simp add: filter_map o_def owns_chat_def [abs_def] if_distrib cong: if_cong)

text \<open>Two scopes of one account own the same rows.\<close>

lemma owns_same_account:
  assumes "owner_ok accounts o1" and "owner_ok accounts o2"
    and "owner_account accounts o1 = owner_account accounts o2"
  shows "owns_row o1 s (accounts s) = owns_row o2 s (accounts s)"
  using assms by (simp add: owns_row_account [OF assms(1)] owns_row_account [OF assms(2)])

lemma owners_within_insert:
  assumes ins: "insert_chat owner i character profile t db = Inr db'"
    and inv: "chat_inv accounts db" and ok: "owner_ok accounts owner"
    and room: "owner_chat_count owner db < max_chats_per_owner limits"
    and wf: "owners_within accounts limits db"
  shows "owners_within accounts limits db'"
proof -
  obtain c where c: "chats db' = chats db @ [c]" "chat_session c = scope_session owner"
    "chat_user c = accounts (scope_session owner)"
    using ins ok by (auto simp: insert_chat_def owner_ok_def split: if_splits)
  have "owner_chat_count other db' \<le> max_chats_per_owner limits" if other: "owner_ok accounts other" for other
  proof (cases "owns_chat other c")
    case True
    then have acct: "owner_account accounts owner = owner_account accounts other"
      using owns_row_account [OF other refl] c by (simp add: owns_chat_def owner_account_def)
    have "owns_chat other d = owns_chat owner d" if "d \<in> set (chats db)" for d
      using that inv owns_same_account [OF ok other acct] by (simp add: owns_chat_def chat_inv_def)
    then have "owner_chat_count other db = owner_chat_count owner db"
      unfolding owner_chat_count_def by (metis filter_cong)
    with room True c(1) show ?thesis by (simp add: owner_chat_count_def)
  next
    case False
    with wf other c(1) show ?thesis by (simp add: owners_within_def owner_chat_count_def)
  qed
  then show ?thesis by (simp add: owners_within_def)
qed

lemma chats_within_insert:
  assumes "insert_message m db = Inr db'" and "chats_within limits db"
    and "length (chat_messages_of (msg_chat m) db) < max_messages_per_chat limits"
    and "stored_chars (msg_chat m) db + length (msg_content m) \<le> max_stored_chars_per_chat limits"
  shows "chats_within limits db'"
  using assms
  by (auto simp: insert_message_def chats_within_def chat_messages_of_def stored_chars_def split: if_splits)

end
