(* ===== verification/Chat_Machine.thy ===== *)
theory Chat_Machine
  imports Chat_Limits
begin

text \<open>
  The chat tables as a machine: an event is one call of an operation of \<open>store/chat.rs\<close> or
  \<open>store/attachments.rs\<close> with its arguments, by a handler or by the cleanup worker. The events of a run
  come from sessions with fixed accounts, and the key of an uploaded file, which holds a new UUID, is not
  in use. Sign-up, which moves the rows of a guest to an account, is not an event of this machine.
\<close>

datatype chat_event =
    CreateChat new_chat owner_scope ustr ustr "uuid option"
  | AppendTurn timestamp uuid owner_scope uuid stored_message stored_message "uuid list" ustr "uuid option" quota_db
  | ClearChat micros owner_scope uuid
  | DeleteChat micros owner_scope uuid
  | UploadAttachment micros owner_scope new_attachment
  | DeletePending micros owner_scope uuid
  | DeleteStale micros ustr nat int
  | ClaimDeletions micros uuid int
  | ClaimDeletionsFor micros uuid "ustr list" int
  | CompleteDeletion ustr uuid
  | RetryDeletion micros ustr uuid
  | ReconcileFile micros ustr int

fun event_owner :: "chat_event \<Rightarrow> owner_scope option" where
  "event_owner (CreateChat new owner character profile follow_up) = Some owner"
| "event_owner (AppendTurn now job owner i u a ids zone reservation q) = Some owner"
| "event_owner (ClearChat now owner i) = Some owner"
| "event_owner (DeleteChat now owner i) = Some owner"
| "event_owner (UploadAttachment now owner n) = Some owner"
| "event_owner (DeletePending now owner i) = Some owner"
| "event_owner e = None"

fun apply_chat_event :: "chat_storage_limits \<Rightarrow> int \<Rightarrow> chat_event \<Rightarrow> chat_db \<Rightarrow> chat_db" where
  "apply_chat_event limits max_bytes (CreateChat new owner character profile follow_up) db =
     snd (create_chat_with_follow_up_limited new owner character profile follow_up limits db)"
| "apply_chat_event limits max_bytes (AppendTurn now job owner i u a ids zone reservation q) db =
     fst (snd (append_chat_messages_limited_with_quota now job owner i u a ids zone limits reservation db q))"
| "apply_chat_event limits max_bytes (ClearChat now owner i) db = snd (clear_chat_messages now owner i db)"
| "apply_chat_event limits max_bytes (DeleteChat now owner i) db = snd (delete_chat now owner i db)"
| "apply_chat_event limits max_bytes (UploadAttachment now owner n) db =
     snd (create_chat_attachment_with_storage_quota now owner n max_bytes db)"
| "apply_chat_event limits max_bytes (DeletePending now owner i) db =
     snd (delete_pending_chat_attachment now owner i db)"
| "apply_chat_event limits max_bytes (DeleteStale now kind before n) db =
     snd (delete_stale_pending_chat_attachments now kind before n db)"
| "apply_chat_event limits max_bytes (ClaimDeletions now token n) db =
     snd (claim_chat_attachment_file_deletions now token n db)"
| "apply_chat_event limits max_bytes (ClaimDeletionsFor now token keys n) db =
     snd (claim_chat_attachment_file_deletions_for_keys now token keys n db)"
| "apply_chat_event limits max_bytes (CompleteDeletion key token) db =
     snd (complete_chat_attachment_file_deletion key token db)"
| "apply_chat_event limits max_bytes (RetryDeletion now key token) db =
     snd (retry_chat_attachment_file_deletion now key token db)"
| "apply_chat_event limits max_bytes (ReconcileFile now key n) db =
     snd (enqueue_reconciled_chat_attachment_file_deletion now key n db)"

fun upload_fresh :: "chat_event \<Rightarrow> chat_db \<Rightarrow> bool" where
  "upload_fresh (UploadAttachment now owner n) db \<longleftrightarrow>
     0 \<le> na_size n \<and> na_key n \<notin> att_key ` set (attachments db) \<union> fd_key ` set (file_deletions db)"
| "upload_fresh e db \<longleftrightarrow> True"

definition event_ok :: "(uuid \<Rightarrow> uuid option) \<Rightarrow> chat_event \<Rightarrow> chat_db \<Rightarrow> bool" where
  "event_ok accounts e db \<longleftrightarrow>
     (case event_owner e of None \<Rightarrow> True | Some owner \<Rightarrow> owner_ok accounts owner) \<and> upload_fresh e db"

inductive chat_reachable ::
  "(uuid \<Rightarrow> uuid option) \<Rightarrow> chat_storage_limits \<Rightarrow> int \<Rightarrow> uuid set \<Rightarrow> chat_db \<Rightarrow> bool"
  for accounts limits max_bytes session_ids where
  chat_start: "chat_reachable accounts limits max_bytes session_ids (empty_chat_db session_ids)"
| chat_step: "chat_reachable accounts limits max_bytes session_ids db \<Longrightarrow> event_ok accounts e db
    \<Longrightarrow> chat_reachable accounts limits max_bytes session_ids (apply_chat_event limits max_bytes e db)"

section \<open>What a transaction of the source changes\<close>

lemma insert_message_Inr:
  assumes "insert_message m db = Inr db'"
  shows "db' = db\<lparr>messages := messages db @ [m]\<rparr>" "msg_id m \<notin> msg_id ` set (messages db)"
    "msg_chat m \<in> chat_id ` set (chats db)"
  using assms by (auto simp: insert_message_def split: if_splits)

lemma insert_chat_Inr:
  assumes "insert_chat owner i character profile t db = Inr db'"
  shows "db' = db\<lparr>chats := chats db @
      [\<lparr>chat_id = i, chat_session = scope_session owner, chat_user = scope_user owner,
        chat_character = character, chat_profile = profile, chat_created = t, chat_updated = t\<rparr>]\<rparr>"
    "i \<notin> chat_id ` set (chats db)"
  using assms by (auto simp: insert_chat_def split: if_splits)

lemma row_of_message_Inr:
  assumes "row_of_message c m = Inr r"
  shows "msg_chat r = c" "msg_id r = sm_id m" "msg_content r = sm_content m"
    "msg_role r = role_to_db (sm_role m)"
  using assms by (cases "timestamp_of_seconds (as_i64 (sm_created m))"; auto simp: row_of_message_def)+

lemma insert_turn_Inr:
  assumes "insert_turn c u a db = Inr db'"
  obtains ru ra db1 where "insert_message ru db = Inr db1" and "insert_message ra db1 = Inr db'"
    and "msg_chat ru = c" "msg_chat ra = c" "msg_id ru = sm_id u" "msg_id ra = sm_id a"
    and "msg_content ru = sm_content u" "msg_content ra = sm_content a"
    and "msg_role ru = role_to_db (sm_role u)" "msg_role ra = role_to_db (sm_role a)"
  using assms by (auto simp: insert_turn_def row_of_message_Inr split: sum.splits)

lemma append_writes_Inr:
  assumes "append_writes now job owner c u a ids zone db = Inr (Some db')"
  obtains db1 db2 db3 where "insert_turn (chat_id c) u a db = Inr db1"
    and "enqueue_memory_job (int now) job c (sm_id u) (sm_id a) zone db1 = Inr db2"
    and "db3 = db2 \<or> db3 = snd (link_attachments owner (chat_id c) (sm_id u) ids db2)"
    and "db' = touch_chat (int now) (chat_id c) db3"
  using assms
  by (auto simp: append_writes_def link_attachments_def split: sum.splits if_splits prod.splits)

lemma attach_follow_up_Inr:
  assumes "attach_follow_up owner character chat message i limits db = Inr (Inr db')"
  obtains m db1 where "insert_message m db = Inr db1" and "db' = link_follow_up i chat db1"
    and "msg_chat m = chat" and "msg_id m = message" and "msg_role m = ''assistant''"
    and "1 \<le> max_messages_per_chat limits"
    and "length (msg_content m) \<le> max_stored_chars_per_chat limits"
  using assms by (auto simp: attach_follow_up_def split: option.splits if_splits sum.splits)

lemma create_chat_transaction_Inr:
  assumes "create_chat_transaction new owner character profile follow_up limits db = Inr (Inr db')"
  obtains t db1 where "insert_chat owner (nc_chat new) character profile t db = Inr db1"
    and "owner_chat_count owner db < max_chats_per_owner limits"
    and "follow_up = None \<and> db' = db1 \<or>
      (\<exists>i. attach_follow_up owner character (nc_chat new) (nc_message new) i limits db1 = Inr (Inr db'))"
  using assms
  by (auto simp: create_chat_transaction_def not_le split: if_splits sum.splits option.splits)

lemma create_chat_db:
  "snd (create_chat_with_follow_up_limited new owner character profile follow_up limits db) =
     (case create_chat_transaction new owner character profile follow_up limits db of
        Inr (Inr db') \<Rightarrow> db' | Inr (Inl outcome) \<Rightarrow> db | Inl e \<Rightarrow> db)"
  by (auto simp: create_chat_with_follow_up_limited_def split: sum.splits option.splits)

lemma append_db:
  "fst (snd (append_chat_messages_limited_with_quota now job owner i u a ids zone limits reservation db q)) = db
   \<or> (\<exists>c db'. c \<in> set (chats db) \<and> chat_id c = i \<and> owns_chat owner c \<and> \<not> append_over_limit limits i u a db
      \<and> append_writes now job owner c u a ids zone db = Inr (Some db')
      \<and> fst (snd (append_chat_messages_limited_with_quota now job owner i u a ids zone limits reservation db q)) = db')"
  by (auto simp: append_chat_messages_limited_with_quota_def find_Some_iff in_set_conv_nth
      split: option.splits sum.splits)

section \<open>Every event keeps the tables consistent\<close>

lemma inv_create:
  assumes "create_chat_transaction new owner character profile follow_up limits db = Inr (Inr db')"
    and "chat_inv accounts db" and "owner_ok accounts owner"
  shows "chat_inv accounts db'"
  using assms(1)
proof (cases rule: create_chat_transaction_Inr)
  case (1 t db1)
  note inv1 = inv_insert_chat [OF 1(1) assms(2,3)]
  from 1(3) show ?thesis
  proof (elim disjE exE conjE)
    fix i assume "attach_follow_up owner character (nc_chat new) (nc_message new) i limits db1 = Inr (Inr db')"
    then show ?thesis
    proof (cases rule: attach_follow_up_Inr)
      case (1 m db2)
      with inv_insert_message [OF 1(1) inv1] show ?thesis
        by (simp add: chat_inv_cong [of "link_follow_up i (nc_chat new) db2" db2] chat_frame)
    qed
  qed (use inv1 in simp)
qed

lemma inv_append:
  assumes "append_writes now job owner c u a ids zone db = Inr (Some db')"
    and inv: "chat_inv accounts db" and ok: "owner_ok accounts owner"
    and c: "c \<in> set (chats db)" "owns_chat owner c"
  shows "chat_inv accounts db'"
  using assms(1)
proof (cases rule: append_writes_Inr)
  case (1 db1 db2 db3)
  note frame = enqueue_memory_job_frame [OF 1(2)]
  from 1(1) show ?thesis
  proof (cases rule: insert_turn_Inr)
    case (1 ru ra db0)
    have inv1: "chat_inv accounts db1"
      by (rule inv_insert_message [OF 1(2) inv_insert_message [OF 1(1) inv]])
    have inv2: "chat_inv accounts db2" using inv1 by (simp add: chat_inv_cong [of db2 db1] frame)
    have "ru \<in> set (messages db2)" "c \<in> set (chats db2)"
      using c(1) by (simp_all add: frame insert_message_Inr [OF 1(1)] insert_message_Inr [OF 1(2)])
    with inv_link [OF inv2 ok, of c ru] 1 c(2)
    have "chat_inv accounts (snd (link_attachments owner (chat_id c) (sm_id u) ids db2))" by simp
    with inv2 \<open>db3 = _ \<or> _\<close> have "chat_inv accounts db3" by auto
    with \<open>db' = _\<close> show ?thesis by (simp add: inv_touch)
  qed
qed

lemma queue_only_inv:
  assumes "chat_inv accounts db" and "chats db' = chats db" "messages db' = messages db" "attachments db' = attachments db"
  shows "chat_inv accounts db'"
  using assms chat_inv_cong by blast

lemma claim_frame [chat_frame]:
  "chats (snd (claim_eligible now token n P db)) = chats db"
  "messages (snd (claim_eligible now token n P db)) = messages db"
  "attachments (snd (claim_eligible now token n P db)) = attachments db"
  by (simp_all add: claim_eligible_def Let_def)

text \<open>The events of the worker change the queue only.\<close>

fun queue_event :: "chat_event \<Rightarrow> bool" where
  "queue_event (ClaimDeletions now token n) \<longleftrightarrow> True"
| "queue_event (ClaimDeletionsFor now token keys n) \<longleftrightarrow> True"
| "queue_event (CompleteDeletion key token) \<longleftrightarrow> True"
| "queue_event (RetryDeletion now key token) \<longleftrightarrow> True"
| "queue_event (ReconcileFile now key n) \<longleftrightarrow> True"
| "queue_event e \<longleftrightarrow> False"

lemma queue_event_frame:
  assumes "queue_event e"
  shows "chats (apply_chat_event limits max_bytes e db) = chats db"
    and "messages (apply_chat_event limits max_bytes e db) = messages db"
    and "attachments (apply_chat_event limits max_bytes e db) = attachments db"
  using assms
  by (induction e rule: queue_event.induct)
    (simp_all add: claim_chat_attachment_file_deletions_def claim_chat_attachment_file_deletions_for_keys_def
      chat_frame complete_chat_attachment_file_deletion_def retry_chat_attachment_file_deletion_def
      enqueue_reconciled_chat_attachment_file_deletion_def)

text \<open>The events that only delete attachments, by their primary effect.\<close>

lemma delete_stale_db:
  "\<exists>P. snd (delete_stale_pending_chat_attachments now kind before n db) = db
     \<or> snd (delete_stale_pending_chat_attachments now kind before n db) = delete_attachments now P db
       \<and> (\<forall>a\<in>set (attachments db). P a \<longrightarrow> (\<exists>b\<in>set (attachments db). att_id b = att_id a \<and> is_pending b))"
proof (cases "n \<le> 0 \<or> (\<exists>e. timestamp_of_seconds (as_i64 before) = Inl e)")
  case True
  then show ?thesis by (auto simp: delete_stale_pending_chat_attachments_def)
next
  case False
  then obtain t where t: "timestamp_of_seconds (as_i64 before) = Inr t" by (metis sumE)
  let ?ids = "map att_id (take (nat n) (sort_key att_created (filter (stale_pending kind t) (attachments db))))"
  have "\<exists>b\<in>set (attachments db). att_id b = i \<and> is_pending b" if i: "i \<in> set ?ids" for i
  proof -
    obtain b where "b \<in> set (take (nat n) (sort_key att_created (filter (stale_pending kind t) (attachments db))))"
      "att_id b = i" using i by auto
    then have "b \<in> set (filter (stale_pending kind t) (attachments db))" by (metis in_set_takeD set_sort)
    with \<open>att_id b = i\<close> show ?thesis by (auto simp: stale_pending_def)
  qed
  with False t show ?thesis
    by (intro exI [of _ "\<lambda>a. att_id a \<in> set ?ids"])
      (auto simp: delete_stale_pending_chat_attachments_def Let_def)
qed

lemma clear_db:
  "snd (clear_chat_messages now owner i db) = db
   \<or> (\<exists>ids c. c \<in> set (chats db) \<and> chat_id c = i \<and> owns_chat owner c
       \<and> snd (clear_chat_messages now owner i db) =
           touch_chat now i (cleanup_after_source_removal now ids (delete_messages now (\<lambda>m. msg_chat m = i) db)))"
  by (auto simp: clear_chat_messages_def Let_def find_Some_iff in_set_conv_nth split: option.splits)

lemma delete_chat_db:
  "snd (delete_chat now owner i db) = db
   \<or> (\<exists>ids. snd (delete_chat now owner i db) = cleanup_after_source_removal now ids
         (delete_chats now (\<lambda>c. chat_id c = i \<and> owns_chat owner c) db))"
  by (auto simp: delete_chat_def Let_def split: option.splits)

lemma upload_db:
  "snd (create_chat_attachment_with_storage_quota now owner n max_bytes db) = db
   \<or> (\<exists>row. insert_chat_attachment now owner n db
        = Inr (row, snd (create_chat_attachment_with_storage_quota now owner n max_bytes db))
      \<and> fits_storage owner (na_size n) max_bytes db)"
  by (auto simp: create_chat_attachment_with_storage_quota_def split: sum.splits prod.splits)

lemma inv_cleanup: "chat_inv accounts (cleanup_after_source_removal now ids db) = chat_inv accounts db"
  by (rule chat_inv_cong) (simp_all add: cleanup_frame)

lemma event_chat_inv:
  assumes inv: "chat_inv accounts db" and ok: "event_ok accounts e db" and worker: "\<not> queue_event e"
  shows "chat_inv accounts (apply_chat_event limits max_bytes e db)"
proof (cases e)
  case (CreateChat new owner character profile follow_up)
  with ok inv inv_create show ?thesis
    by (auto simp: create_chat_db event_ok_def split: sum.splits)
next
  case (AppendTurn now job owner i u a ids zone reservation q)
  with append_db [of now job owner i u a ids zone limits reservation db q] ok inv show ?thesis
    by (auto simp: event_ok_def dest: inv_append)
next
  case (ClearChat now owner i)
  with clear_db [of now owner i db] inv show ?thesis
    by (auto simp: inv_touch inv_cleanup inv_delete_messages)
next
  case (DeleteChat now owner i)
  with delete_chat_db [of now owner i db] inv show ?thesis
    by (auto simp: inv_cleanup inv_delete_chats)
next
  case (UploadAttachment now owner n)
  with upload_db [of now owner n max_bytes db] ok inv show ?thesis
    by (auto simp: event_ok_def dest: inv_insert_attachment)
next
  case (DeletePending now owner i)
  with inv show ?thesis by (simp add: delete_pending_chat_attachment_def Let_def inv_delete_attachments)
next
  case (DeleteStale now kind before n)
  with delete_stale_db [of now kind before n db] inv show ?thesis
    by (auto simp: inv_delete_attachments)
qed (use worker in simp_all)

lemma event_keeps_chat_inv:
  assumes inv: "chat_inv accounts db" and ok: "event_ok accounts e db"
  shows "chat_inv accounts (apply_chat_event limits max_bytes e db)"
proof (cases "queue_event e")
  case True
  show ?thesis by (rule queue_only_inv [OF inv]) (simp_all only: queue_event_frame [OF True])
next
  case False
  with inv ok show ?thesis by (rule event_chat_inv)
qed

end
