(* ===== verification/Chat_Store_Limits.thy ===== *)
theory Chat_Store_Limits
  imports Chat_Machine
begin

text \<open>
  Every event of the chat tables keeps the limits: the theorem that bounds what an owner can store in
  every reachable state of the tables.
\<close>

section \<open>Messages of a chat\<close>

lemma chat_messages_of_none:
  "chat_inv accounts db \<Longrightarrow> c \<notin> chat_id ` set (chats db) \<Longrightarrow> chat_messages_of c db = []"
  by (auto simp: chat_inv_def chat_messages_of_def filter_empty_conv)

lemma within_create:
  assumes "create_chat_transaction new owner character profile follow_up limits db = Inr (Inr db')"
    and inv: "chat_inv accounts db" and wf: "chats_within limits db"
  shows "chats_within limits db'"
  using assms(1)
proof (cases rule: create_chat_transaction_Inr)
  case (1 t db1)
  note db1 = insert_chat_Inr [OF 1(1)]
  have "messages db1 = messages db" by (simp add: db1(1))
  with wf have wf1: "chats_within limits db1" by (simp add: chats_within_cong [of db1 db])
  from 1(3) show ?thesis
  proof (elim disjE exE conjE)
    fix i assume "attach_follow_up owner character (nc_chat new) (nc_message new) i limits db1 = Inr (Inr db')"
    then show ?thesis
    proof (cases rule: attach_follow_up_Inr)
      case (1 m db2)
      have none: "chat_messages_of (nc_chat new) db1 = []"
        using chat_messages_of_none [OF inv db1(2)] by (simp add: db1(1) chat_messages_of_def)
      have "chats_within limits db2"
        by (rule chats_within_insert [OF 1(1) wf1]) (use 1 none in \<open>simp_all add: stored_chars_def\<close>)
      moreover have "messages db' = messages db2" by (simp add: 1(2) chat_frame)
      ultimately show ?thesis by (simp add: chats_within_cong [of db' db2])
    qed
  qed (use wf1 in simp)
qed

lemma within_append:
  assumes "append_writes now job owner c u a ids zone db = Inr (Some db')"
    and wf: "chats_within limits db" and room: "\<not> append_over_limit limits (chat_id c) u a db"
  shows "chats_within limits db'"
  using assms(1)
proof (cases rule: append_writes_Inr)
  case (1 db1 db2 db3)
  note last = 1
  from 1(1) show ?thesis
  proof (cases rule: insert_turn_Inr)
    case (1 ru ra db0)
    have room': "length (chat_messages_of (chat_id c) db) + 2 \<le> max_messages_per_chat limits"
      "stored_chars (chat_id c) db + length (sm_content u) + length (sm_content a) \<le> max_stored_chars_per_chat limits"
      using room by (auto simp: append_over_limit_def exceeds_def)
    have wf0: "chats_within limits db0"
      by (rule chats_within_insert [OF 1(1) wf]) (use room' 1 in simp_all)
    have "chats_within limits db1"
      by (rule chats_within_insert [OF 1(2) wf0])
        (use room' 1 in \<open>simp_all add: insert_message_Inr(1) [OF 1(1)] chat_messages_of_def stored_chars_def\<close>)
    moreover have "messages db' = messages db1"
      using last(3,4) enqueue_memory_job_frame [OF last(2)]
      by (auto simp: chat_frame link_attachments_def)
    ultimately show ?thesis by (simp add: chats_within_cong [of db' db1])
  qed
qed

lemma upload_frame:
  "chats (snd (create_chat_attachment_with_storage_quota now owner n max_bytes db)) = chats db"
  "messages (snd (create_chat_attachment_with_storage_quota now owner n max_bytes db)) = messages db"
  by (auto simp: create_chat_attachment_with_storage_quota_def insert_chat_attachment_def Let_def)

lemma delete_pending_frame:
  "chats (snd (delete_pending_chat_attachment now owner i db)) = chats db"
  "messages (snd (delete_pending_chat_attachment now owner i db)) = messages db"
  by (simp_all add: delete_pending_chat_attachment_def Let_def chat_frame)

lemma delete_stale_frame:
  "chats (snd (delete_stale_pending_chat_attachments now kind before n db)) = chats db"
  "messages (snd (delete_stale_pending_chat_attachments now kind before n db)) = messages db"
  using delete_stale_db [of now kind before n db] by (auto simp: chat_frame)

lemma event_keeps_chats_within:
  assumes inv: "chat_inv accounts db" and wf: "chats_within limits db"
  shows "chats_within limits (apply_chat_event limits max_bytes e db)"
proof (cases "queue_event e")
  case True
  with wf show ?thesis by (simp only: chats_within_cong [OF queue_event_frame(2) [OF True]])
next
  case worker: False
  show ?thesis
  proof (cases e)
    case (CreateChat new owner character profile follow_up)
    with wf within_create [OF _ inv wf] show ?thesis by (auto simp: create_chat_db split: sum.splits)
  next
    case (AppendTurn now job owner i u a ids zone reservation q)
    with append_db [of now job owner i u a ids zone limits reservation db q] wf show ?thesis
      by (auto dest: within_append)
  next
    case (ClearChat now owner i)
    from clear_db [of now owner i db] show ?thesis
    proof (elim disjE exE conjE)
      fix ids assume "snd (clear_chat_messages now owner i db)
        = touch_chat now i (cleanup_after_source_removal now ids (delete_messages now (\<lambda>m. msg_chat m = i) db))"
      then show ?thesis
        unfolding ClearChat apply_chat_event.simps
        by (intro chats_within_filter [OF wf, where P = "\<lambda>m. msg_chat m \<noteq> i"]) (simp add: chat_frame)
    qed (use wf ClearChat in simp)
  next
    case (DeleteChat now owner i)
    from delete_chat_db [of now owner i db] show ?thesis
    proof (elim disjE exE)
      fix ids assume "snd (delete_chat now owner i db)
        = cleanup_after_source_removal now ids (delete_chats now (\<lambda>c. chat_id c = i \<and> owns_chat owner c) db)"
      then show ?thesis
        unfolding DeleteChat apply_chat_event.simps
        by (intro chats_within_filter [OF wf]) (simp add: chat_frame)
    qed (use wf DeleteChat in simp)
  qed (use wf worker in \<open>simp_all add: chats_within_def chat_messages_of_def stored_chars_def
      upload_frame delete_pending_frame delete_stale_frame\<close>)
qed

section \<open>Chats of an owner\<close>

lemma append_chats:
  assumes "append_writes now job owner c u a ids zone db = Inr (Some db')"
  shows "chats db' = chats (touch_chat (int now) (chat_id c) db)"
  using assms
proof (cases rule: append_writes_Inr)
  case (1 db1 db2 db3)
  note last = 1
  from 1(1) show ?thesis
  proof (cases rule: insert_turn_Inr)
    case (1 ru ra db0)
    have "chats db3 = chats db"
      using last(3) by (auto simp: link_attachments_def enqueue_memory_job_frame [OF last(2)]
          insert_message_Inr(1) [OF 1(1)] insert_message_Inr(1) [OF 1(2)])
    with last(4) show ?thesis by (simp add: touch_chat_def)
  qed
qed

lemma owners_within_touch: "owners_within accounts limits (touch_chat now i db) = owners_within accounts limits db"
  by (simp add: owners_within_def owner_chat_count_touch)

lemma create_chats:
  assumes "create_chat_transaction new owner character profile follow_up limits db = Inr (Inr db')"
  obtains t db1 where "insert_chat owner (nc_chat new) character profile t db = Inr db1"
    and "owner_chat_count owner db < max_chats_per_owner limits" and "chats db' = chats db1"
    and "attachments db' = attachments db" and "file_deletions db' = file_deletions db"
  using assms
proof (cases rule: create_chat_transaction_Inr)
  case (1 t db1)
  have "chats db' = chats db1 \<and> attachments db' = attachments db1 \<and> file_deletions db' = file_deletions db1"
    using 1(3) by (auto simp: chat_frame dest!: insert_message_Inr(1) elim: attach_follow_up_Inr)
  with insert_chat_Inr [OF 1(1)] show ?thesis by (intro that [OF 1(1,2)]) simp_all
qed

lemma event_keeps_owners_within:
  assumes inv: "chat_inv accounts db" and ok: "event_ok accounts e db"
    and wf: "owners_within accounts limits db"
  shows "owners_within accounts limits (apply_chat_event limits max_bytes e db)"
proof (cases "queue_event e")
  case True
  with wf show ?thesis by (simp only: owners_within_cong [OF queue_event_frame(1) [OF True]])
next
  case worker: False
  show ?thesis
  proof (cases e)
    case (CreateChat new owner character profile follow_up)
    have "owners_within accounts limits db'"
      if "create_chat_transaction new owner character profile follow_up limits db = Inr (Inr db')" for db'
      using that
    proof (cases rule: create_chats)
      case (1 t db1)
      have "owner_ok accounts owner" using ok CreateChat by (simp add: event_ok_def)
      with owners_within_insert [OF 1(1) inv _ 1(2) wf] 1(3) show ?thesis
        by (simp add: owners_within_cong [of db' db1])
    qed
    with CreateChat wf show ?thesis by (auto simp: create_chat_db split: sum.splits)
  next
    case (AppendTurn now job owner i u a ids zone reservation q)
    from append_db [of now job owner i u a ids zone limits reservation db q] show ?thesis
    proof (elim disjE exE conjE)
      fix c db' assume "append_writes now job owner c u a ids zone db = Inr (Some db')"
        and "fst (snd (append_chat_messages_limited_with_quota now job owner i u a ids zone limits reservation db q)) = db'"
      with AppendTurn wf show ?thesis
        by (simp add: owners_within_cong [OF append_chats] owners_within_touch)
    qed (use wf AppendTurn in simp)
  next
    case (ClearChat now owner i)
    from clear_db [of now owner i db] show ?thesis
    proof (elim disjE exE conjE)
      fix ids
      let ?db = "cleanup_after_source_removal now ids (delete_messages now (\<lambda>m. msg_chat m = i) db)"
      assume "snd (clear_chat_messages now owner i db) = touch_chat now i ?db"
      moreover have "owners_within accounts limits ?db"
        using wf by (simp add: owners_within_cong [of ?db db] chat_frame)
      ultimately show ?thesis using ClearChat by (simp add: owners_within_touch)
    qed (use wf ClearChat in simp)
  next
    case (DeleteChat now owner i)
    from delete_chat_db [of now owner i db] show ?thesis
    proof (elim disjE exE)
      fix ids assume "snd (delete_chat now owner i db)
        = cleanup_after_source_removal now ids (delete_chats now (\<lambda>c. chat_id c = i \<and> owns_chat owner c) db)"
      then show ?thesis
        unfolding DeleteChat apply_chat_event.simps
        by (intro owners_within_filter [OF wf]) (simp add: chat_frame)
    qed (use wf DeleteChat in simp)
  qed (use wf worker in \<open>simp_all add: owners_within_def owner_chat_count_def
      upload_frame delete_pending_frame delete_stale_frame\<close>)
qed

section \<open>Files and bytes\<close>

definition bytes_within :: "(uuid \<Rightarrow> uuid option) \<Rightarrow> int \<Rightarrow> chat_db \<Rightarrow> bool" where
  "bytes_within accounts max_bytes db \<longleftrightarrow>
     (\<forall>owner. owner_ok accounts owner \<longrightarrow> stored_bytes owner db \<le> max_bytes)"

lemma bytes_within_cong:
  "(\<And>owner. stored_bytes owner db' = stored_bytes owner db)
    \<Longrightarrow> bytes_within accounts max_bytes db' = bytes_within accounts max_bytes db"
  by (simp add: bytes_within_def)

text \<open>Updating rows of the queue without their keys, sizes and owners.\<close>

definition same_file :: "file_deletion_row \<Rightarrow> file_deletion_row \<Rightarrow> bool" where
  "same_file d d' \<longleftrightarrow>
     fd_key d = fd_key d' \<and> fd_size d = fd_size d' \<and> fd_session d = fd_session d' \<and> fd_user d = fd_user d'"

lemma files_inv_map:
  assumes "\<And>d. same_file (f d) d"
  shows "files_inv (db\<lparr>file_deletions := map f (file_deletions db)\<rparr>) = files_inv db"
  using assms by (simp add: files_inv_def same_file_def o_def)

lemma stored_bytes_map:
  assumes "\<And>d. same_file (f d) d"
  shows "stored_bytes owner (db\<lparr>file_deletions := map f (file_deletions db)\<rparr>) = stored_bytes owner db"
proof -
  have "owns_deletion owner (f d) = owns_deletion owner d" for d
    using assms [of d] by (simp add: same_file_def owns_deletion_def split: option.splits)
  then have "map fd_size (filter (owns_deletion owner) (map f ds)) = map fd_size (filter (owns_deletion owner) ds)"
    for ds
    by (induction ds) (use assms in \<open>simp_all add: same_file_def\<close>)
  then show ?thesis by (simp add: stored_bytes_def live_bytes_def queued_bytes_def)
qed

definition files_ok :: "(uuid \<Rightarrow> uuid option) \<Rightarrow> int \<Rightarrow> chat_db \<Rightarrow> bool" where
  "files_ok accounts max_bytes db \<longleftrightarrow> files_inv db \<and> bytes_within accounts max_bytes db"

lemma files_ok_cong:
  "attachments db' = attachments db \<Longrightarrow> file_deletions db' = file_deletions db
    \<Longrightarrow> files_ok accounts max_bytes db' = files_ok accounts max_bytes db"
  by (simp add: files_ok_def files_inv_cong [of db' db] bytes_within_def stored_bytes_cong [of db' db])

lemma files_ok_map:
  assumes "\<And>d. same_file (f d) d" and "files_ok accounts max_bytes db"
  shows "files_ok accounts max_bytes (db\<lparr>file_deletions := map f (file_deletions db)\<rparr>)"
  using assms(2) by (simp add: files_ok_def files_inv_map [OF assms(1)] bytes_within_def stored_bytes_map [OF assms(1)])

lemma files_ok_claim:
  assumes "files_ok accounts max_bytes db"
  shows "files_ok accounts max_bytes (snd (claim_eligible now token n P db))"
  unfolding claim_eligible_def Let_def snd_conv
  by (rule files_ok_map) (use assms in \<open>simp_all add: same_file_def claim_row_def\<close>)

lemma files_ok_complete:
  assumes "files_ok accounts max_bytes db"
  shows "files_ok accounts max_bytes (snd (complete_chat_attachment_file_deletion key token db))"
proof -
  have nonneg: "\<forall>d\<in>set (file_deletions db). 0 \<le> fd_size d" using assms by (simp add: files_ok_def files_inv_def)
  have drop_le: "sum_list (map fd_size (filter (\<lambda>d. \<not> P d \<and> Q d) ds)) \<le> sum_list (map fd_size (filter Q ds))"
    if "\<forall>d\<in>set ds. 0 \<le> fd_size d" for P Q and ds :: "file_deletion_row list"
    using that by (induction ds) auto
  have "stored_bytes owner (snd (complete_chat_attachment_file_deletion key token db)) \<le> stored_bytes owner db"
    for owner
    using drop_le [OF nonneg, of "holds_claim key token" "owns_deletion owner"]
    by (simp add: stored_bytes_def live_bytes_def queued_bytes_def complete_chat_attachment_file_deletion_def
        conj_commute)
  then have "bytes_within accounts max_bytes (snd (complete_chat_attachment_file_deletion key token db))"
    using assms unfolding files_ok_def bytes_within_def by (meson order_trans)
  moreover have "files_inv (snd (complete_chat_attachment_file_deletion key token db))"
    using assms by (auto simp: files_ok_def files_inv_def complete_chat_attachment_file_deletion_def
        distinct_map_filter)
  ultimately show ?thesis by (simp add: files_ok_def)
qed

lemma files_ok_reconcile:
  assumes ok: "files_ok accounts max_bytes db" and live: "\<forall>a\<in>set (attachments db). att_deleted a = None"
  shows "files_ok accounts max_bytes (snd (enqueue_reconciled_chat_attachment_file_deletion now key n db))"
proof (cases "snd (enqueue_reconciled_chat_attachment_file_deletion now key n db) = db")
  case True
  with ok show ?thesis by simp
next
  case False
  define d where "d = \<lparr>fd_key = key, fd_size = n, fd_session = None, fd_user = None, fd_attempts = 0,
      fd_next = now, fd_claim = None, fd_created = now\<rparr>"
  with False have d: "snd (enqueue_reconciled_chat_attachment_file_deletion now key n db)
      = db\<lparr>file_deletions := file_deletions db @ [d]\<rparr>"
    and row: "fd_key d = key" "fd_size d = n" "fd_session d = None" "fd_user d = None"
    and n: "0 \<le> n" and new: "key \<notin> att_key ` set (attachments db)" "key \<notin> fd_key ` set (file_deletions db)"
    using live
    by (auto simp: enqueue_reconciled_chat_attachment_file_deletion_def list_ex_iff split: if_splits)
  have "\<not> owns_deletion owner d" for owner using row by (simp add: owns_deletion_def split: option.splits)
  then have "stored_bytes owner (db\<lparr>file_deletions := file_deletions db @ [d]\<rparr>) = stored_bytes owner db" for owner
    by (simp add: stored_bytes_def live_bytes_def queued_bytes_def)
  moreover have "files_inv (db\<lparr>file_deletions := file_deletions db @ [d]\<rparr>)"
    using ok row n new by (auto simp: files_ok_def files_inv_def)
  ultimately show ?thesis unfolding d using ok by (simp add: files_ok_def bytes_within_def)
qed

lemma files_ok_delete_attachments:
  assumes "files_ok accounts max_bytes db" and "\<forall>a\<in>set (attachments db). att_deleted a = None"
  shows "files_ok accounts max_bytes (delete_attachments now P db)"
  using assms by (simp add: files_ok_def files_inv_delete_attachments bytes_within_def stored_bytes_delete_attachments)

lemma files_ok_upload:
  assumes ins: "insert_chat_attachment now owner n db = Inr (row, db')"
    and fits: "fits_storage owner (na_size n) max_bytes db"
    and ok: "files_ok accounts max_bytes db" and inv: "chat_inv accounts db" and owner: "owner_ok accounts owner"
    and new: "0 \<le> na_size n" "na_key n \<notin> att_key ` set (attachments db) \<union> fd_key ` set (file_deletions db)"
  shows "files_ok accounts max_bytes db'"
proof -
  note row = insert_chat_attachment_Inr [OF ins]
  have files: "files_inv db'"
    using ok new by (auto simp: files_ok_def files_inv_def row new_attachment_row_def)
  have grow: "stored_bytes other db' = stored_bytes other db + (if owns_attachment other row then na_size n else 0)"
    for other
    by (simp add: stored_bytes_def live_bytes_def queued_bytes_def row(2))
      (simp add: row(1) new_attachment_row_def)
  have "stored_bytes other db' \<le> max_bytes" if other: "owner_ok accounts other" for other
  proof (cases "owns_attachment other row")
    case True
    then have acct: "owner_account accounts owner = owner_account accounts other"
      using owns_row_account [OF other, of "att_user row" "att_session row"] owner
      by (simp add: owns_attachment_def owner_account_def row(1) new_attachment_row_def owner_ok_def)
    have same: "owns_attachment other a = owns_attachment owner a" if "a \<in> set (attachments db)" for a
      using that inv owns_same_account [OF owner other acct] by (simp add: owns_attachment_def chat_inv_def)
    have "stored_bytes owner db + na_size n \<le> max_bytes" using fits by (simp add: fits_storage_def stored_bytes_def)
    moreover have "owns_deletion other d = owns_deletion owner d" for d
      using acct owner other
      by (auto simp: owner_account_def account_of_def owner_ok_def owns_deletion_def split: option.splits)
    then have "stored_bytes other db = stored_bytes owner db"
      using same by (simp add: stored_bytes_def live_bytes_def queued_bytes_def cong: filter_cong)
    ultimately show ?thesis using grow [of other] True by simp
  next
    case False
    with ok other grow [of other] show ?thesis by (simp add: files_ok_def bytes_within_def)
  qed
  with files show ?thesis by (simp add: files_ok_def bytes_within_def)
qed

lemma append_files:
  assumes "append_writes now job owner c u a ids zone db = Inr (Some db')"
  shows "map att_key (attachments db') = map att_key (attachments db)"
    and "map att_size (filter (\<lambda>a. att_deleted a = None \<and> owns_attachment o' a) (attachments db'))
      = map att_size (filter (\<lambda>a. att_deleted a = None \<and> owns_attachment o' a) (attachments db))"
    and "map att_size (attachments db') = map att_size (attachments db)"
    and "file_deletions db' = file_deletions db"
proof -
  obtain db1 db2 db3 where w: "insert_turn (chat_id c) u a db = Inr db1"
    "enqueue_memory_job (int now) job c (sm_id u) (sm_id a) zone db1 = Inr db2"
    "db3 = db2 \<or> db3 = snd (link_attachments owner (chat_id c) (sm_id u) ids db2)"
    "db' = touch_chat (int now) (chat_id c) db3"
    by (rule append_writes_Inr [OF assms])
  obtain ru ra db0 where t: "insert_message ru db = Inr db0" "insert_message ra db0 = Inr db1"
    by (rule insert_turn_Inr [OF w(1)])
  have frame: "attachments db2 = attachments db" "file_deletions db2 = file_deletions db"
    by (simp_all add: enqueue_memory_job_frame [OF w(2)] insert_message_Inr(1) [OF t(1)] insert_message_Inr(1) [OF t(2)])
  obtain f where f: "attachments db' = map f (attachments db)"
    and same: "\<And>x. att_key (f x) = att_key x \<and> att_size (f x) = att_size x \<and> att_deleted (f x) = att_deleted x
      \<and> owns_attachment o' (f x) = owns_attachment o' x"
  proof -
    consider "db3 = db2" | "db3 = snd (link_attachments owner (chat_id c) (sm_id u) ids db2)" using w(3) by blast
    then show ?thesis
    proof cases
      case 1
      then show ?thesis by (intro that [of id]) (simp_all add: w(4) chat_frame frame)
    next
      case 2
      then show ?thesis
        by (intro that [of "\<lambda>x. if linkable owner ids x
              then x\<lparr>att_chat := Some (chat_id c), att_message := Some (sm_id u)\<rparr> else x"])
          (simp_all add: w(4) chat_frame frame link_attachments_def owns_attachment_def)
    qed
  qed
  show "map att_key (attachments db') = map att_key (attachments db)"
    "map att_size (attachments db') = map att_size (attachments db)"
    by (simp_all add: f same)
  have "map att_size (filter Q (map f as)) = map att_size (filter Q as)"
    if "\<And>x. Q (f x) = Q x" for Q as
    by (induction as) (simp_all add: that same)
  from this [of "\<lambda>a. att_deleted a = None \<and> owns_attachment o' a"]
  show "map att_size (filter (\<lambda>a. att_deleted a = None \<and> owns_attachment o' a) (attachments db'))
      = map att_size (filter (\<lambda>a. att_deleted a = None \<and> owns_attachment o' a) (attachments db))"
    by (simp add: f same)
  show "file_deletions db' = file_deletions db"
    using w(3) by (auto simp: w(4) chat_frame link_attachments_def frame)
qed

lemma files_ok_append:
  assumes app: "append_writes now job owner c u a ids zone db = Inr (Some db')"
    and ok: "files_ok accounts max_bytes db"
  shows "files_ok accounts max_bytes db'"
proof -
  have "stored_bytes o' db' = stored_bytes o' db" for o'
    by (simp add: stored_bytes_def live_bytes_def queued_bytes_def append_files(2,4) [OF app])
  moreover have "(\<forall>x\<in>set (attachments db'). 0 \<le> att_size x) \<longleftrightarrow> (\<forall>x\<in>set (attachments db). 0 \<le> att_size x)"
  proof -
    have "(\<forall>y\<in>set (map att_size (attachments db')). 0 \<le> y) \<longleftrightarrow> (\<forall>y\<in>set (map att_size (attachments db)). 0 \<le> y)"
      by (simp only: append_files(3) [OF app])
    then show ?thesis by simp
  qed
  ultimately show ?thesis
    using ok by (simp add: files_ok_def files_inv_def bytes_within_def append_files(1,4) [OF app]
        del: distinct_append)
qed

lemma event_keeps_files_ok:
  assumes inv: "chat_inv accounts db" and ok: "event_ok accounts e db" and wf: "files_ok accounts max_bytes db"
  shows "files_ok accounts max_bytes (apply_chat_event limits max_bytes e db)"
proof -
  have live: "\<forall>a\<in>set (attachments db). att_deleted a = None" using inv by (simp add: chat_inv_def)
  note del = files_ok_delete_attachments [OF wf live]
  show ?thesis
  proof (cases e)
    case (CreateChat new owner character profile follow_up)
    have "files_ok accounts max_bytes db'"
      if "create_chat_transaction new owner character profile follow_up limits db = Inr (Inr db')" for db'
      by (rule create_chats [OF that]) (use wf in \<open>simp add: files_ok_cong [of db' db]\<close>)
    with CreateChat wf show ?thesis by (auto simp: create_chat_db split: sum.splits)
  next
    case (AppendTurn now job owner i u a ids zone reservation q)
    with append_db [of now job owner i u a ids zone limits reservation db q] wf show ?thesis
      by (auto dest: files_ok_append)
  next
    case (ClearChat now owner i)
    let ?D = "delete_messages now (\<lambda>m. msg_chat m = i) db"
    have "files_ok accounts max_bytes ?D"
      using del by (simp add: files_ok_cong [of ?D "delete_attachments now (message_gone (\<lambda>m. msg_chat m = i) db) db"]
          chat_frame)
    then have "files_ok accounts max_bytes (touch_chat now i (cleanup_after_source_removal now ids ?D))" for ids
      by (simp add: files_ok_cong [of "touch_chat now i (cleanup_after_source_removal now ids ?D)" ?D]
          touch_frame cleanup_frame)
    with ClearChat clear_db [of now owner i db] wf show ?thesis by auto
  next
    case (DeleteChat now owner i)
    let ?P = "\<lambda>c. chat_id c = i \<and> owns_chat owner c"
    let ?M = "delete_messages now (\<lambda>m. msg_chat m \<in> gone_chats ?P db) db"
    let ?D = "delete_attachments now (chat_gone (gone_chats ?P db)) ?M"
    have "files_ok accounts max_bytes ?M"
      using del by (simp add: files_ok_cong [of ?M "delete_attachments now
            (message_gone (\<lambda>m. msg_chat m \<in> gone_chats ?P db) db) db"] delete_messages_frame)
    moreover have "\<forall>a\<in>set (attachments ?M). att_deleted a = None" using live by (simp add: chat_frame)
    ultimately have D: "files_ok accounts max_bytes ?D" by (rule files_ok_delete_attachments)
    have "files_ok accounts max_bytes (cleanup_after_source_removal now ids (delete_chats now ?P db))" for ids
      using D files_ok_cong [of "cleanup_after_source_removal now ids (delete_chats now ?P db)" ?D]
      by (simp only: cleanup_frame delete_chats_frame)
    with DeleteChat delete_chat_db [of now owner i db] wf show ?thesis by auto
  next
    case (UploadAttachment now owner n)
    with upload_db [of now owner n max_bytes db] ok wf inv show ?thesis
      by (auto simp: event_ok_def dest: files_ok_upload)
  next
    case (DeletePending now owner i)
    with del show ?thesis by (simp add: delete_pending_chat_attachment_def Let_def)
  next
    case (DeleteStale now kind before n)
    with delete_stale_db [of now kind before n db] del wf show ?thesis by auto
  next
    case (ClaimDeletions now token n)
    with wf show ?thesis by (simp add: claim_chat_attachment_file_deletions_def files_ok_claim)
  next
    case (ClaimDeletionsFor now token keys n)
    with wf show ?thesis by (simp add: claim_chat_attachment_file_deletions_for_keys_def files_ok_claim)
  next
    case (CompleteDeletion key token)
    with wf show ?thesis by (simp add: files_ok_complete)
  next
    case (RetryDeletion now key token)
    have "files_ok accounts max_bytes (snd (retry_chat_attachment_file_deletion now key token db))"
      unfolding retry_chat_attachment_file_deletion_def snd_conv
      by (rule files_ok_map [OF _ wf]) (simp add: same_file_def)
    with RetryDeletion show ?thesis by simp
  next
    case (ReconcileFile now key n)
    with files_ok_reconcile [OF wf live] show ?thesis by simp
  qed
qed

section \<open>Reachable states\<close>

definition chat_ok :: "(uuid \<Rightarrow> uuid option) \<Rightarrow> chat_storage_limits \<Rightarrow> int \<Rightarrow> chat_db \<Rightarrow> bool" where
  "chat_ok accounts limits max_bytes db \<longleftrightarrow>
     chat_inv accounts db \<and> chats_within limits db \<and> owners_within accounts limits db
     \<and> files_ok accounts max_bytes db"

lemma chat_ok_empty: "0 \<le> max_bytes \<Longrightarrow> chat_ok accounts limits max_bytes (empty_chat_db session_ids)"
  by (simp add: chat_ok_def chat_inv_def chats_within_def owners_within_def files_ok_def files_inv_def
      bytes_within_def stored_bytes_def live_bytes_def queued_bytes_def owner_chat_count_def
      chat_messages_of_def stored_chars_def empty_chat_db_def)

lemma chat_ok_step:
  "chat_ok accounts limits max_bytes db \<Longrightarrow> event_ok accounts e db
    \<Longrightarrow> chat_ok accounts limits max_bytes (apply_chat_event limits max_bytes e db)"
  unfolding chat_ok_def
  by (intro conjI; elim conjE)
    (rule event_keeps_chat_inv event_keeps_chats_within event_keeps_owners_within event_keeps_files_ok; assumption)+

lemma reachable_chat_ok:
  assumes "chat_reachable accounts limits max_bytes session_ids db" and "0 \<le> max_bytes"
  shows "chat_ok accounts limits max_bytes db"
  using assms(1) by induction (simp_all add: chat_ok_empty assms(2) chat_ok_step)

end
