(* ===== verification/Chat_Isolation.thy ===== *)
theory Chat_Isolation
  imports Chat_Store_Limits
begin

text \<open>
  The chats of an account as its owner reads them do not depend on what other accounts and the cleanup
  worker do. The rows an owner can read are a slice of the tables; the reads are functions of the slice,
  and the events of others keep it.
\<close>

section \<open>The slice of an owner\<close>

definition own_chats :: "owner_scope \<Rightarrow> chat_db \<Rightarrow> chat_row list" where
  "own_chats owner db = filter (owns_chat owner) (chats db)"

definition own_messages :: "owner_scope \<Rightarrow> chat_db \<Rightarrow> message_row list" where
  "own_messages owner db = filter (\<lambda>m. msg_chat m \<in> chat_id ` set (own_chats owner db)) (messages db)"

definition own_sent :: "owner_scope \<Rightarrow> chat_db \<Rightarrow> attachment_row list" where
  "own_sent owner db = filter (\<lambda>a. owns_attachment owner a \<and> att_message a \<noteq> None) (attachments db)"

definition own_slice :: "owner_scope \<Rightarrow> chat_db \<Rightarrow> chat_row list \<times> message_row list \<times> attachment_row list" where
  "own_slice owner db = (own_chats owner db, own_messages owner db, own_sent owner db)"

lemma owns_chat_account:
  "chat_inv accounts db \<Longrightarrow> owner_ok accounts owner \<Longrightarrow> c \<in> set (chats db) \<Longrightarrow>
    owns_chat owner c \<longleftrightarrow> account_of accounts (chat_session c) = owner_account accounts owner"
  by (simp add: owns_chat_def chat_inv_def owns_row_account)

lemma owns_attachment_account:
  "chat_inv accounts db \<Longrightarrow> owner_ok accounts owner \<Longrightarrow> a \<in> set (attachments db) \<Longrightarrow>
    owns_attachment owner a \<longleftrightarrow> account_of accounts (att_session a) = owner_account accounts owner"
  by (simp add: owns_attachment_def chat_inv_def owns_row_account)

lemma distinct_key:
  "distinct (map f xs) \<Longrightarrow> x \<in> set xs \<Longrightarrow> y \<in> set xs \<Longrightarrow> f x = f y \<Longrightarrow> x = y"
  by (auto simp: distinct_map dest: inj_onD)

lemma same_chat:
  "chat_inv accounts db \<Longrightarrow> c \<in> set (chats db) \<Longrightarrow> d \<in> set (chats db) \<Longrightarrow> chat_id c = chat_id d \<Longrightarrow> c = d"
  by (auto simp: chat_inv_def intro: distinct_key)

text \<open>The attachments of a message are of the account of its chat.\<close>

lemma sent_owner:
  assumes inv: "chat_inv accounts db" and a: "a \<in> set (attachments db)" "att_message a = Some (msg_id m)"
    and m: "m \<in> set (messages db)" and c: "c \<in> set (chats db)" "chat_id c = msg_chat m"
  shows "account_of accounts (att_session a) = account_of accounts (chat_session c)"
proof -
  have "links_ok accounts db a" using inv a by (simp add: chat_inv_def)
  with a obtain m' c' where m': "m' \<in> set (messages db)" "msg_id m' = msg_id m" "msg_chat m' = chat_id c'"
    and c': "c' \<in> set (chats db)" "account_of accounts (chat_session c') = account_of accounts (att_session a)"
    by (auto simp: links_ok_def)
  have "m' = m" using inv m m' by (auto simp: chat_inv_def intro: distinct_key)
  with m'(3) c c' same_chat [OF inv c(1) c'(1)] show ?thesis by simp
qed

section \<open>The reads are functions of the slice\<close>

lemma find_filter: "(\<And>x. P x \<longleftrightarrow> Q x \<and> R x) \<Longrightarrow> find P xs = find Q (filter R xs)"
  by (induction xs) auto

definition sent_to :: "uuid \<Rightarrow> attachment_row list \<Rightarrow> attachment_record list" where
  "sent_to m as = map chat_attachment_from_row (sort_key att_created
     (filter (\<lambda>a. att_message a = Some m \<and> att_deleted a = None) as))"

definition message_in :: "attachment_row list \<Rightarrow> message_row \<Rightarrow> stored_message option" where
  "message_in as row =
     map_option (\<lambda>r.
       \<lparr>sm_id = msg_id row, sm_role = r, sm_content = msg_content row,
        sm_attachments = sent_to (msg_id row) as,
        sm_created = as_u64 (epoch_seconds (msg_created row))\<rparr>) (role_from_db (msg_role row))"

lemma attachments_slice:
  assumes inv: "chat_inv accounts db" and ok: "owner_ok accounts owner"
    and m: "m \<in> set (messages db)" and c: "c \<in> set (chats db)" "chat_id c = msg_chat m" "owns_chat owner c"
  shows "attachments_for_message (msg_id m) db = sent_to (msg_id m) (own_sent owner db)"
proof -
  have "owns_attachment owner a" if "a \<in> set (attachments db)" "att_message a = Some (msg_id m)" for a
    using sent_owner [OF inv that m c(1,2)] that(1) owns_attachment_account [OF inv ok]
      owns_chat_account [OF inv ok c(1)] c(3) by simp
  then have "filter (\<lambda>a. att_message a = Some (msg_id m) \<and> att_deleted a = None) (attachments db)
      = filter (\<lambda>a. att_message a = Some (msg_id m) \<and> att_deleted a = None) (own_sent owner db)"
    by (auto simp: own_sent_def intro: filter_cong)
  then show ?thesis by (simp add: attachments_for_message_def sent_to_def)
qed

lemma map_filter_cong: "(\<And>x. x \<in> set xs \<Longrightarrow> f x = g x) \<Longrightarrow> List.map_filter f xs = List.map_filter g xs"
  by (induction xs) (auto simp: List.map_filter_def)

lemma messages_slice:
  assumes inv: "chat_inv accounts db" and ok: "owner_ok accounts owner"
    and c: "c \<in> set (own_chats owner db)"
  shows "messages_for_chat (chat_id c) db
    = List.map_filter (message_in (own_sent owner db)) (filter (\<lambda>m. msg_chat m = chat_id c) (own_messages owner db))"
proof -
  have own: "c \<in> set (chats db)" "owns_chat owner c" using c by (simp_all add: own_chats_def)
  have eq: "filter (\<lambda>m. msg_chat m = chat_id c) (messages db)
      = filter (\<lambda>m. msg_chat m = chat_id c) (own_messages owner db)"
    using c by (auto simp: own_messages_def intro!: filter_cong)
  have "message_of_row db m = message_in (own_sent owner db) m"
    if "m \<in> set (filter (\<lambda>m. msg_chat m = chat_id c) (messages db))" for m
    using that attachments_slice [OF inv ok _ own(1) _ own(2), of m]
    by (simp add: message_of_row_def message_in_def)
  then show ?thesis unfolding messages_for_chat_def eq [symmetric] by (rule map_filter_cong)
qed

definition chat_in :: "message_row list \<Rightarrow> attachment_row list \<Rightarrow> chat_row \<Rightarrow> chat_record" where
  "chat_in ms as row =
     \<lparr>cr_id = chat_id row, cr_session = chat_session row, cr_character = chat_character row,
      cr_profile = chat_profile row,
      cr_messages = List.map_filter (message_in as) (filter (\<lambda>m. msg_chat m = chat_id row) ms),
      cr_created = as_u64 (epoch_seconds (chat_created row)),
      cr_updated = as_u64 (epoch_seconds (chat_updated row))\<rparr>"

lemma chat_slice:
  "chat_inv accounts db \<Longrightarrow> owner_ok accounts owner \<Longrightarrow> c \<in> set (own_chats owner db) \<Longrightarrow>
    chat_from_row db c = chat_in (own_messages owner db) (own_sent owner db) c"
  by (simp add: chat_from_row_def chat_in_def messages_slice)

lemma get_chat_slice:
  assumes inv: "chat_inv accounts db" and ok: "owner_ok accounts owner"
  shows "get_chat owner i db = map_option (chat_in (own_messages owner db) (own_sent owner db))
    (find (\<lambda>c. chat_id c = i) (own_chats owner db))"
proof -
  have eq: "find (\<lambda>c. chat_id c = i \<and> owns_chat owner c) (chats db) = find (\<lambda>c. chat_id c = i) (own_chats owner db)"
    unfolding own_chats_def by (rule find_filter) simp
  have "c \<in> set (own_chats owner db)" if "find (\<lambda>c. chat_id c = i) (own_chats owner db) = Some c" for c
    using that by (auto simp: find_Some_iff)
  then show ?thesis
    unfolding get_chat_def eq
    by (cases "find (\<lambda>c. chat_id c = i) (own_chats owner db)") (simp_all add: chat_slice [OF inv ok])
qed

lemma list_chats_slice:
  assumes "chat_inv accounts db" and "owner_ok accounts owner"
  shows "list_chats owner db = map (chat_in (own_messages owner db) (own_sent owner db))
    (sort_key (\<lambda>c. - chat_updated c) (own_chats owner db))"
  by (simp add: list_chats_def own_chats_def [symmetric] chat_slice [OF assms])

lemma preview_slice:
  assumes "c \<in> set (own_chats owner db)"
  shows "last_message_preview (chat_id c) db
    = (case rev (filter (\<lambda>m. msg_chat m = chat_id c) (own_messages owner db)) of
         [] \<Rightarrow> [] | m # ms \<Rightarrow> take 256 (msg_content m))"
proof -
  have "filter (\<lambda>m. msg_chat m = chat_id c) (messages db)
      = filter (\<lambda>m. msg_chat m = chat_id c) (own_messages owner db)"
    using assms by (auto simp: own_messages_def intro!: filter_cong)
  then show ?thesis by (simp add: last_message_preview_def)
qed

definition summaries_in :: "message_row list \<Rightarrow> chat_row list \<Rightarrow> ustr \<Rightarrow> chat_summary list" where
  "summaries_in ms cs character =
     map (\<lambda>c. \<lparr>cs_id = chat_id c, cs_character = chat_character c,
              cs_last_message = (case rev (filter (\<lambda>m. msg_chat m = chat_id c) ms) of
                 [] \<Rightarrow> [] | m # ms \<Rightarrow> take 256 (msg_content m)),
              cs_created = as_u64 (epoch_seconds (chat_created c)),
              cs_updated = as_u64 (epoch_seconds (chat_updated c))\<rparr>)
       (take 50 (sort_key (\<lambda>c. - chat_updated c) (filter (\<lambda>c. chat_character c = character) cs)))"

lemma summaries_slice:
  "list_chat_summaries owner character db = summaries_in (own_messages owner db) (own_chats owner db) character"
proof -
  have eq: "filter (\<lambda>c. owns_chat owner c \<and> chat_character c = character) (chats db)
      = filter (\<lambda>c. chat_character c = character) (own_chats owner db)"
    by (simp add: own_chats_def conj_commute)
  show ?thesis
    unfolding list_chat_summaries_def summaries_in_def eq
    by (rule map_cong [OF refl]) (auto simp: preview_slice dest: in_set_takeD)
qed

lemma reads_of_slice:
  assumes "own_slice owner db' = own_slice owner db" and "chat_inv accounts db" and "chat_inv accounts db'"
    and "owner_ok accounts owner"
  shows "get_chat owner i db' = get_chat owner i db" and "list_chats owner db' = list_chats owner db"
    and "list_chat_summaries owner character db' = list_chat_summaries owner character db"
  using assms by (simp_all add: own_slice_def get_chat_slice list_chats_slice summaries_slice)

section \<open>The events of others keep the slice\<close>

definition other_account :: "(uuid \<Rightarrow> uuid option) \<Rightarrow> owner_scope \<Rightarrow> owner_scope \<Rightarrow> bool" where
  "other_account accounts owner other \<longleftrightarrow>
     owner_ok accounts owner \<and> owner_ok accounts other
     \<and> owner_account accounts owner \<noteq> owner_account accounts other"

lemma other_owns_not:
  "other_account accounts owner other \<Longrightarrow> u = accounts s \<Longrightarrow> owns_row other s u \<Longrightarrow> \<not> owns_row owner s u"
  using owns_row_account by (auto simp: other_account_def)

lemma other_chat:
  "other_account accounts owner other \<Longrightarrow> chat_inv accounts db \<Longrightarrow> c \<in> set (chats db)
    \<Longrightarrow> owns_chat other c \<Longrightarrow> \<not> owns_chat owner c"
  by (auto simp: owns_chat_def chat_inv_def dest: other_owns_not)

lemma other_attachment:
  "other_account accounts owner other \<Longrightarrow> chat_inv accounts db \<Longrightarrow> a \<in> set (attachments db)
    \<Longrightarrow> owns_attachment other a \<Longrightarrow> \<not> owns_attachment owner a"
  by (auto simp: owns_attachment_def chat_inv_def dest: other_owns_not)

text \<open>The messages of a chat of another account are not in the slice.\<close>

lemma foreign_chat_id:
  assumes "other_account accounts owner other" and "chat_inv accounts db"
    and "c \<in> set (chats db)" "owns_chat other c"
  shows "chat_id c \<notin> chat_id ` set (own_chats owner db)"
  using assms same_chat other_chat by (fastforce simp: own_chats_def)

lemma own_slice_cong:
  "own_chats owner db' = own_chats owner db \<Longrightarrow> own_messages owner db' = own_messages owner db
    \<Longrightarrow> own_sent owner db' = own_sent owner db \<Longrightarrow> own_slice owner db' = own_slice owner db"
  by (simp add: own_slice_def)

lemma own_messages_filter:
  assumes "own_chats owner db' = own_chats owner db" and "messages db' = filter P (messages db)"
    and "\<And>m. m \<in> set (messages db) \<Longrightarrow> msg_chat m \<in> chat_id ` set (own_chats owner db) \<Longrightarrow> P m"
  shows "own_messages owner db' = own_messages owner db"
  using assms by (auto simp: own_messages_def intro: filter_cong)

lemma own_messages_insert:
  assumes "own_chats owner db' = own_chats owner db" and "messages db' = messages db @ ms"
    and "\<And>m. m \<in> set ms \<Longrightarrow> msg_chat m \<notin> chat_id ` set (own_chats owner db)"
  shows "own_messages owner db' = own_messages owner db"
  using assms by (auto simp: own_messages_def filter_empty_conv)

lemma own_sent_filter:
  assumes "attachments db' = filter (\<lambda>a. \<not> P a) (attachments db)"
    and "\<And>a. a \<in> set (attachments db) \<Longrightarrow> owns_attachment owner a \<Longrightarrow> att_message a \<noteq> None \<Longrightarrow> \<not> P a"
  shows "own_sent owner db' = own_sent owner db"
  using assms by (auto simp: own_sent_def intro!: filter_cong)

lemma own_chats_touch:
  assumes "\<And>c. c \<in> set (chats db) \<Longrightarrow> owns_chat owner c \<Longrightarrow> chat_id c \<noteq> i"
  shows "own_chats owner (touch_chat now i db) = own_chats owner db"
proof -
  have "filter (owns_chat owner) (map (\<lambda>c. if chat_id c = i then c\<lparr>chat_updated := now\<rparr> else c) cs)
      = filter (owns_chat owner) cs"
    if "\<And>c. c \<in> set cs \<Longrightarrow> owns_chat owner c \<Longrightarrow> chat_id c \<noteq> i" for cs
    using that by (induction cs) (auto simp: owns_chat_def)
  with assms show ?thesis by (simp add: own_chats_def touch_chat_def)
qed

lemma slice_create:
  assumes tr: "create_chat_transaction new other character profile follow_up limits db = Inr (Inr db')"
    and acct: "other_account accounts owner other" and inv: "chat_inv accounts db"
  shows "own_slice owner db' = own_slice owner db"
  using tr
proof (cases rule: create_chat_transaction_Inr)
  case (1 t db1)
  note ins = insert_chat_Inr [OF 1(1)]
  have "owns_row other (scope_session other) (scope_user other)"
    by (simp add: owns_row_def split: option.splits)
  then have "\<not> owns_row owner (scope_session other) (scope_user other)"
    using acct by (auto simp: other_account_def owner_ok_def dest: other_owns_not [OF acct, rotated])
  then have own1: "own_chats owner db1 = own_chats owner db" by (simp add: own_chats_def ins(1) owns_chat_def)
  have slice1: "own_slice owner db1 = own_slice owner db"
    by (rule own_slice_cong [OF own1]) (simp_all add: own_messages_def own1 own_sent_def, simp_all add: ins(1))
  from 1(3) show ?thesis
  proof (elim disjE exE conjE)
    fix i assume "attach_follow_up other character (nc_chat new) (nc_message new) i limits db1 = Inr (Inr db')"
    then show ?thesis
    proof (cases rule: attach_follow_up_Inr)
      case (1 m db2)
      note msg = insert_message_Inr [OF 1(1)]
      have own': "own_chats owner db' = own_chats owner db" using own1 by (simp add: own_chats_def 1(2) chat_frame msg(1))
      have "msg_chat m \<notin> chat_id ` set (own_chats owner db)" using ins(2) 1(3) by (auto simp: own_chats_def)
      then have "own_messages owner db' = own_messages owner db"
        by (intro own_messages_insert [OF own', of "[m]"]) (simp_all add: 1(2) chat_frame msg(1) ins(1))
      moreover have "own_sent owner db' = own_sent owner db"
        by (simp add: own_sent_def 1(2) chat_frame msg(1) ins(1))
      ultimately show ?thesis by (rule own_slice_cong [OF own'])
    qed
  qed (use slice1 in simp)
qed

lemma slice_append:
  assumes app: "append_writes now job other c u a ids zone db = Inr (Some db')"
    and acct: "other_account accounts owner other" and inv: "chat_inv accounts db"
    and c: "c \<in> set (chats db)" "owns_chat other c"
  shows "own_slice owner db' = own_slice owner db"
proof -
  obtain db1 db2 db3 where w: "insert_turn (chat_id c) u a db = Inr db1"
    "enqueue_memory_job (int now) job c (sm_id u) (sm_id a) zone db1 = Inr db2"
    "db3 = db2 \<or> db3 = snd (link_attachments other (chat_id c) (sm_id u) ids db2)"
    "db' = touch_chat (int now) (chat_id c) db3"
    by (rule append_writes_Inr [OF app])
  obtain ru ra db0 where t: "insert_message ru db = Inr db0" "insert_message ra db0 = Inr db1"
    "msg_chat ru = chat_id c" "msg_chat ra = chat_id c"
    by (rule insert_turn_Inr [OF w(1)])
  note foreign = foreign_chat_id [OF acct inv c]
  have tables: "chats db3 = chats db" "messages db3 = messages db @ [ru, ra]"
    "attachments db2 = attachments db"
    using w(3) by (auto simp: link_attachments_def enqueue_memory_job_frame [OF w(2)]
        insert_message_Inr(1) [OF t(1)] insert_message_Inr(1) [OF t(2)])
  have own3: "own_chats owner db3 = own_chats owner db" by (simp add: own_chats_def tables)
  have own': "own_chats owner db' = own_chats owner db"
    unfolding w(4) own3 [symmetric]
    by (rule own_chats_touch) (use foreign in \<open>fastforce simp: own_chats_def tables image_iff\<close>)
  moreover have "own_messages owner db' = own_messages owner db"
    by (rule own_messages_insert [OF own', of "[ru, ra]"])
      (use foreign t(3,4) in \<open>fastforce simp: w(4) chat_frame tables image_iff\<close>)+
  moreover have "own_sent owner db' = own_sent owner db"
  proof -
    have keep: "filter (\<lambda>x. owns_attachment owner x \<and> att_message x \<noteq> None)
        (map (\<lambda>x. if linkable other ids x then x\<lparr>att_chat := k, att_message := l\<rparr> else x) as)
        = filter (\<lambda>x. owns_attachment owner x \<and> att_message x \<noteq> None) as"
      if "set as \<subseteq> set (attachments db)" for as k l
      using that
      by (induction as)
        (auto simp: linkable_def owns_attachment_def dest: other_attachment [OF acct inv, unfolded owns_attachment_def])
    show ?thesis
      using w(3) keep [OF subset_refl]
      by (auto simp: w(4) own_sent_def chat_frame tables link_attachments_def)
  qed
  ultimately show ?thesis by (rule own_slice_cong)
qed

lemma slice_clear:
  assumes acct: "other_account accounts owner other" and inv: "chat_inv accounts db"
    and c: "c \<in> set (chats db)" "owns_chat other c"
  shows "own_slice owner (touch_chat now (chat_id c) (cleanup_after_source_removal now ids
      (delete_messages now (\<lambda>m. msg_chat m = chat_id c) db))) = own_slice owner db"
proof -
  let ?D = "cleanup_after_source_removal now ids (delete_messages now (\<lambda>m. msg_chat m = chat_id c) db)"
  let ?db = "touch_chat now (chat_id c) ?D"
  note foreign = foreign_chat_id [OF acct inv c]
  have "own_chats owner ?D = own_chats owner db" by (simp add: own_chats_def chat_frame)
  then have own': "own_chats owner ?db = own_chats owner db"
    by (subst own_chats_touch) (use foreign in \<open>fastforce simp: own_chats_def chat_frame image_iff\<close>)+
  moreover have "own_messages owner ?db = own_messages owner db"
    by (rule own_messages_filter [OF own', where P = "\<lambda>m. msg_chat m \<noteq> chat_id c"])
      (use foreign in \<open>fastforce simp: chat_frame image_iff\<close>)+
  moreover have "\<not> message_gone (\<lambda>m. msg_chat m = chat_id c) db a"
    if a: "a \<in> set (attachments db)" "owns_attachment owner a" for a
  proof
    assume "message_gone (\<lambda>m. msg_chat m = chat_id c) db a"
    then obtain m where m: "m \<in> set (messages db)" "msg_chat m = chat_id c" "att_message a = Some (msg_id m)"
      by (auto simp: message_gone_def)
    from sent_owner [OF inv a(1) m(3,1) c(1)] m(2)
    have "account_of accounts (att_session a) = account_of accounts (chat_session c)" by simp
    with a c acct inv show False
      by (simp add: other_account_def owns_attachment_account [where accounts = accounts and db = db]
          owns_chat_account [where accounts = accounts and db = db])
  qed
  then have "own_sent owner ?db = own_sent owner db"
    by (intro own_sent_filter [where P = "message_gone (\<lambda>m. msg_chat m = chat_id c) db"]) (simp_all add: chat_frame)
  ultimately show ?thesis by (rule own_slice_cong)
qed

lemma slice_delete_chat:
  assumes acct: "other_account accounts owner other" and inv: "chat_inv accounts db"
  shows "own_slice owner (cleanup_after_source_removal now ids
      (delete_chats now (\<lambda>c. chat_id c = i \<and> owns_chat other c) db)) = own_slice owner db"
proof -
  let ?P = "\<lambda>c. chat_id c = i \<and> owns_chat other c"
  let ?db = "cleanup_after_source_removal now ids (delete_chats now ?P db)"
  let ?G = "gone_chats ?P db"
  have gone: "\<exists>c\<in>set (chats db). owns_chat other c \<and> chat_id c = g" if "g \<in> ?G" for g
    using that by (auto simp: gone_chats_def)
  have own': "own_chats owner ?db = own_chats owner db"
    by (auto simp: own_chats_def chat_frame intro!: filter_cong dest: other_chat [OF acct inv])
  moreover have "own_messages owner ?db = own_messages owner db"
    by (rule own_messages_filter [OF own'])
      (use gone foreign_chat_id [OF acct inv] in \<open>fastforce simp: chat_frame\<close>)+
  moreover have "\<not> (message_gone (\<lambda>m. msg_chat m \<in> ?G) db a \<or> chat_gone ?G a)"
    if a: "a \<in> set (attachments db)" "owns_attachment owner a" for a
  proof
    have False if c: "c \<in> set (chats db)" "owns_chat other c"
      and eq: "account_of accounts (att_session a) = account_of accounts (chat_session c)" for c
      using a c eq acct inv
      by (simp add: other_account_def owns_attachment_account [where accounts = accounts and db = db]
          owns_chat_account [where accounts = accounts and db = db])
    moreover assume "message_gone (\<lambda>m. msg_chat m \<in> ?G) db a \<or> chat_gone ?G a"
    then have "\<exists>c\<in>set (chats db). owns_chat other c \<and> account_of accounts (att_session a) = account_of accounts (chat_session c)"
    proof
      assume "message_gone (\<lambda>m. msg_chat m \<in> ?G) db a"
      then obtain m where m: "m \<in> set (messages db)" "msg_chat m \<in> ?G" "att_message a = Some (msg_id m)"
        by (auto simp: message_gone_def)
      with gone obtain c where "c \<in> set (chats db)" "owns_chat other c" "chat_id c = msg_chat m" by blast
      with sent_owner [OF inv a(1) m(3,1)] show ?thesis by auto
    next
      assume "chat_gone ?G a"
      then obtain g where g: "att_chat a = Some g" "g \<in> ?G" by (auto simp: chat_gone_def split: option.splits)
      from inv a(1) have "links_ok accounts db a" by (simp add: chat_inv_def)
      with g obtain m c' where "c' \<in> set (chats db)" "chat_id c' = g"
        "account_of accounts (chat_session c') = account_of accounts (att_session a)"
        by (auto simp: links_ok_def split: option.splits)
      moreover obtain c where "c \<in> set (chats db)" "owns_chat other c" "chat_id c = g" using gone [OF g(2)] by blast
      ultimately show ?thesis using same_chat [OF inv] by metis
    qed
    ultimately show False by blast
  qed
  then have "own_sent owner ?db = own_sent owner db"
    by (intro own_sent_filter [where P = "\<lambda>a. message_gone (\<lambda>m. msg_chat m \<in> ?G) db a \<or> chat_gone ?G a"])
      (simp_all add: chat_frame conj_commute)
  ultimately show ?thesis by (rule own_slice_cong)
qed

definition foreign_event :: "(uuid \<Rightarrow> uuid option) \<Rightarrow> owner_scope \<Rightarrow> chat_event \<Rightarrow> bool" where
  "foreign_event accounts owner e \<longleftrightarrow>
     (case event_owner e of None \<Rightarrow> True
      | Some other \<Rightarrow> owner_account accounts owner \<noteq> owner_account accounts other)"

lemma slice_event:
  assumes inv: "chat_inv accounts db" and ok: "event_ok accounts e db" and owner: "owner_ok accounts owner"
    and foreign: "foreign_event accounts owner e"
  shows "own_slice owner (apply_chat_event limits max_bytes e db) = own_slice owner db"
proof (cases "event_owner e")
  case (Some other)
  then have acct: "other_account accounts owner other"
    using ok owner foreign by (simp add: other_account_def event_ok_def foreign_event_def)
  show ?thesis
  proof (cases e)
    case (CreateChat new o' character profile follow_up)
    with Some slice_create [OF _ acct inv] show ?thesis by (auto simp: create_chat_db split: sum.splits)
  next
    case (AppendTurn now job o' i u a ids zone reservation q)
    with Some append_db [of now job o' i u a ids zone limits reservation db q] show ?thesis
      by (auto dest: slice_append [OF _ acct inv])
  next
    case (ClearChat now o' i)
    with Some clear_db [of now o' i db] show ?thesis by (auto simp: slice_clear [OF acct inv])
  next
    case (DeleteChat now o' i)
    with Some delete_chat_db [of now o' i db] show ?thesis by (auto simp: slice_delete_chat [OF acct inv])
  next
    case (UploadAttachment now o' n)
    have "own_slice owner db' = own_slice owner db"
      if "insert_chat_attachment now o' n db = Inr (row, db')" for row db'
      using insert_chat_attachment_Inr [OF that]
      by (simp add: own_slice_def own_chats_def own_messages_def own_sent_def new_attachment_row_def)
    with upload_db [of now o' n max_bytes db] show ?thesis by (auto simp: UploadAttachment)
  next
    case (DeletePending now o' i)
    with Some show ?thesis
      by (auto simp: delete_pending_chat_attachment_def Let_def own_slice_def own_chats_def own_messages_def
          own_sent_def chat_frame is_pending_def intro!: filter_cong)
  qed (use Some in simp_all)
next
  case None
  show ?thesis
  proof (cases "queue_event e")
    case True
    then show ?thesis
      by (simp add: own_slice_def own_chats_def own_messages_def own_sent_def queue_event_frame [OF True])
  next
    case False
    with None obtain now kind before n where e: "e = DeleteStale now kind before n" by (cases e) simp_all
    let ?db = "snd (delete_stale_pending_chat_attachments now kind before n db)"
    from delete_stale_db [of now kind before n db] obtain P where
      P: "?db = db \<or> ?db = delete_attachments now P db
        \<and> (\<forall>a\<in>set (attachments db). P a \<longrightarrow> (\<exists>b\<in>set (attachments db). att_id b = att_id a \<and> is_pending b))"
      by blast
    have "\<not> P a" if "?db \<noteq> db" "a \<in> set (attachments db)" "att_message a \<noteq> None" for a
    proof
      assume "P a"
      with P that obtain b where "b \<in> set (attachments db)" "att_id b = att_id a" "is_pending b" by blast
      moreover have "b = a" using inv calculation that(2) by (auto simp: chat_inv_def intro: distinct_key)
      ultimately show False using that(3) by (simp add: is_pending_def)
    qed
    then have "own_sent owner ?db = own_sent owner db"
      using P by (cases "?db = db") (auto intro!: own_sent_filter simp: chat_frame)
    with P show ?thesis
      by (intro own_slice_cong) (auto simp: e own_chats_def own_messages_def chat_frame delete_stale_frame)
  qed
qed

inductive foreign_run ::
  "(uuid \<Rightarrow> uuid option) \<Rightarrow> chat_storage_limits \<Rightarrow> int \<Rightarrow> owner_scope \<Rightarrow> chat_db \<Rightarrow> chat_db \<Rightarrow> bool"
  for accounts limits max_bytes owner db where
  foreign_refl: "foreign_run accounts limits max_bytes owner db db"
| foreign_step: "foreign_run accounts limits max_bytes owner db db' \<Longrightarrow> event_ok accounts e db'
    \<Longrightarrow> foreign_event accounts owner e
    \<Longrightarrow> foreign_run accounts limits max_bytes owner db (apply_chat_event limits max_bytes e db')"

lemma foreign_run_slice:
  assumes "foreign_run accounts limits max_bytes owner db db'" and "chat_inv accounts db"
    and "owner_ok accounts owner"
  shows "chat_inv accounts db' \<and> own_slice owner db' = own_slice owner db"
  using assms(1)
proof induction
  case (foreign_step db' e)
  then have inv: "chat_inv accounts db'" by simp
  from event_keeps_chat_inv [OF inv foreign_step(2)] slice_event [OF inv foreign_step(2) assms(3) foreign_step(3)]
    foreign_step.IH
  show ?case by simp
qed (simp add: assms(2))

end
