(* ===== verification/Chat_Store_Props.thy ===== *)
theory Chat_Store_Props
  imports Chat_Isolation
begin

text \<open>
  The properties of the chat store: its limits in every reachable state, the isolation of accounts, what an
  appended turn reads back as, the atomicity of an append with its quota, and what a deletion leaves.
\<close>

section \<open>Witness data\<close>

definition w_limits :: chat_storage_limits where
  "w_limits = \<lparr>max_chats_per_owner = 1, max_messages_per_chat = 2, max_stored_chars_per_chat = 10\<rparr>"

definition w_guest :: owner_scope where
  "w_guest = \<lparr>scope_session = 1, scope_user = None\<rparr>"

definition w_other :: owner_scope where
  "w_other = \<lparr>scope_session = 2, scope_user = Some 7\<rparr>"

definition w_accounts :: "uuid \<Rightarrow> uuid option" where
  "w_accounts s = (if s = 2 then Some 7 else None)"

definition w_new_chat :: new_chat where
  "w_new_chat = \<lparr>nc_chat = 10, nc_message = 11, nc_seconds = 5\<rparr>"

definition w_user_message :: stored_message where
  "w_user_message = \<lparr>sm_id = 20, sm_role = UserRole, sm_content = [104, 105], sm_attachments = [], sm_created = 6\<rparr>"

definition w_assistant_message :: stored_message where
  "w_assistant_message = \<lparr>sm_id = 21, sm_role = AssistantRole, sm_content = [111, 107], sm_attachments = [], sm_created = 7\<rparr>"

definition w_empty :: chat_db where
  "w_empty = empty_chat_db {1, 2}"

definition w_create :: chat_event where
  "w_create = CreateChat w_new_chat w_guest [97] [98] None"

definition w_created :: chat_db where
  "w_created = apply_chat_event w_limits 100 w_create w_empty"

definition w_upload :: chat_event where
  "w_upload = UploadAttachment 8 w_guest
     \<lparr>na_id = 30, na_kind = [105], na_mime = [112], na_size = 60, na_width = Some 1, na_height = Some 1,
      na_sha = [], na_key = [107]\<rparr>"

definition w_uploaded :: chat_db where
  "w_uploaded = apply_chat_event w_limits 100 w_upload w_created"

lemmas w_event_defs = w_limits_def w_guest_def w_other_def w_accounts_def w_new_chat_def w_user_message_def
  w_assistant_message_def w_empty_def w_create_def w_upload_def

lemma w_empty_reachable: "chat_reachable w_accounts w_limits 100 {1, 2} w_empty"
  unfolding w_empty_def by (rule chat_start)

lemma w_create_ok: "event_ok w_accounts w_create db"
  by (simp add: event_ok_def w_create_def owner_ok_def w_guest_def w_accounts_def)

lemma w_created_reachable: "chat_reachable w_accounts w_limits 100 {1, 2} w_created"
  unfolding w_created_def by (rule chat_step [OF w_empty_reachable w_create_ok])

lemma w_created_eq: "w_created = w_empty\<lparr>chats := [\<lparr>chat_id = 10, chat_session = 1, chat_user = None,
    chat_character = [97], chat_profile = [98], chat_created = 5000000, chat_updated = 5000000\<rparr>]\<rparr>"
  by (simp add: w_created_def w_event_defs create_chat_db create_chat_transaction_def owner_chat_count_def
      empty_chat_db_def timestamp_of_seconds_def to_timestamp_def as_i64_def insert_chat_def)

lemma w_upload_ok: "event_ok w_accounts w_upload w_created"
  by (simp add: event_ok_def w_created_eq, simp add: owner_ok_def w_event_defs empty_chat_db_def)

lemma w_uploaded_reachable: "chat_reachable w_accounts w_limits 100 {1, 2} w_uploaded"
  unfolding w_uploaded_def by (rule chat_step [OF w_created_reachable w_upload_ok])

lemma w_uploaded_bytes: "stored_bytes w_guest w_uploaded = 60"
  by (simp add: w_uploaded_def w_created_eq w_upload_def create_chat_attachment_with_storage_quota_def
      insert_chat_attachment_def Let_def fits_storage_def stored_bytes_def live_bytes_def queued_bytes_def
      w_empty_def empty_chat_db_def w_guest_def new_attachment_row_def owns_attachment_def owns_row_def)

section \<open>Limits\<close>





section \<open>Isolation\<close>

text \<open>
  C20: Whatever other accounts and the cleanup worker do to the chat tables, in any number of steps, an
  owner reads the same chats, messages, sent attachments and summaries as before.
\<close>

theorem chat_isolation:
  assumes "chat_reachable accounts limits max_bytes session_ids db" and "0 \<le> max_bytes"
    and "owner_ok accounts owner" and "foreign_run accounts limits max_bytes owner db db'"
  shows "get_chat owner i db' = get_chat owner i db \<and> list_chats owner db' = list_chats owner db
    \<and> list_chat_summaries owner character db' = list_chat_summaries owner character db"
proof -
  have inv: "chat_inv accounts db" using reachable_chat_ok [OF assms(1,2)] by (simp add: chat_ok_def)
  from foreign_run_slice [OF assms(4) inv assms(3)]
  have "chat_inv accounts db'" "own_slice owner db' = own_slice owner db" by simp_all
  from reads_of_slice [OF this(2) inv this(1) assms(3)]
  show ?thesis by simp
qed

theorem chat_isolation_witness:
  "\<exists>db'. db' \<noteq> w_empty \<and> list_chats w_guest db' \<noteq> [] \<and> list_chats w_other db' = list_chats w_other w_empty
     \<and> get_chat w_other 10 db' = get_chat w_other 10 w_empty
     \<and> list_chat_summaries w_other [97] db' = list_chat_summaries w_other [97] w_empty"
proof (intro exI conjI)
  have run: "foreign_run w_accounts w_limits 100 w_other w_empty w_created"
    unfolding w_created_def
    by (rule foreign_step [OF foreign_refl w_create_ok])
      (simp add: foreign_event_def w_create_def owner_account_def account_of_def w_other_def w_guest_def w_accounts_def)
  have ok: "owner_ok w_accounts w_other" by (simp add: owner_ok_def w_other_def w_accounts_def)
  have iso: "get_chat w_other 10 w_created = get_chat w_other 10 w_empty
      \<and> list_chats w_other w_created = list_chats w_other w_empty
      \<and> list_chat_summaries w_other [97] w_created = list_chat_summaries w_other [97] w_empty"
    by (rule chat_isolation [OF w_empty_reachable _ ok run]) simp
  show "list_chats w_other w_created = list_chats w_other w_empty" using iso by simp
  show "get_chat w_other 10 w_created = get_chat w_other 10 w_empty" using iso by simp
  show "list_chat_summaries w_other [97] w_created = list_chat_summaries w_other [97] w_empty"
    using iso by simp
  show "w_created \<noteq> w_empty" by (simp add: w_created_eq, simp add: w_empty_def empty_chat_db_def)
  show "list_chats w_guest w_created \<noteq> []"
    by (simp add: w_created_eq list_chats_def owns_chat_def owns_row_def w_guest_def)
qed

section \<open>An appended turn\<close>

text \<open>The records of a turn: what the chat shows of a message that was just stored.\<close>

lemma timestamp_roundtrip:
  assumes "timestamp_of_seconds (as_i64 n) = Inr t" and "n < 2 ^ 64"
  shows "as_u64 (epoch_seconds t) = n"
proof -
  have t: "t = as_i64 n * 1000000"
    using assms(1) by (auto simp: timestamp_of_seconds_def to_timestamp_def split: if_splits)
  have "epoch_seconds t = as_i64 n"
    by (simp add: t epoch_seconds_def) linarith
  with assms(2) show ?thesis by simp
qed

lemma row_of_message_time:
  assumes "row_of_message c m = Inr r" and "sm_created m < 2 ^ 64"
  shows "as_u64 (epoch_seconds (msg_created r)) = sm_created m"
proof -
  obtain t where t: "timestamp_of_seconds (as_i64 (sm_created m)) = Inr t" "msg_created r = t"
    using assms(1) by (cases "timestamp_of_seconds (as_i64 (sm_created m))") (auto simp: row_of_message_def)
  then show ?thesis using timestamp_roundtrip [OF t(1) assms(2)] by simp
qed

lemma message_of_new_row:
  assumes "row_of_message c m = Inr r" and "sm_created m < 2 ^ 64"
  shows "message_of_row db r = Some (m\<lparr>sm_attachments := attachments_for_message (sm_id m) db\<rparr>)"
  using row_of_message_Inr [OF assms(1)] row_of_message_time [OF assms] by (simp add: message_of_row_def)

lemma map_filter_joined: "List.map_filter f (xs @ ys) = List.map_filter f xs @ List.map_filter f ys"
  by (simp add: List.map_filter_def)

lemma find_map: "find P (map f xs) = map_option f (find (\<lambda>x. P (f x)) xs)"
  by (induction xs) auto

lemma find_touch:
  "find (\<lambda>c. chat_id c = i \<and> owns_chat owner c) (chats (touch_chat now j db))
    = map_option (\<lambda>c. if chat_id c = j then c\<lparr>chat_updated := now\<rparr> else c)
        (find (\<lambda>c. chat_id c = i \<and> owns_chat owner c) (chats db))"
proof -
  have "(\<lambda>c. chat_id (f c) = i \<and> owns_chat owner (f c)) = (\<lambda>c. chat_id c = i \<and> owns_chat owner c)"
    if "f = (\<lambda>c. if chat_id c = j then c\<lparr>chat_updated := now\<rparr> else c)" for f
    by (auto simp: that owns_chat_def fun_eq_iff)
  then show ?thesis by (simp add: touch_chat_def find_map)
qed

text \<open>A link does not change the attachments of other messages.\<close>

lemma attachments_after_link:
  assumes "k \<noteq> m"
  shows "attachments_for_message k (snd (link_attachments owner c m ids db)) = attachments_for_message k db"
proof -
  let ?f = "\<lambda>a. if linkable owner ids a then a\<lparr>att_chat := Some c, att_message := Some m\<rparr> else a"
  have "filter (\<lambda>a. att_message a = Some k \<and> att_deleted a = None) (map ?f as)
      = filter (\<lambda>a. att_message a = Some k \<and> att_deleted a = None) as" for as
    using assms by (induction as) (auto simp: linkable_def)
  then show ?thesis by (simp add: attachments_for_message_def link_attachments_def)
qed

lemma attachments_for_message_cong:
  "attachments db' = attachments db \<Longrightarrow> attachments_for_message m db' = attachments_for_message m db"
  by (simp add: attachments_for_message_def)

lemma attachments_of_new_message:
  assumes "chat_inv accounts db" and "m \<notin> msg_id ` set (messages db)"
  shows "attachments_for_message m db = []"
proof -
  have "att_message a \<noteq> Some m" if "a \<in> set (attachments db)" for a
    using that assms by (force simp: chat_inv_def links_ok_def split: option.splits)
  then show ?thesis by (simp add: attachments_for_message_def filter_empty_conv)
qed

lemma append_messages:
  assumes app: "append_writes now job owner c u a ids zone db = Inr (Some db')" and inv: "chat_inv accounts db"
    and times: "sm_created u < 2 ^ 64" "sm_created a < 2 ^ 64"
  shows "messages_for_chat (chat_id c) db' = messages_for_chat (chat_id c) db
    @ [u\<lparr>sm_attachments := attachments_for_message (sm_id u) db'\<rparr>, a\<lparr>sm_attachments := []\<rparr>]"
proof -
  obtain db1 db2 db3 where w: "insert_turn (chat_id c) u a db = Inr db1"
    "enqueue_memory_job (int now) job c (sm_id u) (sm_id a) zone db1 = Inr db2"
    "db3 = db2 \<or> db3 = snd (link_attachments owner (chat_id c) (sm_id u) ids db2)"
    "db' = touch_chat (int now) (chat_id c) db3"
    by (rule append_writes_Inr [OF app])
  from w(1) obtain ru ra db0 where t: "row_of_message (chat_id c) u = Inr ru" "row_of_message (chat_id c) a = Inr ra"
    "insert_message ru db = Inr db0" "insert_message ra db0 = Inr db1"
    by (auto simp: insert_turn_def split: sum.splits)
  note ins = insert_message_Inr [OF t(3)] insert_message_Inr [OF t(4)]
  note rows = row_of_message_Inr [OF t(1)] row_of_message_Inr [OF t(2)]
  have msgs: "messages db' = messages db @ [ru, ra]"
    using w(3) by (auto simp: w(4) chat_frame link_attachments_def enqueue_memory_job_frame [OF w(2)] ins)
  have atts2: "attachments db2 = attachments db" by (simp add: enqueue_memory_job_frame [OF w(2)] ins)
  have others: "attachments_for_message k db' = attachments_for_message k db" if "k \<noteq> sm_id u" for k
    using w(3) attachments_after_link [OF that, of owner "chat_id c" ids db2]
      attachments_for_message_cong [of db' db3 k] attachments_for_message_cong [OF atts2, of k]
    by (auto simp: w(4) chat_frame)
  have ids: "sm_id a \<noteq> sm_id u" "sm_id u \<notin> msg_id ` set (messages db)" "sm_id a \<notin> msg_id ` set (messages db)"
    using ins rows by auto
  have "message_of_row db' m = message_of_row db m" if "m \<in> set (messages db)" for m
  proof -
    have "msg_id m \<noteq> sm_id u" using that ids(2) by (metis imageI)
    then show ?thesis by (simp add: message_of_row_def others)
  qed
  then have old: "List.map_filter (message_of_row db') (filter (\<lambda>m. msg_chat m = chat_id c) (messages db))
      = messages_for_chat (chat_id c) db"
    unfolding messages_for_chat_def by (intro map_filter_cong) simp
  have "attachments_for_message (sm_id a) db' = []"
    using others [OF ids(1)] attachments_of_new_message [OF inv ids(3)] by simp
  then show ?thesis
    using old by (simp add: messages_for_chat_def msgs rows map_filter_joined List.map_filter_simps
        message_of_new_row [OF t(1) times(1)] message_of_new_row [OF t(2) times(2)])
qed

lemma turn_reads_back:
  assumes "chat_reachable accounts limits max_bytes session_ids db" and "0 \<le> max_bytes"
    and run: "append_chat_messages_limited_with_quota now job owner i u a ids zone limits reservation db q
      = (Inr (Appended u' a'), db', q')"
    and times: "sm_created u < 2 ^ 64" "sm_created a < 2 ^ 64"
  shows "\<exists>before after. get_chat owner i db = Some before \<and> get_chat owner i db' = Some after
    \<and> cr_messages after = cr_messages before @ [u', a'\<lparr>sm_attachments := []\<rparr>]
    \<and> sm_content u' = sm_content u \<and> sm_id u' = sm_id u \<and> a' = a"
proof -
  have inv: "chat_inv accounts db" using reachable_chat_ok [OF assms(1,2)] by (simp add: chat_ok_def)
  from run obtain c where c: "find (\<lambda>c. chat_id c = i \<and> owns_chat owner c) (chats db) = Some c"
    and app: "append_writes now job owner c u a ids zone db = Inr (Some db')"
    and u': "u' = u\<lparr>sm_attachments := attachments_for_message (sm_id u) db'\<rparr>" and a': "a' = a"
    by (auto simp: append_chat_messages_limited_with_quota_def split: option.splits if_splits sum.splits)
  have i: "chat_id c = i" using c by (auto simp: find_Some_iff)
  have "find (\<lambda>c. chat_id c = i \<and> owns_chat owner c) (chats db') = Some (c\<lparr>chat_updated := int now\<rparr>)"
    unfolding append_chats [OF app] find_touch c using i by simp
  then have "get_chat owner i db' = Some (chat_from_row db' (c\<lparr>chat_updated := int now\<rparr>))" by (simp add: get_chat_def)
  moreover have "get_chat owner i db = Some (chat_from_row db c)" using c by (simp add: get_chat_def)
  ultimately show ?thesis
    using append_messages [OF app inv times] i by (simp add: chat_from_row_def u' a')
qed

text \<open>
  C21: When an append answers with a turn, the owner reads the chat back with exactly the earlier messages
  followed by that turn, whose user message carries the linked attachments.
\<close>

theorem append_reads_back:
  assumes "chat_reachable accounts limits max_bytes session_ids db" and "0 \<le> max_bytes"
    and run: "append_chat_messages_limited_with_quota now job owner i u a ids zone limits reservation db q
      = (Inr (Appended u' a'), db', q')"
    and times: "sm_created u < 2 ^ 64" "sm_created a < 2 ^ 64"
  shows "\<exists>before after. get_chat owner i db = Some before \<and> get_chat owner i db' = Some after
    \<and> cr_messages after = cr_messages before @ [u', a'\<lparr>sm_attachments := []\<rparr>]
    \<and> sm_content u' = sm_content u \<and> sm_id u' = sm_id u \<and> a' = a"
  using assms by (rule turn_reads_back)

definition w_attachment :: attachment_row where
  "w_attachment = \<lparr>att_id = 30, att_session = 1, att_user = None, att_chat = None, att_message = None,
     att_kind = [105], att_mime = [112], att_size = 60, att_width = Some 1, att_height = Some 1, att_sha = [],
     att_key = [107], att_created = 8, att_deleted = None\<rparr>"

lemma w_uploaded_eq: "w_uploaded = w_created\<lparr>attachments := [w_attachment]\<rparr>"
  by (simp add: w_uploaded_def w_created_eq w_upload_def create_chat_attachment_with_storage_quota_def
      insert_chat_attachment_def Let_def fits_storage_def live_bytes_def queued_bytes_def
      w_empty_def empty_chat_db_def w_guest_def new_attachment_row_def w_attachment_def)

definition w_quota :: quota_db where
  "w_quota = \<lparr>sessions = [], owner_quotas = [], global_quotas = [], reservations = []\<rparr>"

definition w_turn :: "(store_error + append_outcome) \<times> chat_db \<times> quota_db" where
  "w_turn = append_chat_messages_limited_with_quota 9 40 w_guest 10 w_user_message w_assistant_message [30]
     (ascii ''UTC'') w_limits None w_uploaded w_quota"

lemma w_zone: "timezone_valid (ascii ''UTC'')"
  by code_simp

lemma w_turn_eq:
  "\<exists>u' db'. w_turn = (Inr (Appended u' w_assistant_message), db', w_quota) \<and> length (sm_attachments u') = 1"
  by (simp add: w_turn_def append_chat_messages_limited_with_quota_def w_uploaded_eq w_created_eq w_guest_def
      owns_chat_def owns_row_def append_over_limit_def exceeds_def usize_limit_def w_limits_def
      chat_messages_of_def stored_chars_def w_empty_def empty_chat_db_def w_user_message_def
      w_assistant_message_def append_writes_def insert_turn_def row_of_message_def timestamp_of_seconds_def
      to_timestamp_def as_i64_def insert_message_def enqueue_memory_job_def w_zone btrim_blank_def
      link_attachments_def linkable_def w_attachment_def commit_quota_def touch_chat_def
      attachments_for_message_def)

theorem append_reads_back_witness:
  "\<exists>u' db' before after. get_chat w_guest 10 w_uploaded = Some before \<and> get_chat w_guest 10 db' = Some after
     \<and> cr_messages after = cr_messages before @ [u', w_assistant_message\<lparr>sm_attachments := []\<rparr>]
     \<and> length (sm_attachments u') = 1"
proof -
  obtain u' db' where turn: "append_chat_messages_limited_with_quota 9 40 w_guest 10 w_user_message
      w_assistant_message [30] (ascii ''UTC'') w_limits None w_uploaded w_quota
      = (Inr (Appended u' w_assistant_message), db', w_quota)" and one: "length (sm_attachments u') = 1"
    using w_turn_eq unfolding w_turn_def by blast
  have "\<exists>before after. get_chat w_guest 10 w_uploaded = Some before \<and> get_chat w_guest 10 db' = Some after
    \<and> cr_messages after = cr_messages before @ [u', w_assistant_message\<lparr>sm_attachments := []\<rparr>]
    \<and> sm_content u' = sm_content w_user_message \<and> sm_id u' = sm_id w_user_message
    \<and> w_assistant_message = w_assistant_message"
    by (rule append_reads_back [OF w_uploaded_reachable _ turn])
      (simp_all add: w_user_message_def w_assistant_message_def)
  with one show ?thesis by blast
qed

section \<open>The quota of a turn\<close>

text \<open>
  C22: An append either fails and leaves the chat tables and the quota tables as they were, or stores the turn
  and, when it was given a reservation, turns exactly that consumed reservation into a committed one.
\<close>

theorem append_commits_quota:
  "case append_chat_messages_limited_with_quota now job owner i u a ids zone limits (Some r) db q of
     (outcome, db', q') \<Rightarrow>
       if \<exists>u' a'. outcome = Inr (Appended u' a')
       then (\<exists>row\<in>set (reservations q). res_id row = r \<and> res_owner_state row = OwnerReserved
               \<and> res_global_state row = GlobalConsumed)
         \<and> q' = update_reservation r (\<lambda>row. if res_owner_state row = OwnerReserved \<and> res_global_state row = GlobalConsumed
               then row\<lparr>res_owner_state := OwnerCommitted, res_committed_at := Some now, res_updated_at := now\<rparr>
               else row) q
         \<and> length (chat_messages_of i db') = length (chat_messages_of i db) + 2
       else db' = db \<and> q' = q"
proof -
  have two: "length (chat_messages_of (chat_id c) db') = length (chat_messages_of (chat_id c) db) + 2"
    if app: "append_writes now job owner c u a ids zone db = Inr (Some db')" for c db'
  proof -
    obtain db1 db2 db3 where w: "insert_turn (chat_id c) u a db = Inr db1"
      "enqueue_memory_job (int now) job c (sm_id u) (sm_id a) zone db1 = Inr db2"
      "db3 = db2 \<or> db3 = snd (link_attachments owner (chat_id c) (sm_id u) ids db2)"
      "db' = touch_chat (int now) (chat_id c) db3"
      by (rule append_writes_Inr [OF app])
    obtain ru ra db0 where t: "insert_message ru db = Inr db0" "insert_message ra db0 = Inr db1"
      "msg_chat ru = chat_id c" "msg_chat ra = chat_id c"
      by (rule insert_turn_Inr [OF w(1)])
    have "messages db' = messages db @ [ru, ra]"
      using w(3) by (auto simp: w(4) chat_frame link_attachments_def enqueue_memory_job_frame [OF w(2)]
          insert_message_Inr(1) [OF t(1)] insert_message_Inr(1) [OF t(2)])
    with t(3,4) show ?thesis by (simp add: chat_messages_of_def)
  qed
  show ?thesis
    by (auto simp: append_chat_messages_limited_with_quota_def commit_quota_def commit_reservation_def
        find_Some_iff two split: option.splits sum.splits)
qed

section \<open>Deletion\<close>


definition w_turn_db :: chat_db where
  "w_turn_db = fst (snd w_turn)"

definition w_append :: chat_event where
  "w_append = AppendTurn 9 40 w_guest 10 w_user_message w_assistant_message [30] (ascii ''UTC'') None w_quota"

lemma w_turn_reachable: "chat_reachable w_accounts w_limits 100 {1, 2} w_turn_db"
proof -
  have "event_ok w_accounts w_append w_uploaded"
    by (simp add: event_ok_def w_append_def owner_ok_def w_guest_def w_accounts_def)
  from chat_step [OF w_uploaded_reachable this] show ?thesis by (simp add: w_turn_db_def w_turn_def w_append_def)
qed

lemma w_turn_attachments:
  "attachments w_turn_db = [w_attachment\<lparr>att_chat := Some 10, att_message := Some 20\<rparr>]"
  "chats w_turn_db = chats (touch_chat 9 10 w_created)"
  by (simp_all add: w_turn_db_def w_turn_def append_chat_messages_limited_with_quota_def w_uploaded_eq w_created_eq
      w_guest_def owns_chat_def owns_row_def append_over_limit_def exceeds_def usize_limit_def w_limits_def
      chat_messages_of_def stored_chars_def w_empty_def empty_chat_db_def w_user_message_def
      w_assistant_message_def append_writes_def insert_turn_def row_of_message_def timestamp_of_seconds_def
      to_timestamp_def as_i64_def insert_message_def enqueue_memory_job_def w_zone btrim_blank_def
      link_attachments_def linkable_def w_attachment_def commit_quota_def touch_chat_def)


end
