(* ===== verification/Memory_Db.thy ===== *)
theory Memory_Db
  imports Attachment_Db "HOL-Library.Sublist"
begin

text \<open>
  The learned memories of the store, \<open>store/memory.rs\<close>: memory items with their sources, the queue of
  extraction jobs and the deliveries of follow-ups, as transactions on the tables of \<open>Chat_Tables\<close>. Numbers
  of type \<open>double precision\<close> are their exact values; the constants of the statements are rounded to
  binary64. \<open>lower\<close> is the case folding of \<open>ilike\<close>; a signal has no wildcard characters, since it is a word
  of letters and digits.
\<close>

section \<open>Records\<close>

record captured_memory =
  cap_key :: ustr
  cap_kind :: ustr
  cap_content :: ustr
  cap_tags :: "ustr list"
  cap_importance :: f32
  cap_strength :: f32
  cap_expires :: "nat option"
  cap_replaces :: bool

record new_memory_item =
  nm_character :: ustr
  nm_key :: ustr
  nm_kind :: ustr
  nm_content :: ustr
  nm_tags :: "ustr list"
  nm_confidence :: f32
  nm_importance :: f32
  nm_reinforced :: nat
  nm_expires :: "nat option"

record memory_item_record =
  mi_id :: uuid
  mi_session :: uuid
  mi_user :: "uuid option"
  mi_character :: ustr
  mi_key :: ustr
  mi_kind :: ustr
  mi_content :: ustr
  mi_tags :: "ustr list"
  mi_confidence :: f32
  mi_importance :: f32
  mi_reinforced :: nat
  mi_expires :: "nat option"
  mi_created :: nat
  mi_updated :: nat

record memory_retrieval_record =
  mr_id :: uuid
  mr_key :: ustr
  mr_kind :: ustr
  mr_content :: ustr
  mr_tags :: "ustr list"
  mr_confidence :: f32
  mr_importance :: f32
  mr_reinforced :: nat
  mr_expires :: "nat option"
  mr_updated :: nat
  mr_sources :: nat

record memory_source_record =
  msr_id :: uuid
  msr_memory :: uuid
  msr_chat :: uuid
  msr_message :: "uuid option"
  msr_strength :: f32
  msr_created :: nat

record follow_up_record =
  fur_id :: uuid
  fur_memory :: uuid
  fur_character :: ustr
  fur_prompt :: ustr
  fur_shown :: nat
  fur_chat :: "uuid option"

record follow_up_claim =
  fc_claim :: uuid
  fc_memory :: uuid
  fc_character :: ustr
  fc_updated :: nat
  fc_prompt :: ustr
  fc_shown :: nat

record extraction_job_record =
  ej_id :: uuid
  ej_chat :: uuid
  ej_user_message :: uuid
  ej_assistant_message :: uuid
  ej_session :: uuid
  ej_user :: "uuid option"
  ej_character :: ustr
  ej_status :: job_status
  ej_attempts :: nat
  ej_max_attempts :: nat
  ej_timezone :: ustr
  ej_captured :: nat
  ej_content :: ustr

text \<open>\<open>f64 as f32\<close> rounds; a column in the unit interval holds no other \<open>f32\<close> values than finite ones.\<close>

definition unit_value :: "f32 \<Rightarrow> rat option" where
  "unit_value v = (case v of Fin q \<Rightarrow> if 0 \<le> q \<and> q \<le> 1 then Some q else None | _ \<Rightarrow> None)"

definition seconds_of :: "micros \<Rightarrow> nat" where
  "seconds_of t = as_u64 (epoch_seconds t)"

definition memory_item_from_row :: "memory_row \<Rightarrow> memory_item_record" where
  "memory_item_from_row m =
     \<lparr>mi_id = mem_id m, mi_session = mem_session m, mi_user = mem_user m, mi_character = mem_character m,
      mi_key = mem_key m, mi_kind = mem_kind m, mi_content = mem_content m, mi_tags = mem_tags m,
      mi_confidence = f32_round (mem_confidence m), mi_importance = f32_round (mem_importance m),
      mi_reinforced = seconds_of (mem_reinforced m), mi_expires = map_option seconds_of (mem_expires m),
      mi_created = seconds_of (mem_created m), mi_updated = seconds_of (mem_updated m)\<rparr>"

definition memory_source_from_row :: "source_row \<Rightarrow> memory_source_record" where
  "memory_source_from_row s =
     \<lparr>msr_id = src_id s, msr_memory = src_memory s, msr_chat = src_chat s, msr_message = src_message s,
      msr_strength = f32_round (src_strength s), msr_created = seconds_of (src_created s)\<rparr>"

definition memory_retrieval_from_row :: "chat_db \<Rightarrow> memory_row \<Rightarrow> memory_retrieval_record" where
  "memory_retrieval_from_row db m =
     \<lparr>mr_id = mem_id m, mr_key = mem_key m, mr_kind = mem_kind m, mr_content = mem_content m,
      mr_tags = mem_tags m, mr_confidence = f32_round (mem_confidence m),
      mr_importance = f32_round (mem_importance m), mr_reinforced = seconds_of (mem_reinforced m),
      mr_expires = map_option seconds_of (mem_expires m), mr_updated = seconds_of (mem_updated m),
      mr_sources = length (filter (\<lambda>s. src_memory s = mem_id m) (sources db)) mod 2 ^ 32\<rparr>"

definition memory_follow_up_from_row :: "follow_up_row \<Rightarrow> follow_up_record" where
  "memory_follow_up_from_row f =
     \<lparr>fur_id = fu_id f, fur_memory = fu_memory f, fur_character = fu_character f, fur_prompt = fu_prompt f,
      fur_shown = seconds_of (fu_shown f), fur_chat = fu_chat f\<rparr>"

definition memory_extraction_job_from_row :: "job_row \<Rightarrow> ustr \<Rightarrow> extraction_job_record" where
  "memory_extraction_job_from_row j content =
     \<lparr>ej_id = job_id j, ej_chat = job_chat j, ej_user_message = job_user_message j,
      ej_assistant_message = job_assistant_message j, ej_session = job_session j, ej_user = job_user j,
      ej_character = job_character j, ej_status = job_status j, ej_attempts = job_attempts j,
      ej_max_attempts = job_max_attempts j, ej_timezone = job_timezone j,
      ej_captured = seconds_of (job_created j), ej_content = content\<rparr>"

definition owns_memory :: "owner_scope \<Rightarrow> memory_row \<Rightarrow> bool" where
  "owns_memory owner m \<longleftrightarrow> owns_row owner (mem_session m) (mem_user m)"

definition optional_timestamp :: "nat option \<Rightarrow> store_error + micros option" where
  "optional_timestamp e =
     (case e of None \<Rightarrow> Inr None | Some n \<Rightarrow> map_sum id Some (timestamp_of_seconds (as_i64 n)))"

section \<open>Memory items\<close>

definition memory_checks :: "ustr \<Rightarrow> ustr \<Rightarrow> ustr \<Rightarrow> bool" where
  "memory_checks key kind content \<longleftrightarrow> \<not> btrim_blank key \<and> \<not> btrim_blank kind \<and> \<not> btrim_blank content"

text \<open>The row an insert conflicts with, under the partial unique index of a guest or of an account.\<close>

definition same_memory_key :: "uuid \<Rightarrow> uuid option \<Rightarrow> ustr \<Rightarrow> ustr \<Rightarrow> memory_row \<Rightarrow> bool" where
  "same_memory_key s u character key m \<longleftrightarrow>
     (case u of None \<Rightarrow> mem_user m = None \<and> mem_session m = s | Some v \<Rightarrow> mem_user m = Some v)
     \<and> mem_character m = character \<and> mem_key m = key"

definition upsert_memory_item ::
  "micros \<Rightarrow> uuid \<Rightarrow> owner_scope \<Rightarrow> new_memory_item \<Rightarrow> chat_db
    \<Rightarrow> (store_error + memory_item_record) \<times> chat_db" where
  "upsert_memory_item now i owner n db =
     (case timestamp_of_seconds (as_i64 (nm_reinforced n)) of
        Inl e \<Rightarrow> (Inl e, db)
      | Inr reinforced \<Rightarrow>
          (case optional_timestamp (nm_expires n) of
             Inl e \<Rightarrow> (Inl e, db)
           | Inr expires \<Rightarrow>
               (case (unit_value (nm_confidence n), unit_value (nm_importance n)) of
                  (Some conf, Some imp) \<Rightarrow>
                    (if \<not> memory_checks (nm_key n) (nm_kind n) (nm_content n) then (Inl CheckViolation, db)
                     else
                       (case find (same_memory_key (scope_session owner) (scope_user owner)
                              (nm_character n) (nm_key n)) (memories db) of
                          Some old \<Rightarrow>
                            (let row = old\<lparr>mem_kind := nm_kind n, mem_content := nm_content n,
                                   mem_tags := nm_tags n, mem_confidence := conf, mem_importance := imp,
                                   mem_reinforced := max (mem_reinforced old) reinforced,
                                   mem_expires := expires, mem_updated := now\<rparr>
                             in (Inr (memory_item_from_row row),
                                 db\<lparr>memories := map (\<lambda>m. if mem_id m = mem_id old then row else m) (memories db)\<rparr>))
                        | None \<Rightarrow>
                            if i \<in> mem_id ` set (memories db) then (Inl UniqueViolation, db)
                            else if scope_session owner \<notin> db_sessions db then (Inl ForeignKeyViolation, db)
                            else (let row = \<lparr>mem_id = i, mem_session = scope_session owner,
                                    mem_user = scope_user owner, mem_character = nm_character n,
                                    mem_key = nm_key n, mem_kind = nm_kind n, mem_content = nm_content n,
                                    mem_tags = nm_tags n, mem_confidence = conf, mem_importance = imp,
                                    mem_reinforced = reinforced, mem_expires = expires, mem_created = now,
                                    mem_updated = now\<rparr>
                                  in (Inr (memory_item_from_row row), db\<lparr>memories := memories db @ [row]\<rparr>))))
                | _ \<Rightarrow> (Inl CheckViolation, db))))"

definition list_memory_items :: "owner_scope \<Rightarrow> ustr \<Rightarrow> chat_db \<Rightarrow> memory_item_record list" where
  "list_memory_items owner character db =
     map memory_item_from_row
       (sort_key (\<lambda>m. (- mem_reinforced m, mem_id m))
         (filter (\<lambda>m. owns_memory owner m \<and> mem_character m = character) (memories db)))"

definition list_memory_sources :: "owner_scope \<Rightarrow> uuid \<Rightarrow> chat_db \<Rightarrow> memory_source_record list" where
  "list_memory_sources owner i db =
     (if list_ex (\<lambda>m. mem_id m = i \<and> owns_memory owner m) (memories db)
      then map memory_source_from_row
        (sort_key (\<lambda>s. (src_created s, src_id s)) (filter (\<lambda>s. src_memory s = i) (sources db)))
      else [])"

definition memory_kinds :: "ustr list" where
  "memory_kinds = map ascii [''preference'', ''profile'', ''goal'', ''constraint'', ''plan'', ''experience'']"

definition matches_signal :: "(ustr \<Rightarrow> ustr) \<Rightarrow> memory_row \<Rightarrow> ustr \<Rightarrow> bool" where
  "matches_signal lower m signal \<longleftrightarrow>
     sublist (lower signal) (lower (mem_key m)) \<or> sublist (lower signal) (lower (mem_content m))"

definition retrievable :: "micros \<Rightarrow> (ustr \<Rightarrow> ustr) \<Rightarrow> owner_scope \<Rightarrow> ustr \<Rightarrow> ustr list \<Rightarrow> memory_row \<Rightarrow> bool" where
  "retrievable now lower owner character signals m \<longleftrightarrow>
     owns_memory owner m \<and> mem_character m = character \<and> f64_round (65 / 100) \<le> mem_confidence m
     \<and> mem_kind m \<in> set memory_kinds
     \<and> (case mem_expires m of None \<Rightarrow> True | Some e \<Rightarrow> now < e)
     \<and> (list_ex (\<lambda>t. t \<in> set signals) (mem_tags m) \<or> list_ex (matches_signal lower m) signals)"

definition find_memory_retrieval_candidates ::
  "micros \<Rightarrow> (ustr \<Rightarrow> ustr) \<Rightarrow> owner_scope \<Rightarrow> ustr \<Rightarrow> ustr list \<Rightarrow> int \<Rightarrow> chat_db \<Rightarrow> memory_retrieval_record list" where
  "find_memory_retrieval_candidates now lower owner character signals limit db =
     (if signals = [] \<or> limit \<le> 0 then []
      else map (memory_retrieval_from_row db) (take (nat (min limit 100))
        (sort_key (\<lambda>m. (- mem_confidence m, - mem_importance m, - mem_reinforced m, mem_key m, mem_id m))
          (filter (retrievable now lower owner character signals) (memories db)))))"

section \<open>Follow-ups\<close>

definition plan_or_goal :: "ustr \<Rightarrow> bool" where
  "plan_or_goal kind \<longleftrightarrow> kind = ascii ''plan'' \<or> kind = ascii ''goal''"

definition undelivered :: "chat_db \<Rightarrow> memory_row \<Rightarrow> bool" where
  "undelivered db m \<longleftrightarrow> \<not> list_ex (\<lambda>f. fu_memory f = mem_id m) (follow_ups db)"

definition find_memory_follow_up_candidates ::
  "owner_scope \<Rightarrow> ustr \<Rightarrow> int \<Rightarrow> chat_db \<Rightarrow> memory_item_record list" where
  "find_memory_follow_up_candidates owner character limit db =
     (if limit \<le> 0 then []
      else map memory_item_from_row (take (nat (min limit 50))
        (sort_key (\<lambda>m. (\<not> plan_or_goal (mem_kind m), - mem_importance m, - mem_confidence m,
                         - mem_reinforced m, mem_key m, mem_id m))
          (filter (\<lambda>m. owns_memory owner m \<and> mem_character m = character \<and> undelivered db m) (memories db)))))"

definition owns_follow_up :: "owner_scope \<Rightarrow> follow_up_row \<Rightarrow> bool" where
  "owns_follow_up owner f \<longleftrightarrow> owns_row owner (fu_session f) (fu_user f)"

definition get_memory_follow_up_by_claim ::
  "owner_scope \<Rightarrow> ustr \<Rightarrow> uuid \<Rightarrow> chat_db \<Rightarrow> follow_up_record option" where
  "get_memory_follow_up_by_claim owner character claim db =
     map_option memory_follow_up_from_row
       (find (\<lambda>f. fu_claim f = claim \<and> owns_follow_up owner f \<and> fu_character f = character) (follow_ups db))"

definition claimable_memory :: "owner_scope \<Rightarrow> follow_up_claim \<Rightarrow> micros \<Rightarrow> chat_db \<Rightarrow> memory_row \<Rightarrow> bool" where
  "claimable_memory owner claim shown db m \<longleftrightarrow>
     mem_id m = fc_memory claim \<and> owns_memory owner m \<and> mem_character m = fc_character claim
     \<and> plan_or_goal (mem_kind m) \<and> f64_round (8 / 10) \<le> mem_confidence m
     \<and> f64_round (65 / 100) \<le> mem_importance m
     \<and> (case mem_expires m of None \<Rightarrow> True | Some e \<Rightarrow> shown < e)
     \<and> epoch_seconds (mem_updated m) = as_i64 (fc_updated claim) \<and> undelivered db m"

definition insert_follow_up ::
  "uuid \<Rightarrow> owner_scope \<Rightarrow> follow_up_claim \<Rightarrow> micros \<Rightarrow> chat_db
    \<Rightarrow> store_error + (follow_up_record option \<times> chat_db)" where
  "insert_follow_up i owner claim shown db =
     (case find (claimable_memory owner claim shown db) (memories db) of
        None \<Rightarrow> Inr (None, db)
      | Some m \<Rightarrow>
          if btrim_blank (mem_character m) \<or> btrim_blank (fc_prompt claim) then Inl CheckViolation
          else if i \<in> fu_id ` set (follow_ups db) \<or> fc_claim claim \<in> fu_claim ` set (follow_ups db)
          then Inl UniqueViolation
          else if scope_session owner \<notin> db_sessions db then Inl ForeignKeyViolation
          else (let row = \<lparr>fu_id = i, fu_claim = fc_claim claim, fu_memory = mem_id m,
                  fu_session = scope_session owner, fu_user = scope_user owner,
                  fu_character = mem_character m, fu_prompt = fc_prompt claim, fu_shown = shown,
                  fu_chat = None\<rparr>
                in Inr (Some (memory_follow_up_from_row row), db\<lparr>follow_ups := follow_ups db @ [row]\<rparr>)))"

definition recently_shown :: "owner_scope \<Rightarrow> ustr \<Rightarrow> micros \<Rightarrow> chat_db \<Rightarrow> bool" where
  "recently_shown owner character cutoff db \<longleftrightarrow>
     list_ex (\<lambda>f. owns_follow_up owner f \<and> fu_character f = character \<and> cutoff < fu_shown f) (follow_ups db)"

definition claim_memory_follow_up ::
  "uuid \<Rightarrow> owner_scope \<Rightarrow> follow_up_claim \<Rightarrow> chat_db \<Rightarrow> (store_error + follow_up_record option) \<times> chat_db" where
  "claim_memory_follow_up i owner claim db =
     (case get_memory_follow_up_by_claim owner (fc_character claim) (fc_claim claim) db of
        Some f \<Rightarrow> (Inr (Some f), db)
      | None \<Rightarrow>
          (case timestamp_of_seconds (as_i64 (fc_shown claim - 86400)) of
             Inl e \<Rightarrow> (Inl e, db)
           | Inr cutoff \<Rightarrow>
               if recently_shown owner (fc_character claim) cutoff db then (Inr None, db)
               else (case timestamp_of_seconds (as_i64 (fc_shown claim)) of
                       Inl e \<Rightarrow> (Inl e, db)
                     | Inr shown \<Rightarrow>
                         (case insert_follow_up i owner claim shown db of
                            Inl e \<Rightarrow> (Inl e, db)
                          | Inr (answer, db') \<Rightarrow> (Inr answer, db')))))"

section \<open>Sources\<close>

definition put_source :: "source_row \<Rightarrow> (rat \<Rightarrow> rat \<Rightarrow> rat) \<Rightarrow> chat_db \<Rightarrow> store_error + chat_db" where
  "put_source s combine db =
     (let clash = (\<lambda>t. src_memory t = src_memory s
            \<and> (case src_message s of None \<Rightarrow> src_message t = None \<and> src_chat t = src_chat s
               | Some m \<Rightarrow> src_message t = Some m))
      in if list_ex clash (sources db)
         then Inr (db\<lparr>sources := map (\<lambda>t. if clash t
             then t\<lparr>src_strength := combine (src_strength t) (src_strength s)\<rparr> else t) (sources db)\<rparr>)
         else if src_id s \<in> src_id ` set (sources db) then Inl UniqueViolation
         else Inr (db\<lparr>sources := sources db @ [s]\<rparr>))"

definition valid_source :: "owner_scope \<Rightarrow> uuid \<Rightarrow> uuid \<Rightarrow> uuid option \<Rightarrow> chat_db \<Rightarrow> bool" where
  "valid_source owner i chat message db \<longleftrightarrow>
     list_ex (\<lambda>m. mem_id m = i \<and> owns_memory owner m
        \<and> list_ex (\<lambda>c. chat_id c = chat \<and> chat_character c = mem_character m \<and> owns_chat owner c) (chats db))
       (memories db)
     \<and> (case message of None \<Rightarrow> True
        | Some k \<Rightarrow> list_ex (\<lambda>r. msg_id r = k \<and> msg_chat r = chat) (messages db))"

definition add_memory_source ::
  "micros \<Rightarrow> uuid \<Rightarrow> owner_scope \<Rightarrow> uuid \<Rightarrow> uuid \<Rightarrow> uuid option \<Rightarrow> f32 \<Rightarrow> chat_db
    \<Rightarrow> (store_error + memory_source_record option) \<times> chat_db" where
  "add_memory_source now i owner memory chat message strength db =
     (if \<not> valid_source owner memory chat message db then (Inr None, db)
      else (case unit_value strength of
              None \<Rightarrow> (Inl CheckViolation, db)
            | Some q \<Rightarrow>
                (case put_source \<lparr>src_id = i, src_memory = memory, src_chat = chat, src_message = message,
                     src_strength = q, src_created = now\<rparr> (\<lambda>old new. new) db of
                   Inl e \<Rightarrow> (Inl e, db)
                 | Inr db1 \<Rightarrow>
                     (Inr (map_option memory_source_from_row
                        (find (\<lambda>t. src_memory t = memory \<and> (case message of
                             None \<Rightarrow> src_message t = None \<and> src_chat t = chat | Some m \<Rightarrow> src_message t = Some m))
                           (sources db1))),
                      recalculate_evidence now [memory] db1))))"

section \<open>Extraction jobs\<close>

definition job_lease :: micros where
  "job_lease = 5 * 60 * 1000000"

definition claimable_job :: "micros \<Rightarrow> uuid option \<Rightarrow> job_row \<Rightarrow> bool" where
  "claimable_job now message j \<longleftrightarrow>
     (case message of None \<Rightarrow> True | Some m \<Rightarrow> job_user_message j = m)
     \<and> job_attempts j < job_max_attempts j
     \<and> ((job_status j = JobPending \<or> job_status j = JobRetry) \<and> job_available j \<le> now
        \<or> job_status j = JobProcessing
          \<and> (case job_locked j of None \<Rightarrow> False | Some t \<Rightarrow> t < now - job_lease))"

definition update_job :: "uuid \<Rightarrow> (job_row \<Rightarrow> job_row) \<Rightarrow> chat_db \<Rightarrow> chat_db" where
  "update_job i f db = db\<lparr>jobs := map (\<lambda>j. if job_id j = i then f j else j) (jobs db)\<rparr>"

definition claimed_job :: "micros \<Rightarrow> job_row \<Rightarrow> job_row" where
  "claimed_job now j =
     j\<lparr>job_status := JobProcessing, job_attempts := job_attempts j + 1, job_locked := Some now,
       job_error := None\<rparr>"

definition claim_memory_extraction_job_for_message ::
  "micros \<Rightarrow> uuid option \<Rightarrow> chat_db \<Rightarrow> extraction_job_record option \<times> chat_db" where
  "claim_memory_extraction_job_for_message now message db =
     (case sort_key (\<lambda>j. (job_available j, job_created j)) (filter (claimable_job now message) (jobs db)) of
        [] \<Rightarrow> (None, db)
      | j # js \<Rightarrow>
          (map_option (\<lambda>m. memory_extraction_job_from_row (claimed_job now j) (msg_content m))
             (find (\<lambda>m. msg_id m = job_user_message j) (messages db)),
           update_job (job_id j) (claimed_job now) db))"

definition claim_memory_extraction_job ::
  "micros \<Rightarrow> chat_db \<Rightarrow> extraction_job_record option \<times> chat_db" where
  "claim_memory_extraction_job now db = claim_memory_extraction_job_for_message now None db"

definition failed_job :: "micros \<Rightarrow> ustr \<Rightarrow> job_row \<Rightarrow> job_row" where
  "failed_job now code j =
     (let spent = job_max_attempts j \<le> job_attempts j
      in j\<lparr>job_status := (if spent then JobDead else JobRetry),
           job_available := (if spent then job_available j
                             else now + int (min 60 (2 ^ job_attempts j)) * 1000000),
           job_locked := None, job_error := Some code\<rparr>)"

definition fail_memory_extraction_job ::
  "micros \<Rightarrow> uuid \<Rightarrow> ustr \<Rightarrow> chat_db \<Rightarrow> (store_error + job_status option) \<times> chat_db" where
  "fail_memory_extraction_job now i code db =
     (case find (\<lambda>j. job_id j = i \<and> job_status j = JobProcessing) (jobs db) of
        None \<Rightarrow> (Inr None, db)
      | Some j \<Rightarrow>
          if btrim_blank code then (Inl CheckViolation, db)
          else (Inr (Some (job_status (failed_job now code j))), update_job i (failed_job now code) db))"

definition completed_job :: "job_row \<Rightarrow> job_row" where
  "completed_job j = j\<lparr>job_status := JobCompleted, job_locked := None, job_error := None\<rparr>"

text \<open>
  One candidate of a capture, under the owner of the chat; \<open>ids\<close> are the new UUIDs of a memory and of a
  source. A candidate that would change the content of a known memory without replacing it is skipped.
\<close>

definition update_memory ::
  "micros \<Rightarrow> memory_row \<Rightarrow> captured_memory \<Rightarrow> chat_db \<Rightarrow> store_error + chat_db" where
  "update_memory now old cand db =
     (let db1 = (if mem_content old \<noteq> cap_content cand
           then db\<lparr>sources := filter (\<lambda>s. src_memory s \<noteq> mem_id old) (sources db)\<rparr> else db)
      in case (optional_timestamp (cap_expires cand), unit_value (cap_importance cand)) of
           (Inr expires, Some imp) \<Rightarrow>
             if \<not> memory_checks (mem_key old) (cap_kind cand) (cap_content cand) then Inl CheckViolation
             else Inr (db1\<lparr>memories := map (\<lambda>m. if mem_id m = mem_id old
               then m\<lparr>mem_kind := cap_kind cand, mem_content := cap_content cand, mem_tags := cap_tags cand,
                      mem_importance := imp, mem_expires := expires, mem_updated := now\<rparr>
               else m) (memories db1)\<rparr>)
         | (Inl e, _) \<Rightarrow> Inl e
         | (Inr expires, None) \<Rightarrow> Inl CheckViolation)"

definition insert_memory ::
  "micros \<Rightarrow> uuid \<Rightarrow> chat_row \<Rightarrow> captured_memory \<Rightarrow> chat_db \<Rightarrow> store_error + chat_db" where
  "insert_memory now i c cand db =
     (case (optional_timestamp (cap_expires cand), unit_value (cap_strength cand), unit_value (cap_importance cand)) of
        (Inr expires, Some strength, Some imp) \<Rightarrow>
          if \<not> memory_checks (cap_key cand) (cap_kind cand) (cap_content cand) then Inl CheckViolation
          else if i \<in> mem_id ` set (memories db) then Inl UniqueViolation
          else Inr (db\<lparr>memories := memories db @
            [\<lparr>mem_id = i, mem_session = chat_session c, mem_user = chat_user c,
              mem_character = chat_character c, mem_key = cap_key cand, mem_kind = cap_kind cand,
              mem_content = cap_content cand, mem_tags = cap_tags cand, mem_confidence = strength,
              mem_importance = imp, mem_reinforced = now, mem_expires = expires, mem_created = now,
              mem_updated = now\<rparr>]\<rparr>)
      | (Inl e, _) \<Rightarrow> Inl e
      | _ \<Rightarrow> Inl CheckViolation)"

definition store_source ::
  "micros \<Rightarrow> chat_row \<Rightarrow> uuid \<Rightarrow> uuid \<Rightarrow> uuid \<Rightarrow> captured_memory \<Rightarrow> chat_db \<Rightarrow> store_error + chat_db" where
  "store_source now c message memory i cand db =
     (case unit_value (cap_strength cand) of
        None \<Rightarrow> Inl CheckViolation
      | Some q \<Rightarrow>
          map_sum id (recalculate_evidence now [memory])
            (put_source \<lparr>src_id = i, src_memory = memory, src_chat = chat_id c, src_message = Some message,
               src_strength = q, src_created = now\<rparr> max db))"

definition capture_candidate ::
  "micros \<Rightarrow> chat_row \<Rightarrow> uuid \<Rightarrow> uuid \<times> uuid \<Rightarrow> captured_memory \<Rightarrow> chat_db \<Rightarrow> store_error + chat_db" where
  "capture_candidate now c message ids cand db =
     (case find (same_memory_key (chat_session c) (chat_user c) (chat_character c) (cap_key cand)) (memories db) of
        Some old \<Rightarrow>
          if mem_content old \<noteq> cap_content cand \<and> \<not> cap_replaces cand then Inr db
          else (case update_memory now old cand db of
                  Inl e \<Rightarrow> Inl e
                | Inr db1 \<Rightarrow> store_source now c message (mem_id old) (snd ids) cand db1)
      | None \<Rightarrow>
          (case insert_memory now (fst ids) c cand db of
             Inl e \<Rightarrow> Inl e
           | Inr db1 \<Rightarrow> store_source now c message (fst ids) (snd ids) cand db1))"

fun capture_candidates ::
  "micros \<Rightarrow> chat_row \<Rightarrow> uuid \<Rightarrow> ((uuid \<times> uuid) \<times> captured_memory) list \<Rightarrow> chat_db \<Rightarrow> store_error + chat_db" where
  "capture_candidates now c message [] db = Inr db"
| "capture_candidates now c message ((ids, cand) # rest) db =
     (case capture_candidate now c message ids cand db of
        Inl e \<Rightarrow> Inl e
      | Inr db1 \<Rightarrow> capture_candidates now c message rest db1)"

definition job_chat_row :: "uuid \<Rightarrow> chat_db \<Rightarrow> (job_row \<times> chat_row) option" where
  "job_chat_row i db =
     (case find (\<lambda>j. job_id j = i \<and> job_status j = JobProcessing) (jobs db) of
        None \<Rightarrow> None
      | Some j \<Rightarrow>
          if list_ex (\<lambda>m. msg_id m = job_user_message j \<and> msg_chat m = job_chat j \<and> msg_role m = ''user'')
               (messages db)
          then map_option (Pair j) (find (\<lambda>c. chat_id c = job_chat j) (chats db))
          else None)"

definition apply_memory_capture ::
  "micros \<Rightarrow> uuid \<Rightarrow> ((uuid \<times> uuid) \<times> captured_memory) list \<Rightarrow> chat_db \<Rightarrow> (store_error + bool) \<times> chat_db" where
  "apply_memory_capture now i cands db =
     (case job_chat_row i db of
        None \<Rightarrow> (Inr False, db)
      | Some (j, c) \<Rightarrow>
          (case capture_candidates now c (job_user_message j) cands db of
             Inl e \<Rightarrow> (Inl e, db)
           | Inr db1 \<Rightarrow> (Inr True, update_job i completed_job db1)))"

definition reset_learned_context :: "owner_scope \<Rightarrow> chat_db \<Rightarrow> nat \<times> chat_db" where
  "reset_learned_context owner db =
     (length (filter (owns_memory owner) (memories db)),
      delete_memories (owns_memory owner)
        (db\<lparr>jobs := filter (\<lambda>j. \<not> owns_row owner (job_session j) (job_user j)) (jobs db)\<rparr>))"

end
