(* ===== verification/Memory_Inv.thy ===== *)
theory Memory_Inv
  imports Chat_Store_Limits Memory_Db
begin

text \<open>
  The evidence of the memories: every memory of the tables has a source, its confidence is the one its
  sources give, and every source names a message of the chat it names. Every event of the chat tables and
  of the memory worker keeps this.
\<close>

section \<open>The invariant\<close>

definition mine :: "uuid \<Rightarrow> chat_db \<Rightarrow> source_row list" where
  "mine i db = filter (\<lambda>s. src_memory s = i) (sources db)"

definition evident :: "chat_db \<Rightarrow> memory_row \<Rightarrow> bool" where
  "evident db m \<longleftrightarrow>
     mine (mem_id m) db \<noteq> [] \<and> mem_confidence m = evidence_confidence (map src_strength (mine (mem_id m) db))"

definition source_ok :: "chat_db \<Rightarrow> source_row \<Rightarrow> bool" where
  "source_ok db s \<longleftrightarrow>
     src_memory s \<in> mem_id ` set (memories db)
     \<and> (\<exists>m\<in>set (messages db). src_message s = Some (msg_id m) \<and> msg_chat m = src_chat s)"

definition memory_inv :: "chat_db \<Rightarrow> bool" where
  "memory_inv db \<longleftrightarrow>
     distinct (map mem_id (memories db)) \<and> (\<forall>s\<in>set (sources db). source_ok db s)
     \<and> (\<forall>m\<in>set (memories db). evident db m)"

lemma evident_cong: "sources db' = sources db \<Longrightarrow> evident db' m = evident db m"
  by (simp add: evident_def mine_def)

lemma source_ok_cong:
  assumes ids: "map mem_id (memories db') = map mem_id (memories db)"
    and sub: "set (messages db) \<subseteq> set (messages db')" and ok: "source_ok db s"
  shows "source_ok db' s"
proof -
  have "mem_id ` set (memories db') = mem_id ` set (memories db)" using ids by (metis list.set_map)
  with sub ok show ?thesis by (auto simp: source_ok_def)
qed

lemma memory_inv_cong:
  assumes "memories db' = memories db" and "sources db' = sources db"
    and "set (messages db) \<subseteq> set (messages db')" and "memory_inv db"
  shows "memory_inv db'"
proof -
  have "source_ok db' s" if "source_ok db s" for s
    by (rule source_ok_cong [OF _ assms(3) that]) (simp add: assms(1))
  moreover have "evident db' m = evident db m" for m by (rule evident_cong [OF assms(2)])
  ultimately show ?thesis using assms(4) by (simp add: memory_inv_def assms(1,2))
qed

section \<open>Recalculation and cleanup\<close>

lemma recalculate_tables [simp]:
  "sources (recalculate_evidence now ids db) = sources db"
  "messages (recalculate_evidence now ids db) = messages db"
  "map mem_id (memories (recalculate_evidence now ids db)) = map mem_id (memories db)"
  by (simp_all add: recalculate_evidence_def Let_def o_def if_distrib cong: if_cong)

text \<open>A recalculation mends the memories it names, as far as they have sources.\<close>

lemma evident_recalculate:
  assumes "\<And>m. m \<in> set (memories db) \<Longrightarrow> mem_id m \<notin> set ids \<Longrightarrow> evident db m"
    and "\<And>m. m \<in> set (memories db) \<Longrightarrow> mine (mem_id m) db \<noteq> []"
    and m: "m \<in> set (memories (recalculate_evidence now ids db))"
  shows "evident (recalculate_evidence now ids db) m"
proof -
  obtain m0 where m0: "m0 \<in> set (memories db)"
    and eq: "m = (if mem_id m0 \<in> set ids \<and> mine (mem_id m0) db \<noteq> []
      then m0\<lparr>mem_confidence := evidence_confidence (map src_strength (mine (mem_id m0) db)),
              mem_reinforced := Max (set (map src_created (mine (mem_id m0) db))), mem_updated := now\<rparr>
      else m0)"
    using m unfolding recalculate_evidence_def mine_def Let_def by auto
  have "mine k (recalculate_evidence now ids db) = mine k db" for k by (simp add: mine_def)
  with assms(1) [OF m0] assms(2) [OF m0] eq show ?thesis
    by (cases "mem_id m0 \<in> set ids") (simp_all add: evident_def)
qed

lemma source_ok_recalculate: "source_ok db s \<Longrightarrow> source_ok (recalculate_evidence now ids db) s"
  by (rule source_ok_cong) simp_all

lemma cleanup_tables:
  assumes "distinct (map mem_id (memories db))"
  shows "sources (cleanup_after_source_removal now ids db) = sources db"
    and "messages (cleanup_after_source_removal now ids db) = messages db"
proof -
  let ?P = "\<lambda>m. mem_id m \<in> set ids \<and> \<not> list_ex (\<lambda>s. src_memory s = mem_id m) (sources db)"
  have "filter (\<lambda>s. src_memory s \<notin> mem_id ` set (filter ?P (memories db))) (sources db) = sources db"
    by (rule filter_True) (auto simp: list_ex_iff)
  then show "sources (cleanup_after_source_removal now ids db) = sources db"
    by (simp add: cleanup_after_source_removal_def delete_memories_def Let_def)
  show "messages (cleanup_after_source_removal now ids db) = messages db"
    by (simp add: cleanup_frame)
qed

lemma memory_inv_cleanup:
  assumes ids: "distinct (map mem_id (memories db))"
    and src: "\<And>s. s \<in> set (sources db) \<Longrightarrow> source_ok db s"
    and rest: "\<And>m. m \<in> set (memories db) \<Longrightarrow> mem_id m \<notin> set ids \<Longrightarrow> evident db m"
  shows "memory_inv (cleanup_after_source_removal now ids db)"
proof (cases "ids = []")
  case True
  with assms show ?thesis by (simp add: cleanup_after_source_removal_def memory_inv_def)
next
  case False
  let ?P = "\<lambda>m. mem_id m \<in> set ids \<and> \<not> list_ex (\<lambda>s. src_memory s = mem_id m) (sources db)"
  let ?D = "delete_memories ?P db"
  let ?C = "recalculate_evidence now ids ?D"
  have C: "cleanup_after_source_removal now ids db = ?C"
    using False by (simp add: cleanup_after_source_removal_def)
  have srcD: "sources ?D = sources db" using cleanup_tables(1) [OF ids, of now ids] C by simp
  have memD: "memories ?D = filter (\<lambda>m. \<not> ?P m) (memories db)" by (simp add: delete_memories_def Let_def)
  have mineD: "mine k ?D = mine k db" for k by (simp add: mine_def srcD)
  have has: "mine (mem_id m) ?D \<noteq> []" if "m \<in> set (memories ?D)" for m
  proof (cases "mem_id m \<in> set ids")
    case True
    have "\<not> ?P m" using that unfolding memD by simp
    with True show ?thesis unfolding mineD by (auto simp: mine_def list_ex_iff filter_empty_conv)
  next
    case False
    with that rest [of m] show ?thesis by (simp add: memD mineD evident_def)
  qed
  have ev: "evident ?C m" if "m \<in> set (memories ?C)" for m
    by (rule evident_recalculate [OF _ has that]) (use rest in \<open>auto simp: memD evident_def mineD\<close>)
  have okD: "source_ok ?D s" if s: "s \<in> set (sources db)" for s
  proof -
    obtain m where "m \<in> set (memories db)" "mem_id m = src_memory s" using src [OF s] by (auto simp: source_ok_def)
    with s have "m \<in> set (memories ?D)" unfolding memD by (auto simp: list_ex_iff)
    from imageI [OF this, of mem_id] have "src_memory s \<in> mem_id ` set (memories ?D)"
      unfolding \<open>mem_id m = src_memory s\<close> .
    moreover have "messages ?D = messages db" by (simp add: chat_frame)
    ultimately show ?thesis using src [OF s] by (simp add: source_ok_def)
  qed
  have "distinct (map mem_id (memories ?D))" by (simp add: memD distinct_map_filter ids)
  then have "distinct (map mem_id (memories ?C))" by simp
  with ev okD show ?thesis unfolding C by (simp add: memory_inv_def srcD source_ok_recalculate)
qed

section \<open>Events of the chat tables\<close>

lemma memory_tables_delete_attachments [simp]:
  "memories (delete_attachments now P db) = memories db" "sources (delete_attachments now P db) = sources db"
  "jobs (delete_attachments now P db) = jobs db"
  by (simp_all add: delete_attachments_def)

lemma delete_messages_sources:
  "memories (delete_messages now P db) = memories db"
  "sources (delete_messages now P db)
    = filter (\<lambda>s. \<not> (\<exists>m\<in>set (messages db). P m \<and> src_message s = Some (msg_id m))) (sources db)"
  by (auto simp: delete_messages_def Let_def split: option.splits intro!: filter_cong)

lemma delete_chats_sources:
  "memories (delete_chats now P db) = memories db"
  "sources (delete_chats now P db) = filter (\<lambda>s. src_chat s \<notin> gone_chats P db
      \<and> \<not> (\<exists>m\<in>set (messages db). msg_chat m \<in> gone_chats P db \<and> src_message s = Some (msg_id m))) (sources db)"
  by (auto simp: delete_chats_def Let_def gone_chats_def delete_messages_sources intro!: filter_cong)

lemma mine_filter: "sources db' = filter P (sources db) \<Longrightarrow> mine k db' = filter P (mine k db)"
  by (simp add: mine_def conj_commute)

text \<open>Removing the sources of one chat and cleaning up the memories they support keeps the invariant.\<close>

lemma memory_inv_remove_chat_sources:
  assumes inv: "memory_inv db"
    and mem: "memories db' = memories db" and src: "sources db' = filter (\<lambda>s. src_chat s \<noteq> i) (sources db)"
    and msg: "\<And>m. m \<in> set (messages db) \<Longrightarrow> msg_chat m \<noteq> i \<Longrightarrow> m \<in> set (messages db')"
    and ids: "set ids = src_memory ` {s \<in> set (sources db). src_chat s = i}"
  shows "memory_inv (cleanup_after_source_removal now ids db')"
proof (rule memory_inv_cleanup)
  show "distinct (map mem_id (memories db'))" using inv by (simp add: memory_inv_def mem)
  show "source_ok db' s" if "s \<in> set (sources db')" for s
  proof -
    have s: "s \<in> set (sources db)" "src_chat s \<noteq> i" using that by (simp_all add: src)
    then have "source_ok db s" using inv by (simp add: memory_inv_def)
    with s(2) msg show ?thesis by (auto simp: source_ok_def mem)
  qed
  show "evident db' m" if m: "m \<in> set (memories db')" "mem_id m \<notin> set ids" for m
  proof -
    have "src_chat s \<noteq> i" if "s \<in> set (mine (mem_id m) db)" for s
    proof
      assume "src_chat s = i"
      with that have "mem_id m \<in> src_memory ` {s \<in> set (sources db). src_chat s = i}"
        by (auto simp: mine_def image_iff)
      with m(2) ids show False by simp
    qed
    then have "mine (mem_id m) db' = mine (mem_id m) db"
      by (simp add: mine_filter [OF src])
    with inv m(1) show ?thesis by (simp add: memory_inv_def evident_def mem)
  qed
qed

lemma sources_of_chat_messages:
  assumes inv: "chat_inv accounts db" and ok: "memory_inv db" and s: "s \<in> set (sources db)"
  shows "(\<exists>m\<in>set (messages db). msg_chat m = i \<and> src_message s = Some (msg_id m)) \<longleftrightarrow> src_chat s = i"
proof -
  obtain r where r: "r \<in> set (messages db)" "src_message s = Some (msg_id r)" "msg_chat r = src_chat s"
    using ok s by (auto simp: memory_inv_def source_ok_def)
  have same: "m = r" if "m \<in> set (messages db)" "msg_id m = msg_id r" for m
    using that r(1) inv by (auto simp: chat_inv_def distinct_map dest: inj_onD)
  show ?thesis
  proof
    assume "\<exists>m\<in>set (messages db). msg_chat m = i \<and> src_message s = Some (msg_id m)"
    then obtain m where "m \<in> set (messages db)" "msg_chat m = i" "msg_id m = msg_id r" using r(2) by auto
    with same r(3) show "src_chat s = i" by metis
  next
    assume "src_chat s = i"
    with r show "\<exists>m\<in>set (messages db). msg_chat m = i \<and> src_message s = Some (msg_id m)" by blast
  qed
qed

lemma memory_inv_clear:
  assumes inv: "chat_inv accounts db" and ok: "memory_inv db"
    and ids: "set ids = src_memory ` {s \<in> set (sources db). src_chat s = i}"
  shows "memory_inv (cleanup_after_source_removal now ids (delete_messages now (\<lambda>m. msg_chat m = i) db))"
proof (rule memory_inv_remove_chat_sources [OF ok _ _ _ ids])
  show "sources (delete_messages now (\<lambda>m. msg_chat m = i) db) = filter (\<lambda>s. src_chat s \<noteq> i) (sources db)"
    unfolding delete_messages_sources
    by (rule filter_cong [OF refl]) (simp add: sources_of_chat_messages [OF inv ok])
qed (simp_all add: delete_messages_sources chat_frame)

lemma memory_inv_delete_chat:
  assumes inv: "chat_inv accounts db" and ok: "memory_inv db" and c: "c \<in> set (chats db)" "chat_id c = i" "owns_chat owner c"
    and ids: "set ids = src_memory ` {s \<in> set (sources db). src_chat s = i}"
  shows "memory_inv (cleanup_after_source_removal now ids
    (delete_chats now (\<lambda>c. chat_id c = i \<and> owns_chat owner c) db))"
proof (rule memory_inv_remove_chat_sources [OF ok _ _ _ ids])
  have gone: "gone_chats (\<lambda>c. chat_id c = i \<and> owns_chat owner c) db = {i}"
    using c by (auto simp: gone_chats_def)
  then show "sources (delete_chats now (\<lambda>c. chat_id c = i \<and> owns_chat owner c) db)
      = filter (\<lambda>s. src_chat s \<noteq> i) (sources db)"
    unfolding delete_chats_sources gone
    by (intro filter_cong [OF refl]) (simp add: sources_of_chat_messages [OF inv ok])
  show "m \<in> set (messages (delete_chats now (\<lambda>c. chat_id c = i \<and> owns_chat owner c) db))"
    if "m \<in> set (messages db)" "msg_chat m \<noteq> i" for m
    using that gone by (simp add: chat_frame)
qed (simp_all add: delete_chats_sources)

lemma memory_inv_touch: "memory_inv (touch_chat now i db) = memory_inv db"
  by (simp add: memory_inv_def evident_def mine_def source_ok_def touch_chat_def)

section \<open>Captures\<close>

text \<open>
  After a source of one memory changed, its recalculation restores the invariant when the other memories
  were left alone.
\<close>

lemma memory_inv_after_source:
  assumes ids: "distinct (map mem_id (memories db))"
    and src: "\<And>s. s \<in> set (sources db) \<Longrightarrow> source_ok db s"
    and rest: "\<And>m. m \<in> set (memories db) \<Longrightarrow> mem_id m \<noteq> i \<Longrightarrow> evident db m"
    and own: "mine i db \<noteq> []"
  shows "memory_inv (recalculate_evidence now [i] db)"
proof -
  have has: "mine (mem_id m) db \<noteq> []" if "m \<in> set (memories db)" for m
    using own rest [OF that] by (cases "mem_id m = i") (auto simp: evident_def)
  have "evident (recalculate_evidence now [i] db) m" if "m \<in> set (memories (recalculate_evidence now [i] db))" for m
    by (rule evident_recalculate [OF _ has that]) (use rest in auto)
  then show ?thesis using ids src by (simp add: memory_inv_def source_ok_recalculate)
qed

lemma put_source_tables:
  assumes "put_source s f db = Inr db'"
  shows "memories db' = memories db" "messages db' = messages db" "chats db' = chats db"
    "attachments db' = attachments db" "file_deletions db' = file_deletions db"
    "jobs db' = jobs db" "follow_ups db' = follow_ups db"
  using assms by (auto simp: put_source_def Let_def split: if_splits)

lemma put_source_effect:
  assumes put: "put_source s f db = Inr db'"
  shows "mine (src_memory s) db' \<noteq> []" and "k \<noteq> src_memory s \<Longrightarrow> mine k db' = mine k db"
    and "t \<in> set (sources db') \<Longrightarrow>
      (\<exists>t0\<in>set (sources db). src_memory t = src_memory t0 \<and> src_message t = src_message t0 \<and> src_chat t = src_chat t0)
      \<or> t = s"
proof -
  let ?clash = "\<lambda>t. src_memory t = src_memory s \<and> (case src_message s of
      None \<Rightarrow> src_message t = None \<and> src_chat t = src_chat s | Some m \<Rightarrow> src_message t = Some m)"
  let ?g = "\<lambda>t. if ?clash t then t\<lparr>src_strength := f (src_strength t) (src_strength s)\<rparr> else t"
  have cases: "(\<exists>t\<in>set (sources db). ?clash t) \<and> sources db' = map ?g (sources db) \<or> sources db' = sources db @ [s]"
    using put by (auto simp: put_source_def Let_def list_ex_iff split: if_splits)
  show "mine (src_memory s) db' \<noteq> []"
    using cases
  proof
    assume old: "(\<exists>t\<in>set (sources db). ?clash t) \<and> sources db' = map ?g (sources db)"
    then obtain t where "t \<in> set (sources db)" "?clash t" by blast
    with old have "?g t \<in> set (mine (src_memory s) db')" by (simp add: mine_def)
    then show ?thesis by (cases "mine (src_memory s) db'") simp_all
  qed (simp add: mine_def)
  have map_mine: "filter (\<lambda>t. src_memory t = k) (map ?g ts) = filter (\<lambda>t. src_memory t = k) ts"
    if "k \<noteq> src_memory s" for k ts
    using that by (induction ts) auto
  show "mine k db' = mine k db" if "k \<noteq> src_memory s"
    using cases
  proof
    assume "(\<exists>t\<in>set (sources db). ?clash t) \<and> sources db' = map ?g (sources db)"
    then have "sources db' = map ?g (sources db)" ..
    with map_mine [OF that, of "sources db"] show ?thesis by (simp only: mine_def)
  qed (use that in \<open>simp add: mine_def\<close>)
  show "(\<exists>t0\<in>set (sources db). src_memory t = src_memory t0 \<and> src_message t = src_message t0 \<and> src_chat t = src_chat t0)
      \<or> t = s" if t: "t \<in> set (sources db')"
    using cases
  proof
    assume "(\<exists>t\<in>set (sources db). ?clash t) \<and> sources db' = map ?g (sources db)"
    with t have "t \<in> ?g ` set (sources db)" by (metis image_set)
    then obtain t0 where t0: "t0 \<in> set (sources db)" and "t = ?g t0" by (rule imageE)
    then have "src_memory t = src_memory t0 \<and> src_message t = src_message t0 \<and> src_chat t = src_chat t0" by simp
    with t0 show ?thesis by blast
  next
    assume "sources db' = sources db @ [s]"
    with t show ?thesis by auto
  qed
qed

text \<open>Storing the source of a candidate.\<close>

lemma store_source_inv:
  assumes st: "store_source now c message i k cand db = Inr db'"
    and ids: "distinct (map mem_id (memories db))" and i: "i \<in> mem_id ` set (memories db)"
    and src: "\<And>s. s \<in> set (sources db) \<Longrightarrow> source_ok db s"
    and rest: "\<And>m. m \<in> set (memories db) \<Longrightarrow> mem_id m \<noteq> i \<Longrightarrow> evident db m"
    and msg: "\<exists>m\<in>set (messages db). msg_id m = message \<and> msg_chat m = chat_id c"
  shows "memory_inv db'"
proof -
  obtain q db1 where put: "put_source \<lparr>src_id = k, src_memory = i, src_chat = chat_id c, src_message = Some message,
      src_strength = q, src_created = now\<rparr> max db = Inr db1"
    and db': "db' = recalculate_evidence now [i] db1"
    using st by (auto simp: store_source_def map_sum_Inr split: option.splits)
  note tables = put_source_tables [OF put]
  note effect = put_source_effect [OF put, simplified]
  show ?thesis
    unfolding db'
  proof (rule memory_inv_after_source)
    show "distinct (map mem_id (memories db1))" using ids by (simp add: tables)
    show "mine i db1 \<noteq> []" by (rule effect(1))
    show "evident db1 m" if "m \<in> set (memories db1)" "mem_id m \<noteq> i" for m
      using rest [of m] that effect(2) by (simp add: tables evident_def)
    show "source_ok db1 t" if "t \<in> set (sources db1)" for t
      using effect(3) [OF that] src i msg by (auto simp: source_ok_def tables)
  qed
qed

lemma update_memory_inv:
  assumes up: "update_memory now old cand db = Inr db'" and inv: "memory_inv db"
  shows "distinct (map mem_id (memories db'))" and "messages db' = messages db"
    and "mem_id ` set (memories db') = mem_id ` set (memories db)"
    and "s \<in> set (sources db') \<Longrightarrow> source_ok db' s"
    and "m \<in> set (memories db') \<Longrightarrow> mem_id m \<noteq> mem_id old \<Longrightarrow> evident db' m"
proof -
  let ?src = "if mem_content old \<noteq> cap_content cand
    then filter (\<lambda>s. src_memory s \<noteq> mem_id old) (sources db) else sources db"
  obtain f where mem: "memories db' = map f (memories db)" and f: "\<And>m. mem_id (f m) = mem_id m"
    "\<And>m. mem_id m \<noteq> mem_id old \<Longrightarrow> f m = m"
    and src: "sources db' = ?src" and msg: "messages db' = messages db"
  proof -
    obtain expires imp where "optional_timestamp (cap_expires cand) = Inr expires"
      "unit_value (cap_importance cand) = Some imp"
      using up by (auto simp: update_memory_def Let_def split: sum.splits option.splits)
    with up show ?thesis
      by (intro that [of "\<lambda>m. if mem_id m = mem_id old
            then m\<lparr>mem_kind := cap_kind cand, mem_content := cap_content cand, mem_tags := cap_tags cand,
                   mem_importance := imp, mem_expires := expires, mem_updated := now\<rparr> else m"])
        (auto simp: update_memory_def Let_def split: if_splits)
  qed
  have "map mem_id (memories db') = map mem_id (memories db)" by (simp add: mem f)
  with inv show "distinct (map mem_id (memories db'))" by (simp add: memory_inv_def)
  show "messages db' = messages db" by (rule msg)
  show ids: "mem_id ` set (memories db') = mem_id ` set (memories db)" by (simp add: mem image_image f)
  show "source_ok db' s" if "s \<in> set (sources db')"
    using that inv ids by (auto simp: src memory_inv_def source_ok_def msg split: if_splits)
  show "evident db' m" if m: "m \<in> set (memories db')" "mem_id m \<noteq> mem_id old"
  proof -
    obtain m0 where m0: "m0 \<in> set (memories db)" "m = f m0" using m(1) by (auto simp: mem)
    with m(2) f have "m = m0" by simp
    moreover have "mine (mem_id m) db' = mine (mem_id m) db"
      using m(2) by (auto simp: mine_def src intro!: filter_cong)
    ultimately show ?thesis using inv m0(1) by (simp add: memory_inv_def evident_def)
  qed
qed

lemma insert_memory_inv:
  assumes ins: "insert_memory now i c cand db = Inr db'" and inv: "memory_inv db"
  shows "distinct (map mem_id (memories db'))" and "messages db' = messages db"
    and "i \<in> mem_id ` set (memories db')"
    and "s \<in> set (sources db') \<Longrightarrow> source_ok db' s"
    and "m \<in> set (memories db') \<Longrightarrow> mem_id m \<noteq> i \<Longrightarrow> evident db' m"
proof -
  obtain row where row: "memories db' = memories db @ [row]" "mem_id row = i" "i \<notin> mem_id ` set (memories db)"
    "messages db' = messages db" "sources db' = sources db"
    using ins by (auto simp: insert_memory_def split: sum.splits option.splits if_splits)
  show "distinct (map mem_id (memories db'))" using inv row by (auto simp: memory_inv_def)
  show "messages db' = messages db" by (rule row)
  show "i \<in> mem_id ` set (memories db')" by (simp add: row)
  show "source_ok db' s" if "s \<in> set (sources db')"
    using that inv by (auto simp: memory_inv_def source_ok_def row)
  show "evident db' m" if "m \<in> set (memories db')" "mem_id m \<noteq> i"
    using that inv row evident_cong [OF row(5)] by (auto simp: memory_inv_def)
qed

lemma capture_candidate_inv:
  assumes cap: "capture_candidate now c message ids cand db = Inr db'" and inv: "memory_inv db"
    and msg: "\<exists>m\<in>set (messages db). msg_id m = message \<and> msg_chat m = chat_id c"
  shows "memory_inv db'"
proof (cases "find (same_memory_key (chat_session c) (chat_user c) (chat_character c) (cap_key cand)) (memories db)")
  case None
  with cap obtain db1 where db1: "insert_memory now (fst ids) c cand db = Inr db1"
    and st: "store_source now c message (fst ids) (snd ids) cand db1 = Inr db'"
    by (auto simp: capture_candidate_def split: sum.splits)
  note ins = insert_memory_inv [OF db1 inv]
  show ?thesis by (rule store_source_inv [OF st ins(1,3,4,5)]) (use msg ins(2) in auto)
next
  case (Some old)
  then have old: "mem_id old \<in> mem_id ` set (memories db)" by (auto simp: find_Some_iff)
  show ?thesis
  proof (cases "mem_content old \<noteq> cap_content cand \<and> \<not> cap_replaces cand")
    case True
    with cap Some inv show ?thesis by (simp add: capture_candidate_def)
  next
    case False
    then obtain db1 where db1: "update_memory now old cand db = Inr db1"
      and st: "store_source now c message (mem_id old) (snd ids) cand db1 = Inr db'"
      using cap Some unfolding capture_candidate_def by (auto split: sum.splits simp del: de_Morgan_conj)
    note up = update_memory_inv [OF db1 inv]
    show ?thesis by (rule store_source_inv [OF st up(1) _ up(4,5)]) (use msg up(2,3) old in auto)
  qed
qed

end
