(* ===== verification/Memory_Machine.thy ===== *)
theory Memory_Machine
  imports Memory_Inv
begin

text \<open>
  The store of chats and memories as one machine: the events of the chat tables, the three operations of
  the memory worker, the reset of a learned context and the claim of a follow-up. The test-only operations
  \<open>upsert_memory_item\<close> and \<open>add_memory_source\<close>, which no handler calls, are not events.
\<close>

datatype store_event =
    ChatEvent chat_event
  | ClaimJob micros
  | FailJob micros uuid ustr
  | ApplyCapture micros uuid "((uuid \<times> uuid) \<times> captured_memory) list"
  | ResetContext owner_scope
  | ClaimFollowUp uuid owner_scope follow_up_claim

fun apply_store_event :: "chat_storage_limits \<Rightarrow> int \<Rightarrow> store_event \<Rightarrow> chat_db \<Rightarrow> chat_db" where
  "apply_store_event limits max_bytes (ChatEvent e) db = apply_chat_event limits max_bytes e db"
| "apply_store_event limits max_bytes (ClaimJob now) db = snd (claim_memory_extraction_job now db)"
| "apply_store_event limits max_bytes (FailJob now i code) db = snd (fail_memory_extraction_job now i code db)"
| "apply_store_event limits max_bytes (ApplyCapture now i cands) db = snd (apply_memory_capture now i cands db)"
| "apply_store_event limits max_bytes (ResetContext owner) db = snd (reset_learned_context owner db)"
| "apply_store_event limits max_bytes (ClaimFollowUp i owner claim) db = snd (claim_memory_follow_up i owner claim db)"

fun store_event_ok :: "(uuid \<Rightarrow> uuid option) \<Rightarrow> store_event \<Rightarrow> chat_db \<Rightarrow> bool" where
  "store_event_ok accounts (ChatEvent e) db \<longleftrightarrow> event_ok accounts e db"
| "store_event_ok accounts e db \<longleftrightarrow> True"

inductive store_reachable ::
  "(uuid \<Rightarrow> uuid option) \<Rightarrow> chat_storage_limits \<Rightarrow> int \<Rightarrow> uuid set \<Rightarrow> chat_db \<Rightarrow> bool"
  for accounts limits max_bytes session_ids where
  store_start: "store_reachable accounts limits max_bytes session_ids (empty_chat_db session_ids)"
| store_step: "store_reachable accounts limits max_bytes session_ids db \<Longrightarrow> store_event_ok accounts e db
    \<Longrightarrow> store_reachable accounts limits max_bytes session_ids (apply_store_event limits max_bytes e db)"

section \<open>Events of the worker leave the chat tables alone\<close>

definition same_chats :: "chat_db \<Rightarrow> chat_db \<Rightarrow> bool" where
  "same_chats db db' \<longleftrightarrow>
     chats db' = chats db \<and> messages db' = messages db \<and> attachments db' = attachments db
     \<and> file_deletions db' = file_deletions db \<and> db_sessions db' = db_sessions db"

lemma same_chats_refl [simp]: "same_chats db db"
  by (simp add: same_chats_def)

lemma same_chats_trans: "same_chats a b \<Longrightarrow> same_chats b c \<Longrightarrow> same_chats a c"
  by (simp add: same_chats_def)

lemma same_chats_update_job [simp]: "same_chats db (update_job i f db)"
  by (simp add: same_chats_def update_job_def)

lemma same_chats_store_source: "store_source now c message i k cand db = Inr db' \<Longrightarrow> same_chats db db'"
  by (auto simp: store_source_def map_sum_Inr same_chats_def put_source_def Let_def chat_frame
      split: option.splits if_splits)

lemma same_chats_update_memory: "update_memory now old cand db = Inr db' \<Longrightarrow> same_chats db db'"
  by (auto simp: update_memory_def Let_def same_chats_def split: sum.splits option.splits if_splits)

lemma same_chats_insert_memory: "insert_memory now i c cand db = Inr db' \<Longrightarrow> same_chats db db'"
  by (auto simp: insert_memory_def same_chats_def split: sum.splits option.splits if_splits)

lemma same_chats_candidate: "capture_candidate now c message ids cand db = Inr db' \<Longrightarrow> same_chats db db'"
  by (auto simp: capture_candidate_def split: option.splits sum.splits if_splits
      intro: same_chats_trans same_chats_store_source same_chats_update_memory same_chats_insert_memory)

lemma same_chats_candidates: "capture_candidates now c message cands db = Inr db' \<Longrightarrow> same_chats db db'"
proof (induction now c message cands db rule: capture_candidates.induct)
  case (2 now c message ids cand rest db)
  then obtain db1 where db1: "capture_candidate now c message ids cand db = Inr db1"
    and rest: "capture_candidates now c message rest db1 = Inr db'"
    by (auto split: sum.splits)
  from same_chats_candidate [OF db1] "2.IH" [OF db1 rest] show ?case by (rule same_chats_trans)
qed simp

lemma claim_job_db:
  "snd (claim_memory_extraction_job now db) = db
   \<or> (\<exists>j\<in>set (jobs db). claimable_job now None j
        \<and> snd (claim_memory_extraction_job now db) = update_job (job_id j) (claimed_job now) db)"
proof (cases "sort_key (\<lambda>j. (job_available j, job_created j)) (filter (claimable_job now None) (jobs db))")
  case Nil
  then show ?thesis
    by (simp add: claim_memory_extraction_job_def claim_memory_extraction_job_for_message_def)
next
  case (Cons j js)
  have "j \<in> set (sort_key (\<lambda>j. (job_available j, job_created j)) (filter (claimable_job now None) (jobs db)))"
    by (simp only: Cons list.set_intros)
  then have "j \<in> set (jobs db)" "claimable_job now None j" by simp_all
  moreover have "snd (claim_memory_extraction_job now db) = update_job (job_id j) (claimed_job now) db"
    by (simp add: claim_memory_extraction_job_def claim_memory_extraction_job_for_message_def Cons)
  ultimately show ?thesis by blast
qed

lemma fail_job_db:
  "snd (fail_memory_extraction_job now i code db) = db
   \<or> (\<exists>j\<in>set (jobs db). job_id j = i \<and> job_status j = JobProcessing
        \<and> snd (fail_memory_extraction_job now i code db) = update_job i (failed_job now code) db)"
proof (cases "find (\<lambda>j. job_id j = i \<and> job_status j = JobProcessing) (jobs db)")
  case (Some j)
  from find_SomeD [OF this] Some show ?thesis by (auto simp: fail_memory_extraction_job_def)
qed (simp add: fail_memory_extraction_job_def)

lemma job_chat_row_Some:
  assumes "job_chat_row i db = Some (j, c)"
  shows "j \<in> set (jobs db)" "job_id j = i" "job_status j = JobProcessing" "c \<in> set (chats db)" "chat_id c = job_chat j"
    "\<exists>m\<in>set (messages db). msg_id m = job_user_message j \<and> msg_chat m = chat_id c \<and> msg_role m = ''user''"
  using assms
  by (auto simp: job_chat_row_def find_Some_iff in_set_conv_nth list_ex_iff split: option.splits if_splits)

lemma apply_capture_db:
  "snd (apply_memory_capture now i cands db) = db
   \<or> (\<exists>j c db1. job_chat_row i db = Some (j, c) \<and> capture_candidates now c (job_user_message j) cands db = Inr db1
        \<and> snd (apply_memory_capture now i cands db) = update_job i completed_job db1)"
  by (auto simp: apply_memory_capture_def split: option.splits sum.splits)

lemma follow_up_db:
  "\<exists>rows. snd (claim_memory_follow_up i owner claim db) = db\<lparr>follow_ups := rows\<rparr>"
proof -
  have self: "\<exists>rows. db = db\<lparr>follow_ups := rows\<rparr>" by (rule exI [of _ "follow_ups db"]) simp
  have "\<exists>rows. db' = db\<lparr>follow_ups := rows\<rparr>" if "insert_follow_up i owner claim shown db = Inr (answer, db')"
    for shown answer db'
    using that self by (auto simp: insert_follow_up_def Let_def split: option.splits if_splits)
  with self show ?thesis
    by (auto simp: claim_memory_follow_up_def split: option.splits sum.splits if_splits)
qed

lemma worker_same_chats: "same_chats db (apply_store_event limits max_bytes e db)" if "\<nexists>x. e = ChatEvent x"
proof (cases e)
  case (ClaimJob now)
  with claim_job_db [of now db] show ?thesis by auto
next
  case (FailJob now i code)
  with fail_job_db [of now i code db] show ?thesis by auto
next
  case (ApplyCapture now i cands)
  with apply_capture_db [of now i cands db] show ?thesis
    by (auto intro: same_chats_trans [OF same_chats_candidates])
next
  case (ResetContext owner)
  then show ?thesis by (simp add: same_chats_def reset_learned_context_def delete_memories_frame)
next
  case (ClaimFollowUp i owner claim)
  with follow_up_db [of i owner claim db] show ?thesis by (auto simp: same_chats_def)
qed (use that in simp)

lemma chat_ok_same_chats:
  assumes same: "same_chats db db'" and ok: "chat_ok accounts limits max_bytes db"
  shows "chat_ok accounts limits max_bytes db'"
proof -
  have "chat_inv accounts db'" using ok same chat_inv_cong [of db' db] by (simp add: chat_ok_def same_chats_def)
  moreover have "chats_within limits db'"
    using ok same chats_within_cong [of db' db] by (simp add: chat_ok_def same_chats_def)
  moreover have "owners_within accounts limits db'"
    using ok same owners_within_cong [of db' db] by (simp add: chat_ok_def same_chats_def)
  moreover have "files_ok accounts max_bytes db'"
    using ok same files_ok_cong [of db' db] by (simp add: chat_ok_def same_chats_def)
  ultimately show ?thesis by (simp add: chat_ok_def)
qed

lemma store_event_chat_ok:
  assumes ok: "chat_ok accounts limits max_bytes db" and ev: "store_event_ok accounts e db"
  shows "chat_ok accounts limits max_bytes (apply_store_event limits max_bytes e db)"
proof (cases "\<exists>x. e = ChatEvent x")
  case True
  with ok ev show ?thesis by (auto intro: chat_ok_step)
next
  case False
  show ?thesis by (rule chat_ok_same_chats [OF worker_same_chats [OF False] ok])
qed

section \<open>The memory invariant\<close>

definition memory_frame :: "chat_db \<Rightarrow> chat_db \<Rightarrow> bool" where
  "memory_frame db db' \<longleftrightarrow>
     memories db' = memories db \<and> sources db' = sources db \<and> set (messages db) \<subseteq> set (messages db')"

lemma memory_inv_frame: "memory_frame db db' \<Longrightarrow> memory_inv db \<Longrightarrow> memory_inv db'"
  using memory_inv_cong by (simp add: memory_frame_def)

lemma insert_message_memory: "insert_message m db = Inr db' \<Longrightarrow> memory_frame db db'"
  using insert_message_Inr(1) by (fastforce simp: memory_frame_def)

lemma memory_frame_trans: "memory_frame a b \<Longrightarrow> memory_frame b c \<Longrightarrow> memory_frame a c"
  by (auto simp: memory_frame_def)

lemma create_memory_frame:
  assumes "create_chat_transaction new owner character profile follow_up limits db = Inr (Inr db')"
  shows "memory_frame db db'"
  using assms
proof (cases rule: create_chat_transaction_Inr)
  case (1 t db1)
  have one: "memory_frame db db1" by (simp add: insert_chat_Inr(1) [OF 1(1)] memory_frame_def)
  from 1(3) show ?thesis
  proof (elim disjE exE conjE)
    fix i assume "attach_follow_up owner character (nc_chat new) (nc_message new) i limits db1 = Inr (Inr db')"
    then show ?thesis
    proof (cases rule: attach_follow_up_Inr)
      case (1 m db2)
      from insert_message_memory [OF 1(1)] have "memory_frame db1 db'"
        by (simp add: memory_frame_def 1(2) link_follow_up_def)
      with one show ?thesis by (rule memory_frame_trans)
    qed
  qed (use one in simp)
qed

lemma append_memory_frame:
  assumes "append_writes now job owner c u a ids zone db = Inr (Some db')"
  shows "memory_frame db db'"
proof -
  obtain db1 db2 db3 where w: "insert_turn (chat_id c) u a db = Inr db1"
    "enqueue_memory_job (int now) job c (sm_id u) (sm_id a) zone db1 = Inr db2"
    "db3 = db2 \<or> db3 = snd (link_attachments owner (chat_id c) (sm_id u) ids db2)"
    "db' = touch_chat (int now) (chat_id c) db3"
    by (rule append_writes_Inr [OF assms])
  obtain ru ra db0 where t: "insert_message ru db = Inr db0" "insert_message ra db0 = Inr db1"
    by (rule insert_turn_Inr [OF w(1)])
  have "memory_frame db db1"
    by (rule memory_frame_trans [OF insert_message_memory [OF t(1)] insert_message_memory [OF t(2)]])
  moreover have "memory_frame db1 db2"
    using w(2) by (auto simp: enqueue_memory_job_def memory_frame_def split: if_splits)
  moreover have "memory_frame db2 db3" using w(3) by (auto simp: memory_frame_def link_attachments_def)
  moreover have "memory_frame db3 db'" by (simp add: w(4) memory_frame_def touch_chat_def)
  ultimately show ?thesis using memory_frame_trans by blast
qed

lemma claim_eligible_memory: "memory_frame db (snd (claim_eligible now token n P db))"
  by (simp add: claim_eligible_def Let_def memory_frame_def)

lemma chat_event_memory_inv:
  assumes inv: "chat_inv accounts db" and mem: "memory_inv db"
  shows "memory_inv (apply_chat_event limits max_bytes e db)"
proof (cases e)
  case (CreateChat new owner character profile follow_up)
  with mem memory_inv_frame [OF create_memory_frame] show ?thesis by (auto simp: create_chat_db split: sum.splits)
next
  case (AppendTurn now job owner i u a ids zone reservation q)
  with append_db [of now job owner i u a ids zone limits reservation db q] mem
    memory_inv_frame [OF append_memory_frame] show ?thesis by auto
next
  case (ClearChat now owner i)
  let ?ids = "remdups (map src_memory (filter (\<lambda>s. src_chat s = i \<and> src_message s \<noteq> None) (sources db)))"
  have "src_message s \<noteq> None" if "s \<in> set (sources db)" for s
    using that mem by (auto simp: memory_inv_def source_ok_def)
  then have ids: "set ?ids = src_memory ` {s \<in> set (sources db). src_chat s = i}" by auto
  show ?thesis
    using ClearChat mem memory_inv_clear [OF inv mem ids]
    by (auto simp: clear_chat_messages_def Let_def memory_inv_touch split: option.splits)
next
  case (DeleteChat now owner i)
  let ?ids = "remdups (map src_memory (filter (\<lambda>s. src_chat s = i) (sources db)))"
  have ids: "set ?ids = src_memory ` {s \<in> set (sources db). src_chat s = i}" by auto
  show ?thesis
  proof (cases "find (\<lambda>c. chat_id c = i \<and> owns_chat owner c) (chats db)")
    case None
    with DeleteChat mem show ?thesis by (simp add: delete_chat_def)
  next
    case (Some c)
    then have "c \<in> set (chats db)" "chat_id c = i" "owns_chat owner c" by (auto simp: find_Some_iff)
    from memory_inv_delete_chat [OF inv mem this ids] show ?thesis
      by (simp add: DeleteChat delete_chat_def Some Let_def)
  qed
next
  case (UploadAttachment now owner n)
  have "memory_frame db (snd (create_chat_attachment_with_storage_quota now owner n max_bytes db))"
    by (auto simp: create_chat_attachment_with_storage_quota_def insert_chat_attachment_def Let_def memory_frame_def)
  with UploadAttachment mem show ?thesis by (simp add: memory_inv_frame)
next
  case (DeletePending now owner i)
  have "memory_frame db (snd (delete_pending_chat_attachment now owner i db))"
    by (simp add: delete_pending_chat_attachment_def Let_def memory_frame_def chat_frame)
  with DeletePending mem show ?thesis by (simp add: memory_inv_frame)
next
  case (DeleteStale now kind before n)
  have "memory_frame db (snd (delete_stale_pending_chat_attachments now kind before n db))"
    using delete_stale_db [of now kind before n db] by (auto simp: memory_frame_def chat_frame)
  with DeleteStale mem show ?thesis by (simp add: memory_inv_frame)
next
  case (ClaimDeletions now token n)
  with mem show ?thesis
    by (simp add: claim_chat_attachment_file_deletions_def memory_inv_frame [OF claim_eligible_memory])
next
  case (ClaimDeletionsFor now token keys n)
  with mem show ?thesis
    by (simp add: claim_chat_attachment_file_deletions_for_keys_def memory_inv_frame [OF claim_eligible_memory])
qed (use mem in \<open>auto intro!: memory_inv_frame [OF _ mem] simp: memory_frame_def
    complete_chat_attachment_file_deletion_def retry_chat_attachment_file_deletion_def
    enqueue_reconciled_chat_attachment_file_deletion_def\<close>)

lemma capture_candidates_inv:
  assumes "capture_candidates now c message cands db = Inr db'" and "memory_inv db"
    and "\<exists>m\<in>set (messages db). msg_id m = message \<and> msg_chat m = chat_id c"
  shows "memory_inv db'"
  using assms
proof (induction now c message cands db rule: capture_candidates.induct)
  case (2 now c message ids cand rest db)
  then obtain db1 where db1: "capture_candidate now c message ids cand db = Inr db1"
    and rest: "capture_candidates now c message rest db1 = Inr db'"
    by (auto split: sum.splits)
  have "messages db1 = messages db" using same_chats_candidate [OF db1] by (simp add: same_chats_def)
  with "2.IH" [OF db1 rest capture_candidate_inv [OF db1 "2.prems"(2,3)]] "2.prems"(3) show ?case by simp
qed simp

lemma memory_inv_reset:
  assumes "memory_inv db"
  shows "memory_inv (snd (reset_learned_context owner db))"
proof -
  let ?db = "snd (reset_learned_context owner db)"
  have mem: "memories ?db = filter (\<lambda>m. \<not> owns_memory owner m) (memories db)"
    by (simp add: reset_learned_context_def delete_memories_def Let_def)
  have src: "sources ?db = filter (\<lambda>s. src_memory s \<notin> mem_id ` set (filter (owns_memory owner) (memories db))) (sources db)"
    by (simp add: reset_learned_context_def delete_memories_def Let_def)
  have msg: "messages ?db = messages db" by (simp add: reset_learned_context_def delete_memories_frame)
  have ids: "distinct (map mem_id (memories db))" using assms by (simp add: memory_inv_def)
  show ?thesis
    unfolding memory_inv_def
  proof (intro conjI ballI)
    show "distinct (map mem_id (memories ?db))" by (simp add: mem distinct_map_filter ids)
    fix s assume "s \<in> set (sources ?db)"
    then have s: "s \<in> set (sources db)" "src_memory s \<notin> mem_id ` set (filter (owns_memory owner) (memories db))"
      by (simp_all add: src)
    from s(1) assms have ok: "source_ok db s" by (simp add: memory_inv_def)
    then obtain m where "m \<in> set (memories db)" "src_memory s = mem_id m" by (auto simp: source_ok_def)
    with s(2) have "m \<in> set (memories ?db)" by (auto simp: mem)
    from imageI [OF this, of mem_id] have "src_memory s \<in> mem_id ` set (memories ?db)"
      unfolding \<open>src_memory s = mem_id m\<close> .
    with ok show "source_ok ?db s" by (simp add: source_ok_def msg)
  next
    fix m assume "m \<in> set (memories ?db)"
    then have m: "m \<in> set (memories db)" "\<not> owns_memory owner m" by (simp_all add: mem)
    have "mem_id m \<notin> mem_id ` set (filter (owns_memory owner) (memories db))"
      using m ids by (auto simp: distinct_map dest: inj_onD)
    moreover have "filter (\<lambda>s. src_memory s = k) (filter (\<lambda>s. src_memory s \<notin> G) ss)
        = filter (\<lambda>s. src_memory s = k) ss" if "k \<notin> G" for k G ss
      using that by (induction ss) auto
    ultimately have "mine (mem_id m) ?db = mine (mem_id m) db" unfolding mine_def src by blast
    with m(1) assms show "evident ?db m" by (simp add: memory_inv_def evident_def)
  qed
qed

lemma memory_inv_jobs: "memory_inv (update_job i f db) = memory_inv db"
  by (simp add: memory_inv_def evident_def mine_def source_ok_def update_job_def)

lemma store_event_memory_inv:
  assumes ok: "chat_ok accounts limits max_bytes db" and mem: "memory_inv db"
  shows "memory_inv (apply_store_event limits max_bytes e db)"
proof (cases e)
  case (ChatEvent x)
  with ok mem chat_event_memory_inv show ?thesis by (auto simp: chat_ok_def)
next
  case (ClaimJob now)
  with claim_job_db [of now db] mem show ?thesis by (auto simp: memory_inv_jobs)
next
  case (FailJob now i code)
  with fail_job_db [of now i code db] mem show ?thesis by (auto simp: memory_inv_jobs)
next
  case (ApplyCapture now i cands)
  from apply_capture_db [of now i cands db] show ?thesis
  proof (elim disjE exE conjE)
    fix j c db1 assume row: "job_chat_row i db = Some (j, c)"
      and cap: "capture_candidates now c (job_user_message j) cands db = Inr db1"
      and eq: "snd (apply_memory_capture now i cands db) = update_job i completed_job db1"
    have "memory_inv db1"
      by (rule capture_candidates_inv [OF cap mem]) (use job_chat_row_Some(6) [OF row] in blast)
    with eq ApplyCapture show ?thesis by (simp add: memory_inv_jobs)
  qed (use ApplyCapture mem in simp)
next
  case (ResetContext owner)
  with mem show ?thesis by (simp add: memory_inv_reset)
next
  case (ClaimFollowUp i owner claim)
  from follow_up_db [of i owner claim db] obtain rows where
    "snd (claim_memory_follow_up i owner claim db) = db\<lparr>follow_ups := rows\<rparr>" ..
  moreover have "memory_inv (db\<lparr>follow_ups := rows\<rparr>)"
    using mem by (rule memory_inv_frame [rotated]) (simp add: memory_frame_def)
  ultimately show ?thesis using ClaimFollowUp by simp
qed

lemma store_reachable_ok:
  assumes "store_reachable accounts limits max_bytes session_ids db" and "0 \<le> max_bytes"
  shows "chat_ok accounts limits max_bytes db \<and> memory_inv db"
  using assms(1)
proof induction
  case store_start
  have "memory_inv (empty_chat_db session_ids)" by (simp add: memory_inv_def empty_chat_db_def)
  with assms(2) show ?case by (simp add: chat_ok_empty)
next
  case (store_step db e)
  with store_event_chat_ok store_event_memory_inv show ?case by blast
qed

section \<open>The queue of extraction jobs\<close>

definition job_ok :: "job_row \<Rightarrow> bool" where
  "job_ok j \<longleftrightarrow>
     job_max_attempts j = 3 \<and> job_attempts j \<le> 3
     \<and> (job_status j = JobPending \<longrightarrow> job_attempts j = 0)
     \<and> (job_status j = JobRetry \<longrightarrow> 1 \<le> job_attempts j \<and> job_attempts j \<le> 2)
     \<and> (job_status j = JobProcessing \<longrightarrow> 1 \<le> job_attempts j)
     \<and> (job_status j = JobDead \<longrightarrow> job_attempts j = 3)
     \<and> (job_status j = JobProcessing \<longleftrightarrow> job_locked j \<noteq> None)"

definition jobs_inv :: "chat_db \<Rightarrow> bool" where
  "jobs_inv db \<longleftrightarrow> distinct (map job_id (jobs db)) \<and> (\<forall>j\<in>set (jobs db). job_ok j)"

lemma jobs_inv_filter: "jobs_inv db \<Longrightarrow> jobs db' = filter P (jobs db) \<Longrightarrow> jobs_inv db'"
  by (auto simp: jobs_inv_def distinct_map_filter)

lemma jobs_inv_cong: "jobs db' = jobs db \<Longrightarrow> jobs_inv db' = jobs_inv db"
  by (simp add: jobs_inv_def)

lemma jobs_inv_update:
  assumes inv: "jobs_inv db" and keep: "\<And>j. job_id (f j) = job_id j"
    and ok: "\<And>j. j \<in> set (jobs db) \<Longrightarrow> job_id j = i \<Longrightarrow> job_ok j \<Longrightarrow> job_ok (f j)"
  shows "jobs_inv (update_job i f db)"
proof -
  have "map job_id (jobs (update_job i f db)) = map job_id (jobs db)"
    by (simp add: update_job_def keep)
  moreover have "job_ok j" if "j \<in> set (jobs (update_job i f db))" for j
    using that inv ok by (auto simp: update_job_def jobs_inv_def)
  ultimately show ?thesis using inv by (simp add: jobs_inv_def)
qed

lemma same_job: "jobs_inv db \<Longrightarrow> j \<in> set (jobs db) \<Longrightarrow> k \<in> set (jobs db) \<Longrightarrow> job_id j = job_id k \<Longrightarrow> j = k"
  by (auto simp: jobs_inv_def distinct_map dest: inj_onD)

lemma jobs_candidate: "capture_candidate now c message ids cand db = Inr db' \<Longrightarrow> jobs db' = jobs db"
  by (auto simp: capture_candidate_def update_memory_def insert_memory_def store_source_def put_source_def Let_def
      map_sum_Inr recalculate_evidence_def split: option.splits sum.splits if_splits)

lemma jobs_candidates: "capture_candidates now c message cands db = Inr db' \<Longrightarrow> jobs db' = jobs db"
proof (induction now c message cands db rule: capture_candidates.induct)
  case (2 now c message ids cand rest db)
  then obtain db1 where "capture_candidate now c message ids cand db = Inr db1"
    and "capture_candidates now c message rest db1 = Inr db'" by (auto split: sum.splits)
  with "2.IH" jobs_candidate show ?case by metis
qed simp

lemma jobs_cleanup: "jobs (cleanup_after_source_removal now ids db) = jobs db"
  by (simp add: cleanup_after_source_removal_def recalculate_evidence_def delete_memories_def Let_def)

lemma jobs_delete_messages: "\<exists>P. jobs (delete_messages now Q db) = filter P (jobs db)"
  by (auto simp: delete_messages_def Let_def)

lemma jobs_delete_chats: "\<exists>P. jobs (delete_chats now Q db) = filter P (jobs db)"
proof -
  obtain P where "jobs (delete_messages now (\<lambda>m. msg_chat m \<in> chat_id ` set (filter Q (chats db))) db) = filter P (jobs db)"
    using jobs_delete_messages by blast
  then show ?thesis by (auto simp: delete_chats_def Let_def simp del: set_filter)
qed

lemma jobs_append:
  assumes app: "append_writes now job owner c u a ids zone db = Inr (Some db')" and inv: "jobs_inv db"
  shows "jobs_inv db'"
proof -
  obtain db1 db2 db3 where w: "insert_turn (chat_id c) u a db = Inr db1"
    "enqueue_memory_job (int now) job c (sm_id u) (sm_id a) zone db1 = Inr db2"
    "db3 = db2 \<or> db3 = snd (link_attachments owner (chat_id c) (sm_id u) ids db2)"
    "db' = touch_chat (int now) (chat_id c) db3"
    by (rule append_writes_Inr [OF app])
  obtain ru ra db0 where t: "insert_message ru db = Inr db0" "insert_message ra db0 = Inr db1"
    by (rule insert_turn_Inr [OF w(1)])
  have "jobs db1 = jobs db" by (simp add: insert_message_Inr(1) [OF t(1)] insert_message_Inr(1) [OF t(2)])
  then have "jobs_inv db1" using inv by (simp add: jobs_inv_def)
  then have "jobs_inv db2"
    using w(2) by (auto simp: enqueue_memory_job_def jobs_inv_def job_ok_def split: if_splits)
  moreover have "jobs db' = jobs db2" using w(3) by (auto simp: w(4) touch_chat_def link_attachments_def)
  ultimately show ?thesis by (simp add: jobs_inv_def)
qed

lemma jobs_create:
  assumes "create_chat_transaction new owner character profile follow_up limits db = Inr (Inr db')"
  shows "jobs db' = jobs db"
  using assms
proof (cases rule: create_chat_transaction_Inr)
  case (1 t db1)
  have one: "jobs db1 = jobs db" by (simp add: insert_chat_Inr(1) [OF 1(1)])
  from 1(3) show ?thesis
  proof (elim disjE exE conjE)
    fix i assume "attach_follow_up owner character (nc_chat new) (nc_message new) i limits db1 = Inr (Inr db')"
    then show ?thesis
    proof (cases rule: attach_follow_up_Inr)
      case (1 m db2)
      show ?thesis by (simp add: 1(2) link_follow_up_def insert_message_Inr(1) [OF 1(1)] one)
    qed
  qed (use one in simp)
qed

lemma chat_event_jobs:
  assumes inv: "jobs_inv db"
  shows "jobs_inv (apply_chat_event limits max_bytes e db)"
proof (cases e)
  case (CreateChat new owner character profile follow_up)
  with inv show ?thesis by (auto simp: create_chat_db jobs_inv_cong [OF jobs_create] split: sum.splits)
next
  case (AppendTurn now job owner i u a ids zone reservation q)
  with append_db [of now job owner i u a ids zone limits reservation db q] inv show ?thesis
    by (auto dest: jobs_append)
next
  case (ClearChat now owner i)
  obtain P where P: "jobs (delete_messages now (\<lambda>m. msg_chat m = i) db) = filter P (jobs db)"
    using jobs_delete_messages by blast
  have "jobs_inv (touch_chat now i (cleanup_after_source_removal now ids (delete_messages now (\<lambda>m. msg_chat m = i) db)))"
    for ids
    by (rule jobs_inv_filter [OF inv, of _ P]) (simp add: touch_chat_def jobs_cleanup P)
  with ClearChat clear_db [of now owner i db] inv show ?thesis by auto
next
  case (DeleteChat now owner i)
  obtain P where P: "jobs (delete_chats now (\<lambda>c. chat_id c = i \<and> owns_chat owner c) db) = filter P (jobs db)"
    using jobs_delete_chats by blast
  have "jobs_inv (cleanup_after_source_removal now ids (delete_chats now (\<lambda>c. chat_id c = i \<and> owns_chat owner c) db))"
    for ids
    by (rule jobs_inv_filter [OF inv, of _ P]) (simp add: jobs_cleanup P)
  with DeleteChat delete_chat_db [of now owner i db] inv show ?thesis by auto
next
  case (UploadAttachment now owner n)
  have "jobs (snd (create_chat_attachment_with_storage_quota now owner n max_bytes db)) = jobs db"
    by (auto simp: create_chat_attachment_with_storage_quota_def insert_chat_attachment_def Let_def)
  with UploadAttachment inv show ?thesis by (simp add: jobs_inv_def)
next
  case (DeleteStale now kind before n)
  have "jobs (snd (delete_stale_pending_chat_attachments now kind before n db)) = jobs db"
    using delete_stale_db [of now kind before n db] by auto
  with DeleteStale inv show ?thesis by (simp add: jobs_inv_def)
qed (use inv in \<open>simp_all add: jobs_inv_def delete_pending_chat_attachment_def Let_def claim_eligible_def
    claim_chat_attachment_file_deletions_def claim_chat_attachment_file_deletions_for_keys_def
    complete_chat_attachment_file_deletion_def retry_chat_attachment_file_deletion_def
    enqueue_reconciled_chat_attachment_file_deletion_def\<close>)

lemma store_event_jobs:
  assumes inv: "jobs_inv db"
  shows "jobs_inv (apply_store_event limits max_bytes e db)"
proof (cases e)
  case (ChatEvent x)
  with inv chat_event_jobs show ?thesis by simp
next
  case (ClaimJob now)
  have "jobs_inv (update_job (job_id j) (claimed_job now) db)" if j: "j \<in> set (jobs db)" "claimable_job now None j" for j
  proof (rule jobs_inv_update [OF inv])
    fix k assume "k \<in> set (jobs db)" "job_id k = job_id j" "job_ok k"
    with same_job [OF inv _ j(1)] have "k = j" by blast
    with \<open>job_ok k\<close> j(2) show "job_ok (claimed_job now k)"
      by (auto simp: job_ok_def claimable_job_def claimed_job_def)
  qed (simp add: claimed_job_def)
  with ClaimJob claim_job_db [of now db] inv show ?thesis by auto
next
  case (FailJob now i code)
  have "jobs_inv (update_job i (failed_job now code) db)"
    if j: "j \<in> set (jobs db)" "job_id j = i" "job_status j = JobProcessing" for j
  proof (rule jobs_inv_update [OF inv])
    fix k assume "k \<in> set (jobs db)" "job_id k = i" "job_ok k"
    with same_job [OF inv _ j(1)] j(2) have "k = j" by blast
    with \<open>job_ok k\<close> j(3) show "job_ok (failed_job now code k)"
      by (auto simp: job_ok_def failed_job_def Let_def)
  qed (simp add: failed_job_def Let_def)
  with FailJob fail_job_db [of now i code db] inv show ?thesis by auto
next
  case (ApplyCapture now i cands)
  have "jobs_inv (update_job i completed_job db1)" if "jobs db1 = jobs db" for db1
    by (rule jobs_inv_update) (use inv that in \<open>auto simp: jobs_inv_def completed_job_def job_ok_def\<close>)
  with ApplyCapture apply_capture_db [of now i cands db] inv show ?thesis by (auto dest: jobs_candidates)
next
  case (ResetContext owner)
  show ?thesis
    by (rule jobs_inv_filter [OF inv, of _ "\<lambda>j. \<not> owns_row owner (job_session j) (job_user j)"])
      (simp add: ResetContext reset_learned_context_def delete_memories_def Let_def)
next
  case (ClaimFollowUp i owner claim)
  with follow_up_db [of i owner claim db] inv show ?thesis by (auto simp: jobs_inv_def)
qed

lemma store_reachable_jobs:
  assumes "store_reachable accounts limits max_bytes session_ids db"
  shows "jobs_inv db"
  using assms
proof induction
  case store_start
  show ?case by (simp add: jobs_inv_def empty_chat_db_def)
next
  case (store_step db e)
  with store_event_jobs show ?case by blast
qed

section \<open>Where the jobs of a step come from\<close>

fun new_job_of :: "chat_event \<Rightarrow> uuid option" where
  "new_job_of (AppendTurn now job owner i u a ids zone reservation q) = Some job"
| "new_job_of e = None"

lemma append_job_rows:
  assumes app: "append_writes now job owner c u a ids zone db = Inr (Some db')" and k: "k \<in> set (jobs db')"
  shows "k \<in> set (jobs db) \<or> job_id k = job"
proof -
  obtain db1 db2 db3 where w: "insert_turn (chat_id c) u a db = Inr db1"
    "enqueue_memory_job (int now) job c (sm_id u) (sm_id a) zone db1 = Inr db2"
    "db3 = db2 \<or> db3 = snd (link_attachments owner (chat_id c) (sm_id u) ids db2)"
    "db' = touch_chat (int now) (chat_id c) db3"
    by (rule append_writes_Inr [OF app])
  obtain ru ra db0 where t: "insert_message ru db = Inr db0" "insert_message ra db0 = Inr db1"
    by (rule insert_turn_Inr [OF w(1)])
  have "jobs db1 = jobs db" by (simp add: insert_message_Inr(1) [OF t(1)] insert_message_Inr(1) [OF t(2)])
  moreover have "jobs db' = jobs db2" using w(3) by (auto simp: w(4) touch_chat_def link_attachments_def)
  ultimately show ?thesis using w(2) k by (auto simp: enqueue_memory_job_def split: if_splits)
qed

lemma chat_event_job_rows:
  assumes k: "k \<in> set (jobs (apply_chat_event limits max_bytes e db))"
  shows "k \<in> set (jobs db) \<or> new_job_of e = Some (job_id k)"
proof (cases e)
  case (CreateChat new owner character profile follow_up)
  with k show ?thesis by (auto simp: create_chat_db jobs_create split: sum.splits)
next
  case (AppendTurn now job owner i u a ids zone reservation q)
  with append_db [of now job owner i u a ids zone limits reservation db q] k show ?thesis
    by (auto dest: append_job_rows)
next
  case (ClearChat now owner i)
  obtain P where P: "jobs (delete_messages now (\<lambda>m. msg_chat m = i) db) = filter P (jobs db)"
    using jobs_delete_messages by blast
  with ClearChat clear_db [of now owner i db] k show ?thesis by (auto simp: touch_chat_def jobs_cleanup)
next
  case (DeleteChat now owner i)
  obtain P where P: "jobs (delete_chats now (\<lambda>c. chat_id c = i \<and> owns_chat owner c) db) = filter P (jobs db)"
    using jobs_delete_chats by blast
  with DeleteChat delete_chat_db [of now owner i db] k show ?thesis by (auto simp: jobs_cleanup)
next
  case (UploadAttachment now owner n)
  have "jobs (snd (create_chat_attachment_with_storage_quota now owner n max_bytes db)) = jobs db"
    by (auto simp: create_chat_attachment_with_storage_quota_def insert_chat_attachment_def Let_def)
  with UploadAttachment k show ?thesis by simp
next
  case (DeleteStale now kind before n)
  have "jobs (snd (delete_stale_pending_chat_attachments now kind before n db)) = jobs db"
    using delete_stale_db [of now kind before n db] by auto
  with DeleteStale k show ?thesis by simp
qed (use k in \<open>simp_all add: delete_pending_chat_attachment_def Let_def claim_eligible_def
    claim_chat_attachment_file_deletions_def claim_chat_attachment_file_deletions_for_keys_def
    complete_chat_attachment_file_deletion_def retry_chat_attachment_file_deletion_def
    enqueue_reconciled_chat_attachment_file_deletion_def split: if_splits\<close>)

text \<open>An event that settles a job, or that creates one under its id.\<close>

fun settles :: "uuid \<Rightarrow> store_event \<Rightarrow> bool" where
  "settles i (FailJob now k code) \<longleftrightarrow> k = i"
| "settles i (ApplyCapture now k cands) \<longleftrightarrow> k = i"
| "settles i (ChatEvent e) \<longleftrightarrow> new_job_of e = Some i"
| "settles i e \<longleftrightarrow> False"

lemma spent_job_step:
  assumes inv: "jobs_inv db" and only: "\<And>k. k \<in> set (jobs db) \<Longrightarrow> job_id k = job_id j \<Longrightarrow> k = j"
    and spent: "job_max_attempts j \<le> job_attempts j" and other: "\<not> settles (job_id j) e"
    and k: "k \<in> set (jobs (apply_store_event limits max_bytes e db))" "job_id k = job_id j"
  shows "k = j"
proof -
  have update: "k = j" if "k \<in> set (jobs (update_job i f db1))" "i \<noteq> job_id j" "\<And>x. job_id (f x) = job_id x"
    "jobs db1 = jobs db" for i f db1
    using that only k(2) by (auto simp: update_job_def split: if_splits)
  show ?thesis
  proof (cases e)
    case (ChatEvent x)
    with chat_event_job_rows [of k limits max_bytes x db] k other only show ?thesis by auto
  next
    case (ClaimJob now)
    from claim_job_db [of now db] show ?thesis
    proof (elim disjE bexE conjE)
      fix x assume x: "x \<in> set (jobs db)" "claimable_job now None x"
        and eq: "snd (claim_memory_extraction_job now db) = update_job (job_id x) (claimed_job now) db"
      have "job_id x \<noteq> job_id j" using only [OF x(1)] x(2) spent by (auto simp: claimable_job_def)
      with k(1) eq ClaimJob show ?thesis by (intro update [of "job_id x" "claimed_job now" db]) (simp_all add: claimed_job_def)
    qed (use k only ClaimJob in simp)
  next
    case (FailJob now i code)
    with fail_job_db [of now i code db] k only other show ?thesis
      by (auto intro: update [of i "failed_job now code" db] simp: failed_job_def Let_def)
  next
    case (ApplyCapture now i cands)
    with apply_capture_db [of now i cands db] k only other show ?thesis
      by (auto intro: update [of i completed_job] simp: completed_job_def dest: jobs_candidates)
  next
    case (ResetContext owner)
    with k only show ?thesis by (simp add: reset_learned_context_def delete_memories_def Let_def)
  next
    case (ClaimFollowUp i owner claim)
    with follow_up_db [of i owner claim db] k only show ?thesis by auto
  qed
qed

end
