(* ===== verification/Memory_Props.thy ===== *)
theory Memory_Props
  imports Memory_Machine Chat_Store_Props
begin

text \<open>
  The properties of the memory store: evidence, the three attempts of an extraction job, and the job that
  no worker can finish.
\<close>

section \<open>Evidence\<close>

text \<open>
  C10: In every state the store can reach, every learned memory has a source, its confidence is the one its
  sources give and at most 0.99, and every source names a message that still exists in the chat it names.
\<close>

theorem memory_evidence_current:
  assumes "store_reachable accounts limits max_bytes session_ids db" and "0 \<le> max_bytes"
    and "m \<in> set (memories db)"
  shows "let own = filter (\<lambda>s. src_memory s = mem_id m) (sources db)
    in own \<noteq> [] \<and> mem_confidence m = evidence_confidence (map src_strength own)
       \<and> mem_confidence m \<le> f64_round (99 / 100)
       \<and> list_all (\<lambda>s. list_ex (\<lambda>r. src_message s = Some (msg_id r) \<and> msg_chat r = src_chat s) (messages db)) own"
proof -
  have inv: "memory_inv db" using store_reachable_ok [OF assms(1,2)] by simp
  then have "evident db m" using assms(3) by (simp add: memory_inv_def)
  moreover have "list_all (\<lambda>s. list_ex (\<lambda>r. src_message s = Some (msg_id r) \<and> msg_chat r = src_chat s) (messages db))
      (mine (mem_id m) db)"
    using inv by (auto simp: list_all_iff list_ex_iff mine_def memory_inv_def source_ok_def)
  ultimately show ?thesis
    by (simp add: evident_def mine_def Let_def) (simp add: evidence_confidence_def)
qed

definition w_candidate :: captured_memory where
  "w_candidate = \<lparr>cap_key = ascii ''likes.tea'', cap_kind = ascii ''preference'', cap_content = ascii ''tea'',
     cap_tags = [], cap_importance = Fin (1 / 2), cap_strength = Fin (3 / 4), cap_expires = None,
     cap_replaces = False\<rparr>"

definition w_claimed :: chat_db where
  "w_claimed = apply_store_event w_limits 100 (ClaimJob 10) w_turn_db"

definition w_captured :: chat_db where
  "w_captured = apply_store_event w_limits 100 (ApplyCapture 12 40 [((50, 51), w_candidate)]) w_claimed"

lemma chat_reachable_store:
  "chat_reachable accounts limits max_bytes session_ids db \<Longrightarrow> store_reachable accounts limits max_bytes session_ids db"
proof (induction rule: chat_reachable.induct)
  case chat_start
  show ?case by (rule store_start)
next
  case (chat_step db e)
  from store_step [OF chat_step.IH, of "ChatEvent e"] chat_step.hyps show ?case by simp
qed

lemma w_claimed_reachable: "store_reachable w_accounts w_limits 100 {1, 2} w_claimed"
  unfolding w_claimed_def by (rule store_step [OF chat_reachable_store [OF w_turn_reachable]]) simp

lemma w_captured_reachable: "store_reachable w_accounts w_limits 100 {1, 2} w_captured"
  unfolding w_captured_def by (rule store_step [OF w_claimed_reachable]) simp

definition w_job :: job_row where
  "w_job = \<lparr>job_id = 40, job_chat = 10, job_user_message = 20, job_assistant_message = 21, job_session = 1,
     job_user = None, job_character = [97], job_status = JobPending, job_attempts = 0, job_max_attempts = 3,
     job_available = 9, job_locked = None, job_error = None, job_timezone = ascii ''UTC'', job_created = 9\<rparr>"

lemma w_turn_tables:
  "jobs w_turn_db = [w_job]" "memories w_turn_db = []" "sources w_turn_db = []"
  "chats w_turn_db = [\<lparr>chat_id = 10, chat_session = 1, chat_user = None, chat_character = [97],
     chat_profile = [98], chat_created = 5000000, chat_updated = 9\<rparr>]"
  "messages w_turn_db = [\<lparr>msg_id = 20, msg_chat = 10, msg_role = ''user'', msg_content = [104, 105], msg_created = 6000000\<rparr>,
     \<lparr>msg_id = 21, msg_chat = 10, msg_role = ''assistant'', msg_content = [111, 107], msg_created = 7000000\<rparr>]"
  "follow_ups w_turn_db = []" "db_sessions w_turn_db = {1, 2}"
  by (simp_all add: w_turn_db_def w_turn_def append_chat_messages_limited_with_quota_def w_uploaded_eq w_created_eq
      w_guest_def owns_chat_def owns_row_def append_over_limit_def exceeds_def usize_limit_def w_limits_def
      chat_messages_of_def stored_chars_def w_empty_def empty_chat_db_def w_user_message_def
      w_assistant_message_def append_writes_def insert_turn_def row_of_message_def timestamp_of_seconds_def
      to_timestamp_def as_i64_def insert_message_def enqueue_memory_job_def w_zone btrim_blank_def
      link_attachments_def linkable_def w_attachment_def commit_quota_def touch_chat_def w_job_def role_to_db_def)

lemma claimable_w_job: "claimable_job 10 None w_job"
  by (simp add: claimable_job_def w_job_def)

lemma w_claimed_eq: "w_claimed = w_turn_db\<lparr>jobs := [claimed_job 10 w_job]\<rparr>"
  by (simp add: w_claimed_def claim_memory_extraction_job_def claim_memory_extraction_job_for_message_def
      w_turn_tables claimable_w_job update_job_def)

lemma w_captured_memories: "map mem_key (memories w_captured) = [ascii ''likes.tea'']"
  by (simp add: w_captured_def w_claimed_eq apply_memory_capture_def job_chat_row_def w_turn_tables
      claimed_job_def w_job_def capture_candidate_def insert_memory_def optional_timestamp_def unit_value_def
      w_candidate_def memory_checks_def btrim_blank_def ascii_def store_source_def put_source_def Let_def
      recalculate_evidence_def update_job_def)

theorem memory_evidence_current_witness:
  "\<exists>m\<in>set (memories w_captured). let own = filter (\<lambda>s. src_memory s = mem_id m) (sources w_captured)
     in own \<noteq> [] \<and> mem_confidence m = evidence_confidence (map src_strength own)"
proof -
  obtain m where m: "m \<in> set (memories w_captured)"
    using w_captured_memories by (cases "memories w_captured") auto
  from memory_evidence_current [OF w_captured_reachable _ m] have
    "let own = filter (\<lambda>s. src_memory s = mem_id m) (sources w_captured)
     in own \<noteq> [] \<and> mem_confidence m = evidence_confidence (map src_strength own)"
    by (simp add: Let_def)
  with m show ?thesis ..
qed

section \<open>Attempts\<close>

text \<open>
  C11: An extraction job is attempted at most three times; a failure that is reported schedules the job
  again within a minute unless it was the third, which marks it dead.
\<close>

theorem memory_job_failure:
  assumes "store_reachable accounts limits max_bytes session_ids db"
    and j: "j \<in> set (jobs db)" "job_status j = JobProcessing" and code: "\<not> btrim_blank code"
    and run: "fail_memory_extraction_job now (job_id j) code db = (answer, db')"
  shows "job_attempts j \<le> 3
    \<and> (if job_attempts j = 3 then answer = Inr (Some JobDead)
       else answer = Inr (Some JobRetry)
         \<and> (\<exists>k\<in>set (jobs db'). job_id k = job_id j \<and> job_status k = JobRetry \<and> job_locked k = None
              \<and> now < job_available k \<and> job_available k \<le> now + 60 * 1000000))"
proof -
  have inv: "jobs_inv db" by (rule store_reachable_jobs [OF assms(1)])
  then have ok: "job_ok j" using j by (simp add: jobs_inv_def)
  obtain k where k: "find (\<lambda>x. job_id x = job_id j \<and> job_status x = JobProcessing) (jobs db) = Some k"
    using j by (cases "find (\<lambda>x. job_id x = job_id j \<and> job_status x = JobProcessing) (jobs db)")
      (auto simp: find_None_iff)
  then have "k = j" using same_job [OF inv _ j(1)] find_SomeD [OF k] by blast
  with run k code have run': "answer = Inr (Some (job_status (failed_job now code j)))"
    "db' = update_job (job_id j) (failed_job now code) db"
    by (simp_all add: fail_memory_extraction_job_def)
  let ?k = "failed_job now code j"
  have row: "?k \<in> set (jobs db')" using j(1) by (force simp: run' update_job_def)
  have three: "job_max_attempts j = 3" "job_attempts j \<le> 3" "1 \<le> job_attempts j"
    using ok j(2) by (simp_all add: job_ok_def)
  show ?thesis
  proof (cases "job_attempts j = 3")
    case True
    then show ?thesis by (simp add: run'(1) failed_job_def Let_def three)
  next
    case False
    with three have "\<not> job_max_attempts j \<le> job_attempts j" by simp
    then have fields: "job_id ?k = job_id j" "job_status ?k = JobRetry" "job_locked ?k = None"
      "job_available ?k = now + int (min 60 (2 ^ job_attempts j)) * 1000000"
      by (simp_all add: failed_job_def Let_def)
    have "1 \<le> min 60 ((2::nat) ^ job_attempts j)" "min 60 ((2::nat) ^ job_attempts j) \<le> 60" by simp_all
    then have "now < job_available ?k" "job_available ?k \<le> now + 60 * 1000000"
      unfolding fields(4) by linarith+
    with False three fields row show ?thesis by (auto simp: run'(1))
  qed
qed

theorem memory_job_failure_witness:
  "\<exists>db'. fail_memory_extraction_job 11 40 [120] w_claimed = (Inr (Some JobRetry), db')"
proof -
  obtain answer db' where run: "fail_memory_extraction_job 11 (job_id (claimed_job 10 w_job)) [120] w_claimed = (answer, db')"
    by (metis surj_pair)
  have "claimed_job 10 w_job \<in> set (jobs w_claimed)" by (simp add: w_claimed_eq)
  from memory_job_failure [OF w_claimed_reachable this _ _ run] run show ?thesis
    by (simp add: claimed_job_def w_job_def btrim_blank_def)
qed

section \<open>A job that is abandoned on its third attempt\<close>

text \<open>
  C12: When the worker stops, or the storing of the capture fails, during the third attempt of a job, the job
  is processing for ever: whatever happens, except that this attempt still reports its own end or that the
  job is deleted with its chat, no worker claims it again and it never becomes dead.
\<close>

theorem memory_job_abandoned:
  assumes "store_reachable accounts limits max_bytes session_ids db"
    and j: "j \<in> set (jobs db)" "job_status j = JobProcessing" "job_attempts j = 3"
    and others: "\<forall>e\<in>set es. \<not> settles (job_id j) e"
    and k: "k \<in> set (jobs (foldl (\<lambda>db e. apply_store_event limits max_bytes e db) db es))" "job_id k = job_id j"
  shows "job_status k = JobProcessing \<and> \<not> claimable_job now None k"
proof -
  have inv: "jobs_inv db" by (rule store_reachable_jobs [OF assms(1)])
  then have max: "job_max_attempts j = 3" using j(1) by (simp add: jobs_inv_def job_ok_def)
  have only: "x = j" if "x \<in> set (jobs db)" "job_id x = job_id j" for x
    using same_job [OF inv that(1) j(1) that(2)] .
  have "k = j"
    using inv only others k
  proof (induction es arbitrary: db)
    case (Cons e es)
    have step: "x = j" if "x \<in> set (jobs (apply_store_event limits max_bytes e db))" "job_id x = job_id j" for x
      by (rule spent_job_step [OF Cons.prems(1,2) _ _ that]) (use j(3) max Cons.prems(3) in simp_all)
    show ?case
      by (rule Cons.IH [OF store_event_jobs [OF Cons.prems(1)] step]) (use Cons.prems in simp_all)
  qed simp
  with j max show ?thesis by (simp add: claimable_job_def)
qed

definition w_third :: chat_db where
  "w_third = apply_store_event w_limits 100 (ClaimJob 900000000)
     (apply_store_event w_limits 100 (ClaimJob 400000000) w_claimed)"

lemma w_third_reachable: "store_reachable w_accounts w_limits 100 {1, 2} w_third"
  unfolding w_third_def by (rule store_step [OF store_step [OF w_claimed_reachable]]) simp_all

lemma w_third_jobs: "jobs w_third = [claimed_job 900000000 (claimed_job 400000000 (claimed_job 10 w_job))]"
  by (simp add: w_third_def claim_memory_extraction_job_def claim_memory_extraction_job_for_message_def
      w_claimed_eq update_job_def claimable_job_def claimed_job_def w_job_def job_lease_def)

theorem memory_job_abandoned_witness:
  "map job_status (jobs (foldl (\<lambda>db e. apply_store_event w_limits 100 e db) w_third
      [ClaimJob 2000000000, ClaimJob 90000000000])) = [JobProcessing]"
proof -
  let ?j = "claimed_job 900000000 (claimed_job 400000000 (claimed_job 10 w_job))"
  let ?db = "foldl (\<lambda>db e. apply_store_event w_limits 100 e db) w_third [ClaimJob 2000000000, ClaimJob 90000000000]"
  obtain k where k: "jobs ?db = [k]" "job_id k = job_id ?j"
    by (simp add: claim_memory_extraction_job_def claim_memory_extraction_job_for_message_def w_third_jobs
        claimable_job_def claimed_job_def w_job_def)
  from memory_job_abandoned [OF w_third_reachable, where j = ?j and es = "[ClaimJob 2000000000, ClaimJob 90000000000]" and k = k]
  have "job_status k = JobProcessing" using k by (simp add: w_third_jobs claimed_job_def w_job_def)
  with k show ?thesis by simp
qed

end
