(* ===== verification/Memory_Select.thy ===== *)
theory Memory_Select
  imports Memory_Text Memory_Db
begin

text \<open>
  The retrieval of memories for a message and the choice of a follow-up, \<open>memory.rs\<close>. The arithmetic of the
  score is that of \<open>f32\<close>; \<open>json_line\<close>, the text \<open>serde_json\<close> prints for one item, is an argument.
\<close>

section \<open>Signals of a message\<close>

record topic_signals =
  specific_lexical :: "ustr set"
  canonical_signals :: "ustr set"
  expanded_signals :: "ustr set"
  store_terms :: "ustr list"

definition max_topic_signals :: nat where
  "max_topic_signals = 24"

definition push_unique_signal :: "ustr \<Rightarrow> ustr list \<Rightarrow> ustr list" where
  "push_unique_signal v signals =
     (if length signals < max_topic_signals \<and> v \<notin> set signals then signals @ [v] else signals)"

definition topic_terms :: "ustr set \<Rightarrow> ustr list" where
  "topic_terms canonical =
     concat (map (\<lambda>(name, aliases). if name \<in> canonical then name # aliases else []) canonical_topics)"

definition signals_from_message :: "unicode \<Rightarrow> ustr \<Rightarrow> topic_signals" where
  "signals_from_message uc s =
     (let lexical = lexical_tokens uc s;
          canonical = canonical_topics_for_parts uc [s]
      in \<lparr>specific_lexical = specific_lexical_tokens uc s, canonical_signals = canonical,
          expanded_signals = lexical \<union> canonical,
          store_terms = take max_topic_signals
            (fold push_unique_signal (topic_terms canonical @ sorted_list_of_set lexical) [])\<rparr>)"

section \<open>The score of an item\<close>

definition overlap_ratio :: "ustr set \<Rightarrow> ustr set \<Rightarrow> f32" where
  "overlap_ratio query candidate =
     (if query = {} \<or> candidate = {} then Fin 0
      else f32_div (f32_round (of_nat (card (query \<inter> candidate)))) (f32_round (of_nat (min (card query) 4))))"

definition f32_min :: "f32 \<Rightarrow> f32 \<Rightarrow> f32" where
  "f32_min a b = (if a = NaN then b else if f32_less b a then b else a)"

record scored_memory =
  sc_item :: memory_retrieval_record
  sc_score :: f32
  sc_specific :: bool
  sc_broad :: "ustr set"

definition lit :: "int \<Rightarrow> f32" where
  "lit hundredths = f32_round (of_int hundredths / 100)"

definition relevance ::
  "f32 \<Rightarrow> f32 \<Rightarrow> f32 \<Rightarrow> bool \<Rightarrow> bool \<Rightarrow> bool \<Rightarrow> f32" where
  "relevance key_overlap tag_overlap content_overlap phrase broad specific =
     f32_min
       (f32_add (f32_add (f32_add (f32_add (f32_add
         (f32_mul key_overlap (lit 35)) (f32_mul tag_overlap (lit 45))) (f32_mul content_overlap (lit 25)))
         (if phrase then lit 15 else Fin 0)) (if broad then lit 22 else Fin 0))
         (if specific then lit 12 else Fin 0))
       (Fin 1)"

definition total_score :: "f32 \<Rightarrow> memory_retrieval_record \<Rightarrow> nat \<Rightarrow> f32" where
  "total_score rel item now =
     (let reinforcement = f32_min (f32_div (f32_round (of_nat (mr_sources item))) (Fin 3)) (Fin 1);
          age_days = f32_div (f32_round (of_nat (now - mr_reinforced item))) (Fin 86400);
          recency = f32_div (Fin 1) (f32_add (Fin 1) (f32_div age_days (Fin 90)))
      in f32_add (f32_add (f32_add (f32_add
           (f32_mul rel (lit 55)) (f32_mul (mr_confidence item) (lit 18)))
           (f32_mul (mr_importance item) (lit 12))) (f32_mul reinforcement (lit 8)))
           (f32_mul recency (lit 7)))"

definition score_memory ::
  "unicode \<Rightarrow> memory_retrieval_record \<Rightarrow> topic_signals \<Rightarrow> ustr \<Rightarrow> nat \<Rightarrow> scored_memory option" where
  "score_memory uc item signals message now =
     (let key_tokens = lexical_tokens uc (mr_key item);
          topics = canonical_topics_for_parts uc (mr_key item # mr_content item # mr_tags item);
          tag_tokens = \<Union> (set (map (lexical_tokens uc) (mr_tags item))) \<union> topics;
          content_tokens = lexical_tokens uc (mr_content item);
          broad = canonical_signals signals \<inter> topics;
          specific = specific_lexical signals \<inter> (key_tokens \<union> tag_tokens \<union> content_tokens) \<noteq> {};
          query = normalized uc message; content = normalized uc (mr_content item);
          phrase = 4 \<le> length query \<and> (str_contains query content \<or> str_contains content query);
          rel = relevance (overlap_ratio (expanded_signals signals) key_tokens)
                  (overlap_ratio (expanded_signals signals) tag_tokens)
                  (overlap_ratio (expanded_signals signals) content_tokens) phrase (broad \<noteq> {}) specific
      in if f32_less rel (lit 18) then None
         else Some \<lparr>sc_item = item, sc_score = total_score rel item now, sc_specific = specific, sc_broad = broad\<rparr>)"

definition retrieval_item_is_safe :: "unicode \<Rightarrow> nat \<Rightarrow> memory_retrieval_record \<Rightarrow> bool" where
  "retrieval_item_is_safe uc now item \<longleftrightarrow>
     is_finite (mr_confidence item) \<and> f32_le (lit 65) (mr_confidence item) \<and> f32_le (mr_confidence item) (Fin 1)
     \<and> is_finite (mr_importance item) \<and> f32_le (Fin 0) (mr_importance item) \<and> f32_le (mr_importance item) (Fin 1)
     \<and> (case mr_expires item of None \<Rightarrow> True | Some e \<Rightarrow> now < e)
     \<and> mr_kind item \<in> set memory_kinds \<and> valid_memory_key (mr_key item)
     \<and> trim_by is_whitespace (mr_content item) \<noteq> [] \<and> length (mr_content item) \<le> 240
     \<and> \<not> contains_sensitive_data uc (mr_content item) \<and> \<not> contains_temporary_detail uc (mr_content item)
     \<and> \<not> contains_prompt_injection uc (mr_content item)"

section \<open>The context\<close>

definition memory_max_items :: nat where "memory_max_items = 5"
definition memory_max_context_chars :: nat where "memory_max_context_chars = 1200"
definition memory_max_estimated_tokens :: nat where "memory_max_estimated_tokens = 300"
definition max_broad_only_items :: nat where "max_broad_only_items = 2"

text \<open>\<open>dedup_by\<close> on neighbours: the first of each run of one key stays.\<close>

fun dedup_keys :: "memory_retrieval_record list \<Rightarrow> memory_retrieval_record list" where
  "dedup_keys (a # b # rest) =
     (if mr_key b = mr_key a then dedup_keys (a # rest) else a # dedup_keys (b # rest))"
| "dedup_keys items = items"

definition unique_items :: "unicode \<Rightarrow> nat \<Rightarrow> memory_retrieval_record list \<Rightarrow> memory_retrieval_record list" where
  "unique_items uc now items =
     dedup_keys (sort_key (\<lambda>m. (mr_key m, - int (mr_updated m), - uint (mr_id m)))
       (filter (retrieval_item_is_safe uc now) items))"

text \<open>The scores are finite; \<open>partial_cmp\<close> orders them as their values.\<close>

definition score_value :: "f32 \<Rightarrow> rat" where
  "score_value v = (case v of Fin q \<Rightarrow> q | _ \<Rightarrow> 0)"

definition ranked :: "scored_memory list \<Rightarrow> scored_memory list" where
  "ranked scored =
     sort_key (\<lambda>s. (\<not> sc_specific s, - score_value (sc_score s), - int (mr_updated (sc_item s)),
                    mr_key (sc_item s), mr_id (sc_item s))) scored"

record context_state =
  cx_text :: ustr
  cx_items :: "scored_memory list"
  cx_broad :: nat
  cx_topics :: "ustr set"

definition broad_only :: "scored_memory \<Rightarrow> bool" where
  "broad_only s \<longleftrightarrow> \<not> sc_specific s \<and> sc_broad s \<noteq> {}"

definition context_line :: "(ustr \<Rightarrow> string \<Rightarrow> ustr \<Rightarrow> ustr) \<Rightarrow> memory_retrieval_record \<Rightarrow> ustr" where
  "context_line json_line item =
     json_line (mr_key item) (if f32_le (lit 85) (mr_confidence item) then ''likely'' else ''uncertain'')
       (mr_content item) @ [10]"

definition add_item :: "(ustr \<Rightarrow> string \<Rightarrow> ustr \<Rightarrow> ustr) \<Rightarrow> scored_memory \<Rightarrow> context_state \<Rightarrow> context_state" where
  "add_item json_line s cx =
     (if broad_only s \<and> (max_broad_only_items \<le> cx_broad cx \<or> sc_broad s \<subseteq> cx_topics cx) then cx
      else (let text' = cx_text cx @ context_line json_line (sc_item s)
            in if memory_max_context_chars < length text' \<or> memory_max_estimated_tokens < estimate_tokens text'
               then cx
               else cx\<lparr>cx_text := text', cx_items := cx_items cx @ [s],
                       cx_broad := cx_broad cx + (if broad_only s then 1 else 0),
                       cx_topics := cx_topics cx \<union> (if broad_only s then sc_broad s else {})\<rparr>))"

fun build_context :: "(ustr \<Rightarrow> string \<Rightarrow> ustr \<Rightarrow> ustr) \<Rightarrow> scored_memory list \<Rightarrow> context_state \<Rightarrow> context_state" where
  "build_context json_line [] cx = cx"
| "build_context json_line (s # rest) cx =
     (if memory_max_items \<le> length (cx_items cx) then cx
      else build_context json_line rest (add_item json_line s cx))"

record retrieved_context =
  rc_text :: ustr
  rc_items :: "scored_memory list"
  rc_tokens :: nat

definition select_memory_context_with_signals ::
  "unicode \<Rightarrow> (ustr \<Rightarrow> string \<Rightarrow> ustr \<Rightarrow> ustr) \<Rightarrow> memory_retrieval_record list \<Rightarrow> ustr \<Rightarrow> nat \<Rightarrow> topic_signals
    \<Rightarrow> retrieved_context option" where
  "select_memory_context_with_signals uc json_line items message now signals =
     (if expanded_signals signals = {} then None
      else (let scored = List.map_filter (\<lambda>item. score_memory uc item signals message now)
                  (unique_items uc now items);
                cx = build_context json_line (ranked scored)
                  \<lparr>cx_text = memory_context_header, cx_items = [], cx_broad = 0, cx_topics = {}\<rparr>
            in if cx_items cx = [] then None
               else Some \<lparr>rc_text = cx_text cx, rc_items = cx_items cx, rc_tokens = estimate_tokens (cx_text cx)\<rparr>))"

definition retrieval_candidate_limit :: int where
  "retrieval_candidate_limit = 50"

definition retrieve_memory_context ::
  "unicode \<Rightarrow> (ustr \<Rightarrow> ustr) \<Rightarrow> (ustr \<Rightarrow> string \<Rightarrow> ustr \<Rightarrow> ustr) \<Rightarrow> micros \<Rightarrow> nat \<Rightarrow> owner_scope \<Rightarrow> ustr \<Rightarrow> ustr \<Rightarrow> chat_db
    \<Rightarrow> retrieved_context option" where
  "retrieve_memory_context uc fold_case json_line db_now now owner character message db =
     (let signals = signals_from_message uc message
      in if store_terms signals = [] then None
         else select_memory_context_with_signals uc json_line
           (find_memory_retrieval_candidates db_now fold_case owner character (store_terms signals)
              retrieval_candidate_limit db)
           message now signals)"

section \<open>Follow-ups\<close>

datatype follow_up_empty =
    NoUndeliveredItems | NoPlanOrGoal | LowConfidence | LowImportance | Inactive | UnsafeOrResolved

definition follow_up_max_age_seconds :: nat where
  "follow_up_max_age_seconds = 30 * 86400"

definition follow_up_active :: "nat \<Rightarrow> memory_item_record \<Rightarrow> bool" where
  "follow_up_active now m \<longleftrightarrow>
     now - mi_reinforced m \<le> follow_up_max_age_seconds
     \<and> (case mi_expires m of None \<Rightarrow> True | Some e \<Rightarrow> now < e)"

definition follow_up_safe :: "unicode \<Rightarrow> memory_item_record \<Rightarrow> bool" where
  "follow_up_safe uc m \<longleftrightarrow>
     trim_by is_whitespace (mi_content m) \<noteq> [] \<and> length (mi_content m) \<le> 240
     \<and> \<not> contains_sensitive_data uc (mi_content m) \<and> \<not> contains_prompt_injection uc (mi_content m)
     \<and> \<not> follow_up_content_is_resolved uc (mi_key m) (mi_content m)"

definition f32_in :: "f32 \<Rightarrow> f32 \<Rightarrow> f32 \<Rightarrow> bool" where
  "f32_in low high v \<longleftrightarrow> is_finite v \<and> f32_le low v \<and> f32_le v high"

definition select_follow_up_candidate ::
  "unicode \<Rightarrow> memory_item_record list \<Rightarrow> nat \<Rightarrow> follow_up_empty + memory_item_record" where
  "select_follow_up_candidate uc items now =
     (if items = [] then Inl NoUndeliveredItems
      else let plans = filter (\<lambda>m. plan_or_goal (mi_kind m)) items in
      if plans = [] then Inl NoPlanOrGoal
      else let confident = filter (\<lambda>m. f32_in (lit 80) (Fin 1) (mi_confidence m)) plans in
      if confident = [] then Inl LowConfidence
      else let important = filter (\<lambda>m. f32_in (lit 65) (Fin 1) (mi_importance m)) confident in
      if important = [] then Inl LowImportance
      else let active = filter (follow_up_active now) important in
      if active = [] then Inl Inactive
      else (case find (follow_up_safe uc) active of
              None \<Rightarrow> Inl UnsafeOrResolved
            | Some m \<Rightarrow> Inr m))"

definition follow_up_candidate_limit :: int where
  "follow_up_candidate_limit = 20"

text \<open>
  \<open>claim_persona_follow_up\<close> once the persona and the session are known; the answer is the follow-up with
  its text, if there is one.
\<close>

definition claim_persona_follow_up ::
  "unicode \<Rightarrow> nat \<Rightarrow> uuid \<Rightarrow> owner_scope \<Rightarrow> ustr \<Rightarrow> uuid \<Rightarrow> ustr \<Rightarrow> chat_db
    \<Rightarrow> (store_error + follow_up_record option) \<times> chat_db" where
  "claim_persona_follow_up uc now new_id owner persona claim_key locale db =
     (case get_memory_follow_up_by_claim owner persona claim_key db of
        Some f \<Rightarrow> (Inr (Some f), db)
      | None \<Rightarrow>
          (case select_follow_up_candidate uc
                  (find_memory_follow_up_candidates owner persona follow_up_candidate_limit db) now of
             Inl reason \<Rightarrow> (Inr None, db)
           | Inr m \<Rightarrow>
               claim_memory_follow_up new_id owner
                 \<lparr>fc_claim = claim_key, fc_memory = mi_id m, fc_character = persona, fc_updated = mi_updated m,
                  fc_prompt = create_follow_up_prompt (mi_content m) locale, fc_shown = now\<rparr> db))"

end
