(* ===== verification/Follow_Up_Props.thy ===== *)
theory Follow_Up_Props
  imports Memory_Props Memory_Select
begin

text \<open>
  The deliveries of follow-ups: in every state of the store they are apart by a day for one recipient and
  one persona, a memory and a claim key occur once, and the claim of \<open>memory.rs\<close> can be repeated.
\<close>

section \<open>The deliveries only shrink, but for a claim\<close>

definition unlinked :: "follow_up_row \<Rightarrow> follow_up_row" where
  "unlinked f = f\<lparr>fu_chat := None\<rparr>"

lemma unlinked_fields [simp]:
  "fu_id (unlinked f) = fu_id f" "fu_claim (unlinked f) = fu_claim f" "fu_memory (unlinked f) = fu_memory f"
  "fu_session (unlinked f) = fu_session f" "fu_user (unlinked f) = fu_user f"
  "fu_character (unlinked f) = fu_character f" "fu_shown (unlinked f) = fu_shown f"
  by (simp_all add: unlinked_def)

definition deliveries :: "chat_db \<Rightarrow> follow_up_row list" where
  "deliveries db = map unlinked (follow_ups db)"

definition fewer :: "chat_db \<Rightarrow> chat_db \<Rightarrow> bool" where
  "fewer db db' \<longleftrightarrow> subseq (deliveries db') (deliveries db)"

lemma fewer_same: "follow_ups db' = follow_ups db \<Longrightarrow> fewer db db'"
  by (simp add: fewer_def deliveries_def)

lemma fewer_trans: "fewer a b \<Longrightarrow> fewer b c \<Longrightarrow> fewer a c"
  unfolding fewer_def by (rule subseq_order.trans)

lemma fewer_delete_memories: "fewer db (delete_memories P db)"
proof -
  have "deliveries (delete_memories P db)
      = filter (\<lambda>f. fu_memory f \<notin> mem_id ` set (filter P (memories db))) (deliveries db)"
    by (simp add: deliveries_def delete_memories_def Let_def filter_map o_def)
  then show ?thesis by (simp add: fewer_def)
qed

lemma follow_ups_attachments [simp]: "follow_ups (delete_attachments now P db) = follow_ups db"
  by (simp add: delete_attachments_def)

lemma follow_ups_messages [simp]: "follow_ups (delete_messages now P db) = follow_ups db"
  by (simp add: delete_messages_def Let_def)

lemma deliveries_delete_chats: "deliveries (delete_chats now P db) = deliveries db"
  by (simp add: deliveries_def delete_chats_def Let_def o_def unlinked_def split: option.split)

lemma follow_ups_recalculate [simp]: "follow_ups (recalculate_evidence now ids db) = follow_ups db"
  by (simp add: recalculate_evidence_def Let_def)

lemma fewer_cleanup: "fewer db (cleanup_after_source_removal now ids db)"
  using fewer_delete_memories
  by (auto simp: cleanup_after_source_removal_def fewer_def deliveries_def)

lemma deliveries_link: "deliveries (link_follow_up i chat db) = deliveries db"
  by (simp add: deliveries_def link_follow_up_def o_def unlinked_def)

lemma follow_ups_create:
  assumes "create_chat_transaction new owner character profile follow_up limits db = Inr (Inr db')"
  shows "deliveries db' = deliveries db"
  using assms
proof (cases rule: create_chat_transaction_Inr)
  case (1 t db1)
  have one: "follow_ups db1 = follow_ups db" by (simp add: insert_chat_Inr(1) [OF 1(1)])
  from 1(3) show ?thesis
  proof (elim disjE exE conjE)
    fix i assume "attach_follow_up owner character (nc_chat new) (nc_message new) i limits db1 = Inr (Inr db')"
    then show ?thesis
    proof (cases rule: attach_follow_up_Inr)
      case (1 m db2)
      show ?thesis by (simp add: 1(2) deliveries_link) (simp add: deliveries_def insert_message_Inr(1) [OF 1(1)] one)
    qed
  qed (simp add: deliveries_def one)
qed

lemma follow_ups_append:
  assumes "append_writes now job owner c u a ids zone db = Inr (Some db')"
  shows "follow_ups db' = follow_ups db"
proof -
  obtain db1 db2 db3 where w: "insert_turn (chat_id c) u a db = Inr db1"
    "enqueue_memory_job (int now) job c (sm_id u) (sm_id a) zone db1 = Inr db2"
    "db3 = db2 \<or> db3 = snd (link_attachments owner (chat_id c) (sm_id u) ids db2)"
    "db' = touch_chat (int now) (chat_id c) db3"
    by (rule append_writes_Inr [OF assms])
  obtain ru ra db0 where t: "insert_message ru db = Inr db0" "insert_message ra db0 = Inr db1"
    by (rule insert_turn_Inr [OF w(1)])
  have "follow_ups db1 = follow_ups db" by (simp add: insert_message_Inr(1) [OF t(2)] insert_message_Inr(1) [OF t(1)])
  moreover have "follow_ups db2 = follow_ups db1"
    using w(2) by (auto simp: enqueue_memory_job_def split: if_splits)
  moreover have "follow_ups db3 = follow_ups db2" using w(3) by (auto simp: link_attachments_def)
  ultimately show ?thesis by (simp add: w(4) touch_chat_def)
qed

lemma chat_event_fewer: "fewer db (apply_chat_event limits max_bytes e db)"
proof (cases e)
  case (CreateChat new owner character profile follow_up)
  then show ?thesis
    by (auto simp: create_chat_db fewer_def follow_ups_create split: sum.splits)
next
  case (AppendTurn now job owner i u a ids zone reservation q)
  with append_db [of now job owner i u a ids zone limits reservation db q] show ?thesis
    by (auto intro: fewer_same follow_ups_append)
next
  case (ClearChat now owner i)
  have "fewer db (touch_chat now i (cleanup_after_source_removal now ids (delete_messages now P db)))" for ids P
    by (rule fewer_trans [OF fewer_trans [OF fewer_same fewer_cleanup] fewer_same])
      (simp_all add: touch_chat_def)
  with ClearChat clear_db [of now owner i db] show ?thesis by (auto intro: fewer_same)
next
  case (DeleteChat now owner i)
  have "fewer db (cleanup_after_source_removal now ids (delete_chats now P db))" for ids P
    by (rule fewer_trans [OF _ fewer_cleanup]) (simp add: fewer_def deliveries_delete_chats)
  with DeleteChat delete_chat_db [of now owner i db] show ?thesis by (auto intro: fewer_same)
next
  case (UploadAttachment now owner n)
  then show ?thesis
    by (intro fewer_same) (auto simp: create_chat_attachment_with_storage_quota_def insert_chat_attachment_def Let_def)
next
  case (DeletePending now owner i)
  then show ?thesis by (intro fewer_same) (simp add: delete_pending_chat_attachment_def Let_def)
next
  case (DeleteStale now kind before n)
  with delete_stale_db [of now kind before n db] show ?thesis by (auto intro: fewer_same)
qed (auto intro!: fewer_same simp: claim_chat_attachment_file_deletions_def claim_eligible_def Let_def
    claim_chat_attachment_file_deletions_for_keys_def complete_chat_attachment_file_deletion_def
    retry_chat_attachment_file_deletion_def enqueue_reconciled_chat_attachment_file_deletion_def)

lemma candidates_follow_ups: "capture_candidates now c message cands db = Inr db' \<Longrightarrow> follow_ups db' = follow_ups db"
proof (induction now c message cands db rule: capture_candidates.induct)
  case (2 now c message ids cand rest db)
  have source: "follow_ups y = follow_ups x" if "store_source now c message m i cand x = Inr y" for m i x y
    using that by (auto simp: store_source_def map_sum_Inr put_source_def Let_def split: option.splits if_splits)
  have up: "follow_ups y = follow_ups x" if "update_memory now old cand x = Inr y" for old x y
    using that by (auto simp: update_memory_def Let_def split: sum.splits option.splits if_splits)
  have ins: "follow_ups y = follow_ups x" if "insert_memory now i c cand x = Inr y" for i x y
    using that by (auto simp: insert_memory_def split: sum.splits option.splits if_splits)
  obtain db1 where db1: "capture_candidate now c message ids cand db = Inr db1"
    and rest: "capture_candidates now c message rest db1 = Inr db'"
    using "2.prems" by (auto split: sum.splits)
  have "follow_ups db1 = follow_ups db"
    using db1 by (auto simp: capture_candidate_def source up ins split: option.splits sum.splits if_splits)
  with "2.IH" [OF db1 rest] show ?case by simp
qed simp

lemma worker_fewer:
  assumes "\<nexists>i owner claim. e = ClaimFollowUp i owner claim"
  shows "fewer db (apply_store_event limits max_bytes e db)"
proof (cases e)
  case (ChatEvent x)
  then show ?thesis by (simp add: chat_event_fewer)
next
  case (ClaimJob now)
  with claim_job_db [of now db] show ?thesis by (auto intro: fewer_same simp: update_job_def)
next
  case (FailJob now i code)
  with fail_job_db [of now i code db] show ?thesis by (auto intro: fewer_same simp: update_job_def)
next
  case (ApplyCapture now i cands)
  with apply_capture_db [of now i cands db] show ?thesis
    by (auto intro: fewer_same simp: update_job_def candidates_follow_ups)
next
  case (ResetContext owner)
  have "fewer db (delete_memories P (db\<lparr>jobs := js\<rparr>))" for P js
    by (rule fewer_trans [OF fewer_same fewer_delete_memories]) simp
  with ResetContext show ?thesis by (simp add: reset_learned_context_def)
qed (use assms in simp)

section \<open>A day between deliveries\<close>

definition one_day :: micros where
  "one_day = 86400 * 1000000"

definition same_recipient :: "follow_up_row \<Rightarrow> follow_up_row \<Rightarrow> bool" where
  "same_recipient f g \<longleftrightarrow>
     fu_character f = fu_character g \<and> fu_user f = fu_user g \<and> (fu_user f = None \<longrightarrow> fu_session f = fu_session g)"

definition apart :: "follow_up_row \<Rightarrow> follow_up_row \<Rightarrow> bool" where
  "apart f g \<longleftrightarrow>
     fu_claim f \<noteq> fu_claim g \<and> fu_memory f \<noteq> fu_memory g
     \<and> (same_recipient f g \<longrightarrow> fu_shown f + one_day \<le> fu_shown g \<or> fu_shown g < one_day)"

definition follow_up_inv :: "chat_db \<Rightarrow> bool" where
  "follow_up_inv db \<longleftrightarrow> sorted_wrt apart (follow_ups db)"

lemma apart_unlinked [simp]: "apart (unlinked f) (unlinked g) = apart f g"
  by (simp add: apart_def same_recipient_def)

lemma follow_up_inv_deliveries: "follow_up_inv db \<longleftrightarrow> sorted_wrt apart (deliveries db)"
  by (simp add: follow_up_inv_def deliveries_def sorted_wrt_map)

lemma sorted_wrt_subseq_of: "subseq xs ys \<Longrightarrow> sorted_wrt P ys \<Longrightarrow> sorted_wrt P xs"
proof (induction rule: list_emb.induct)
  case (list_emb_Cons2 x y xs ys)
  then have "set xs \<subseteq> set ys" by (auto dest: list_emb_set)
  with list_emb_Cons2 show ?case by auto
qed auto

lemma follow_up_inv_fewer: "fewer db db' \<Longrightarrow> follow_up_inv db \<Longrightarrow> follow_up_inv db'"
  unfolding follow_up_inv_deliveries fewer_def by (rule sorted_wrt_subseq_of)

lemma as_i64_mod: "as_i64 n mod 2 ^ 64 = int n mod 2 ^ 64"
  by (simp add: as_i64_def zmod_int mod_diff_left_eq flip: minus_mod_self2 [of _ "2 ^ 64"])

lemma small_mod: "d mod 2 ^ 64 = (86400 :: int) \<Longrightarrow> - (2 ^ 63) < d \<Longrightarrow> d < 2 ^ 63 \<Longrightarrow> d = 86400"
  using mod_add_self2 [of d "2 ^ 64"] mod_pos_pos_trivial [of "d + 2 ^ 64" "2 ^ 64"]
    mod_pos_pos_trivial [of d "2 ^ 64"]
  by (cases "0 \<le> d") simp_all

lemma timestamp_difference:
  assumes n: "timestamp_of_seconds (as_i64 n) = Inr t" and m: "timestamp_of_seconds (as_i64 (n - 86400)) = Inr u"
  shows "t = u + one_day \<or> t < one_day"
proof (cases "86400 \<le> n")
  case True
  have range: "-210866803200 \<le> as_i64 n" "as_i64 n < 9224318016000"
    "-210866803200 \<le> as_i64 (n - 86400)" "as_i64 (n - 86400) < 9224318016000"
    and vals: "t = as_i64 n * 1000000" "u = as_i64 (n - 86400) * 1000000"
    using n m by (auto simp: timestamp_of_seconds_def to_timestamp_def map_sum_Inr split: if_splits)
  have "(as_i64 n - as_i64 (n - 86400)) mod 2 ^ 64 = (int n - int (n - 86400)) mod 2 ^ 64"
    by (metis as_i64_mod mod_diff_eq)
  also have "\<dots> = 86400" using True by (simp add: of_nat_diff)
  finally have "(as_i64 n - as_i64 (n - 86400)) mod 2 ^ 64 = 86400" .
  then have "as_i64 n - as_i64 (n - 86400) = 86400" by (rule small_mod) (use range in simp_all)
  then have "as_i64 n = as_i64 (n - 86400) + 86400" by simp
  then show ?thesis by (simp add: vals one_day_def)
next
  case False
  with n show ?thesis
    by (auto simp: timestamp_of_seconds_def to_timestamp_def map_sum_Inr one_day_def split: if_splits)
qed

lemma claim_follow_up_cases:
  assumes "snd (claim_memory_follow_up i owner claim db) \<noteq> db"
  obtains m cutoff shown row where "m \<in> set (memories db)" "claimable_memory owner claim shown db m"
    and "timestamp_of_seconds (as_i64 (fc_shown claim - 86400)) = Inr cutoff"
    and "timestamp_of_seconds (as_i64 (fc_shown claim)) = Inr shown"
    and "\<not> recently_shown owner (fc_character claim) cutoff db"
    and "fc_claim claim \<notin> fu_claim ` set (follow_ups db)"
    and "row = \<lparr>fu_id = i, fu_claim = fc_claim claim, fu_memory = mem_id m, fu_session = scope_session owner,
      fu_user = scope_user owner, fu_character = mem_character m, fu_prompt = fc_prompt claim,
      fu_shown = shown, fu_chat = None\<rparr>"
    and "claim_memory_follow_up i owner claim db
      = (Inr (Some (memory_follow_up_from_row row)), db\<lparr>follow_ups := follow_ups db @ [row]\<rparr>)"
proof -
  obtain cutoff shown answer where c: "timestamp_of_seconds (as_i64 (fc_shown claim - 86400)) = Inr cutoff"
    "timestamp_of_seconds (as_i64 (fc_shown claim)) = Inr shown"
    "\<not> recently_shown owner (fc_character claim) cutoff db"
    "insert_follow_up i owner claim shown db = Inr (answer, snd (claim_memory_follow_up i owner claim db))"
    "claim_memory_follow_up i owner claim db = (Inr answer, snd (claim_memory_follow_up i owner claim db))"
    using assms by (auto simp: claim_memory_follow_up_def split: option.splits sum.splits if_splits)
  obtain m where m: "find (claimable_memory owner claim shown db) (memories db) = Some m"
    using c(4) assms by (auto simp: insert_follow_up_def split: option.splits)
  note found = find_SomeD [OF m]
  show ?thesis
    by (rule that [OF _ _ c(1-3) _ refl])
      (use found c(4,5) m in \<open>auto simp: insert_follow_up_def Let_def split: if_splits\<close>)
qed

lemma follow_up_inv_claim:
  assumes inv: "follow_up_inv db"
  shows "follow_up_inv (snd (claim_memory_follow_up i owner claim db))"
proof (cases "snd (claim_memory_follow_up i owner claim db) = db")
  case False
  then obtain m cutoff shown row where m: "claimable_memory owner claim shown db m"
    and t: "timestamp_of_seconds (as_i64 (fc_shown claim - 86400)) = Inr cutoff"
      "timestamp_of_seconds (as_i64 (fc_shown claim)) = Inr shown"
    and old: "\<not> recently_shown owner (fc_character claim) cutoff db"
    and new: "fc_claim claim \<notin> fu_claim ` set (follow_ups db)"
    and row: "row = \<lparr>fu_id = i, fu_claim = fc_claim claim, fu_memory = mem_id m, fu_session = scope_session owner,
      fu_user = scope_user owner, fu_character = mem_character m, fu_prompt = fc_prompt claim,
      fu_shown = shown, fu_chat = None\<rparr>"
    and run: "claim_memory_follow_up i owner claim db
      = (Inr (Some (memory_follow_up_from_row row)), db\<lparr>follow_ups := follow_ups db @ [row]\<rparr>)"
    by (rule claim_follow_up_cases)
  have "apart f row" if f: "f \<in> set (follow_ups db)" for f
    unfolding apart_def
  proof (intro conjI impI)
    show "fu_claim f \<noteq> fu_claim row" using new imageI [OF f, of fu_claim] by (auto simp: row)
    show "fu_memory f \<noteq> fu_memory row" using m f by (auto simp: row claimable_memory_def undelivered_def list_ex_iff)
    assume "same_recipient f row"
    then have "owns_follow_up owner f" "fu_character f = fc_character claim"
      using m by (auto simp: row same_recipient_def owns_follow_up_def owns_row_def claimable_memory_def split: option.splits)
    with old f have "fu_shown f \<le> cutoff" by (auto simp: recently_shown_def list_ex_iff not_less)
    with timestamp_difference [OF t(2,1)] show "fu_shown f + one_day \<le> fu_shown row \<or> fu_shown row < one_day"
      by (auto simp: row)
  qed
  with inv show ?thesis by (simp add: run follow_up_inv_def sorted_wrt_append)
qed (use inv in simp)

lemma store_reachable_follow_ups:
  "store_reachable accounts limits max_bytes session_ids db \<Longrightarrow> follow_up_inv db"
proof (induction rule: store_reachable.induct)
  case store_start
  then show ?case by (simp add: follow_up_inv_def empty_chat_db_def)
next
  case (store_step db e)
  show ?case
  proof (cases "\<exists>i owner claim. e = ClaimFollowUp i owner claim")
    case True
    with store_step.IH show ?thesis by (auto simp: follow_up_inv_claim)
  next
    case False
    with store_step.IH show ?thesis using worker_fewer follow_up_inv_fewer by blast
  qed
qed


section \<open>The claim of the handler\<close>

lemma follow_up_by_claim_new:
  assumes "get_memory_follow_up_by_claim owner persona key db = None"
    and "fu_claim row = key" and "owns_follow_up owner row" and "fu_character row = persona"
  shows "get_memory_follow_up_by_claim owner persona key (db\<lparr>follow_ups := follow_ups db @ [row]\<rparr>)
    = Some (memory_follow_up_from_row row)"
proof -
  have "find P (xs @ [row]) = Some row" if "find P xs = None" "P row" for P xs
    using that by (induction xs) (auto split: if_splits)
  with assms show ?thesis by (simp add: get_memory_follow_up_by_claim_def)
qed

lemma select_follow_up_Inr:
  assumes "select_follow_up_candidate uc items now = Inr m"
  shows "m \<in> set items" and "plan_or_goal (mi_kind m)" and "follow_up_active now m" and "follow_up_safe uc m"
proof -
  let ?P = "\<lambda>m. plan_or_goal (mi_kind m)" and ?Q = "\<lambda>m. f32_in (lit 80) (Fin 1) (mi_confidence m)"
  let ?R = "\<lambda>m. f32_in (lit 65) (Fin 1) (mi_importance m)"
  have f: "find (follow_up_safe uc) (filter (follow_up_active now) (filter ?R (filter ?Q (filter ?P items)))) = Some m"
    using assms unfolding select_follow_up_candidate_def Let_def by (simp split: if_splits option.splits)
  from find_SomeD [OF f] show "m \<in> set items" "plan_or_goal (mi_kind m)" "follow_up_active now m" "follow_up_safe uc m"
    by auto
qed

lemma follow_up_candidates_set:
  "r \<in> set (find_memory_follow_up_candidates owner persona limit db) \<Longrightarrow>
    \<exists>m\<in>set (memories db). r = memory_item_from_row m \<and> owns_memory owner m \<and> mem_character m = persona \<and> undelivered db m"
  by (auto simp: find_memory_follow_up_candidates_def split: if_splits dest!: in_set_takeD)

text \<open>
  C9: When a request claims a follow-up, the same request sent again, whenever and with whatever locale,
  answers with the same follow-up and stores nothing; and a follow-up it stored is the prompt of an
  undelivered plan or goal of this owner and persona that is reinforced within thirty days, not
  expired, not sensitive and not resolved.
\<close>

theorem follow_up_claim_once:
  assumes run: "claim_persona_follow_up uc now i owner persona key locale db = (Inr (Some f), db')"
  shows "claim_persona_follow_up uc now' i' owner persona key locale' db' = (Inr (Some f), db')
    \<and> (db' = db \<or>
       (\<exists>m\<in>set (memories db). \<exists>r. r = memory_item_from_row m \<and> fur_memory f = mem_id m
          \<and> fur_prompt f = create_follow_up_prompt (mi_content r) locale
          \<and> owns_memory owner m \<and> mem_character m = persona \<and> undelivered db m
          \<and> plan_or_goal (mi_kind r) \<and> follow_up_active now r
          \<and> \<not> contains_sensitive_data uc (mi_content r)
          \<and> \<not> follow_up_content_is_resolved uc (mi_key r) (mi_content r)))"
proof (cases "get_memory_follow_up_by_claim owner persona key db")
  case (Some g)
  with run show ?thesis by (simp add: claim_persona_follow_up_def)
next
  case None
  then obtain r where r: "select_follow_up_candidate uc
      (find_memory_follow_up_candidates owner persona follow_up_candidate_limit db) now = Inr r"
    and claim: "claim_memory_follow_up i owner \<lparr>fc_claim = key, fc_memory = mi_id r, fc_character = persona,
      fc_updated = mi_updated r, fc_prompt = create_follow_up_prompt (mi_content r) locale, fc_shown = now\<rparr> db
      = (Inr (Some f), db')" (is "claim_memory_follow_up i owner ?claim db = _")
    using run by (auto simp: claim_persona_follow_up_def split: sum.splits)
  note sel = select_follow_up_Inr [OF r]
  from follow_up_candidates_set [OF sel(1)] obtain m where m: "m \<in> set (memories db)" "r = memory_item_from_row m"
    "owns_memory owner m" "mem_character m = persona" "undelivered db m" by blast
  have "snd (claim_memory_follow_up i owner ?claim db) \<noteq> db"
  proof
    assume same: "snd (claim_memory_follow_up i owner ?claim db) = db"
    have "claim_memory_follow_up i owner ?claim db \<noteq> (Inr (Some f), db)"
      using None by (auto simp: claim_memory_follow_up_def insert_follow_up_def Let_def
          dest: arg_cong [of _ _ follow_ups] split: option.splits sum.splits if_splits)
    with same claim show False by simp
  qed
  then obtain m' row shown where m': "m' \<in> set (memories db)" "claimable_memory owner ?claim shown db m'"
    and row: "row = \<lparr>fu_id = i, fu_claim = fc_claim ?claim, fu_memory = mem_id m', fu_session = scope_session owner,
      fu_user = scope_user owner, fu_character = mem_character m', fu_prompt = fc_prompt ?claim,
      fu_shown = shown, fu_chat = None\<rparr>"
    and eq: "claim_memory_follow_up i owner ?claim db
      = (Inr (Some (memory_follow_up_from_row row)), db\<lparr>follow_ups := follow_ups db @ [row]\<rparr>)"
    by (rule claim_follow_up_cases)
  from eq claim have f: "f = memory_follow_up_from_row row" and db': "db' = db\<lparr>follow_ups := follow_ups db @ [row]\<rparr>"
    by simp_all
  have "owns_follow_up owner row" by (auto simp: row owns_follow_up_def owns_row_def split: option.splits)
  with follow_up_by_claim_new [OF None, of row] m'(2) have
    "get_memory_follow_up_by_claim owner persona key db' = Some f"
    by (simp add: db' f row claimable_memory_def)
  then have again: "claim_persona_follow_up uc now' i' owner persona key locale' db' = (Inr (Some f), db')"
    by (simp add: claim_persona_follow_up_def)
  have "mem_id m' = mem_id m" using m'(2) by (simp add: claimable_memory_def m(2) memory_item_from_row_def)
  with again m sel(2-4) show ?thesis
    by (intro conjI disjI2 bexI [of _ m] exI [of _ r])
      (simp_all add: f row memory_follow_up_from_row_def follow_up_safe_def)
qed

section \<open>Witnesses\<close>

lemma floor_rat_numeral [simp]: "\<lfloor>(numeral a / numeral b :: rat)\<rfloor> = numeral a div numeral b"
  by (metis floor_divide_of_int_eq of_int_numeral)

lemma f64_values:
  "f64_round (99 / 100) = 8917127262193582 / 2 ^ 53" "f64_round (4 / 5) = 7205759403792794 / 2 ^ 53"
  "f64_round (13 / 20) = 5854679515581645 / 2 ^ 53" "f64_round 1 = 1" "f64_round 0 = 0"
  by (simp_all add: f64_round_def f64_ulp_def round_half_even_def eval_nat_numeral Let_def)

lemma evidence_one: "evidence_confidence [1] = f64_round (99 / 100)"
  by (simp add: evidence_confidence_def f64_values)

definition w_plan :: "string \<Rightarrow> captured_memory" where
  "w_plan key = \<lparr>cap_key = ascii key, cap_kind = ascii ''plan'', cap_content = ascii ''see the sea'',
     cap_tags = [], cap_importance = Fin 1, cap_strength = Fin 1, cap_expires = None, cap_replaces = False\<rparr>"

definition w_planned :: chat_db where
  "w_planned = apply_store_event w_limits 100 (ApplyCapture 12 40 [((50, 51), w_plan ''trip.one''), ((52, 53), w_plan ''trip.two'')]) w_claimed"

definition w_memory :: "uuid \<Rightarrow> string \<Rightarrow> memory_row" where
  "w_memory i key = \<lparr>mem_id = i, mem_session = 1, mem_user = None, mem_character = [97], mem_key = ascii key,
     mem_kind = ascii ''plan'', mem_content = ascii ''see the sea'', mem_tags = [],
     mem_confidence = f64_round (99 / 100), mem_importance = 1, mem_reinforced = 12, mem_expires = None,
     mem_created = 12, mem_updated = 12\<rparr>"

lemma w_planned_memories:
  "memories w_planned = [w_memory 50 ''trip.one'', w_memory 52 ''trip.two'']" "follow_ups w_planned = []"
  "db_sessions w_planned = {1, 2}"
  by (simp_all add: w_planned_def w_claimed_eq apply_memory_capture_def job_chat_row_def w_turn_tables
      claimed_job_def w_job_def capture_candidate_def insert_memory_def optional_timestamp_def unit_value_def
      w_plan_def memory_checks_def btrim_blank_def ascii_def store_source_def put_source_def Let_def
      recalculate_evidence_def update_job_def same_memory_key_def evidence_one w_memory_def)

definition w_claim :: "uuid \<Rightarrow> uuid \<Rightarrow> nat \<Rightarrow> follow_up_claim" where
  "w_claim key memory t = \<lparr>fc_claim = key, fc_memory = memory, fc_character = [97], fc_updated = 0,
     fc_prompt = ascii ''How is it going?'', fc_shown = t\<rparr>"

definition w_followed :: chat_db where
  "w_followed = foldl (\<lambda>db e. apply_store_event w_limits 100 e db) w_planned
     [ClaimFollowUp 60 w_guest (w_claim 70 50 100000), ClaimFollowUp 61 w_guest (w_claim 71 52 186399),
      ClaimFollowUp 62 w_guest (w_claim 72 52 186400)]"

lemma w_planned_reachable: "store_reachable w_accounts w_limits 100 {1, 2} w_planned"
  unfolding w_planned_def by (rule store_step [OF w_claimed_reachable]) simp

lemma w_followed_reachable: "store_reachable w_accounts w_limits 100 {1, 2} w_followed"
  unfolding w_followed_def by (simp del: apply_store_event.simps add: store_step w_planned_reachable)

definition w_row :: "uuid \<Rightarrow> uuid \<Rightarrow> uuid \<Rightarrow> micros \<Rightarrow> follow_up_row" where
  "w_row i key memory t = \<lparr>fu_id = i, fu_claim = key, fu_memory = memory, fu_session = 1, fu_user = None,
     fu_character = [97], fu_prompt = ascii ''How is it going?'', fu_shown = t, fu_chat = None\<rparr>"

lemmas w_follow_up_defs = claim_memory_follow_up_def get_memory_follow_up_by_claim_def
  w_claim_def timestamp_of_seconds_def to_timestamp_def recently_shown_def insert_follow_up_def
  claimable_memory_def owns_memory_def owns_row_def w_guest_def w_memory_def plan_or_goal_def f64_values
  epoch_seconds_def undelivered_def btrim_blank_def ascii_def owns_follow_up_def w_row_def Let_def

lemma w_claim_first:
  "apply_store_event w_limits 100 (ClaimFollowUp 60 w_guest (w_claim 70 50 100000)) w_planned
    = w_planned\<lparr>follow_ups := [w_row 60 70 50 100000000000]\<rparr>"
  by (simp add: w_planned_memories w_follow_up_defs)

lemma w_claim_early:
  "apply_store_event w_limits 100 (ClaimFollowUp 61 w_guest (w_claim 71 52 186399))
      (w_planned\<lparr>follow_ups := [w_row 60 70 50 100000000000]\<rparr>)
    = w_planned\<lparr>follow_ups := [w_row 60 70 50 100000000000]\<rparr>"
  by (simp add: w_planned_memories w_follow_up_defs)

lemma w_claim_second:
  "apply_store_event w_limits 100 (ClaimFollowUp 62 w_guest (w_claim 72 52 186400))
      (w_planned\<lparr>follow_ups := [w_row 60 70 50 100000000000]\<rparr>)
    = w_planned\<lparr>follow_ups := [w_row 60 70 50 100000000000, w_row 62 72 52 186400000000]\<rparr>"
  by (simp add: w_planned_memories w_follow_up_defs)

lemma w_followed_rows: "follow_ups w_followed = [w_row 60 70 50 100000000000, w_row 62 72 52 186400000000]"
  by (simp add: w_followed_def w_claim_first w_claim_early w_claim_second del: apply_store_event.simps)


definition w_uc :: unicode where
  "w_uc = \<lparr>to_lower = to_ascii_lowercase, is_alnum = (\<lambda>c. is_ascii_lowercase c \<or> is_ascii_digit c)\<rparr>"

definition w_item :: memory_item_record where
  "w_item = \<lparr>mi_id = 52, mi_session = 1, mi_user = None, mi_character = [97], mi_key = ascii ''trip.two'',
     mi_kind = ascii ''plan'', mi_content = ascii ''see the sea'', mi_tags = [],
     mi_confidence = f32_round (f64_round (99 / 100)), mi_importance = Fin 1, mi_reinforced = 0,
     mi_expires = None, mi_created = 0, mi_updated = 0\<rparr>"

lemma f32_values:
  "f32_round (f64_round (99 / 100)) = Fin (16609444 / 2 ^ 24)" "lit 80 = Fin (13421773 / 2 ^ 24)"
  "lit 65 = Fin (10905190 / 2 ^ 24)" "f32_round 1 = Fin 1"
  by (simp_all add: f64_values lit_def f32_round_def f32_overflow_def round_abs_def f32_ulp_def
      round_half_even_def eval_nat_numeral Let_def)

lemma w_memory_item: "memory_item_from_row (w_memory 52 ''trip.two'') = w_item"
  by (simp add: w_memory_def w_item_def memory_item_from_row_def seconds_of_def epoch_seconds_def as_u64_def
      f32_values(4))

lemma w_texts:
  "ascii ''see the sea'' = [115, 101, 101, 32, 116, 104, 101, 32, 115, 101, 97]"
  "ascii ''trip.two'' = [116, 114, 105, 112, 46, 116, 119, 111]"
  by code_simp+

lemma w_lower: "to_lower w_uc s = to_ascii_lowercase s"
  by (simp add: w_uc_def)

lemma w_not_sensitive: "\<not> contains_sensitive_data w_uc (ascii ''see the sea'')"
  unfolding contains_sensitive_data_def Let_def w_lower w_texts
  by (simp add: to_ascii_lowercase_def contains_any_def sensitive_terms_def secret_prefixes_def is_ascii_digit_def)
    (simp add: ascii_def)

lemma w_no_injection: "\<not> contains_prompt_injection w_uc (ascii ''see the sea'')"
  unfolding contains_prompt_injection_def w_lower w_texts
  by (simp add: to_ascii_lowercase_def contains_any_def injection_phrases_def) (simp add: ascii_def)

lemma w_not_resolved: "\<not> follow_up_content_is_resolved w_uc (ascii ''trip.two'') (ascii ''see the sea'')"
  unfolding follow_up_content_is_resolved_def w_lower w_texts
  by (simp add: to_ascii_lowercase_def contains_any_def resolved_markers_def) (simp add: ascii_def)

lemma w_safe: "follow_up_safe w_uc w_item"
proof -
  have "trim_by is_whitespace (ascii ''see the sea'') \<noteq> []" by code_simp
  then show ?thesis
    by (simp add: follow_up_safe_def w_item_def w_not_sensitive w_no_injection w_not_resolved) (simp add: ascii_def)
qed

text \<open>The markers are substrings: a plan that is called unfinished counts as resolved.\<close>

lemma unfinished_is_resolved: "follow_up_content_is_resolved w_uc (ascii ''trip.two'') (ascii ''unfinished map'')"
proof -
  have "ascii ''unfinished map'' = [117, 110, 102, 105, 110, 105, 115, 104, 101, 100, 32, 109, 97, 112]" by code_simp
  then show ?thesis
    unfolding follow_up_content_is_resolved_def w_lower w_texts
    by (simp add: to_ascii_lowercase_def contains_any_def resolved_markers_def) (simp add: ascii_def)
qed

definition w_delivered :: chat_db where
  "w_delivered = w_planned\<lparr>follow_ups := [w_row 60 70 50 100000000000]\<rparr>"

lemma w_selected:
  "select_follow_up_candidate w_uc (find_memory_follow_up_candidates w_guest [97] follow_up_candidate_limit w_delivered) 300000
    = Inr w_item"
proof -
  have items: "find_memory_follow_up_candidates w_guest [97] follow_up_candidate_limit w_delivered = [w_item]"
    by (simp add: find_memory_follow_up_candidates_def follow_up_candidate_limit_def w_delivered_def w_planned_memories
        owns_memory_def owns_row_def w_guest_def undelivered_def w_row_def w_memory_item)
      (simp add: w_memory_def)
  show ?thesis
    unfolding items by (simp add: select_follow_up_candidate_def w_safe)
      (simp add: w_item_def plan_or_goal_def f32_in_def f32_values follow_up_active_def follow_up_max_age_seconds_def)
qed

lemma prompt_not_blank: "\<not> btrim_blank (create_follow_up_prompt content locale)"
  by (simp add: create_follow_up_prompt_def btrim_blank_def Let_def ascii_def)

lemma w_claims:
  "\<exists>f db'. claim_persona_follow_up w_uc 300000 63 w_guest [97] 73 locale w_delivered = (Inr (Some f), db')"
proof -
  have none: "get_memory_follow_up_by_claim w_guest [97] 73 w_delivered = None"
    by (simp add: get_memory_follow_up_by_claim_def w_delivered_def w_row_def)
  let ?c = "\<lparr>fc_claim = 73, fc_memory = 52, fc_character = [97], fc_updated = 0,
    fc_prompt = create_follow_up_prompt (mi_content w_item) locale, fc_shown = 300000\<rparr>"
  have "\<exists>f db'. claim_memory_follow_up 63 w_guest ?c w_delivered = (Inr (Some f), db')"
    using none prompt_not_blank unfolding claim_memory_follow_up_def
    by (simp add: timestamp_of_seconds_def to_timestamp_def recently_shown_def insert_follow_up_def
      w_delivered_def w_planned_memories claimable_memory_def owns_memory_def owns_row_def w_guest_def w_memory_def
      plan_or_goal_def f64_values epoch_seconds_def undelivered_def w_row_def Let_def owns_follow_up_def
      del: btrim_blank_def) (simp add: btrim_blank_def)
  then show ?thesis
    by (simp add: claim_persona_follow_up_def none w_selected) (simp add: w_item_def)
qed

theorem follow_up_claim_once_witness:
  "\<exists>f db'. claim_persona_follow_up w_uc 300000 63 w_guest [97] 73 (ascii ''en'') w_delivered = (Inr (Some f), db')
     \<and> claim_persona_follow_up w_uc 999999 64 w_guest [97] 73 (ascii ''th'') db' = (Inr (Some f), db')"
proof -
  obtain f db' where run: "claim_persona_follow_up w_uc 300000 63 w_guest [97] 73 (ascii ''en'') w_delivered = (Inr (Some f), db')"
    using w_claims by blast
  from follow_up_claim_once [OF run, of 999999 64 "ascii ''th''"] run show ?thesis by blast
qed

end
