(* ===== verification/Memory_Select_Props.thy ===== *)
theory Memory_Select_Props
  imports Follow_Up_Props "HOL-Library.Multiset"
begin

text \<open>
  What a retrieved context holds: its bounds, the order and the distinctness of its items, and where
  they come from. The first sections state what each step of the selection keeps.
\<close>

section \<open>Deduplication and ranking\<close>

lemma set_dedup_keys: "set (dedup_keys xs) \<subseteq> set xs"
  by (induction xs rule: dedup_keys.induct) auto

lemma dedup_keys_distinct:
  "sorted (map mr_key xs) \<Longrightarrow> distinct (map mr_key (dedup_keys xs))"
proof (induction xs rule: dedup_keys.induct)
  case (1 a b rest)
  show ?case
  proof (cases "mr_key b = mr_key a")
    case True
    with 1 show ?thesis by simp
  next
    case False
    have "mr_key a < mr_key x" if "x \<in> set (b # rest)" for x
      using 1(3) False that by (fastforce simp: less_le)
    then have "mr_key a \<notin> mr_key ` set (dedup_keys (b # rest))" using set_dedup_keys [of "b # rest"] by fastforce
    with 1 False show ?thesis by simp
  qed
qed simp_all

lemma sorted_fst: "sorted (map (\<lambda>x. (f x, g x)) xs) \<Longrightarrow> sorted (map f xs)"
  by (induction xs) auto

lemma unique_items_ok:
  "distinct (map mr_key (unique_items uc now items))"
  "set (unique_items uc now items) \<subseteq> {m \<in> set items. retrieval_item_is_safe uc now m}"
proof -
  show "distinct (map mr_key (unique_items uc now items))"
    unfolding unique_items_def by (intro dedup_keys_distinct sorted_fst [OF sorted_sort_key])
  show "set (unique_items uc now items) \<subseteq> {m \<in> set items. retrieval_item_is_safe uc now m}"
    unfolding unique_items_def by (rule order_trans [OF set_dedup_keys]) auto
qed

lemma score_memory_item: "score_memory uc item signals message now = Some s \<Longrightarrow> sc_item s = item"
  by (auto simp: score_memory_def Let_def split: if_splits)

lemma scored_items:
  "\<exists>ys. subseq ys items \<and> map sc_item (List.map_filter (\<lambda>m. score_memory uc m signals message now) items) = ys"
proof (induction items)
  case (Cons m items)
  then show ?case
    by (cases "score_memory uc m signals message now") (auto simp: List.map_filter_simps score_memory_item)
qed (simp add: List.map_filter_simps)

lemma subseq_distinct: "subseq xs ys \<Longrightarrow> distinct ys \<Longrightarrow> distinct xs"
  by (induction rule: list_emb.induct) (auto dest: list_emb_set)

lemma ranked_items [simp]: "mset (ranked scored) = mset scored"
  by (simp add: ranked_def)

lemma ranked_specific_first: "sorted_wrt (\<lambda>a b. sc_specific b \<longrightarrow> sc_specific a) (ranked scored)"
proof -
  have "sorted (map (\<lambda>s. \<not> sc_specific s) (ranked scored))"
    unfolding ranked_def by (rule sorted_fst [OF sorted_sort_key])
  then show ?thesis by (simp add: sorted_map) (auto elim: sorted_wrt_mono_rel [rotated])
qed

section \<open>Building the context\<close>

definition context_inv :: "(ustr \<Rightarrow> string \<Rightarrow> ustr \<Rightarrow> ustr) \<Rightarrow> context_state \<Rightarrow> bool" where
  "context_inv json_line cx \<longleftrightarrow>
     cx_text cx = memory_context_header @ concat (map (context_line json_line \<circ> sc_item) (cx_items cx))
     \<and> (cx_items cx = [] \<or> length (cx_text cx) \<le> 1200 \<and> estimate_tokens (cx_text cx) \<le> 300)
     \<and> length (cx_items cx) \<le> 5
     \<and> cx_broad cx = length (filter broad_only (cx_items cx)) \<and> cx_broad cx \<le> 2"

lemma add_item_inv:
  assumes "context_inv json_line cx" and "length (cx_items cx) < 5"
  shows "context_inv json_line (add_item json_line s cx)"
  using assms
  by (auto simp: context_inv_def add_item_def Let_def max_broad_only_items_def memory_max_context_chars_def
      memory_max_estimated_tokens_def)

lemma add_item_items: "cx_items (add_item json_line s cx) = cx_items cx \<or> cx_items (add_item json_line s cx) = cx_items cx @ [s]"
  by (auto simp: add_item_def Let_def)

lemma build_context_ok:
  assumes "context_inv json_line cx"
  shows "context_inv json_line (build_context json_line scored cx)
    \<and> (\<exists>ys. subseq ys scored \<and> cx_items (build_context json_line scored cx) = cx_items cx @ ys)"
  using assms
proof (induction json_line scored cx rule: build_context.induct)
  case (2 json_line s rest cx)
  show ?case
  proof (cases "memory_max_items \<le> length (cx_items cx)")
    case False
    then have "context_inv json_line (add_item json_line s cx)"
      using 2(2) by (intro add_item_inv) (simp_all add: memory_max_items_def)
    from 2(1) [OF False this] add_item_items [of json_line s cx] False show ?thesis
      by (auto intro: exI [of _ "s # _"])
  qed (use 2 in auto)
qed simp

section \<open>The retrieval\<close>

lemma candidates_owned:
  "r \<in> set (find_memory_retrieval_candidates now lower owner character signals limit db) \<Longrightarrow>
    \<exists>m\<in>set (memories db). r = memory_retrieval_from_row db m \<and> owns_memory owner m \<and> mem_character m = character
      \<and> (case mem_expires m of None \<Rightarrow> True | Some e \<Rightarrow> now < e)"
  by (auto simp: find_memory_retrieval_candidates_def retrievable_def split: if_splits dest!: in_set_takeD)

lemma selected_context:
  assumes "select_memory_context_with_signals uc json_line items message now signals = Some rc"
  shows "\<exists>cx. context_inv json_line cx \<and> cx_items cx = rc_items rc \<and> cx_text cx = rc_text rc
    \<and> rc_items rc \<noteq> [] \<and> rc_tokens rc = estimate_tokens (rc_text rc)"
    and "set (map sc_item (rc_items rc)) \<subseteq> {m \<in> set items. retrieval_item_is_safe uc now m}"
    and "distinct (map (mr_key \<circ> sc_item) (rc_items rc))"
    and "sorted_wrt (\<lambda>a b. sc_specific b \<longrightarrow> sc_specific a) (rc_items rc)"
proof -
  let ?scored = "List.map_filter (\<lambda>m. score_memory uc m signals message now) (unique_items uc now items)"
  let ?start = "\<lparr>cx_text = memory_context_header, cx_items = [], cx_broad = 0, cx_topics = {}\<rparr>"
  let ?cx = "build_context json_line (ranked ?scored) ?start"
  have rc: "cx_items ?cx \<noteq> []" "rc = \<lparr>rc_text = cx_text ?cx, rc_items = cx_items ?cx, rc_tokens = estimate_tokens (cx_text ?cx)\<rparr>"
    using assms by (auto simp: select_memory_context_with_signals_def Let_def split: if_splits)
  have "context_inv json_line ?start" by (simp add: context_inv_def)
  note built = build_context_ok [OF this, of "ranked ?scored"]
  from rc built show "\<exists>cx. context_inv json_line cx \<and> cx_items cx = rc_items rc \<and> cx_text cx = rc_text rc
    \<and> rc_items rc \<noteq> [] \<and> rc_tokens rc = estimate_tokens (rc_text rc)" by (intro exI [of _ ?cx]) simp
  from built rc have sub: "subseq (rc_items rc) (ranked ?scored)" by auto
  obtain ys where ys: "subseq ys (unique_items uc now items)" "map sc_item ?scored = ys" using scored_items by blast
  have "set (ranked ?scored) = set ?scored" using ranked_items by (rule mset_eq_setD)
  with sub have "set (rc_items rc) \<subseteq> set ?scored" by (auto dest: list_emb_set)
  then have "set (map sc_item (rc_items rc)) \<subseteq> set ys" using ys(2) by auto
  also have "\<dots> \<subseteq> set (unique_items uc now items)" using ys(1) by (auto dest: list_emb_set)
  finally show "set (map sc_item (rc_items rc)) \<subseteq> {m \<in> set items. retrieval_item_is_safe uc now m}"
    using unique_items_ok(2) by (rule order_trans)
  have "distinct (map mr_key ys)" by (rule subseq_distinct [OF subseq_map [OF ys(1)] unique_items_ok(1)])
  then have "distinct (map (mr_key \<circ> sc_item) ?scored)" by (simp flip: ys(2))
  then have "distinct (map (mr_key \<circ> sc_item) (ranked ?scored))"
    by (metis mset_map ranked_items mset_eq_imp_distinct_iff)
  with subseq_map [OF sub] show "distinct (map (mr_key \<circ> sc_item) (rc_items rc))" by (rule subseq_distinct)
  show "sorted_wrt (\<lambda>a b. sc_specific b \<longrightarrow> sc_specific a) (rc_items rc)"
    using sub ranked_specific_first by (rule sorted_wrt_subseq_of)
qed

text \<open>
  C7: A retrieved context is the header followed by one line for each of one to five items, at most 1200
  characters and 300 estimated tokens long; at most two items match on a broad topic only and they follow
  the specific matches; the keys differ; and every item is a memory of this owner and persona that has not
  expired and passes the test of \<open>retrieval_item_is_safe\<close>.
\<close>

theorem memory_context_bounds:
  assumes "retrieve_memory_context uc fold_case json_line db_now now owner character message db = Some rc"
  shows "rc_text rc = memory_context_header @ concat (map (context_line json_line \<circ> sc_item) (rc_items rc))
    \<and> 1 \<le> length (rc_items rc) \<and> length (rc_items rc) \<le> 5
    \<and> length (rc_text rc) \<le> 1200 \<and> rc_tokens rc = estimate_tokens (rc_text rc) \<and> rc_tokens rc \<le> 300
    \<and> length (filter broad_only (rc_items rc)) \<le> 2
    \<and> sorted_wrt (\<lambda>a b. sc_specific b \<longrightarrow> sc_specific a) (rc_items rc)
    \<and> distinct (map (mr_key \<circ> sc_item) (rc_items rc))
    \<and> (\<forall>s\<in>set (rc_items rc). retrieval_item_is_safe uc now (sc_item s)
        \<and> (\<exists>m\<in>set (memories db). sc_item s = memory_retrieval_from_row db m \<and> owns_memory owner m
              \<and> mem_character m = character \<and> (case mem_expires m of None \<Rightarrow> True | Some e \<Rightarrow> db_now < e)))"
proof -
  let ?items = "find_memory_retrieval_candidates db_now fold_case owner character
    (store_terms (signals_from_message uc message)) retrieval_candidate_limit db"
  have sel: "select_memory_context_with_signals uc json_line ?items message now (signals_from_message uc message) = Some rc"
    using assms by (auto simp: retrieve_memory_context_def Let_def split: if_splits)
  note s = selected_context [OF sel]
  from s(1) obtain cx where cx: "context_inv json_line cx" "cx_items cx = rc_items rc" "cx_text cx = rc_text rc"
    "rc_items rc \<noteq> []" "rc_tokens rc = estimate_tokens (rc_text rc)" by blast
  have "retrieval_item_is_safe uc now (sc_item x)
        \<and> (\<exists>m\<in>set (memories db). sc_item x = memory_retrieval_from_row db m \<and> owns_memory owner m
              \<and> mem_character m = character \<and> (case mem_expires m of None \<Rightarrow> True | Some e \<Rightarrow> db_now < e))"
    if "x \<in> set (rc_items rc)" for x
    using s(2) that candidates_owned by fastforce
  with cx s(3,4) show ?thesis by (auto simp: context_inv_def Suc_le_eq)
qed

section \<open>A retrieval\<close>

abbreviation w_sea :: ustr where
  "w_sea \<equiv> [115, 101, 97]"

lemma w_upper [simp]: "to_lower w_uc = to_ascii_lowercase"
  by (rule ext) (rule w_lower)

lemma w_alnum [simp]: "is_alnum w_uc c = (is_ascii_lowercase c \<or> is_ascii_digit c)"
  by (simp add: w_uc_def)

lemma stop_word_codes:
  "stop_words = [[97], [97,110], [97,110,100], [97,114,101], [97,98,111,117,116], [99,97,110], [100,111], [102,111,114],
    [104,111,119], [105], [105,110], [105,115], [109,101], [109,121], [111,102], [111,110],
    [112,108,101,97,115,101], [114,101,99,111,109,109,101,110,100], [116,101,108,108], [116,104,101], [116,111],
    [119,104,97,116], [119,104,101,114,101], [119,105,116,104], [121,111,117]]"
  by code_simp

lemma w_tokens:
  "lexical_tokens w_uc w_sea = {w_sea}"
  "lexical_tokens w_uc [115, 101, 101, 32, 116, 104, 101, 32, 115, 101, 97] = {[115, 101, 101], w_sea}"
  "lexical_tokens w_uc [116, 114, 105, 112, 46, 116, 119, 111] = {[116, 114, 105, 112], [116, 119, 111]}"
  unfolding lexical_tokens_def word_tokens_def stop_word_codes Let_def
  by (simp_all add: to_ascii_lowercase_def is_ascii_lowercase_def is_ascii_digit_def trim_by_def is_whitespace_def
      is_ascii_text_def)

lemma topic_codes:
  "canonical_topics =
    [([97,110,105,109,101], [[97,110,105,109,101], [3629, 3609, 3636, 3648, 3617, 3632]]),
     ([99,111,100,105,110,103], [[99,111,100,105,110,103], [99,111,100,101], [112,114,111,103,114,97,109,109,105,110,103],
       [3650, 3588, 3657, 3604], [3648, 3586, 3637, 3618, 3609, 3650, 3611, 3619, 3649, 3585, 3619, 3617]]),
     ([102,111,111,100], [[102,111,111,100], [102,111,111,100,115], [99,117,105,115,105,110,101],
       [99,117,105,115,105,110,101,115], [109,101,97,108], [109,101,97,108,115],
       [3629, 3634, 3627, 3634, 3619], [3586, 3629, 3591, 3585, 3636, 3609]]),
     ([103,97,109,105,110,103], [[103,97,109,105,110,103], [103,97,109,101], [103,97,109,101,115],
       [118,105,100,101,111,103,97,109,101], [118,105,100,101,111,103,97,109,101,115], [3648, 3585, 3617]]),
     ([109,117,115,105,99], [[109,117,115,105,99], [115,111,110,103], [115,111,110,103,115],
       [3648, 3614, 3621, 3591], [3604, 3609, 3605, 3619, 3637]]),
     ([116,114,97,118,101,108], [[116,114,97,118,101,108], [116,114,97,118,101,108,105,110,103],
       [116,114,97,118,101,108,108,105,110,103], [116,114,105,112], [116,114,105,112,115], [116,111,117,114,105,115,109],
       [3607, 3656, 3629, 3591, 3648, 3607, 3637, 3656, 3618, 3623],
       [3648, 3604, 3636, 3609, 3607, 3634, 3591], [3648, 3607, 3637, 3656, 3618, 3623]])]"
  unfolding canonical_topics_def by (simp add: ascii_def)

lemma w_normalized:
  "normalized w_uc w_sea = w_sea"
  "normalized w_uc [115, 101, 101, 32, 116, 104, 101, 32, 115, 101, 97] = [115, 101, 101, 32, 116, 104, 101, 32, 115, 101, 97]"
  "normalized w_uc [116, 114, 105, 112, 46, 116, 119, 111] = [116, 114, 105, 112, 46, 116, 119, 111]"
  unfolding normalized_def w_upper
  by (simp_all add: split_whitespace.simps is_whitespace_def to_ascii_lowercase_def)

lemma w_topics:
  "canonical_topics_for_parts w_uc [w_sea] = {}"
  unfolding canonical_topics_for_parts_def topic_codes
  by (simp_all add: w_tokens w_normalized topic_matches_def is_ascii_text_def)

lemma w_specific: "specific_lexical_tokens w_uc w_sea = {w_sea}"
proof -
  have "fold (\<lambda>alias t. replace_all alias [32] t)
      (filter (\<lambda>a. \<not> is_ascii_text a) (concat (map snd canonical_topics))) w_sea = w_sea"
    unfolding topic_codes by (simp add: is_ascii_text_def)
  then show ?thesis
    by (simp add: specific_lexical_tokens_def w_normalized w_tokens is_broad_topic_alias_def canonical_topic_for_tag_def topic_codes
        cong: conj_cong)
qed

lemma w_signals:
  "signals_from_message w_uc w_sea = \<lparr>specific_lexical = {w_sea}, canonical_signals = {}, expanded_signals = {w_sea},
    store_terms = [w_sea]\<rparr>"
proof -
  have "topic_terms {} = []" by (simp add: topic_terms_def split_beta)
  then show ?thesis
    by (simp add: signals_from_message_def w_tokens w_topics w_specific push_unique_signal_def max_topic_signals_def
        Let_def)
qed

definition w_trip_db :: chat_db where
  "w_trip_db = w_planned\<lparr>memories := [w_memory 52 ''trip.two'']\<rparr>"

definition w_trip :: memory_retrieval_record where
  "w_trip = memory_retrieval_from_row w_trip_db (w_memory 52 ''trip.two'')"

lemma w_trip_fields:
  "mr_key w_trip = [116, 114, 105, 112, 46, 116, 119, 111]"
  "mr_content w_trip = [115, 101, 101, 32, 116, 104, 101, 32, 115, 101, 97]" "mr_tags w_trip = []"
  "mr_kind w_trip = ascii ''plan''" "mr_expires w_trip = None" "mr_importance w_trip = Fin 1"
  "mr_confidence w_trip = Fin (16609444 / 2 ^ 24)"
  by (simp_all add: w_trip_def memory_retrieval_from_row_def w_memory_def f32_values)
    (simp_all add: ascii_def)

lemma w_found: "find_memory_retrieval_candidates 100 id w_guest [97] [w_sea] retrieval_candidate_limit w_trip_db = [w_trip]"
proof -
  have "retrievable 100 id w_guest [97] [w_sea] (w_memory 52 ''trip.two'')"
    by (simp add: retrievable_def owns_memory_def owns_row_def w_guest_def w_memory_def memory_kinds_def f64_values
        matches_signal_def w_texts sublist_Cons_right)
  then show ?thesis
    by (simp add: find_memory_retrieval_candidates_def retrieval_candidate_limit_def w_trip_db_def w_trip_def)
qed

lemma w_not_temporary: "\<not> contains_temporary_detail w_uc (ascii ''see the sea'')"
  unfolding contains_temporary_detail_def w_lower w_texts
  by (simp add: to_ascii_lowercase_def contains_any_def temporary_terms_def) (simp add: ascii_def)

lemma w_trip_safe: "retrieval_item_is_safe w_uc 1000 w_trip"
proof -
  have "valid_memory_key [116, 114, 105, 112, 46, 116, 119, 111]"
    by (simp add: valid_memory_key_def memory_key_char_def is_ascii_lowercase_def utf8_len_def)
  moreover have "ascii ''plan'' \<in> set memory_kinds" by (simp add: memory_kinds_def)
  ultimately show ?thesis
    using w_not_sensitive w_no_injection w_not_temporary
    by (simp add: retrieval_item_is_safe_def w_trip_fields w_texts f32_values trim_by_def is_whitespace_def)
qed

lemma f32_relevance_values:
  "lit 25 = Fin (1 / 4)" "lit 12 = Fin (16106127 / 2 ^ 27)" "lit 18 = Fin (12079596 / 2 ^ 26)"
  "lit 35 = Fin (11744051 / 2 ^ 25)" "lit 45 = Fin (15099494 / 2 ^ 25)"
  "f32_round (1 / 4) = Fin (1 / 4)" "f32_round (49660559 / 134217728) = Fin (24830280 / 2 ^ 26)"
  "f32_round (3103785 / 8388608) = Fin (24830280 / 2 ^ 26)"
  by (simp_all add: lit_def f32_round_def f32_overflow_def round_abs_def f32_ulp_def
      round_half_even_def eval_nat_numeral Let_def)

lemma w_trip_topics: "canonical_topics_for_parts w_uc [mr_key w_trip, mr_content w_trip] = {[116,114,97,118,101,108]}"
  unfolding canonical_topics_for_parts_def topic_codes
  by (simp add: w_tokens w_normalized w_trip_fields topic_matches_def is_ascii_text_def)

lemma w_relevance:
  "relevance (Fin 0) (Fin 0) (Fin 1) False False True = Fin (24830280 / 2 ^ 26)"
  by (simp add: relevance_def f32_relevance_values f32_min_def)

lemma w_scored:
  "\<exists>s. score_memory w_uc w_trip (signals_from_message w_uc w_sea) w_sea 1000 = Some s \<and> sc_item s = w_trip"
proof -
  have ratio: "overlap_ratio {w_sea} A = (if w_sea \<in> A then Fin 1 else Fin 0)" if "A \<noteq> {}" for A
    using that by (simp add: overlap_ratio_def f32_values)
  have "score_memory w_uc w_trip (signals_from_message w_uc w_sea) w_sea 1000 \<noteq> None"
    unfolding score_memory_def w_signals w_trip_topics Let_def
    by (simp add: w_trip_topics [unfolded w_trip_fields] w_trip_fields w_tokens ratio w_normalized w_relevance
        f32_relevance_values)
  then show ?thesis using score_memory_item by fastforce
qed

definition w_json :: "ustr \<Rightarrow> string \<Rightarrow> ustr \<Rightarrow> ustr" where
  "w_json key certainty content = 123 # key @ 58 # content @ [125]"

lemma w_header: "length memory_context_header \<le> 1000" "estimate_tokens memory_context_header \<le> 200"
  by (simp_all add: memory_context_header_def estimate_tokens_def ascii_def)

lemma estimate_tokens_ascii:
  assumes "\<forall>c\<in>set t. c < 128"
  shows "estimate_tokens (s @ t) \<le> estimate_tokens s + length t"
proof -
  have "filter (\<lambda>c. c < 128) t = t" using assms by simp
  then show ?thesis using length_filter_le [of "\<lambda>c. c < 128" s] by (simp add: estimate_tokens_def Let_def)
qed

lemma w_retrieved:
  "\<exists>rc. retrieve_memory_context w_uc id w_json 100 1000 w_guest [97] w_sea w_trip_db = Some rc"
proof -
  obtain s where s: "score_memory w_uc w_trip (signals_from_message w_uc w_sea) w_sea 1000 = Some s" "sc_item s = w_trip"
    using w_scored by blast
  have line: "context_line w_json w_trip = [123, 116, 114, 105, 112, 46, 116, 119, 111, 58, 115, 101, 101, 32, 116, 104, 101, 32,
      115, 101, 97, 125, 10]"
    by (simp add: context_line_def w_json_def w_trip_fields)
  have "estimate_tokens (memory_context_header @ context_line w_json w_trip) \<le> 300"
    using estimate_tokens_ascii [of "context_line w_json w_trip" memory_context_header] w_header(2) by (simp add: line)
  moreover have "length (memory_context_header @ context_line w_json w_trip) \<le> 1200"
    using w_header(1) by (simp add: line)
  moreover have "broad_only s \<Longrightarrow> sc_broad s \<noteq> {}" by (simp add: broad_only_def)
  ultimately have "cx_items (add_item w_json s \<lparr>cx_text = memory_context_header, cx_items = [], cx_broad = 0, cx_topics = {}\<rparr>) = [s]"
    by (auto simp: add_item_def s(2) max_broad_only_items_def memory_max_context_chars_def memory_max_estimated_tokens_def Let_def)
  moreover have "unique_items w_uc 1000 [w_trip] = [w_trip]" by (simp add: unique_items_def w_trip_safe)
  ultimately show ?thesis
    using s(1)
    by (simp add: retrieve_memory_context_def w_signals w_found select_memory_context_with_signals_def
        List.map_filter_simps ranked_def memory_max_items_def Let_def)
qed

theorem memory_context_bounds_witness:
  "\<exists>rc. retrieve_memory_context w_uc id w_json 100 1000 w_guest [97] w_sea w_trip_db = Some rc
     \<and> 1 \<le> length (rc_items rc) \<and> rc_tokens rc \<le> 300"
proof -
  obtain rc where rc: "retrieve_memory_context w_uc id w_json 100 1000 w_guest [97] w_sea w_trip_db = Some rc"
    using w_retrieved by blast
  from memory_context_bounds [OF rc] rc show ?thesis by blast
qed

section \<open>One topic, two broad items\<close>

text \<open>
  \<open>docs/automatic-memory.md\<close> promises one broad-only item per topic; an item of two topics is added
  although an item of one of them is there already.
\<close>

lemma broad_topic_repeated:
  assumes items: "\<not> sc_specific a" "sc_broad a = {food}" "\<not> sc_specific b" "sc_broad b = {food, travel}" "food \<noteq> travel"
    and fits: "length (memory_context_header @ context_line json_line (sc_item a) @ context_line json_line (sc_item b)) \<le> 1200"
      "estimate_tokens (memory_context_header @ context_line json_line (sc_item a) @ context_line json_line (sc_item b)) \<le> 300"
      "estimate_tokens (memory_context_header @ context_line json_line (sc_item a)) \<le> 300"
  shows "cx_items (build_context json_line [a, b]
      \<lparr>cx_text = memory_context_header, cx_items = [], cx_broad = 0, cx_topics = {}\<rparr>) = [a, b]"
proof -
  have "broad_only a" "broad_only b" using items by (simp_all add: broad_only_def)
  with items fits show ?thesis
    by (simp add: add_item_def max_broad_only_items_def memory_max_context_chars_def memory_max_estimated_tokens_def
        memory_max_items_def Let_def)
qed

end
