(* ===== verification/Memory_Capture.thy ===== *)
theory Memory_Capture
  imports Memory_Text Memory_Db
begin

text \<open>
  The capture of memories, \<open>memory.rs\<close>: what an extractor may return, which of its candidates are stored,
  and one turn of the capture worker. The extractor (a request to the provider, whose answer \<open>serde_json\<close>
  reads) is an argument; its \<open>f32\<close> values are those of \<open>F32\<close>.
\<close>

datatype candidate_action = Reinforce | Replace

record extractor_candidate =
  ec_action :: candidate_action
  ec_key :: ustr
  ec_kind :: ustr
  ec_content :: ustr
  ec_tags :: "ustr list"
  ec_confidence :: f32
  ec_importance :: f32
  ec_strength :: f32
  ec_evidence :: ustr
  ec_expires :: "nat option"

definition max_candidates :: nat where
  "max_candidates = 5"

definition max_temporal_memory_lifetime_seconds :: nat where
  "max_temporal_memory_lifetime_seconds = 90 * 86400"

text \<open>\<open>!x.is_finite() || x < low || x > 1.0\<close> is the rejection; \<open>low\<close> is a literal, rounded to \<open>f32\<close>.\<close>

definition f32_between :: "rat \<Rightarrow> f32 \<Rightarrow> bool" where
  "f32_between low v \<longleftrightarrow> is_finite v \<and> \<not> f32_less v (f32_round low) \<and> \<not> f32_less (Fin 1) v"

definition expiration_is_valid :: "bool \<Rightarrow> nat \<Rightarrow> nat option \<Rightarrow> bool" where
  "expiration_is_valid temporal_kind captured expires \<longleftrightarrow>
     (case expires of
        None \<Rightarrow> True
      | Some e \<Rightarrow> temporal_kind \<and> captured < e
          \<and> e \<le> sat_add 64 captured max_temporal_memory_lifetime_seconds)"

definition candidate_acceptable :: "unicode \<Rightarrow> extractor_candidate \<Rightarrow> ustr \<Rightarrow> nat \<Rightarrow> bool" where
  "candidate_acceptable uc cand user_content captured \<longleftrightarrow>
     (let key = to_ascii_lowercase (trim_by is_whitespace (ec_key cand));
          kind = to_ascii_lowercase (trim_by is_whitespace (ec_kind cand));
          content = trim_by is_whitespace (ec_content cand);
          evidence = trim_by is_whitespace (ec_evidence cand);
          temporal_kind = plan_or_goal kind;
          has_relative_time = contains_temporary_detail uc content \<or> contains_temporary_detail uc evidence
      in valid_memory_key key \<and> kind \<in> set memory_kinds
         \<and> 3 \<le> utf8_len content \<and> utf8_len content \<le> 240
         \<and> 3 \<le> utf8_len evidence \<and> utf8_len evidence \<le> 200
         \<and> str_contains (normalized uc evidence) (normalized uc user_content)
         \<and> f32_between (65 / 100) (ec_confidence cand)
         \<and> f32_between (45 / 100) (ec_importance cand)
         \<and> f32_between (6 / 10) (ec_strength cand)
         \<and> \<not> contains_sensitive_data uc key \<and> \<not> contains_sensitive_data uc content
         \<and> \<not> contains_sensitive_data uc evidence
         \<and> expiration_is_valid temporal_kind captured (ec_expires cand)
         \<and> \<not> (has_relative_time \<and> (\<not> temporal_kind \<or> ec_expires cand = None)))"

text \<open>The tags: canonical names first, then the specific ones, each in the order of a \<open>BTreeSet\<close>.\<close>

definition specific_tag_char :: "nat \<Rightarrow> bool" where
  "specific_tag_char c \<longleftrightarrow> is_ascii_lowercase c \<or> is_ascii_digit c \<or> c = 95 \<or> c = 45"

fun sort_tags :: "unicode \<Rightarrow> ustr list \<Rightarrow> ustr set \<times> ustr set \<Rightarrow> (ustr set \<times> ustr set) option" where
  "sort_tags uc [] acc = Some acc"
| "sort_tags uc (raw # raws) (canonical, specific) =
     (let tag = to_lower uc (trim_by is_whitespace raw)
      in if tag = [] \<or> 32 < length tag then None
         else (case canonical_topic_for_tag tag of
                 Some name \<Rightarrow> sort_tags uc raws (insert name canonical, specific)
               | None \<Rightarrow>
                   if \<not> list_all specific_tag_char tag then None
                   else sort_tags uc raws (canonical, insert tag specific)))"

definition candidate_tags :: "unicode \<Rightarrow> ustr \<Rightarrow> ustr \<Rightarrow> ustr list \<Rightarrow> ustr list option" where
  "candidate_tags uc key content tags =
     (if 6 < length tags then None
      else (case sort_tags uc tags ({}, {}) of
              None \<Rightarrow> None
            | Some (canonical, specific) \<Rightarrow>
                Some (take 6
                  (sorted_list_of_set (canonical \<union> canonical_topics_for_parts uc
                     (key # content # sorted_list_of_set specific))
                   @ sorted_list_of_set specific))))"

definition validate_candidate ::
  "unicode \<Rightarrow> extractor_candidate \<Rightarrow> ustr \<Rightarrow> nat \<Rightarrow> captured_memory option" where
  "validate_candidate uc cand user_content captured =
     (let key = to_ascii_lowercase (trim_by is_whitespace (ec_key cand));
          content = trim_by is_whitespace (ec_content cand)
      in if \<not> candidate_acceptable uc cand user_content captured then None
         else (case candidate_tags uc key content (ec_tags cand) of
                 None \<Rightarrow> None
               | Some tags \<Rightarrow>
                   Some \<lparr>cap_key = key,
                     cap_kind = to_ascii_lowercase (trim_by is_whitespace (ec_kind cand)),
                     cap_content = content, cap_tags = tags, cap_importance = ec_importance cand,
                     cap_strength = ec_strength cand, cap_expires = ec_expires cand,
                     cap_replaces = (ec_action cand = Replace)\<rparr>))"

definition accept_candidate ::
  "unicode \<Rightarrow> ustr \<Rightarrow> nat \<Rightarrow> extractor_candidate \<Rightarrow> captured_memory list \<Rightarrow> captured_memory list" where
  "accept_candidate uc user_content captured cand accepted =
     (case validate_candidate uc cand user_content captured of
        None \<Rightarrow> accepted
      | Some m \<Rightarrow> if list_ex (\<lambda>x. cap_key x = cap_key m) accepted then accepted else accepted @ [m])"

definition validate_output ::
  "unicode \<Rightarrow> extractor_candidate list \<Rightarrow> ustr \<Rightarrow> nat \<Rightarrow> captured_memory list \<times> nat" where
  "validate_output uc output user_content captured =
     (if max_candidates < length output \<or> contains_sensitive_data uc user_content then ([], length output)
      else (let accepted = fold (accept_candidate uc user_content captured) output []
            in (accepted, length output - length accepted)))"

section \<open>The worker\<close>

text \<open>
  \<open>process_next_job\<close>: the times of its statements and the UUIDs are arguments (\<open>jt_ids\<close> has a pair for each
  of the at most five candidates); \<open>extract\<close> is the provider. The result is \<open>Ok\<close> of whether there was a job, or the code of an error of the database.
\<close>

record job_turn =
  jt_claimed :: micros
  jt_settled :: micros
  jt_ids :: "(uuid \<times> uuid) list"

definition process_next_job ::
  "unicode \<Rightarrow> (extraction_job_record \<Rightarrow> string + extractor_candidate list) \<Rightarrow> job_turn \<Rightarrow> chat_db
    \<Rightarrow> (string + bool) \<times> chat_db" where
  "process_next_job uc extract turn db =
     (case claim_memory_extraction_job (jt_claimed turn) db of
        (None, db1) \<Rightarrow> (Inr False, db1)
      | (Some job, db1) \<Rightarrow>
          (case extract job of
             Inl code \<Rightarrow>
               (case fail_memory_extraction_job (jt_settled turn) (ej_id job) (ascii code) db1 of
                  (Inl e, db2) \<Rightarrow> (Inl ''failure_state_update_failed'', db2)
                | (Inr s, db2) \<Rightarrow> (Inr True, db2))
           | Inr output \<Rightarrow>
               (case apply_memory_capture (jt_settled turn) (ej_id job)
                  (zip (jt_ids turn) (fst (validate_output uc output (ej_content job) (ej_captured job)))) db1 of
                  (Inl e, db2) \<Rightarrow> (Inl ''capture_persistence_failed'', db2)
                | (Inr applied, db2) \<Rightarrow>
                    if applied then (Inr True, db2) else (Inl ''capture_job_disappeared'', db2))))"

definition max_jobs_per_tick :: nat where
  "max_jobs_per_tick = 10"

text \<open>One tick of \<open>spawn_memory_capture_worker\<close>: up to ten jobs, until none is left or an error occurs.\<close>

fun worker_tick ::
  "unicode \<Rightarrow> (extraction_job_record \<Rightarrow> string + extractor_candidate list) \<Rightarrow> job_turn list \<Rightarrow> chat_db \<Rightarrow> chat_db" where
  "worker_tick uc extract [] db = db"
| "worker_tick uc extract (turn # turns) db =
     (case process_next_job uc extract turn db of
        (Inr True, db1) \<Rightarrow> worker_tick uc extract turns db1
      | (_, db1) \<Rightarrow> db1)"

definition capture_tick ::
  "unicode \<Rightarrow> (extraction_job_record \<Rightarrow> string + extractor_candidate list) \<Rightarrow> job_turn list \<Rightarrow> chat_db \<Rightarrow> chat_db" where
  "capture_tick uc extract turns db = worker_tick uc extract (take max_jobs_per_tick turns) db"

section \<open>Facts about accepted memories\<close>

definition captured_ok :: "unicode \<Rightarrow> ustr \<Rightarrow> nat \<Rightarrow> captured_memory \<Rightarrow> bool" where
  "captured_ok uc user_content captured m \<longleftrightarrow>
     valid_memory_key (cap_key m) \<and> cap_kind m \<in> set memory_kinds
     \<and> 3 \<le> utf8_len (cap_content m) \<and> utf8_len (cap_content m) \<le> 240 \<and> length (cap_tags m) \<le> 6
     \<and> f32_between (45 / 100) (cap_importance m) \<and> f32_between (6 / 10) (cap_strength m)
     \<and> \<not> contains_sensitive_data uc (cap_key m) \<and> \<not> contains_sensitive_data uc (cap_content m)
     \<and> \<not> contains_sensitive_data uc user_content
     \<and> (case cap_expires m of
          None \<Rightarrow> \<not> contains_temporary_detail uc (cap_content m)
        | Some e \<Rightarrow> plan_or_goal (cap_kind m) \<and> captured < e
            \<and> e \<le> captured + max_temporal_memory_lifetime_seconds)"

lemma validate_candidate_ok:
  assumes "validate_candidate uc cand user_content captured = Some m"
    and "\<not> contains_sensitive_data uc user_content"
  shows "captured_ok uc user_content captured m"
proof -
  obtain tags where acc: "candidate_acceptable uc cand user_content captured"
    and tags: "candidate_tags uc (to_ascii_lowercase (trim_by is_whitespace (ec_key cand)))
      (trim_by is_whitespace (ec_content cand)) (ec_tags cand) = Some tags"
    and m: "m = \<lparr>cap_key = to_ascii_lowercase (trim_by is_whitespace (ec_key cand)),
      cap_kind = to_ascii_lowercase (trim_by is_whitespace (ec_kind cand)),
      cap_content = trim_by is_whitespace (ec_content cand), cap_tags = tags,
      cap_importance = ec_importance cand, cap_strength = ec_strength cand, cap_expires = ec_expires cand,
      cap_replaces = (ec_action cand = Replace)\<rparr>"
    using assms(1) by (auto simp: validate_candidate_def Let_def split: if_splits option.splits)
  have "length tags \<le> 6" using tags by (auto simp: candidate_tags_def split: if_splits option.splits prod.splits)
  moreover have "case ec_expires cand of None \<Rightarrow> True | Some e \<Rightarrow> e \<le> captured + max_temporal_memory_lifetime_seconds"
    using acc by (auto simp: candidate_acceptable_def expiration_is_valid_def Let_def split: option.splits
        intro: order_trans [OF _ sat_add_le])
  ultimately show ?thesis
    using acc assms(2)
    by (auto simp: captured_ok_def m candidate_acceptable_def expiration_is_valid_def Let_def split: option.splits)
qed

lemma accepted_ok:
  assumes "\<not> contains_sensitive_data uc user_content"
    and "\<forall>m\<in>set acc. captured_ok uc user_content captured m" and "distinct (map cap_key acc)"
  shows "(\<forall>m\<in>set (fold (accept_candidate uc user_content captured) outs acc). captured_ok uc user_content captured m)
    \<and> distinct (map cap_key (fold (accept_candidate uc user_content captured) outs acc))
    \<and> length (fold (accept_candidate uc user_content captured) outs acc) \<le> length acc + length outs"
  using assms(2,3)
proof (induction outs arbitrary: acc)
  case (Cons cand outs)
  let ?acc = "accept_candidate uc user_content captured cand acc"
  have "(\<forall>m\<in>set ?acc. captured_ok uc user_content captured m) \<and> distinct (map cap_key ?acc)
      \<and> length ?acc \<le> Suc (length acc)"
    using Cons.prems validate_candidate_ok [OF _ assms(1)]
    by (auto simp: accept_candidate_def list_ex_iff split: option.splits)
  with Cons.IH [of ?acc] show ?case by auto
qed simp

end
