(* ===== verification/Memory_Capture_Props.thy ===== *)
theory Memory_Capture_Props
  imports Memory_Capture Memory_Props
begin

text \<open>
  What the capture accepts from the extractor, and that storing it cannot violate a check of the tables.
\<close>

section \<open>Accepted memories\<close>

text \<open>
  C13: Whatever the extractor returns, at most five memories are accepted and every other candidate is
  counted as rejected; the accepted keys differ; each accepted memory has a well-formed key, a known kind, 3 to
  240 bytes of content without sensitive data, a score in range, and an expiry only as a plan or a goal, within
  ninety days; and nothing is accepted from a message that holds sensitive data.
\<close>

theorem capture_output_validated:
  "length (fst (validate_output uc out user_content captured)) \<le> 5
   \<and> length (fst (validate_output uc out user_content captured)) + snd (validate_output uc out user_content captured) = length out
   \<and> distinct (map cap_key (fst (validate_output uc out user_content captured)))
   \<and> list_all (captured_ok uc user_content captured) (fst (validate_output uc out user_content captured))"
proof (cases "max_candidates < length out \<or> contains_sensitive_data uc user_content")
  case True
  then show ?thesis by (simp add: validate_output_def)
next
  case False
  with accepted_ok [of uc user_content "[]" captured out] show ?thesis
    by (simp add: validate_output_def Let_def list_all_iff max_candidates_def)
qed

section \<open>Storing them\<close>

lemma key_not_blank:
  assumes "valid_memory_key key"
  shows "\<not> btrim_blank key"
proof
  assume "btrim_blank key"
  then have all: "\<forall>c\<in>set key. c = 32" by (simp add: btrim_blank_def list_all_iff)
  have "split_on (\<lambda>c. c = 46) acc key = [rev acc @ key]" for acc
    using all by (induction key arbitrary: acc) auto
  from this [of "[]"] have "length (split_on (\<lambda>c. c = 46) [] key) = 1" by simp
  with assms show False by (simp add: valid_memory_key_def Let_def)
qed

lemma trim_not_blank:
  assumes "trim_by is_whitespace s \<noteq> []"
  shows "\<not> btrim_blank (trim_by is_whitespace s)"
proof
  let ?t = "trim_by is_whitespace s"
  assume "btrim_blank ?t"
  moreover have "last ?t \<in> set ?t" using assms by simp
  ultimately have "last ?t = 32" by (simp add: btrim_blank_def list_all_iff)
  moreover have "\<not> is_whitespace (last ?t)"
    using assms hd_dropWhile [of is_whitespace "rev (dropWhile is_whitespace s)"]
    by (simp add: trim_by_def last_rev)
  ultimately show False by (simp add: is_whitespace_def)
qed

lemma accepted_not_blank:
  "list_all (\<lambda>m. \<not> btrim_blank (cap_content m)) (fst (validate_output uc out user_content captured))"
proof -
  have one: "\<not> btrim_blank (cap_content m)" if v: "validate_candidate uc cand user_content captured = Some m" for cand m
  proof -
    have "candidate_acceptable uc cand user_content captured" "cap_content m = trim_by is_whitespace (ec_content cand)"
      using v by (auto simp: validate_candidate_def Let_def split: if_splits option.splits)
    then have "3 \<le> utf8_len (cap_content m)" by (simp add: candidate_acceptable_def Let_def)
    then have "cap_content m \<noteq> []" by (auto simp: utf8_len_def)
    then show ?thesis using trim_not_blank [of "ec_content cand"]
      by (simp add: \<open>cap_content m = trim_by is_whitespace (ec_content cand)\<close>)
  qed
  have "\<forall>m\<in>set (fold (accept_candidate uc user_content captured) out acc). \<not> btrim_blank (cap_content m)"
    if "\<forall>m\<in>set acc. \<not> btrim_blank (cap_content m)" for acc
    using that
  proof (induction out arbitrary: acc)
    case (Cons cand out)
    then have "\<forall>m\<in>set (accept_candidate uc user_content captured cand acc). \<not> btrim_blank (cap_content m)"
      using one by (auto simp: accept_candidate_def split: option.splits)
    with Cons.IH show ?case by simp
  qed simp
  from this [of "[]"] show ?thesis by (simp add: validate_output_def Let_def list_all_iff)
qed

text \<open>What the tables demand of a captured memory.\<close>

definition storable :: "captured_memory \<Rightarrow> bool" where
  "storable m \<longleftrightarrow>
     memory_checks (cap_key m) (cap_kind m) (cap_content m) \<and> unit_value (cap_importance m) \<noteq> None
     \<and> unit_value (cap_strength m) \<noteq> None \<and> (\<exists>e. optional_timestamp (cap_expires m) = Inr e)"

lemma between_unit:
  assumes "f32_between low v" and "0 \<le> low"
  shows "unit_value v \<noteq> None"
  using assms f32_round_nonneg [OF assms(2)]
  by (cases v) (auto simp: f32_between_def unit_value_def)

lemma accepted_storable:
  assumes bound: "captured + max_temporal_memory_lifetime_seconds < 9224318016000"
    and m: "m \<in> set (fst (validate_output uc out user_content captured))"
  shows "storable m"
proof -
  have ok: "captured_ok uc user_content captured m"
    using capture_output_validated [of uc out user_content captured] m by (simp add: list_all_iff)
  have "\<not> btrim_blank (cap_content m)" using accepted_not_blank m by (fastforce simp: list_all_iff)
  moreover have "\<not> btrim_blank (cap_key m)" using ok key_not_blank by (simp add: captured_ok_def)
  moreover have "\<not> btrim_blank (cap_kind m)"
    using ok by (auto simp: captured_ok_def memory_kinds_def btrim_blank_def ascii_def)
  moreover have "unit_value (cap_importance m) \<noteq> None" "unit_value (cap_strength m) \<noteq> None"
    using ok by (auto simp: captured_ok_def dest!: between_unit)
  moreover have "\<exists>e. optional_timestamp (cap_expires m) = Inr e"
  proof (cases "cap_expires m")
    case (Some e)
    with ok have "e \<le> captured + max_temporal_memory_lifetime_seconds" by (simp add: captured_ok_def)
    with bound have "e < 9224318016000" by simp
    then show ?thesis by (simp add: optional_timestamp_def Some timestamp_of_seconds_def to_timestamp_def)
  qed (simp add: optional_timestamp_def)
  ultimately show ?thesis by (simp add: storable_def memory_checks_def)
qed

definition new_ids :: "chat_db \<Rightarrow> chat_db \<Rightarrow> uuid \<times> uuid \<Rightarrow> bool" where
  "new_ids db db' ids \<longleftrightarrow>
     mem_id ` set (memories db') \<subseteq> insert (fst ids) (mem_id ` set (memories db))
     \<and> src_id ` set (sources db') \<subseteq> insert (snd ids) (src_id ` set (sources db))"

lemma recalculate_ids [simp]:
  "mem_id ` set (memories (recalculate_evidence now is db)) = mem_id ` set (memories db)"
  using recalculate_tables(3) [of now "is" db] by (metis list.set_map)

lemma store_source_storable:
  assumes "storable cand" and "k \<notin> src_id ` set (sources db)"
  shows "\<exists>db'. store_source now c message i k cand db = Inr db' \<and> mem_id ` set (memories db') = mem_id ` set (memories db)
    \<and> src_id ` set (sources db') \<subseteq> insert k (src_id ` set (sources db))"
proof -
  obtain q where q: "unit_value (cap_strength cand) = Some q" using assms(1) by (auto simp: storable_def)
  let ?s = "\<lparr>src_id = k, src_memory = i, src_chat = chat_id c, src_message = Some message, src_strength = q, src_created = now\<rparr>"
  have "\<exists>db1. put_source ?s max db = Inr db1 \<and> memories db1 = memories db
      \<and> src_id ` set (sources db1) \<subseteq> insert k (src_id ` set (sources db))"
    using assms(2) by (auto simp: put_source_def Let_def image_iff)
  with q show ?thesis by (auto simp: store_source_def)
qed

lemma image_of_update:
  "(\<And>x. g (f x) = g x) \<Longrightarrow> g ` set (map (\<lambda>x. if P x then f x else x) xs) = g ` set xs"
  by (induction xs) auto

lemma update_memory_storable:
  assumes "storable cand" and "mem_key old = cap_key cand"
  shows "\<exists>db1. update_memory now old cand db = Inr db1
    \<and> mem_id ` set (memories db1) = mem_id ` set (memories db) \<and> set (sources db1) \<subseteq> set (sources db)"
proof -
  obtain expires imp where "optional_timestamp (cap_expires cand) = Inr expires" "unit_value (cap_importance cand) = Some imp"
    using assms(1) by (auto simp: storable_def)
  with assms show ?thesis
    by (auto simp: storable_def update_memory_def Let_def image_of_update simp del: set_map)
qed

lemma disjoint_step: "x \<notin> S \<Longrightarrow> S \<inter> M = {} \<Longrightarrow> M' \<subseteq> insert x M \<Longrightarrow> S \<inter> M' = {}"
  by blast

lemma capture_candidate_storable:
  assumes ok: "storable cand" and fresh: "fst ids \<notin> mem_id ` set (memories db)" "snd ids \<notin> src_id ` set (sources db)"
  shows "\<exists>db'. capture_candidate now c message ids cand db = Inr db' \<and> new_ids db db' ids"
proof (cases "find (same_memory_key (chat_session c) (chat_user c) (chat_character c) (cap_key cand)) (memories db)")
  case None
  obtain db1 where db1: "insert_memory now (fst ids) c cand db = Inr db1"
    "mem_id ` set (memories db1) \<subseteq> insert (fst ids) (mem_id ` set (memories db))" "sources db1 = sources db"
    using ok fresh(1) by (auto simp: storable_def insert_memory_def)
  with store_source_storable [OF ok, of "snd ids" db1 now c message "fst ids"] fresh(2) None show ?thesis
    by (auto simp: capture_candidate_def new_ids_def)
next
  case (Some old)
  show ?thesis
  proof (cases "mem_content old \<noteq> cap_content cand \<and> \<not> cap_replaces cand")
    case True
    with Some show ?thesis by (auto simp: capture_candidate_def new_ids_def)
  next
    case False
    have "mem_key old = cap_key cand" using find_SomeD [OF Some] by (simp add: same_memory_key_def)
    then obtain db1 where db1: "update_memory now old cand db = Inr db1"
      "mem_id ` set (memories db1) = mem_id ` set (memories db)" "set (sources db1) \<subseteq> set (sources db)"
      using update_memory_storable [OF ok] by blast
    then have "snd ids \<notin> src_id ` set (sources db1)" using fresh(2) by blast
    from store_source_storable [OF ok this, of now c message "mem_id old"] obtain db' where
      "store_source now c message (mem_id old) (snd ids) cand db1 = Inr db'"
      "mem_id ` set (memories db') = mem_id ` set (memories db1)"
      "src_id ` set (sources db') \<subseteq> insert (snd ids) (src_id ` set (sources db1))" by blast
    moreover from this(3) db1(3) have "src_id ` set (sources db') \<subseteq> insert (snd ids) (src_id ` set (sources db))" by blast
    ultimately show ?thesis
      using Some False db1 unfolding capture_candidate_def new_ids_def by auto
  qed
qed

lemma capture_candidates_storable:
  assumes "\<forall>(ids, m)\<in>set cands. storable m"
    and "distinct (map (fst \<circ> fst) cands)" "distinct (map (snd \<circ> fst) cands)"
    and "(fst \<circ> fst) ` set cands \<inter> mem_id ` set (memories db) = {}" "(snd \<circ> fst) ` set cands \<inter> src_id ` set (sources db) = {}"
  shows "\<exists>db'. capture_candidates now c message cands db = Inr db'"
  using assms
proof (induction now c message cands db rule: capture_candidates.induct)
  case (2 now c message ids cand rest db)
  obtain db1 where db1: "capture_candidate now c message ids cand db = Inr db1" "new_ids db db1 ids"
    using capture_candidate_storable [of cand ids db now c message] "2.prems" by auto
  have "(fst \<circ> fst) ` set rest \<inter> mem_id ` set (memories db1) = {}" "(snd \<circ> fst) ` set rest \<inter> src_id ` set (sources db1) = {}"
    by (rule disjoint_step [of "fst ids" _ "mem_id ` set (memories db)"] disjoint_step [of "snd ids" _ "src_id ` set (sources db)"];
        use "2.prems"(2-5) db1(2) in \<open>simp add: new_ids_def\<close>)+
  with "2.IH" [OF db1(1)] "2.prems" db1(1) show ?case by simp
qed simp

text \<open>
  C6: When a worker claims a job whose message and chat still exist, the extractor answers, and the new UUIDs are
  fresh, the turn of the worker ends with the job completed, whatever the answer holds: no candidate that passes the
  validation can be refused by the tables.
\<close>

theorem capture_completes:
  assumes claim: "claim_memory_extraction_job (jt_claimed turn) db = (Some job, db1)"
    and answer: "extract job = Inr out" and row: "job_chat_row (ej_id job) db1 = Some (j, c)"
    and ids: "5 \<le> length (jt_ids turn)" "distinct (map fst (jt_ids turn))" "distinct (map snd (jt_ids turn))"
    and fresh: "fst ` set (jt_ids turn) \<inter> mem_id ` set (memories db1) = {}"
      "snd ` set (jt_ids turn) \<inter> src_id ` set (sources db1) = {}"
    and bound: "ej_captured job + max_temporal_memory_lifetime_seconds < 9224318016000"
  shows "\<exists>db2. process_next_job uc extract turn db = (Inr True, db2)
    \<and> (\<forall>k\<in>set (jobs db2). job_id k = ej_id job \<longrightarrow> job_status k = JobCompleted)"
proof -
  let ?acc = "fst (validate_output uc out (ej_content job) (ej_captured job))"
  let ?cands = "zip (jt_ids turn) ?acc"
  have fsts: "map (f \<circ> fst) ?cands = map f (take (min (length (jt_ids turn)) (length ?acc)) (jt_ids turn))" for f :: "uuid \<times> uuid \<Rightarrow> uuid"
    by (simp add: map_fst_zip_take flip: map_map)
  have "\<exists>db'. capture_candidates (jt_settled turn) c (job_user_message j) ?cands db1 = Inr db'"
  proof (rule capture_candidates_storable)
    show "\<forall>(ids, m)\<in>set ?cands. storable m"
      using accepted_storable [OF bound] by (auto dest: set_zip_rightD)
    show "distinct (map (fst \<circ> fst) ?cands)" "distinct (map (snd \<circ> fst) ?cands)"
      unfolding fsts using ids by (simp_all flip: take_map)
    show "(fst \<circ> fst) ` set ?cands \<inter> mem_id ` set (memories db1) = {}"
      using fresh(1) by (force dest: set_zip_leftD)
    show "(snd \<circ> fst) ` set ?cands \<inter> src_id ` set (sources db1) = {}"
      using fresh(2) by (force dest: set_zip_leftD)
  qed
  then obtain db' where "capture_candidates (jt_settled turn) c (job_user_message j) ?cands db1 = Inr db'" ..
  then have "process_next_job uc extract turn db = (Inr True, update_job (ej_id job) completed_job db')"
    by (simp add: process_next_job_def claim answer apply_memory_capture_def row)
  then show ?thesis by (auto simp: update_job_def completed_job_def split: if_splits)
qed

definition w_capture_turn :: job_turn where
  "w_capture_turn = \<lparr>jt_claimed = 10, jt_settled = 12,
     jt_ids = [(50, 51), (52, 53), (54, 55), (56, 57), (58, 59)]\<rparr>"

definition w_answer :: extractor_candidate where
  "w_answer = \<lparr>ec_action = Reinforce, ec_key = ascii ''likes.tea'', ec_kind = ascii ''preference'',
     ec_content = ascii ''likes tea'', ec_tags = [], ec_confidence = Fin 1, ec_importance = Fin 1, ec_strength = Fin 1,
     ec_evidence = ascii ''tea'', ec_expires = None\<rparr>"

theorem capture_completes_witness:
  "\<exists>db2. process_next_job \<lparr>to_lower = to_ascii_lowercase, is_alnum = is_ascii_lowercase\<rparr> (\<lambda>job. Inr [w_answer]) w_capture_turn w_turn_db = (Inr True, db2)
     \<and> (\<forall>k\<in>set (jobs db2). job_id k = 40 \<longrightarrow> job_status k = JobCompleted)"
proof -
  let ?job = "memory_extraction_job_from_row (claimed_job 10 w_job) [104, 105]"
  have "claim_memory_extraction_job (jt_claimed w_capture_turn) w_turn_db = (Some ?job, w_claimed)"
    by (simp add: claim_memory_extraction_job_def claim_memory_extraction_job_for_message_def w_turn_tables
        claimable_w_job update_job_def w_claimed_eq w_capture_turn_def) (simp add: w_job_def)
  moreover obtain j c where "job_chat_row (ej_id ?job) w_claimed = Some (j, c)"
    by (simp add: job_chat_row_def w_claimed_eq w_turn_tables claimed_job_def w_job_def memory_extraction_job_from_row_def)
  ultimately show ?thesis
    using capture_completes [of w_capture_turn w_turn_db ?job w_claimed "\<lambda>job. Inr [w_answer]" "[w_answer]" j c
      "\<lparr>to_lower = to_ascii_lowercase, is_alnum = is_ascii_lowercase\<rparr>"]
    by (simp add: w_capture_turn_def w_claimed_eq w_turn_tables memory_extraction_job_from_row_def claimed_job_def w_job_def
        seconds_of_def epoch_seconds_def as_u64_def max_temporal_memory_lifetime_seconds_def)
qed

end
