(* ===== verification/Attachments.thy ===== *)
theory Attachments
  imports Attachment_Db
begin

text \<open>
  Image attachments, \<open>attachments.rs\<close> and \<open>chat/attachments.rs\<close>: storage keys and paths, the
  validation of an upload, the files below the upload directory, the batch that deletes queued files and the scan
  for orphans. A file is found by the names of its path below the upload directory. The image decoder,
  SHA-256 and the text of a UUID belong to crates and are arguments; so is what the file system
  answers (\<open>None\<close> for a call that works, or the kind of its error).
\<close>

type_synonym bytes = "8 word list"

section \<open>Storage keys and paths\<close>

definition image_storage_key :: "(uuid \<Rightarrow> ustr) \<Rightarrow> uuid \<Rightarrow> ustr \<Rightarrow> ustr" where
  "image_storage_key uuid_text i extension = ascii ''chat-images/'' @ uuid_text i @ 46 # extension"

text \<open>\<open>Path::components\<close> on Unix: empty pieces and inner dots are skipped.\<close>

datatype path_component = RootDir | CurDir | ParentDir | NormalComponent ustr

definition is_absolute :: "ustr \<Rightarrow> bool" where
  "is_absolute path \<longleftrightarrow> (case path of c # cs \<Rightarrow> c = 47 | [] \<Rightarrow> False)"

definition path_components :: "ustr \<Rightarrow> path_component list" where
  "path_components path =
     (let pieces = split_on 47 path
      in (if is_absolute path then [RootDir] else if hd pieces = [46] then [CurDir] else [])
         @ map (\<lambda>p. if p = [46, 46] then ParentDir else NormalComponent p)
             (filter (\<lambda>p. p \<noteq> [] \<and> p \<noteq> [46]) pieces))"

fun normal_names :: "path_component list \<Rightarrow> ustr list option" where
  "normal_names [] = Some []"
| "normal_names (NormalComponent p # cs) = map_option (Cons p) (normal_names cs)"
| "normal_names (c # cs) = None"

definition attachment_storage_path :: "ustr \<Rightarrow> app_error + ustr list" where
  "attachment_storage_path key =
     (if is_absolute key then Inl (BadRequest ''attachment storage key is invalid'')
      else (case normal_names (path_components key) of
              None \<Rightarrow> Inl (BadRequest ''attachment storage key is invalid'')
            | Some names \<Rightarrow> Inr names))"

definition rsplit_once :: "nat \<Rightarrow> ustr \<Rightarrow> (ustr \<times> ustr) option" where
  "rsplit_once c s =
     (if c \<in> set s
      then (let tail = rev (takeWhile (\<lambda>x. x \<noteq> c) (rev s)) in Some (take (length s - length tail - 1) s, tail))
      else None)"

definition image_extensions :: "ustr list" where
  "image_extensions = [ascii ''png'', ascii ''jpg'', ascii ''webp'']"

definition is_strict_chat_image_file_name :: "(ustr \<Rightarrow> uuid option) \<Rightarrow> (uuid \<Rightarrow> ustr) \<Rightarrow> ustr \<Rightarrow> bool" where
  "is_strict_chat_image_file_name parse_uuid uuid_text name \<longleftrightarrow>
     (case rsplit_once 46 name of
        None \<Rightarrow> False
      | Some (i, extension) \<Rightarrow>
          extension \<in> set image_extensions
          \<and> (case parse_uuid i of None \<Rightarrow> False | Some parsed \<Rightarrow> uuid_text parsed = i))"

section \<open>Validation\<close>

datatype image_format = Png | Jpeg | Webp

datatype decode_error = InsufficientMemory | OtherDecodeError

record image_validation_limits =
  vl_max_bytes :: nat
  vl_max_width :: u32
  vl_max_height :: u32
  vl_max_pixels :: nat
  vl_max_alloc :: nat

record image_decoder =
  dimensions :: "image_format \<Rightarrow> nat \<Rightarrow> bytes \<Rightarrow> decode_error + u32 \<times> u32"
  decode :: "image_format \<Rightarrow> u32 \<times> u32 \<times> nat \<Rightarrow> bytes \<Rightarrow> decode_error + unit"

record validated_image =
  vi_mime :: ustr
  vi_extension :: ustr
  vi_size :: nat
  vi_width :: u32
  vi_height :: u32
  vi_sha :: ustr

fun mime_type :: "image_format \<Rightarrow> ustr" where
  "mime_type Png = ascii ''image/png''"
| "mime_type Jpeg = ascii ''image/jpeg''"
| "mime_type Webp = ascii ''image/webp''"

fun extension_of :: "image_format \<Rightarrow> ustr" where
  "extension_of Png = ascii ''png''"
| "extension_of Jpeg = ascii ''jpg''"
| "extension_of Webp = ascii ''webp''"

definition is_supported_chat_image_mime_type :: "ustr \<Rightarrow> bool" where
  "is_supported_chat_image_mime_type mime \<longleftrightarrow>
     mime \<in> set [ascii ''image/png'', ascii ''image/jpeg'', ascii ''image/webp'']"

definition detect_supported_image_format :: "bytes \<Rightarrow> image_format option" where
  "detect_supported_image_format bs =
     (if take 8 bs = [0x89, 0x50, 0x4E, 0x47, 0x0D, 0x0A, 0x1A, 0x0A] then Some Png
      else if 3 \<le> length bs \<and> bs ! 0 = 0xFF \<and> bs ! 1 = 0xD8 \<and> bs ! 2 = 0xFF then Some Jpeg
      else if 12 \<le> length bs \<and> take 4 bs = [0x52, 0x49, 0x46, 0x46] \<and> take 4 (drop 8 bs) = [0x57, 0x45, 0x42, 0x50]
      then Some Webp
      else None)"

definition hex_nibble :: "nat \<Rightarrow> nat" where
  "hex_nibble n = (if n < 10 then 48 + n else 87 + n)"

definition sha256_hex :: "(bytes \<Rightarrow> bytes) \<Rightarrow> bytes \<Rightarrow> ustr" where
  "sha256_hex sha256 bs =
     concat (map (\<lambda>b. [hex_nibble (unat b div 16), hex_nibble (unat b mod 16)]) (sha256 bs))"

definition image_size_limit_error :: "string \<Rightarrow> app_error" where
  "image_size_limit_error message = Reasoned 400 message ImageSizeLimit None"

fun image_validation_error :: "decode_error \<Rightarrow> app_error" where
  "image_validation_error InsufficientMemory =
     image_size_limit_error ''bad request: image attachment exceeds decoder allocation limit''"
| "image_validation_error OtherDecodeError = BadRequest ''image attachment is not a valid image''"

definition check_dimensions :: "image_validation_limits \<Rightarrow> u32 \<Rightarrow> u32 \<Rightarrow> app_error option" where
  "check_dimensions limits width height =
     (if width = 0 \<or> height = 0 then Some (BadRequest ''image attachment dimensions are invalid'')
      else if vl_max_width limits < width
      then Some (image_size_limit_error ''bad request: image attachment width is too large'')
      else if vl_max_height limits < height
      then Some (image_size_limit_error ''bad request: image attachment height is too large'')
      else if vl_max_pixels limits < unat width * unat height
      then Some (image_size_limit_error ''bad request: image attachment has too many pixels'')
      else None)"

definition validate_image_attachment_bytes ::
  "image_decoder \<Rightarrow> (bytes \<Rightarrow> bytes) \<Rightarrow> image_validation_limits \<Rightarrow> bytes \<Rightarrow> app_error + validated_image" where
  "validate_image_attachment_bytes decoder sha256 limits bs =
     (if bs = [] then Inl (BadRequest ''image attachment is empty'')
      else if vl_max_bytes limits < length bs
      then Inl (image_size_limit_error ''bad request: image attachment is too large'')
      else (case detect_supported_image_format bs of
              None \<Rightarrow> Inl (BadRequest ''image attachment type is not supported'')
            | Some format \<Rightarrow>
                (case dimensions decoder format (vl_max_alloc limits) bs of
                   Inl e \<Rightarrow> Inl (image_validation_error e)
                 | Inr (width, height) \<Rightarrow>
                     (case check_dimensions limits width height of
                        Some e \<Rightarrow> Inl e
                      | None \<Rightarrow>
                          (case decode decoder format (vl_max_width limits, vl_max_height limits, vl_max_alloc limits) bs of
                             Inl e \<Rightarrow> Inl (image_validation_error e)
                           | Inr _ \<Rightarrow>
                               Inr \<lparr>vi_mime = mime_type format, vi_extension = extension_of format,
                                 vi_size = length bs, vi_width = width, vi_height = height,
                                 vi_sha = sha256_hex sha256 bs\<rparr>)))))"

text \<open>
  \<open>validate_image_attachment\<close>: \<open>permit_free\<close> says whether the semaphore of the decode limiter has a permit
  (the permit is dropped when the task ends), \<open>task_failed\<close> whether the blocking task panicked.
\<close>

definition image_processing_capacity_error :: app_error where
  "image_processing_capacity_error =
     Reasoned 429 ''too many requests'' ImageProcessingCapacity (Some limit_retry_after_seconds)"

definition validate_image_attachment ::
  "image_decoder \<Rightarrow> (bytes \<Rightarrow> bytes) \<Rightarrow> image_validation_limits \<Rightarrow> bool \<Rightarrow> bool \<Rightarrow> bytes
    \<Rightarrow> app_error + validated_image \<times> bytes" where
  "validate_image_attachment decoder sha256 limits permit_free task_failed bs =
     (if \<not> permit_free then Inl image_processing_capacity_error
      else if task_failed then Inl (BadRequest ''image attachment is not a valid image'')
      else map_sum id (\<lambda>v. (v, bs)) (validate_image_attachment_bytes decoder sha256 limits bs))"

section \<open>Files\<close>

record disk_file =
  file_bytes :: bytes
  file_modified :: micros

type_synonym disk = "ustr list \<Rightarrow> disk_file option"

datatype io_error = PermissionDenied | OtherIoError

text \<open>A failing write may leave a part of the file behind.\<close>

datatype write_fault = DirectoryFault | WriteFault "bytes option"

definition write_attachment_bytes ::
  "micros \<Rightarrow> write_fault option \<Rightarrow> ustr \<Rightarrow> bytes \<Rightarrow> disk \<Rightarrow> (app_error + unit) \<times> disk" where
  "write_attachment_bytes now fault key bs files =
     (case attachment_storage_path key of
        Inl e \<Rightarrow> (Inl e, files)
      | Inr path \<Rightarrow>
          (case fault of
             None \<Rightarrow> (Inr (), files(path \<mapsto> \<lparr>file_bytes = bs, file_modified = now\<rparr>))
           | Some DirectoryFault \<Rightarrow> (Inl (BadRequest ''failed to prepare attachment storage''), files)
           | Some (WriteFault left) \<Rightarrow>
               (Inl (BadRequest ''failed to store attachment''),
                case left of
                  None \<Rightarrow> files
                | Some part \<Rightarrow> files(path \<mapsto> \<lparr>file_bytes = part, file_modified = now\<rparr>))))"

definition read_attachment_bytes :: "io_error option \<Rightarrow> ustr \<Rightarrow> disk \<Rightarrow> app_error + bytes" where
  "read_attachment_bytes fault key files =
     (case attachment_storage_path key of
        Inl e \<Rightarrow> Inl e
      | Inr path \<Rightarrow>
          (case (fault, files path) of
             (None, Some f) \<Rightarrow> Inr (file_bytes f)
           | _ \<Rightarrow> Inl NotFound))"

text \<open>A file that is not there is as good as deleted.\<close>

definition delete_attachment_file :: "io_error option \<Rightarrow> ustr \<Rightarrow> disk \<Rightarrow> (io_error + unit) \<times> disk" where
  "delete_attachment_file fault key files =
     (case attachment_storage_path key of
        Inl e \<Rightarrow> (Inl OtherIoError, files)
      | Inr path \<Rightarrow>
          (case fault of
             None \<Rightarrow> (Inr (), files(path := None))
           | Some e \<Rightarrow> (Inl e, files)))"

end
