(* ===== verification/Attachment_Cleanup.thy ===== *)
theory Attachment_Cleanup
  imports Attachments
begin

text \<open>
  The maintenance of \<open>attachments.rs\<close>: stale uploads, the batch that deletes queued files, the
  scan for orphans; and the handlers of \<open>chat/attachments.rs\<close>. The queries of the batch are the transactions of
  \<open>Attachment_Db\<close>, each at a time of its own; a connection that fails is left out.
\<close>

section \<open>Stale uploads\<close>

definition chat_attachment_kind_image :: ustr where
  "chat_attachment_kind_image = ascii ''image''"

definition pending_attachment_cleanup_after_seconds :: nat where
  "pending_attachment_cleanup_after_seconds = 24 * 60 * 60"

definition pending_attachment_cleanup_batch_size :: int where
  "pending_attachment_cleanup_batch_size = 100"

definition cleanup_stale_pending_chat_attachments :: "micros \<Rightarrow> nat \<Rightarrow> chat_db \<Rightarrow> nat \<times> chat_db" where
  "cleanup_stale_pending_chat_attachments db_now now db =
     (case delete_stale_pending_chat_attachments db_now chat_attachment_kind_image
             (now - pending_attachment_cleanup_after_seconds) pending_attachment_cleanup_batch_size db of
        (Inr n, db') \<Rightarrow> (n, db')
      | (Inl e, db') \<Rightarrow> (0, db'))"

section \<open>The batch\<close>

datatype cleanup_error_category = CleanupPermissionDenied | CleanupIoError | CleanupDatabaseError | CleanupMultiple

record cleanup_stats =
  claimed_count :: nat
  deleted_count :: nat
  retried_count :: nat
  failed_count :: nat
  error_category :: "cleanup_error_category option"

definition no_stats :: cleanup_stats where
  "no_stats = \<lparr>claimed_count = 0, deleted_count = 0, retried_count = 0, failed_count = 0, error_category = None\<rparr>"

definition record_cleanup_error :: "cleanup_error_category \<Rightarrow> cleanup_stats \<Rightarrow> cleanup_stats" where
  "record_cleanup_error category stats =
     stats\<lparr>error_category := (case error_category stats of
         None \<Rightarrow> Some category
       | Some existing \<Rightarrow> if existing = category then Some existing else Some CleanupMultiple)\<rparr>"

definition failed_query :: "cleanup_stats \<Rightarrow> cleanup_stats" where
  "failed_query stats = record_cleanup_error CleanupDatabaseError (stats\<lparr>failed_count := failed_count stats + 1\<rparr>)"

definition io_category :: "io_error \<Rightarrow> cleanup_error_category" where
  "io_category e = (case e of PermissionDenied \<Rightarrow> CleanupPermissionDenied | OtherIoError \<Rightarrow> CleanupIoError)"

text \<open>One claimed file: \<open>fault\<close> is the answer of the file system, \<open>now\<close> the time of the query after it.\<close>

definition handle_deletion ::
  "micros \<Rightarrow> io_error option \<Rightarrow> file_deletion_record \<Rightarrow> cleanup_stats \<times> chat_db \<times> disk
    \<Rightarrow> cleanup_stats \<times> chat_db \<times> disk" where
  "handle_deletion now fault d = (\<lambda>(stats, db, files).
     (case delete_attachment_file fault (fdr_key d) files of
        (Inr _, files') \<Rightarrow>
          (case complete_chat_attachment_file_deletion (fdr_key d) (fdr_token d) db of
             (True, db') \<Rightarrow> (stats\<lparr>deleted_count := deleted_count stats + 1\<rparr>, db', files')
           | (False, db') \<Rightarrow> (failed_query stats, db', files'))
      | (Inl e, files') \<Rightarrow>
          (let stats' = record_cleanup_error (io_category e) stats
           in case retry_chat_attachment_file_deletion now (fdr_key d) (fdr_token d) db of
                (True, db') \<Rightarrow> (stats'\<lparr>retried_count := retried_count stats' + 1\<rparr>, db', files')
              | (False, db') \<Rightarrow> (failed_query stats', db', files'))))"

definition process_chat_attachment_file_deletions_batch ::
  "micros \<Rightarrow> uuid \<Rightarrow> (ustr \<Rightarrow> micros) \<Rightarrow> (ustr \<Rightarrow> io_error option) \<Rightarrow> ustr list option \<Rightarrow> int \<Rightarrow> chat_db \<Rightarrow> disk
    \<Rightarrow> cleanup_stats \<times> chat_db \<times> disk" where
  "process_chat_attachment_file_deletions_batch now token clock fault keys limit db files =
     (case (case keys of
              Some ks \<Rightarrow> claim_chat_attachment_file_deletions_for_keys now token ks limit db
            | None \<Rightarrow> claim_chat_attachment_file_deletions now token limit db) of
        (deletions, db') \<Rightarrow>
          fold (\<lambda>d. handle_deletion (clock (fdr_key d)) (fault (fdr_key d)) d) deletions
            (no_stats\<lparr>claimed_count := length deletions\<rparr>, db', files))"

definition attachment_file_deletion_batch_size :: int where
  "attachment_file_deletion_batch_size = 100"

definition process_chat_attachment_file_deletions ::
  "micros \<Rightarrow> uuid \<Rightarrow> (ustr \<Rightarrow> micros) \<Rightarrow> (ustr \<Rightarrow> io_error option) \<Rightarrow> chat_db \<Rightarrow> disk \<Rightarrow> nat \<times> chat_db \<times> disk" where
  "process_chat_attachment_file_deletions now token clock fault db files =
     (case process_chat_attachment_file_deletions_batch now token clock fault None
             attachment_file_deletion_batch_size db files of
        (stats, db', files') \<Rightarrow> (deleted_count stats, db', files'))"

definition process_chat_attachment_file_deletions_for_keys ::
  "micros \<Rightarrow> uuid \<Rightarrow> (ustr \<Rightarrow> micros) \<Rightarrow> (ustr \<Rightarrow> io_error option) \<Rightarrow> ustr list \<Rightarrow> chat_db \<Rightarrow> disk
    \<Rightarrow> bool \<times> chat_db \<times> disk" where
  "process_chat_attachment_file_deletions_for_keys now token clock fault keys db files =
     (if keys = [] then (False, db, files)
      else (case process_chat_attachment_file_deletions_batch now token clock fault (Some keys)
                   attachment_file_deletion_batch_size db files of
              (stats, db', files') \<Rightarrow> (0 < count_chat_attachment_file_deletions_for_keys keys db', db', files')))"

section \<open>The scan for orphans\<close>

text \<open>An entry of the directory, \<open>None\<close> where a call on it fails; a name that is not UTF-8 is \<open>None\<close> too.\<close>

record dir_entry =
  de_name :: "ustr option"
  de_is_file :: "bool option"
  de_metadata :: "(micros option \<times> nat) option"

datatype open_result = Opened "dir_entry option list" | DirMissing | OpenFailed

record scan_result =
  inspected_entries :: nat
  enqueued_files :: nat
  reached_end :: bool

definition no_scan :: scan_result where
  "no_scan = \<lparr>inspected_entries = 0, enqueued_files = 0, reached_end = False\<rparr>"

definition attachment_file_reconciliation_batch_size :: nat where
  "attachment_file_reconciliation_batch_size = 100"

text \<open>The key and the size an entry is queued under, if it is an old image of the strict form.\<close>

definition orphan_key ::
  "(ustr \<Rightarrow> uuid option) \<Rightarrow> (uuid \<Rightarrow> ustr) \<Rightarrow> micros \<Rightarrow> dir_entry \<Rightarrow> (ustr \<times> nat) option" where
  "orphan_key parse_uuid uuid_text stale_before e =
     (case de_name e of
        None \<Rightarrow> None
      | Some name \<Rightarrow>
          if \<not> is_strict_chat_image_file_name parse_uuid uuid_text name then None
          else (case (de_is_file e, de_metadata e) of
                  (Some True, Some (Some modified, len)) \<Rightarrow>
                    if stale_before \<le> modified \<or> 2 ^ 63 \<le> len then None
                    else Some (ascii ''chat-images/'' @ name, len)
                | _ \<Rightarrow> None))"

definition inspect_entry ::
  "(ustr \<Rightarrow> uuid option) \<Rightarrow> (uuid \<Rightarrow> ustr) \<Rightarrow> micros \<Rightarrow> micros \<Rightarrow> dir_entry \<Rightarrow> scan_result \<times> chat_db
    \<Rightarrow> scan_result \<times> chat_db" where
  "inspect_entry parse_uuid uuid_text stale_before now e = (\<lambda>(r, db).
     (let r' = r\<lparr>inspected_entries := inspected_entries r + 1\<rparr>
      in case orphan_key parse_uuid uuid_text stale_before e of
           None \<Rightarrow> (r', db)
         | Some (key, len) \<Rightarrow>
             (case enqueue_reconciled_chat_attachment_file_deletion now key (int len) db of
                (Inr True, db') \<Rightarrow> (r'\<lparr>enqueued_files := enqueued_files r' + 1\<rparr>, db')
              | (_, db') \<Rightarrow> (r', db'))))"

fun scan_entries ::
  "(ustr \<Rightarrow> uuid option) \<Rightarrow> (uuid \<Rightarrow> ustr) \<Rightarrow> micros \<Rightarrow> micros \<Rightarrow> nat \<Rightarrow> dir_entry option list
    \<Rightarrow> scan_result \<times> chat_db \<Rightarrow> scan_result \<times> dir_entry option list option \<times> chat_db" where
  "scan_entries parse_uuid uuid_text stale_before now 0 es (r, db) = (r, Some es, db)"
| "scan_entries parse_uuid uuid_text stale_before now (Suc n) [] (r, db) = (r\<lparr>reached_end := True\<rparr>, None, db)"
| "scan_entries parse_uuid uuid_text stale_before now (Suc n) (None # es) (r, db) = (r, None, db)"
| "scan_entries parse_uuid uuid_text stale_before now (Suc n) (Some e # es) (r, db) =
     scan_entries parse_uuid uuid_text stale_before now n es
       (inspect_entry parse_uuid uuid_text stale_before now e (r, db))"

definition run_before ::
  "(ustr \<Rightarrow> uuid option) \<Rightarrow> (uuid \<Rightarrow> ustr) \<Rightarrow> micros \<Rightarrow> micros \<Rightarrow> open_result \<Rightarrow> dir_entry option list option
    \<Rightarrow> chat_db \<Rightarrow> scan_result \<times> dir_entry option list option \<times> chat_db" where
  "run_before parse_uuid uuid_text stale_before now opened entries db =
     (case (case entries of Some es \<Rightarrow> Opened es | None \<Rightarrow> opened) of
        DirMissing \<Rightarrow> (no_scan\<lparr>reached_end := True\<rparr>, None, db)
      | OpenFailed \<Rightarrow> (no_scan, None, db)
      | Opened es \<Rightarrow>
          scan_entries parse_uuid uuid_text stale_before now attachment_file_reconciliation_batch_size es (no_scan, db))"

section \<open>The handlers\<close>

definition require_attachment_session ::
  "uuid option \<Rightarrow> (uuid \<Rightarrow> session_record option) \<Rightarrow> app_error + session_record" where
  "require_attachment_session cookie get_session =
     (case cookie of
        None \<Rightarrow> Inl Forbidden
      | Some i \<Rightarrow> (case get_session i of None \<Rightarrow> Inl Forbidden | Some s \<Rightarrow> Inr s))"

text \<open>A field of the request: \<open>Inl True\<close> where the body is too large, \<open>Inl False\<close> where it cannot be read.\<close>

type_synonym multipart_field = "bool + ustr option \<times> (bool + bytes)"

definition attachment_multipart_error :: "bool \<Rightarrow> app_error" where
  "attachment_multipart_error too_large =
     (if too_large then Reasoned 413 ''payload too large'' ImageSizeLimit None
      else BadRequest ''invalid attachment upload'')"

fun read_fields :: "multipart_field list \<Rightarrow> bytes option \<Rightarrow> app_error + bytes option" where
  "read_fields [] got = Inr got"
| "read_fields (Inl too_large # fs) got = Inl (attachment_multipart_error too_large)"
| "read_fields (Inr (name, content) # fs) got =
     (if name \<noteq> Some (ascii ''file'') then read_fields fs got
      else if got \<noteq> None
      then Inl (BadRequest ''only one image attachment can be uploaded per request'')
      else (case content of
              Inl too_large \<Rightarrow> Inl (attachment_multipart_error too_large)
            | Inr bs \<Rightarrow> read_fields fs (Some bs)))"

definition image_storage_limit_error :: app_error where
  "image_storage_limit_error = Reasoned 409 ''conflict: image attachment storage quota exceeded'' ImageStorageLimit None"

text \<open>The row first, then the file; a file that cannot be written takes its row back.\<close>

definition create_chat_attachment_metadata_then_file ::
  "micros \<Rightarrow> micros \<Rightarrow> micros \<Rightarrow> write_fault option \<Rightarrow> int \<Rightarrow> owner_scope \<Rightarrow> new_attachment \<Rightarrow> bytes \<Rightarrow> chat_db \<Rightarrow> disk
    \<Rightarrow> (app_error + attachment_record) \<times> chat_db \<times> disk" where
  "create_chat_attachment_metadata_then_file t1 t2 t3 fault max_storage owner n bs db files =
     (case create_chat_attachment_with_storage_quota t1 owner n max_storage db of
        (Inl e, db1) \<Rightarrow> (Inl (from_store_error e), db1, files)
      | (Inr StorageQuotaExceeded, db1) \<Rightarrow> (Inl image_storage_limit_error, db1, files)
      | (Inr (AttachmentCreated a), db1) \<Rightarrow>
          (case write_attachment_bytes t2 fault (na_key n) bs files of
             (Inr _, files') \<Rightarrow> (Inr a, db1, files')
           | (Inl e, files') \<Rightarrow>
               (case delete_pending_chat_attachment t3 owner (na_id n) db1 of
                  (deleted, db2) \<Rightarrow> (Inl (if deleted then e else Database), db2, files'))))"

record upload_world =
  uw_decoder :: image_decoder
  uw_sha256 :: "bytes \<Rightarrow> bytes"
  uw_uuid_text :: "uuid \<Rightarrow> ustr"
  uw_limits :: image_validation_limits
  uw_max_storage :: int
  uw_enabled :: bool
  uw_permit_free :: bool
  uw_task_failed :: bool
  uw_rate :: "app_error option"
  uw_times :: "micros \<times> micros \<times> micros"
  uw_fault :: "write_fault option"

definition new_image :: "(uuid \<Rightarrow> ustr) \<Rightarrow> uuid \<Rightarrow> validated_image \<Rightarrow> new_attachment" where
  "new_image uuid_text i v =
     \<lparr>na_id = i, na_kind = chat_attachment_kind_image, na_mime = vi_mime v, na_size = int (vi_size v),
      na_width = Some (sint (vi_width v)), na_height = Some (sint (vi_height v)), na_sha = vi_sha v,
      na_key = image_storage_key uuid_text i (vi_extension v)\<rparr>"

definition upload_chat_attachment ::
  "upload_world \<Rightarrow> uuid option \<Rightarrow> (uuid \<Rightarrow> session_record option) \<Rightarrow> multipart_field list \<Rightarrow> uuid \<Rightarrow> chat_db \<Rightarrow> disk
    \<Rightarrow> (app_error + attachment_record) \<times> chat_db \<times> disk" where
  "upload_chat_attachment w cookie get_session parts i db files =
     (if \<not> uw_enabled w then (Inl NotFound, db, files)
      else (case require_attachment_session cookie get_session of
              Inl e \<Rightarrow> (Inl e, db, files)
            | Inr session \<Rightarrow>
                (case uw_rate w of
                   Some e \<Rightarrow> (Inl e, db, files)
                 | None \<Rightarrow>
                     (case read_fields parts None of
                        Inl e \<Rightarrow> (Inl e, db, files)
                      | Inr None \<Rightarrow> (Inl (BadRequest ''image attachment upload requires a file''), db, files)
                      | Inr (Some bs) \<Rightarrow>
                          (case validate_image_attachment (uw_decoder w) (uw_sha256 w) (uw_limits w)
                                  (uw_permit_free w) (uw_task_failed w) bs of
                             Inl e \<Rightarrow> (Inl e, db, files)
                           | Inr (v, bs') \<Rightarrow>
                               (case uw_times w of (t1, t2, t3) \<Rightarrow>
                                  create_chat_attachment_metadata_then_file t1 t2 t3 (uw_fault w) (uw_max_storage w)
                                    (scope_from_session session) (new_image (uw_uuid_text w) i v) bs' db files))))))"

definition header_text_ok :: "ustr \<Rightarrow> bool" where
  "header_text_ok s \<longleftrightarrow> list_all (\<lambda>c. c = 9 \<or> 32 \<le> c \<and> c < 127) s"

text \<open>The content type and the bytes of the answer; \<open>HeaderValue::from_str\<close> accepts visible ASCII characters only.\<close>

definition preview_chat_attachment ::
  "io_error option \<Rightarrow> uuid option \<Rightarrow> (uuid \<Rightarrow> session_record option) \<Rightarrow> uuid \<Rightarrow> chat_db \<Rightarrow> disk
    \<Rightarrow> app_error + ustr \<times> bytes" where
  "preview_chat_attachment fault cookie get_session i db files =
     (case require_attachment_session cookie get_session of
        Inl e \<Rightarrow> Inl e
      | Inr session \<Rightarrow>
          (case get_chat_attachment (scope_from_session session) i db of
             None \<Rightarrow> Inl NotFound
           | Some a \<Rightarrow>
               (case read_attachment_bytes fault (ar_key a) files of
                  Inl e \<Rightarrow> Inl e
                | Inr bs \<Rightarrow>
                    Inr (if header_text_ok (ar_mime a) then ar_mime a else ascii ''application/octet-stream'', bs))))"

definition delete_chat_attachment ::
  "micros \<Rightarrow> uuid option \<Rightarrow> (uuid \<Rightarrow> session_record option) \<Rightarrow> uuid \<Rightarrow> chat_db \<Rightarrow> (app_error + unit) \<times> chat_db" where
  "delete_chat_attachment now cookie get_session i db =
     (case require_attachment_session cookie get_session of
        Inl e \<Rightarrow> (Inl e, db)
      | Inr session \<Rightarrow>
          (case get_chat_attachment (scope_from_session session) i db of
             None \<Rightarrow> (Inl NotFound, db)
           | Some a \<Rightarrow>
               if ar_message a \<noteq> None
               then (Inl (BadRequest ''sent attachments cannot be deleted from this endpoint''), db)
               else (case delete_pending_chat_attachment now (scope_from_session session) i db of
                       (True, db') \<Rightarrow> (Inr (), db')
                     | (False, db') \<Rightarrow> (Inl NotFound, db'))))"

end
