(* ===== verification/Attachment_Files.thy ===== *)
theory Attachment_Files
  imports Attachment_Cleanup Chat_Store_Limits
begin

text \<open>
  The store of attachments and the files below the upload directory as one machine. Its events are those of the
  store, the write of an uploaded file, the claim of queued deletions by a worker, the deletion of one
  claimed file, and an entry of the orphan scan; they interleave in any order. The invariant keeps the keys
  of live rows apart from the queue and from what the workers hold.
\<close>

section \<open>Keys\<close>

definition uuid_laws :: "(ustr \<Rightarrow> uuid option) \<Rightarrow> (uuid \<Rightarrow> ustr) \<Rightarrow> bool" where
  "uuid_laws parse_uuid uuid_text \<longleftrightarrow>
     (\<forall>i. parse_uuid (uuid_text i) = Some i \<and> 46 \<notin> set (uuid_text i) \<and> 47 \<notin> set (uuid_text i))"

definition strict_key :: "(uuid \<Rightarrow> ustr) \<Rightarrow> ustr \<Rightarrow> bool" where
  "strict_key uuid_text key \<longleftrightarrow>
     (\<exists>i. \<exists>extension\<in>set image_extensions. key = image_storage_key uuid_text i extension)"

lemma rsplit_once_append: "c \<notin> set t \<Longrightarrow> rsplit_once c (s @ c # t) = Some (s, t)"
proof -
  assume c: "c \<notin> set t"
  have "takeWhile (\<lambda>x. x \<noteq> c) (rev (s @ c # t)) = takeWhile (\<lambda>x. x \<noteq> c) (rev t @ c # rev s)" by simp
  also have "\<dots> = rev t" using c by (subst takeWhile_append2) auto
  finally show ?thesis by (simp add: rsplit_once_def)
qed

lemma rsplit_once_SomeD: "rsplit_once c s = Some (a, b) \<Longrightarrow> s = a @ c # b"
proof -
  assume r: "rsplit_once c s = Some (a, b)"
  then have "c \<in> set s" by (simp add: rsplit_once_def split: if_splits)
  then obtain x y where s: "s = x @ c # y" "c \<notin> set y" by (metis split_list_last)
  with r rsplit_once_append [OF s(2), of x] show ?thesis by simp
qed

lemma extension_chars: "e \<in> set image_extensions \<Longrightarrow> 46 \<notin> set e \<and> 47 \<notin> set e \<and> 3 \<le> length e"
  by (auto simp: image_extensions_def ascii_def)

lemma strict_name_iff:
  assumes "uuid_laws parse_uuid uuid_text"
  shows "is_strict_chat_image_file_name parse_uuid uuid_text name \<longleftrightarrow> strict_key uuid_text (ascii ''chat-images/'' @ name)"
proof
  assume "is_strict_chat_image_file_name parse_uuid uuid_text name"
  then obtain i e j where "rsplit_once 46 name = Some (i, e)" "e \<in> set image_extensions" "uuid_text j = i"
    by (auto simp: is_strict_chat_image_file_name_def split: option.splits)
  then show "strict_key uuid_text (ascii ''chat-images/'' @ name)"
    unfolding strict_key_def image_storage_key_def by (auto dest: rsplit_once_SomeD)
next
  assume "strict_key uuid_text (ascii ''chat-images/'' @ name)"
  then obtain i e where n: "name = uuid_text i @ 46 # e" and e: "e \<in> set image_extensions"
    by (auto simp: strict_key_def image_storage_key_def)
  from rsplit_once_append [of 46 e "uuid_text i"] extension_chars [OF e] assms e
  show "is_strict_chat_image_file_name parse_uuid uuid_text name"
    by (simp add: n is_strict_chat_image_file_name_def uuid_laws_def)
qed

lemma split_on_none: "c \<notin> set s \<Longrightarrow> split_on c s = [s]"
  by (induction s) auto

lemma split_on_append: "c \<notin> set s \<Longrightarrow> split_on c (s @ c # t) = s # split_on c t"
  by (induction s) auto

lemma chat_images_codes: "ascii ''chat-images/'' = ascii ''chat-images'' @ [47]"
  by (simp add: ascii_def)

lemma strict_key_path:
  assumes laws: "uuid_laws parse_uuid uuid_text" and key: "strict_key uuid_text key"
  shows "\<exists>name. key = ascii ''chat-images/'' @ name \<and> attachment_storage_path key = Inr [ascii ''chat-images'', name]"
proof -
  obtain i e where k: "key = ascii ''chat-images'' @ 47 # (uuid_text i @ 46 # e)" and e: "e \<in> set image_extensions"
    using key by (auto simp: strict_key_def image_storage_key_def chat_images_codes)
  let ?name = "uuid_text i @ 46 # e"
  have no: "47 \<notin> set ?name" using laws extension_chars [OF e] by (simp add: uuid_laws_def)
  have "split_on 47 key = [ascii ''chat-images'', ?name]"
    unfolding k using split_on_append [of 47 "ascii ''chat-images''"] split_on_none [OF no] by (simp add: ascii_def)
  moreover have "4 \<le> length ?name" using extension_chars [OF e] by simp
  then have "?name \<noteq> []" "?name \<noteq> [46]" "?name \<noteq> [46, 46]" by (fastforce dest: arg_cong [of _ _ length])+
  moreover have "\<not> is_absolute key" "ascii ''chat-images'' \<notin> {[], [46], [46, 46]}"
    by (simp_all add: k is_absolute_def ascii_def)
  ultimately have "attachment_storage_path key = Inr [ascii ''chat-images'', ?name]"
    by (simp add: attachment_storage_path_def path_components_def)
  then show ?thesis by (intro exI [of _ ?name]) (simp add: k chat_images_codes)
qed

lemma strict_path_inj:
  assumes "uuid_laws parse_uuid uuid_text" and "strict_key uuid_text k1" "strict_key uuid_text k2"
    and "attachment_storage_path k1 = attachment_storage_path k2"
  shows "k1 = k2"
  using strict_key_path [OF assms(1,2)] strict_key_path [OF assms(1,3)] assms(4) by auto

section \<open>How the events of the store move keys\<close>

definition live_keys :: "chat_db \<Rightarrow> ustr set" where
  "live_keys db = att_key ` set (attachments db)"

definition queued_keys :: "chat_db \<Rightarrow> ustr set" where
  "queued_keys db = fd_key ` set (file_deletions db)"

definition moves :: "chat_db \<Rightarrow> chat_db \<Rightarrow> bool" where
  "moves db db' \<longleftrightarrow> live_keys db' \<subseteq> live_keys db \<and> queued_keys db' \<subseteq> queued_keys db \<union> live_keys db"

lemma moves_same: "attachments db' = attachments db \<Longrightarrow> file_deletions db' = file_deletions db \<Longrightarrow> moves db db'"
  by (simp add: moves_def live_keys_def queued_keys_def)

lemma moves_trans: "moves a b \<Longrightarrow> moves b c \<Longrightarrow> moves a c"
  by (auto simp: moves_def)

lemma enqueue_keys: "fd_key ` set (enqueue_file now a ds) \<subseteq> insert (att_key a) (fd_key ` set ds)"
  by (auto simp: enqueue_file_def new_file_deletion_def requeue_file_def)

lemma fold_enqueue_keys: "fd_key ` set (fold (enqueue_file now) as ds) \<subseteq> att_key ` set as \<union> fd_key ` set ds"
proof (induction as arbitrary: ds)
  case (Cons a as)
  have "fd_key ` set (fold (enqueue_file now) (a # as) ds) \<subseteq> att_key ` set as \<union> fd_key ` set (enqueue_file now a ds)"
    using Cons.IH [of "enqueue_file now a ds"] by simp
  also have "\<dots> \<subseteq> att_key ` set as \<union> insert (att_key a) (fd_key ` set ds)"
    using enqueue_keys by (rule Un_mono [OF subset_refl])
  finally show ?case by simp
qed simp

lemma moves_delete_attachments: "moves db (delete_attachments now P db)"
  using fold_enqueue_keys [of now "filter P (attachments db)" "file_deletions db"]
  by (auto simp: moves_def live_keys_def queued_keys_def delete_attachments_def)

lemma moves_delete_messages: "moves db (delete_messages now P db)"
  by (rule moves_trans [OF moves_delete_attachments moves_same]) (simp_all add: delete_messages_frame)

lemma moves_delete_chats: "moves db (delete_chats now P db)"
  by (rule moves_trans [OF moves_trans [OF moves_delete_messages moves_delete_attachments] moves_same])
    (simp_all only: delete_chats_frame)

lemma moves_create:
  assumes "create_chat_transaction new owner character profile follow_up limits db = Inr (Inr db')"
  shows "moves db db'"
  using assms
proof (cases rule: create_chat_transaction_Inr)
  case (1 t db1)
  from 1(3) show ?thesis
    by (elim disjE exE conjE) (auto simp: insert_chat_Inr(1) [OF 1(1)] chat_frame
        dest!: insert_message_Inr(1) elim!: attach_follow_up_Inr intro!: moves_same)
qed

lemma moves_append: "append_writes now job owner c u a ids zone db = Inr (Some db') \<Longrightarrow> moves db db'"
  using append_files(1,4) by (simp add: moves_def live_keys_def queued_keys_def flip: set_map)

lemma moves_claim: "moves db (snd (claim_eligible now token n P db))"
proof -
  have "map fd_key (map (\<lambda>d. if H d then claim_row now token d else d) ds) = map fd_key ds" for H ds
    by (simp add: claim_row_def)
  then have "fd_key ` set (map (\<lambda>d. if H d then claim_row now token d else d) ds) = fd_key ` set ds" for H ds
    by (metis list.set_map)
  then show ?thesis by (simp add: claim_eligible_def Let_def moves_def live_keys_def queued_keys_def)
qed

fun event_key :: "chat_event \<Rightarrow> ustr option" where
  "event_key (UploadAttachment now owner n) = Some (na_key n)"
| "event_key (ReconcileFile now key n) = Some key"
| "event_key e = None"

lemma moves_event:
  assumes "event_key e = None"
  shows "moves db (apply_chat_event limits max_bytes e db)"
proof (cases e)
  case (CreateChat new owner character profile follow_up)
  then show ?thesis by (auto simp: create_chat_db moves_create moves_same split: sum.splits)
next
  case (AppendTurn now job owner i u a ids zone reservation q)
  then show ?thesis using append_db [of now job owner i u a ids zone limits reservation db q]
    by (auto intro: moves_same moves_append)
next
  case (ClearChat now owner i)
  have "moves db (touch_chat now i (cleanup_after_source_removal now ids (delete_messages now P db)))" for ids P
    by (rule moves_trans [OF moves_delete_messages moves_same]) (simp_all add: touch_frame cleanup_frame)
  with ClearChat clear_db [of now owner i db] show ?thesis by (auto intro: moves_same)
next
  case (DeleteChat now owner i)
  have "moves db (cleanup_after_source_removal now ids (delete_chats now P db))" for ids P
    by (rule moves_trans [OF moves_delete_chats moves_same]) (simp_all only: cleanup_frame)
  with DeleteChat delete_chat_db [of now owner i db] show ?thesis by (auto intro: moves_same)
next
  case (DeletePending now owner i)
  then show ?thesis by (simp add: delete_pending_chat_attachment_def Let_def moves_delete_attachments)
next
  case (DeleteStale now kind before n)
  then show ?thesis using delete_stale_db [of now kind before n db] by (auto intro: moves_same moves_delete_attachments)
next
  case (ClaimDeletions now token n)
  then show ?thesis by (simp add: claim_chat_attachment_file_deletions_def moves_claim moves_same)
next
  case (ClaimDeletionsFor now token keys n)
  then show ?thesis by (simp add: claim_chat_attachment_file_deletions_for_keys_def moves_claim moves_same)
next
  case (CompleteDeletion key token)
  then show ?thesis by (auto simp: complete_chat_attachment_file_deletion_def moves_def live_keys_def queued_keys_def)
next
  case (RetryDeletion now key token)
  then show ?thesis by (auto simp: retry_chat_attachment_file_deletion_def moves_def live_keys_def queued_keys_def)
qed (use assms in simp_all)

lemma upload_keys:
  "live_keys (apply_chat_event limits max_bytes (UploadAttachment now owner n) db) \<subseteq> insert (na_key n) (live_keys db)"
  "queued_keys (apply_chat_event limits max_bytes (UploadAttachment now owner n) db) = queued_keys db"
  by (auto simp: live_keys_def queued_keys_def create_chat_attachment_with_storage_quota_def insert_chat_attachment_def
      new_attachment_row_def Let_def)

lemma reconcile_keys:
  "live_keys (apply_chat_event limits max_bytes (ReconcileFile now key n) db) = live_keys db"
  "queued_keys (apply_chat_event limits max_bytes (ReconcileFile now key n) db) \<subseteq> insert key (queued_keys db)"
  by (auto simp: live_keys_def queued_keys_def enqueue_reconciled_chat_attachment_file_deletion_def)

section \<open>The machine\<close>

record file_system =
  fs_db :: chat_db
  fs_files :: disk
  fs_writes :: "ustr set"
  fs_claims :: "file_deletion_record list"
  fs_used :: "ustr set"

text \<open>
  \<open>fs_writes\<close> are the uploads whose row is stored and whose file is not yet written, \<open>fs_claims\<close> what the workers
  have claimed and not yet handled. \<open>fs_used\<close> holds the keys seen so far: the key of an upload has a new UUID.
\<close>

datatype file_event =
    StoreStep chat_event
  | WriteStep micros "write_fault option" bytes ustr
  | ClaimStep micros uuid "ustr list option" int
  | SettleStep micros "io_error option" file_deletion_record
  | ScanStep micros micros dir_entry

fun file_event_ok :: "(uuid \<Rightarrow> uuid option) \<Rightarrow> (uuid \<Rightarrow> ustr) \<Rightarrow> file_system \<Rightarrow> file_event \<Rightarrow> bool" where
  "file_event_ok accounts uuid_text s (StoreStep e) \<longleftrightarrow>
     event_ok accounts e (fs_db s) \<and> \<not> queue_event e
     \<and> (case event_key e of None \<Rightarrow> True | Some key \<Rightarrow> strict_key uuid_text key \<and> key \<notin> fs_used s)"
| "file_event_ok accounts uuid_text s (WriteStep now fault bs key) \<longleftrightarrow> key \<in> fs_writes s"
| "file_event_ok accounts uuid_text s (ClaimStep now token keys limit) \<longleftrightarrow> True"
| "file_event_ok accounts uuid_text s (SettleStep now fault d) \<longleftrightarrow> d \<in> set (fs_claims s)"
| "file_event_ok accounts uuid_text s (ScanStep now stale_before e) \<longleftrightarrow> True"

definition claim_files :: "micros \<Rightarrow> uuid \<Rightarrow> ustr list option \<Rightarrow> int \<Rightarrow> chat_db \<Rightarrow> file_deletion_record list \<times> chat_db" where
  "claim_files now token keys limit db =
     (case keys of
        Some ks \<Rightarrow> claim_chat_attachment_file_deletions_for_keys now token ks limit db
      | None \<Rightarrow> claim_chat_attachment_file_deletions now token limit db)"

fun apply_file_event ::
  "(ustr \<Rightarrow> uuid option) \<Rightarrow> (uuid \<Rightarrow> ustr) \<Rightarrow> chat_storage_limits \<Rightarrow> int \<Rightarrow> file_system \<Rightarrow> file_event \<Rightarrow> file_system" where
  "apply_file_event parse_uuid uuid_text limits max_bytes s (StoreStep e) =
     (let db = apply_chat_event limits max_bytes e (fs_db s)
      in s\<lparr>fs_db := db, fs_writes := fs_writes s \<union> (set_option (event_key e) \<inter> live_keys db),
           fs_used := fs_used s \<union> set_option (event_key e)\<rparr>)"
| "apply_file_event parse_uuid uuid_text limits max_bytes s (WriteStep now fault bs key) =
     s\<lparr>fs_files := snd (write_attachment_bytes now fault key bs (fs_files s)), fs_writes := fs_writes s - {key}\<rparr>"
| "apply_file_event parse_uuid uuid_text limits max_bytes s (ClaimStep now token keys limit) =
     (case claim_files now token keys limit (fs_db s) of
        (ds, db) \<Rightarrow> s\<lparr>fs_db := db, fs_claims := fs_claims s @ ds\<rparr>)"
| "apply_file_event parse_uuid uuid_text limits max_bytes s (SettleStep now fault d) =
     (case handle_deletion now fault d (no_stats, fs_db s, fs_files s) of
        (stats, db, files) \<Rightarrow> s\<lparr>fs_db := db, fs_files := files, fs_claims := remove1 d (fs_claims s)\<rparr>)"
| "apply_file_event parse_uuid uuid_text limits max_bytes s (ScanStep now stale_before e) =
     s\<lparr>fs_db := snd (inspect_entry parse_uuid uuid_text stale_before now e (no_scan, fs_db s)),
       fs_used := fs_used s \<union> fst ` set_option (orphan_key parse_uuid uuid_text stale_before e)\<rparr>"

definition file_step ::
  "(uuid \<Rightarrow> uuid option) \<Rightarrow> (ustr \<Rightarrow> uuid option) \<Rightarrow> (uuid \<Rightarrow> ustr) \<Rightarrow> chat_storage_limits \<Rightarrow> int
    \<Rightarrow> file_system \<Rightarrow> file_event \<Rightarrow> file_system" where
  "file_step accounts parse_uuid uuid_text limits max_bytes s e =
     (if file_event_ok accounts uuid_text s e then apply_file_event parse_uuid uuid_text limits max_bytes s e else s)"

definition file_start :: "uuid set \<Rightarrow> disk \<Rightarrow> file_system" where
  "file_start session_ids files =
     \<lparr>fs_db = empty_chat_db session_ids, fs_files = files, fs_writes = {}, fs_claims = [], fs_used = {}\<rparr>"

definition file_inv ::
  "(uuid \<Rightarrow> uuid option) \<Rightarrow> (uuid \<Rightarrow> ustr) \<Rightarrow> chat_storage_limits \<Rightarrow> int \<Rightarrow> file_system \<Rightarrow> bool" where
  "file_inv accounts uuid_text limits max_bytes s \<longleftrightarrow>
     chat_ok accounts limits max_bytes (fs_db s)
     \<and> live_keys (fs_db s) \<union> queued_keys (fs_db s) \<union> fdr_key ` set (fs_claims s) \<union> fs_writes s \<subseteq> fs_used s
     \<and> (\<forall>key\<in>fs_used s. strict_key uuid_text key)
     \<and> live_keys (fs_db s) \<inter> fdr_key ` set (fs_claims s) = {}"

section \<open>The invariant\<close>

lemma live_not_queued: "chat_ok accounts limits max_bytes db \<Longrightarrow> live_keys db \<inter> queued_keys db = {}"
  by (simp add: chat_ok_def files_ok_def files_inv_def live_keys_def queued_keys_def)

lemma queue_event_ok: "queue_event e \<Longrightarrow> event_ok accounts e db"
  by (cases e) (simp_all add: event_ok_def)

lemma claim_files_event:
  "\<exists>e. queue_event e \<and> event_key e = None \<and> snd (claim_files now token keys limit db) = apply_chat_event limits max_bytes e db"
  by (cases keys) (auto simp: claim_files_def intro: exI [of _ "ClaimDeletions now token limit"]
      exI [of _ "ClaimDeletionsFor now token _ limit"])

lemma claim_files_keys: "fdr_key ` set (fst (claim_files now token keys limit db)) \<subseteq> queued_keys db"
proof -
  have "map fdr_key (fst (claim_eligible now token limit P db))
      = map fd_key (filter (\<lambda>d. fd_key d \<in> set (map fd_key (take (nat limit)
          (sort_key (\<lambda>d. (fd_next d, fd_created d, fd_key d))
            (filter (\<lambda>d. P d \<and> claimable now d) (file_deletions db)))))) (file_deletions db))" for P
    by (simp add: claim_eligible_def Let_def claimed_record_def claim_row_def o_def)
  then have "set (map fdr_key (fst (claim_eligible now token limit P db))) \<subseteq> set (map fd_key (file_deletions db))" for P
    by (simp only: set_map) (rule image_mono [OF filter_is_subset])
  then have "fdr_key ` set (fst (claim_eligible now token limit P db)) \<subseteq> queued_keys db" for P
    by (simp add: queued_keys_def)
  then show ?thesis
    by (simp add: claim_files_def claim_chat_attachment_file_deletions_def
        claim_chat_attachment_file_deletions_for_keys_def split: option.split)
qed

lemma handle_deletion_effect:
  assumes "handle_deletion now fault d (stats, db, files) = (stats', db', files')"
  shows "\<exists>e. queue_event e \<and> event_key e = None \<and> db' = apply_chat_event limits max_bytes e db"
    and "files' = files \<or> (\<exists>path. attachment_storage_path (fdr_key d) = Inr path \<and> files' = files(path := None))"
proof -
  have "db' = apply_chat_event limits max_bytes (CompleteDeletion (fdr_key d) (fdr_token d)) db
      \<or> db' = apply_chat_event limits max_bytes (RetryDeletion now (fdr_key d) (fdr_token d)) db"
    using assms by (auto simp: handle_deletion_def Let_def split: prod.splits sum.splits bool.splits)
  then show "\<exists>e. queue_event e \<and> event_key e = None \<and> db' = apply_chat_event limits max_bytes e db"
    by (elim disjE) (metis queue_event.simps(3) event_key.simps(11), metis queue_event.simps(4) event_key.simps(12))
  show "files' = files \<or> (\<exists>path. attachment_storage_path (fdr_key d) = Inr path \<and> files' = files(path := None))"
    using assms
    by (auto simp: handle_deletion_def delete_attachment_file_def Let_def split: prod.splits sum.splits bool.splits option.splits)
qed

lemma inspect_entry_effect:
  "snd (inspect_entry parse_uuid uuid_text stale_before now e (r, db)) = db
   \<or> (\<exists>key len. orphan_key parse_uuid uuid_text stale_before e = Some (key, len)
        \<and> snd (inspect_entry parse_uuid uuid_text stale_before now e (r, db))
          = apply_chat_event limits max_bytes (ReconcileFile now key (int len)) db)"
  by (auto simp: inspect_entry_def Let_def split: option.splits prod.splits sum.splits bool.splits)

lemma orphan_key_strict:
  "uuid_laws parse_uuid uuid_text \<Longrightarrow> orphan_key parse_uuid uuid_text stale_before e = Some (key, len)
    \<Longrightarrow> strict_key uuid_text key"
  using strict_name_iff by (auto simp: orphan_key_def split: option.splits if_splits bool.splits)

lemma file_inv_queue_event:
  assumes inv: "file_inv accounts uuid_text limits max_bytes s"
    and e: "queue_event e" "event_key e = None" "db = apply_chat_event limits max_bytes e (fs_db s)"
  shows "chat_ok accounts limits max_bytes db" and "live_keys db \<subseteq> live_keys (fs_db s)"
    and "live_keys db \<union> queued_keys db \<subseteq> fs_used s"
proof -
  show "chat_ok accounts limits max_bytes db"
    using inv queue_event_ok [OF e(1)] by (auto simp: file_inv_def e(3) intro: chat_ok_step)
  have "moves (fs_db s) db" using moves_event [OF e(2)] by (simp add: e(3))
  with inv show "live_keys db \<subseteq> live_keys (fs_db s)" "live_keys db \<union> queued_keys db \<subseteq> fs_used s"
    by (auto simp: moves_def file_inv_def)
qed

lemma file_inv_store:
  assumes inv: "file_inv accounts uuid_text limits max_bytes s" and ok: "file_event_ok accounts uuid_text s (StoreStep e)"
  shows "file_inv accounts uuid_text limits max_bytes (apply_file_event parse_uuid uuid_text limits max_bytes s (StoreStep e))"
proof -
  let ?db = "apply_chat_event limits max_bytes e (fs_db s)"
  have "chat_ok accounts limits max_bytes ?db" using inv ok by (auto simp: file_inv_def intro: chat_ok_step)
  moreover have keys: "live_keys ?db \<subseteq> live_keys (fs_db s) \<union> set_option (event_key e)
      \<and> queued_keys ?db \<subseteq> queued_keys (fs_db s) \<union> live_keys (fs_db s)"
  proof (cases "event_key e")
    case None
    with moves_event [OF this, of "fs_db s" limits max_bytes] show ?thesis by (auto simp: moves_def)
  next
    case (Some key)
    then obtain now owner n where "e = UploadAttachment now owner n" "key = na_key n"
      using ok by (cases e) auto
    with upload_keys [of limits max_bytes now owner n "fs_db s"] show ?thesis by auto
  qed
  moreover have "fdr_key ` set (fs_claims s) \<inter> set_option (event_key e) = {}"
    "live_keys (fs_db s) \<inter> fdr_key ` set (fs_claims s) = {}"
    using inv ok by (auto simp: file_inv_def split: option.splits)
  ultimately have "live_keys ?db \<inter> fdr_key ` set (fs_claims s) = {}" by blast
  moreover have "\<forall>key\<in>fs_used s \<union> set_option (event_key e). strict_key uuid_text key"
    using inv ok by (auto simp: file_inv_def split: option.splits)
  moreover note \<open>chat_ok accounts limits max_bytes ?db\<close>
  moreover have "live_keys ?db \<union> queued_keys ?db \<union> fdr_key ` set (fs_claims s)
      \<union> (fs_writes s \<union> (set_option (event_key e) \<inter> live_keys ?db)) \<subseteq> fs_used s \<union> set_option (event_key e)"
    using keys inv unfolding file_inv_def by blast
  ultimately show ?thesis by (simp add: file_inv_def Let_def)
qed

lemma file_inv_step:
  assumes laws: "uuid_laws parse_uuid uuid_text" and inv: "file_inv accounts uuid_text limits max_bytes s"
  shows "file_inv accounts uuid_text limits max_bytes (file_step accounts parse_uuid uuid_text limits max_bytes s e)"
proof (cases "file_event_ok accounts uuid_text s e")
  case ok: True
  show ?thesis
  proof (cases e)
    case (StoreStep x)
    with file_inv_store [OF inv] ok show ?thesis by (simp add: file_step_def del: apply_file_event.simps)
  next
    case (WriteStep now fault bs key)
    with ok inv show ?thesis by (auto simp: file_step_def file_inv_def)
  next
    case (ClaimStep now token keys limit)
    obtain ds db where c: "claim_files now token keys limit (fs_db s) = (ds, db)" by fastforce
    obtain x where x: "queue_event x" "event_key x = None" "db = apply_chat_event limits max_bytes x (fs_db s)"
      using claim_files_event [of now token keys limit "fs_db s" limits max_bytes] c by auto
    note q = file_inv_queue_event [OF inv x]
    have "fdr_key ` set ds \<subseteq> queued_keys (fs_db s)" using claim_files_keys [of now token keys limit "fs_db s"] c by simp
    moreover have "live_keys (fs_db s) \<inter> queued_keys (fs_db s) = {}"
      using inv live_not_queued [of accounts limits max_bytes "fs_db s"] by (simp add: file_inv_def)
    ultimately show ?thesis using inv q by (auto simp: file_step_def ClaimStep c file_inv_def)
  next
    case (SettleStep now fault d)
    obtain st db files where h: "handle_deletion now fault d (no_stats, fs_db s, fs_files s) = (st, db, files)"
      by (metis prod_cases3)
    obtain x where x: "queue_event x" "event_key x = None" "db = apply_chat_event limits max_bytes x (fs_db s)"
      using handle_deletion_effect(1) [OF h] by blast
    note q = file_inv_queue_event [OF inv x]
    have "fdr_key ` set (remove1 d (fs_claims s)) \<subseteq> fdr_key ` set (fs_claims s)" by (simp add: image_mono set_remove1_subset)
    moreover have "fdr_key ` set (fs_claims s) \<subseteq> fs_used s" "live_keys (fs_db s) \<inter> fdr_key ` set (fs_claims s) = {}"
      using inv by (simp_all add: file_inv_def)
    ultimately have "fdr_key ` set (remove1 d (fs_claims s)) \<subseteq> fs_used s"
      "live_keys db \<inter> fdr_key ` set (remove1 d (fs_claims s)) = {}"
      using q(2) by blast+
    with inv q ok show ?thesis by (simp add: file_step_def SettleStep h file_inv_def)
  next
    case (ScanStep now stale_before x)
    let ?db = "snd (inspect_entry parse_uuid uuid_text stale_before now x (no_scan, fs_db s))"
    have "chat_ok accounts limits max_bytes ?db \<and> live_keys ?db = live_keys (fs_db s)
        \<and> queued_keys ?db \<subseteq> queued_keys (fs_db s) \<union> fst ` set_option (orphan_key parse_uuid uuid_text stale_before x)"
      using inspect_entry_effect [of parse_uuid uuid_text stale_before now x no_scan "fs_db s" limits max_bytes]
    proof (elim disjE exE conjE)
      fix key len assume k: "orphan_key parse_uuid uuid_text stale_before x = Some (key, len)"
        and db: "?db = apply_chat_event limits max_bytes (ReconcileFile now key (int len)) (fs_db s)"
      have "chat_ok accounts limits max_bytes ?db"
        unfolding db using inv by (intro chat_ok_step) (simp_all add: file_inv_def queue_event_ok)
      with reconcile_keys [of limits max_bytes now key "int len" "fs_db s"] k db show ?thesis by auto
    qed (use inv in \<open>simp add: file_inv_def\<close>)
    with inv orphan_key_strict [OF laws, of stale_before x] show ?thesis
      by (auto simp: file_step_def ScanStep file_inv_def)
  qed
qed (use inv in \<open>simp add: file_step_def\<close>)

lemma file_inv_start: "0 \<le> max_bytes \<Longrightarrow> file_inv accounts uuid_text limits max_bytes (file_start session_ids files)"
  using chat_ok_empty by (simp add: file_inv_def file_start_def live_keys_def queued_keys_def) (simp add: empty_chat_db_def)

end
