(* ===== verification/Attachment_Props.thy ===== *)
theory Attachment_Props
  imports Attachment_Files Chat_Store_Props
begin

text \<open>
  The properties of attachments: the file of a live row stays, an uploaded image reads back, a failed upload
  leaves no row, and the batch of the worker is a run of the machine of \<open>Attachment_Files\<close>.
\<close>

section \<open>The invariant along a run\<close>

text \<open>The machine is an instance of the contract of components with an invariant.\<close>

definition lawful_step ::
  "(uuid \<Rightarrow> uuid option) \<Rightarrow> (ustr \<Rightarrow> uuid option) \<Rightarrow> (uuid \<Rightarrow> ustr) \<Rightarrow> chat_storage_limits \<Rightarrow> int
    \<Rightarrow> file_system \<Rightarrow> file_event \<Rightarrow> file_system" where
  "lawful_step accounts parse_uuid uuid_text limits max_bytes s e =
     (if uuid_laws parse_uuid uuid_text then file_step accounts parse_uuid uuid_text limits max_bytes s e else s)"

interpretation file_machine: invariant_machine
  "lawful_step accounts parse_uuid uuid_text limits max_bytes" "file_inv accounts uuid_text limits max_bytes"
  by unfold_locales (simp add: lawful_step_def file_inv_step)

lemma lawful_run:
  "uuid_laws parse_uuid uuid_text \<Longrightarrow> foldl (lawful_step accounts parse_uuid uuid_text limits max_bytes) s es
    = foldl (file_step accounts parse_uuid uuid_text limits max_bytes) s es"
  by (induction es arbitrary: s) (simp_all add: lawful_step_def)

lemma file_run_inv:
  "uuid_laws parse_uuid uuid_text \<Longrightarrow> file_inv accounts uuid_text limits max_bytes s
    \<Longrightarrow> file_inv accounts uuid_text limits max_bytes (foldl (file_step accounts parse_uuid uuid_text limits max_bytes) s es)"
  using file_machine.run_inv [of accounts uuid_text limits max_bytes s parse_uuid es] by (simp add: lawful_run)

section \<open>Live files stay\<close>

lemma used_grows: "fs_used s \<subseteq> fs_used (file_step accounts parse_uuid uuid_text limits max_bytes s e)"
  by (cases e) (auto simp: file_step_def Let_def split: prod.splits)

lemma live_backwards:
  assumes "file_inv accounts uuid_text limits max_bytes s" and "key \<in> fs_used s"
    and "key \<in> live_keys (fs_db (file_step accounts parse_uuid uuid_text limits max_bytes s e))"
  shows "key \<in> live_keys (fs_db s)"
proof (cases "file_event_ok accounts uuid_text s e")
  case ok: True
  have queue: "live_keys (apply_chat_event limits max_bytes x db) \<subseteq> live_keys db" if "event_key x = None" for x db
    using moves_event [OF that] by (simp add: moves_def)
  show ?thesis
  proof (cases e)
    case (StoreStep x)
    show ?thesis
    proof (cases "event_key x")
      case None
      with queue [OF this] assms(3) ok show ?thesis by (auto simp: file_step_def StoreStep Let_def)
    next
      case (Some k)
      with ok obtain now owner n where x: "x = UploadAttachment now owner n" "na_key n \<notin> fs_used s"
        by (cases x) (auto simp: StoreStep)
      with upload_keys(1) [of limits max_bytes now owner n "fs_db s"] assms(2,3) ok show ?thesis
        by (auto simp: file_step_def StoreStep Let_def simp del: apply_chat_event.simps)
    qed
  next
    case (ClaimStep now token keys limit)
    obtain x where "event_key x = None"
      "snd (claim_files now token keys limit (fs_db s)) = apply_chat_event limits max_bytes x (fs_db s)"
      using claim_files_event by blast
    with queue assms(3) show ?thesis by (auto simp: file_step_def ClaimStep split: prod.splits)
  next
    case (SettleStep now fault d)
    obtain st db files where h: "handle_deletion now fault d (no_stats, fs_db s, fs_files s) = (st, db, files)"
      by (metis prod_cases3)
    with handle_deletion_effect(1) [OF h, of limits max_bytes] queue assms(3) ok show ?thesis
      by (auto simp: file_step_def SettleStep)
  next
    case (ScanStep now stale_before x)
    with inspect_entry_effect [of parse_uuid uuid_text stale_before now x no_scan "fs_db s" limits max_bytes]
      reconcile_keys(1) assms(3) show ?thesis by (auto simp: file_step_def simp del: apply_chat_event.simps)
  qed (use assms(3) ok in \<open>simp add: file_step_def\<close>)
qed (use assms(3) in \<open>simp add: file_step_def\<close>)

lemma written_step:
  assumes laws: "uuid_laws parse_uuid uuid_text" and inv: "file_inv accounts uuid_text limits max_bytes s"
    and key: "key \<in> live_keys (fs_db s)" "key \<notin> fs_writes s" "attachment_storage_path key = Inr path"
    and s': "s' = file_step accounts parse_uuid uuid_text limits max_bytes s e"
  shows "fs_files s' path = fs_files s path" and "key \<notin> fs_writes s'"
proof -
  have used: "key \<in> fs_used s" and strict: "strict_key uuid_text k" if "k \<in> fs_used s" for k
    using inv key(1) that by (auto simp: file_inv_def)
  have apart: "path' \<noteq> path" if "k \<in> fs_used s" "k \<noteq> key" "attachment_storage_path k = Inr path'" for k path'
    using strict_path_inj [OF laws strict strict, of k key] used that key(3) inv key(1) by (auto simp: file_inv_def)
  have "fs_files s' path = fs_files s path \<and> key \<notin> fs_writes s'"
  proof (cases "file_event_ok accounts uuid_text s e")
    case ok: True
    show ?thesis
    proof (cases e)
      case (StoreStep x)
      with ok key(2) used inv key(1) show ?thesis by (auto simp: s' file_step_def Let_def file_inv_def split: option.splits)
    next
      case (WriteStep now fault bs k)
      with ok have k: "k \<in> fs_writes s" "k \<noteq> key" using key(2) by auto
      then have "k \<in> fs_used s" using inv by (auto simp: file_inv_def)
      with apart k(2) have "snd (write_attachment_bytes now fault k bs (fs_files s)) path = fs_files s path"
        by (fastforce simp: write_attachment_bytes_def split: sum.split option.split write_fault.split)
      with WriteStep ok key(2) show ?thesis by (simp add: s' file_step_def)
    next
      case (ClaimStep now token keys limit)
      with key(2) show ?thesis by (simp add: s' file_step_def split: prod.split)
    next
      case (SettleStep now fault d)
      obtain st db files where h: "handle_deletion now fault d (no_stats, fs_db s, fs_files s) = (st, db, files)"
        by (metis prod_cases3)
      have "fdr_key d \<in> fdr_key ` set (fs_claims s)" using ok SettleStep by simp
      then have "fdr_key d \<in> fs_used s" "fdr_key d \<noteq> key" using inv key(1) by (auto simp: file_inv_def)
      with handle_deletion_effect(2) [OF h] apart have "files path = fs_files s path" by fastforce
      with SettleStep ok key(2) h show ?thesis by (simp add: s' file_step_def)
    next
      case (ScanStep now stale_before x)
      with key(2) show ?thesis by (simp add: s' file_step_def)
    qed
  qed (use key(2) in \<open>simp add: s' file_step_def\<close>)
  then show "fs_files s' path = fs_files s path" "key \<notin> fs_writes s'" by simp_all
qed

text \<open>
  C18: Once the file of an attachment is written it stays, byte for byte, for as long as the row of the attachment
  exists, however uploads, deletions, the workers and the orphan scan interleave, and whatever the file system
  answers them.
\<close>

theorem attachment_file_stays:
  assumes laws: "uuid_laws parse_uuid uuid_text" and "0 \<le> max_bytes"
    and s: "s = foldl (file_step accounts parse_uuid uuid_text limits max_bytes) (file_start session_ids files) before"
    and t: "t = foldl (file_step accounts parse_uuid uuid_text limits max_bytes) s later"
    and written: "key \<notin> fs_writes s" "attachment_storage_path key = Inr path" "fs_files s path = Some f"
    and row: "key \<in> att_key ` set (attachments (fs_db s))" "key \<in> att_key ` set (attachments (fs_db t))"
  shows "fs_files t path = Some f"
proof -
  let ?step = "file_step accounts parse_uuid uuid_text limits max_bytes"
  have inv: "file_inv accounts uuid_text limits max_bytes s"
    unfolding s by (rule file_run_inv [OF laws file_inv_start [OF assms(2)]])
  have "fs_files (foldl ?step s later) path = fs_files s path" if "key \<in> live_keys (fs_db (foldl ?step s later))"
    using inv row(1) [folded live_keys_def] written(1) that
  proof (induction later arbitrary: s)
    case (Cons e later)
    let ?s = "?step s e"
    have inv': "file_inv accounts uuid_text limits max_bytes ?s" by (rule file_inv_step [OF laws Cons.prems(1)])
    note w = written_step [OF laws Cons.prems(1,2,3) written(2) refl, of e]
    have used: "key \<in> fs_used ?s" using Cons.prems(1,2) used_grows by (fastforce simp: file_inv_def)
    have alive: "key \<in> live_keys (fs_db u)"
      if "file_inv accounts uuid_text limits max_bytes u" "key \<in> fs_used u" "key \<in> live_keys (fs_db (foldl ?step u es))" for u es
      using that
    proof (induction es arbitrary: u)
      case (Cons x es)
      have "key \<in> fs_used (?step u x)" using used_grows Cons.prems(2) by blast
      from Cons.IH [OF file_inv_step [OF laws Cons.prems(1)] this] Cons.prems
      have "key \<in> live_keys (fs_db (?step u x))" by simp
      with live_backwards [OF Cons.prems(1,2)] show ?case by blast
    qed simp
    have "key \<in> live_keys (fs_db ?s)" by (rule alive [OF inv' used]) (use Cons.prems(4) in simp)
    from Cons.IH [OF inv' this w(2)] Cons.prems(4) w(1) show ?case by simp
  qed simp
  with row(2) written(3) show ?thesis by (simp add: t live_keys_def)
qed

definition w_uuid_text :: "uuid \<Rightarrow> ustr" where
  "w_uuid_text i = [unat i + 48]"

definition w_parse_uuid :: "ustr \<Rightarrow> uuid option" where
  "w_parse_uuid s = (case s of [n] \<Rightarrow> Some (of_nat (n - 48)) | _ \<Rightarrow> None)"

lemma w_uuid_laws: "uuid_laws w_parse_uuid w_uuid_text"
  by (simp add: uuid_laws_def w_parse_uuid_def w_uuid_text_def)

definition w_image :: new_attachment where
  "w_image = \<lparr>na_id = 7, na_kind = ascii ''image'', na_mime = ascii ''image/png'', na_size = 2, na_width = Some 1,
     na_height = Some 1, na_sha = [], na_key = image_storage_key w_uuid_text 7 (ascii ''png'')\<rparr>"

lemma w_image_key: "na_key w_image = [99, 104, 97, 116, 45, 105, 109, 97, 103, 101, 115, 47, 55, 46, 112, 110, 103]"
  by (simp add: w_image_def image_storage_key_def w_uuid_text_def ascii_def)

definition w_start :: "file_system" where
  "w_start = file_start {1, 2} Map.empty"

abbreviation w_file_step :: "file_system \<Rightarrow> file_event \<Rightarrow> file_system" where
  "w_file_step \<equiv> file_step w_accounts w_parse_uuid w_uuid_text w_limits 100"

definition w_stored :: file_system where
  "w_stored = foldl w_file_step w_start [StoreStep (UploadAttachment 5 w_guest w_image), WriteStep 6 None [1, 2] (na_key w_image)]"

definition w_later :: "file_event list" where
  "w_later = [ClaimStep 7 90 None 100, StoreStep (DeletePending 8 w_guest 9),
     ScanStep 9 100 \<lparr>de_name = Some [55, 46, 112, 110, 103], de_is_file = Some True, de_metadata = Some (Some 6, 2)\<rparr>]"

lemma w_path: "attachment_storage_path (na_key w_image) = Inr [ascii ''chat-images'', [55, 46, 112, 110, 103]]"
  by (simp add: w_image_key attachment_storage_path_def is_absolute_def path_components_def ascii_def)

lemma w_strict: "strict_key w_uuid_text (na_key w_image)"
  unfolding strict_key_def by (intro exI [of _ 7] bexI [of _ "ascii ''png''"]) (simp_all add: w_image_def image_extensions_def)

lemma w_stored_row:
  "attachments (fs_db w_stored) = [new_attachment_row 5 w_guest w_image]" "fs_writes w_stored = {}"
  "fs_files w_stored = [[ascii ''chat-images'', [55, 46, 112, 110, 103]] \<mapsto> \<lparr>file_bytes = [1, 2], file_modified = 6\<rparr>]"
  "file_deletions (fs_db w_stored) = []" "fs_claims w_stored = []"
proof -
  let ?s = "w_file_step w_start (StoreStep (UploadAttachment 5 w_guest w_image))"
  have "file_event_ok w_accounts w_uuid_text w_start (StoreStep (UploadAttachment 5 w_guest w_image))"
    using w_strict by (simp add: event_ok_def owner_ok_def w_guest_def w_accounts_def w_start_def file_start_def empty_chat_db_def)
      (simp add: w_image_def)
  moreover have "create_chat_attachment_with_storage_quota 5 w_guest w_image 100 (empty_chat_db {1, 2})
      = (Inr (AttachmentCreated (chat_attachment_from_row (new_attachment_row 5 w_guest w_image))),
         (empty_chat_db {1, 2})\<lparr>attachments := [new_attachment_row 5 w_guest w_image]\<rparr>)"
    by (simp add: create_chat_attachment_with_storage_quota_def fits_storage_def live_bytes_def queued_bytes_def
        insert_chat_attachment_def empty_chat_db_def w_guest_def Let_def) (simp add: w_image_def)
  ultimately have s: "?s = \<lparr>fs_db = (empty_chat_db {1, 2})\<lparr>attachments := [new_attachment_row 5 w_guest w_image]\<rparr>,
      fs_files = Map.empty, fs_writes = {na_key w_image}, fs_claims = [], fs_used = {na_key w_image}\<rparr>"
    by (simp add: file_step_def w_start_def file_start_def live_keys_def new_attachment_row_def Let_def)
  show "attachments (fs_db w_stored) = [new_attachment_row 5 w_guest w_image]" "fs_writes w_stored = {}"
    "fs_files w_stored = [[ascii ''chat-images'', [55, 46, 112, 110, 103]] \<mapsto> \<lparr>file_bytes = [1, 2], file_modified = 6\<rparr>]"
    "file_deletions (fs_db w_stored) = []" "fs_claims w_stored = []"
    unfolding w_stored_def foldl.simps s
    by (simp_all add: file_step_def write_attachment_bytes_def w_path) (simp_all add: empty_chat_db_def)
qed

lemma inspect_attachments [simp]:
  "attachments (snd (inspect_entry parse_uuid uuid_text stale_before now e (r, db))) = attachments db"
  by (auto simp: inspect_entry_def enqueue_reconciled_chat_attachment_file_deletion_def Let_def
      split: option.splits prod.splits sum.splits bool.splits if_splits)

lemma w_later_row: "attachments (fs_db (foldl w_file_step w_stored w_later)) = attachments (fs_db w_stored)"
proof -
  let ?a = "w_file_step w_stored (ClaimStep 7 90 None 100)"
  let ?b = "w_file_step ?a (StoreStep (DeletePending 8 w_guest 9))"
  have a: "attachments (fs_db ?a) = attachments (fs_db w_stored)"
    by (simp add: file_step_def claim_files_def claim_chat_attachment_file_deletions_def claim_eligible_def w_stored_row)
  moreover have "attachments (fs_db ?b) = attachments (fs_db ?a)"
    by (simp add: file_step_def [of _ _ _ _ _ ?a] delete_pending_chat_attachment_def a w_stored_row Let_def chat_frame)
      (simp add: new_attachment_row_def w_image_def)
  moreover have "attachments (fs_db (w_file_step ?b (ScanStep t u e))) = attachments (fs_db ?b)" for t u e
    by (simp add: file_step_def [of _ _ _ _ _ ?b])
  ultimately show ?thesis by (simp add: w_later_def)
qed

theorem attachment_file_stays_witness:
  "fs_files (foldl w_file_step w_stored w_later) [ascii ''chat-images'', [55, 46, 112, 110, 103]]
     = Some \<lparr>file_bytes = [1, 2], file_modified = 6\<rparr>"
proof (rule attachment_file_stays [OF w_uuid_laws _ w_stored_def [unfolded w_start_def] refl _ w_path])
  show "na_key w_image \<in> att_key ` set (attachments (fs_db w_stored))"
    "na_key w_image \<in> att_key ` set (attachments (fs_db (foldl w_file_step w_stored w_later)))"
    by (simp_all add: w_later_row w_stored_row new_attachment_row_def)
qed (simp_all add: w_stored_row)

section \<open>Uploads\<close>

lemma created_row:
  assumes "create_chat_attachment_with_storage_quota t owner n max_storage db = (Inr (AttachmentCreated a), db1)"
  shows "a = chat_attachment_from_row (new_attachment_row t owner n)"
    and "db1 = db\<lparr>attachments := attachments db @ [new_attachment_row t owner n]\<rparr>"
    and "na_id n \<notin> att_id ` set (attachments db)"
  using assms
  by (auto simp: create_chat_attachment_with_storage_quota_def insert_chat_attachment_def Let_def
      split: sum.splits if_splits prod.splits)

lemma not_created:
  "create_chat_attachment_with_storage_quota t owner n max_storage db = (out, db1) \<Longrightarrow> \<nexists>a. out = Inr (AttachmentCreated a)
    \<Longrightarrow> db1 = db"
  by (auto simp: create_chat_attachment_with_storage_quota_def split: sum.splits if_splits prod.splits)

lemma new_row_pending: "is_pending (new_attachment_row t owner n) \<and> owns_attachment owner (new_attachment_row t owner n)"
  by (auto simp: is_pending_def owns_attachment_def owns_row_def new_attachment_row_def split: option.split)

lemma enqueued_key: "att_key a \<in> fd_key ` set (enqueue_file t a ds)"
proof (cases "list_ex (\<lambda>d. fd_key d = att_key a) ds")
  case True
  have "fd_key \<circ> (\<lambda>d. if fd_key d = att_key a then requeue_file t a d else d) = fd_key"
    by (simp add: fun_eq_iff requeue_file_def)
  then have "map fd_key (enqueue_file t a ds) = map fd_key ds" using True by (simp add: enqueue_file_def)
  moreover have "att_key a \<in> set (map fd_key ds)" using True by (force simp: list_ex_iff)
  ultimately show ?thesis by (metis set_map)
qed (simp add: enqueue_file_def new_file_deletion_def)

lemma taken_back:
  assumes new: "na_id n \<notin> att_id ` set (attachments db)"
    and del: "delete_pending_chat_attachment t' owner (na_id n)
      (db\<lparr>attachments := attachments db @ [new_attachment_row t owner n]\<rparr>) = (deleted, db2)"
  shows "attachments db2 = attachments db" and "na_key n \<in> fd_key ` set (file_deletions db2)"
proof -
  let ?P = "\<lambda>a. att_id a = na_id n \<and> is_pending a \<and> owns_attachment owner a"
  let ?row = "new_attachment_row t owner n"
  have id: "att_id ?row = na_id n" "att_key ?row = na_key n" by (simp_all add: new_attachment_row_def)
  have "att_id a \<noteq> na_id n" if "a \<in> set (attachments db)" for a using new imageI [OF that, of att_id] by auto
  then have no: "filter ?P (attachments db) = []" by (simp add: filter_empty_conv)
  have db2: "db2 = delete_attachments t' ?P (db\<lparr>attachments := attachments db @ [?row]\<rparr>)"
    using del by (simp add: delete_pending_chat_attachment_def Let_def)
  have "filter (\<lambda>a. \<not> ?P a) (attachments db) = attachments db"
    using no by (auto simp: filter_empty_conv intro!: filter_True)
  then show "attachments db2 = attachments db"
    using new_row_pending by (simp add: db2 delete_attachments_def id)
  have "att_key ?row \<in> fd_key ` set (enqueue_file t' ?row ds)" for ds by (rule enqueued_key)
  then show "na_key n \<in> fd_key ` set (file_deletions db2)"
    using new_row_pending no by (simp add: db2 delete_attachments_def id)
qed

lemma write_effect:
  assumes "write_attachment_bytes t fault key bs files = (out, files')"
  shows "\<And>p. files' p \<noteq> files p \<Longrightarrow> attachment_storage_path key = Inr p"
    and "out = Inr u \<Longrightarrow> \<exists>p. attachment_storage_path key = Inr p \<and> files' = files(p \<mapsto> \<lparr>file_bytes = bs, file_modified = t\<rparr>)"
  using assms by (auto simp: write_attachment_bytes_def split: sum.splits option.splits write_fault.splits if_splits)

lemma metadata_then_file:
  assumes run: "create_chat_attachment_metadata_then_file t1 t2 t3 fault max_storage owner n bs db files = (answer, db', files')"
  shows "case answer of
      Inr a \<Rightarrow> a = chat_attachment_from_row (new_attachment_row t1 owner n)
        \<and> db' = db\<lparr>attachments := attachments db @ [new_attachment_row t1 owner n]\<rparr>
        \<and> na_id n \<notin> att_id ` set (attachments db)
        \<and> (\<exists>p. attachment_storage_path (na_key n) = Inr p \<and> files' = files(p \<mapsto> \<lparr>file_bytes = bs, file_modified = t2\<rparr>))
    | Inl e \<Rightarrow> attachments db' = attachments db
        \<and> (\<forall>p. files' p \<noteq> files p \<longrightarrow>
             (\<exists>d\<in>set (file_deletions db'). attachment_storage_path (fd_key d) = Inr p))"
proof -
  obtain out db1 where c: "create_chat_attachment_with_storage_quota t1 owner n max_storage db = (out, db1)" by fastforce
  show ?thesis
  proof (cases "\<exists>a. out = Inr (AttachmentCreated a)")
    case False
    from not_created [OF c this] run c False show ?thesis
      by (auto simp: create_chat_attachment_metadata_then_file_def split: sum.splits create_attachment_outcome.splits)
  next
    case True
    then obtain a where a: "out = Inr (AttachmentCreated a)" ..
    note row = created_row [OF c [unfolded a]]
    obtain wr files1 where w: "write_attachment_bytes t2 fault (na_key n) bs files = (wr, files1)" by fastforce
    show ?thesis
    proof (cases wr)
      case (Inr u)
      from write_effect(2) [OF w this] run show ?thesis
        by (auto simp: create_chat_attachment_metadata_then_file_def c a w Inr row)
    next
      case (Inl e)
      obtain deleted db2 where del: "delete_pending_chat_attachment t3 owner (na_id n) db1 = (deleted, db2)" by fastforce
      note undone = taken_back [OF row(3) del [unfolded row(2)]]
      from run have "answer = Inl (if deleted then e else Database)" "db' = db2" "files' = files1"
        by (auto simp: create_chat_attachment_metadata_then_file_def c a w Inl del)
      moreover from undone(2) obtain d where "d \<in> set (file_deletions db2)" "fd_key d = na_key n"
        by (metis imageE)
      ultimately show ?thesis using undone(1) write_effect(1) [OF w]
        by simp metis
    qed
  qed
qed

lemma upload_cases:
  assumes "upload_chat_attachment w cookie get_session parts i db files = (answer, db', files')"
  shows "(\<exists>e. answer = Inl e) \<and> db' = db \<and> files' = files
    \<or> (\<exists>session bs v format t1 t2 t3. require_attachment_session cookie get_session = Inr session
        \<and> read_fields parts None = Inr (Some bs) \<and> detect_supported_image_format bs = Some format
        \<and> vi_mime v = mime_type format \<and> vi_extension v = extension_of format
        \<and> create_chat_attachment_metadata_then_file t1 t2 t3 (uw_fault w) (uw_max_storage w)
            (scope_from_session session) (new_image (uw_uuid_text w) i v) bs db files = (answer, db', files'))"
proof (cases "answer")
  case (Inl e)
  then show ?thesis using assms
    by (fastforce simp: upload_chat_attachment_def validate_image_attachment_def validate_image_attachment_bytes_def map_sum_Inr
        split: if_splits sum.splits option.splits prod.splits)
next
  case (Inr a)
  then show ?thesis using assms
    by (fastforce simp: upload_chat_attachment_def validate_image_attachment_def validate_image_attachment_bytes_def map_sum_Inr
        split: if_splits sum.splits option.splits prod.splits)
qed

text \<open>
  C19: When an upload answers with an attachment, a preview of it in the same session answers with exactly the
  bytes of the uploaded file and the MIME type of the format its first bytes announce; when an upload fails, the
  attachments are as before and its file, if a part of it was written, is queued for deletion.
\<close>

theorem upload_preview_roundtrip:
  assumes run: "upload_chat_attachment w cookie get_session parts i db files = (answer, db', files')"
  shows "case answer of
      Inr a \<Rightarrow> (\<exists>bs format. read_fields parts None = Inr (Some bs) \<and> detect_supported_image_format bs = Some format
        \<and> preview_chat_attachment None cookie get_session (ar_id a) db' files' = Inr (mime_type format, bs))
    | Inl e \<Rightarrow> attachments db' = attachments db
        \<and> (\<forall>path. files' path \<noteq> files path \<longrightarrow>
             (\<exists>d\<in>set (file_deletions db'). attachment_storage_path (fd_key d) = Inr path))"
proof -
  consider "db' = db" "files' = files" "\<exists>e. answer = Inl e"
    | session bs v format t1 t2 t3 where "require_attachment_session cookie get_session = Inr session"
      "read_fields parts None = Inr (Some bs)" "detect_supported_image_format bs = Some format"
      "vi_mime v = mime_type format" "vi_extension v = extension_of format"
      "create_chat_attachment_metadata_then_file t1 t2 t3 (uw_fault w) (uw_max_storage w)
            (scope_from_session session) (new_image (uw_uuid_text w) i v) bs db files = (answer, db', files')"
    using upload_cases [OF run] by blast
  then show ?thesis
  proof cases
    case 1
    then show ?thesis by auto
  next
    case (2 session bs v format t1 t2 t3)
    note m = metadata_then_file [OF 2(6)]
    show ?thesis
    proof (cases answer)
      case (Inl e)
      with m show ?thesis by simp
    next
      case (Inr a)
      let ?n = "new_image (uw_uuid_text w) i v" and ?o = "scope_from_session session"
      let ?row = "new_attachment_row t1 ?o ?n"
      from m Inr obtain p where a: "a = chat_attachment_from_row ?row" "db' = db\<lparr>attachments := attachments db @ [?row]\<rparr>"
        "na_id ?n \<notin> att_id ` set (attachments db)" "attachment_storage_path (na_key ?n) = Inr p"
        "files' = files(p \<mapsto> \<lparr>file_bytes = bs, file_modified = t2\<rparr>)" by auto
      have other: "att_id x \<noteq> i" if "x \<in> set (attachments db)" for x
        using a(3) imageI [OF that, of att_id] by (auto simp: new_image_def)
      have "find (\<lambda>x. att_id x = i \<and> att_deleted x = None \<and> owns_attachment ?o x) (attachments db @ [?row]) = Some ?row"
        using other new_row_pending [of t1 ?o ?n]
        by (simp add: find_append find_None_iff is_pending_def new_image_def split: option.split)
          (auto simp: new_attachment_row_def find_Some_iff in_set_conv_nth)
      then have got: "get_chat_attachment ?o i db' = Some a" by (simp add: get_chat_attachment_def a(1,2))
      have fields: "ar_id a = i" "ar_key a = na_key ?n" "ar_mime a = mime_type format"
        by (simp_all add: a(1) chat_attachment_from_row_def new_attachment_row_def new_image_def 2(4))
      have "header_text_ok (mime_type format)"
        by (cases format) (simp_all add: header_text_ok_def ascii_def)
      then have "preview_chat_attachment None cookie get_session (ar_id a) db' files' = Inr (mime_type format, bs)"
        by (simp add: preview_chat_attachment_def 2(1) fields got read_attachment_bytes_def a(4,5))
      with 2(2,3) Inr show ?thesis by auto
    qed
  qed
qed

definition w_png :: bytes where
  "w_png = [0x89, 0x50, 0x4E, 0x47, 0x0D, 0x0A, 0x1A, 0x0A]"

definition w_upload :: upload_world where
  "w_upload = \<lparr>uw_decoder = \<lparr>dimensions = \<lambda>f n b. Inr (1, 1), decode = \<lambda>f l b. Inr ()\<rparr>, uw_sha256 = \<lambda>b. [],
     uw_uuid_text = w_uuid_text,
     uw_limits = \<lparr>vl_max_bytes = 100, vl_max_width = 10, vl_max_height = 10, vl_max_pixels = 100, vl_max_alloc = 100\<rparr>,
     uw_max_storage = 100, uw_enabled = True, uw_permit_free = True, uw_task_failed = False, uw_rate = None,
     uw_times = (5, 6, 7), uw_fault = None\<rparr>"

definition w_session :: "uuid \<Rightarrow> session_record option" where
  "w_session i = Some \<lparr>session_id = i, session_user = 3, session_kind = Guest, session_created_at = 0\<rparr>"

definition w_fields :: "multipart_field list" where
  "w_fields = [Inr (Some (ascii ''file''), Inr w_png)]"

lemma w_uploaded:
  "\<exists>a. fst (upload_chat_attachment w_upload (Some 1) w_session w_fields 7 (empty_chat_db {1}) Map.empty) = Inr a
    \<and> ar_id a = 7"
proof -
  have key: "attachment_storage_path (image_storage_key w_uuid_text 7 (ascii ''png''))
      = Inr [ascii ''chat-images'', [55, 46, 112, 110, 103]]"
    using w_path by (simp add: w_image_def)
  have img: "validate_image_attachment (uw_decoder w_upload) (uw_sha256 w_upload) (uw_limits w_upload) True False w_png
      = Inr (\<lparr>vi_mime = ascii ''image/png'', vi_extension = ascii ''png'', vi_size = 8, vi_width = 1, vi_height = 1, vi_sha = []\<rparr>, w_png)"
    by (simp add: validate_image_attachment_def validate_image_attachment_bytes_def w_upload_def w_png_def
        detect_supported_image_format_def check_dimensions_def sha256_hex_def)
  have "read_fields w_fields None = Inr (Some w_png)" by (simp add: w_fields_def)
  with img show ?thesis
    by (simp add: upload_chat_attachment_def require_attachment_session_def w_session_def scope_from_session_def
        create_chat_attachment_metadata_then_file_def create_chat_attachment_with_storage_quota_def
        fits_storage_def live_bytes_def queued_bytes_def insert_chat_attachment_def empty_chat_db_def
        write_attachment_bytes_def new_image_def key Let_def w_upload_def chat_attachment_from_row_def
        new_attachment_row_def)
qed

theorem upload_preview_roundtrip_witness:
  "\<exists>a db' files'. upload_chat_attachment w_upload (Some 1) w_session w_fields 7 (empty_chat_db {1}) Map.empty = (Inr a, db', files')
     \<and> preview_chat_attachment None (Some 1) w_session 7 db' files' = Inr (ascii ''image/png'', w_png)"
proof -
  obtain a db' files' where run: "upload_chat_attachment w_upload (Some 1) w_session w_fields 7 (empty_chat_db {1}) Map.empty
      = (Inr a, db', files')" and a: "ar_id a = 7"
    using w_uploaded by (metis prod_cases3 fst_conv)
  have "read_fields w_fields None = Inr (Some w_png)" "detect_supported_image_format w_png = Some Png"
    by (simp_all add: w_fields_def w_png_def detect_supported_image_format_def)
  with upload_preview_roundtrip [OF run] run a show ?thesis by auto
qed

end
