(* ===== verification/Characters.thy ===== *)
theory Characters
  imports App_Error
begin

text \<open>
  The characters of \<open>characters.rs\<close>. There is one, Aiko; the text of her system prompt is data of the
  provider request and is left out of the record.
\<close>

record character =
  ch_id :: ustr
  ch_name :: ustr
  ch_title :: ustr
  ch_profile :: ustr
  ch_status :: ustr
  ch_last_message :: ustr
  ch_last_active_at :: ustr
  ch_unread_count :: u32
  ch_avatar_url :: ustr

record character_response =
  chr_id :: ustr
  chr_name :: ustr
  chr_title :: ustr
  chr_profile :: ustr

record character_ui_response =
  chu_id :: ustr
  chu_name :: ustr
  chu_title :: ustr
  chu_status :: ustr
  chu_last_message :: ustr
  chu_last_active_at :: ustr
  chu_unread_count :: u32
  chu_avatar_url :: ustr

definition aiko :: character where
  "aiko =
     \<lparr>ch_id = ascii ''aiko'', ch_name = ascii ''Aiko'', ch_title = ascii ''Calm anime companion'',
      ch_profile = ascii ''aiko_default'', ch_status = ascii ''Online'',
      ch_last_message = ascii ''Ready when you are.'', ch_last_active_at = ascii ''Now'', ch_unread_count = 0,
      ch_avatar_url = ascii ''/images/aiko-avatar.png''\<rparr>"

definition characters :: "character list" where
  "characters = [aiko]"

definition legacy_aiko_profile_ids :: "ustr list" where
  "legacy_aiko_profile_ids = [ascii ''default_waifu'']"

definition character_by_id :: "ustr \<Rightarrow> character option" where
  "character_by_id i = find (\<lambda>c. ch_id c = i) characters"

definition character_by_ai_profile :: "ustr \<Rightarrow> character option" where
  "character_by_ai_profile profile =
     (if profile \<in> set legacy_aiko_profile_ids then Some aiko
      else find (\<lambda>c. ch_profile c = profile) characters)"

definition is_aiko_profile :: "ustr \<Rightarrow> bool" where
  "is_aiko_profile profile \<longleftrightarrow>
     (case character_by_ai_profile profile of None \<Rightarrow> False | Some c \<Rightarrow> ch_id c = ch_id aiko)"

definition to_character_response :: "character \<Rightarrow> character_response" where
  "to_character_response c =
     \<lparr>chr_id = ch_id c, chr_name = ch_name c, chr_title = ch_title c, chr_profile = ch_profile c\<rparr>"

definition to_character_ui_response :: "character \<Rightarrow> character_ui_response" where
  "to_character_ui_response c =
     \<lparr>chu_id = ch_id c, chu_name = ch_name c, chu_title = ch_title c, chu_status = ch_status c,
      chu_last_message = ch_last_message c, chu_last_active_at = ch_last_active_at c,
      chu_unread_count = ch_unread_count c, chu_avatar_url = ch_avatar_url c\<rparr>"

definition list_characters :: "character_response list" where
  "list_characters = map to_character_response characters"

definition list_chat_ui_characters :: "character_ui_response list" where
  "list_chat_ui_characters = map to_character_ui_response characters"

definition get_character_handler :: "ustr \<Rightarrow> app_error + character_response" where
  "get_character_handler i =
     (case character_by_id i of None \<Rightarrow> Inl NotFound | Some c \<Rightarrow> Inr (to_character_response c))"

lemma is_aiko_profile_iff:
  "is_aiko_profile profile \<longleftrightarrow> profile = ascii ''aiko_default'' \<or> profile = ascii ''default_waifu''"
  by (auto simp: is_aiko_profile_def character_by_ai_profile_def legacy_aiko_profile_ids_def characters_def aiko_def)

end
