(* ===== verification/Response_Guard.thy ===== *)
theory Response_Guard
  imports Characters Memory_Text
begin

text \<open>
  The response guard of \<open>ai/providers/openai.rs\<close>: the masculine Thai particles of a reply in Aiko's name are
  replaced, in a whole reply at once and in a stream as it arrives. A text is the list of its code points;
  the source splits at byte positions, which fall between characters here.
\<close>

section \<open>The rules\<close>

definition aiko_response_guard_replacements :: "(ustr \<times> ustr) list" where
  "aiko_response_guard_replacements =
     [([0xE04, 0xE23, 0xE31, 0xE1A, 0xE19, 0xE30], [0xE04, 0xE48, 0xE30, 0xE19, 0xE30]),
      ([0xE04, 0xE23, 0xE31, 0xE1A, 0xE1C, 0xE21], [0xE04, 0xE48, 0xE30]),
      ([0xE04, 0xE23, 0xE31, 0xE1A], [0xE04, 0xE48, 0xE30]),
      ([0xE04, 0xE31, 0xE1A], [0xE04, 0xE48, 0xE30]),
      ([0xE1C, 0xE21], [0xE44, 0xE2D, 0xE42, 0xE01, 0xE30])]"

definition apply_aiko_response_guard :: "ustr \<Rightarrow> ustr" where
  "apply_aiko_response_guard content =
     foldl (\<lambda>guarded (from, to). replace_all from to guarded) content aiko_response_guard_replacements"

definition apply_character_response_guard :: "ustr \<Rightarrow> ustr \<Rightarrow> ustr" where
  "apply_character_response_guard profile content =
     (if is_aiko_profile profile then apply_aiko_response_guard content else content)"

section \<open>The guard of a stream\<close>

definition proper_prefixes :: "ustr \<Rightarrow> ustr list" where
  "proper_prefixes s = map (\<lambda>n. take n s) [1..<length s]"

definition guard_prefixes :: "ustr list" where
  "guard_prefixes = concat (map (proper_prefixes \<circ> fst) aiko_response_guard_replacements)"

definition aiko_guard_safe_split_index :: "ustr \<Rightarrow> nat option" where
  "aiko_guard_safe_split_index content =
     (if content = [] then None
      else (let i = foldl (\<lambda>i p. if suffix p content then min i (length content - length p) else i)
                      (length content) guard_prefixes
            in if 0 < i then Some i else None))"

record response_guard =
  rg_enabled :: bool
  rg_pending :: ustr
  rg_content :: ustr

definition new_guard :: "ustr \<Rightarrow> response_guard" where
  "new_guard profile = \<lparr>rg_enabled = is_aiko_profile profile, rg_pending = [], rg_content = []\<rparr>"

definition push_delta :: "ustr \<Rightarrow> response_guard \<Rightarrow> ustr option \<times> response_guard" where
  "push_delta delta g =
     (if \<not> rg_enabled g then (Some delta, g\<lparr>rg_content := rg_content g @ delta\<rparr>)
      else (let pending = rg_pending g @ delta
            in case aiko_guard_safe_split_index pending of
                 None \<Rightarrow> (None, g\<lparr>rg_pending := pending\<rparr>)
               | Some i \<Rightarrow>
                   (let guarded = apply_aiko_response_guard (take i pending);
                        g' = g\<lparr>rg_pending := drop i pending\<rparr>
                    in if guarded = [] then (None, g')
                       else (Some guarded, g'\<lparr>rg_content := rg_content g' @ guarded\<rparr>))))"

definition finish_guard :: "response_guard \<Rightarrow> ustr option \<times> response_guard" where
  "finish_guard g =
     (if rg_pending g = [] then (None, g)
      else (let token = (if rg_enabled g then apply_aiko_response_guard (rg_pending g) else rg_pending g);
                g' = g\<lparr>rg_pending := []\<rparr>
            in if token = [] then (None, g')
               else (Some token, g'\<lparr>rg_content := rg_content g' @ token\<rparr>)))"

fun push_deltas :: "ustr list \<Rightarrow> response_guard \<Rightarrow> ustr list \<times> response_guard" where
  "push_deltas [] g = ([], g)"
| "push_deltas (d # ds) g =
     (case push_delta d g of
        (token, g1) \<Rightarrow> (case push_deltas ds g1 of (tokens, g2) \<Rightarrow> (case_option [] (\<lambda>t. [t]) token @ tokens, g2)))"

definition guarded_stream_chunks :: "ustr \<Rightarrow> ustr list \<Rightarrow> ustr list \<times> response_guard" where
  "guarded_stream_chunks profile deltas =
     (case push_deltas deltas (new_guard profile) of
        (tokens, g) \<Rightarrow> (case finish_guard g of (tail, g') \<Rightarrow> (tokens @ case_option [] (\<lambda>t. [t]) tail, g')))"

section \<open>Replacing in two parts\<close>

definition straddles :: "ustr \<Rightarrow> ustr \<Rightarrow> ustr \<Rightarrow> bool" where
  "straddles p a b \<longleftrightarrow> (\<exists>x y. x \<noteq> [] \<and> y \<noteq> [] \<and> p = x @ y \<and> suffix x a \<and> prefix y b)"

lemma replace_all_append:
  "p \<noteq> [] \<Longrightarrow> \<not> straddles p a b \<Longrightarrow> replace_all p r (a @ b) = replace_all p r a @ replace_all p r b"
proof (induction p r a rule: replace_all.induct)
  case (1 p r)
  then show ?case by simp
next
  case (2 p r c cs)
  have shorter: "\<not> straddles p s b" if "suffix s (c # cs)" for s
    using 2(4) suffix_order.trans [OF _ that] unfolding straddles_def by blast
  show ?case
  proof (cases "prefix p (c # cs)")
    case True
    then have "prefix p (c # cs @ b)" using prefix_prefix [of p "c # cs" b] by simp
    moreover from True have "length p \<le> length (c # cs)" by (rule prefix_length_le)
    moreover from this have "drop (length p) (c # cs @ b) = drop (length p) (c # cs) @ b"
      using drop_append [of "length p" "c # cs" b] by simp
    moreover note True
    ultimately show ?thesis using 2(1) [OF _ 2(3) shorter] 2(3) by (simp add: suffix_drop)
  next
    case False
    have "\<not> prefix p ((c # cs) @ b)"
    proof
      assume "prefix p ((c # cs) @ b)"
      then have "prefix p (c # cs) \<or> (\<exists>y. p = (c # cs) @ y \<and> prefix y b)" by (rule prefix_append [THEN iffD1])
      with False obtain y where "p = (c # cs) @ y" "prefix y b" by blast
      moreover from this False have "y \<noteq> []" by auto
      ultimately show False using 2(4) unfolding straddles_def by (metis list.distinct(1) suffix_order.refl)
    qed
    moreover have "suffix cs (c # cs)" by (simp add: suffix_Cons)
    ultimately show ?thesis using 2(2) [OF _ 2(3) shorter] False by simp
  qed
qed

text \<open>Rules whose replacement can neither begin nor end inside a word.\<close>

definition rule_ok :: "ustr set \<Rightarrow> ustr \<times> ustr \<Rightarrow> bool" where
  "rule_ok qs pr \<longleftrightarrow> (case pr of (p, r) \<Rightarrow>
     p \<noteq> [] \<and> r \<noteq> []
     \<and> (\<forall>q\<in>qs. q \<noteq> [] \<and> hd r \<notin> set (tl q) \<and> last r \<notin> set (butlast q) \<and> \<not> sublist q r))"

lemma prefix_replace:
  "r \<noteq> [] \<Longrightarrow> hd r \<notin> set w \<Longrightarrow> prefix w (replace_all p r s) \<Longrightarrow> prefix w s"
proof (induction p r s arbitrary: w rule: replace_all.induct)
  case (2 p r c cs)
  show ?case
  proof (cases "p \<noteq> [] \<and> prefix p (c # cs)")
    case True
    with 2(5) have "prefix w (r @ replace_all p r (drop (length p) (c # cs)))" by simp
    with 2(3,4) have "w = []" by (auto simp: prefix_append elim!: prefixE)
    then show ?thesis by simp
  next
    case False
    with 2(2) [OF False 2(3)] 2(4,5) show ?thesis by (cases w) (auto split: if_splits)
  qed
qed simp

lemma suffix_replace:
  "r \<noteq> [] \<Longrightarrow> last r \<notin> set w \<Longrightarrow> suffix w (replace_all p r s) \<Longrightarrow> suffix w s"
proof (induction p r s rule: replace_all.induct)
  case (2 p r c cs)
  show ?case
  proof (cases "p \<noteq> [] \<and> prefix p (c # cs)")
    case True
    let ?rest = "drop (length p) (c # cs)"
    from True 2(5) have "suffix w (r @ replace_all p r ?rest)" by simp
    then have "suffix w (replace_all p r ?rest)"
      using 2(3,4) by (auto simp: suffix_append last_in_set dest: suffix_order.eq_iff [THEN iffD1] elim!: suffixE)
    with 2(1) [OF True 2(3,4)] have "suffix w ?rest" by simp
    then show ?thesis by (metis suffix_drop suffix_order.trans)
  next
    case False
    note IH = 2(2) [OF False 2(3,4)]
    from False 2(5) consider "suffix w (replace_all p r cs)" | "w = c # replace_all p r cs"
      by (auto simp: suffix_Cons split: if_splits)
    then show ?thesis
    proof cases
      case 1
      with IH show ?thesis by (simp add: suffix_ConsI)
    next
      case 2
      then have "last r \<notin> set (replace_all p r cs)" using \<open>last r \<notin> set w\<close> by simp
      with \<open>r \<noteq> []\<close> have "replace_all p r cs = cs"
        by (induction p r cs rule: replace_all.induct) (auto split: if_splits)
      with 2 show ?thesis by simp
    qed
  qed
qed simp

lemma straddles_replace:
  assumes "rule_ok qs (p, r)" "q \<in> qs" and "straddles q (replace_all p r a) (replace_all p r b)"
  shows "straddles q a b"
proof -
  from assms(3) obtain x y where q: "x \<noteq> []" "y \<noteq> []" "q = x @ y"
    and s: "suffix x (replace_all p r a)" and pf: "prefix y (replace_all p r b)"
    unfolding straddles_def by blast
  have "set x \<subseteq> set (butlast q)" "set y \<subseteq> set (tl q)" using q by (auto simp: butlast_append)
  with assms(1,2) have "r \<noteq> []" "last r \<notin> set x" "hd r \<notin> set y" by (auto simp: rule_ok_def)
  with suffix_replace [OF _ _ s] prefix_replace [OF _ _ pf] q show ?thesis unfolding straddles_def by blast
qed

lemma sublist_replace:
  "rule_ok qs (p, r) \<Longrightarrow> q \<in> qs \<Longrightarrow> sublist q (replace_all p r s) \<Longrightarrow> sublist q s \<and> q \<noteq> p"
proof (induction p r s rule: replace_all.induct)
  case (1 p r)
  then show ?case by (auto simp: rule_ok_def)
next
  case (2 p r c cs)
  from 2(3,4) have ok: "r \<noteq> []" "q \<noteq> []" "p \<noteq> []" "hd r \<notin> set (tl q)" "last r \<notin> set (butlast q)" "\<not> sublist q r"
    by (auto simp: rule_ok_def)
  show ?case
  proof (cases "p \<noteq> [] \<and> prefix p (c # cs)")
    case True
    let ?rest = "drop (length p) (c # cs)"
    from True 2(5) have "sublist q (r @ replace_all p r ?rest)" by simp
    then have "sublist q (replace_all p r ?rest)"
    proof (subst (asm) sublist_append, elim disjE exE conjE)
      fix x y assume xy: "q = x @ y" "suffix x r" "prefix y (replace_all p r ?rest)"
      have "x = [] \<or> y = []"
      proof (rule ccontr)
        assume "\<not> (x = [] \<or> y = [])"
        then have "last x \<in> set (butlast q)" "last r = last x" using xy(1,2) by (auto simp: butlast_append suffix_def)
        with ok(5) show False by simp
      qed
      with xy ok(6) show ?thesis by (auto intro: prefix_imp_sublist suffix_imp_sublist)
    qed (use ok(6) in simp_all)
    from 2(1) [OF True 2(3,4) this] have "sublist q ?rest \<and> q \<noteq> p" .
    moreover have "sublist ?rest (c # cs)" by (rule sublist_drop)
    ultimately show ?thesis by (metis sublist_order.order.trans)
  next
    case False
    with 2(5) have "sublist q (c # replace_all p r cs)" by (auto split: if_splits)
    then consider "prefix q (c # replace_all p r cs)" | "sublist q (replace_all p r cs)" by (auto simp: sublist_Cons_right)
    then show ?thesis
    proof cases
      case 1
      then obtain q' where q': "q = c # q'" "prefix q' (replace_all p r cs)" using ok(2) by (cases q) auto
      have "prefix q (c # cs)" using prefix_replace [OF ok(1) _ q'(2)] ok(4) q'(1) by simp
      with False ok(3) show ?thesis by auto
    next
      case 2
      with "2.IH"(2) [OF False \<open>rule_ok qs (p, r)\<close> \<open>q \<in> qs\<close>] show ?thesis by (auto simp: sublist_Cons_right)
    qed
  qed
qed

abbreviation guard_words :: "ustr set" where
  "guard_words \<equiv> fst ` set aiko_response_guard_replacements"

lemma guard_rules: "pr \<in> set aiko_response_guard_replacements \<Longrightarrow> rule_ok guard_words pr"
  by (auto simp: aiko_response_guard_replacements_def rule_ok_def sublist_Cons_right)

lemma guard_append:
  assumes "\<forall>q\<in>guard_words. \<not> straddles q a b"
  shows "apply_aiko_response_guard (a @ b) = apply_aiko_response_guard a @ apply_aiko_response_guard b"
proof -
  let ?f = "\<lambda>guarded (from, to). replace_all from to guarded"
  have "foldl ?f (a @ b) rs = foldl ?f a rs @ foldl ?f b rs"
    if "set rs \<subseteq> set aiko_response_guard_replacements" "\<forall>q\<in>guard_words. \<not> straddles q a b" for rs a b
    using that
  proof (induction rs arbitrary: a b)
    case (Cons pr rs)
    obtain p r where pr: "pr = (p, r)" by fastforce
    with Cons.prems have "p \<in> guard_words" "rule_ok guard_words (p, r)"
      using guard_rules [of pr] by (auto intro: rev_image_eqI)
    with Cons.prems have split: "replace_all p r (a @ b) = replace_all p r a @ replace_all p r b"
      by (intro replace_all_append) (auto simp: rule_ok_def)
    have "\<forall>q\<in>guard_words. \<not> straddles q (replace_all p r a) (replace_all p r b)"
      using Cons.prems(2) straddles_replace [OF \<open>rule_ok guard_words (p, r)\<close>] by blast
    with Cons.IH Cons.prems(1) show ?case by (simp add: pr split)
  qed simp
  from this [OF subset_refl assms] show ?thesis by (simp add: apply_aiko_response_guard_def)
qed

lemma guard_removes:
  assumes "q \<in> guard_words" shows "\<not> sublist q (apply_aiko_response_guard s)"
proof
  let ?f = "\<lambda>guarded (from, to). replace_all from to guarded"
  assume "sublist q (apply_aiko_response_guard s)"
  moreover have "sublist q s \<and> q \<notin> fst ` set rs"
    if "set rs \<subseteq> set aiko_response_guard_replacements" "sublist q (foldl ?f s rs)" for rs s
    using that
  proof (induction rs arbitrary: s)
    case (Cons pr rs)
    obtain p r where pr: "pr = (p, r)" by fastforce
    from Cons have "sublist q (replace_all p r s) \<and> q \<notin> fst ` set rs" by (simp add: pr)
    with sublist_replace [of guard_words p r q s] guard_rules [of pr] Cons.prems(1) assms show ?case by (auto simp: pr)
  qed simp
  ultimately have "q \<notin> guard_words" using subset_refl unfolding apply_aiko_response_guard_def by blast
  with assms show False by simp
qed

section \<open>The stream\<close>

text \<open>No word begins in what is released and can still go on in what is held back.\<close>

definition held_back :: "ustr \<Rightarrow> ustr \<Rightarrow> bool" where
  "held_back released pending \<longleftrightarrow>
     (\<forall>q\<in>guard_words. \<forall>x y. x \<noteq> [] \<and> y \<noteq> [] \<and> q = x @ y \<and> suffix x released
        \<longrightarrow> \<not> prefix y pending \<and> \<not> prefix pending y)"

lemma held_back_Nil: "held_back [] pending"
  by (auto simp: held_back_def)

lemma held_back_append: "held_back released pending \<Longrightarrow> held_back released (pending @ rest)"
  unfolding held_back_def by (metis prefix_append prefix_def)

lemma held_back_straddles: "held_back released pending \<Longrightarrow> q \<in> guard_words \<Longrightarrow> \<not> straddles q released (take n pending)"
  unfolding held_back_def straddles_def using prefix_order.trans [OF _ take_is_prefix] by blast

lemma guard_prefixes_iff:
  "x \<in> set guard_prefixes \<longleftrightarrow> (\<exists>q\<in>guard_words. \<exists>y. x \<noteq> [] \<and> y \<noteq> [] \<and> q = x @ y)"
proof -
  have "x \<in> set (proper_prefixes q) \<longleftrightarrow> (\<exists>y. x \<noteq> [] \<and> y \<noteq> [] \<and> q = x @ y)" for q
  proof
    assume "x \<in> set (proper_prefixes q)"
    then obtain n where "1 \<le> n" "n < length q" "x = take n q" by (auto simp: proper_prefixes_def)
    then show "\<exists>y. x \<noteq> [] \<and> y \<noteq> [] \<and> q = x @ y" by (intro exI [of _ "drop n q"]) auto
  next
    assume "\<exists>y. x \<noteq> [] \<and> y \<noteq> [] \<and> q = x @ y"
    then show "x \<in> set (proper_prefixes q)"
      by (auto simp: proper_prefixes_def image_iff Suc_le_eq intro!: bexI [of _ "length x"])
  qed
  then show ?thesis by (auto simp: guard_prefixes_def)
qed

text \<open>A word that ends inside another does not begin there.\<close>

lemma guard_words_apart:
  "q \<in> guard_words \<Longrightarrow> q = x @ y \<Longrightarrow> x \<noteq> [] \<Longrightarrow> y \<noteq> [] \<Longrightarrow> p \<in> set guard_prefixes \<Longrightarrow> \<not> prefix y p"
proof -
  have "list_all (\<lambda>q. list_all (\<lambda>n. list_all (\<lambda>p. \<not> prefix (drop n q) p) guard_prefixes) [1..<length q])
      (map fst aiko_response_guard_replacements)"
    by (simp add: aiko_response_guard_replacements_def guard_prefixes_def proper_prefixes_def upt_rec)
  moreover assume "q \<in> guard_words" "q = x @ y" "x \<noteq> []" "y \<noteq> []" "p \<in> set guard_prefixes"
  moreover from this have "length x \<in> set [1..<length q]" by (simp add: Suc_le_eq)
  ultimately have "\<not> prefix (drop (length x) q) p" unfolding list_all_iff set_map by blast
  with \<open>q = x @ y\<close> show ?thesis by simp
qed

lemma fold_min:
  fixes n :: nat
  shows "foldl (\<lambda>i p. if P p then min i (f p) else i) n ps \<le> n"
    and "p \<in> set ps \<Longrightarrow> P p \<Longrightarrow> foldl (\<lambda>i p. if P p then min i (f p) else i) n ps \<le> f p"
    and "foldl (\<lambda>i p. if P p then min i (f p) else i) n ps = n
      \<or> (\<exists>p\<in>set ps. P p \<and> foldl (\<lambda>i p. if P p then min i (f p) else i) n ps = f p)"
proof -
  have le: "foldl (\<lambda>i p. if P p then min i (f p) else i) n ps \<le> n" for n ps
  proof (induction ps arbitrary: n)
    case (Cons a ps)
    from Cons.IH [of "min n (f a)"] Cons.IH [of n] show ?case by simp
  qed simp
  then show "foldl (\<lambda>i p. if P p then min i (f p) else i) n ps \<le> n" .
  show "p \<in> set ps \<Longrightarrow> P p \<Longrightarrow> foldl (\<lambda>i p. if P p then min i (f p) else i) n ps \<le> f p"
  proof (induction ps arbitrary: n)
    case (Cons a ps)
    show ?case
    proof (cases "a = p")
      case True
      have "foldl (\<lambda>i p. if P p then min i (f p) else i) (min n (f p)) ps \<le> min n (f p)" by (rule le)
      with Cons.prems True show ?thesis by (simp del: min.bounded_iff)
    next
      case False
      with Cons show ?thesis by simp
    qed
  qed simp
  show "foldl (\<lambda>i p. if P p then min i (f p) else i) n ps = n
      \<or> (\<exists>p\<in>set ps. P p \<and> foldl (\<lambda>i p. if P p then min i (f p) else i) n ps = f p)"
  proof (induction ps arbitrary: n)
    case (Cons a ps)
    show ?case
    proof (cases "P a")
      case True
      have "min n (f a) = n \<or> min n (f a) = f a" by linarith
      with Cons.IH [of "min n (f a)"] True show ?thesis by auto
    next
      case False
      with Cons.IH [of n] show ?thesis by auto
    qed
  qed simp
qed

lemma split_index:
  assumes "aiko_guard_safe_split_index s = Some i"
  shows "i \<le> length s" and "\<And>x. x \<in> set guard_prefixes \<Longrightarrow> suffix x s \<Longrightarrow> i \<le> length s - length x"
    and "drop i s = [] \<or> drop i s \<in> set guard_prefixes"
proof -
  let ?i = "foldl (\<lambda>i p. if suffix p s then min i (length s - length p) else i) (length s) guard_prefixes"
  have i: "i = ?i" using assms by (auto simp: aiko_guard_safe_split_index_def Let_def split: if_splits)
  show "i \<le> length s" unfolding i by (rule fold_min(1))
  show "\<And>x. x \<in> set guard_prefixes \<Longrightarrow> suffix x s \<Longrightarrow> i \<le> length s - length x"
    unfolding i by (rule fold_min(2))
  from fold_min(3) [of "\<lambda>p. suffix p s" "\<lambda>p. length s - length p" "length s" guard_prefixes]
  show "drop i s = [] \<or> drop i s \<in> set guard_prefixes" by (auto simp: i suffix_def)
qed

lemma held_back_split:
  assumes held: "held_back released s" and split: "aiko_guard_safe_split_index s = Some i"
  shows "held_back (released @ take i s) (drop i s)"
  unfolding held_back_def
proof (intro ballI allI impI)
  fix q x y assume q: "q \<in> guard_words" and "x \<noteq> [] \<and> y \<noteq> [] \<and> q = x @ y \<and> suffix x (released @ take i s)"
  then have xy: "x \<noteq> []" "y \<noteq> []" "q = x @ y" and x: "suffix x (released @ take i s)" by auto
  note i = split_index [OF split]
  have "\<not> prefix y (drop i s)"
  proof
    assume y: "prefix y (drop i s)"
    with xy(2) have "drop i s \<in> set guard_prefixes" using i(3) by auto
    with guard_words_apart [OF q xy(3,1,2)] y show False by blast
  qed
  moreover have "\<not> prefix (drop i s) y"
  proof
    assume "prefix (drop i s) y"
    then obtain z where z: "y = drop i s @ z" by (auto elim: prefixE)
    have "z \<noteq> []" using \<open>\<not> prefix y (drop i s)\<close> z by auto
    from x have "suffix x (take i s) \<or> (\<exists>x'. x = x' @ take i s \<and> suffix x' released)" by (rule suffix_append [THEN iffD1])
    then consider "suffix x (take i s)" | x' where "x = x' @ take i s" "suffix x' released" "x' \<noteq> []"
      by (cases "suffix x (take i s)") (fastforce, force)
    then show False
    proof cases
      case 1
      have "x @ drop i s \<in> set guard_prefixes"
        unfolding guard_prefixes_iff using q xy(1,3) z \<open>z \<noteq> []\<close> by (intro bexI [OF _ q] exI [of _ z]) auto
      moreover have "suffix (x @ drop i s) s" using 1 by (metis append.assoc append_take_drop_id suffix_def)
      ultimately have "i \<le> length s - length (x @ drop i s)" by (rule i(2))
      moreover have "length x \<le> i" using 1 suffix_length_le i(1) by fastforce
      ultimately show False using xy(1) i(1) by (cases x) auto
    next
      case 2
      have "q = x' @ (s @ z)" using xy(3) z 2(1) by simp
      moreover have "s @ z \<noteq> []" using \<open>z \<noteq> []\<close> by simp
      ultimately have "\<not> prefix s (s @ z)" using held q 2(2,3) unfolding held_back_def by blast
      then show False by simp
    qed
  qed
  ultimately show "\<not> prefix y (drop i s) \<and> \<not> prefix (drop i s) y" by blast
qed

definition guard_state :: "ustr \<Rightarrow> response_guard \<Rightarrow> bool" where
  "guard_state seen g \<longleftrightarrow>
     (if rg_enabled g
      then (\<exists>released. seen = released @ rg_pending g \<and> rg_content g = apply_aiko_response_guard released
             \<and> held_back released (rg_pending g))
      else rg_pending g = [] \<and> rg_content g = seen)"

lemma push_delta_state:
  assumes "guard_state seen g" and "push_delta delta g = (token, g')"
  shows "guard_state (seen @ delta) g' \<and> rg_enabled g' = rg_enabled g
    \<and> rg_content g' = rg_content g @ concat (case_option [] (\<lambda>t. [t]) token)"
proof (cases "rg_enabled g")
  case False
  with assms show ?thesis by (auto simp: guard_state_def push_delta_def)
next
  case True
  with assms(1) obtain released where r: "seen = released @ rg_pending g"
    "rg_content g = apply_aiko_response_guard released" "held_back released (rg_pending g)"
    by (auto simp: guard_state_def)
  let ?s = "rg_pending g @ delta"
  have held: "held_back released ?s" using r(3) by (rule held_back_append)
  show ?thesis
  proof (cases "aiko_guard_safe_split_index ?s")
    case None
    with True assms(2) r held show ?thesis by (auto simp: guard_state_def push_delta_def)
  next
    case (Some i)
    have "\<forall>q\<in>guard_words. \<not> straddles q released (take i ?s)" using held_back_straddles [OF held] by blast
    from guard_append [OF this] have g: "apply_aiko_response_guard (released @ take i ?s)
        = apply_aiko_response_guard released @ apply_aiko_response_guard (take i ?s)" .
    have "guard_state (seen @ delta) g'"
    proof -
      have "rg_pending g' = drop i ?s" "rg_content g' = apply_aiko_response_guard (released @ take i ?s)" "rg_enabled g'"
        using assms(2) True Some r(2) g by (auto simp: push_delta_def Let_def split: if_splits)
      moreover have "seen @ delta = (released @ take i ?s) @ drop i ?s" by (simp only: r(1) append.assoc append_take_drop_id)
      moreover note held_back_split [OF held Some]
      ultimately show ?thesis unfolding guard_state_def by metis
    qed
    with assms(2) True Some show ?thesis by (auto simp: push_delta_def Let_def split: if_splits)
  qed
qed

lemma push_deltas_state:
  "guard_state seen g \<Longrightarrow> push_deltas ds g = (tokens, g') \<Longrightarrow>
    guard_state (seen @ concat ds) g' \<and> rg_enabled g' = rg_enabled g \<and> rg_content g' = rg_content g @ concat tokens"
proof (induction ds arbitrary: seen g tokens)
  case (Cons d ds)
  obtain token g1 where p: "push_delta d g = (token, g1)" by fastforce
  obtain ts g2 where q: "push_deltas ds g1 = (ts, g2)" by fastforce
  from push_delta_state [OF Cons.prems(1) p] Cons.IH [of "seen @ d" g1 ts] Cons.prems(2) p q show ?case by auto
qed simp

lemma finish_guard_state:
  assumes "guard_state seen g" and "finish_guard g = (token, g')"
  shows "rg_content g' = (if rg_enabled g then apply_aiko_response_guard seen else seen)
    \<and> rg_content g' = rg_content g @ concat (case_option [] (\<lambda>t. [t]) token)"
proof (cases "rg_enabled g")
  case False
  with assms show ?thesis by (auto simp: guard_state_def finish_guard_def)
next
  case True
  with assms(1) obtain released where r: "seen = released @ rg_pending g"
    "rg_content g = apply_aiko_response_guard released" "held_back released (rg_pending g)"
    by (auto simp: guard_state_def)
  have "\<forall>q\<in>guard_words. \<not> straddles q released (rg_pending g)"
    using held_back_straddles [OF r(3), of _ "length (rg_pending g)"] by auto
  from guard_append [OF this] r True assms(2) show ?thesis by (auto simp: finish_guard_def Let_def split: if_splits)
qed

lemma new_guard_state: "guard_state [] (new_guard profile)"
  by (auto simp: guard_state_def new_guard_def held_back_Nil apply_aiko_response_guard_def aiko_response_guard_replacements_def)

text \<open>
  C5: A reply that is guarded while it streams is the reply guarded as a whole, however it is cut into deltas:
  the tokens sent to the client and the stored content are both that text; and for a profile of Aiko
  none of the masculine words is left in it.
\<close>

theorem guard_stream_is_batch:
  "case guarded_stream_chunks profile deltas of (tokens, g) \<Rightarrow>
     concat tokens = apply_character_response_guard profile (concat deltas)
     \<and> rg_content g = concat tokens
     \<and> (if is_aiko_profile profile
        then list_all (\<lambda>(from, to). \<not> sublist from (concat tokens)) aiko_response_guard_replacements
        else concat tokens = concat deltas)"
proof -
  obtain tokens g where p: "push_deltas deltas (new_guard profile) = (tokens, g)" by fastforce
  obtain tail g' where f: "finish_guard g = (tail, g')" by fastforce
  note s = push_deltas_state [OF new_guard_state p]
  from s have st: "guard_state (concat deltas) g" "rg_enabled g = is_aiko_profile profile" "rg_content g = concat tokens"
    by (simp_all add: new_guard_def)
  note e = finish_guard_state [OF st(1) f, unfolded st(2,3)]
  have "list_all (\<lambda>(from, to). \<not> sublist from (apply_aiko_response_guard s)) aiko_response_guard_replacements" for s
    using guard_removes by (fastforce simp: list_all_iff)
  with e [THEN conjunct1] e [THEN conjunct2, symmetric] show ?thesis
    by (simp add: guarded_stream_chunks_def p f apply_character_response_guard_def)
qed

end
