(* ===== verification/Ai_Message.thy ===== *)
theory Ai_Message
  imports Response_Guard Chat_Db Attachments
begin

text \<open>
  The messages of the AI service, \<open>ai/mod.rs\<close>, the mock provider, and the requests that \<open>ai/providers/openai.rs\<close>
  builds for the remote ones. The base64 encoder and the text of the system prompt are arguments. The text of an
  upstream error is a string of 8-bit characters; it never reaches a client.
\<close>

section \<open>Messages\<close>

record ai_image =
  im_mime :: ustr
  im_bytes :: bytes
  im_size :: int
  im_width :: "int option"
  im_height :: "int option"
  im_sha :: ustr

datatype ai_part = TextPart ustr | ImagePart ai_image

record ai_message =
  am_role :: ai_role
  am_parts :: "ai_part list"

definition text_parts :: "ustr \<Rightarrow> ai_part list" where
  "text_parts content = (if content = [] then [] else [TextPart content])"

definition text_message :: "ai_role \<Rightarrow> ustr \<Rightarrow> ai_message" where
  "text_message r content = \<lparr>am_role = r, am_parts = text_parts content\<rparr>"

fun part_text :: "ai_part \<Rightarrow> ustr" where
  "part_text (TextPart t) = t"
| "part_text (ImagePart i) = []"

definition text_content :: "ai_message \<Rightarrow> ustr" where
  "text_content m = concat (map part_text (am_parts m))"

fun is_image_part :: "ai_part \<Rightarrow> bool" where
  "is_image_part (TextPart t) \<longleftrightarrow> False"
| "is_image_part (ImagePart i) \<longleftrightarrow> True"

definition has_image_parts :: "ai_message \<Rightarrow> bool" where
  "has_image_parts m \<longleftrightarrow> list_ex is_image_part (am_parts m)"

lemma text_content_message [simp]: "text_content (text_message r content) = content"
  by (simp add: text_content_def text_message_def text_parts_def)

definition ensure_provider_supports_messages :: "string \<Rightarrow> ai_message list \<Rightarrow> app_error + unit" where
  "ensure_provider_supports_messages provider ms =
     (if \<not> list_ex has_image_parts ms then Inr ()
      else if provider = ''mock'' \<or> provider = ''openai'' then Inr ()
      else Inl (BadRequest ''image attachments are not supported by the configured AI provider''))"

section \<open>The mock provider\<close>

definition mock_complete_chat :: "ustr \<Rightarrow> ai_message list \<Rightarrow> ai_message" where
  "mock_complete_chat profile ms =
     (let last_message = (if ms = [] then [] else text_content (last ms));
          image_count = (if ms = [] then 0 else length (filter is_image_part (am_parts (last ms))));
          image_suffix = (if image_count = 0 then []
             else ascii '' with '' @ ascii (show_nat image_count) @ ascii '' image attachment(s)'')
      in text_message AssistantRole
           (91 # profile @ ascii ''] mock reply: I received '' @ 34 # last_message @ 34 # image_suffix @ [46]))"

fun split_mock_tokens :: "ustr \<Rightarrow> ustr \<Rightarrow> ustr list" where
  "split_mock_tokens current [] = (if current = [] then [] else [current])"
| "split_mock_tokens current (c # cs) =
     (if is_whitespace c then (current @ [c]) # split_mock_tokens [] cs
      else split_mock_tokens (current @ [c]) cs)"

lemma concat_split_mock_tokens: "concat (split_mock_tokens current s) = current @ s"
  by (induction current s rule: split_mock_tokens.induct) auto

section \<open>The request of a remote provider\<close>

record chat_completions_provider =
  cp_base_url :: ustr
  cp_api_key :: "ustr option"
  cp_model :: ustr
  cp_profile :: ustr

datatype provider_part = ProviderText ustr | ProviderImageUrl ustr

datatype provider_content = PlainContent ustr | PartsContent "provider_part list"

record provider_message =
  pm_role :: ustr
  pm_content :: provider_content

fun role_name :: "ai_role \<Rightarrow> ustr" where
  "role_name UserRole = ascii ''user''"
| "role_name AssistantRole = ascii ''assistant''"
| "role_name SystemRole = ascii ''system''"

fun provider_part_of :: "(bytes \<Rightarrow> ustr) \<Rightarrow> ai_part \<Rightarrow> provider_part" where
  "provider_part_of base64 (TextPart t) = ProviderText t"
| "provider_part_of base64 (ImagePart i) =
     ProviderImageUrl (ascii ''data:'' @ im_mime i @ ascii '';base64,'' @ base64 (im_bytes i))"

definition provider_message_content :: "(bytes \<Rightarrow> ustr) \<Rightarrow> ai_message \<Rightarrow> provider_content" where
  "provider_message_content base64 m =
     (if \<not> has_image_parts m then PlainContent (text_content m)
      else PartsContent (map (provider_part_of base64) (am_parts m)))"

definition system_prompt :: "(character \<Rightarrow> ustr) \<Rightarrow> ustr \<Rightarrow> ustr" where
  "system_prompt prompt profile =
     (case character_by_ai_profile profile of
        Some c \<Rightarrow> prompt c
      | None \<Rightarrow> ascii (''You are a helpful chat companion. Reply naturally, stay concise, '' @
                       ''and keep boundaries respectful.''))"

definition build_messages ::
  "(bytes \<Rightarrow> ustr) \<Rightarrow> (character \<Rightarrow> ustr) \<Rightarrow> ustr \<Rightarrow> ai_message list \<Rightarrow> provider_message list" where
  "build_messages base64 prompt profile ms =
     \<lparr>pm_role = ascii ''system'', pm_content = PlainContent (system_prompt prompt profile)\<rparr>
     # map (\<lambda>m. \<lparr>pm_role = role_name (am_role m), pm_content = provider_message_content base64 m\<rparr>) ms"

definition is_gpt_55_model :: "ustr \<Rightarrow> bool" where
  "is_gpt_55_model model \<longleftrightarrow> model = ascii ''gpt-5.5'' \<or> prefix (ascii ''gpt-5.5-'') model"

text \<open>A temperature is a number of tenths.\<close>

definition chat_completion_temperature :: "ustr \<Rightarrow> nat \<Rightarrow> nat option" where
  "chat_completion_temperature model temperature = (if is_gpt_55_model model then None else Some temperature)"

record chat_completion_request =
  cq_model :: ustr
  cq_messages :: "provider_message list"
  cq_temperature :: "nat option"
  cq_max_tokens :: "u32 option"
  cq_max_completion_tokens :: "u32 option"
  cq_stream :: bool

definition new_completion_request :: "ustr \<Rightarrow> provider_message list \<Rightarrow> u32 \<Rightarrow> bool \<Rightarrow> chat_completion_request" where
  "new_completion_request model ms output_max_tokens stream =
     (let completion = is_gpt_55_model model
      in \<lparr>cq_model = model, cq_messages = ms, cq_temperature = chat_completion_temperature model 8,
          cq_max_tokens = (if completion then None else Some output_max_tokens),
          cq_max_completion_tokens = (if completion then Some output_max_tokens else None), cq_stream = stream\<rparr>)"

text \<open>The headers and the body of a POST: the address, the bearer token and the JSON.\<close>

record http_post =
  post_url :: ustr
  post_bearer :: "ustr option"
  post_body :: chat_completion_request

definition completions_url :: "ustr \<Rightarrow> ustr" where
  "completions_url base = rev (dropWhile (\<lambda>c. c = 47) (rev base)) @ ascii ''/chat/completions''"

definition completions_post ::
  "(bytes \<Rightarrow> ustr) \<Rightarrow> (character \<Rightarrow> ustr) \<Rightarrow> u32 \<Rightarrow> bool \<Rightarrow> chat_completions_provider \<Rightarrow> ai_message list \<Rightarrow> http_post" where
  "completions_post base64 prompt output_max_tokens stream p ms =
     \<lparr>post_url = completions_url (cp_base_url p), post_bearer = cp_api_key p,
      post_body = new_completion_request (cp_model p) (build_messages base64 prompt (cp_profile p) ms)
        output_max_tokens stream\<rparr>"

text \<open>What the HTTP client answers: \<open>ErrorStatus\<close> holds the status line and the body, or the error of reading it.\<close>

datatype 'body http_answer = SendError string | ErrorStatus string "string + string" | Success 'body

fun http_failure :: "'body http_answer \<Rightarrow> app_error + 'body" where
  "http_failure (SendError e) = Inl (Ai e)"
| "http_failure (ErrorStatus status (Inl e)) = Inl (Ai e)"
| "http_failure (ErrorStatus status (Inr body)) = Inl (Ai (''provider returned '' @ status @ '': '' @ body))"
| "http_failure (Success body) = Inr body"

text \<open>\<open>parse\<close> is the JSON parser: the contents of the choices.\<close>

definition completion_content :: "(ustr \<Rightarrow> string + ustr option list) \<Rightarrow> ustr \<Rightarrow> app_error + ustr" where
  "completion_content parse body =
     (case parse body of
        Inl e \<Rightarrow> Inl (Ai e)
      | Inr (Some content # choices) \<Rightarrow> Inr content
      | Inr choices \<Rightarrow> Inl (Ai ''provider response did not include content''))"

definition complete_chat_completions ::
  "(ustr \<Rightarrow> string + ustr option list) \<Rightarrow> (http_post \<Rightarrow> (string + ustr) http_answer) \<Rightarrow> (bytes \<Rightarrow> ustr)
    \<Rightarrow> (character \<Rightarrow> ustr) \<Rightarrow> u32 \<Rightarrow> chat_completions_provider \<Rightarrow> ai_message list \<Rightarrow> app_error + ai_message" where
  "complete_chat_completions parse send base64 prompt output_max_tokens p ms =
     (case http_failure (send (completions_post base64 prompt output_max_tokens False p ms)) of
        Inl e \<Rightarrow> Inl e
      | Inr (Inl e) \<Rightarrow> Inl (Ai e)
      | Inr (Inr body) \<Rightarrow>
          map_sum id (\<lambda>content. text_message AssistantRole (apply_character_response_guard (cp_profile p) content))
            (completion_content parse body))"

end
