(* ===== verification/Provider_Stream.thy ===== *)
theory Provider_Stream
  imports Ai_Message
begin

text \<open>
  The streamed reply of \<open>ai/providers/openai.rs\<close>: network chunks are collected in a buffer, cut into frames
  at empty lines, and the \<open>data:\<close> lines of a frame go through the response guard to the callback. A chunk is its
  text, as \<open>from_utf8_lossy\<close> gives it; the JSON parser and the callback are arguments.
\<close>

section \<open>Lines and frames\<close>

definition normalize_newlines :: "ustr \<Rightarrow> ustr" where
  "normalize_newlines s = replace_all [13] [10] (replace_all [13, 10] [10] s)"

fun find_frame :: "ustr \<Rightarrow> (ustr \<times> ustr) option" where
  "find_frame [] = None"
| "find_frame (c # s) =
     (if take 2 (c # s) = [10, 10] then Some ([], drop 2 (c # s))
      else map_option (\<lambda>(frame, rest). (c # frame, rest)) (find_frame s))"

text \<open>\<open>str::lines\<close>: a line feed ends a line, a carriage return before it belongs to the ending.\<close>

definition strip_cr :: "ustr \<Rightarrow> ustr" where
  "strip_cr l = (if l \<noteq> [] \<and> last l = 13 then butlast l else l)"

definition str_lines :: "ustr \<Rightarrow> ustr list" where
  "str_lines s =
     (let ps = Wf_Prelude.split_on 10 s in map strip_cr (butlast ps) @ (if last ps = [] then [] else [last ps]))"

section \<open>A frame\<close>

type_synonym 's callback = "ustr \<Rightarrow> 's \<Rightarrow> (app_error + unit) \<times> 's"

fun push_choices ::
  "'s callback \<Rightarrow> ustr option list \<Rightarrow> response_guard \<times> 's \<Rightarrow> (app_error + bool) \<times> response_guard \<times> 's" where
  "push_choices on_event [] st = (Inr False, st)"
| "push_choices on_event (choice # choices) (g, s) =
     (case choice of
        None \<Rightarrow> push_choices on_event choices (g, s)
      | Some delta \<Rightarrow>
          if delta = [] then push_choices on_event choices (g, s)
          else (case push_delta delta g of
                  (None, g') \<Rightarrow> push_choices on_event choices (g', s)
                | (Some token, g') \<Rightarrow>
                    (case on_event token s of
                       (Inl e, s') \<Rightarrow> (Inl e, g', s')
                     | (Inr _, s') \<Rightarrow> push_choices on_event choices (g', s'))))"

definition process_line ::
  "(ustr \<Rightarrow> string + ustr option list) \<Rightarrow> 's callback \<Rightarrow> ustr \<Rightarrow> response_guard \<times> 's
    \<Rightarrow> (app_error + bool) \<times> response_guard \<times> 's" where
  "process_line parse on_event raw st =
     (let line = trim_by is_whitespace raw
      in if \<not> prefix (ascii ''data:'') line then (Inr False, st)
         else (let payload = dropWhile is_whitespace (drop 5 line)
               in if payload = ascii ''[DONE]'' then (Inr True, st)
                  else (case parse payload of
                          Inl e \<Rightarrow> (Inl (Ai e), st)
                        | Inr choices \<Rightarrow> push_choices on_event choices st)))"

fun process_lines ::
  "(ustr \<Rightarrow> string + ustr option list) \<Rightarrow> 's callback \<Rightarrow> ustr list \<Rightarrow> response_guard \<times> 's
    \<Rightarrow> (app_error + bool) \<times> response_guard \<times> 's" where
  "process_lines parse on_event [] st = (Inr False, st)"
| "process_lines parse on_event (l # ls) st =
     (case process_line parse on_event l st of
        (Inr False, st') \<Rightarrow> process_lines parse on_event ls st'
      | r \<Rightarrow> r)"

definition process_stream_frame ::
  "(ustr \<Rightarrow> string + ustr option list) \<Rightarrow> 's callback \<Rightarrow> ustr \<Rightarrow> response_guard \<times> 's
    \<Rightarrow> (app_error + bool) \<times> response_guard \<times> 's" where
  "process_stream_frame parse on_event frame st = process_lines parse on_event (str_lines frame) st"

section \<open>The loop\<close>

lemma find_frame_Some: "find_frame s = Some (frame, rest) \<Longrightarrow> s = frame @ [10, 10] @ rest"
proof (induction s arbitrary: frame)
  case (Cons c s)
  show ?case
  proof (cases "take 2 (c # s) = [10, 10]")
    case True
    then have "c # s = [10, 10] @ drop 2 (c # s)" by (metis append_take_drop_id)
    with Cons.prems True show ?thesis by (simp split: if_splits)
  next
    case False
    with Cons show ?thesis by auto
  qed
qed simp

function drain_frames ::
  "(ustr \<Rightarrow> string + ustr option list) \<Rightarrow> 's callback \<Rightarrow> ustr \<Rightarrow> response_guard \<times> 's
    \<Rightarrow> (app_error + bool) \<times> ustr \<times> response_guard \<times> 's" where
  "drain_frames parse on_event buffer st =
     (case find_frame buffer of
        None \<Rightarrow> (Inr False, buffer, st)
      | Some (frame, rest) \<Rightarrow>
          (case process_stream_frame parse on_event frame st of
             (Inr False, st') \<Rightarrow> drain_frames parse on_event rest st'
           | (r, st') \<Rightarrow> (r, rest, st')))"
  by pat_completeness auto
termination
  by (relation "measure (\<lambda>(parse, on_event, buffer, st). length buffer)") (auto dest: find_frame_Some)

declare drain_frames.simps [simp del]

definition final_stream_message :: "ustr \<Rightarrow> app_error + ai_message" where
  "final_stream_message content =
     (if content = [] then Inl (Ai ''provider stream did not include content'')
      else Inr (text_message AssistantRole content))"

text \<open>\<open>emit_guarded_tail\<close> and the answer after it.\<close>

definition finish_stream :: "'s callback \<Rightarrow> response_guard \<times> 's \<Rightarrow> (app_error + ai_message) \<times> 's" where
  "finish_stream on_event = (\<lambda>(g, s).
     (case finish_guard g of
        (None, g') \<Rightarrow> (final_stream_message (rg_content g'), s)
      | (Some token, g') \<Rightarrow>
          (case on_event token s of
             (Inl e, s') \<Rightarrow> (Inl e, s')
           | (Inr _, s') \<Rightarrow> (final_stream_message (rg_content g'), s'))))"

definition stop_stream ::
  "'s callback \<Rightarrow> (app_error + bool) \<times> response_guard \<times> 's \<Rightarrow> (app_error + ai_message) \<times> 's" where
  "stop_stream on_event = (\<lambda>(r, g, s). case r of Inl e \<Rightarrow> (Inl e, s) | Inr _ \<Rightarrow> finish_stream on_event (g, s))"

datatype stream_chunk = IdleTimeout | TotalTimeout | ChunkError string | Chunk ustr

fun stream_loop ::
  "(ustr \<Rightarrow> string + ustr option list) \<Rightarrow> 's callback \<Rightarrow> stream_chunk list \<Rightarrow> ustr \<Rightarrow> response_guard \<times> 's
    \<Rightarrow> (app_error + ai_message) \<times> 's" where
  "stream_loop parse on_event [] buffer st =
     (if trim_by is_whitespace buffer = [] then finish_stream on_event st
      else stop_stream on_event (process_stream_frame parse on_event buffer st))"
| "stream_loop parse on_event (IdleTimeout # cs) buffer (g, s) = (Inl (Ai ''provider stream idle timeout''), s)"
| "stream_loop parse on_event (TotalTimeout # cs) buffer (g, s) = (Inl (Ai ''provider stream timed out''), s)"
| "stream_loop parse on_event (ChunkError e # cs) buffer (g, s) = (Inl (Ai e), s)"
| "stream_loop parse on_event (Chunk c # cs) buffer st =
     (case drain_frames parse on_event (normalize_newlines (buffer @ c)) st of
        (Inr False, buffer', st') \<Rightarrow> stream_loop parse on_event cs buffer' st'
      | (r, buffer', st') \<Rightarrow> stop_stream on_event (r, st'))"

definition stream_chat_completions ::
  "(ustr \<Rightarrow> string + ustr option list) \<Rightarrow> 's callback \<Rightarrow> (http_post \<Rightarrow> stream_chunk list http_answer) \<Rightarrow> (bytes \<Rightarrow> ustr)
    \<Rightarrow> (character \<Rightarrow> ustr) \<Rightarrow> u32 \<Rightarrow> chat_completions_provider \<Rightarrow> ai_message list \<Rightarrow> 's
    \<Rightarrow> (app_error + ai_message) \<times> 's" where
  "stream_chat_completions parse on_event send base64 prompt output_max_tokens p ms s =
     (case http_failure (send (completions_post base64 prompt output_max_tokens True p ms)) of
        Inl e \<Rightarrow> (Inl e, s)
      | Inr chunks \<Rightarrow> stream_loop parse on_event chunks [] (new_guard (cp_profile p), s))"

section \<open>The text without its chunks\<close>

text \<open>The lines of a text, ended by either newline character, without the empty ones.\<close>

definition newline :: "nat \<Rightarrow> nat" where
  "newline c = (if c = 13 then 10 else c)"

definition solid_lines :: "ustr \<Rightarrow> ustr list" where
  "solid_lines s = filter (\<lambda>l. l \<noteq> []) (Wf_Prelude.split_on 10 (map newline s))"

definition stream_of_text ::
  "(ustr \<Rightarrow> string + ustr option list) \<Rightarrow> 's callback \<Rightarrow> ustr \<Rightarrow> response_guard \<times> 's
    \<Rightarrow> (app_error + ai_message) \<times> 's" where
  "stream_of_text parse on_event s st = stop_stream on_event (process_lines parse on_event (solid_lines s) st)"

lemma split_on_break: "Wf_Prelude.split_on x (a @ x # b) = Wf_Prelude.split_on x a @ Wf_Prelude.split_on x b"
  by (induction a) (auto split: list.split)

lemma solid_lines_break: "solid_lines (a @ [10, 10] @ b) = solid_lines a @ solid_lines b"
proof -
  have "newline 10 = 10" by (simp add: newline_def)
  then show ?thesis using split_on_break [of 10 "map newline a" "10 # map newline b"] by (simp add: solid_lines_def)
qed

text \<open>Two texts with the same lines, up to empty ones after the first.\<close>

definition same_lines :: "ustr \<Rightarrow> ustr \<Rightarrow> bool" where
  "same_lines s t \<longleftrightarrow>
     (let ps = Wf_Prelude.split_on 10 (map newline s); qs = Wf_Prelude.split_on 10 (map newline t)
      in hd ps = hd qs \<and> filter (\<lambda>l. l \<noteq> []) (tl ps) = filter (\<lambda>l. l \<noteq> []) (tl qs))"

lemma same_lines_refl [simp]: "same_lines s s"
  by (simp add: same_lines_def)

lemma same_lines_trans: "same_lines s t \<Longrightarrow> same_lines t u \<Longrightarrow> same_lines s u"
  by (simp add: same_lines_def Let_def)

lemma same_lines_solid: "same_lines s t \<Longrightarrow> solid_lines s = solid_lines t"
proof -
  assume "same_lines s t"
  moreover have "solid_lines u = (let ps = Wf_Prelude.split_on 10 (map newline u)
      in (if hd ps = [] then [] else [hd ps]) @ filter (\<lambda>l. l \<noteq> []) (tl ps))" for u
    by (cases "Wf_Prelude.split_on 10 (map newline u)") (simp_all add: solid_lines_def)
  ultimately show ?thesis by (simp add: same_lines_def Let_def)
qed

lemma same_lines_Cons: "same_lines s t \<Longrightarrow> same_lines (c # s) (c # t)"
  by (auto simp: same_lines_def Let_def newline_def split: list.split)

lemma same_lines_newline: "same_lines s t \<Longrightarrow> same_lines (10 # s) (13 # t)"
  using same_lines_Cons [of s t 10] by (simp add: same_lines_def newline_def)

lemma same_lines_crlf: "same_lines s t \<Longrightarrow> same_lines (10 # s) (13 # 10 # t)"
proof -
  assume s: "same_lines s t"
  have "filter (\<lambda>l. l \<noteq> []) (Wf_Prelude.split_on 10 (map newline s)) = filter (\<lambda>l. l \<noteq> []) (Wf_Prelude.split_on 10 (map newline t))"
    using same_lines_solid [OF s] by (simp add: solid_lines_def)
  then show ?thesis by (simp add: same_lines_def newline_def Let_def)
qed

lemma same_lines_crlf_replaced: "same_lines (replace_all [13, 10] [10] s @ t) (s @ t)"
proof (induction s rule: length_induct)
  case (1 s)
  show ?case
  proof (cases s)
    case (Cons c cs)
    show ?thesis
    proof (cases "prefix [13, 10] s")
      case True
      then obtain r where r: "s = 13 # 10 # r" by (auto elim: prefixE)
      with 1 have "same_lines (replace_all [13, 10] [10] r @ t) (r @ t)" by simp
      then show ?thesis by (simp add: r same_lines_crlf)
    next
      case False
      with Cons have "replace_all [13, 10] [10] s = c # replace_all [13, 10] [10] cs" by simp
      moreover from 1 Cons have "same_lines (replace_all [13, 10] [10] cs @ t) (cs @ t)" by simp
      ultimately show ?thesis by (simp add: Cons same_lines_Cons)
    qed
  qed simp
qed

lemma same_lines_cr_replaced: "same_lines (replace_all [13] [10] s @ t) (s @ t)"
proof (induction s rule: length_induct)
  case (1 s)
  show ?case
  proof (cases s)
    case (Cons c cs)
    with 1 have "same_lines (replace_all [13] [10] cs @ t) (cs @ t)" by simp
    with Cons show ?thesis by (simp add: same_lines_Cons same_lines_newline)
  qed simp
qed

lemma same_lines_normalized: "same_lines (normalize_newlines s @ t) (s @ t)"
  unfolding normalize_newlines_def using same_lines_cr_replaced same_lines_crlf_replaced by (rule same_lines_trans)

lemma normalized_no_cr: "13 \<notin> set (normalize_newlines s)"
proof -
  have "13 \<notin> set (replace_all [13] [10] u)" for u
  proof (induction u rule: length_induct)
    case (1 u)
    show ?case
    proof (cases u)
      case (Cons c cs)
      with 1 have "13 \<notin> set (replace_all [13] [10] cs)" by simp
      with Cons show ?thesis by simp
    qed simp
  qed
  then show ?thesis by (simp add: normalize_newlines_def)
qed

lemma split_on_pieces: "l \<in> set (Wf_Prelude.split_on x s) \<Longrightarrow> set l \<subseteq> set s"
proof (induction s arbitrary: l)
  case (Cons a s)
  obtain p ps where p: "Wf_Prelude.split_on x s = p # ps" by (cases "Wf_Prelude.split_on x s") auto
  with Cons.IH [of p] Cons.IH [of l] Cons.prems show ?case by (auto split: if_splits)
qed simp

lemma str_lines_solid:
  assumes "13 \<notin> set s"
  shows "filter (\<lambda>l. l \<noteq> []) (str_lines s) = solid_lines s"
proof -
  let ?ps = "Wf_Prelude.split_on 10 s"
  have "map newline s = s" using assms by (intro map_idI) (auto simp: newline_def)
  have "strip_cr l = l" if "l \<in> set (butlast ?ps)" for l
  proof -
    have "13 \<notin> set l" using split_on_pieces [of l 10 s] in_set_butlastD [OF that] assms by auto
    then show ?thesis by (auto simp: strip_cr_def dest: last_in_set)
  qed
  then have "map strip_cr (butlast ?ps) = butlast ?ps" by (simp add: map_idI)
  moreover have "filter (\<lambda>l. l \<noteq> []) ?ps = filter (\<lambda>l. l \<noteq> []) (butlast ?ps @ [last ?ps])" by simp
  ultimately show ?thesis by (simp add: str_lines_def solid_lines_def Let_def \<open>map newline s = s\<close> del: append_butlast_last_id)
qed

section \<open>Chunks do not matter\<close>

lemma process_lines_append:
  "process_lines parse on_event (xs @ ys) st =
     (case process_lines parse on_event xs st of
        (Inr False, st') \<Rightarrow> process_lines parse on_event ys st'
      | r \<Rightarrow> r)"
  by (induction xs arbitrary: st) (auto split: prod.splits sum.splits bool.splits)

lemma blank_line: "trim_by is_whitespace l = [] \<Longrightarrow> process_line parse on_event l st = (Inr False, st)"
  by (simp add: process_line_def ascii_def)

lemma process_solid_lines:
  "process_lines parse on_event (filter (\<lambda>l. l \<noteq> []) ls) st = process_lines parse on_event ls st"
  by (induction ls arbitrary: st) (auto simp: blank_line split: prod.splits sum.splits bool.splits)

lemma process_frame_solid:
  "13 \<notin> set frame \<Longrightarrow> process_stream_frame parse on_event frame st = process_lines parse on_event (solid_lines frame) st"
  unfolding process_stream_frame_def by (metis process_solid_lines str_lines_solid)

lemma drain_frames_text:
  assumes "13 \<notin> set buffer"
  shows "case drain_frames parse on_event buffer st of
      (Inr False, buffer', st') \<Rightarrow> 13 \<notin> set buffer'
        \<and> process_lines parse on_event (solid_lines (buffer @ t)) st = process_lines parse on_event (solid_lines (buffer' @ t)) st'
    | (r, buffer', st') \<Rightarrow> process_lines parse on_event (solid_lines (buffer @ t)) st = (r, st')"
  using assms
proof (induction parse on_event buffer st rule: drain_frames.induct)
  case (1 parse on_event buffer st)
  show ?case
  proof (cases "find_frame buffer")
    case None
    with 1(2) show ?thesis by (simp add: drain_frames.simps [of _ _ buffer])
  next
    case (Some fr)
    obtain frame rest where fr: "fr = (frame, rest)" by fastforce
    have b: "buffer = frame @ [10, 10] @ rest" using find_frame_Some Some fr by blast
    then have solid: "solid_lines (buffer @ t) = solid_lines frame @ solid_lines (rest @ t)"
      using solid_lines_break [of frame "rest @ t"] by simp
    have cr: "13 \<notin> set frame" "13 \<notin> set rest" using 1(2) b by auto
    obtain r st' where p: "process_stream_frame parse on_event frame st = (r, st')" by (metis surj_pair)
    then have p': "process_lines parse on_event (solid_lines frame) st = (r, st')"
      using process_frame_solid [OF cr(1)] by metis
    show ?thesis
    proof (cases "r = Inr False")
      case True
      have d: "drain_frames parse on_event buffer st = drain_frames parse on_event rest st'"
        using Some p True by (simp add: fr drain_frames.simps [of _ _ buffer])
      have e: "process_lines parse on_event (solid_lines (buffer @ t)) st
          = process_lines parse on_event (solid_lines (rest @ t)) st'"
        using p' True by (simp add: solid process_lines_append)
      show ?thesis unfolding d e by (rule 1(1) [OF Some fr [symmetric] p [symmetric] True refl cr(2)])
    next
      case False
      then show ?thesis using Some p p'
        by (cases r) (auto simp: fr drain_frames.simps [of _ _ buffer] solid process_lines_append split: bool.split)
    qed
  qed
qed

lemma blank_text:
  "trim_by is_whitespace s = [] \<Longrightarrow> process_lines parse on_event (solid_lines s) st = (Inr False, st)"
proof -
  assume "trim_by is_whitespace s = []"
  then have "\<forall>c\<in>set (dropWhile is_whitespace s). is_whitespace c" by (simp add: trim_by_def dropWhile_eq_Nil_conv)
  then have "dropWhile is_whitespace s = []" by (metis hd_dropWhile hd_in_set)
  then have s: "set s \<subseteq> Collect is_whitespace" by (auto simp: dropWhile_eq_Nil_conv)
  have "trim_by is_whitespace l = []" if "l \<in> set (solid_lines s)" for l
  proof -
    have "set l \<subseteq> newline ` set s" using that split_on_pieces [of l 10 "map newline s"] by (auto simp: solid_lines_def)
    moreover have "is_whitespace (newline c)" if "is_whitespace c" for c using that by (simp add: newline_def is_whitespace_def)
    ultimately have "\<forall>c\<in>set l. is_whitespace c" using s by auto
    then show ?thesis by (auto simp: trim_by_def dropWhile_eq_Nil_conv dest: set_dropWhileD)
  qed
  then have "process_lines parse on_event ls st = (Inr False, st)" if "set ls \<subseteq> set (solid_lines s)" for ls
    using that by (induction ls) (auto simp: blank_line)
  then show ?thesis by blast
qed

lemma stream_loop_text:
  "13 \<notin> set buffer \<Longrightarrow>
    stream_loop parse on_event (map Chunk cs) buffer st = stream_of_text parse on_event (buffer @ concat cs) st"
proof (induction cs arbitrary: buffer st)
  case Nil
  show ?case
  proof (cases "trim_by is_whitespace buffer = []")
    case True
    with blank_text [OF True, of parse on_event st] show ?thesis by (cases st) (simp add: stream_of_text_def stop_stream_def)
  next
    case False
    then show ?thesis by (simp add: stream_of_text_def process_frame_solid [OF Nil])
  qed
next
  case (Cons c cs)
  let ?b = "normalize_newlines (buffer @ c)" and ?t = "concat cs"
  obtain r b' st' where d: "drain_frames parse on_event ?b st = (r, b', st')" by (metis prod_cases3)
  have whole: "solid_lines (?b @ ?t) = solid_lines (buffer @ concat (c # cs))"
    using same_lines_solid [OF same_lines_normalized [of "buffer @ c" ?t]] by simp
  note dr = drain_frames_text [where t = ?t, OF normalized_no_cr [of "buffer @ c"], of parse on_event st, unfolded d whole]
  show ?case
  proof (cases "r = Inr False")
    case True
    with dr Cons.IH [of b' st'] show ?thesis by (simp add: d stream_of_text_def)
  next
    case False
    with dr show ?thesis by (cases r) (auto simp: d stream_of_text_def split: bool.splits)
  qed
qed


end
