(* ===== verification/Ai_Service.thy ===== *)
theory Ai_Service
  imports Provider_Stream
begin

text \<open>
  \<open>AiService\<close> of \<open>ai/mod.rs\<close> over the four providers. \<open>ai_world\<close> holds what is outside: the JSON parsers, the
  HTTP client, base64, the text of the system prompts, and whether the total timeout fires. In a stream it
  fires while the service waits for a chunk (\<open>IdleTimeout\<close> and \<open>TotalTimeout\<close> say which timer) or, for
  the mock provider, after a number of tokens.
\<close>

record ai_config =
  ac_provider :: string
  ac_openai_key :: "ustr option"
  ac_openai_base_url :: ustr
  ac_openai_model :: ustr
  ac_lmstudio_base_url :: ustr
  ac_lmstudio_model :: ustr
  ac_xai_key :: "ustr option"
  ac_xai_base_url :: ustr
  ac_xai_model :: ustr
  ac_output_max_tokens :: u32

record ai_world =
  aw_parse :: "ustr \<Rightarrow> string + ustr option list"
  aw_parse_chunk :: "ustr \<Rightarrow> string + ustr option list"
  aw_send :: "http_post \<Rightarrow> (string + ustr) http_answer"
  aw_open :: "http_post \<Rightarrow> stream_chunk list http_answer"
  aw_base64 :: "bytes \<Rightarrow> ustr"
  aw_prompt :: "character \<Rightarrow> ustr"
  aw_timed_out :: bool
  aw_mock_tokens :: "nat option"

text \<open>The settings of \<open>openai.rs\<close>, \<open>lmstudio.rs\<close> and \<open>xai.rs\<close> for the shared requests.\<close>

definition openai_provider :: "ai_config \<Rightarrow> ustr \<Rightarrow> app_error + chat_completions_provider" where
  "openai_provider cfg profile =
     (case ac_openai_key cfg of
        None \<Rightarrow> Inl (Ai ''OPENAI_API_KEY is not configured'')
      | Some key \<Rightarrow> Inr \<lparr>cp_base_url = ac_openai_base_url cfg, cp_api_key = Some key, cp_model = ac_openai_model cfg,
                         cp_profile = profile\<rparr>)"

definition lmstudio_provider :: "ai_config \<Rightarrow> ustr \<Rightarrow> chat_completions_provider" where
  "lmstudio_provider cfg profile =
     \<lparr>cp_base_url = ac_lmstudio_base_url cfg, cp_api_key = None, cp_model = ac_lmstudio_model cfg, cp_profile = profile\<rparr>"

definition xai_provider :: "ai_config \<Rightarrow> ustr \<Rightarrow> app_error + chat_completions_provider" where
  "xai_provider cfg profile =
     (case ac_xai_key cfg of
        None \<Rightarrow> Inl (Ai ''XAI_API_KEY is not configured'')
      | Some key \<Rightarrow> Inr \<lparr>cp_base_url = ac_xai_base_url cfg, cp_api_key = Some key, cp_model = ac_xai_model cfg,
                         cp_profile = profile\<rparr>)"

definition remote_provider :: "ai_config \<Rightarrow> ustr \<Rightarrow> app_error + chat_completions_provider" where
  "remote_provider cfg profile =
     (if ac_provider cfg = ''openai'' then openai_provider cfg profile
      else if ac_provider cfg = ''lmstudio'' then Inr (lmstudio_provider cfg profile)
      else if ac_provider cfg = ''xai'' then xai_provider cfg profile
      else Inl (BadRequest (''unknown ai provider: '' @ ac_provider cfg)))"

definition complete_chat :: "ai_config \<Rightarrow> ai_world \<Rightarrow> ustr \<Rightarrow> ai_message list \<Rightarrow> app_error + ai_message" where
  "complete_chat cfg w profile ms =
     (case ensure_provider_supports_messages (ac_provider cfg) ms of
        Inl e \<Rightarrow> Inl e
      | Inr _ \<Rightarrow>
          if aw_timed_out w then Inl (Ai ''provider request timed out'')
          else if ac_provider cfg = ''mock'' then Inr (mock_complete_chat profile ms)
          else (case remote_provider cfg profile of
                  Inl e \<Rightarrow> Inl e
                | Inr p \<Rightarrow>
                    complete_chat_completions (aw_parse w) (aw_send w) (aw_base64 w) (aw_prompt w)
                      (ac_output_max_tokens cfg) p ms))"

fun mock_stream :: "'s callback \<Rightarrow> nat option \<Rightarrow> ustr list \<Rightarrow> 's \<Rightarrow> (app_error + unit) \<times> 's" where
  "mock_stream on_event (Some 0) tokens s = (Inl (Ai ''provider stream timed out''), s)"
| "mock_stream on_event budget [] s = (Inr (), s)"
| "mock_stream on_event budget (t # ts) s =
     (case on_event t s of
        (Inl e, s') \<Rightarrow> (Inl e, s')
      | (Inr _, s') \<Rightarrow> mock_stream on_event (map_option (\<lambda>n. n - 1) budget) ts s')"

definition mock_stream_chat ::
  "'s callback \<Rightarrow> nat option \<Rightarrow> ustr \<Rightarrow> ai_message list \<Rightarrow> 's \<Rightarrow> (app_error + ai_message) \<times> 's" where
  "mock_stream_chat on_event budget profile ms s =
     (let assistant = mock_complete_chat profile ms
      in case mock_stream on_event budget (split_mock_tokens [] (text_content assistant)) s of
           (Inl e, s') \<Rightarrow> (Inl e, s')
         | (Inr _, s') \<Rightarrow> (Inr assistant, s'))"

definition stream_chat ::
  "ai_config \<Rightarrow> ai_world \<Rightarrow> 's callback \<Rightarrow> ustr \<Rightarrow> ai_message list \<Rightarrow> 's \<Rightarrow> (app_error + ai_message) \<times> 's" where
  "stream_chat cfg w on_event profile ms s =
     (case ensure_provider_supports_messages (ac_provider cfg) ms of
        Inl e \<Rightarrow> (Inl e, s)
      | Inr _ \<Rightarrow>
          if aw_timed_out w then (Inl (Ai ''provider stream timed out''), s)
          else if ac_provider cfg = ''mock'' then mock_stream_chat on_event (aw_mock_tokens w) profile ms s
          else (case remote_provider cfg profile of
                  Inl e \<Rightarrow> (Inl e, s)
                | Inr p \<Rightarrow>
                    stream_chat_completions (aw_parse_chunk w) on_event (aw_open w) (aw_base64 w) (aw_prompt w)
                      (ac_output_max_tokens cfg) p ms s))"

section \<open>What a callback sees\<close>

text \<open>
  A callback that keeps a log: \<open>logged x s\<close> says that the state \<open>s\<close> holds the log \<open>x\<close>, and a call that does not
  fail appends its token. When a stream answers with a message, the log has grown by exactly its text.
\<close>

definition logs_tokens :: "(ustr \<Rightarrow> 's \<Rightarrow> bool) \<Rightarrow> 's callback \<Rightarrow> bool" where
  "logs_tokens logged on_event \<longleftrightarrow> (\<forall>t s u s' x. on_event t s = (Inr u, s') \<longrightarrow> logged x s \<longrightarrow> logged (x @ t) s')"

lemma logs_tokensD: "logs_tokens logged on_event \<Longrightarrow> on_event t s = (Inr u, s') \<Longrightarrow> logged x s \<Longrightarrow> logged (x @ t) s'"
  by (auto simp: logs_tokens_def)

lemma push_delta_content:
  "push_delta d g = (token, g') \<Longrightarrow> rg_content g' = rg_content g @ concat (case_option [] (\<lambda>t. [t]) token)"
  by (auto simp: push_delta_def Let_def split: if_splits option.splits)

lemma finish_guard_content:
  "finish_guard g = (token, g') \<Longrightarrow> rg_content g' = rg_content g @ concat (case_option [] (\<lambda>t. [t]) token)"
  by (auto simp: finish_guard_def Let_def split: if_splits)

definition sent_matches :: "(ustr \<Rightarrow> 's \<Rightarrow> bool) \<Rightarrow> ustr \<Rightarrow> response_guard \<times> 's \<Rightarrow> bool" where
  "sent_matches logged before = (\<lambda>(g, s). logged (before @ rg_content g) s)"

lemma push_choices_log:
  "logs_tokens logged on_event \<Longrightarrow> sent_matches logged before st \<Longrightarrow> push_choices on_event choices st = (Inr b, st')
    \<Longrightarrow> sent_matches logged before st'"
proof (induction on_event choices st rule: push_choices.induct)
  case (2 on_event choice choices g s)
  show ?case
  proof (cases choice)
    case None
    with 2 show ?thesis by simp
  next
    case (Some delta)
    obtain token g' where p: "push_delta delta g = (token, g')" by fastforce
    note c = push_delta_content [OF p]
    consider "delta = []" | "delta \<noteq> []" "token = None" | t where "delta \<noteq> []" "token = Some t" by blast
    then show ?thesis
    proof cases
      case 1
      with 2 Some show ?thesis by simp
    next
      case 2
      with "2.IH"(3) [OF Some 2(1) p [symmetric] 2(2)] "2.prems" Some p c show ?thesis by (simp add: sent_matches_def)
    next
      case (3 t)
      then obtain u s' where e: "on_event t s = (Inr u, s')"
        using "2.prems"(3) Some p by (cases "on_event t s") (auto split: sum.splits)
      with "2.IH"(4) [OF Some 3(1) p [symmetric] 3(2) e [symmetric] refl] "2.prems" Some p c 3
        logs_tokensD [OF "2.prems"(1) e, of "before @ rg_content g"]
      show ?thesis by (simp add: sent_matches_def)
    qed
  qed
qed simp

lemma process_lines_log:
  "logs_tokens logged on_event \<Longrightarrow> sent_matches logged before st \<Longrightarrow> process_lines parse on_event ls st = (Inr b, st')
    \<Longrightarrow> sent_matches logged before st'"
proof (induction parse on_event ls st rule: process_lines.induct)
  case (2 parse on_event l ls st)
  obtain r st1 where p: "process_line parse on_event l st = (r, st1)" by (metis surj_pair)
  with "2.prems"(3) obtain b' where r: "r = Inr b'" by (cases r) auto
  have "sent_matches logged before st1"
    using p r "2.prems"(1,2)
    by (auto simp: process_line_def Let_def split: if_splits sum.splits intro: push_choices_log)
  with 2 p r show ?case by (cases b') simp_all
qed simp

lemma finish_stream_log:
  "logs_tokens logged on_event \<Longrightarrow> sent_matches logged before st \<Longrightarrow> finish_stream on_event st = (Inr m, s')
    \<Longrightarrow> logged (before @ text_content m) s'"
  by (cases st) (auto simp: finish_stream_def final_stream_message_def sent_matches_def
      dest!: finish_guard_content logs_tokensD split: prod.splits option.splits sum.splits if_splits)

lemma drain_frames_log:
  "logs_tokens logged on_event \<Longrightarrow> sent_matches logged before st \<Longrightarrow> drain_frames parse on_event buffer st = (Inr b, buffer', st')
    \<Longrightarrow> sent_matches logged before st'"
proof (induction parse on_event buffer st rule: drain_frames.induct)
  case (1 parse on_event buffer st)
  show ?case
  proof (cases "find_frame buffer")
    case None
    with "1.prems" show ?thesis by (simp add: drain_frames.simps [of _ _ buffer])
  next
    case (Some fr)
    obtain frame rest where fr: "fr = (frame, rest)" by fastforce
    obtain r st1 where p: "process_stream_frame parse on_event frame st = (r, st1)" by (metis surj_pair)
    with "1.prems"(3) Some fr obtain b' where r: "r = Inr b'"
      by (cases r) (auto simp: drain_frames.simps [of _ _ buffer])
    have m: "sent_matches logged before st1"
      using p r "1.prems"(1,2) by (auto simp: process_stream_frame_def intro: process_lines_log)
    show ?thesis
    proof (cases b')
      case True
      with "1.prems"(3) Some fr p r m show ?thesis by (simp add: drain_frames.simps [of _ _ buffer])
    next
      case False
      with "1.prems"(3) Some fr p r have "drain_frames parse on_event rest st1 = (Inr b, buffer', st')"
        by (simp add: drain_frames.simps [of _ _ buffer])
      moreover have "r = Inr False" using r False by simp
      ultimately show ?thesis using "1.IH" [OF Some fr [symmetric] p [symmetric] _ refl "1.prems"(1) m] by blast
    qed
  qed
qed

lemma stop_stream_log:
  "logs_tokens logged on_event \<Longrightarrow> (\<And>b. r = Inr b \<Longrightarrow> sent_matches logged before st) \<Longrightarrow> stop_stream on_event (r, st) = (Inr m, s')
    \<Longrightarrow> logged (before @ text_content m) s'"
  by (cases st; cases r) (auto simp: stop_stream_def intro: finish_stream_log)

lemma stream_loop_log:
  "logs_tokens logged on_event \<Longrightarrow> sent_matches logged before st \<Longrightarrow> stream_loop parse on_event cs buffer st = (Inr m, s')
    \<Longrightarrow> logged (before @ text_content m) s'"
proof (induction parse on_event cs buffer st rule: stream_loop.induct)
  case (1 parse on_event buffer st)
  obtain r st1 where p: "process_stream_frame parse on_event buffer st = (r, st1)" by (metis surj_pair)
  have "sent_matches logged before st1" if "r = Inr b" for b
    using p that 1(1,2) by (auto simp: process_stream_frame_def intro: process_lines_log)
  with 1 p show ?case by (auto split: if_splits intro: finish_stream_log stop_stream_log)
next
  case (5 parse on_event c cs buffer st)
  let ?b = "normalize_newlines (buffer @ c)"
  obtain r b' st' where d: "drain_frames parse on_event ?b st = (r, b', st')" by (metis prod_cases3)
  have m: "sent_matches logged before st'" if "r = Inr b" for b
    using d that "5.prems"(1,2) by (auto intro: drain_frames_log)
  show ?case
  proof (cases "r = Inr False")
    case True
    with "5.IH" [OF d [symmetric] True refl refl "5.prems"(1) m [OF True]] "5.prems"(3) d show ?thesis by simp
  next
    case False
    with "5.prems"(3) d have "stop_stream on_event (r, st') = (Inr m, s')" by (cases r) (auto split: bool.splits)
    from stop_stream_log [OF "5.prems"(1) m this] show ?thesis .
  qed
qed simp_all

lemma mock_stream_log:
  "logs_tokens logged on_event \<Longrightarrow> mock_stream on_event budget ts s = (Inr u, s') \<Longrightarrow> logged x s
    \<Longrightarrow> logged (x @ concat ts) s'"
  by (induction on_event budget ts s arbitrary: x rule: mock_stream.induct)
    (fastforce dest: logs_tokensD split: prod.splits sum.splits)+

text \<open>
  When a streamed reply is complete, the tokens that went to the client, put together, are the text of the
  message that will be stored, for every provider and whatever the network does.
\<close>

lemma stream_chat_log:
  assumes "logs_tokens logged on_event" and "logged x s" and "stream_chat cfg w on_event profile ms s = (Inr m, s')"
  shows "logged (x @ text_content m) s'"
proof (cases "ac_provider cfg = ''mock''")
  case True
  with assms(3) have run: "mock_stream_chat on_event (aw_mock_tokens w) profile ms s = (Inr m, s')"
    by (auto simp: stream_chat_def split: sum.splits if_splits)
  then obtain u where "mock_stream on_event (aw_mock_tokens w) (split_mock_tokens [] (text_content m)) s = (Inr u, s')"
    by (auto simp: mock_stream_chat_def Let_def split: prod.splits sum.splits)
  from mock_stream_log [OF assms(1) this assms(2)] show ?thesis by (simp add: concat_split_mock_tokens)
next
  case False
  with assms(3) obtain p :: chat_completions_provider and chunks where "stream_loop (aw_parse_chunk w) on_event chunks [] (new_guard (cp_profile p), s) = (Inr m, s')"
    by (simp add: stream_chat_def stream_chat_completions_def split: sum.splits if_splits)
  from stream_loop_log [OF assms(1) _ this] show ?thesis using assms(2) by (simp add: sent_matches_def new_guard_def)
qed

text \<open>What every call of the callback keeps, a stream keeps, also when it fails.\<close>

definition keeps :: "('s \<Rightarrow> bool) \<Rightarrow> 's callback \<Rightarrow> bool" where
  "keeps P on_event \<longleftrightarrow> (\<forall>t s. P s \<longrightarrow> P (snd (on_event t s)))"

lemma keepsD: "keeps P on_event \<Longrightarrow> P s \<Longrightarrow> on_event t s = (r, s') \<Longrightarrow> P s'"
  unfolding keeps_def by (metis snd_conv)

lemma push_choices_keeps:
  "keeps P on_event \<Longrightarrow> P (snd st) \<Longrightarrow> P (snd (snd (push_choices on_event choices st)))"
  by (induction on_event choices st rule: push_choices.induct)
    (auto dest: keepsD split: option.splits prod.splits sum.splits)

lemma process_lines_keeps:
  "keeps P on_event \<Longrightarrow> P (snd st) \<Longrightarrow> P (snd (snd (process_lines parse on_event ls st)))"
proof (induction ls arbitrary: st)
  case (Cons l ls)
  have "P (snd (snd (process_line parse on_event l st)))"
    using Cons.prems(2) push_choices_keeps [OF Cons.prems] by (simp add: process_line_def Let_def split: sum.splits)
  with Cons show ?case by (auto split: prod.splits sum.splits bool.splits)
qed simp

lemma drain_frames_keeps:
  "keeps P on_event \<Longrightarrow> P (snd st) \<Longrightarrow> P (snd (snd (snd (drain_frames parse on_event buffer st))))"
proof (induction parse on_event buffer st rule: drain_frames.induct)
  case (1 parse on_event buffer st)
  show ?case
  proof (cases "find_frame buffer")
    case None
    with "1.prems" show ?thesis by (simp add: drain_frames.simps [of _ _ buffer])
  next
    case (Some fr)
    obtain frame rest where fr: "fr = (frame, rest)" by fastforce
    obtain r st1 where p: "process_stream_frame parse on_event frame st = (r, st1)" by (metis surj_pair)
    then have keep: "P (snd st1)"
      using process_lines_keeps [OF "1.prems", of parse "str_lines frame"] by (simp add: process_stream_frame_def)
    show ?thesis
    proof (cases "r = Inr False")
      case True
      from "1.IH" [OF Some fr [symmetric] p [symmetric] True refl "1.prems"(1) keep] Some fr p True
      show ?thesis by (simp add: drain_frames.simps [of _ _ buffer])
    next
      case False
      with Some fr p keep show ?thesis by (cases r) (auto simp: drain_frames.simps [of _ _ buffer] split: bool.splits)
    qed
  qed
qed

lemma finish_stream_keeps: "keeps P on_event \<Longrightarrow> P (snd st) \<Longrightarrow> P (snd (finish_stream on_event st))"
  by (cases st) (auto simp: finish_stream_def dest: keepsD split: prod.splits option.splits sum.splits)

lemma stop_stream_keeps: "keeps P on_event \<Longrightarrow> P (snd (snd rst)) \<Longrightarrow> P (snd (stop_stream on_event rst))"
  by (auto simp: stop_stream_def intro: finish_stream_keeps split: prod.splits sum.splits)

lemma stream_loop_keeps: "keeps P on_event \<Longrightarrow> P (snd st) \<Longrightarrow> P (snd (stream_loop parse on_event cs buffer st))"
proof (induction parse on_event cs buffer st rule: stream_loop.induct)
  case (1 parse on_event buffer st)
  then show ?case
    using process_lines_keeps [OF 1, of parse "str_lines buffer"] finish_stream_keeps [OF 1]
    by (auto simp: process_stream_frame_def intro: stop_stream_keeps)
next
  case (5 parse on_event c cs buffer st)
  obtain r b' st' where d: "drain_frames parse on_event (normalize_newlines (buffer @ c)) st = (r, b', st')"
    by (metis prod_cases3)
  then have keep: "P (snd st')" using drain_frames_keeps [OF "5.prems", of parse "normalize_newlines (buffer @ c)"] by simp
  show ?case
  proof (cases "r = Inr False")
    case True
    from "5.IH" [OF d [symmetric] True refl refl "5.prems"(1) keep] d True show ?thesis by simp
  next
    case False
    with d stop_stream_keeps [OF "5.prems"(1), of "(r, st')"] keep show ?thesis by (cases r) (auto split: bool.splits)
  qed
qed simp_all

lemma stream_chat_keeps: "keeps P on_event \<Longrightarrow> P s \<Longrightarrow> P (snd (stream_chat cfg w on_event profile ms s))"
proof -
  assume k: "keeps P on_event" "P s"
  have "P (snd (mock_stream on_event budget ts s))" for budget ts
    using k by (induction on_event budget ts s rule: mock_stream.induct) (auto dest: keepsD split: prod.splits sum.splits)
  then have "P (snd (mock_stream_chat on_event budget profile ms s))" for budget
    by (auto simp: mock_stream_chat_def Let_def split: prod.split sum.split) (metis snd_conv)+
  moreover have "P (snd (stream_chat_completions parse on_event open' b p n prov ms s))" for parse open' b p n prov
    using stream_loop_keeps [OF k(1), of "(g, s)" for g] k(2) by (auto simp: stream_chat_completions_def split: sum.split)
  ultimately show ?thesis using k(2) by (auto simp: stream_chat_def split: sum.split)
qed

end
