(* ===== verification/Chat_Context.thy ===== *)
theory Chat_Context
  imports Ai_Service Memory_Select Attachment_Cleanup Rate_Limit
begin

text \<open>
  What a message request is checked for and turned into, \<open>chat/messages.rs\<close>: the payload, the limits, the
  attachments, the learned memories and the bounded history, up to the messages for the provider. The reads of one
  request see one state of the store. A text inside an error keeps its 8-bit characters.
\<close>

section \<open>The request\<close>

record send_message_request =
  rq_content :: ustr
  rq_attachments :: "(uuid \<times> ustr) list"
  rq_timezone :: "ustr option"

datatype json_rejection = BodyTooLarge | BadJson string

definition send_message_payload :: "json_rejection + send_message_request \<Rightarrow> app_error + send_message_request" where
  "send_message_payload payload =
     (case payload of
        Inr r \<Rightarrow> Inr r
      | Inl BodyTooLarge \<Rightarrow> Inl (Reasoned 413 ''payload too large'' RequestSizeLimit None)
      | Inl (BadJson e) \<Rightarrow> Inl (BadRequest e))"

record chat_config =
  cc_production :: bool
  cc_message_max_chars :: nat
  cc_image_upload_enabled :: bool
  cc_context_max_messages :: nat
  cc_context_max_chars :: nat
  cc_output_max_chars :: nat
  cc_registered_daily_quota :: nat
  cc_guest_daily_quota :: nat
  cc_global_daily_limit :: nat
  cc_total_timeout_seconds :: nat
  cc_max_images :: nat
  cc_max_total_bytes :: nat
  cc_limits :: chat_storage_limits
  cc_policies :: rate_limit_policies
  cc_ai :: ai_config

record chat_outside =
  co_unicode :: unicode
  co_fold_case :: "ustr \<Rightarrow> ustr"
  co_json_line :: "ustr \<Rightarrow> string \<Rightarrow> ustr \<Rightarrow> ustr"
  co_valid_zone :: "ustr \<Rightarrow> bool"
  co_read_fault :: "ustr \<Rightarrow> io_error option"
  co_db_now :: micros
  co_now :: nat

record chat_completion_context =
  cx_chat :: chat_record
  cx_attachment_ids :: "uuid list"
  cx_ai_messages :: "ai_message list"
  cx_user_message :: ai_message
  cx_timezone :: ustr

section \<open>Limits\<close>

definition to_ai_message :: "stored_message \<Rightarrow> ai_message" where
  "to_ai_message m = text_message (sm_role m) (sm_content m)"

definition from_ai_message :: "uuid \<Rightarrow> nat \<Rightarrow> ai_message \<Rightarrow> stored_message" where
  "from_ai_message i now m =
     \<lparr>sm_id = i, sm_role = am_role m, sm_content = text_content m, sm_attachments = [], sm_created = now\<rparr>"

text \<open>The loop of \<open>bounded_chat_history\<close>, from the newest message back.\<close>

fun select_history :: "nat \<Rightarrow> stored_message list \<Rightarrow> ai_message list" where
  "select_history remaining [] = []"
| "select_history remaining (m # ms) =
     (if remaining < length (sm_content m) then []
      else to_ai_message m # select_history (remaining - length (sm_content m)) ms)"

definition bounded_chat_history :: "stored_message list \<Rightarrow> nat \<Rightarrow> nat \<Rightarrow> ai_message list" where
  "bounded_chat_history ms max_messages max_chars = rev (select_history max_chars (take max_messages (rev ms)))"

definition normalize_user_timezone :: "(ustr \<Rightarrow> bool) \<Rightarrow> ustr option \<Rightarrow> ustr" where
  "normalize_user_timezone valid z =
     (case map_option (trim_by is_whitespace) z of
        None \<Rightarrow> ascii ''UTC''
      | Some v \<Rightarrow> if valid v then v else ascii ''UTC'')"

definition chat_storage_limit_error :: app_error where
  "chat_storage_limit_error = Reasoned 409 ''conflict: chat message limit reached'' ChatStorageLimit None"

definition ensure_chat_has_turn_capacity :: "chat_record \<Rightarrow> ustr \<Rightarrow> chat_storage_limits \<Rightarrow> app_error + unit" where
  "ensure_chat_has_turn_capacity chat content limits =
     (let chars = sum_list (map (length \<circ> sm_content) (cr_messages chat))
      in if exceeds (max_messages_per_chat limits) (length (cr_messages chat)) 2
           \<or> usize_limit \<le> chars \<or> exceeds (max_stored_chars_per_chat limits) chars (length content)
         then Inl chat_storage_limit_error else Inr ())"

section \<open>Attachments\<close>

definition add_attachment_byte_size :: "nat \<Rightarrow> int \<Rightarrow> nat \<Rightarrow> app_error + nat" where
  "add_attachment_byte_size sofar n maximum =
     (if n < 0 then Inl (BadRequest ''image attachment metadata is invalid'')
      else (let next = sofar + nat n
            in if usize_limit \<le> next then Inl (BadRequest ''image attachments exceed total byte limit'')
               else if maximum < next
               then Inl (Reasoned 400 ''bad request: image attachments exceed total byte limit'' ImageSizeLimit None)
               else Inr next))"

fun validate_requests ::
  "owner_scope \<Rightarrow> nat \<Rightarrow> chat_db \<Rightarrow> (uuid \<times> ustr) list \<Rightarrow> uuid list \<Rightarrow> nat \<Rightarrow> attachment_record list
    \<Rightarrow> app_error + attachment_record list" where
  "validate_requests owner maximum db [] ids sofar records = Inr records"
| "validate_requests owner maximum db ((i, kind) # rs) ids sofar records =
     (if kind \<noteq> chat_attachment_kind_image then Inl (BadRequest ''only image attachments are supported'')
      else if i \<in> set ids then Inl (BadRequest ''duplicate image attachment id'')
      else (case get_chat_attachment owner i db of
              None \<Rightarrow> Inl NotFound
            | Some a \<Rightarrow>
                if ar_kind a \<noteq> chat_attachment_kind_image \<or> ar_chat a \<noteq> None \<or> ar_message a \<noteq> None
                then Inl (BadRequest ''image attachment is not pending'')
                else if \<not> is_supported_chat_image_mime_type (ar_mime a)
                then Inl (BadRequest ''image attachment type is not supported'')
                else (case add_attachment_byte_size sofar (ar_size a) maximum of
                        Inl e \<Rightarrow> Inl e
                      | Inr sofar' \<Rightarrow> validate_requests owner maximum db rs (ids @ [i]) sofar' (records @ [a]))))"

definition validate_message_attachment_requests ::
  "owner_scope \<Rightarrow> nat \<Rightarrow> nat \<Rightarrow> chat_db \<Rightarrow> (uuid \<times> ustr) list \<Rightarrow> app_error + attachment_record list" where
  "validate_message_attachment_requests owner max_images maximum db rs =
     (if max_images < length rs
      then Inl (Reasoned 400 ''bad request: too many image attachments for one message'' ImageCountLimit None)
      else validate_requests owner maximum db rs [] 0 [])"

fun image_parts :: "(ustr \<Rightarrow> io_error option) \<Rightarrow> disk \<Rightarrow> attachment_record list \<Rightarrow> app_error + ai_part list" where
  "image_parts fault files [] = Inr []"
| "image_parts fault files (a # as') =
     (case read_attachment_bytes (fault (ar_key a)) (ar_key a) files of
        Inl e \<Rightarrow> Inl e
      | Inr bs \<Rightarrow>
          map_sum id (\<lambda>parts. ImagePart \<lparr>im_mime = ar_mime a, im_bytes = bs, im_size = ar_size a, im_width = ar_width a,
              im_height = ar_height a, im_sha = ar_sha a\<rparr> # parts) (image_parts fault files as'))"

definition build_ai_user_message ::
  "(ustr \<Rightarrow> io_error option) \<Rightarrow> disk \<Rightarrow> ustr \<Rightarrow> attachment_record list \<Rightarrow> app_error + ai_message" where
  "build_ai_user_message fault files content as' =
     map_sum id (\<lambda>parts. \<lparr>am_role = UserRole, am_parts = text_parts content @ parts\<rparr>) (image_parts fault files as')"

section \<open>The context\<close>

definition memory_messages :: "chat_outside \<Rightarrow> owner_scope \<Rightarrow> ustr \<Rightarrow> ustr \<Rightarrow> chat_db \<Rightarrow> ai_message list" where
  "memory_messages o' owner character content db =
     (if content = [] then []
      else (case retrieve_memory_context (co_unicode o') (co_fold_case o') (co_json_line o') (co_db_now o') (co_now o')
                   owner character content db of
              None \<Rightarrow> []
            | Some c \<Rightarrow> [text_message SystemRole (rc_text c)]))"

definition prepare_chat_completion_context ::
  "chat_config \<Rightarrow> chat_outside \<Rightarrow> owner_scope \<Rightarrow> uuid \<Rightarrow> send_message_request \<Rightarrow> chat_db \<Rightarrow> disk
    \<Rightarrow> app_error + chat_completion_context" where
  "prepare_chat_completion_context cfg o' owner i payload db files =
     (let content = trim_by is_whitespace (rq_content payload);
          zone = normalize_user_timezone (co_valid_zone o') (rq_timezone payload)
      in if content = [] \<and> rq_attachments payload = [] then Inl (BadRequest ''message content is empty'')
         else if cc_message_max_chars cfg < length content
         then Inl (Reasoned 400 ''bad request: message content is too long'' MessageSizeLimit None)
         else if rq_attachments payload \<noteq> [] \<and> \<not> cc_image_upload_enabled cfg then Inl NotFound
         else (case get_chat owner i db of
                 None \<Rightarrow> Inl NotFound
               | Some chat \<Rightarrow>
                   (case ensure_chat_has_turn_capacity chat content (cc_limits cfg) of
                      Inl e \<Rightarrow> Inl e
                    | Inr _ \<Rightarrow>
                        (case validate_message_attachment_requests owner (cc_max_images cfg) (cc_max_total_bytes cfg) db
                                (rq_attachments payload) of
                           Inl e \<Rightarrow> Inl e
                         | Inr as' \<Rightarrow>
                             (case build_ai_user_message (co_read_fault o') files content as' of
                                Inl e \<Rightarrow> Inl e
                              | Inr user \<Rightarrow>
                                  (let ms = memory_messages o' owner (cr_character chat) content db
                                        @ bounded_chat_history (cr_messages chat) (cc_context_max_messages cfg)
                                            (cc_context_max_chars cfg) @ [user]
                                   in case ensure_provider_supports_messages (ac_provider (cc_ai cfg)) ms of
                                        Inl e \<Rightarrow> Inl e
                                      | Inr _ \<Rightarrow>
                                          Inr \<lparr>cx_chat = chat, cx_attachment_ids = map ar_id as', cx_ai_messages = ms,
                                               cx_user_message = text_message UserRole content, cx_timezone = zone\<rparr>))))))"

section \<open>What a context holds\<close>

lemma select_history_bound: "sum_list (map (length \<circ> text_content) (select_history n ms)) \<le> n"
  by (induction n ms rule: select_history.induct) (auto simp: to_ai_message_def)

lemma select_history_prefix: "prefix (select_history n ms) (map to_ai_message ms)"
  by (induction n ms rule: select_history.induct) auto

lemma bounded_history:
  "length (bounded_chat_history ms k n) \<le> k" "sum_list (map (length \<circ> text_content) (bounded_chat_history ms k n)) \<le> n"
  "suffix (bounded_chat_history ms k n) (map to_ai_message ms)"
proof -
  let ?s = "select_history n (take k (rev ms))"
  have p: "prefix ?s (take k (rev (map to_ai_message ms)))"
    using select_history_prefix [of n "take k (rev ms)"] by (simp add: take_map rev_map)
  from prefix_length_le [OF p] show "length (bounded_chat_history ms k n) \<le> k" by (simp add: bounded_chat_history_def)
  have "sum_list (map (length \<circ> text_content) (rev ?s)) = sum_list (map (length \<circ> text_content) ?s)"
    by (simp only: rev_map [symmetric] sum_list_rev)
  then show "sum_list (map (length \<circ> text_content) (bounded_chat_history ms k n)) \<le> n"
    using select_history_bound [of n "take k (rev ms)"] by (simp add: bounded_chat_history_def)
  have "prefix ?s (rev (map to_ai_message ms))" using p take_is_prefix prefix_order.trans by blast
  then show "suffix (bounded_chat_history ms k n) (map to_ai_message ms)"
    by (simp add: bounded_chat_history_def suffix_to_prefix)
qed

lemma validated_requests:
  "validate_requests owner maximum db rs ids sofar records = Inr result \<Longrightarrow> sofar \<le> maximum
    \<Longrightarrow> sofar = nat (sum_list (map ar_size records)) \<Longrightarrow> \<forall>a\<in>set records. 0 \<le> ar_size a \<Longrightarrow> distinct ids
    \<Longrightarrow> map ar_id records = ids
    \<Longrightarrow> map ar_id result = ids @ map fst rs \<and> distinct (map ar_id result)
      \<and> nat (sum_list (map ar_size result)) \<le> maximum"
proof (induction owner maximum db rs ids sofar records rule: validate_requests.induct)
  case (2 owner maximum db i kind rs ids sofar records)
  from "2.prems"(1) obtain a sofar' where k: "kind = chat_attachment_kind_image" "i \<notin> set ids"
    and a: "get_chat_attachment owner i db = Some a"
    and t: "\<not> (ar_kind a \<noteq> chat_attachment_kind_image \<or> ar_chat a \<noteq> None \<or> ar_message a \<noteq> None)"
      "is_supported_chat_image_mime_type (ar_mime a)" "add_attachment_byte_size sofar (ar_size a) maximum = Inr sofar'"
    and r: "validate_requests owner maximum db rs (ids @ [i]) sofar' (records @ [a]) = Inr result"
    by (auto split: if_splits option.splits sum.splits)
  have i: "ar_id a = i"
    using a by (auto simp: get_chat_attachment_def chat_attachment_from_row_def dest!: find_Some_in)
  have size: "0 \<le> ar_size a" "sofar' = sofar + nat (ar_size a)" "sofar' \<le> maximum"
    using t(3) by (auto simp: add_attachment_byte_size_def Let_def split: if_splits)
  have "0 \<le> sum_list (map ar_size records)" using "2.prems"(4) by (intro sum_list_nonneg) auto
  with size "2.prems"(3) have sum: "sofar' = nat (sum_list (map ar_size (records @ [a])))" by (simp add: nat_add_distrib)
  have "map ar_id result = (ids @ [i]) @ map fst rs \<and> distinct (map ar_id result)
      \<and> nat (sum_list (map ar_size result)) \<le> maximum"
  proof (rule "2.IH" [OF _ k(2) a t(1) _ t(3) r size(3) sum])
    show "\<forall>a\<in>set (records @ [a]). 0 \<le> ar_size a" "distinct (ids @ [i])" "map ar_id (records @ [a]) = ids @ [i]"
      using "2.prems"(4-6) size(1) k(2) i by auto
  qed (use k(1) t(2) in simp_all)
  then show ?case unfolding list.map fst_conv append.assoc append.simps .
qed simp

end
