(* ===== verification/Chat_Turn.thy ===== *)
theory Chat_Turn
  imports Chat_Context Generation_Limit
begin

text \<open>
  The handlers of a chat, \<open>chat/messages.rs\<close> and \<open>chat/mod.rs\<close>. The server is what requests share: the tables,
  the quota, the files, the generation limiter and the rate limiter. Between the queries of one turn other
  requests run: \<open>tw_others k\<close> is what they do before the \<open>k\<close>-th of them. A handler whose connection is closed
  while it waits, so that its future is dropped, is left out. The authorization log is left out.
\<close>

record 'sem server =
  sv_chats :: chat_db
  sv_quota :: quota_db
  sv_files :: disk
  sv_limiter :: "'sem generation_limiter"
  sv_rates :: rate_buckets

record 'sem turn_world =
  tw_outside :: chat_outside
  tw_ai :: ai_world
  tw_sem_try :: "'sem \<Rightarrow> 'sem option"
  tw_sem_release :: "'sem \<Rightarrow> 'sem"
  tw_session :: "uuid \<Rightarrow> session_record option"
  tw_ip :: string
  tw_instant :: instant
  tw_reserved_at :: timestamp
  tw_started_at :: timestamp
  tw_appended_at :: timestamp
  tw_released_at :: timestamp
  tw_reservation :: uuid
  tw_user_id :: uuid
  tw_assistant_id :: uuid
  tw_job :: uuid
  tw_created :: nat
  tw_client_takes :: "nat option"
  tw_others :: "nat \<Rightarrow> 'sem server \<Rightarrow> 'sem server"

section \<open>Before the turn\<close>

definition require_core_chat_session ::
  "uuid option \<Rightarrow> (uuid \<Rightarrow> session_record option) \<Rightarrow> app_error + session_record" where
  "require_core_chat_session cookie get_session =
     (case cookie of
        None \<Rightarrow> Inl Forbidden
      | Some i \<Rightarrow> (case get_session i of None \<Rightarrow> Inl Forbidden | Some s \<Rightarrow> Inr s))"

definition enforce_sensitive_rate_limit ::
  "rate_limit_policies \<Rightarrow> rate_limit_family \<Rightarrow> uuid \<Rightarrow> string \<Rightarrow> instant \<Rightarrow> rate_buckets
    \<Rightarrow> (app_error + unit) \<times> rate_buckets" where
  "enforce_sensitive_rate_limit policies family session ip now buckets =
     (case check_many policies family (for_validated_session session ip (family = ChatMessages)) now buckets of
        (Inr u, buckets') \<Rightarrow> (Inr u, buckets')
      | (Inl e, buckets') \<Rightarrow>
          (case (e, family) of
             (RateLimited, ChatMessages) \<Rightarrow>
               (Inl (Reasoned 429 ''too many requests'' ChatRequestRate (Some limit_retry_after_seconds)), buckets')
           | (RateLimited, ImageUpload) \<Rightarrow>
               (Inl (Reasoned 429 ''too many requests'' ImageUploadRate (Some limit_retry_after_seconds)), buckets')
           | _ \<Rightarrow> (Inl e, buckets')))"

section \<open>The quota of a turn\<close>

definition stale_after_seconds :: "chat_config \<Rightarrow> nat" where
  "stale_after_seconds cfg = sat_add 64 (cc_total_timeout_seconds cfg) limit_retry_after_seconds"

definition reserve_daily_generation_quota ::
  "chat_config \<Rightarrow> 'sem turn_world \<Rightarrow> uuid \<Rightarrow> uuid \<Rightarrow> quota_db \<Rightarrow> (app_error + uuid option) \<times> quota_db" where
  "reserve_daily_generation_quota cfg w session i q =
     (if \<not> cc_production cfg then (Inr None, q)
      else (case reserve_chat_generation_quota (tw_reserved_at w) (tw_reservation w) session i
                   (cc_registered_daily_quota cfg) (cc_guest_daily_quota cfg) (cc_global_daily_limit cfg)
                   (stale_after_seconds cfg) q of
              Inl e \<Rightarrow> (Inl (from_store_error e), q)
            | Inr (Admitted r, q') \<Rightarrow> (Inr (Some r), q')
            | Inr (SessionUnavailable, q') \<Rightarrow> (Inl Forbidden, q')
            | Inr (OwnerLimitReached n, q') \<Rightarrow> (Inl (Reasoned 429 ''too many requests'' DailyQuotaLimit (Some n)), q')
            | Inr (GlobalLimitReached n, q') \<Rightarrow>
                (Inl (Reasoned 429 ''too many requests'' GlobalDailyGenerationLimit (Some n)), q')))"

definition mark_daily_generation_provider_started ::
  "timestamp \<Rightarrow> uuid option \<Rightarrow> quota_db \<Rightarrow> (app_error + unit) \<times> quota_db" where
  "mark_daily_generation_provider_started now reservation q =
     (case reservation of
        None \<Rightarrow> (Inr (), q)
      | Some r \<Rightarrow>
          (case mark_provider_started now r q of
             Inl e \<Rightarrow> (Inl (from_store_error e), q)
           | Inr (True, q') \<Rightarrow> (Inr (), q')
           | Inr (False, q') \<Rightarrow> (Inl Database, q')))"

definition release_daily_generation_quota :: "timestamp \<Rightarrow> uuid option \<Rightarrow> quota_db \<Rightarrow> quota_db" where
  "release_daily_generation_quota now reservation q =
     (case reservation of
        None \<Rightarrow> q
      | Some r \<Rightarrow> (case release_chat_generation_quota now r q of Inl e \<Rightarrow> q | Inr q' \<Rightarrow> q'))"

section \<open>The turn\<close>

definition output_limit_error :: app_error where
  "output_limit_error = Reasoned 502 ''assistant response failed'' AssistantOutputSizeLimit None"

definition ensure_output_within_limit :: "ai_message \<Rightarrow> nat \<Rightarrow> app_error + unit" where
  "ensure_output_within_limit m max_chars =
     (if max_chars < length (text_content m) then Inl output_limit_error else Inr ())"

type_synonym completed_message = "stored_message \<times> stored_message"

definition completed_messages :: "append_outcome \<Rightarrow> app_error + completed_message" where
  "completed_messages outcome =
     (case outcome of
        Appended u a \<Rightarrow> Inr (u, a)
      | AppendUnavailable \<Rightarrow> Inl NotFound
      | AppendLimitReached \<Rightarrow> Inl chat_storage_limit_error)"

text \<open>What both ways of completing share: the check of the reply and the append, with its commit of the quota.\<close>

definition append_reply ::
  "chat_config \<Rightarrow> 'sem turn_world \<Rightarrow> owner_scope \<Rightarrow> uuid \<Rightarrow> chat_completion_context \<Rightarrow> uuid option \<Rightarrow> ai_message
    \<Rightarrow> 'sem server \<Rightarrow> (app_error + completed_message) \<times> 'sem server" where
  "append_reply cfg w owner i cx reservation m sv =
     (case ensure_output_within_limit m (cc_output_max_chars cfg) of
        Inl e \<Rightarrow> (Inl e, sv)
      | Inr _ \<Rightarrow>
          (case append_chat_messages_limited_with_quota (tw_appended_at w) (tw_job w) owner i
                  (from_ai_message (tw_user_id w) (tw_created w) (cx_user_message cx))
                  (from_ai_message (tw_assistant_id w) (tw_created w) m)
                  (cx_attachment_ids cx) (cx_timezone cx) (cc_limits cfg) reservation (sv_chats sv) (sv_quota sv) of
             (Inl e, db, q) \<Rightarrow> (Inl (from_store_error e), sv\<lparr>sv_chats := db, sv_quota := q\<rparr>)
           | (Inr outcome, db, q) \<Rightarrow> (completed_messages outcome, sv\<lparr>sv_chats := db, sv_quota := q\<rparr>)))"

text \<open>\<open>if result.is_err() { release }\<close>.\<close>

definition settle ::
  "'sem turn_world \<Rightarrow> uuid option \<Rightarrow> (app_error + completed_message) \<times> 'sem server \<Rightarrow> (app_error + completed_message) \<times> 'sem server" where
  "settle w reservation = (\<lambda>(result, sv).
     (case result of
        Inr t \<Rightarrow> (Inr t, sv)
      | Inl e \<Rightarrow>
          (let sv' = tw_others w 3 sv
           in (Inl e, sv'\<lparr>sv_quota := release_daily_generation_quota (tw_released_at w) reservation (sv_quota sv')\<rparr>))))"

definition start_provider ::
  "'sem turn_world \<Rightarrow> uuid option \<Rightarrow> 'sem server \<Rightarrow> (app_error + unit) \<times> 'sem server" where
  "start_provider w reservation sv =
     (let sv' = tw_others w 1 sv
      in case mark_daily_generation_provider_started (tw_started_at w) reservation (sv_quota sv') of
           (r, q) \<Rightarrow> (r, sv'\<lparr>sv_quota := q\<rparr>))"

definition complete_and_append_chat_message ::
  "chat_config \<Rightarrow> 'sem turn_world \<Rightarrow> owner_scope \<Rightarrow> uuid \<Rightarrow> chat_completion_context \<Rightarrow> uuid option
    \<Rightarrow> 'sem server \<Rightarrow> (app_error + completed_message) \<times> 'sem server" where
  "complete_and_append_chat_message cfg w owner i cx reservation sv =
     settle w reservation
       (case start_provider w reservation sv of
          (Inl e, sv1) \<Rightarrow> (Inl e, sv1)
        | (Inr _, sv1) \<Rightarrow>
            (case complete_chat (cc_ai cfg) (tw_ai w) (cr_profile (cx_chat cx)) (cx_ai_messages cx) of
               Inl e \<Rightarrow> (Inl e, sv1)
             | Inr m \<Rightarrow> append_reply cfg w owner i cx reservation m (tw_others w 2 sv1)))"

definition reserve_turn ::
  "chat_config \<Rightarrow> 'sem turn_world \<Rightarrow> uuid \<Rightarrow> uuid \<Rightarrow> 'sem server \<Rightarrow> (app_error + uuid option) \<times> 'sem server" where
  "reserve_turn cfg w session i sv =
     (let sv' = tw_others w 0 sv
      in case reserve_daily_generation_quota cfg w session i (sv_quota sv') of (r, q) \<Rightarrow> (r, sv'\<lparr>sv_quota := q\<rparr>))"

text \<open>The steps from the payload to the reservation; the permit lives until it is dropped.\<close>

definition admit_turn ::
  "chat_config \<Rightarrow> 'sem turn_world \<Rightarrow> uuid option \<Rightarrow> json_rejection + send_message_request \<Rightarrow> uuid \<Rightarrow> 'sem server
    \<Rightarrow> (app_error + owner_scope \<times> chat_completion_context \<times> uuid option \<times> generation_permit) \<times> 'sem server" where
  "admit_turn cfg w cookie payload i sv =
     (case send_message_payload payload of
        Inl e \<Rightarrow> (Inl e, sv)
      | Inr request \<Rightarrow>
          (case require_core_chat_session cookie (tw_session w) of
             Inl e \<Rightarrow> (Inl e, sv)
           | Inr session \<Rightarrow>
               (case enforce_sensitive_rate_limit (cc_policies cfg) ChatMessages (session_id session) (tw_ip w)
                       (tw_instant w) (sv_rates sv) of
                  (Inl e, rates) \<Rightarrow> (Inl e, sv\<lparr>sv_rates := rates\<rparr>)
                | (Inr _, rates) \<Rightarrow>
                    (let sv1 = sv\<lparr>sv_rates := rates\<rparr>
                     in case try_acquire (tw_sem_try w) (session_id session) i (sv_limiter sv1) of
                          (Inl e, l) \<Rightarrow> (Inl e, sv1\<lparr>sv_limiter := l\<rparr>)
                        | (Inr permit, l) \<Rightarrow>
                            (let sv2 = sv1\<lparr>sv_limiter := l\<rparr>;
                                 owner = scope_from_session session;
                                 dropped = (\<lambda>sv. sv\<lparr>sv_limiter := drop_permit (tw_sem_release w) permit (sv_limiter sv)\<rparr>)
                             in case prepare_chat_completion_context cfg (tw_outside w) owner i request
                                       (sv_chats sv2) (sv_files sv2) of
                                  Inl e \<Rightarrow> (Inl e, dropped sv2)
                                | Inr cx \<Rightarrow>
                                    (case reserve_turn cfg w (session_id session) i sv2 of
                                       (Inl e, sv3) \<Rightarrow> (Inl e, dropped sv3)
                                     | (Inr reservation, sv3) \<Rightarrow> (Inr (owner, cx, reservation, permit), sv3)))))))"

definition send_message ::
  "chat_config \<Rightarrow> 'sem turn_world \<Rightarrow> uuid option \<Rightarrow> json_rejection + send_message_request \<Rightarrow> uuid \<Rightarrow> 'sem server
    \<Rightarrow> (app_error + completed_message) \<times> 'sem server" where
  "send_message cfg w cookie payload i sv =
     (case admit_turn cfg w cookie payload i sv of
        (Inl e, sv1) \<Rightarrow> (Inl e, sv1)
      | (Inr (owner, cx, reservation, permit), sv1) \<Rightarrow>
          (case complete_and_append_chat_message cfg w owner i cx reservation sv1 of
             (result, sv2) \<Rightarrow>
               (result, sv2\<lparr>sv_limiter := drop_permit (tw_sem_release w) permit (sv_limiter sv2)\<rparr>)))"

section \<open>The streamed turn\<close>

datatype sse_event =
    MessageStart uuid ustr
  | TokenEvent ustr
  | MessageDone uuid stored_message stored_message
  | ErrorEvent string "error_reason option"

text \<open>The events sent, the characters counted, and how many events the client still takes before it leaves.\<close>

record sse_stream =
  ss_sent :: "sse_event list"
  ss_chars :: nat
  ss_room :: "nat option"

definition send_sse_event :: "sse_event \<Rightarrow> sse_stream \<Rightarrow> (app_error + unit) \<times> sse_stream" where
  "send_sse_event e s =
     (if ss_room s = Some 0 then (Inl ClientDisconnected, s)
      else (Inr (), s\<lparr>ss_sent := ss_sent s @ [e], ss_room := map_option (\<lambda>n. n - 1) (ss_room s)\<rparr>))"

definition reserve_output_chunk :: "nat \<Rightarrow> ustr \<Rightarrow> nat \<Rightarrow> app_error + nat" where
  "reserve_output_chunk current chunk max_chars =
     (let next = current + length chunk
      in if next < usize_limit \<and> next \<le> max_chars then Inr next else Inl output_limit_error)"

definition send_token :: "nat \<Rightarrow> sse_stream callback" where
  "send_token max_chars text s =
     (case reserve_output_chunk (ss_chars s) text max_chars of
        Inl e \<Rightarrow> (Inl e, s)
      | Inr n \<Rightarrow> send_sse_event (TokenEvent text) (s\<lparr>ss_chars := n\<rparr>))"

definition stream_error_message :: "app_error \<Rightarrow> string" where
  "stream_error_message e = (case e of Ai m \<Rightarrow> ''assistant response failed'' | _ \<Rightarrow> error_text e)"

definition stream_and_append_chat_message ::
  "chat_config \<Rightarrow> 'sem turn_world \<Rightarrow> owner_scope \<Rightarrow> uuid \<Rightarrow> chat_completion_context \<Rightarrow> uuid option \<Rightarrow> sse_stream
    \<Rightarrow> 'sem server \<Rightarrow> ((app_error + completed_message) \<times> 'sem server) \<times> sse_stream" where
  "stream_and_append_chat_message cfg w owner i cx reservation s sv =
     (case start_provider w reservation sv of
        (Inl e, sv1) \<Rightarrow> (settle w reservation (Inl e, sv1), s)
      | (Inr _, sv1) \<Rightarrow>
          (case stream_chat (cc_ai cfg) (tw_ai w) (send_token (cc_output_max_chars cfg)) (cr_profile (cx_chat cx))
                  (cx_ai_messages cx) (s\<lparr>ss_chars := 0\<rparr>) of
             (Inl e, s') \<Rightarrow> (settle w reservation (Inl e, sv1), s')
           | (Inr m, s') \<Rightarrow>
               (settle w reservation (append_reply cfg w owner i cx reservation m (tw_others w 2 sv1)), s')))"

text \<open>The spawned task: what the client gets, and the server when the task has ended.\<close>

definition stream_task ::
  "chat_config \<Rightarrow> 'sem turn_world \<Rightarrow> owner_scope \<Rightarrow> uuid \<Rightarrow> chat_completion_context \<Rightarrow> uuid option \<Rightarrow> 'sem server
    \<Rightarrow> sse_stream \<times> 'sem server" where
  "stream_task cfg w owner i cx reservation sv =
     (case send_sse_event (MessageStart i (cr_character (cx_chat cx)))
             \<lparr>ss_sent = [], ss_chars = 0, ss_room = tw_client_takes w\<rparr> of
        (Inl e, s) \<Rightarrow>
          (let sv' = tw_others w 3 sv
           in (s, sv'\<lparr>sv_quota := release_daily_generation_quota (tw_released_at w) reservation (sv_quota sv')\<rparr>))
      | (Inr _, s) \<Rightarrow>
          (case stream_and_append_chat_message cfg w owner i cx reservation s sv of
             ((Inr (u, a), sv'), s') \<Rightarrow> (snd (send_sse_event (MessageDone i u a) s'), sv')
           | ((Inl e, sv'), s') \<Rightarrow>
               (snd (send_sse_event (ErrorEvent (stream_error_message e) (error_reason_of e)) s'), sv')))"

definition stream_message ::
  "chat_config \<Rightarrow> 'sem turn_world \<Rightarrow> uuid option \<Rightarrow> json_rejection + send_message_request \<Rightarrow> uuid \<Rightarrow> 'sem server
    \<Rightarrow> (app_error + sse_event list) \<times> 'sem server" where
  "stream_message cfg w cookie payload i sv =
     (case admit_turn cfg w cookie payload i sv of
        (Inl e, sv1) \<Rightarrow> (Inl e, sv1)
      | (Inr (owner, cx, reservation, permit), sv1) \<Rightarrow>
          (case stream_task cfg w owner i cx reservation sv1 of
             (s, sv2) \<Rightarrow>
               (Inr (ss_sent s), sv2\<lparr>sv_limiter := drop_permit (tw_sem_release w) permit (sv_limiter sv2)\<rparr>)))"

end
