(* ===== verification/Chat_Run.thy ===== *)
theory Chat_Run
  imports Chat_Turn Chat_Store_Props Daily_Quota_Props
begin

text \<open>
  One concrete turn, evaluated: a guest's first message, a provider that answers it, in one piece and as a stream.
  The properties of a turn are applied to it.
\<close>

section \<open>The configuration and the world\<close>

definition run_ai_config :: ai_config where
  "run_ai_config = \<lparr>ac_provider = ''lmstudio'', ac_openai_key = None, ac_openai_base_url = [], ac_openai_model = [],
     ac_lmstudio_base_url = [], ac_lmstudio_model = [], ac_xai_key = None, ac_xai_base_url = [], ac_xai_model = [],
     ac_output_max_tokens = 100\<rparr>"

text \<open>A provider that answers \<open>ok\<close>, in two chunks when it streams; a JSON text is its own content.\<close>

definition run_ai_world :: ai_world where
  "run_ai_world = \<lparr>aw_parse = \<lambda>s. Inr [Some s], aw_parse_chunk = \<lambda>s. Inr [Some s], aw_send = \<lambda>p. Success (Inr (ascii ''ok'')),
     aw_open = \<lambda>p. Success [Chunk (ascii ''data: o'' @ [10]), Chunk ([10] @ ascii ''data:k'')],
     aw_base64 = map unat, aw_prompt = ch_name, aw_timed_out = False, aw_mock_tokens = None\<rparr>"

definition run_cfg :: chat_config where
  "run_cfg = \<lparr>cc_production = True, cc_message_max_chars = 5, cc_image_upload_enabled = False, cc_context_max_messages = 4,
     cc_context_max_chars = 20, cc_output_max_chars = 4, cc_registered_daily_quota = 2, cc_guest_daily_quota = 1,
     cc_global_daily_limit = 3, cc_total_timeout_seconds = 0, cc_max_images = 1, cc_max_total_bytes = 9,
     cc_limits = w_limits, cc_policies = default_policies, cc_ai = run_ai_config\<rparr>"

definition run_outside :: chat_outside where
  "run_outside = \<lparr>co_unicode = \<lparr>to_lower = \<lambda>s. s, is_alnum = \<lambda>c. False\<rparr>, co_fold_case = \<lambda>s. s,
     co_json_line = \<lambda>a b c. a, co_valid_zone = \<lambda>z. True, co_read_fault = \<lambda>k. None, co_db_now = 0, co_now = 0\<rparr>"

definition run_session :: session_record where
  "run_session = \<lparr>session_id = 1, session_user = 7, session_kind = Guest, session_created_at = 0\<rparr>"

definition run_world :: "nat turn_world" where
  "run_world = \<lparr>tw_outside = run_outside, tw_ai = run_ai_world, tw_sem_try = count_try, tw_sem_release = Suc,
     tw_session = \<lambda>i. Some run_session, tw_ip = ''10.0.0.1'', tw_instant = 0, tw_reserved_at = 1, tw_started_at = 2,
     tw_appended_at = 3, tw_released_at = 3, tw_reservation = 5, tw_user_id = 20, tw_assistant_id = 21, tw_job = 40,
     tw_created = 6, tw_client_takes = None, tw_others = \<lambda>k s. s\<rparr>"

definition run_limiter :: "nat generation_limiter" where
  "run_limiter = new_limiter 1 1"

definition run_server :: "nat server" where
  "run_server = \<lparr>sv_chats = w_created, sv_quota = demo_db, sv_files = \<lambda>p. None,
     sv_limiter = run_limiter, sv_rates = []\<rparr>"

definition run_payload :: "json_rejection + send_message_request" where
  "run_payload = Inr \<lparr>rq_content = ascii '' hi'', rq_attachments = [], rq_timezone = None\<rparr>"


definition run_context :: chat_completion_context where
  "run_context = \<lparr>cx_chat = \<lparr>cr_id = 10, cr_session = 1, cr_character = [97], cr_profile = [98], cr_messages = [],
     cr_created = 5, cr_updated = 5\<rparr>,
     cx_attachment_ids = [], cx_ai_messages = [text_message UserRole (ascii ''hi'')],
     cx_user_message = text_message UserRole (ascii ''hi''), cx_timezone = ascii ''UTC''\<rparr>"

lemma run_rates:
  "\<exists>rates. enforce_sensitive_rate_limit default_policies ChatMessages 1 ''10.0.0.1'' 0 [] = (Inr (), rates)"
  by (simp add: enforce_sensitive_rate_limit_def check_many_def keys_of_def for_validated_session_def retain_active_def
      policy_for_def default_policies_def per_minute_def default_window_def Let_def for_resolved_ip_def hm_get_def
      hm_insert_def)


lemma run_chat: "get_chat w_guest 10 w_created = Some (cx_chat run_context)"
  by (simp add: get_chat_def w_created_eq run_context_def w_guest_def w_empty_def empty_chat_db_def owns_chat_def
      owns_row_def chat_from_row_def messages_for_chat_def as_u64_def epoch_seconds_def)

lemma no_memory_messages:
  "memories db = [] \<Longrightarrow> memory_messages o' owner character content db = []"
  by (simp add: memory_messages_def retrieve_memory_context_def find_memory_retrieval_candidates_def Let_def
      select_memory_context_with_signals_def unique_items_def ranked_def)

lemma run_prepare:
  "prepare_chat_completion_context run_cfg run_outside w_guest 10
     \<lparr>rq_content = ascii '' hi'', rq_attachments = [], rq_timezone = None\<rparr> w_created files = Inr run_context"
proof -
  have "memories w_created = []" by (simp add: w_created_eq w_empty_def empty_chat_db_def)
  note no_memory_messages [OF this, simp]
  have "trim_by is_whitespace (ascii '' hi'') = ascii ''hi''"
    by (simp add: ascii_def trim_by_def is_whitespace_def)
  then show ?thesis
    by (simp add: prepare_chat_completion_context_def run_chat Let_def run_cfg_def run_outside_def
      ensure_chat_has_turn_capacity_def run_context_def w_limits_def exceeds_def usize_limit_def ascii_def
      validate_message_attachment_requests_def build_ai_user_message_def bounded_chat_history_def
      ensure_provider_supports_messages_def run_ai_config_def normalize_user_timezone_def text_message_def
      text_parts_def has_image_parts_def)
qed


definition run_reserved :: quota_db where
  "run_reserved = snd (reserve_daily_generation_quota run_cfg run_world 1 10 demo_db)"

definition run_started :: quota_db where
  "run_started = snd (mark_daily_generation_provider_started 2 (Some 5) run_reserved)"

lemma run_reserve: "reserve_daily_generation_quota run_cfg run_world 1 10 demo_db = (Inr (Some 5), run_reserved)"
  by (simp add: run_reserved_def reserve_daily_generation_quota_def run_cfg_def run_world_def stale_after_seconds_def
      sat_add_def limit_retry_after_seconds_def demo_db_def quota_eval)

lemma run_mark: "mark_daily_generation_provider_started 2 (Some 5) run_reserved = (Inr (), run_started)"
  by (simp add: run_started_def run_reserved_def mark_daily_generation_provider_started_def reserve_daily_generation_quota_def
      run_cfg_def run_world_def stale_after_seconds_def sat_add_def limit_retry_after_seconds_def demo_db_def quota_eval)

lemma run_commit: "\<exists>q. commit_quota 3 (Some 5) run_started = Inr q"
  by (simp add: commit_quota_def commit_reservation_def run_started_def run_reserved_def
      mark_daily_generation_provider_started_def reserve_daily_generation_quota_def
      run_cfg_def run_world_def stale_after_seconds_def sat_add_def limit_retry_after_seconds_def demo_db_def quota_eval)


definition run_user :: stored_message where
  "run_user = from_ai_message 20 6 (text_message UserRole (ascii ''hi''))"

definition run_reply :: stored_message where
  "run_reply = from_ai_message 21 6 (text_message AssistantRole (ascii ''ok''))"

lemma run_append:
  "\<exists>db q. append_chat_messages_limited_with_quota 3 40 w_guest 10 run_user run_reply [] (ascii ''UTC'') w_limits (Some 5)
     w_created run_started = (Inr (Appended run_user run_reply), db, q)"
proof -
  obtain q where q: "commit_quota 3 (Some 5) run_started = Inr q" using run_commit by blast
  show ?thesis
    by (simp add: append_chat_messages_limited_with_quota_def w_created_eq w_guest_def
      owns_chat_def owns_row_def append_over_limit_def exceeds_def usize_limit_def w_limits_def
      chat_messages_of_def stored_chars_def w_empty_def empty_chat_db_def run_user_def
      run_reply_def append_writes_def insert_turn_def row_of_message_def timestamp_of_seconds_def
      to_timestamp_def as_i64_def insert_message_def enqueue_memory_job_def w_zone btrim_blank_def
      link_attachments_def q touch_chat_def attachments_for_message_def from_ai_message_def ascii_def
      text_message_def text_content_def text_parts_def w_zone [unfolded ascii_def, simplified])
qed

lemma run_complete:
  "complete_chat run_ai_config run_ai_world [98] (cx_ai_messages run_context) = Inr (text_message AssistantRole (ascii ''ok''))"
  by (simp add: complete_chat_def run_ai_config_def run_ai_world_def run_context_def ensure_provider_supports_messages_def
      remote_provider_def lmstudio_provider_def complete_chat_completions_def completion_content_def
      apply_character_response_guard_def is_aiko_profile_iff has_image_parts_def text_message_def text_parts_def)
    (simp_all add: ascii_def)


lemma run_plain [simp]: "\<not> is_aiko_profile [98]" "\<not> has_image_parts (text_message UserRole (ascii ''hi''))"
  by (simp_all add: is_aiko_profile_iff ascii_def has_image_parts_def text_message_def text_parts_def)

lemma run_lines: "solid_lines (ascii ''data: o'' @ 10 # 10 # ascii ''data:k'') = [ascii ''data: o'', ascii ''data:k'']"
  by (simp add: solid_lines_def ascii_def newline_def)

lemma run_line:
  "process_line (\<lambda>s. Inr [Some s]) f (ascii ''data: o'') st = push_choices f [Some [111]] st"
  "process_line (\<lambda>s. Inr [Some s]) f (ascii ''data:k'') st = push_choices f [Some [107]] st"
  by (simp_all add: process_line_def ascii_def trim_by_def is_whitespace_def)

lemma run_stream:
  "\<exists>s'. stream_chat run_ai_config run_ai_world (send_token 4) [98] (cx_ai_messages run_context)
     \<lparr>ss_sent = [start], ss_chars = 0, ss_room = None\<rparr> = (Inr (text_message AssistantRole (ascii ''ok'')), s')
     \<and> ss_room s' = None"
proof -
  note whole = stream_loop_text [of "[]" "\<lambda>s. Inr [Some s]" "send_token 4" "[ascii ''data: o'' @ [10], [10] @ ascii ''data:k'']"]
  have "stream_chat run_ai_config run_ai_world (send_token 4) [98] (cx_ai_messages run_context) s
      = stream_of_text (\<lambda>s. Inr [Some s]) (send_token 4) (ascii ''data: o'' @ 10 # 10 # ascii ''data:k'') (new_guard [98], s)" for s
    using whole by (simp add: stream_chat_def run_ai_config_def run_ai_world_def run_context_def
      ensure_provider_supports_messages_def remote_provider_def lmstudio_provider_def stream_chat_completions_def)
  moreover have "ascii ''ok'' = [111, 107]" by (simp add: ascii_def)
  ultimately show ?thesis
    by (simp add: stream_of_text_def run_lines run_line new_guard_def push_delta_def send_token_def reserve_output_chunk_def
        usize_limit_def send_sse_event_def stop_stream_def finish_stream_def finish_guard_def final_stream_message_def)
qed

section \<open>The runs\<close>

lemma run_admit:
  "\<exists>rates permit l. admit_turn run_cfg run_world (Some 1) run_payload 10 run_server
     = (Inr (w_guest, run_context, Some 5, permit),
        run_server\<lparr>sv_rates := rates, sv_limiter := l, sv_quota := run_reserved\<rparr>)"
proof -
  obtain rates where r: "enforce_sensitive_rate_limit default_policies ChatMessages 1 ''10.0.0.1'' 0 [] = (Inr (), rates)"
    using run_rates by blast
  obtain permit l where a: "try_acquire count_try 1 10 run_limiter = (Inr permit, l)"
    by (simp add: try_acquire_def run_limiter_def new_limiter_def count_try_def counter_get_def hm_get_def)
  have owner: "scope_from_session run_session = w_guest" by (simp add: scope_from_session_def run_session_def w_guest_def)
  have "cc_policies run_cfg = default_policies" "tw_session run_world = (\<lambda>i. Some run_session)" "session_id run_session = 1"
    "tw_ip run_world = ''10.0.0.1''" "tw_instant run_world = 0" "tw_sem_try run_world = count_try"
    "tw_outside run_world = run_outside" "tw_others run_world = (\<lambda>k s. s)"
    by (simp_all add: run_cfg_def run_world_def run_session_def)
  then show ?thesis
    by (simp add: admit_turn_def run_payload_def send_message_payload_def require_core_chat_session_def
        run_server_def r a owner run_prepare reserve_turn_def run_reserve Let_def)
qed


lemma run_fields:
  "cc_ai run_cfg = run_ai_config" "cc_output_max_chars run_cfg = 4" "cc_limits run_cfg = w_limits"
  "tw_ai run_world = run_ai_world" "tw_others run_world = (\<lambda>k s. s)" "tw_started_at run_world = 2"
  "tw_appended_at run_world = 3" "tw_job run_world = 40" "tw_user_id run_world = 20" "tw_assistant_id run_world = 21"
  "tw_created run_world = 6" "tw_client_takes run_world = None" "tw_sem_release run_world = Suc" "tw_reservation run_world = 5"
  "tw_reserved_at run_world = 1" "tw_sem_try run_world = count_try" "cr_profile (cx_chat run_context) = [98]"
  by (simp_all add: run_cfg_def run_world_def run_context_def)

lemma run_started_provider:
  "sv_quota s = run_reserved \<Longrightarrow> start_provider run_world (Some 5) s = (Inr (), s\<lparr>sv_quota := run_started\<rparr>)"
  by (simp add: start_provider_def run_fields run_mark)

lemma run_append_reply:
  "sv_chats s = w_created \<Longrightarrow> sv_quota s = run_started \<Longrightarrow>
   \<exists>s'. append_reply run_cfg run_world w_guest 10 run_context (Some 5) (text_message AssistantRole (ascii ''ok'')) s
     = (Inr (run_user, run_reply), s')"
proof -
  assume s: "sv_chats s = w_created" "sv_quota s = run_started"
  have "text_content (text_message AssistantRole (ascii ''ok'')) = ascii ''ok''"
    by (simp add: text_content_def text_message_def text_parts_def ascii_def)
  then have "ensure_output_within_limit (text_message AssistantRole (ascii ''ok'')) 4 = Inr ()"
    by (simp add: ensure_output_within_limit_def ascii_def)
  moreover have "cx_user_message run_context = text_message UserRole (ascii ''hi'')" "cx_attachment_ids run_context = []"
    "cx_timezone run_context = ascii ''UTC''" by (simp_all add: run_context_def)
  ultimately show ?thesis
    using run_append by (auto simp: append_reply_def run_fields s completed_messages_def run_user_def [symmetric]
        run_reply_def [symmetric])
qed

lemma run_sends: "\<exists>sv'. send_message run_cfg run_world (Some 1) run_payload 10 run_server = (Inr (run_user, run_reply), sv')"
proof -
  obtain rates permit l where a: "admit_turn run_cfg run_world (Some 1) run_payload 10 run_server
     = (Inr (w_guest, run_context, Some 5, permit),
        run_server\<lparr>sv_rates := rates, sv_limiter := l, sv_quota := run_reserved\<rparr>)" (is "_ = (_, ?s)")
    using run_admit by blast
  let ?t = "?s\<lparr>sv_quota := run_started\<rparr>"
  obtain s' where "append_reply run_cfg run_world w_guest 10 run_context (Some 5)
      (text_message AssistantRole (ascii ''ok'')) ?t = (Inr (run_user, run_reply), s')"
    using run_append_reply [of ?t] by (auto simp: run_server_def)
  then show ?thesis
    by (simp add: send_message_def a complete_and_append_chat_message_def run_started_provider run_fields run_complete settle_def)
qed

lemma run_streams:
  "\<exists>events sv'. stream_message run_cfg run_world (Some 1) run_payload 10 run_server = (Inr events, sv')
     \<and> MessageDone 10 run_user run_reply \<in> set events"
proof -
  obtain rates permit l where a: "admit_turn run_cfg run_world (Some 1) run_payload 10 run_server
     = (Inr (w_guest, run_context, Some 5, permit),
        run_server\<lparr>sv_rates := rates, sv_limiter := l, sv_quota := run_reserved\<rparr>)" (is "_ = (_, ?s)")
    using run_admit by blast
  let ?t = "?s\<lparr>sv_quota := run_started\<rparr>"
  obtain s' where r: "append_reply run_cfg run_world w_guest 10 run_context (Some 5)
      (text_message AssistantRole (ascii ''ok'')) ?t = (Inr (run_user, run_reply), s')"
    using run_append_reply [of ?t] by (auto simp: run_server_def)
  obtain t' where "stream_chat run_ai_config run_ai_world (send_token 4) [98] (cx_ai_messages run_context)
     \<lparr>ss_sent = [MessageStart 10 (cr_character (cx_chat run_context))], ss_chars = 0, ss_room = None\<rparr>
       = (Inr (text_message AssistantRole (ascii ''ok'')), t')" "ss_room t' = None"
    using run_stream by blast
  with r show ?thesis
    by (simp add: stream_message_def a stream_task_def send_sse_event_def stream_and_append_chat_message_def
        run_started_provider run_fields settle_def)
qed

end
