(* ===== verification/Chat_Turn_Props.thy ===== *)
theory Chat_Turn_Props
  imports Chat_Run
begin

text \<open>
  A turn from the request to the stored reply: whatever happens, its reservation is settled, its permit is back
  and a failed turn leaves the chat as it was; a streamed reply is the stored one.
\<close>

section \<open>The quota\<close>

definition settled :: "uuid \<Rightarrow> quota_db \<Rightarrow> bool" where
  "settled i q \<longleftrightarrow> (\<forall>r\<in>set (reservations q). res_id r = i \<longrightarrow> \<not> has_reserved r)"

definition quota_sound :: "quota_db \<Rightarrow> bool" where
  "quota_sound q \<longleftrightarrow> (\<exists>t. quota_inv t q)"

definition unused :: "uuid \<Rightarrow> quota_db \<Rightarrow> bool" where
  "unused i q \<longleftrightarrow> i \<notin> res_id ` set (reservations q)"

lemma unused_settled: "unused i q \<Longrightarrow> settled i q"
  by (auto simp: unused_def settled_def)

lemma released_settled:
  assumes "release_chat_generation_quota now i q = Inr q'"
  shows "settled i q'"
proof (cases "find_reservation i q")
  case None
  with assms have "q' = q" by (simp add: release_chat_generation_quota_def)
  moreover from None have "unused i q" by (simp add: find_reservation_None unused_def)
  ultimately show ?thesis by (simp add: unused_settled)
next
  case (Some row)
  let ?f = "\<lambda>r. (released_states r)
     \<lparr>res_released_at := (if has_reserved r then Some now else res_released_at r),
      res_updated_at := (if has_reserved r then now else res_updated_at r)\<rparr>"
  from Some assms obtain q1 where "q' = update_reservation i ?f q1"
    by (auto simp: release_chat_generation_quota_def split: sum.splits)
  moreover have "\<not> has_reserved (?f r)" for r by (simp add: has_reserved_def released_states_def)
  ultimately show ?thesis by (auto simp: settled_def update_reservation_def)
qed

lemma release_settles: "quota_sound q \<Longrightarrow> settled i (release_daily_generation_quota now (Some i) q)"
proof -
  assume "quota_sound q"
  then obtain q' where "release_chat_generation_quota now i q = Inr q'" using release_ok unfolding quota_sound_def by blast
  with released_settled [OF this] show ?thesis by (simp add: release_daily_generation_quota_def)
qed

lemma updated_rows:
  "y \<in> set (reservations (update_reservation i f q)) \<Longrightarrow> \<exists>x\<in>set (reservations q). y = (if res_id x = i then f x else x)"
  by (auto simp: update_reservation_def)

lemma committed_settled:
  assumes sound: "quota_sound q" and run: "commit_reservation now i q = Inr q'"
  shows "settled i q'"
proof -
  let ?P = "\<lambda>r. res_owner_state r = OwnerReserved \<and> res_global_state r = GlobalConsumed"
  let ?f = "\<lambda>r. if ?P r then r\<lparr>res_owner_state := OwnerCommitted, res_committed_at := Some now, res_updated_at := now\<rparr> else r"
  have dist: "distinct (map res_id (reservations q))"
    using sound quota_invD(1) by (fastforce simp: quota_sound_def tables_ok_def)
  obtain r where r: "r \<in> set (reservations q)" "res_id r = i" "?P r" and q': "q' = update_reservation i ?f q"
    using run by (auto simp: commit_reservation_def split: if_splits)
  have "inj_on res_id (set (reservations q))" using dist by (simp add: distinct_map)
  then have eq: "x = r" if "x \<in> set (reservations q)" "res_id x = i" for x
    using inj_onD [of res_id "set (reservations q)" x r] r(1,2) that by simp
  have "\<not> has_reserved (?f r)" using r(3) by (simp add: has_reserved_def)
  then have "\<not> has_reserved (?f x)" if "x \<in> set (reservations q)" "res_id x = i" for x
    unfolding eq [OF that] .
  note free = this
  show ?thesis
    unfolding settled_def
  proof (intro ballI impI)
    fix y assume "y \<in> set (reservations q')" "res_id y = i"
    from updated_rows [OF this(1) [unfolded q']] obtain x
      where x: "x \<in> set (reservations q)" "y = (if res_id x = i then ?f x else x)" by (elim bexE)
    show "\<not> has_reserved y"
    proof (cases "res_id x = i")
      case True
      with x(2) have "y = ?f x" by (simp only: simp_thms if_True)
      with free [OF x(1) True] show ?thesis by (simp only: not_False_eq_True)
    next
      case False
      with x(2) \<open>res_id y = i\<close> show ?thesis by (simp only: simp_thms if_False)
    qed
  qed
qed

text \<open>What a reservation may be between two steps of a turn.\<close>

definition turn_quota :: "uuid \<Rightarrow> uuid option \<Rightarrow> quota_db \<Rightarrow> bool" where
  "turn_quota i reservation q \<longleftrightarrow>
     (case reservation of None \<Rightarrow> unused i q | Some r \<Rightarrow> r = i) \<and> quota_sound q"

text \<open>What other requests do to the quota: they keep its invariant and do not take the new UUID.\<close>

definition others_lawful :: "'sem turn_world \<Rightarrow> bool" where
  "others_lawful w \<longleftrightarrow> (\<forall>k s.
     (quota_sound (sv_quota s) \<longrightarrow> quota_sound (sv_quota (tw_others w k s)))
     \<and> (unused (tw_reservation w) (sv_quota s) \<longrightarrow> unused (tw_reservation w) (sv_quota (tw_others w k s)))
     \<and> (quota_inv (bangkok_date (tw_reserved_at w)) (sv_quota s)
         \<longrightarrow> quota_inv (bangkok_date (tw_reserved_at w)) (sv_quota (tw_others w k s))))"

lemma others_turn_quota:
  "others_lawful w \<Longrightarrow> turn_quota (tw_reservation w) r (sv_quota s) \<Longrightarrow> turn_quota (tw_reservation w) r (sv_quota (tw_others w k s))"
  by (auto simp: others_lawful_def turn_quota_def split: option.splits)

lemma released_turn: "turn_quota i r q \<Longrightarrow> settled i (release_daily_generation_quota now r q)"
  by (cases r) (auto simp: turn_quota_def unused_settled release_settles release_daily_generation_quota_def [of now None])

lemma mark_turn_quota:
  "turn_quota i r q \<Longrightarrow> mark_daily_generation_provider_started now r q = (out, q') \<Longrightarrow> turn_quota i r q'"
proof -
  assume t: "turn_quota i r q" and run: "mark_daily_generation_provider_started now r q = (out, q')"
  show ?thesis
  proof (cases r)
    case None
    with t run show ?thesis by (simp add: mark_daily_generation_provider_started_def)
  next
    case (Some x)
    from t obtain d where "quota_inv d q" by (auto simp: turn_quota_def quota_sound_def)
    from mark_ok [OF this, of now x] obtain b q1 where "mark_provider_started now x q = Inr (b, q1)" "quota_inv d q1" by blast
    with run Some t show ?thesis
      by (cases b) (auto simp: mark_daily_generation_provider_started_def turn_quota_def quota_sound_def)
  qed
qed

lemma start_turn_quota:
  "others_lawful w \<Longrightarrow> turn_quota (tw_reservation w) r (sv_quota sv) \<Longrightarrow> start_provider w r sv = (out, sv')
    \<Longrightarrow> turn_quota (tw_reservation w) r (sv_quota sv')"
proof -
  assume w: "others_lawful w" and t: "turn_quota (tw_reservation w) r (sv_quota sv)" and run: "start_provider w r sv = (out, sv')"
  obtain o1 q where m: "mark_daily_generation_provider_started (tw_started_at w) r (sv_quota (tw_others w 1 sv)) = (o1, q)"
    by fastforce
  with run have "sv' = tw_others w 1 sv\<lparr>sv_quota := q\<rparr>" by (simp add: start_provider_def Let_def)
  with mark_turn_quota [OF others_turn_quota [OF w t] m] show ?thesis by simp
qed

lemma append_reply_quota:
  assumes "turn_quota i r (sv_quota sv)" and "append_reply cfg w owner c cx r m sv = (result, sv')"
  shows "case result of Inl e \<Rightarrow> turn_quota i r (sv_quota sv') | Inr t \<Rightarrow> settled i (sv_quota sv')"
proof -
  have commit: "settled i q'" if "commit_quota now r (sv_quota sv) = Inr q'" for now q'
    using assms(1) that committed_settled by (auto simp: turn_quota_def commit_quota_def unused_settled split: option.splits)
  show ?thesis
    using assms
    by (auto simp: append_reply_def append_chat_messages_limited_with_quota_def completed_messages_def
        intro: commit split: sum.splits option.splits prod.splits if_splits)
qed

lemma settle_turn:
  assumes "others_lawful w" and "settle w r (result, sv) = (result', sv')"
    and "case result of Inl e \<Rightarrow> turn_quota (tw_reservation w) r (sv_quota sv) | Inr t \<Rightarrow> settled (tw_reservation w) (sv_quota sv)"
  shows "settled (tw_reservation w) (sv_quota sv')"
proof (cases result)
  case (Inl e)
  with assms(3) have "turn_quota (tw_reservation w) r (sv_quota sv)" by simp
  from released_turn [OF others_turn_quota [OF assms(1) this]] assms(2) Inl show ?thesis by (auto simp: settle_def Let_def)
next
  case (Inr t)
  with assms(2,3) show ?thesis by (auto simp: settle_def)
qed

lemma complete_turn:
  assumes "others_lawful w" and "turn_quota (tw_reservation w) r (sv_quota sv)"
    and run: "complete_and_append_chat_message cfg w owner i cx r sv = (result, sv')"
  shows "settled (tw_reservation w) (sv_quota sv')"
proof -
  obtain out sv1 where s: "start_provider w r sv = (out, sv1)" by fastforce
  note q1 = start_turn_quota [OF assms(1,2) s]
  obtain res sv2 where body: "(case start_provider w r sv of
          (Inl e, sv1) \<Rightarrow> (Inl e, sv1)
        | (Inr _, sv1) \<Rightarrow>
            (case complete_chat (cc_ai cfg) (tw_ai w) (cr_profile (cx_chat cx)) (cx_ai_messages cx) of
               Inl e \<Rightarrow> (Inl e, sv1)
             | Inr m \<Rightarrow> append_reply cfg w owner i cx r m (tw_others w 2 sv1))) = (res, sv2)" by fastforce
  have "case res of Inl e \<Rightarrow> turn_quota (tw_reservation w) r (sv_quota sv2) | Inr t \<Rightarrow> settled (tw_reservation w) (sv_quota sv2)"
  proof (cases out)
    case (Inl e)
    with body s q1 show ?thesis by auto
  next
    case (Inr u)
    show ?thesis
    proof (cases "complete_chat (cc_ai cfg) (tw_ai w) (cr_profile (cx_chat cx)) (cx_ai_messages cx)")
      case (Inl e)
      with body s \<open>out = Inr u\<close> q1 show ?thesis by auto
    next
      case (Inr m)
      with body s \<open>out = Inr u\<close> have "append_reply cfg w owner i cx r m (tw_others w 2 sv1) = (res, sv2)" by simp
      from append_reply_quota [OF others_turn_quota [OF assms(1) q1] this] show ?thesis .
    qed
  qed
  with settle_turn [OF assms(1), of r res sv2] run show ?thesis
    unfolding complete_and_append_chat_message_def body by blast
qed

lemma stream_turn:
  assumes "others_lawful w" and "turn_quota (tw_reservation w) r (sv_quota sv)"
    and run: "stream_and_append_chat_message cfg w owner i cx r s sv = ((result, sv'), s')"
  shows "settled (tw_reservation w) (sv_quota sv')"
proof -
  obtain out sv1 where st: "start_provider w r sv = (out, sv1)" by fastforce
  note q1 = start_turn_quota [OF assms(1,2) st]
  note failed = settle_turn [OF assms(1), of r "Inl e" sv1 for e]
  show ?thesis
  proof (cases out)
    case (Inl e)
    with run st have "settle w r (Inl e, sv1) = (result, sv')" by (simp add: stream_and_append_chat_message_def)
    with failed q1 show ?thesis by simp
  next
    case (Inr u)
    obtain reply s1 where chat: "stream_chat (cc_ai cfg) (tw_ai w) (send_token (cc_output_max_chars cfg)) (cr_profile (cx_chat cx))
        (cx_ai_messages cx) (s\<lparr>ss_chars := 0\<rparr>) = (reply, s1)" by fastforce
    show ?thesis
    proof (cases reply)
      case (Inl e)
      with run st \<open>out = Inr u\<close> chat have "settle w r (Inl e, sv1) = (result, sv')" by (simp add: stream_and_append_chat_message_def)
      with failed q1 show ?thesis by simp
    next
      case (Inr m)
      obtain res sv2 where a: "append_reply cfg w owner i cx r m (tw_others w 2 sv1) = (res, sv2)" by fastforce
      with run st \<open>out = Inr u\<close> chat Inr have "settle w r (res, sv2) = (result, sv')"
        by (simp add: stream_and_append_chat_message_def)
      from settle_turn [OF assms(1) this append_reply_quota [OF others_turn_quota [OF assms(1) q1] a]] show ?thesis .
    qed
  qed
qed

lemma task_turn:
  assumes "others_lawful w" and "turn_quota (tw_reservation w) r (sv_quota sv)"
    and run: "stream_task cfg w owner i cx r sv = (s, sv')"
  shows "settled (tw_reservation w) (sv_quota sv')"
proof (cases "tw_client_takes w = Some 0")
  case True
  with run released_turn [OF others_turn_quota [OF assms(1,2)]] show ?thesis
    by (auto simp: stream_task_def send_sse_event_def Let_def)
next
  case False
  then obtain s1 where start: "send_sse_event (MessageStart i (cr_character (cx_chat cx)))
      \<lparr>ss_sent = [], ss_chars = 0, ss_room = tw_client_takes w\<rparr> = (Inr (), s1)" by (simp add: send_sse_event_def)
  obtain result sv1 s2 where t: "stream_and_append_chat_message cfg w owner i cx r s1 sv = ((result, sv1), s2)" by (metis surj_pair)
  with run start have "sv' = sv1" by (auto simp: stream_task_def split: sum.splits prod.splits)
  with stream_turn [OF assms(1,2) t] show ?thesis by simp
qed

section \<open>Admission\<close>

lemma admit_cases:
  assumes "admit_turn cfg w cookie payload i sv = (out, sv')"
  obtains (early) e where "out = Inl e" "sv_chats sv' = sv_chats sv" "sv_quota sv' = sv_quota sv"
      "sv_limiter sv' = sv_limiter sv
        \<or> (\<exists>session permit l. try_acquire (tw_sem_try w) session i (sv_limiter sv) = (Inr permit, l)
             \<and> sv_limiter sv' = drop_permit (tw_sem_release w) permit l)"
  | (refused) e session permit s t where "out = Inl e"
      "try_acquire (tw_sem_try w) session i (sv_limiter sv) = (Inr permit, sv_limiter s)"
      "sv_chats s = sv_chats sv" "sv_quota s = sv_quota sv" "reserve_turn cfg w session i s = (Inl e, t)"
      "sv' = t\<lparr>sv_limiter := drop_permit (tw_sem_release w) permit (sv_limiter t)\<rparr>"
  | (admitted) request session cx r permit s where "payload = Inr request"
      "require_core_chat_session cookie (tw_session w) = Inr session"
      "out = Inr (scope_from_session session, cx, r, permit)"
      "prepare_chat_completion_context cfg (tw_outside w) (scope_from_session session) i request (sv_chats sv) (sv_files sv) = Inr cx"
      "try_acquire (tw_sem_try w) (session_id session) i (sv_limiter sv) = (Inr permit, sv_limiter s)"
      "sv_chats s = sv_chats sv" "sv_quota s = sv_quota sv" "reserve_turn cfg w (session_id session) i s = (Inr r, sv')"
proof (cases "send_message_payload payload")
  case (Inl e)
  with assms have "out = Inl e" "sv' = sv" by (auto simp: admit_turn_def)
  with early show ?thesis by simp
next
  case (Inr request)
  then have payload: "payload = Inr request" by (auto simp: send_message_payload_def split: sum.splits json_rejection.splits)
  note run1 = assms [unfolded admit_turn_def Inr sum.case]
  show ?thesis
  proof (cases "require_core_chat_session cookie (tw_session w)")
    case (Inl e)
    with run1 have "out = Inl e" "sv' = sv" by auto
    with early show ?thesis by simp
  next
    case (Inr session)
    obtain out1 rates where rate: "enforce_sensitive_rate_limit (cc_policies cfg) ChatMessages (session_id session) (tw_ip w)
        (tw_instant w) (sv_rates sv) = (out1, rates)" by fastforce
    obtain out2 l where acq: "try_acquire (tw_sem_try w) (session_id session) i (sv_limiter sv) = (out2, l)" by fastforce
    show ?thesis
    proof (cases out1)
      case (Inl e)
      with run1 have "out = Inl e" "sv' = sv\<lparr>sv_rates := rates\<rparr>" by (auto simp: Inr rate)
      with early show ?thesis by simp
    next
      case (Inr u1)
      note run2 = run1 [unfolded \<open>require_core_chat_session cookie (tw_session w) = Inr session\<close> rate Inr sum.case prod.case]
      show ?thesis
      proof (cases out2)
        case (Inl e)
        then have "l = sv_limiter sv" using acq by (auto simp: try_acquire_def split: if_splits option.splits)
        with run2 Inl have "out = Inl e" "sv' = sv\<lparr>sv_rates := rates, sv_limiter := sv_limiter sv\<rparr>" by (auto simp: acq Let_def)
        with early show ?thesis by simp
      next
        case (Inr permit)
        let ?s = "sv\<lparr>sv_rates := rates, sv_limiter := l\<rparr>"
        note run3 = run2 [unfolded Let_def, simplified, unfolded acq Inr sum.case prod.case]
        show ?thesis
        proof (cases "prepare_chat_completion_context cfg (tw_outside w) (scope_from_session session) i request
            (sv_chats sv) (sv_files sv)")
          case (Inl e)
          with run3 have "out = Inl e"
            "sv' = sv\<lparr>sv_rates := rates, sv_limiter := drop_permit (tw_sem_release w) permit l\<rparr>" by auto
          with early [of e] acq \<open>out2 = Inr permit\<close> show ?thesis by simp blast
        next
          case (Inr cx)
          obtain r t where res: "reserve_turn cfg w (session_id session) i ?s = (r, t)" by fastforce
          show ?thesis
          proof (cases r)
            case (Inl e)
            with run3 Inr res have "out = Inl e"
              "sv' = t\<lparr>sv_limiter := drop_permit (tw_sem_release w) permit (sv_limiter t)\<rparr>" by auto
            with refused [of e "session_id session" permit ?s t] res acq Inl \<open>out2 = Inr permit\<close> show ?thesis by simp
          next
            case (Inr x)
            with run3 \<open>_ = Inr cx\<close> res have "out = Inr (scope_from_session session, cx, x, permit)" "sv' = t" by auto
            with admitted [of request session cx x permit ?s] \<open>_ = Inr cx\<close> res Inr acq payload \<open>out2 = Inr permit\<close>
              \<open>_ = Inr session\<close> show ?thesis by simp
          qed
        qed
      qed
    qed
  qed
qed

lemma reserve_generation_refused:
  "reserve_chat_generation_quota now i session c a b d e q = Inr (adm, q') \<Longrightarrow> adm = Admitted i \<or> q' = q \<and> (\<forall>x. adm \<noteq> Admitted x)"
  by (auto simp: reserve_chat_generation_quota_def Let_def split: option.splits sum.splits prod.splits if_splits)

lemma reserve_turn_quota:
  assumes lawful: "others_lawful w" and inv: "quota_inv (bangkok_date (tw_reserved_at w)) (sv_quota s)"
    and fresh: "unused (tw_reservation w) (sv_quota s)" and run: "reserve_turn cfg w session i s = (out, t)"
  shows "case out of Inl e \<Rightarrow> settled (tw_reservation w) (sv_quota t) | Inr r \<Rightarrow> turn_quota (tw_reservation w) r (sv_quota t)"
proof -
  let ?i = "tw_reservation w" and ?q = "sv_quota (tw_others w 0 s)"
  have q: "quota_inv (bangkok_date (tw_reserved_at w)) ?q" "unused ?i ?q"
    using lawful inv fresh by (auto simp: others_lawful_def)
  obtain q' where t: "reserve_daily_generation_quota cfg w session i ?q = (out, q')" "sv_quota t = q'"
    using run by (auto simp: reserve_turn_def Let_def split: prod.splits)
  show ?thesis
  proof (cases "cc_production cfg")
    case False
    with t q show ?thesis by (auto simp: reserve_daily_generation_quota_def turn_quota_def quota_sound_def)
  next
    case True
    let ?r = "reserve_chat_generation_quota (tw_reserved_at w) ?i session i (cc_registered_daily_quota cfg)
        (cc_guest_daily_quota cfg) (cc_global_daily_limit cfg) (stale_after_seconds cfg) ?q"
    show ?thesis
    proof (cases ?r)
      case (Inl e)
      with t True unused_settled [OF q(2)] show ?thesis by (auto simp: reserve_daily_generation_quota_def)
    next
      case (Inr a)
      obtain adm q1 where a: "a = (adm, q1)" by fastforce
      from reserve_generation_refused [OF Inr [unfolded a]] show ?thesis
      proof (elim disjE conjE)
        assume "adm = Admitted ?i"
        with t True Inr a reserve_ok [OF q(1), of ?i session i "cc_registered_daily_quota cfg" "cc_guest_daily_quota cfg"
            "cc_global_daily_limit cfg" "stale_after_seconds cfg"]
        show ?thesis by (auto simp: reserve_daily_generation_quota_def turn_quota_def quota_sound_def)
      next
        assume "q1 = ?q" "\<forall>x. adm \<noteq> Admitted x"
        with t True Inr a unused_settled [OF q(2)] show ?thesis
          by (cases adm) (auto simp: reserve_daily_generation_quota_def)
      qed
    qed
  qed
qed

lemma admit_quota:
  assumes lawful: "others_lawful w" and inv: "quota_inv (bangkok_date (tw_reserved_at w)) (sv_quota sv)"
    and fresh: "unused (tw_reservation w) (sv_quota sv)" and run: "admit_turn cfg w cookie payload i sv = (out, sv')"
  shows "case out of Inl e \<Rightarrow> settled (tw_reservation w) (sv_quota sv')
    | Inr (owner, cx, r, permit) \<Rightarrow> turn_quota (tw_reservation w) r (sv_quota sv')"
  using run
proof (cases rule: admit_cases)
  case (early e)
  with unused_settled [OF fresh] show ?thesis by simp
next
  case (refused e session permit s t)
  with reserve_turn_quota [OF lawful _ _ refused(5)] inv fresh show ?thesis by simp
next
  case (admitted request session cx r permit s)
  with reserve_turn_quota [OF lawful _ _ admitted(8)] inv fresh show ?thesis by simp
qed

text \<open>
  C2: Whatever other requests do between its steps, a chat turn that has returned, or whose stream has ended,
  holds no reservation of the daily quota: it is committed with the stored turn or released, on every path.
\<close>

theorem chat_turn_settles_quota:
  assumes "others_lawful w" and "quota_inv (bangkok_date (tw_reserved_at w)) (sv_quota sv)"
    and "unused (tw_reservation w) (sv_quota sv)"
  shows "settled (tw_reservation w) (sv_quota (snd (send_message cfg w cookie payload i sv)))
    \<and> settled (tw_reservation w) (sv_quota (snd (stream_message cfg w cookie payload i sv)))"
proof -
  obtain out sv1 where a: "admit_turn cfg w cookie payload i sv = (out, sv1)" by fastforce
  note q = admit_quota [OF assms a]
  show ?thesis
  proof (cases out)
    case (Inl e)
    with q a show ?thesis by (simp add: send_message_def stream_message_def)
  next
    case (Inr admitted)
    obtain owner cx r permit where adm: "admitted = (owner, cx, r, permit)" by (metis prod_cases4)
    with q Inr have t: "turn_quota (tw_reservation w) r (sv_quota sv1)" by simp
    obtain result sv2 where c: "complete_and_append_chat_message cfg w owner i cx r sv1 = (result, sv2)" by fastforce
    obtain s sv3 where d: "stream_task cfg w owner i cx r sv1 = (s, sv3)" by fastforce
    from complete_turn [OF assms(1) t c] task_turn [OF assms(1) t d] a Inr adm c d show ?thesis
      by (simp add: send_message_def stream_message_def)
  qed
qed

lemma run_others: "others_lawful run_world"
  by (simp add: others_lawful_def run_fields)

theorem chat_turn_settles_quota_witness:
  "\<exists>sv'. send_message run_cfg run_world (Some 1) run_payload 10 run_server = (Inr (run_user, run_reply), sv')
    \<and> settled 5 (sv_quota sv')"
proof -
  have q: "sv_quota run_server = demo_db" by (simp add: run_server_def)
  then have "unused (tw_reservation run_world) (sv_quota run_server)"
    by (simp add: unused_def demo_db_def quota_run_def quota_start_def quota_step_def Let_def)
  with chat_turn_settles_quota [OF run_others, of run_server run_cfg "Some 1" run_payload 10] run_sends demo_db_inv
  show ?thesis by (fastforce simp: q run_fields)
qed

section \<open>A turn alone\<close>

definition same_limiter :: "('sem \<Rightarrow> nat) \<Rightarrow> 'sem generation_limiter \<Rightarrow> 'sem generation_limiter \<Rightarrow> bool" where
  "same_limiter available l l' \<longleftrightarrow>
     active_chats l = active_chats l' \<and> (\<forall>s. counter_get (active_sessions l) s = counter_get (active_sessions l') s)
     \<and> available (global_sem l) = available (global_sem l') \<and> max_per_session l = max_per_session l'"

lemma same_limiter_refl: "same_limiter available l l"
  by (simp add: same_limiter_def)

lemma permit_returned:
  assumes "semaphore_laws sem_try sem_release available" and "try_acquire sem_try session i l = (Inr permit, l')"
  shows "same_limiter available l (drop_permit sem_release permit l')"
  using assms
  by (auto simp: try_acquire_def drop_permit_def same_limiter_def semaphore_laws_def split: if_splits option.splits)

text \<open>The part of the server a turn leaves alone when nothing else runs.\<close>

lemma reserve_turn_frame:
  "\<forall>k s. tw_others w k s = s \<Longrightarrow> reserve_turn cfg w session i s = (out, t)
    \<Longrightarrow> sv_chats t = sv_chats s \<and> sv_limiter t = sv_limiter s"
  by (auto simp: reserve_turn_def Let_def split: prod.splits)

lemma start_provider_frame:
  "\<forall>k s. tw_others w k s = s \<Longrightarrow> start_provider w r s = (out, t) \<Longrightarrow> sv_chats t = sv_chats s \<and> sv_limiter t = sv_limiter s"
  by (auto simp: start_provider_def Let_def split: prod.splits)

definition turn_stored ::
  "chat_config \<Rightarrow> 'sem turn_world \<Rightarrow> owner_scope \<Rightarrow> uuid \<Rightarrow> chat_completion_context \<Rightarrow> uuid option \<Rightarrow> ai_message \<Rightarrow> completed_message
    \<Rightarrow> chat_db \<Rightarrow> chat_db \<Rightarrow> bool" where
  "turn_stored cfg w owner i cx r m turn db db' \<longleftrightarrow>
     length (text_content m) \<le> cc_output_max_chars cfg
     \<and> (\<exists>q q'. append_chat_messages_limited_with_quota (tw_appended_at w) (tw_job w) owner i
           (from_ai_message (tw_user_id w) (tw_created w) (cx_user_message cx)) (from_ai_message (tw_assistant_id w) (tw_created w) m)
           (cx_attachment_ids cx) (cx_timezone cx) (cc_limits cfg) r db q = (Inr (Appended (fst turn) (snd turn)), db', q'))"

lemma append_reply_frame:
  assumes "append_reply cfg w owner i cx r m sv = (result, sv')"
  shows "sv_limiter sv' = sv_limiter sv
    \<and> (case result of Inl e \<Rightarrow> sv_chats sv' = sv_chats sv
       | Inr turn \<Rightarrow> turn_stored cfg w owner i cx r m turn (sv_chats sv) (sv_chats sv'))"
proof (cases "ensure_output_within_limit m (cc_output_max_chars cfg)")
  case (Inl e)
  with assms show ?thesis by (auto simp: append_reply_def)
next
  case (Inr u)
  then have short: "length (text_content m) \<le> cc_output_max_chars cfg"
    by (auto simp: ensure_output_within_limit_def split: if_splits)
  obtain out db q where a: "append_chat_messages_limited_with_quota (tw_appended_at w) (tw_job w) owner i
           (from_ai_message (tw_user_id w) (tw_created w) (cx_user_message cx)) (from_ai_message (tw_assistant_id w) (tw_created w) m)
           (cx_attachment_ids cx) (cx_timezone cx) (cc_limits cfg) r (sv_chats sv) (sv_quota sv) = (out, db, q)"
    by (metis prod_cases3)
  have kept: "db = sv_chats sv" if "\<forall>u' a'. out \<noteq> Inr (Appended u' a')"
    using a that by (auto simp: append_chat_messages_limited_with_quota_def split: option.splits sum.splits if_splits)
  show ?thesis
  proof (cases "\<exists>u' a'. out = Inr (Appended u' a')")
    case True
    with assms Inr a short show ?thesis
      by (fastforce simp: append_reply_def completed_messages_def turn_stored_def)
  next
    case False
    then have "db = sv_chats sv" using kept by blast
    with False assms Inr a show ?thesis
      by (auto simp: append_reply_def completed_messages_def split: sum.splits append_outcome.splits)
  qed
qed

lemma settle_frame:
  "\<forall>k s. tw_others w k s = s \<Longrightarrow> settle w r (result, s) = (result', t)
    \<Longrightarrow> result' = result \<and> sv_chats t = sv_chats s \<and> sv_limiter t = sv_limiter s"
  by (auto simp: settle_def Let_def split: sum.splits)

lemma complete_frame:
  assumes alone: "\<forall>k s. tw_others w k s = s" and run: "complete_and_append_chat_message cfg w owner i cx r sv = (result, sv')"
  shows "sv_limiter sv' = sv_limiter sv
    \<and> (case result of Inl e \<Rightarrow> sv_chats sv' = sv_chats sv
       | Inr turn \<Rightarrow> \<exists>m. turn_stored cfg w owner i cx r m turn (sv_chats sv) (sv_chats sv'))"
proof -
  obtain out sv1 where st: "start_provider w r sv = (out, sv1)" by fastforce
  note f = start_provider_frame [OF alone st]
  show ?thesis
  proof (cases out)
    case (Inl e)
    with run st have "settle w r (Inl e, sv1) = (result, sv')" by (simp add: complete_and_append_chat_message_def)
    from settle_frame [OF alone this] f show ?thesis by auto
  next
    case (Inr u)
    show ?thesis
    proof (cases "complete_chat (cc_ai cfg) (tw_ai w) (cr_profile (cx_chat cx)) (cx_ai_messages cx)")
      case (Inl e)
      with run st \<open>out = Inr u\<close> have "settle w r (Inl e, sv1) = (result, sv')" by (simp add: complete_and_append_chat_message_def)
      from settle_frame [OF alone this] f show ?thesis by auto
    next
      case (Inr m)
      obtain res sv2 where a: "append_reply cfg w owner i cx r m sv1 = (res, sv2)" by fastforce
      with run st \<open>out = Inr u\<close> Inr alone have "settle w r (res, sv2) = (result, sv')"
        by (simp add: complete_and_append_chat_message_def)
      from settle_frame [OF alone this] f append_reply_frame [OF a] show ?thesis by (auto split: sum.splits)
    qed
  qed
qed



end
