(* ===== verification/Chat_Stream_Props.thy ===== *)
theory Chat_Stream_Props
  imports Chat_Turn_Props
begin

text \<open>
  What a client of a streamed turn receives: the events in their order, and the tokens of the reply.
\<close>

section \<open>The events of a stream\<close>

text \<open>The state of the stream after the tokens whose text is \<open>x\<close>.\<close>

definition streamed :: "sse_event \<Rightarrow> nat \<Rightarrow> ustr \<Rightarrow> sse_stream \<Rightarrow> bool" where
  "streamed start max_chars x s \<longleftrightarrow>
     ss_chars s = length x \<and> length x \<le> max_chars
     \<and> (\<exists>ts. ss_sent s = start # map TokenEvent ts \<and> concat ts = x)"

lemma send_token_logs: "logs_tokens (streamed start max_chars) (send_token max_chars)"
proof (unfold logs_tokens_def, intro allI impI)
  fix t s u s' x assume run: "send_token max_chars t s = (Inr u, s')" and x: "streamed start max_chars x s"
  from run have n: "ss_chars s + length t \<le> max_chars"
    and s': "ss_sent s' = ss_sent s @ [TokenEvent t]" "ss_chars s' = ss_chars s + length t"
    by (auto simp: send_token_def reserve_output_chunk_def send_sse_event_def Let_def split: if_splits sum.splits)
  from x obtain ts where "ss_sent s = start # map TokenEvent ts" "concat ts = x" by (auto simp: streamed_def)
  then have "ss_sent s' = start # map TokenEvent (ts @ [t])" "concat (ts @ [t]) = x @ t" using s' by simp_all
  with x n s' show "streamed start max_chars (x @ t) s'" unfolding streamed_def by (metis length_append)
qed

text \<open>Until the turn is stored, the client has no answer.\<close>

definition unanswered :: "sse_stream \<Rightarrow> bool" where
  "unanswered s \<longleftrightarrow> (\<forall>i u a. MessageDone i u a \<notin> set (ss_sent s))"

lemma send_token_unanswered: "keeps unanswered (send_token max_chars)"
  by (auto simp: keeps_def unanswered_def send_token_def send_sse_event_def split: sum.splits)

lemma stream_unanswered:
  assumes "unanswered s" and "stream_and_append_chat_message cfg w owner i cx r s sv = (out, s')"
  shows "unanswered s'"
proof -
  have s0: "unanswered (s\<lparr>ss_chars := 0\<rparr>)" using assms(1) by (simp add: unanswered_def)
  obtain o1 sv1 where st: "start_provider w r sv = (o1, sv1)" by fastforce
  obtain reply s1 where chat: "stream_chat (cc_ai cfg) (tw_ai w) (send_token (cc_output_max_chars cfg)) (cr_profile (cx_chat cx))
      (cx_ai_messages cx) (s\<lparr>ss_chars := 0\<rparr>) = (reply, s1)" by fastforce
  from stream_chat_keeps [OF send_token_unanswered s0] chat have "unanswered s1" by (metis snd_conv)
  with assms st chat show ?thesis
    by (cases o1; cases reply) (simp_all add: stream_and_append_chat_message_def)
qed

lemma appended_assistant:
  "append_chat_messages_limited_with_quota now job owner i u a ids zone limits r db q = (Inr (Appended u' a'), db', q')
    \<Longrightarrow> a' = a"
  by (auto simp: append_chat_messages_limited_with_quota_def split: option.splits sum.splits if_splits)

lemma answered_stream:
  assumes "stream_and_append_chat_message cfg w owner i cx r s sv = ((Inr (u, a), sv'), s')"
    and "streamed start (cc_output_max_chars cfg) [] s"
  shows "streamed start (cc_output_max_chars cfg) (sm_content a) s'"
proof -
  obtain out sv1 where st: "start_provider w r sv = (out, sv1)" by fastforce
  with assms(1) obtain v where v: "out = Inr v" by (cases out) (auto simp: stream_and_append_chat_message_def settle_def Let_def)
  obtain reply s1 where chat: "stream_chat (cc_ai cfg) (tw_ai w) (send_token (cc_output_max_chars cfg)) (cr_profile (cx_chat cx))
      (cx_ai_messages cx) (s\<lparr>ss_chars := 0\<rparr>) = (reply, s1)" by fastforce
  with assms(1) st v obtain m where m: "reply = Inr m"
    by (cases reply) (auto simp: stream_and_append_chat_message_def settle_def Let_def)
  obtain res sv2 where ap: "append_reply cfg w owner i cx r m (tw_others w 2 sv1) = (res, sv2)" by fastforce
  with assms(1) st v chat m have s': "s' = s1" and "settle w r (res, sv2) = (Inr (u, a), sv')"
    by (auto simp: stream_and_append_chat_message_def)
  then have "res = Inr (u, a)" by (auto simp: settle_def Let_def split: sum.splits)
  with append_reply_frame [OF ap] have "turn_stored cfg w owner i cx r m (u, a) (sv_chats (tw_others w 2 sv1)) (sv_chats sv2)"
    by simp
  then have "a = from_ai_message (tw_assistant_id w) (tw_created w) m" by (auto simp: turn_stored_def dest: appended_assistant)
  then have content: "sm_content a = text_content m" by (simp add: from_ai_message_def)
  have "streamed start (cc_output_max_chars cfg) [] (s\<lparr>ss_chars := 0\<rparr>)" using assms(2) by (simp add: streamed_def)
  from stream_chat_log [OF send_token_logs this chat [unfolded m]] show ?thesis by (simp add: s' content)
qed

text \<open>
  C3: A client that receives the end of a streamed reply has received the start of the message and
  the tokens of the reply before it, nothing else: the tokens put together are the text that was stored as the assistant's
  message, and it keeps the output limit.
\<close>

theorem chat_stream_sends_reply:
  assumes "stream_message cfg w cookie payload i sv = (Inr events, sv')" and "MessageDone j u a \<in> set events"
  shows "\<exists>character ts. events = MessageStart i character # map TokenEvent ts @ [MessageDone i u a] \<and> j = i
    \<and> concat ts = sm_content a \<and> length (sm_content a) \<le> cc_output_max_chars cfg"
proof -
  obtain owner cx r permit sv1 s sv2 where t: "stream_task cfg w owner i cx r sv1 = (s, sv2)" and e: "events = ss_sent s"
    using assms(1) by (auto simp: stream_message_def split: prod.splits sum.splits)
  let ?start = "MessageStart i (cr_character (cx_chat cx))"
  let ?s0 = "\<lparr>ss_sent = [], ss_chars = 0, ss_room = tw_client_takes w\<rparr>"
  have some: "tw_client_takes w \<noteq> Some 0"
    using t e assms(2) by (auto simp: stream_task_def send_sse_event_def Let_def)
  then obtain s1 where start: "send_sse_event ?start ?s0 = (Inr (), s1)"
    and s1: "streamed ?start (cc_output_max_chars cfg) [] s1" by (auto simp: send_sse_event_def streamed_def)
  obtain result sv3 s2 where run: "stream_and_append_chat_message cfg w owner i cx r s1 sv1 = ((result, sv3), s2)"
    by (metis surj_pair)
  show ?thesis
  proof (cases result)
    case (Inl err)
    have "unanswered s1" using s1 by (auto simp: streamed_def unanswered_def)
    from stream_unanswered [OF this run] have "MessageDone j u a \<notin> set (ss_sent s2)" by (simp add: unanswered_def)
    moreover have "ss_sent s = ss_sent (snd (send_sse_event (ErrorEvent (stream_error_message err) (error_reason_of err)) s2))"
      using t start run Inl by (auto simp: stream_task_def)
    ultimately have False using e assms(2) by (auto simp: send_sse_event_def split: if_splits)
    then show ?thesis ..
  next
    case (Inr turn)
    obtain u' a' where turn: "turn = (u', a')" by fastforce
    have s: "s = snd (send_sse_event (MessageDone i u' a') s2)" using t start run Inr turn by (simp add: stream_task_def)
    from answered_stream [OF _ s1] run Inr turn obtain ts
      where ts: "ss_sent s2 = ?start # map TokenEvent ts" "concat ts = sm_content a'"
        "length (sm_content a') \<le> cc_output_max_chars cfg" by (fastforce simp: streamed_def)
    from s e assms(2) ts(1) have "events = ss_sent s2 @ [MessageDone i u' a']" "j = i" "u = u'" "a = a'"
      by (auto simp: send_sse_event_def split: if_splits)
    with ts show ?thesis by auto
  qed
qed

theorem chat_stream_sends_reply_witness:
  "\<exists>events sv' character ts. stream_message run_cfg run_world (Some 1) run_payload 10 run_server = (Inr events, sv')
    \<and> events = MessageStart 10 character # map TokenEvent ts @ [MessageDone 10 run_user run_reply]
    \<and> concat ts = ascii ''ok''"
proof -
  obtain events sv' where run: "stream_message run_cfg run_world (Some 1) run_payload 10 run_server = (Inr events, sv')"
    and answered: "MessageDone 10 run_user run_reply \<in> set events" using run_streams by blast
  have "sm_content run_reply = ascii ''ok''"
    by (simp add: run_reply_def from_ai_message_def text_message_def text_content_def text_parts_def ascii_def)
  with chat_stream_sends_reply [OF run answered] run show ?thesis by auto
qed

end
