(* ===== verification/Spec2Isabelle.thy ===== *)
theory Spec2Isabelle
  imports Rate_Limit Generation_Limit Daily_Quota_Props Cafe_Abuse Cafe_Tea_Loss
    Cafe_Socket_Props Cafe_Progress_Props Sync_Pages Chat_Store_Props Memory_Select_Props
    Memory_Capture_Props Attachment_Props Chat_Stream_Props
begin

text \<open>
  The API server of wfchat (crate \<open>wfchat-api\<close>, \<open>src/apps/api/src\<close>).
\<close>

end
